(* ===== verification/QHPrelude.thy ===== *)
theory QHPrelude
  imports Main "HOL-Library.Char_ord" "HOL-Library.Sublist"
begin

text \<open>
  Shared vocabulary of the development: bytes and byte offsets.

  A Rust \<open>&str\<close> or \<open>&[u8]\<close> is a \<open>byte list\<close>. A byte is Isabelle's \<open>char\<close>, which has exactly
  256 values, so the ASCII literals of the source are written as the source writes them
  (\<open>CHR '';''\<close> for \<open>b';'\<close>). Text beyond ASCII is the list of its UTF-8 bytes, as Rust's \<open>as_bytes\<close>
  gives it, and every offset is a byte offset.

  \<open>get\<close> is the checked read \<open>bytes.get(i)\<close>, \<open>slice\<close> is \<open>&bytes[a..b]\<close>, \<open>skip_while\<close> is the loop
  \<open>while i < len && p(bytes[i]) { i += 1 }\<close>. The classification of bytes is that of Rust's
  \<open>u8::is_ascii_*\<close>, and \<open>trim\<close> is that of \<open>str::trim\<close>, which removes Unicode white space.
\<close>

section \<open>Bytes\<close>

type_synonym byte = char
type_synonym bytes = "char list"

named_theorems byte_class_defs \<open>the ASCII classes unfolded to ranges of byte values\<close>
named_theorems get_simps \<open>rewriting of checked reads\<close>

definition byte_val :: "byte \<Rightarrow> nat" where
  "byte_val c = of_char c"

definition is_ascii_digit :: "byte \<Rightarrow> bool" where
  [byte_class_defs]: "is_ascii_digit c \<longleftrightarrow> 48 \<le> byte_val c \<and> byte_val c \<le> 57"

definition is_ascii_uppercase :: "byte \<Rightarrow> bool" where
  [byte_class_defs]: "is_ascii_uppercase c \<longleftrightarrow> 65 \<le> byte_val c \<and> byte_val c \<le> 90"

definition is_ascii_lowercase :: "byte \<Rightarrow> bool" where
  [byte_class_defs]: "is_ascii_lowercase c \<longleftrightarrow> 97 \<le> byte_val c \<and> byte_val c \<le> 122"

definition is_ascii_alphabetic :: "byte \<Rightarrow> bool" where
  [byte_class_defs]: "is_ascii_alphabetic c \<longleftrightarrow> is_ascii_uppercase c \<or> is_ascii_lowercase c"

definition is_ascii_alphanumeric :: "byte \<Rightarrow> bool" where
  [byte_class_defs]: "is_ascii_alphanumeric c \<longleftrightarrow> is_ascii_alphabetic c \<or> is_ascii_digit c"

definition is_ascii_whitespace :: "byte \<Rightarrow> bool" where
  [byte_class_defs]: "is_ascii_whitespace c \<longleftrightarrow> byte_val c \<in> {9, 10, 12, 13, 32}"

definition is_ascii_control :: "byte \<Rightarrow> bool" where
  [byte_class_defs]: "is_ascii_control c \<longleftrightarrow> byte_val c < 32 \<or> byte_val c = 127"

definition is_ascii_punctuation :: "byte \<Rightarrow> bool" where
  [byte_class_defs]: "is_ascii_punctuation c \<longleftrightarrow>
     33 \<le> byte_val c \<and> byte_val c \<le> 47 \<or> 58 \<le> byte_val c \<and> byte_val c \<le> 64 \<or>
     91 \<le> byte_val c \<and> byte_val c \<le> 96 \<or> 123 \<le> byte_val c \<and> byte_val c \<le> 126"

definition is_high :: "byte \<Rightarrow> bool" where
  [byte_class_defs]: "is_high c \<longleftrightarrow> 128 \<le> byte_val c"

text \<open>A UTF-8 byte that continues a character.\<close>

definition is_continuation :: "byte \<Rightarrow> bool" where
  "is_continuation c \<longleftrightarrow> 128 \<le> byte_val c \<and> byte_val c < 192"

definition ascii_upper :: "byte \<Rightarrow> byte" where
  "ascii_upper c = (if is_ascii_lowercase c then char_of (byte_val c - 32) else c)"

definition ascii_lower :: "byte \<Rightarrow> byte" where
  "ascii_lower c = (if is_ascii_uppercase c then char_of (byte_val c + 32) else c)"

definition to_ascii_uppercase :: "bytes \<Rightarrow> bytes" where
  "to_ascii_uppercase s = map ascii_upper s"

definition to_ascii_lowercase :: "bytes \<Rightarrow> bytes" where
  "to_ascii_lowercase s = map ascii_lower s"

definition eq_ignore_ascii_case :: "bytes \<Rightarrow> bytes \<Rightarrow> bool" where
  "eq_ignore_ascii_case a b \<longleftrightarrow> to_ascii_lowercase a = to_ascii_lowercase b"

lemma byte_val_Char [simp]: "byte_val (Char b0 b1 b2 b3 b4 b5 b6 b7) =
    of_char (Char b0 b1 b2 b3 b4 b5 b6 b7)"
  by (simp add: byte_val_def)

lemma byte_val_less [simp]: "byte_val c < 256"
  by (simp add: byte_val_def)

lemma byte_val_eq_iff: "byte_val c = byte_val d \<longleftrightarrow> c = d"
  by (simp add: byte_val_def)

lemma byte_val_char_of [simp]: "n < 256 \<Longrightarrow> byte_val (char_of n) = n"
  by (simp add: byte_val_def)

lemma byte_val_literal: "byte_val c = n \<longleftrightarrow> n < 256 \<and> c = char_of n"
  by (metis byte_val_char_of byte_val_eq_iff byte_val_less)

lemma is_ascii_whitespace_iff:
  "is_ascii_whitespace c \<longleftrightarrow>
     c = CHR 0x09 \<or> c = CHR 0x0A \<or> c = CHR 0x0C \<or> c = CHR 0x0D \<or> c = CHR '' ''"
proof -
  have "(c = d) = (byte_val c = byte_val d)" for d by (simp add: byte_val_eq_iff)
  from this [of "CHR 0x09"] this [of "CHR 0x0A"] this [of "CHR 0x0C"] this [of "CHR 0x0D"]
    this [of "CHR '' ''"]
  show ?thesis by (simp add: is_ascii_whitespace_def)
qed

lemma byte_val_ascii_upper:
  "byte_val (ascii_upper c) =
     (if 97 \<le> byte_val c \<and> byte_val c \<le> 122 then byte_val c - 32 else byte_val c)"
  using byte_val_less [of c] by (auto simp: ascii_upper_def is_ascii_lowercase_def)

lemma byte_val_ascii_lower:
  "byte_val (ascii_lower c) =
     (if 65 \<le> byte_val c \<and> byte_val c \<le> 90 then byte_val c + 32 else byte_val c)"
  by (auto simp: ascii_lower_def is_ascii_uppercase_def)

lemma ascii_lower_upper: "ascii_lower (ascii_upper c) = ascii_lower c"
  by (rule iffD1 [OF byte_val_eq_iff]) (auto simp: byte_val_ascii_upper byte_val_ascii_lower)

lemma ascii_upper_lower: "ascii_upper (ascii_lower c) = ascii_upper c"
  by (rule iffD1 [OF byte_val_eq_iff]) (auto simp: byte_val_ascii_upper byte_val_ascii_lower)

lemma ascii_upper_idem [simp]: "ascii_upper (ascii_upper c) = ascii_upper c"
  by (rule iffD1 [OF byte_val_eq_iff]) (auto simp: byte_val_ascii_upper)

lemma to_ascii_uppercase_idem [simp]: "to_ascii_uppercase (to_ascii_uppercase s) = to_ascii_uppercase s"
  by (simp add: to_ascii_uppercase_def)

lemma length_to_ascii_uppercase [simp]: "length (to_ascii_uppercase s) = length s"
  by (simp add: to_ascii_uppercase_def)

lemma to_ascii_uppercase_append [simp]:
  "to_ascii_uppercase (s @ t) = to_ascii_uppercase s @ to_ascii_uppercase t"
  by (simp add: to_ascii_uppercase_def)

text \<open>Two texts are equal up to case exactly when their uppercase forms are equal.\<close>

lemma eq_ignore_ascii_case_upper:
  "eq_ignore_ascii_case a b \<longleftrightarrow> to_ascii_uppercase a = to_ascii_uppercase b"
proof
  assume "eq_ignore_ascii_case a b"
  then have "map ascii_upper (map ascii_lower a) = map ascii_upper (map ascii_lower b)"
    by (simp add: eq_ignore_ascii_case_def to_ascii_lowercase_def)
  then show "to_ascii_uppercase a = to_ascii_uppercase b"
    by (simp add: to_ascii_uppercase_def comp_def ascii_upper_lower)
next
  assume "to_ascii_uppercase a = to_ascii_uppercase b"
  then have "map ascii_lower (map ascii_upper a) = map ascii_lower (map ascii_upper b)"
    by (simp add: to_ascii_uppercase_def)
  then show "eq_ignore_ascii_case a b"
    by (simp add: eq_ignore_ascii_case_def to_ascii_lowercase_def comp_def ascii_lower_upper)
qed

section \<open>Checked reads, slices and loops over offsets\<close>

definition get :: "'a list \<Rightarrow> nat \<Rightarrow> 'a option" where
  "get xs i = (if i < length xs then Some (xs ! i) else None)"

definition slice :: "'a list \<Rightarrow> nat \<Rightarrow> nat \<Rightarrow> 'a list" where
  "slice xs a b = take (b - a) (drop a xs)"

definition starts_with_at :: "'a list \<Rightarrow> nat \<Rightarrow> 'a list \<Rightarrow> bool" where
  "starts_with_at xs i p \<longleftrightarrow> take (length p) (drop i xs) = p"

function skip_while :: "('a \<Rightarrow> bool) \<Rightarrow> 'a list \<Rightarrow> nat \<Rightarrow> nat" where
  "skip_while P xs i = (if i < length xs \<and> P (xs ! i) then skip_while P xs (Suc i) else i)"
  by pat_completeness auto
termination
  by (relation "measure (\<lambda>(P, xs, i). length xs - i)") auto

declare skip_while.simps [simp del]

lemma get_Some_iff [get_simps]: "get xs i = Some x \<longleftrightarrow> i < length xs \<and> xs ! i = x"
  by (simp add: get_def)

lemma get_None_iff [get_simps]: "get xs i = None \<longleftrightarrow> length xs \<le> i"
  by (auto simp: get_def)

lemma length_slice [simp]: "length (slice xs a b) = min (b - a) (length xs - a)"
  by (simp add: slice_def)

lemma slice_empty [simp]: "slice xs a a = []"
  by (simp add: slice_def)

lemma slice_all [simp]: "slice xs 0 (length xs) = xs"
  by (simp add: slice_def)

lemma nth_slice [simp]: "i < b - a \<Longrightarrow> a + i < length xs \<Longrightarrow> slice xs a b ! i = xs ! (a + i)"
  by (simp add: slice_def)

lemma slice_append_slice:
  assumes "a \<le> b" "b \<le> c"
  shows "slice xs a b @ slice xs b c = slice xs a c"
proof -
  have "drop b xs = drop (b - a) (drop a xs)" using assms by simp
  moreover have "c - a = (b - a) + (c - b)" using assms by simp
  ultimately show ?thesis by (simp only: slice_def take_add)
qed

lemma skip_while_le: "i \<le> skip_while P xs i"
proof (induction P xs i rule: skip_while.induct)
  case (1 P xs i)
  then show ?case by (simp add: skip_while.simps [of P xs i] Suc_leD)
qed

lemma skip_while_le_length: "i \<le> length xs \<Longrightarrow> skip_while P xs i \<le> length xs"
proof (induction P xs i rule: skip_while.induct)
  case (1 P xs i)
  then show ?case by (simp add: skip_while.simps [of P xs i])
qed

lemma skip_while_holds: "i \<le> k \<Longrightarrow> k < skip_while P xs i \<Longrightarrow> k < length xs \<and> P (xs ! k)"
proof (induction P xs i rule: skip_while.induct)
  case (1 P xs i)
  then show ?case
    by (cases "k = i") (auto simp: skip_while.simps [of P xs i] split: if_splits)
qed

lemma skip_while_stops: "skip_while P xs i < length xs \<Longrightarrow> \<not> P (xs ! skip_while P xs i)"
proof (induction P xs i rule: skip_while.induct)
  case (1 P xs i)
  then show ?case by (auto simp: skip_while.simps [of P xs i] split: if_splits)
qed

lemma skip_while_past: "length xs \<le> i \<Longrightarrow> skip_while P xs i = i"
  by (subst skip_while.simps) simp

lemma skip_while_eqI:
  assumes "i \<le> j" and "\<And>k. i \<le> k \<Longrightarrow> k < j \<Longrightarrow> k < length xs \<and> P (xs ! k)"
    and "j < length xs \<Longrightarrow> \<not> P (xs ! j)"
  shows "skip_while P xs i = j"
proof (rule ccontr)
  let ?s = "skip_while P xs i"
  assume "?s \<noteq> j"
  then consider "?s < j" | "j < ?s" by linarith
  then show False
  proof cases
    case 1
    with assms(2) [of ?s] skip_while_le [of i P xs] skip_while_stops [of P xs i]
    show False by auto
  next
    case 2
    with skip_while_holds [OF assms(1) 2] assms(3) show False by auto
  qed
qed

lemma skip_while_Suc: "i < length xs \<Longrightarrow> P (xs ! i) \<Longrightarrow> Suc i \<le> skip_while P xs i"
  by (subst skip_while.simps) (simp add: skip_while_le)

text \<open>Non-empty spans, one after the other, from \<open>lo\<close> to at most \<open>hi\<close>.\<close>

fun chain :: "nat \<Rightarrow> nat \<Rightarrow> (nat \<times> nat) list \<Rightarrow> bool" where
  "chain lo hi [] = (lo \<le> hi)"
| "chain lo hi ((a, b) # xs) = (lo \<le> a \<and> a < b \<and> chain b hi xs)"

lemma chain_le: "chain lo hi xs \<Longrightarrow> lo \<le> hi"
  by (induction lo hi xs rule: chain.induct) auto

lemma chain_append: "chain a b xs \<Longrightarrow> chain b c ys \<Longrightarrow> chain a c (xs @ ys)"
proof (induction a b xs rule: chain.induct)
  case (1 lo hi)
  then show ?case by (cases ys) auto
qed auto

lemma chain_weaken: "chain a b xs \<Longrightarrow> a' \<le> a \<Longrightarrow> b \<le> b' \<Longrightarrow> chain a' b' xs"
  by (induction a b xs arbitrary: a' rule: chain.induct) auto

lemma chain_shift: "chain a b xs \<Longrightarrow> chain (n + a) (n + b) (map (\<lambda>(x, y). (n + x, n + y)) xs)"
  by (induction a b xs rule: chain.induct) auto

lemma chain_sorted: "chain a b xs \<Longrightarrow>
    sorted_wrt (\<lambda>x y. snd x \<le> fst y) xs \<and> list_all (\<lambda>x. a \<le> fst x \<and> fst x < snd x \<and> snd x \<le> b) xs"
proof (induction a b xs rule: chain.induct)
  case (2 lo hi a b xs)
  then have "chain b hi xs" by simp
  from chain_le [OF this] 2 show ?case by (auto simp: list_all_iff)
qed simp

text \<open>Rust's \<open>join\<close>.\<close>

fun join :: "bytes \<Rightarrow> bytes list \<Rightarrow> bytes" where
  "join sep [] = []"
| "join sep [s] = s"
| "join sep (s # t # ss) = s @ sep @ join sep (t # ss)"

section \<open>Trimming white space\<close>

text \<open>
  \<open>ws_head s\<close> is the number of bytes of the white space character that \<open>s\<close> begins with, 0 if it
  begins with none: the characters with Unicode's \<open>White_Space\<close> property, in UTF-8.
\<close>

definition ws3 :: "nat \<Rightarrow> nat \<Rightarrow> nat \<Rightarrow> bool" where
  "ws3 a b c \<longleftrightarrow>
     a = 0xE1 \<and> b = 0x9A \<and> c = 0x80 \<or>
     a = 0xE2 \<and> b = 0x80 \<and> (0x80 \<le> c \<and> c \<le> 0x8A \<or> c = 0xA8 \<or> c = 0xA9 \<or> c = 0xAF) \<or>
     a = 0xE2 \<and> b = 0x81 \<and> c = 0x9F \<or>
     a = 0xE3 \<and> b = 0x80 \<and> c = 0x80"

fun ws_head :: "bytes \<Rightarrow> nat" where
  "ws_head (a # b # c # s) =
     (if 9 \<le> byte_val a \<and> byte_val a \<le> 13 \<or> byte_val a = 32 then 1
      else if byte_val a = 0xC2 \<and> (byte_val b = 0x85 \<or> byte_val b = 0xA0) then 2
      else if ws3 (byte_val a) (byte_val b) (byte_val c) then 3 else 0)"
| "ws_head [a, b] =
     (if 9 \<le> byte_val a \<and> byte_val a \<le> 13 \<or> byte_val a = 32 then 1
      else if byte_val a = 0xC2 \<and> (byte_val b = 0x85 \<or> byte_val b = 0xA0) then 2 else 0)"
| "ws_head [a] = (if 9 \<le> byte_val a \<and> byte_val a \<le> 13 \<or> byte_val a = 32 then 1 else 0)"
| "ws_head [] = 0"

definition ws_last :: "bytes \<Rightarrow> nat" where
  "ws_last s =
     (let n = length s in
      if 1 \<le> n \<and> ws_head (drop (n - 1) s) = 1 then 1
      else if 2 \<le> n \<and> ws_head (drop (n - 2) s) = 2 then 2
      else if 3 \<le> n \<and> ws_head (drop (n - 3) s) = 3 then 3 else 0)"

lemma ws_head_le: "ws_head s \<le> length s"
  by (induction s rule: ws_head.induct) auto

lemma ws_last_le: "ws_last s \<le> length s"
  by (simp add: ws_last_def Let_def)

function trim_start :: "bytes \<Rightarrow> bytes" where
  "trim_start s = (if ws_head s = 0 then s else trim_start (drop (ws_head s) s))"
  by pat_completeness auto
termination
proof (relation "measure length")
  fix s assume "ws_head s \<noteq> 0"
  with ws_head_le [of s] show "(drop (ws_head s) s, s) \<in> measure length"
    by (cases s) auto
qed simp

function trim_end :: "bytes \<Rightarrow> bytes" where
  "trim_end s = (if ws_last s = 0 then s else trim_end (take (length s - ws_last s) s))"
  by pat_completeness auto
termination
proof (relation "measure length")
  fix s assume "ws_last s \<noteq> 0"
  with ws_last_le [of s] show "(take (length s - ws_last s) s, s) \<in> measure length"
    by (cases s) auto
qed simp

declare trim_start.simps [simp del] trim_end.simps [simp del]

definition trim :: "bytes \<Rightarrow> bytes" where
  "trim s = trim_end (trim_start s)"

lemma trim_start_suffix: "suffix (trim_start s) s"
proof (induction s rule: trim_start.induct)
  case (1 s)
  show ?case
  proof (cases "ws_head s = 0")
    case True then show ?thesis by (subst trim_start.simps) simp
  next
    case False
    with 1 have "suffix (trim_start (drop (ws_head s) s)) (drop (ws_head s) s)" by simp
    then have "suffix (trim_start (drop (ws_head s) s)) s"
      by (rule suffix_order.trans) (rule suffix_drop)
    with False show ?thesis by (subst trim_start.simps) simp
  qed
qed

lemma trim_end_prefix: "prefix (trim_end s) s"
proof (induction s rule: trim_end.induct)
  case (1 s)
  show ?case
  proof (cases "ws_last s = 0")
    case True then show ?thesis by (subst trim_end.simps) simp
  next
    case False
    with 1 have "prefix (trim_end (take (length s - ws_last s) s)) (take (length s - ws_last s) s)"
      by simp
    then have "prefix (trim_end (take (length s - ws_last s) s)) s"
      by (rule prefix_order.trans) (rule take_is_prefix)
    with False show ?thesis by (subst trim_end.simps) simp
  qed
qed

lemma trim_sublist: "sublist (trim s) s"
proof -
  obtain post where "trim_start s = trim s @ post"
    using trim_end_prefix [of "trim_start s"] by (auto simp: trim_def prefix_def)
  moreover obtain pre where "s = pre @ trim_start s"
    using trim_start_suffix [of s] by (auto simp: suffix_def)
  ultimately have "s = pre @ trim s @ post" by simp
  then show ?thesis unfolding sublist_def by blast
qed

lemma trim_end_idem [simp]: "trim_end (trim_end s) = trim_end s"
proof (induction s rule: trim_end.induct)
  case (1 s)
  show ?case
  proof (cases "ws_last s = 0")
    case True
    then show ?thesis by (simp add: trim_end.simps [of s])
  next
    case False
    with 1 have "trim_end (trim_end (take (length s - ws_last s) s)) =
        trim_end (take (length s - ws_last s) s)" by simp
    with False show ?thesis by (simp add: trim_end.simps [of s])
  qed
qed

end
