(* ===== verification/SqlLexer.thy ===== *)
theory SqlLexer
  imports QHPrelude
begin

text \<open>
  The lexical rules of \<^verbatim>\<open>crates/qh-sql/src/scan.rs\<close>: the dialects, the record of settings that one
  scan follows (\<open>Lexer\<close>), the readings a guard has to satisfy at once, and the predicates on single
  bytes and short byte sequences that the scanner branches on.
\<close>

section \<open>Dialects and lexers\<close>

datatype dialect = Generic | Mysql | Postgres | Trino

record lexer =
  mysql_syntax :: bool
  trino :: bool
  postgres :: bool
  backslash_escapes :: bool
  vt_is_space :: bool
  ansi_quotes :: bool
  executable_code :: bool

definition GENERIC :: lexer where
  "GENERIC = \<lparr>mysql_syntax = False, trino = False, postgres = False,
     backslash_escapes = False, vt_is_space = False, ansi_quotes = False,
     executable_code = False\<rparr>"

definition lexer_mysql :: "bool \<Rightarrow> bool \<Rightarrow> bool \<Rightarrow> lexer" where
  "lexer_mysql backslash ansi exec = \<lparr>mysql_syntax = True, trino = False, postgres = False,
     backslash_escapes = backslash, vt_is_space = False, ansi_quotes = ansi,
     executable_code = exec\<rparr>"

definition MYSQL :: lexer where
  "MYSQL = lexer_mysql True False True"

definition TRINO :: lexer where
  "TRINO = \<lparr>mysql_syntax = False, trino = True, postgres = False,
     backslash_escapes = False, vt_is_space = False, ansi_quotes = False,
     executable_code = False\<rparr>"

definition lexer_postgres :: "bool \<Rightarrow> bool \<Rightarrow> lexer" where
  "lexer_postgres backslash vt = \<lparr>mysql_syntax = False, trino = False, postgres = True,
     backslash_escapes = backslash, vt_is_space = vt, ansi_quotes = False,
     executable_code = False\<rparr>"

definition POSTGRES :: lexer where
  "POSTGRES = lexer_postgres False True"

named_theorems lexer_defs \<open>the concrete lexers unfolded to records\<close>
lemmas [lexer_defs] = GENERIC_def MYSQL_def TRINO_def POSTGRES_def lexer_mysql_def lexer_postgres_def

definition runs_executable_comments :: "lexer \<Rightarrow> bool" where
  "runs_executable_comments lx = executable_code lx"

definition dollar_quotes :: "lexer \<Rightarrow> bool" where
  "dollar_quotes lx = (\<not> mysql_syntax lx \<and> \<not> trino lx)"

definition ident_dollar :: "lexer \<Rightarrow> bool" where
  "ident_dollar lx = (mysql_syntax lx \<or> postgres lx)"

definition unicode_ident :: "lexer \<Rightarrow> bool" where
  "unicode_ident lx = postgres lx"

definition backtick_quotes :: "lexer \<Rightarrow> bool" where
  "backtick_quotes lx = (\<not> postgres lx \<and> \<not> trino lx)"

definition nested_comments :: "lexer \<Rightarrow> bool" where
  "nested_comments lx = postgres lx"

definition cr_ends_line :: "lexer \<Rightarrow> bool" where
  "cr_ends_line lx = (postgres lx \<or> trino lx)"

definition is_postgres :: "lexer \<Rightarrow> bool" where
  "is_postgres lx = postgres lx"

definition is_mysql :: "lexer \<Rightarrow> bool" where
  "is_mysql lx = mysql_syntax lx"

definition hash_comment :: "lexer \<Rightarrow> bool" where
  "hash_comment lx = mysql_syntax lx"

definition dash_needs_space :: "lexer \<Rightarrow> bool" where
  "dash_needs_space lx = mysql_syntax lx"

definition single_backslash :: "lexer \<Rightarrow> bool" where
  "single_backslash lx = backslash_escapes lx"

definition double_backslash :: "lexer \<Rightarrow> bool" where
  "double_backslash lx = (backslash_escapes lx \<and> \<not> ansi_quotes lx \<and> \<not> postgres lx)"

named_theorems lexer_rules \<open>the lexer's rules unfolded to its settings\<close>
lemmas [lexer_rules] =
  runs_executable_comments_def dollar_quotes_def ident_dollar_def unicode_ident_def
  backtick_quotes_def nested_comments_def cr_ends_line_def is_postgres_def is_mysql_def
  hash_comment_def dash_needs_space_def single_backslash_def double_backslash_def

fun lexer_of :: "dialect \<Rightarrow> lexer" where
  "lexer_of Generic = GENERIC"
| "lexer_of Mysql = MYSQL"
| "lexer_of Postgres = POSTGRES"
| "lexer_of Trino = TRINO"

definition GENERIC_READINGS :: "lexer list" where
  "GENERIC_READINGS = [GENERIC]"

definition TRINO_READINGS :: "lexer list" where
  "TRINO_READINGS = [TRINO]"

definition MYSQL_READINGS :: "lexer list" where
  "MYSQL_READINGS =
     [lexer_mysql True False True, lexer_mysql True True True, lexer_mysql False False True,
      lexer_mysql True False False, lexer_mysql True True False, lexer_mysql False False False]"

definition POSTGRES_READINGS :: "lexer list" where
  "POSTGRES_READINGS =
     [lexer_postgres False True, lexer_postgres True True,
      lexer_postgres False False, lexer_postgres True False]"

fun readings :: "dialect \<Rightarrow> lexer list" where
  "readings Generic = GENERIC_READINGS"
| "readings Mysql = MYSQL_READINGS"
| "readings Postgres = POSTGRES_READINGS"
| "readings Trino = TRINO_READINGS"

lemmas readings_defs =
  GENERIC_READINGS_def TRINO_READINGS_def MYSQL_READINGS_def POSTGRES_READINGS_def

lemma readings_nonempty: "readings d \<noteq> []"
  by (cases d) (simp_all add: readings_defs)

lemma lexer_of_reading: "lexer_of d \<in> set (readings d)"
  by (cases d) (simp_all add: readings_defs lexer_defs)

section \<open>Bytes under a lexer\<close>

definition is_ident_start :: "byte \<Rightarrow> lexer \<Rightarrow> bool" where
  "is_ident_start b lx \<longleftrightarrow>
     is_ascii_alphabetic b \<or> b = CHR ''_'' \<or> (unicode_ident lx \<and> is_high b)"

definition is_ident_cont :: "byte \<Rightarrow> lexer \<Rightarrow> bool" where
  "is_ident_cont b lx \<longleftrightarrow>
     is_ascii_alphanumeric b \<or> b = CHR ''_'' \<or> (b = CHR ''$'' \<and> ident_dollar lx) \<or>
     (unicode_ident lx \<and> is_high b)"

definition ends_line :: "byte \<Rightarrow> lexer \<Rightarrow> bool" where
  "ends_line b lx \<longleftrightarrow> b = CHR 0x0A \<or> (cr_ends_line lx \<and> b = CHR 0x0D)"

definition dash_opens_comment :: "bytes \<Rightarrow> nat \<Rightarrow> lexer \<Rightarrow> bool" where
  "dash_opens_comment bs i lx =
     (if get bs i \<noteq> Some (CHR ''-'') \<or> get bs (i + 1) \<noteq> Some (CHR ''-'') then False
      else if \<not> dash_needs_space lx then True
      else (case get bs (i + 2) of
              None \<Rightarrow> True
            | Some b \<Rightarrow> is_ascii_whitespace b \<or> is_ascii_control b))"

definition executable_comment_opener :: "bytes \<Rightarrow> nat \<Rightarrow> lexer \<Rightarrow> nat option" where
  "executable_comment_opener bs i lx =
     (if \<not> executable_code lx then None
      else if get bs i \<noteq> Some (CHR ''/'') \<or> get bs (i + 1) \<noteq> Some (CHR ''*'') \<or>
              get bs (i + 2) \<noteq> Some (CHR ''!'') then None
      else Some (skip_while is_ascii_digit bs (i + 3)))"

lemma is_ident_start_cont: "is_ident_start b lx \<Longrightarrow> is_ident_cont b lx"
  by (auto simp: is_ident_start_def is_ident_cont_def is_ascii_alphanumeric_def)

lemma executable_comment_opener_bounds:
  "executable_comment_opener bs i lx = Some j \<Longrightarrow> i + 3 \<le> j \<and> j \<le> length bs"
  by (auto simp: executable_comment_opener_def get_simps skip_while_le
           intro: skip_while_le_length split: if_splits)

section \<open>PostgreSQL's string continuation and the dollar tag\<close>

definition is_newline :: "byte \<Rightarrow> bool" where
  "is_newline b \<longleftrightarrow> b = CHR 0x0A \<or> b = CHR 0x0D"

definition skip_comment :: "bytes \<Rightarrow> nat \<Rightarrow> nat" where
  "skip_comment bs i = skip_while (\<lambda>b. \<not> is_newline b) bs i"

text \<open>Horizontal white space and comments, up to the mandatory newline.\<close>

function continuation_gap :: "bytes \<Rightarrow> lexer \<Rightarrow> nat \<Rightarrow> nat" where
  "continuation_gap bs lx i =
     (case get bs i of
        None \<Rightarrow> i
      | Some b \<Rightarrow>
          if b = CHR '' '' \<or> b = CHR 0x09 \<or> b = CHR 0x0C then continuation_gap bs lx (i + 1)
          else if b = CHR 0x0B \<and> vt_is_space lx then continuation_gap bs lx (i + 1)
          else if b = CHR ''-'' \<and> get bs (i + 1) = Some (CHR ''-'')
          then continuation_gap bs lx (skip_comment bs (i + 2))
          else i)"
  by pat_completeness auto
termination
proof (relation "measure (\<lambda>(bs, lx, i). length bs - i)", goal_cases)
  case (4 bs lx i b)
  then show ?case
    using skip_while_le [of "i + 2" "\<lambda>b. \<not> is_newline b" bs]
    by (auto simp: skip_comment_def get_simps intro!: diff_less_mono2)
qed (auto simp: get_simps)

text \<open>White space and comments that each end in a newline; \<open>None\<close> when a comment runs to the end.\<close>

function continuation_lines :: "bytes \<Rightarrow> lexer \<Rightarrow> nat \<Rightarrow> nat option" where
  "continuation_lines bs lx i =
     (case get bs i of
        None \<Rightarrow> Some i
      | Some b \<Rightarrow>
          if b = CHR '' '' \<or> b = CHR 0x09 \<or> b = CHR 0x0A \<or> b = CHR 0x0D \<or> b = CHR 0x0C
          then continuation_lines bs lx (i + 1)
          else if b = CHR 0x0B \<and> vt_is_space lx then continuation_lines bs lx (i + 1)
          else if b = CHR ''-'' \<and> get bs (i + 1) = Some (CHR ''-'')
          then (let e = skip_comment bs (i + 2) in
                if length bs \<le> e then None else continuation_lines bs lx (e + 1))
          else Some i)"
  by pat_completeness auto
termination
proof (relation "measure (\<lambda>(bs, lx, i). length bs - i)", goal_cases)
  case (4 bs lx i b e)
  then show ?case
    using skip_while_le [of "i + 2" "\<lambda>b. \<not> is_newline b" bs]
    by (auto simp: skip_comment_def get_simps)
qed (auto simp: get_simps)

declare continuation_gap.simps [simp del] continuation_lines.simps [simp del]

definition string_continuation :: "bytes \<Rightarrow> nat \<Rightarrow> lexer \<Rightarrow> nat option" where
  "string_continuation bs after lx =
     (if \<not> postgres lx then None
      else (let i = continuation_gap bs lx after in
            case get bs i of
              None \<Rightarrow> None
            | Some b \<Rightarrow>
                if \<not> is_newline b then None
                else (case continuation_lines bs lx (i + 1) of
                        None \<Rightarrow> None
                      | Some j \<Rightarrow> if get bs j = Some (CHR 0x27) then Some (j + 1) else None)))"

lemma continuation_gap_le: "i \<le> continuation_gap bs lx i"
proof (induction "length bs - i" arbitrary: i rule: less_induct)
  case less
  have sk: "i + 2 \<le> skip_comment bs (i + 2)"
    by (simp add: skip_comment_def skip_while_le)
  have IH: "i \<le> continuation_gap bs lx j" if "i < j" "i < length bs" for j
    using less [of j] that by linarith
  show ?case
    using IH [of "i + 1"] IH [of "skip_comment bs (i + 2)"] sk
    by (subst continuation_gap.simps) (auto simp: get_simps split: option.split)
qed

lemma continuation_lines_le: "continuation_lines bs lx i = Some j \<Longrightarrow> i \<le> j"
proof (induction "length bs - i" arbitrary: i rule: less_induct)
  case less
  have sk: "i + 2 \<le> skip_comment bs (i + 2)"
    by (simp add: skip_comment_def skip_while_le)
  have IH: "i \<le> j" if "i < k" "i < length bs" "continuation_lines bs lx k = Some j" for k
    using less(1) [of k] that by linarith
  show ?case
    using less(2) IH [of "i + 1"] IH [of "skip_comment bs (i + 2) + 1"] sk
    by (subst (asm) continuation_lines.simps)
       (auto simp: get_simps Let_def split: option.splits if_splits)
qed

lemma string_continuation_bounds:
  assumes "string_continuation bs i lx = Some j"
  shows "i + 1 < j \<and> j \<le> length bs"
proof -
  let ?g = "continuation_gap bs lx i"
  from assms obtain k where k: "continuation_lines bs lx (?g + 1) = Some k"
    and "get bs k = Some (CHR 0x27)" and "j = k + 1"
    by (auto simp: string_continuation_def Let_def split: if_splits option.splits)
  with continuation_lines_le [OF k] continuation_gap_le [of i bs lx] show ?thesis
    by (auto simp: get_simps)
qed

lemma string_continuation_not_postgres: "\<not> postgres lx \<Longrightarrow> string_continuation bs i lx = None"
  by (simp add: string_continuation_def)

text \<open>The loop of \<open>read_dollar_tag\<close> from \<open>i\<close> on; \<open>start\<close> is the offset of the opening \<open>$\<close>.\<close>

function dollar_tag_loop :: "bytes \<Rightarrow> nat \<Rightarrow> lexer \<Rightarrow> nat \<Rightarrow> (bytes \<times> nat) option" where
  "dollar_tag_loop bs start lx i =
     (if i < length bs then
        (let b = bs ! i in
         if b = CHR ''$'' then Some (slice bs start (i + 1), i + 1)
         else if postgres lx then
           (let letter = is_ascii_alphabetic b \<or> b = CHR ''_'' \<or> is_high b in
            if letter \<or> (i > start + 1 \<and> is_ascii_digit b)
            then dollar_tag_loop bs start lx (i + 1) else None)
         else if is_ascii_alphanumeric b \<or> b = CHR ''_'' then dollar_tag_loop bs start lx (i + 1)
         else None)
      else None)"
  by pat_completeness auto
termination
  by (relation "measure (\<lambda>(bs, start, lx, i). length bs - i)") auto

declare dollar_tag_loop.simps [simp del]

definition read_dollar_tag :: "bytes \<Rightarrow> nat \<Rightarrow> lexer \<Rightarrow> (bytes \<times> nat) option" where
  "read_dollar_tag bs start lx = dollar_tag_loop bs start lx (start + 1)"

lemma dollar_tag_loop_next:
  "dollar_tag_loop bs start lx i = Some r \<Longrightarrow>
     i < length bs \<and>
     (if bs ! i = CHR ''$'' then r = (slice bs start (i + 1), i + 1)
      else dollar_tag_loop bs start lx (i + 1) = Some r)"
  by (subst (asm) dollar_tag_loop.simps) (auto simp: Let_def split: if_splits)

lemma dollar_tag_loop_bounds:
  "dollar_tag_loop bs start lx i = Some (tag, j) \<Longrightarrow>
     i < j \<and> j \<le> length bs \<and> bs ! (j - 1) = CHR ''$'' \<and> tag = slice bs start j"
proof (induction "length bs - i" arbitrary: i rule: less_induct)
  case less
  note next_i = dollar_tag_loop_next [OF less(2)]
  show ?case
  proof (cases "bs ! i = CHR ''$''")
    case True with next_i show ?thesis by auto
  next
    case False
    with next_i less(1) [of "i + 1"] show ?thesis by simp linarith
  qed
qed

lemma read_dollar_tag_bounds:
  "read_dollar_tag bs i lx = Some (tag, j) \<Longrightarrow>
     i + 1 < j \<and> j \<le> length bs \<and> bs ! (j - 1) = CHR ''$'' \<and> tag = slice bs i j"
  by (auto simp: read_dollar_tag_def dest: dollar_tag_loop_bounds)

end
