(* ===== verification/SqlWalk.thy ===== *)
theory SqlWalk
  imports SqlLexer
begin

text \<open>
  \<open>walk\<close> of \<^verbatim>\<open>crates/qh-sql/src/scan.rs\<close>: the single pass over a script that every scan is made of.

  A \<open>Visitor\<close> cannot influence the walk, so the walk is modelled as the list of the calls it makes
  on its visitor, in order (\<open>EvSeparator\<close>, \<open>EvOpaque\<close>, \<open>EvWord\<close>), with the end state it returns. The
  visitors of the other components are functions over that list. One iteration of the loop is
  \<open>walk_step\<close> on the record of the loop's local variables; the loop is \<open>walk_loop\<close>, which is total
  because every iteration moves the index (\<open>walk_step_progress\<close>).

  The lemmas show the contract every visitor relies on: the events tile the text (\<open>tiles\<close>). They are
  in order, disjoint, in bounds and not empty, and the bytes between them are neither a \<open>;\<close> nor the
  start of an identifier, so no separator and no word is lost.
\<close>

section \<open>States and events\<close>

datatype scan_state =
    Normal | SingleQuoted | DoubleQuoted | BacktickQuoted | LineCommented | BlockCommented
  | DollarQuoted | EscapeQuoted | UnicodeQuoted | BitQuoted

datatype opaque_kind = SingleQuote | DoubleQuote | Backtick | LineComment | BlockComment | DollarQuote

datatype end_state = EndNormal | EndOpen opaque_kind

datatype event = EvSeparator nat | EvOpaque opaque_kind nat nat | EvWord nat nat

record walk_state =
  w_state :: scan_state
  w_start :: nat
  w_kind :: opaque_kind
  w_tag :: bytes
  w_depth :: nat
  w_index :: nat

definition walk_init :: walk_state where
  "walk_init = \<lparr>w_state = Normal, w_start = 0, w_kind = SingleQuote, w_tag = [], w_depth = 0,
     w_index = 0\<rparr>"

definition open_region :: "scan_state \<Rightarrow> opaque_kind \<Rightarrow> nat \<Rightarrow> nat \<Rightarrow> walk_state \<Rightarrow> walk_state" where
  "open_region s k start next_index w =
     w\<lparr>w_state := s, w_start := start, w_kind := k, w_index := next_index\<rparr>"

definition close_region :: "nat \<Rightarrow> nat \<Rightarrow> walk_state \<Rightarrow> walk_state \<times> event list" where
  "close_region end_index next_index w =
     (w\<lparr>w_state := Normal, w_index := next_index\<rparr>, [EvOpaque (w_kind w) (w_start w) end_index])"

definition move_to :: "nat \<Rightarrow> walk_state \<Rightarrow> walk_state \<times> event list" where
  "move_to i w = (w\<lparr>w_index := i\<rparr>, [])"

section \<open>One iteration\<close>

text \<open>PostgreSQL's one-letter string prefixes: the state they enter and the width of the opener.\<close>

definition string_prefix :: "lexer \<Rightarrow> bytes \<Rightarrow> nat \<Rightarrow> nat \<Rightarrow> (scan_state \<times> nat) option" where
  "string_prefix lx bs start i =
     (if postgres lx \<and> i - start = 1 then
        (let c = ascii_lower (bs ! start) in
         if c = CHR ''e'' \<and> get bs i = Some (CHR 0x27) then Some (EscapeQuoted, 1)
         else if (c = CHR ''b'' \<or> c = CHR ''x'') \<and> get bs i = Some (CHR 0x27)
         then Some (BitQuoted, 1)
         else if c = CHR ''u'' \<and> starts_with_at bs i [CHR ''&'', CHR 0x27]
         then Some (UnicodeQuoted, 2)
         else None)
      else None)"

definition normal_step :: "lexer \<Rightarrow> bytes \<Rightarrow> walk_state \<Rightarrow> walk_state \<times> event list" where
  "normal_step lx bs w =
     (let i = w_index w; b = bs ! i in
      if b = CHR 0x27 then (open_region SingleQuoted SingleQuote i (i + 1) w, [])
      else if b = CHR 0x22 then (open_region DoubleQuoted DoubleQuote i (i + 1) w, [])
      else if b = CHR 0x60 \<and> backtick_quotes lx
      then (open_region BacktickQuoted Backtick i (i + 1) w, [])
      else if b = CHR ''/'' \<and> executable_comment_opener bs i lx \<noteq> None
      then move_to (the (executable_comment_opener bs i lx)) w
      else if b = CHR ''-'' \<and> dash_opens_comment bs i lx
      then (open_region LineCommented LineComment i (i + 2) w, [])
      else if b = CHR ''#'' \<and> hash_comment lx
      then (open_region LineCommented LineComment i (i + 1) w, [])
      else if b = CHR ''/'' \<and> get bs (i + 1) = Some (CHR ''*'')
      then (open_region BlockCommented BlockComment i (i + 2) (w\<lparr>w_depth := 1\<rparr>), [])
      else if b = CHR '';'' then (w\<lparr>w_index := i + 1\<rparr>, [EvSeparator i])
      else if b = CHR ''$'' \<and> dollar_quotes lx then
        (case read_dollar_tag bs i lx of
           Some (tag, n) \<Rightarrow> (open_region DollarQuoted DollarQuote i n (w\<lparr>w_tag := tag\<rparr>), [])
         | None \<Rightarrow> move_to (i + 1) w)
      else if is_ident_start b lx then
        (let e = skip_while (\<lambda>c. is_ident_cont c lx) bs i in
         case string_prefix lx bs i e of
           Some (quoted, width) \<Rightarrow> (open_region quoted SingleQuote i (e + width) w, [])
         | None \<Rightarrow> (w\<lparr>w_index := e\<rparr>, [EvWord i e]))
      else move_to (i + 1) w)"

text \<open>
  At a quote inside a string that doubles its quotes: a doubled quote is text, PostgreSQL's
  continuation goes on in the next piece, and anything else ends the region.
\<close>

definition quote_step :: "lexer \<Rightarrow> bytes \<Rightarrow> walk_state \<Rightarrow> walk_state \<times> event list" where
  "quote_step lx bs w =
     (let i = w_index w in
      if get bs (i + 1) = Some (CHR 0x27) then move_to (i + 2) w
      else (case string_continuation bs (i + 1) lx of
              Some n \<Rightarrow> move_to n w
            | None \<Rightarrow> close_region (i + 1) (i + 1) w))"

definition single_step :: "lexer \<Rightarrow> bytes \<Rightarrow> walk_state \<Rightarrow> walk_state \<times> event list" where
  "single_step lx bs w =
     (let i = w_index w; b = bs ! i in
      if single_backslash lx \<and> b = CHR 0x5C then move_to (i + 2) w
      else if b = CHR 0x27 then quote_step lx bs w
      else move_to (i + 1) w)"

definition escape_step :: "lexer \<Rightarrow> bytes \<Rightarrow> walk_state \<Rightarrow> walk_state \<times> event list" where
  "escape_step lx bs w =
     (let i = w_index w; b = bs ! i in
      if b = CHR 0x5C then move_to (i + 2) w
      else if b = CHR 0x27 then quote_step lx bs w
      else move_to (i + 1) w)"

definition unicode_step :: "lexer \<Rightarrow> bytes \<Rightarrow> walk_state \<Rightarrow> walk_state \<times> event list" where
  "unicode_step lx bs w =
     (let i = w_index w; b = bs ! i in
      if b = CHR 0x27 then quote_step lx bs w else move_to (i + 1) w)"

definition bit_step :: "lexer \<Rightarrow> bytes \<Rightarrow> walk_state \<Rightarrow> walk_state \<times> event list" where
  "bit_step lx bs w =
     (let i = w_index w; b = bs ! i in
      if b = CHR 0x27 then
        (case string_continuation bs (i + 1) lx of
           Some n \<Rightarrow> move_to n w
         | None \<Rightarrow> close_region (i + 1) (i + 1) w)
      else move_to (i + 1) w)"

definition double_step :: "lexer \<Rightarrow> bytes \<Rightarrow> walk_state \<Rightarrow> walk_state \<times> event list" where
  "double_step lx bs w =
     (let i = w_index w; b = bs ! i in
      if double_backslash lx \<and> b = CHR 0x5C then move_to (i + 2) w
      else if b = CHR 0x22 then
        (if get bs (i + 1) = Some (CHR 0x22) then move_to (i + 2) w
         else close_region (i + 1) (i + 1) w)
      else move_to (i + 1) w)"

definition backtick_step :: "bytes \<Rightarrow> walk_state \<Rightarrow> walk_state \<times> event list" where
  "backtick_step bs w =
     (let i = w_index w; b = bs ! i in
      if b = CHR 0x60 then
        (if get bs (i + 1) = Some (CHR 0x60) then move_to (i + 2) w
         else close_region (i + 1) (i + 1) w)
      else move_to (i + 1) w)"

definition line_comment_step :: "lexer \<Rightarrow> bytes \<Rightarrow> walk_state \<Rightarrow> walk_state \<times> event list" where
  "line_comment_step lx bs w =
     (let i = w_index w; b = bs ! i in
      if ends_line b lx then close_region i (i + 1) w else move_to (i + 1) w)"

definition block_comment_step :: "lexer \<Rightarrow> bytes \<Rightarrow> walk_state \<Rightarrow> walk_state \<times> event list" where
  "block_comment_step lx bs w =
     (let i = w_index w; b = bs ! i in
      if nested_comments lx \<and> b = CHR ''/'' \<and> get bs (i + 1) = Some (CHR ''*'')
      then move_to (i + 2) (w\<lparr>w_depth := w_depth w + 1\<rparr>)
      else if b = CHR ''*'' \<and> get bs (i + 1) = Some (CHR ''/'') then
        (let w1 = w\<lparr>w_depth := w_depth w - 1\<rparr> in
         if w_depth w1 = 0 then close_region (i + 2) (i + 2) w1 else move_to (i + 2) w1)
      else move_to (i + 1) w)"

definition dollar_step :: "bytes \<Rightarrow> walk_state \<Rightarrow> walk_state \<times> event list" where
  "dollar_step bs w =
     (let i = w_index w; b = bs ! i in
      if b = CHR ''$'' \<and> starts_with_at bs i (w_tag w)
      then close_region (i + length (w_tag w)) (i + length (w_tag w)) w
      else move_to (i + 1) w)"

definition walk_step :: "lexer \<Rightarrow> bytes \<Rightarrow> walk_state \<Rightarrow> walk_state \<times> event list" where
  "walk_step lx bs w =
     (case w_state w of
        Normal \<Rightarrow> normal_step lx bs w
      | SingleQuoted \<Rightarrow> single_step lx bs w
      | EscapeQuoted \<Rightarrow> escape_step lx bs w
      | UnicodeQuoted \<Rightarrow> unicode_step lx bs w
      | BitQuoted \<Rightarrow> bit_step lx bs w
      | DoubleQuoted \<Rightarrow> double_step lx bs w
      | BacktickQuoted \<Rightarrow> backtick_step bs w
      | LineCommented \<Rightarrow> line_comment_step lx bs w
      | BlockCommented \<Rightarrow> block_comment_step lx bs w
      | DollarQuoted \<Rightarrow> dollar_step bs w)"

lemmas step_defs =
  normal_step_def quote_step_def single_step_def escape_step_def unicode_step_def bit_step_def
  double_step_def backtick_step_def line_comment_step_def block_comment_step_def dollar_step_def

lemmas region_defs = open_region_def close_region_def move_to_def

section \<open>The loop\<close>

text \<open>
  Every iteration moves the index, or (a dollar quote whose tag would be empty) leaves a region, so
  the loop ends whatever the state it starts in.
\<close>

lemma move_to_simps [simp]:
  "fst (move_to i w) = w\<lparr>w_index := i\<rparr>" "snd (move_to i w) = []"
  by (simp_all add: move_to_def)

lemma close_region_simps [simp]:
  "fst (close_region e i w) = w\<lparr>w_state := Normal, w_index := i\<rparr>"
  "snd (close_region e i w) = [EvOpaque (w_kind w) (w_start w) e]"
  by (simp_all add: close_region_def)

lemma open_region_simps [simp]:
  "w_state (open_region s k a i w) = s" "w_index (open_region s k a i w) = i"
  "w_start (open_region s k a i w) = a" "w_kind (open_region s k a i w) = k"
  "w_tag (open_region s k a i w) = w_tag w" "w_depth (open_region s k a i w) = w_depth w"
  by (simp_all add: open_region_def)

lemma normal_step_index:
  assumes "w_index w < length bs"
  shows "w_index w < w_index (fst (normal_step lx bs w))"
proof -
  let ?i = "w_index w"
  have exec: "executable_comment_opener bs ?i lx = Some j \<Longrightarrow> ?i < j" for j
    by (drule executable_comment_opener_bounds) simp
  have tag: "read_dollar_tag bs ?i lx = Some (t, j) \<Longrightarrow> ?i < j" for t j
    by (drule read_dollar_tag_bounds) simp
  have ident: "is_ident_start (bs ! ?i) lx \<Longrightarrow>
      ?i < skip_while (\<lambda>c. is_ident_cont c lx) bs ?i"
    using skip_while_Suc [OF assms] is_ident_start_cont by (simp add: Suc_le_eq)
  show ?thesis
    by (auto simp: normal_step_def Let_def exec tag ident trans_less_add1 split: option.split)
qed

lemma quote_step_index: "w_index w < w_index (fst (quote_step lx bs w))"
proof -
  have "string_continuation bs (Suc (w_index w)) lx = Some j \<Longrightarrow> w_index w < j" for j
    by (drule string_continuation_bounds) simp
  then show ?thesis by (auto simp: quote_step_def Let_def split: option.split)
qed

lemma bit_step_index: "w_index w < w_index (fst (bit_step lx bs w))"
proof -
  have "string_continuation bs (Suc (w_index w)) lx = Some j \<Longrightarrow> w_index w < j" for j
    by (drule string_continuation_bounds) simp
  then show ?thesis by (auto simp: bit_step_def Let_def split: option.split)
qed

lemma dollar_step_index:
  "w_index w < w_index (fst (dollar_step bs w)) \<or>
   w_index w = w_index (fst (dollar_step bs w)) \<and> w_state (fst (dollar_step bs w)) = Normal"
  by (auto simp: dollar_step_def Let_def)

lemma walk_step_progress:
  assumes "w_index w < length bs"
  shows "w_index w < w_index (fst (walk_step lx bs w)) \<or>
    w_index w = w_index (fst (walk_step lx bs w)) \<and> w_state w \<noteq> Normal \<and>
    w_state (fst (walk_step lx bs w)) = Normal"
  using normal_step_index [OF assms] quote_step_index [of w lx bs] bit_step_index [of w lx bs]
    dollar_step_index [of w bs]
  by (cases "w_state w")
     (simp_all add: walk_step_def single_step_def escape_step_def unicode_step_def double_step_def
        backtick_step_def line_comment_step_def block_comment_step_def Let_def)

function walk_loop :: "lexer \<Rightarrow> bytes \<Rightarrow> walk_state \<Rightarrow> event list \<times> end_state" where
  "walk_loop lx bs w =
     (if w_index w < length bs then
        (case walk_step lx bs w of (w', es) \<Rightarrow>
           case walk_loop lx bs w' of (es', e) \<Rightarrow> (es @ es', e))
      else if w_state w = Normal then ([], EndNormal)
      else ([EvOpaque (w_kind w) (w_start w) (length bs)], EndOpen (w_kind w)))"
  by pat_completeness auto
termination
proof (relation "measure (\<lambda>(lx, bs, w). 2 * (length bs - w_index w) +
    (if w_state w = Normal then 0 else 1))", goal_cases)
  case (2 lx bs w)
  then show ?case
    using walk_step_progress [of w bs lx] by (auto simp: prod_eq_iff)
qed simp

declare walk_loop.simps [simp del]

lemma walk_loop_step:
  "w_index w < length bs \<Longrightarrow> walk_step lx bs w = (w', es) \<Longrightarrow>
     walk_loop lx bs w = (es @ fst (walk_loop lx bs w'), snd (walk_loop lx bs w'))"
  by (simp add: walk_loop.simps [of lx bs w] split_beta)

lemma walk_loop_done:
  "length bs \<le> w_index w \<Longrightarrow>
     walk_loop lx bs w =
       (if w_state w = Normal then ([], EndNormal)
        else ([EvOpaque (w_kind w) (w_start w) (length bs)], EndOpen (w_kind w)))"
  by (simp add: walk_loop.simps [of lx bs w])

definition walk :: "bytes \<Rightarrow> lexer \<Rightarrow> event list \<times> end_state" where
  "walk bs lx = walk_loop lx bs walk_init"

definition walk_events :: "bytes \<Rightarrow> lexer \<Rightarrow> event list" where
  "walk_events bs lx = fst (walk bs lx)"

section \<open>The events tile the text\<close>

fun ev_start :: "event \<Rightarrow> nat" where
  "ev_start (EvSeparator a) = a"
| "ev_start (EvOpaque k a b) = a"
| "ev_start (EvWord a b) = a"

fun ev_end :: "event \<Rightarrow> nat" where
  "ev_end (EvSeparator a) = a + 1"
| "ev_end (EvOpaque k a b) = b"
| "ev_end (EvWord a b) = b"

text \<open>The byte a region of each kind opens with.\<close>

fun opens_with :: "lexer \<Rightarrow> opaque_kind \<Rightarrow> byte \<Rightarrow> bool" where
  "opens_with lx SingleQuote b = (b = CHR 0x27 \<or> (postgres lx \<and> is_ascii_alphabetic b))"
| "opens_with lx DoubleQuote b = (b = CHR 0x22)"
| "opens_with lx Backtick b = (b = CHR 0x60 \<and> backtick_quotes lx)"
| "opens_with lx LineComment b = (b = CHR ''-'' \<or> (b = CHR ''#'' \<and> hash_comment lx))"
| "opens_with lx BlockComment b = (b = CHR ''/'')"
| "opens_with lx DollarQuote b = (b = CHR ''$'' \<and> dollar_quotes lx)"

text \<open>What an event says of the bytes it covers: a word is a maximal run of identifier bytes.\<close>

fun event_ok :: "lexer \<Rightarrow> bytes \<Rightarrow> event \<Rightarrow> bool" where
  "event_ok lx bs (EvSeparator a) = (bs ! a = CHR '';'')"
| "event_ok lx bs (EvOpaque k a b) = opens_with lx k (bs ! a)"
| "event_ok lx bs (EvWord a b) =
     (is_ident_start (bs ! a) lx \<and> b = skip_while (\<lambda>c. is_ident_cont c lx) bs a)"

text \<open>A byte that may lie between two events.\<close>

definition neutral :: "lexer \<Rightarrow> byte \<Rightarrow> bool" where
  "neutral lx b \<longleftrightarrow> b \<noteq> CHR '';'' \<and> \<not> is_ident_start b lx"

definition gap_ok :: "lexer \<Rightarrow> bytes \<Rightarrow> nat \<Rightarrow> nat \<Rightarrow> bool" where
  "gap_ok lx bs a b \<longleftrightarrow> a \<le> b \<and> (\<forall>k. a \<le> k \<and> k < b \<and> k < length bs \<longrightarrow> neutral lx (bs ! k))"

fun tiles :: "lexer \<Rightarrow> bytes \<Rightarrow> nat \<Rightarrow> nat \<Rightarrow> event list \<Rightarrow> bool" where
  "tiles lx bs lo hi [] = gap_ok lx bs lo hi"
| "tiles lx bs lo hi (e # es) =
     (gap_ok lx bs lo (ev_start e) \<and> ev_start e < ev_end e \<and> ev_end e \<le> length bs \<and>
      event_ok lx bs e \<and> tiles lx bs (ev_end e) hi es)"

lemma gap_ok_refl [simp]: "gap_ok lx bs a a"
  by (auto simp: gap_ok_def)

lemma gap_ok_trans: "gap_ok lx bs a b \<Longrightarrow> gap_ok lx bs b c \<Longrightarrow> gap_ok lx bs a c"
  by (auto simp: gap_ok_def) (meson not_le)

lemma gap_ok_one: "neutral lx (bs ! a) \<Longrightarrow> gap_ok lx bs a (Suc a)"
  by (auto simp: gap_ok_def less_Suc_eq_le dest: le_antisym)

lemma tiles_le: "tiles lx bs lo hi es \<Longrightarrow> lo \<le> hi"
  by (induction lx bs lo hi es rule: tiles.induct) (auto simp: gap_ok_def)

lemma tiles_gap: "gap_ok lx bs a b \<Longrightarrow> tiles lx bs b c es \<Longrightarrow> tiles lx bs a c es"
  by (cases es) (auto intro: gap_ok_trans)

lemma tiles_append:
  "tiles lx bs a b es \<Longrightarrow> tiles lx bs b c fs \<Longrightarrow> tiles lx bs a c (es @ fs)"
  by (induction lx bs a b es rule: tiles.induct) (auto intro: tiles_gap)

subsection \<open>One iteration\<close>

text \<open>
  Everything before the frontier has been reported; the region being read, if any, starts there.
  The invariant says where that region began, and that a dollar tag and the comment depth are
  what the loop set them to.
\<close>

definition frontier :: "walk_state \<Rightarrow> nat" where
  "frontier w = (if w_state w = Normal then w_index w else w_start w)"

definition walk_inv :: "lexer \<Rightarrow> bytes \<Rightarrow> walk_state \<Rightarrow> bool" where
  "walk_inv lx bs w \<longleftrightarrow>
     (w_state w \<noteq> Normal \<longrightarrow> w_start w < w_index w \<and> w_start w < length bs \<and>
        opens_with lx (w_kind w) (bs ! w_start w)) \<and>
     (w_state w = Normal \<longrightarrow> w_index w \<le> length bs) \<and>
     (w_state w = BlockCommented \<longrightarrow> 0 < w_depth w)"

lemma walk_inv_init [simp]: "walk_inv lx bs walk_init"
  by (simp add: walk_inv_def walk_init_def)

lemma frontier_init [simp]: "frontier walk_init = 0"
  by (simp add: frontier_def walk_init_def)

definition step_ok :: "lexer \<Rightarrow> bytes \<Rightarrow> walk_state \<Rightarrow> walk_state \<times> event list \<Rightarrow> bool" where
  "step_ok lx bs w r \<longleftrightarrow>
     walk_inv lx bs (fst r) \<and> tiles lx bs (frontier w) (frontier (fst r)) (snd r)"

lemma step_okI:
  "(c \<Longrightarrow> step_ok lx bs w a) \<Longrightarrow> (\<not> c \<Longrightarrow> step_ok lx bs w b) \<Longrightarrow>
     step_ok lx bs w (if c then a else b)"
  by simp

lemma step_ok_move:
  "walk_inv lx bs w \<Longrightarrow> w_state w \<noteq> Normal \<Longrightarrow> w_index w \<le> j \<Longrightarrow> step_ok lx bs w (move_to j w)"
  by (auto simp: step_ok_def walk_inv_def frontier_def)

lemma step_ok_close:
  "walk_inv lx bs w \<Longrightarrow> w_state w \<noteq> Normal \<Longrightarrow> w_start w < e \<Longrightarrow> e \<le> length bs \<Longrightarrow>
     gap_ok lx bs e j \<Longrightarrow> j \<le> length bs \<Longrightarrow> step_ok lx bs w (close_region e j w)"
  by (auto simp: step_ok_def walk_inv_def frontier_def)

lemma ident_bytes_not_neutral:
  "neutral lx (CHR ''/'')" "neutral lx (CHR ''*'')" "neutral lx (CHR ''!'')" "neutral lx (CHR ''$'')"
  "neutral lx (CHR 0x0A)" "neutral lx (CHR 0x0D)"
  by (simp_all add: neutral_def is_ident_start_def byte_class_defs)

lemma digit_neutral: "is_ascii_digit b \<Longrightarrow> neutral lx b"
  by (auto simp: neutral_def is_ident_start_def byte_class_defs)

lemma opener_gap:
  assumes "executable_comment_opener bs i lx = Some j"
  shows "gap_ok lx bs i j"
proof -
  from assms have b: "bs ! i = CHR ''/''" "bs ! Suc i = CHR ''*''" "bs ! Suc (Suc i) = CHR ''!''"
    and j: "j = skip_while is_ascii_digit bs (i + 3)"
    by (auto simp: executable_comment_opener_def get_simps numeral_2_eq_2 split: if_splits)
  have "neutral lx (bs ! k)" if "i \<le> k" "k < j" for k
  proof (cases "k < i + 3")
    case True
    with that have "k = i \<or> k = Suc i \<or> k = Suc (Suc i)" by linarith
    with b show ?thesis by (auto simp: ident_bytes_not_neutral)
  next
    case False
    with that j skip_while_holds [of "i + 3" k is_ascii_digit bs] show ?thesis
      by (auto intro: digit_neutral)
  qed
  moreover have "i \<le> j" using executable_comment_opener_bounds [OF assms] by simp
  ultimately show ?thesis by (simp add: gap_ok_def)
qed

lemma string_prefix_opens:
  assumes "string_prefix lx bs a e = Some (s, n)"
  shows "opens_with lx SingleQuote (bs ! a)" "0 < n" "s \<in> {EscapeQuoted, BitQuoted, UnicodeQuoted}"
proof -
  have up: "is_ascii_alphabetic b"
    if "ascii_lower b \<in> {CHR ''e'', CHR ''b'', CHR ''x'', CHR ''u''}" for b
  proof -
    from that have "byte_val (ascii_lower b) \<in> {101, 98, 120, 117}" by auto
    then show ?thesis by (auto simp: byte_val_ascii_lower byte_class_defs split: if_splits)
  qed
  from assms show "opens_with lx SingleQuote (bs ! a)" "0 < n"
    "s \<in> {EscapeQuoted, BitQuoted, UnicodeQuoted}"
    by (auto simp: string_prefix_def Let_def intro!: up split: if_splits)
qed

lemma normal_step_ok:
  assumes n: "w_state w = Normal" and lt: "w_index w < length bs"
  shows "step_ok lx bs w (normal_step lx bs w)"
proof -
  let ?i = "w_index w" and ?b = "bs ! w_index w"
  let ?e = "skip_while (\<lambda>c. is_ident_cont c lx) bs ?i"
  have ident: "?i < ?e" "?e \<le> length bs" if "is_ident_start ?b lx"
    using that skip_while_Suc [OF lt, of "\<lambda>c. is_ident_cont c lx"] lt
    by (auto simp: is_ident_start_cont Suc_le_eq intro: skip_while_le_length)
  have prefix: "step_ok lx bs w (open_region s SingleQuote ?i (?e + k) w, [])"
    if "is_ident_start ?b lx" "string_prefix lx bs ?i ?e = Some (s, k)" for s k
    using string_prefix_opens [OF that(2)] ident [OF that(1)] lt n
    by (auto simp: step_ok_def walk_inv_def frontier_def)
  have dollar: "step_ok lx bs w (open_region DollarQuoted DollarQuote ?i k (w\<lparr>w_tag := tag\<rparr>), [])"
    if "?b = CHR ''$''" "dollar_quotes lx" "read_dollar_tag bs ?i lx = Some (tag, k)" for tag k
    using read_dollar_tag_bounds [OF that(3)] that lt n
    by (auto simp: step_ok_def walk_inv_def frontier_def)
  have exec: "step_ok lx bs w (move_to (the (executable_comment_opener bs ?i lx)) w)"
    if "executable_comment_opener bs ?i lx \<noteq> None"
  proof -
    from that obtain j where j: "executable_comment_opener bs ?i lx = Some j" by blast
    from opener_gap [OF j] executable_comment_opener_bounds [OF j] n j show ?thesis
      by (simp add: step_ok_def walk_inv_def frontier_def)
  qed
  have skip: "step_ok lx bs w (move_to (?i + 1) w)" if "neutral lx ?b"
    using gap_ok_one [OF that] n lt by (simp add: step_ok_def walk_inv_def frontier_def)
  have dollar_skip: "step_ok lx bs w (move_to (?i + 1) w)" if "?b = CHR ''$''"
    by (rule skip) (simp add: that ident_bytes_not_neutral)
  have sep: "step_ok lx bs w (w\<lparr>w_index := ?i + 1\<rparr>, [EvSeparator ?i])" if "?b = CHR '';''"
    using that lt n by (simp add: step_ok_def walk_inv_def frontier_def)
  have word: "step_ok lx bs w (w\<lparr>w_index := ?e\<rparr>, [EvWord ?i ?e])" if "is_ident_start ?b lx"
    using that ident lt n by (simp add: step_ok_def walk_inv_def frontier_def)
  have enter: "step_ok lx bs w (open_region s k ?i (?i + m) w, [])"
    if "opens_with lx k ?b" "0 < m" "s \<noteq> Normal" "s \<noteq> BlockCommented" for s k m
    using that lt n by (auto simp: step_ok_def walk_inv_def frontier_def)
  have block: "step_ok lx bs w
      (open_region BlockCommented BlockComment ?i (?i + 2) (w\<lparr>w_depth := 1\<rparr>), [])"
    if "?b = CHR ''/''"
    using that lt n by (auto simp: step_ok_def walk_inv_def frontier_def)
  show ?thesis
    unfolding normal_step_def Let_def
    by (intro step_okI)
       (simp_all add: exec sep word dollar_skip prefix dollar enter block skip neutral_def
        del: One_nat_def add_2_eq_Suc' split: option.split)
qed

lemma quote_step_ok:
  assumes "walk_inv lx bs w" "w_state w \<noteq> Normal" "w_index w < length bs"
  shows "step_ok lx bs w (quote_step lx bs w)"
  using assms string_continuation_bounds [of bs "w_index w + 1" lx]
  by (auto simp: quote_step_def Let_def walk_inv_def intro!: step_ok_move step_ok_close
      split: option.split)

lemma bit_step_ok:
  assumes "walk_inv lx bs w" "w_state w \<noteq> Normal" "w_index w < length bs"
  shows "step_ok lx bs w (bit_step lx bs w)"
  using assms string_continuation_bounds [of bs "w_index w + 1" lx]
  by (auto simp: bit_step_def Let_def walk_inv_def intro!: step_ok_move step_ok_close
      split: option.split)

lemma dollar_step_ok:
  assumes "walk_inv lx bs w" "w_state w = DollarQuoted" "w_index w < length bs"
  shows "step_ok lx bs w (dollar_step bs w)"
proof -
  have len: "w_index w + length (w_tag w) \<le> length bs" if "starts_with_at bs (w_index w) (w_tag w)"
  proof -
    from that have "length (take (length (w_tag w)) (drop (w_index w) bs)) = length (w_tag w)"
      by (simp add: starts_with_at_def)
    with assms(3) show ?thesis by simp
  qed
  with assms show ?thesis
    by (auto simp: dollar_step_def Let_def walk_inv_def intro!: step_ok_move step_ok_close)
qed

lemma block_comment_step_ok:
  assumes "walk_inv lx bs w" "w_state w = BlockCommented" "w_index w < length bs"
  shows "step_ok lx bs w (block_comment_step lx bs w)"
  using assms
  by (auto simp: block_comment_step_def Let_def step_ok_def walk_inv_def frontier_def
      close_region_def move_to_def get_simps)

lemma line_comment_step_ok:
  assumes "walk_inv lx bs w" "w_state w = LineCommented" "w_index w < length bs"
  shows "step_ok lx bs w (line_comment_step lx bs w)"
proof -
  have "ends_line b lx \<Longrightarrow> neutral lx b" for b
    by (auto simp: ends_line_def ident_bytes_not_neutral)
  with assms gap_ok_one [of lx bs "w_index w"] show ?thesis
    by (auto simp: line_comment_step_def Let_def walk_inv_def intro!: step_ok_move step_ok_close)
qed

lemma walk_step_ok:
  assumes "walk_inv lx bs w" "w_index w < length bs"
  shows "step_ok lx bs w (walk_step lx bs w)"
proof (cases "w_state w")
  case Normal
  with assms normal_step_ok show ?thesis by (simp add: walk_step_def)
next
  case DollarQuoted
  with assms dollar_step_ok show ?thesis by (simp add: walk_step_def)
next
  case BlockCommented
  with assms block_comment_step_ok show ?thesis by (simp add: walk_step_def)
next
  case LineCommented
  with assms line_comment_step_ok show ?thesis by (simp add: walk_step_def)
next
  case BitQuoted
  with assms bit_step_ok show ?thesis by (simp add: walk_step_def)
qed (use assms quote_step_ok [OF assms(1)] in
    \<open>auto simp: walk_step_def single_step_def escape_step_def unicode_step_def double_step_def
       backtick_step_def Let_def walk_inv_def intro!: step_ok_move step_ok_close\<close>)

subsection \<open>The whole walk\<close>

lemma walk_loop_tiles:
  "walk_inv lx bs w \<Longrightarrow>
     tiles lx bs (frontier w) (length bs) (fst (walk_loop lx bs w))"
proof (induction lx bs w rule: walk_loop.induct)
  case (1 lx bs w)
  show ?case
  proof (cases "w_index w < length bs")
    case True
    obtain w' es where s: "walk_step lx bs w = (w', es)" by (cases "walk_step lx bs w")
    with walk_step_ok [OF "1.prems"(1) True] have ok: "walk_inv lx bs w'"
      "tiles lx bs (frontier w) (frontier w') es" by (auto simp: step_ok_def)
    from "1.IH" [OF True s [symmetric] ok(1)] ok(2)
    show ?thesis
      by (subst walk_loop.simps) (auto simp: True s intro: tiles_append split: prod.split)
  next
    case False
    then show ?thesis using "1.prems"
      by (subst walk_loop.simps) (auto simp: frontier_def walk_inv_def)
  qed
qed

lemma walk_tiles: "tiles lx bs 0 (length bs) (walk_events bs lx)"
  using walk_loop_tiles [of lx bs walk_init] by (simp add: walk_events_def walk_def)

text \<open>The end state says whether a region is open, and then that region is the last event.\<close>

lemma walk_loop_end:
  assumes "walk_loop lx bs w = (es, e)"
  shows "e = EndNormal \<or> (\<exists>k a. e = EndOpen k \<and> es \<noteq> [] \<and> last es = EvOpaque k a (length bs))"
  using assms
proof (induction lx bs w arbitrary: es e rule: walk_loop.induct)
  case (1 lx bs w)
  show ?case
  proof (cases "w_index w < length bs")
    case True
    obtain w' es1 where s: "walk_step lx bs w = (w', es1)" by (cases "walk_step lx bs w")
    obtain es2 e2 where r: "walk_loop lx bs w' = (es2, e2)" by (cases "walk_loop lx bs w'")
    from "1.IH" [OF True s [symmetric] r] "1.prems" show ?thesis
      by (subst (asm) walk_loop.simps) (auto simp: True s r)
  next
    case False
    with "1.prems" show ?thesis
      by (subst (asm) walk_loop.simps) (auto split: if_splits)
  qed
qed

section \<open>The contract of a scan, as the visitors use it\<close>

text \<open>
  A visitor may rely on this much and no more: the calls it gets tile the text. The lemmas of the
  locale are the consequences every visitor of the development uses.
\<close>

locale event_source =
  fixes lx :: lexer and bs :: bytes and es :: "event list"
  assumes tiled: "tiles lx bs 0 (length bs) es"
begin

lemma tiles_sorted: "tiles lx bs lo hi fs \<Longrightarrow>
    sorted_wrt (\<lambda>e f. ev_end e \<le> ev_start f) fs \<and> (\<forall>e \<in> set fs. lo \<le> ev_start e)"
proof (induction fs arbitrary: lo)
  case (Cons e fs)
  then have "tiles lx bs (ev_end e) hi fs" and "lo \<le> ev_start e" and "ev_start e < ev_end e"
    by (auto simp: gap_ok_def)
  with Cons.IH [of "ev_end e"] show ?case by auto
qed simp

lemma events_ordered: "sorted_wrt (\<lambda>e f. ev_end e \<le> ev_start f) es"
  using tiles_sorted [OF tiled] by simp

lemma tiles_event: "tiles lx bs lo hi fs \<Longrightarrow> e \<in> set fs \<Longrightarrow>
    ev_start e < ev_end e \<and> ev_end e \<le> length bs \<and> event_ok lx bs e"
  by (induction lx bs lo hi fs rule: tiles.induct) auto

lemma event_bounds: "e \<in> set es \<Longrightarrow> ev_start e < ev_end e \<and> ev_end e \<le> length bs"
  using tiles_event [OF tiled] by blast

lemma event_reads: "e \<in> set es \<Longrightarrow> event_ok lx bs e"
  using tiles_event [OF tiled] by blast

lemma tiles_cover: "tiles lx bs lo hi fs \<Longrightarrow> lo \<le> i \<Longrightarrow> i < hi \<Longrightarrow> i < length bs \<Longrightarrow>
    \<not> neutral lx (bs ! i) \<Longrightarrow> \<exists>e \<in> set fs. ev_start e \<le> i \<and> i < ev_end e"
proof (induction fs arbitrary: lo)
  case Nil
  then show ?case by (auto simp: gap_ok_def)
next
  case (Cons e fs)
  show ?case
  proof (cases "i < ev_end e")
    case True
    with Cons.prems have "ev_start e \<le> i" by (auto simp: gap_ok_def)
    with True show ?thesis by auto
  next
    case False
    with Cons.prems Cons.IH [of "ev_end e"] show ?thesis by auto
  qed
qed

lemma covered: "i < length bs \<Longrightarrow> \<not> neutral lx (bs ! i) \<Longrightarrow>
    \<exists>e \<in> set es. ev_start e \<le> i \<and> i < ev_end e"
  using tiles_cover [OF tiled] by simp

lemma word_bytes:
  assumes "EvWord a b \<in> set es" "a \<le> i" "i < b"
  shows "is_ident_cont (bs ! i) lx"
  using event_reads [OF assms(1)] skip_while_holds [OF assms(2), of "\<lambda>c. is_ident_cont c lx" bs]
    assms(3) by simp

lemma semicolon_covered:
  assumes "i < length bs" "bs ! i = CHR '';''"
  shows "EvSeparator i \<in> set es \<or> (\<exists>k a b. EvOpaque k a b \<in> set es \<and> a \<le> i \<and> i < b)"
proof -
  have "\<not> neutral lx (bs ! i)" by (simp add: assms(2) neutral_def)
  then obtain e where e: "e \<in> set es" "ev_start e \<le> i" "i < ev_end e"
    using covered assms(1) by blast
  show ?thesis
  proof (cases e)
    case (EvWord a b)
    with e word_bytes [of a b i] assms(2) show ?thesis
      by (auto simp: is_ident_cont_def byte_class_defs)
  qed (use e in \<open>auto simp: less_Suc_eq_le\<close>)
qed

lemma identifier_covered:
  assumes "i < length bs" "is_ident_start (bs ! i) lx"
  shows "(\<exists>a b. EvWord a b \<in> set es \<and> a \<le> i \<and> i < b) \<or>
    (\<exists>k a b. EvOpaque k a b \<in> set es \<and> a \<le> i \<and> i < b)"
proof -
  have "\<not> neutral lx (bs ! i)" by (simp add: assms(2) neutral_def)
  then obtain e where e: "e \<in> set es" "ev_start e \<le> i" "i < ev_end e"
    using covered assms(1) by blast
  show ?thesis
  proof (cases e)
    case (EvSeparator a)
    with e have "i = a" by simp
    with e EvSeparator event_reads [of e] assms(2) show ?thesis
      by (auto simp: is_ident_start_def byte_class_defs)
  qed (use e in auto)
qed

end

interpretation walked: event_source lx bs "walk_events bs lx" for lx bs
  by unfold_locales (rule walk_tiles)

section \<open>Properties\<close>

text \<open>
  C1. Whatever the bytes and whatever the lexer, the walk returns, and what it reports is in order:
  every region, word and separator starts at or after the end of the one before it, is not empty,
  lies inside the text, and says the truth about the bytes it covers (a separator is a \<open>;\<close>, a word
  is a maximal run of identifier bytes, a region opens with its own opener).
\<close>
theorem walk_reports_in_order:
  "sorted_wrt (\<lambda>e f. ev_end e \<le> ev_start f) (walk_events bs lx) \<and>
   list_all (\<lambda>e. ev_start e < ev_end e \<and> ev_end e \<le> length bs \<and> event_ok lx bs e)
     (walk_events bs lx)"
  using walked.events_ordered [of bs lx] walked.event_bounds [of _ bs lx]
    walked.event_reads [of _ bs lx]
  by (auto simp: list_all_iff)

text \<open>
  C2. No statement separator is lost: every \<open>;\<close> of the text is either reported as a separator or
  lies inside a string, a quoted name, a comment or a dollar quote that the walk reported.
\<close>
theorem no_separator_lost:
  assumes "i < length bs" and "bs ! i = CHR '';''"
  shows "EvSeparator i \<in> set (walk_events bs lx) \<or>
    (\<exists>k a b. EvOpaque k a b \<in> set (walk_events bs lx) \<and> a \<le> i \<and> i < b)"
  using walked.semicolon_covered [OF assms] .

theorem no_separator_lost_witness:
  "EvSeparator 1 \<in> set (walk_events ''a;b'' MYSQL) \<or>
    (\<exists>k a b. EvOpaque k a b \<in> set (walk_events ''a;b'' MYSQL) \<and> a \<le> 1 \<and> 1 < b)"
  by (rule no_separator_lost) simp_all

text \<open>
  No word is lost: every byte that can start an identifier under the lexer (an ASCII letter, an
  underscore, for PostgreSQL any byte beyond ASCII) is inside a word the walk reported or inside a
  region it reported. A keyword of the script cannot hide from the classifier in the code between.
\<close>
theorem no_identifier_lost:
  assumes "i < length bs" and "is_ident_start (bs ! i) lx"
  shows "(\<exists>a b. EvWord a b \<in> set (walk_events bs lx) \<and> a \<le> i \<and> i < b) \<or>
    (\<exists>k a b. EvOpaque k a b \<in> set (walk_events bs lx) \<and> a \<le> i \<and> i < b)"
  using walked.identifier_covered [OF assms] .

theorem no_identifier_lost_witness:
  "(\<exists>a b. EvWord a b \<in> set (walk_events ''1+drop'' POSTGRES) \<and> a \<le> 2 \<and> 2 < b) \<or>
    (\<exists>k a b. EvOpaque k a b \<in> set (walk_events ''1+drop'' POSTGRES) \<and> a \<le> 2 \<and> 2 < b)"
  by (rule no_identifier_lost) (simp_all add: is_ident_start_def byte_class_defs)

end
