(* ===== verification/SqlIdent.thy ===== *)
theory SqlIdent
  imports SqlWalk
begin

text \<open>
  Identifier quoting (\<^verbatim>\<open>crates/qh-sql/src/ident.rs\<close>) and the qualified names built from it
  (\<^verbatim>\<open>crates/qh-ffi/src/sql_ident.rs\<close>).

  The lemmas show that quoting is injective, and that the scanner reads a quoted name back as one
  quoted region under every reading the driver's dialect has: whatever bytes a name holds, it cannot
  end its own quotes, start a statement or spell a keyword.
\<close>

section \<open>Quoting\<close>

datatype ident_style = Ansi | MysqlIdent

text \<open>Rust's \<open>replace(q, qq)\<close>: every quote byte is doubled.\<close>

definition double_char :: "byte \<Rightarrow> bytes \<Rightarrow> bytes" where
  "double_char q s = concat (map (\<lambda>c. if c = q then [q, q] else [c]) s)"

fun quote_ident :: "ident_style \<Rightarrow> bytes \<Rightarrow> bytes" where
  "quote_ident Ansi ident = [CHR 0x22] @ double_char (CHR 0x22) ident @ [CHR 0x22]"
| "quote_ident MysqlIdent ident = [CHR 0x60] @ double_char (CHR 0x60) ident @ [CHR 0x60]"

lemma double_char_simps [simp]:
  "double_char q [] = []"
  "double_char q (c # s) = (if c = q then [q, q] else [c]) @ double_char q s"
  by (simp_all add: double_char_def)

lemma double_char_inj: "double_char q s = double_char q t \<Longrightarrow> s = t"
proof (induction s arbitrary: t)
  case Nil
  then show ?case by (cases t) (auto split: if_splits)
next
  case (Cons c s)
  then show ?case by (cases t) (auto split: if_splits)
qed

lemma quote_ident_inj: "quote_ident style s = quote_ident style t \<Longrightarrow> s = t"
  by (cases style) (auto dest: double_char_inj)

section \<open>Reading a doubled quote back\<close>

text \<open>
  A region whose quote is doubled to be text: this is the step of a quoted name, under every lexer
  for which no backslash escapes in it.
\<close>

definition doubling_step :: "lexer \<Rightarrow> scan_state \<Rightarrow> byte \<Rightarrow> bool" where
  "doubling_step lx s q \<longleftrightarrow> s \<noteq> Normal \<and>
     (\<forall>bs w. w_state w = s \<longrightarrow> walk_step lx bs w =
        (if bs ! w_index w = q then
           (if get bs (w_index w + 1) = Some q then move_to (w_index w + 2) w
            else close_region (w_index w + 1) (w_index w + 1) w)
         else move_to (w_index w + 1) w))"

lemma doubling_double: "\<not> double_backslash lx \<Longrightarrow> doubling_step lx DoubleQuoted (CHR 0x22)"
  by (simp add: doubling_step_def walk_step_def double_step_def Let_def)

lemma doubling_backtick: "doubling_step lx BacktickQuoted (CHR 0x60)"
  by (simp add: doubling_step_def walk_step_def backtick_step_def Let_def)

lemma nth_mid: "(pre @ x # post) ! length pre = x"
  by simp

lemma get_mid: "get (pre @ post) (length pre) = (case post of [] \<Rightarrow> None | x # _ \<Rightarrow> Some x)"
  by (auto simp: get_def nth_append split: list.split)

lemma walk_loop_doubling:
  assumes st: "doubling_step lx s q" and post: "post = [] \<or> hd post \<noteq> q"
    and "bs = pre @ double_char q name @ q # post"
    and "w_state w = s" and "w_index w = length pre"
  shows "walk_loop lx bs w =
    (case walk_loop lx bs (w\<lparr>w_state := Normal, w_index := length bs - length post\<rparr>) of
       (es, e) \<Rightarrow> (EvOpaque (w_kind w) (w_start w) (length bs - length post) # es, e))"
  using assms(3-5)
proof (induction name arbitrary: pre w)
  case Nil
  have g: "get bs (w_index w + 1) \<noteq> Some q"
    using get_mid [of "pre @ [q]" post] Nil post by (auto split: list.splits)
  have "bs ! w_index w = q" using Nil by simp
  with Nil(2) st g have "walk_step lx bs w = close_region (w_index w + 1) (w_index w + 1) w"
    by (simp only: doubling_step_def if_True if_False simp_thms)
  then show ?case
    using Nil by (subst walk_loop.simps) (auto simp: close_region_def split: prod.split)
next
  case (Cons c name)
  have lt: "w_index w < length bs" using Cons.prems by simp
  show ?case
  proof (cases "c = q")
    case True
    have "get bs (Suc (length pre)) = Some q"
      using get_mid [of "pre @ [q]" "q # double_char q name @ q # post"] Cons.prems True by simp
    with Cons.prems st True have "walk_step lx bs w = move_to (w_index w + 2) w"
      by (auto simp: doubling_step_def)
    moreover have "bs = (pre @ [q, q]) @ double_char q name @ q # post"
      using Cons.prems True by simp
    note Cons.IH [OF this, of "w\<lparr>w_index := length pre + 2\<rparr>"]
    ultimately show ?thesis
      using Cons.prems lt
      by (subst walk_loop.simps) (simp add: move_to_def split: prod.split)
  next
    case False
    with Cons.prems st have "walk_step lx bs w = move_to (w_index w + 1) w"
      by (auto simp: doubling_step_def)
    moreover have "bs = (pre @ [c]) @ double_char q name @ q # post"
      using Cons.prems False by simp
    note Cons.IH [OF this, of "w\<lparr>w_index := length pre + 1\<rparr>"]
    ultimately show ?thesis
      using Cons.prems lt
      by (subst walk_loop.simps) (simp add: move_to_def split: prod.split)
  qed
qed

section \<open>Qualified names\<close>

datatype driver_kind = KTrino | KPostgres | KMysql

text \<open>The dialect a connection is read as; \<open>None\<close> is a configuration that does not resolve.\<close>

fun dialect_of_kind :: "driver_kind option \<Rightarrow> dialect" where
  "dialect_of_kind (Some KMysql) = Mysql"
| "dialect_of_kind (Some KPostgres) = Postgres"
| "dialect_of_kind (Some KTrino) = Trino"
| "dialect_of_kind None = Generic"

datatype part = Database | Schema | Table

record slot =
  target :: bytes
  part_of :: part

definition TRINO_SLOTS :: "slot list" where
  "TRINO_SLOTS = [\<lparr>target = ''TARGET_CATALOG'', part_of = Database\<rparr>,
     \<lparr>target = ''TARGET_SCHEMA'', part_of = Schema\<rparr>, \<lparr>target = ''TARGET_TABLE'', part_of = Table\<rparr>]"

definition POSTGRES_SLOTS :: "slot list" where
  "POSTGRES_SLOTS = [\<lparr>target = ''TARGET_SCHEMA'', part_of = Schema\<rparr>,
     \<lparr>target = ''TARGET_TABLE'', part_of = Table\<rparr>]"

definition MYSQL_SLOTS :: "slot list" where
  "MYSQL_SLOTS = [\<lparr>target = ''TARGET_CATALOG'', part_of = Database\<rparr>,
     \<lparr>target = ''TARGET_TABLE'', part_of = Table\<rparr>]"

record slot_style =
  style_kind :: driver_kind
  style_ident :: ident_style

fun slot_style_of :: "driver_kind \<Rightarrow> slot_style" where
  "slot_style_of KMysql = \<lparr>style_kind = KMysql, style_ident = MysqlIdent\<rparr>"
| "slot_style_of k = \<lparr>style_kind = k, style_ident = Ansi\<rparr>"

definition slots :: "slot_style \<Rightarrow> slot list" where
  "slots style = (case style_kind style of
     KTrino \<Rightarrow> TRINO_SLOTS | KPostgres \<Rightarrow> POSTGRES_SLOTS | KMysql \<Rightarrow> MYSQL_SLOTS)"

definition slot_value :: "slot \<Rightarrow> bytes \<Rightarrow> bytes \<Rightarrow> bytes \<Rightarrow> bytes" where
  "slot_value s catalog schema tbl =
     (case part_of s of Database \<Rightarrow> catalog | Schema \<Rightarrow> schema | Table \<Rightarrow> tbl)"

text \<open>The parts a driver has, in its own order, the empty ones skipped, each rendered and joined.\<close>

definition slot_name ::
  "slot_style \<Rightarrow> bytes \<Rightarrow> bytes \<Rightarrow> bytes \<Rightarrow> (slot \<Rightarrow> bytes) \<Rightarrow> bytes" where
  "slot_name style catalog schema tbl render =
     join ''.'' (map render (filter (\<lambda>s. slot_value s catalog schema tbl \<noteq> []) (slots style)))"

definition qualified_name :: "slot_style \<Rightarrow> bytes \<Rightarrow> bytes \<Rightarrow> bytes \<Rightarrow> bytes" where
  "qualified_name style catalog schema tbl = slot_name style catalog schema tbl
     (\<lambda>s. quote_ident (style_ident style) (slot_value s catalog schema tbl))"

definition reference :: "slot_style \<Rightarrow> bytes \<Rightarrow> bytes \<Rightarrow> bytes \<Rightarrow> bytes" where
  "reference style catalog schema tbl = slot_name style catalog schema tbl
     (\<lambda>s. slot_value s catalog schema tbl)"

definition slot_parts :: "slot_style \<Rightarrow> bytes \<Rightarrow> bytes \<Rightarrow> bytes \<Rightarrow> bytes list" where
  "slot_parts style catalog schema tbl =
     filter (\<lambda>v. v \<noteq> []) (map (\<lambda>s. slot_value s catalog schema tbl) (slots style))"

lemma qualified_name_parts:
  "qualified_name style c s t = join ''.'' (map (quote_ident (style_ident style)) (slot_parts style c s t))"
  by (simp add: qualified_name_def slot_name_def slot_parts_def filter_map comp_def)

section \<open>Reading a qualified name back\<close>

text \<open>The quote byte, the region and the state of a style, and the lexers that read it so.\<close>

fun style_byte :: "ident_style \<Rightarrow> byte" where
  "style_byte Ansi = CHR 0x22" | "style_byte MysqlIdent = CHR 0x60"

fun style_region :: "ident_style \<Rightarrow> opaque_kind" where
  "style_region Ansi = DoubleQuote" | "style_region MysqlIdent = Backtick"

fun style_state :: "ident_style \<Rightarrow> scan_state" where
  "style_state Ansi = DoubleQuoted" | "style_state MysqlIdent = BacktickQuoted"

fun style_read_by :: "ident_style \<Rightarrow> lexer \<Rightarrow> bool" where
  "style_read_by Ansi lx = (\<not> double_backslash lx)"
| "style_read_by MysqlIdent lx = backtick_quotes lx"

lemma quote_ident_bytes:
  "quote_ident st s = style_byte st # double_char (style_byte st) s @ [style_byte st]"
  by (cases st) simp_all

lemma style_doubling: "style_read_by st lx \<Longrightarrow>
    doubling_step lx (style_state st) (style_byte st)"
  by (cases st) (simp_all add: doubling_double doubling_backtick)

lemma style_opens:
  assumes "style_read_by st lx" "w_state w = Normal" "bs ! w_index w = style_byte st"
  shows "walk_step lx bs w =
    (open_region (style_state st) (style_region st) (w_index w) (w_index w + 1) w, [])"
  using assms by (cases st) (simp_all add: walk_step_def normal_step_def Let_def)

lemma style_read_by_driver:
  "lx \<in> set (readings (dialect_of_kind (Some k))) \<Longrightarrow> style_read_by (style_ident (slot_style_of k)) lx"
  by (cases k) (auto simp: readings_defs lexer_defs lexer_rules)

text \<open>The regions the quoted parts are expected at.\<close>

fun part_regions :: "ident_style \<Rightarrow> nat \<Rightarrow> bytes list \<Rightarrow> event list" where
  "part_regions st off [] = []"
| "part_regions st off (n # ns) =
     EvOpaque (style_region st) off (off + length (quote_ident st n)) #
     part_regions st (off + length (quote_ident st n) + 1) ns"

lemma walk_loop_quoted:
  assumes read: "style_read_by st lx" and post: "post = [] \<or> hd post \<noteq> style_byte st"
    and bs: "bs = pre @ quote_ident st name @ post"
    and w: "w_state w = Normal" "w_index w = length pre"
  shows "\<exists>w'. w_state w' = Normal \<and> w_index w' = length pre + length (quote_ident st name) \<and>
    walk_loop lx bs w =
      (case walk_loop lx bs w' of (es, e) \<Rightarrow>
         (EvOpaque (style_region st) (length pre) (length pre + length (quote_ident st name)) # es, e))"
proof -
  let ?q = "style_byte st"
  let ?w1 = "open_region (style_state st) (style_region st) (w_index w) (w_index w + 1) w"
  let ?j = "length pre + length (quote_ident st name)"
  have bs': "bs = (pre @ [?q]) @ double_char ?q name @ ?q # post"
    using bs by (simp add: quote_ident_bytes)
  have j: "length bs - length post = ?j" using bs by simp
  have step: "walk_step lx bs w = (?w1, [])"
    using style_opens [OF read w(1)] w(2) bs by (simp add: quote_ident_bytes)
  have "w_index w < length bs" using w bs by (simp add: quote_ident_bytes)
  then have "walk_loop lx bs w = walk_loop lx bs ?w1"
    by (subst walk_loop.simps) (simp add: step split: prod.split)
  also have "\<dots> = (case walk_loop lx bs (?w1\<lparr>w_state := Normal, w_index := length bs - length post\<rparr>) of
      (es, e) \<Rightarrow> (EvOpaque (w_kind ?w1) (w_start ?w1) (length bs - length post) # es, e))"
    by (rule walk_loop_doubling [OF style_doubling [OF read] post bs']) (simp_all add: w)
  finally show ?thesis
    by (intro exI [of _ "?w1\<lparr>w_state := Normal, w_index := ?j\<rparr>"]) (simp add: j w)
qed

lemma walk_loop_parts:
  assumes "style_read_by st lx" "bs = pre @ join ''.'' (map (quote_ident st) ns)"
    "w_state w = Normal" "w_index w = length pre"
  shows "walk_loop lx bs w = (part_regions st (length pre) ns, EndNormal)"
  using assms(2-4)
proof (induction ns arbitrary: pre w)
  case Nil
  then show ?case by (subst walk_loop.simps) simp
next
  case (Cons n ns)
  let ?post = "if ns = [] then [] else ''.'' @ join ''.'' (map (quote_ident st) ns)"
  have bs: "bs = pre @ quote_ident st n @ ?post" using Cons.prems by (cases ns) simp_all
  have post: "?post = [] \<or> hd ?post \<noteq> style_byte st" by (cases st) simp_all
  obtain w' where w': "w_state w' = Normal" "w_index w' = length (pre @ quote_ident st n)"
    and eq: "walk_loop lx bs w = (case walk_loop lx bs w' of (es, e) \<Rightarrow>
         (EvOpaque (style_region st) (length pre) (length pre + length (quote_ident st n)) # es, e))"
    using walk_loop_quoted [OF assms(1) post bs Cons.prems(2,3)] by auto
  show ?case
  proof (cases "ns = []")
    case True
    with bs w' have "walk_loop lx bs w' = ([], EndNormal)" by (subst walk_loop.simps) simp
    with True eq show ?thesis by simp
  next
    case False
    have dot: "bs ! w_index w' = CHR ''.''" "w_index w' < length bs"
      using bs False w' by (simp_all add: nth_append)
    have neutral_dot: "walk_step lx bs w' = move_to (w_index w' + 1) w'"
      using w' dot by (simp add: walk_step_def normal_step_def Let_def is_ident_start_def byte_class_defs)
    have "walk_loop lx bs w' = walk_loop lx bs (w'\<lparr>w_index := w_index w' + 1\<rparr>)"
      using dot by (subst walk_loop.simps) (simp add: neutral_dot move_to_def split: prod.split)
    also have "\<dots> = (part_regions st (length (pre @ quote_ident st n @ ''.'')) ns, EndNormal)"
      by (rule Cons.IH) (use bs False w' in simp_all)
    finally show ?thesis using eq by simp
  qed
qed

lemma part_regions_inj:
  "part_regions st off ns = part_regions st off ns' \<Longrightarrow>
     join ''.'' (map (quote_ident st) ns) = join ''.'' (map (quote_ident st) ns') \<Longrightarrow> ns = ns'"
proof (induction ns arbitrary: off ns')
  case Nil
  then show ?case by (cases ns') simp_all
next
  case (Cons n ns)
  then obtain m ms where ns': "ns' = m # ms" by (cases ns') simp_all
  with Cons.prems(1) have len: "length (quote_ident st n) = length (quote_ident st m)"
    and rest: "part_regions st (off + length (quote_ident st n) + 1) ns =
      part_regions st (off + length (quote_ident st n) + 1) ms"
    by auto
  from rest have empty: "ns = [] \<longleftrightarrow> ms = []" by (cases ns; cases ms) auto
  from Cons.prems(2) ns' len empty have "quote_ident st n = quote_ident st m"
    and "join ''.'' (map (quote_ident st) ns) = join ''.'' (map (quote_ident st) ms)"
    by (cases ns; cases ms; simp)+
  with Cons.IH [OF rest] ns' show ?case by (auto dest: quote_ident_inj)
qed

section \<open>Properties\<close>

text \<open>
  C3. A qualified name reads back as exactly its quoted parts. For every driver and every reading
  its server may use, the walk of the name the engine writes into SQL reports one quoted region per
  non-empty part, at that part's place, and ends in code: no separator, no bare word and no open
  region, whatever bytes the catalog, schema and table names hold.
\<close>
theorem qualified_name_reads_back:
  assumes "lx \<in> set (readings (dialect_of_kind (Some k)))"
  shows "walk (qualified_name (slot_style_of k) c s t) lx =
    (part_regions (style_ident (slot_style_of k)) 0 (slot_parts (slot_style_of k) c s t), EndNormal)"
  using walk_loop_parts [OF style_read_by_driver [OF assms], of _ "[]" _ walk_init]
  by (simp add: walk_def qualified_name_parts walk_init_def)

theorem qualified_name_reads_back_witness:
  "walk (qualified_name (slot_style_of KPostgres) [] ''a'' (''b'' @ [CHR 0x22] @ ''; DROP c'')) POSTGRES =
    ([EvOpaque DoubleQuote 0 3, EvOpaque DoubleQuote 4 17], EndNormal)"
  using qualified_name_reads_back [of POSTGRES KPostgres "[]" "''a''" "''b'' @ [CHR 0x22] @ ''; DROP c''"]
  by (simp add: readings_defs POSTGRES_def slot_parts_def slots_def POSTGRES_SLOTS_def slot_value_def)

text \<open>
  Two different targets are never written the same: for one driver, equal qualified names have
  equal parts, so a \<open>DROP\<close> cannot hit a table another target names.
\<close>
theorem qualified_name_injective:
  assumes "qualified_name (slot_style_of k) c s t = qualified_name (slot_style_of k) c' s' t'"
  shows "slot_parts (slot_style_of k) c s t = slot_parts (slot_style_of k) c' s' t'"
proof -
  let ?st = "style_ident (slot_style_of k)"
  let ?lx = "lexer_of (dialect_of_kind (Some k))"
  have read: "style_read_by ?st ?lx" by (rule style_read_by_driver [OF lexer_of_reading])
  have "part_regions ?st 0 (slot_parts (slot_style_of k) c s t) =
      part_regions ?st 0 (slot_parts (slot_style_of k) c' s' t')"
    using walk_loop_parts [OF read, of _ "[]" "slot_parts (slot_style_of k) c s t" walk_init]
      walk_loop_parts [OF read, of _ "[]" "slot_parts (slot_style_of k) c' s' t'" walk_init] assms
    by (simp add: qualified_name_parts walk_init_def)
  then show ?thesis using assms by (simp add: qualified_name_parts part_regions_inj)
qed

theorem qualified_name_injective_witness:
  "slot_parts (slot_style_of KMysql) ''d'' ''ignored'' ''t'' = slot_parts (slot_style_of KMysql) ''d'' [] ''t''"
  by (rule qualified_name_injective) code_simp

end
