(* ===== verification/SqlLex.thy ===== *)
theory SqlLex
  imports SqlWalk
begin

text \<open>
  The editor's lexer, \<^verbatim>\<open>crates/qh-sql/src/lex.rs\<close>: a visitor over the walk that turns the regions
  and words into tokens and cuts the code between them into numbers, parameters and punctuation.
  The lemmas show that the tokens of any range are in order, disjoint and inside the clamped range.
\<close>

section \<open>Tokens\<close>

datatype token_kind = TOpaque opaque_kind | TWord | TNumber | TParam | TPunct

record token =
  tok_start :: nat
  tok_end :: nat
  tok_kind :: token_kind

definition number_end :: "bytes \<Rightarrow> nat \<Rightarrow> nat" where
  "number_end tx at =
     (let e = skip_while is_ascii_digit tx at in
      if get tx e = Some (CHR ''.'') \<and>
         (case get tx (e + 1) of Some b \<Rightarrow> is_ascii_digit b | None \<Rightarrow> False)
      then skip_while is_ascii_digit tx (e + 1) else e)"

text \<open>
  The state of one \<open>lex\<close>: how far the text is handled, and the tokens emitted so far with their
  offsets in the caller's bytes.
\<close>

record lexing =
  lx_text :: bytes
  lx_base :: nat
  lx_cursor :: nat
  lx_emitted :: "token list"

definition emit_token :: "nat \<Rightarrow> nat \<Rightarrow> token_kind \<Rightarrow> lexing \<Rightarrow> lexing" where
  "emit_token a b k s = s\<lparr>lx_emitted := lx_emitted s @
     [\<lparr>tok_start = lx_base s + a, tok_end = lx_base s + b, tok_kind = k\<rparr>]\<rparr>"

lemma number_end_gt:
  "at < length tx \<Longrightarrow> is_ascii_digit (tx ! at) \<Longrightarrow> at < number_end tx at"
  using skip_while_Suc [of at tx is_ascii_digit]
    skip_while_le [of "skip_while is_ascii_digit tx at + 1" is_ascii_digit tx]
  by (auto simp: number_end_def Let_def)

lemma number_end_le: "at \<le> length tx \<Longrightarrow> number_end tx at \<le> length tx"
  by (auto simp: number_end_def Let_def get_simps intro!: skip_while_le_length split: option.splits)

text \<open>
  The loop of \<open>code\<close>: cut \<open>[at, to)\<close> into numbers and punctuation. The offsets come from the walk, so
  \<open>to\<close> never passes the end of the text (the read \<open>self.text[at]\<close> would panic there).
\<close>

function code_loop :: "nat \<Rightarrow> nat \<Rightarrow> lexing \<Rightarrow> lexing" where
  "code_loop to at s =
     (if at < to \<and> to \<le> length (lx_text s) then
        (let tx = lx_text s; b = tx ! at in
         if is_ascii_digit b then
           (let e = number_end (take to tx) at;
                glued = (case get tx e of
                           Some n \<Rightarrow> is_ascii_alphabetic n \<or> n = CHR ''_'' | None \<Rightarrow> False)
            in code_loop to e (if glued then s else emit_token at e TNumber s))
         else if is_ascii_punctuation b then
           (let e = skip_while is_ascii_punctuation (take to tx) (at + 1)
            in code_loop to e (emit_token at e TPunct s))
         else code_loop to (at + 1) s)
      else s)"
  by pat_completeness auto
termination
proof (relation "measure (\<lambda>(to, at, s). to - at)", goal_cases)
  case (2 to at s tx b e g)
  then have "at < number_end (take to (lx_text s)) at"
    by (intro number_end_gt) auto
  with 2 show ?case by auto
next
  case (3 to at s tx b e)
  then show ?case
    using skip_while_le [of "at + 1" is_ascii_punctuation "take to (lx_text s)"] by auto
qed auto

declare code_loop.simps [simp del]

definition lex_code :: "nat \<Rightarrow> lexing \<Rightarrow> lexing" where
  "lex_code to s =
     (let s' = code_loop to (lx_cursor s) s in s'\<lparr>lx_cursor := max to (lx_cursor s)\<rparr>)"

section \<open>The visitor\<close>

fun lex_visit :: "lexing \<Rightarrow> event \<Rightarrow> lexing" where
  "lex_visit s (EvSeparator a) = s"
| "lex_visit s (EvOpaque k a b) =
     (emit_token a b (TOpaque k) (lex_code a s))\<lparr>lx_cursor := b\<rparr>"
| "lex_visit s (EvWord a b) =
     (let tx = lx_text s;
          param = a > lx_cursor s \<and> tx ! (a - 1) = CHR '':'' \<and>
            (a < 2 \<or> \<not> (is_ascii_alphanumeric (tx ! (a - 2)) \<or> tx ! (a - 2) = CHR ''_'' \<or>
                         tx ! (a - 2) = CHR '':''))
      in if param then (emit_token (a - 1) b TParam (lex_code (a - 1) s))\<lparr>lx_cursor := b\<rparr>
         else (emit_token a b TWord (lex_code a s))\<lparr>lx_cursor := b\<rparr>)"

definition lex :: "bytes \<Rightarrow> nat \<Rightarrow> nat \<Rightarrow> lexer \<Rightarrow> token list" where
  "lex bs range_start range_end lx =
     (let e = min range_end (length bs); start = min range_start e; tx = slice bs start e;
          s = foldl lex_visit \<lparr>lx_text = tx, lx_base = start, lx_cursor = 0, lx_emitted = []\<rparr>
                (walk_events tx lx)
      in lx_emitted (lex_code (length tx) s))"

lemma lex_example:
  "lex ''x = :id+1.5'' 0 99 POSTGRES =
     [\<lparr>tok_start = 0, tok_end = 1, tok_kind = TWord\<rparr>,
      \<lparr>tok_start = 2, tok_end = 3, tok_kind = TPunct\<rparr>,
      \<lparr>tok_start = 4, tok_end = 7, tok_kind = TParam\<rparr>,
      \<lparr>tok_start = 7, tok_end = 8, tok_kind = TPunct\<rparr>,
      \<lparr>tok_start = 8, tok_end = 11, tok_kind = TNumber\<rparr>]"
  by code_simp

section \<open>The tokens are in order\<close>

definition tok_span :: "token \<Rightarrow> nat \<times> nat" where
  "tok_span t = (tok_start t, tok_end t)"

text \<open>What has been emitted lies before the cursor.\<close>

definition lexing_ok :: "bytes \<Rightarrow> nat \<Rightarrow> nat \<Rightarrow> lexing \<Rightarrow> bool" where
  "lexing_ok tx base at s \<longleftrightarrow> lx_text s = tx \<and> lx_base s = base \<and>
     chain base (base + at) (map tok_span (lx_emitted s))"

lemma lexing_ok_weaken: "lexing_ok tx base a s \<Longrightarrow> a \<le> b \<Longrightarrow> lexing_ok tx base b s"
  by (auto simp: lexing_ok_def intro: chain_weaken)

lemma lexing_ok_cursor [simp]: "lexing_ok tx base a (s\<lparr>lx_cursor := c\<rparr>) = lexing_ok tx base a s"
  by (simp add: lexing_ok_def)

lemma emit_token_ok: "lexing_ok tx base a s \<Longrightarrow> a < b \<Longrightarrow> lexing_ok tx base b (emit_token a b k s)"
  by (auto simp: lexing_ok_def emit_token_def tok_span_def intro: chain_append)

lemma emit_token_cursor [simp]: "lx_cursor (emit_token a b k s) = lx_cursor s"
  by (simp add: emit_token_def)

lemma code_loop_ok:
  "lexing_ok tx base at s \<Longrightarrow> at \<le> to \<Longrightarrow> to \<le> length tx \<Longrightarrow>
     lexing_ok tx base to (code_loop to at s)"
proof (induction "to - at" arbitrary: at s rule: less_induct)
  case less
  have tx: "lx_text s = tx" using less.prems by (simp add: lexing_ok_def)
  show ?case
  proof (cases "at < to")
    case False
    with less.prems have "at = to" by simp
    with less.prems show ?thesis
      by (simp add: code_loop.simps [of to to s])
  next
    case True
    let ?n = "number_end (take to tx) at"
    let ?p = "skip_while is_ascii_punctuation (take to tx) (at + 1)"
    have b: "take to tx ! at = tx ! at" using True by simp
    have n: "at < ?n" "?n \<le> to" if "is_ascii_digit (tx ! at)"
      using that True less.prems number_end_gt [of at "take to tx"]
        number_end_le [of at "take to tx"] by (simp_all add: b)
    have p: "at < ?p" "?p \<le> to"
      using skip_while_le [of "at + 1" is_ascii_punctuation "take to tx"] True less.prems
        skip_while_le_length [of "at + 1" "take to tx" is_ascii_punctuation] by simp_all
    have IH: "lexing_ok tx base to (code_loop to e s')"
      if "at < e" "e \<le> to" "lexing_ok tx base e s'" for e s'
      using less.hyps [of e s'] that less.prems True by simp
    have w: "lexing_ok tx base ?n s" if "is_ascii_digit (tx ! at)"
      using lexing_ok_weaken [OF less.prems(1)] n [OF that] by simp
    show ?thesis
      using True less.prems n p w IH [OF n] IH [OF p] IH [of "at + 1" s]
        lexing_ok_weaken [OF less.prems(1)] emit_token_ok [OF less.prems(1)]
      by (subst code_loop.simps) (simp add: tx Let_def)
  qed
qed

lemma lex_code_ok:
  assumes "lexing_ok tx base (lx_cursor s) s" "lx_cursor s \<le> to" "to \<le> length tx"
  shows "lexing_ok tx base to (lex_code to s)"
  using code_loop_ok [OF assms] by (simp add: lex_code_def Let_def)

lemma lex_visit_ok:
  assumes "lexing_ok tx base (lx_cursor s) s" "lx_cursor s \<le> ev_start e"
    and "ev_start e < ev_end e" "ev_end e \<le> length tx"
  shows "lexing_ok tx base (lx_cursor (lex_visit s e)) (lex_visit s e) \<and>
    lx_cursor (lex_visit s e) \<le> ev_end e"
proof (cases e)
  case (EvSeparator a)
  with assms show ?thesis by simp
next
  case (EvOpaque k a b)
  with assms emit_token_ok [OF lex_code_ok [OF assms(1), of a]] show ?thesis by simp
next
  case (EvWord a b)
  let ?c = "lx_cursor s"
  have "lexing_ok tx base b (emit_token a b TWord (lex_code a s))"
    using assms EvWord by (intro emit_token_ok lex_code_ok) simp_all
  moreover have "lexing_ok tx base b (emit_token (a - 1) b TParam (lex_code (a - 1) s))" if "a > ?c"
    using assms EvWord that by (intro emit_token_ok lex_code_ok) simp_all
  ultimately show ?thesis using EvWord by (simp add: Let_def)
qed

context event_source
begin

lemma lex_visits_ok:
  "tiles lx bs lo hi fs \<Longrightarrow> lexing_ok bs base (lx_cursor s) s \<Longrightarrow> lx_cursor s \<le> lo \<Longrightarrow>
     lo \<le> length bs \<Longrightarrow>
     lexing_ok bs base (lx_cursor (foldl lex_visit s fs)) (foldl lex_visit s fs) \<and>
     lx_cursor (foldl lex_visit s fs) \<le> length bs"
proof (induction fs arbitrary: lo s)
  case (Cons e fs)
  then have e: "lx_cursor s \<le> ev_start e" "ev_start e < ev_end e" "ev_end e \<le> length bs"
    and rest: "tiles lx bs (ev_end e) hi fs"
    by (auto simp: gap_ok_def)
  from Cons.IH [OF rest, of "lex_visit s e"] lex_visit_ok [OF Cons.prems(2) e] e(3)
  show ?case by simp
qed simp

end

section \<open>Properties\<close>

text \<open>
  The tokens of any range, in bounds or not, are in order, do not overlap, are not empty and lie
  inside the range clamped to the text: the editor can colour them without a check of its own.
\<close>
theorem lex_tokens_in_order:
  "sorted_wrt (\<lambda>s t. tok_end s \<le> tok_start t) (lex bs a b lx) \<and>
   list_all (\<lambda>t. min a (min b (length bs)) \<le> tok_start t \<and> tok_start t < tok_end t \<and>
     tok_end t \<le> min b (length bs)) (lex bs a b lx)"
proof -
  define e where "e = min b (length bs)"
  define st where "st = min a e"
  define tx where "tx = slice bs st e"
  let ?s = "\<lparr>lx_text = tx, lx_base = st, lx_cursor = 0, lx_emitted = []\<rparr>"
  let ?f = "foldl lex_visit ?s (walk_events tx lx)"
  have len: "st + length tx = e" by (simp add: tx_def st_def e_def)
  have "lexing_ok tx st (lx_cursor ?s) ?s" by (simp add: lexing_ok_def)
  from walked.lex_visits_ok [OF walk_tiles this] have "lexing_ok tx st (lx_cursor ?f) ?f"
    "lx_cursor ?f \<le> length tx" by simp_all
  then have "lexing_ok tx st (length tx) (lex_code (length tx) ?f)"
    by (rule lex_code_ok) simp
  moreover have "lex bs a b lx = lx_emitted (lex_code (length tx) ?f)"
    unfolding lex_def Let_def e_def st_def tx_def by (rule refl)
  ultimately have "chain st e (map tok_span (lex bs a b lx))"
    by (simp only: lexing_ok_def len)
  from chain_sorted [OF this] show ?thesis
    by (simp add: sorted_wrt_map list.pred_map tok_span_def comp_def e_def st_def)
qed

end
