(* ===== verification/SqlWalkFrom.thy ===== *)
theory SqlWalkFrom
  imports SqlWalk
begin

text \<open>
  The walk as a function of where it resumes: once it is in code (\<open>Normal\<close>), what it reports depends
  on nothing but the text from there on. So a walk that has left a region can be described by an
  offset alone (\<open>walk_from\<close>).
\<close>

section \<open>Resuming in code\<close>

definition walk_from :: "bytes \<Rightarrow> lexer \<Rightarrow> nat \<Rightarrow> event list \<times> end_state" where
  "walk_from bs lx i = walk_loop lx bs (walk_init\<lparr>w_index := i\<rparr>)"

lemma walk_from_0: "walk_from bs lx 0 = walk bs lx"
  by (simp add: walk_from_def walk_def walk_init_def)

text \<open>Two states the loop cannot tell apart.\<close>

definition same_scan :: "walk_state \<Rightarrow> walk_state \<Rightarrow> bool" where
  "same_scan v w \<longleftrightarrow> w_state v = w_state w \<and> w_index v = w_index w \<and>
     (w_state w \<noteq> Normal \<longrightarrow> w_start v = w_start w \<and> w_kind v = w_kind w) \<and>
     (w_state w = DollarQuoted \<longrightarrow> w_tag v = w_tag w) \<and>
     (w_state w = BlockCommented \<longrightarrow> w_depth v = w_depth w)"

lemma same_scan_step:
  assumes "same_scan v w"
  shows "same_scan (fst (walk_step lx bs v)) (fst (walk_step lx bs w)) \<and>
    snd (walk_step lx bs v) = snd (walk_step lx bs w)"
proof (cases "w_state w")
  case Normal
  with assms have "w_state v = Normal" "w_index v = w_index w" by (auto simp: same_scan_def)
  with Normal show ?thesis
    by (auto simp: walk_step_def normal_step_def Let_def same_scan_def string_prefix_opens
        dest!: string_prefix_opens(3) split: option.split if_splits)
qed (use assms in \<open>auto simp: walk_step_def single_step_def escape_step_def unicode_step_def
       double_step_def bit_step_def quote_step_def backtick_step_def line_comment_step_def
       block_comment_step_def dollar_step_def Let_def same_scan_def split: option.split\<close>)

lemma same_scan_loop: "same_scan v w \<Longrightarrow> walk_loop lx bs v = walk_loop lx bs w"
proof (induction lx bs w arbitrary: v rule: walk_loop.induct)
  case (1 lx bs w)
  have i: "w_index v = w_index w" "w_state v = w_state w"
    using "1.prems" by (auto simp: same_scan_def)
  show ?case
  proof (cases "w_index w < length bs")
    case True
    obtain v' w' es fs where s: "walk_step lx bs w = (w', es)" "walk_step lx bs v = (v', fs)"
      by (metis surj_pair)
    with same_scan_step [OF "1.prems", of lx bs] have "same_scan v' w'" "fs = es" by auto
    with "1.IH" [OF True s(1) [symmetric], of v'] s True i show ?thesis
      by (simp add: walk_loop.simps [of lx bs v] walk_loop.simps [of lx bs w])
  next
    case False
    with "1.prems" i show ?thesis
      by (auto simp: walk_loop.simps [of lx bs v] walk_loop.simps [of lx bs w] same_scan_def)
  qed
qed

lemma walk_loop_normal: "w_state w = Normal \<Longrightarrow> walk_loop lx bs w = walk_from bs lx (w_index w)"
  unfolding walk_from_def by (rule same_scan_loop) (simp add: same_scan_def walk_init_def)

section \<open>A region ends as what it began as\<close>

lemma region_step:
  assumes "w_state w \<noteq> Normal" and "walk_step lx bs w = (w', es)"
  shows "es = [] \<and> w_state w' = w_state w \<and> w_kind w' = w_kind w \<and> w_start w' = w_start w \<or>
    (\<exists>b. es = [EvOpaque (w_kind w) (w_start w) b])"
  using assms
  by (cases "w_state w")
     (auto simp: walk_step_def single_step_def escape_step_def unicode_step_def
       double_step_def bit_step_def quote_step_def backtick_step_def line_comment_step_def
       block_comment_step_def dollar_step_def Let_def move_to_def close_region_def
       split: option.splits if_splits)

lemma region_first_event:
  "w_state w \<noteq> Normal \<Longrightarrow>
     \<exists>b rest. fst (walk_loop lx bs w) = EvOpaque (w_kind w) (w_start w) b # rest"
proof (induction lx bs w rule: walk_loop.induct)
  case (1 lx bs w)
  show ?case
  proof (cases "w_index w < length bs")
    case True
    obtain w' es where s: "walk_step lx bs w = (w', es)" by fastforce
    from region_step [OF "1.prems" s] "1.IH" [OF True s [symmetric]] "1.prems"
    show ?thesis by (auto simp: walk_loop_step [OF True s])
  next
    case False
    with "1.prems" show ?thesis by (simp add: walk_loop_done)
  qed
qed

end
