(* ===== verification/SqlScan.thy ===== *)
theory SqlScan
  imports SqlWalkFrom
begin

text \<open>
  What \<^verbatim>\<open>crates/qh-sql/src/scan.rs\<close> makes of a walk: \<open>scan_dialect\<close> (separators, bare words,
  leading keyword, terminator), \<open>first_significant\<close> and the statement count.

  \<open>comment_end\<close>, \<open>leading_keyword\<close> and \<open>first_significant\<close> skip comments on their own, without the
  walk. The lemmas show that this second reading of comments agrees with the walk's: where they skip
  to is where the walk is in code again, having reported nothing but comments and separators.
\<close>

section \<open>Skipping one comment\<close>

text \<open>The loop over a block comment from \<open>at\<close>, with \<open>depth\<close> openers unclosed.\<close>

function block_comment_end :: "bytes \<Rightarrow> lexer \<Rightarrow> nat \<Rightarrow> nat \<Rightarrow> nat" where
  "block_comment_end bs lx at depth =
     (if at < length bs then
        (if nested_comments lx \<and> bs ! at = CHR ''/'' \<and> get bs (at + 1) = Some (CHR ''*'')
         then block_comment_end bs lx (at + 2) (depth + 1)
         else if bs ! at = CHR ''*'' \<and> get bs (at + 1) = Some (CHR ''/'') then
           (if depth - 1 = 0 then at + 2 else block_comment_end bs lx (at + 2) (depth - 1))
         else block_comment_end bs lx (at + 1) depth)
      else at)"
  by pat_completeness auto
termination
  by (relation "measure (\<lambda>(bs, lx, at, depth). length bs - at)") auto

declare block_comment_end.simps [simp del]

definition line_end :: "bytes \<Rightarrow> lexer \<Rightarrow> nat \<Rightarrow> nat" where
  "line_end bs lx at = skip_while (\<lambda>b. \<not> ends_line b lx) bs at"

definition comment_end :: "bytes \<Rightarrow> nat \<Rightarrow> lexer \<Rightarrow> nat option" where
  "comment_end bs i lx =
     (if dash_opens_comment bs i lx then Some (line_end bs lx (i + 2))
      else if bs ! i = CHR ''#'' \<and> hash_comment lx then Some (line_end bs lx (i + 1))
      else if bs ! i = CHR ''/'' \<and> get bs (i + 1) = Some (CHR ''*'')
      then Some (block_comment_end bs lx (i + 2) 1)
      else None)"

lemma block_comment_end_ge: "at \<le> block_comment_end bs lx at depth"
proof (induction bs lx at depth rule: block_comment_end.induct)
  case (1 bs lx at depth)
  then show ?case by (subst block_comment_end.simps) auto
qed

lemma comment_end_gt: "comment_end bs i lx = Some j \<Longrightarrow> i < j"
  using block_comment_end_ge [of "i + 2" bs lx 1]
    skip_while_le [of "i + 2" "\<lambda>b. \<not> ends_line b lx" bs]
    skip_while_le [of "i + 1" "\<lambda>b. \<not> ends_line b lx" bs]
  by (auto simp: comment_end_def line_end_def split: if_splits)

section \<open>The leading keyword\<close>

text \<open>
  The first loop of \<open>leading_keyword\<close>: white space, openers of executable comments and comments are
  skipped; \<open>None\<close> when the text ends first.
\<close>

function leading_start :: "bytes \<Rightarrow> lexer \<Rightarrow> nat \<Rightarrow> nat option" where
  "leading_start bs lx i0 =
     (let i = skip_while is_ascii_whitespace bs i0 in
      if length bs \<le> i then None
      else (case executable_comment_opener bs i lx of
              Some n \<Rightarrow> leading_start bs lx n
            | None \<Rightarrow>
                (case comment_end bs i lx of
                   Some n \<Rightarrow> leading_start bs lx n
                 | None \<Rightarrow> Some i)))"
  by pat_completeness auto
termination
proof (relation "measure (\<lambda>(bs, lx, i). length bs - i)", goal_cases)
  case (2 bs lx i0 i n)
  then have "i < length bs" "i < n" using comment_end_gt by auto
  moreover have "i0 \<le> i" using 2 skip_while_le by simp
  ultimately show ?case by simp
next
  case (3 bs lx i0 i n)
  then have "i < length bs" "i < n" by (auto dest!: executable_comment_opener_bounds)
  moreover have "i0 \<le> i" using 3 skip_while_le by simp
  ultimately show ?case by simp
qed simp

declare leading_start.simps [simp del]

definition keyword_end :: "bytes \<Rightarrow> lexer \<Rightarrow> nat \<Rightarrow> nat" where
  "keyword_end bs lx start =
     (if postgres lx then skip_while (\<lambda>b. is_ident_cont b lx) bs start
      else skip_while (\<lambda>b. is_ascii_alphabetic b \<or> b = CHR ''_'') bs start)"

definition leading_keyword_of :: "bytes \<Rightarrow> lexer \<Rightarrow> bytes option" where
  "leading_keyword_of sql lx =
     (case leading_start sql lx 0 of
        None \<Rightarrow> None
      | Some start \<Rightarrow>
          (let i = keyword_end sql lx start in
           if i = start \<or> (postgres lx \<and> \<not> is_ident_start (sql ! start) lx) then None
           else Some (to_ascii_uppercase (slice sql start i))))"

section \<open>The scan\<close>

record scan =
  separators :: "nat list"
  ends_with_terminator :: bool
  leading_keyword :: "bytes option"
  bare_words :: "bytes list"

definition scan_default :: scan where
  "scan_default = \<lparr>separators = [], ends_with_terminator = False, leading_keyword = None,
     bare_words = []\<rparr>"

fun collect_visit :: "bytes \<Rightarrow> scan \<Rightarrow> event \<Rightarrow> scan" where
  "collect_visit sql s (EvSeparator a) = s\<lparr>separators := separators s @ [a]\<rparr>"
| "collect_visit sql s (EvWord a b) =
     s\<lparr>bare_words := bare_words s @ [to_ascii_uppercase (slice sql a b)]\<rparr>"
| "collect_visit sql s (EvOpaque k a b) = s"

definition scan_dialect :: "bytes \<Rightarrow> lexer \<Rightarrow> scan" where
  "scan_dialect sql lx =
     (let s = foldl (collect_visit sql) scan_default (walk_events sql lx) in
      s\<lparr>leading_keyword := leading_keyword_of sql lx,
        ends_with_terminator := trim_end sql \<noteq> [] \<and> last (trim_end sql) = CHR '';''\<rparr>)"

section \<open>Significant text and the statement count\<close>

function significant_from :: "bytes \<Rightarrow> lexer \<Rightarrow> nat \<Rightarrow> nat option" where
  "significant_from bs lx i =
     (if i < length bs then
        (if is_ascii_whitespace (bs ! i) \<or> bs ! i = CHR '';'' then significant_from bs lx (i + 1)
         else (case executable_comment_opener bs i lx of
                 Some n \<Rightarrow> significant_from bs lx n
               | None \<Rightarrow>
                   (case comment_end bs i lx of
                      Some n \<Rightarrow> significant_from bs lx n
                    | None \<Rightarrow> Some i)))
      else None)"
  by pat_completeness auto
termination
  by (relation "measure (\<lambda>(bs, lx, i). length bs - i)")
     (auto dest!: executable_comment_opener_bounds comment_end_gt)

declare significant_from.simps [simp del]

definition first_significant :: "bytes \<Rightarrow> lexer \<Rightarrow> nat option" where
  "first_significant sql lx = significant_from sql lx 0"

definition has_significant_text :: "bytes \<Rightarrow> lexer \<Rightarrow> bool" where
  "has_significant_text sql lx \<longleftrightarrow> first_significant sql lx \<noteq> None"

definition statement_count :: "bytes \<Rightarrow> scan \<Rightarrow> lexer \<Rightarrow> nat" where
  "statement_count sql s lx =
     (if \<not> has_significant_text sql lx then 0
      else if separators s = [] then 1
      else if ends_with_terminator s then length (separators s)
      else length (separators s) + 1)"

lemma scan_example:
  "scan_dialect (''SELECT '' @ [CHR 0x27] @ ''a;b'' @ [CHR 0x27] @ '' ; x'') GENERIC =
     \<lparr>separators = [13], ends_with_terminator = False, leading_keyword = Some ''SELECT'',
      bare_words = [''SELECT'', ''X'']\<rparr>"
  by code_simp

section \<open>The two readings of a comment agree\<close>

definition events_from :: "bytes \<Rightarrow> lexer \<Rightarrow> nat \<Rightarrow> event list" where
  "events_from bs lx i = fst (walk_from bs lx i)"

lemma walk_events_from: "walk_events bs lx = events_from bs lx 0"
  by (simp add: walk_events_def events_from_def walk_from_0)

lemma events_from_past: "length bs \<le> i \<Longrightarrow> events_from bs lx i = []"
  by (simp add: events_from_def walk_from_def walk_loop_done walk_init_def)

text \<open>One iteration from code, when it stays in code and when it enters a region.\<close>

definition in_code :: "nat \<Rightarrow> walk_state" where
  "in_code i = walk_init\<lparr>w_index := i\<rparr>"

lemma in_code_simps [simp]:
  "w_state (in_code i) = Normal" "w_index (in_code i) = i"
  by (simp_all add: in_code_def walk_init_def)

lemma events_from_enter:
  "i < length bs \<Longrightarrow> normal_step lx bs (in_code i) = (w', es) \<Longrightarrow>
     events_from bs lx i = es @ fst (walk_loop lx bs w')"
  using walk_loop_step [of "in_code i" bs lx w' es]
  by (simp add: events_from_def walk_from_def in_code_def walk_step_def walk_init_def)

lemma events_from_step:
  "i < length bs \<Longrightarrow> normal_step lx bs (in_code i) = (w', es) \<Longrightarrow> w_state w' = Normal \<Longrightarrow>
     events_from bs lx i = es @ events_from bs lx (w_index w')"
  using events_from_enter [of i bs lx w' es] walk_loop_normal [of w' lx bs]
  by (simp add: events_from_def)

lemma events_from_whitespace:
  assumes "i < length bs" "is_ascii_whitespace (bs ! i)"
  shows "events_from bs lx i = events_from bs lx (i + 1)"
proof -
  have "normal_step lx bs (in_code i) = move_to (i + 1) (in_code i)"
    using assms(2) unfolding is_ascii_whitespace_iff
    by (elim disjE) (simp_all add: normal_step_def Let_def is_ident_start_def byte_class_defs)
  from events_from_step [OF assms(1) this [unfolded move_to_def]] show ?thesis by simp
qed

lemma events_from_separator:
  assumes "i < length bs" "bs ! i = CHR '';''"
  shows "events_from bs lx i = EvSeparator i # events_from bs lx (i + 1)"
proof -
  have "normal_step lx bs (in_code i) =
      ((in_code i)\<lparr>w_index := i + 1\<rparr>, [EvSeparator i])"
    using assms(2) by (simp add: normal_step_def Let_def)
  from events_from_step [OF assms(1) this] show ?thesis by simp
qed

lemma events_from_opener:
  assumes "i < length bs" "executable_comment_opener bs i lx = Some n"
  shows "events_from bs lx i = events_from bs lx n"
proof -
  have "bs ! i = CHR ''/''"
    using assms(2) by (auto simp: executable_comment_opener_def get_simps split: if_splits)
  with assms(2) have "normal_step lx bs (in_code i) =
      move_to n (in_code i)"
    by (simp add: normal_step_def Let_def)
  from events_from_step [OF assms(1) this [unfolded move_to_def]] show ?thesis by simp
qed

lemma walk_loop_line_comment:
  "w_state w = LineCommented \<Longrightarrow> w_index w = i \<Longrightarrow> i \<le> length bs \<Longrightarrow>
     fst (walk_loop lx bs w) =
       EvOpaque (w_kind w) (w_start w) (line_end bs lx i) # events_from bs lx (line_end bs lx i)"
proof (induction "length bs - i" arbitrary: i w)
  case 0
  then show ?case
    by (simp add: walk_loop.simps [of lx bs w] line_end_def skip_while_past events_from_past)
next
  case (Suc n)
  then have lt: "i < length bs" by simp
  show ?case
  proof (cases "ends_line (bs ! i) lx")
    case True
    then have e: "line_end bs lx i = i" by (simp add: line_end_def skip_while.simps [of _ bs i])
    have ws: "is_ascii_whitespace (bs ! i)"
      using True by (auto simp: ends_line_def byte_class_defs)
    let ?w = "w\<lparr>w_state := Normal, w_index := i + 1\<rparr>"
    have "fst (walk_loop lx bs w) = EvOpaque (w_kind w) (w_start w) i # fst (walk_loop lx bs ?w)"
      using Suc.prems True lt
      by (simp add: walk_loop.simps [of lx bs w] walk_step_def line_comment_step_def Let_def
          close_region_def split: prod.split)
    also have "walk_loop lx bs ?w = walk_from bs lx (i + 1)"
      using walk_loop_normal [of ?w lx bs] by simp
    finally show ?thesis
      using events_from_whitespace [OF lt ws, of lx] e by (simp add: events_from_def)
  next
    case False
    then have e: "line_end bs lx i = line_end bs lx (i + 1)"
      using lt by (simp add: line_end_def skip_while.simps [of _ bs i])
    have "walk_loop lx bs w = walk_loop lx bs (w\<lparr>w_index := i + 1\<rparr>)"
      using Suc.prems False lt
      by (simp add: walk_loop.simps [of lx bs w] walk_step_def line_comment_step_def Let_def
          move_to_def split: prod.split)
    with Suc.hyps(1) [of "i + 1" "w\<lparr>w_index := i + 1\<rparr>"] Suc.hyps(2) Suc.prems lt e
    show ?thesis by simp
  qed
qed

lemma walk_loop_block_comment:
  "w_state w = BlockCommented \<Longrightarrow> w_index w = at \<Longrightarrow> w_depth w = depth \<Longrightarrow> at \<le> length bs \<Longrightarrow>
     fst (walk_loop lx bs w) =
       EvOpaque (w_kind w) (w_start w) (block_comment_end bs lx at depth) #
       events_from bs lx (block_comment_end bs lx at depth)"
proof (induction bs lx at depth arbitrary: w rule: block_comment_end.induct)
  case (1 bs lx at depth)
  note step = walk_step_def block_comment_step_def Let_def
  show ?case
  proof (cases "at < length bs")
    case False
    with "1.prems" have "at = length bs" by simp
    with "1.prems" show ?thesis
      by (simp add: walk_loop_done events_from_past block_comment_end.simps [of bs lx "length bs"])
  next
    case lt: True
    consider (nest) "nested_comments lx" "bs ! at = CHR ''/''" "get bs (at + 1) = Some (CHR ''*'')"
      | (close) "bs ! at = CHR ''*''" "get bs (at + 1) = Some (CHR ''/'')"
      | (other) "\<not> (nested_comments lx \<and> bs ! at = CHR ''/'' \<and> get bs (at + 1) = Some (CHR ''*''))"
          "\<not> (bs ! at = CHR ''*'' \<and> get bs (at + 1) = Some (CHR ''/''))"
      by blast
    then show ?thesis
    proof cases
      case nest
      then have "at + 2 \<le> length bs" by (auto simp: get_simps)
      moreover have "walk_loop lx bs w = walk_loop lx bs (w\<lparr>w_depth := depth + 1, w_index := at + 2\<rparr>)"
        using "1.prems" nest lt
        by (simp add: walk_loop.simps [of lx bs w] step move_to_def split: prod.split)
      ultimately show ?thesis
        using "1.IH"(1) [OF lt, of "w\<lparr>w_depth := depth + 1, w_index := at + 2\<rparr>"] nest lt "1.prems"
        by (simp add: block_comment_end.simps [of bs lx at])
    next
      case close
      then have le: "at + 2 \<le> length bs" by (auto simp: get_simps)
      show ?thesis
      proof (cases "depth - 1 = 0")
        case True
        let ?w = "w\<lparr>w_depth := depth - 1, w_state := Normal, w_index := at + 2\<rparr>"
        have "fst (walk_loop lx bs w) =
            EvOpaque (w_kind w) (w_start w) (at + 2) # fst (walk_loop lx bs ?w)"
          using "1.prems" close lt True
          by (simp add: walk_loop.simps [of lx bs w] step close_region_def split: prod.split)
        also have "walk_loop lx bs ?w = walk_from bs lx (at + 2)"
          using walk_loop_normal [of ?w lx bs] by simp
        finally show ?thesis
          using close lt True by (simp add: block_comment_end.simps [of bs lx at] events_from_def)
      next
        case False
        have "walk_loop lx bs w = walk_loop lx bs (w\<lparr>w_depth := depth - 1, w_index := at + 2\<rparr>)"
          using "1.prems" close lt False
          by (simp add: walk_loop.simps [of lx bs w] step move_to_def split: prod.split)
        then show ?thesis
          using "1.IH"(2) [OF lt, of "w\<lparr>w_depth := depth - 1, w_index := at + 2\<rparr>"] close lt False
            "1.prems" le
          by (simp add: block_comment_end.simps [of bs lx at])
      qed
    next
      case other
      have "walk_loop lx bs w = walk_loop lx bs (w\<lparr>w_index := at + 1\<rparr>)"
        using "1.prems" other lt
        by (auto simp: walk_loop.simps [of lx bs w] step move_to_def split: prod.split)
      then show ?thesis
        using "1.IH"(3) [OF lt other, of "w\<lparr>w_index := at + 1\<rparr>"] "1.prems" other lt
        by (auto simp: block_comment_end.simps [of bs lx at])
    qed
  qed
qed

definition is_comment :: "event \<Rightarrow> bool" where
  "is_comment e \<longleftrightarrow> (\<exists>a b. e = EvOpaque LineComment a b \<or> e = EvOpaque BlockComment a b)"

definition is_separator :: "event \<Rightarrow> bool" where
  "is_separator e \<longleftrightarrow> (\<exists>a. e = EvSeparator a)"

lemma is_comment_simps [simp]:
  "is_comment (EvOpaque LineComment a b)" "is_comment (EvOpaque BlockComment a b)"
  "\<not> is_comment (EvSeparator a)" "\<not> is_comment (EvWord a b)"
  "\<not> is_comment (EvOpaque SingleQuote a b)" "\<not> is_comment (EvOpaque DoubleQuote a b)"
  "\<not> is_comment (EvOpaque Backtick a b)" "\<not> is_comment (EvOpaque DollarQuote a b)"
  "is_separator (EvSeparator a)" "\<not> is_separator (EvWord a b)" "\<not> is_separator (EvOpaque k a b)"
  by (auto simp: is_comment_def is_separator_def)

lemma dash_opens_at: "dash_opens_comment bs i lx \<Longrightarrow>
    i + 2 \<le> length bs \<and> bs ! i = CHR ''-''"
  by (auto simp: dash_opens_comment_def get_simps split: if_splits)

lemma events_from_comment:
  assumes lt: "i < length bs" and no: "executable_comment_opener bs i lx = None"
    and c: "comment_end bs i lx = Some j"
  shows "\<exists>e. is_comment e \<and> ev_start e = i \<and> ev_end e = j \<and>
    events_from bs lx i = e # events_from bs lx j"
proof -
  let ?w = "\<lambda>n. open_region LineCommented LineComment i n (in_code i)"
  consider (dash) "dash_opens_comment bs i lx" "j = line_end bs lx (i + 2)"
    | (hash) "\<not> dash_opens_comment bs i lx" "bs ! i = CHR ''#''" "hash_comment lx"
        "j = line_end bs lx (i + 1)"
    | (block) "\<not> dash_opens_comment bs i lx" "bs ! i = CHR ''/''"
        "get bs (i + 1) = Some (CHR ''*'')" "j = block_comment_end bs lx (i + 2) 1"
    using c by (auto simp: comment_end_def split: if_splits)
  then show ?thesis
  proof cases
    case dash
    have "normal_step lx bs (in_code i) = (?w (i + 2), [])"
      using dash_opens_at [OF dash(1)] dash(1) by (simp add: normal_step_def Let_def)
    from events_from_enter [OF lt this] walk_loop_line_comment [of "?w (i + 2)" "i + 2" bs lx]
    show ?thesis using dash_opens_at [OF dash(1)] dash(2)
      by (intro exI [of _ "EvOpaque LineComment i j"]) simp
  next
    case hash
    have "normal_step lx bs (in_code i) = (?w (i + 1), [])"
      using hash by (simp add: normal_step_def Let_def)
    from events_from_enter [OF lt this] walk_loop_line_comment [of "?w (i + 1)" "i + 1" bs lx]
    show ?thesis using hash(4) lt
      by (intro exI [of _ "EvOpaque LineComment i j"]) simp
  next
    case block
    let ?v = "open_region BlockCommented BlockComment i (i + 2) ((in_code i)\<lparr>w_depth := 1\<rparr>)"
    have "normal_step lx bs (in_code i) = (?v, [])"
      using block no by (simp add: normal_step_def Let_def)
    from events_from_enter [OF lt this] walk_loop_block_comment [of ?v "i + 2" 1 bs lx]
    show ?thesis using block(3,4)
      by (intro exI [of _ "EvOpaque BlockComment i j"]) (simp add: get_simps)
  qed
qed

lemma events_from_skip_whitespace:
  "events_from bs lx i = events_from bs lx (skip_while is_ascii_whitespace bs i)"
proof (induction is_ascii_whitespace bs i rule: skip_while.induct)
  case (1 bs i)
  then show ?case
    by (auto simp: skip_while.simps [of is_ascii_whitespace bs i] events_from_whitespace)
qed

text \<open>What the two skipping loops step over is exactly what the walk reports as not code.\<close>

lemma leading_start_events:
  "\<exists>pre. list_all is_comment pre \<and>
     (case leading_start bs lx i of
        None \<Rightarrow> events_from bs lx i = pre
      | Some j \<Rightarrow> i \<le> j \<and> j < length bs \<and> comment_end bs j lx = None \<and>
          executable_comment_opener bs j lx = None \<and> \<not> is_ascii_whitespace (bs ! j) \<and>
          events_from bs lx i = pre @ events_from bs lx j)"
proof (induction bs lx i rule: leading_start.induct)
  case (1 bs lx i0)
  define i where "i = skip_while is_ascii_whitespace bs i0"
  have ws: "events_from bs lx i0 = events_from bs lx i" and le: "i0 \<le> i"
    unfolding i_def by (rule events_from_skip_whitespace, rule skip_while_le)
  have unfold: "leading_start bs lx i0 =
      (if length bs \<le> i then None
       else (case executable_comment_opener bs i lx of
               Some n \<Rightarrow> leading_start bs lx n
             | None \<Rightarrow> (case comment_end bs i lx of
                          Some n \<Rightarrow> leading_start bs lx n | None \<Rightarrow> Some i)))"
    unfolding i_def by (subst leading_start.simps) (simp only: Let_def)
  consider (stop) "length bs \<le> i"
    | (exec) n where "i < length bs" "executable_comment_opener bs i lx = Some n"
    | (comment) n where "i < length bs" "executable_comment_opener bs i lx = None"
        "comment_end bs i lx = Some n"
    | (found) "i < length bs" "executable_comment_opener bs i lx = None" "comment_end bs i lx = None"
    by (cases "length bs \<le> i"; cases "executable_comment_opener bs i lx";
        cases "comment_end bs i lx") auto
  then show ?case
  proof cases
    case stop
    with unfold ws show ?thesis
      by (intro exI [of _ "[]"]) (simp add: events_from_past)
  next
    case exec
    then have "\<not> length bs \<le> i" by simp
    from "1.IH"(2) [OF i_def this exec(2)] obtain pre where "list_all is_comment pre"
      "case leading_start bs lx n of None \<Rightarrow> events_from bs lx n = pre
        | Some j \<Rightarrow> n \<le> j \<and> j < length bs \<and> comment_end bs j lx = None \<and>
            executable_comment_opener bs j lx = None \<and> \<not> is_ascii_whitespace (bs ! j) \<and>
            events_from bs lx n = pre @ events_from bs lx j" by blast
    moreover have "i \<le> n" using executable_comment_opener_bounds [OF exec(2)] by simp
    ultimately show ?thesis
      using unfold exec ws le events_from_opener [OF exec]
      by (intro exI [of _ pre]) (auto split: option.splits)
  next
    case comment
    then have "\<not> length bs \<le> i" by simp
    from "1.IH"(1) [OF i_def this comment(2,3)] obtain pre where "list_all is_comment pre"
      "case leading_start bs lx n of None \<Rightarrow> events_from bs lx n = pre
        | Some j \<Rightarrow> n \<le> j \<and> j < length bs \<and> comment_end bs j lx = None \<and>
            executable_comment_opener bs j lx = None \<and> \<not> is_ascii_whitespace (bs ! j) \<and>
            events_from bs lx n = pre @ events_from bs lx j" by blast
    moreover obtain e where "is_comment e" "events_from bs lx i = e # events_from bs lx n"
      using events_from_comment [OF comment] by blast
    moreover have "i \<le> n" using comment_end_gt [OF comment(3)] by simp
    ultimately show ?thesis
      using unfold comment ws le
      by (intro exI [of _ "e # pre"]) (auto split: option.splits)
  next
    case found
    then have "\<not> is_ascii_whitespace (bs ! i)"
      using skip_while_stops [of is_ascii_whitespace bs i0] by (simp add: i_def)
    with found unfold ws le show ?thesis
      by (intro exI [of _ "[]"]) simp
  qed
qed

lemma significant_from_events:
  "\<exists>pre. list_all (\<lambda>e. is_comment e \<or> is_separator e) pre \<and>
     (case significant_from bs lx i of
        None \<Rightarrow> events_from bs lx i = pre
      | Some j \<Rightarrow> i \<le> j \<and> j < length bs \<and> events_from bs lx i = pre @ events_from bs lx j)"
proof (induction bs lx i rule: significant_from.induct)
  case (1 bs lx i)
  let ?P = "\<lambda>n pre. list_all (\<lambda>e. is_comment e \<or> is_separator e) pre \<and>
     (case significant_from bs lx n of
        None \<Rightarrow> events_from bs lx n = pre
      | Some j \<Rightarrow> n \<le> j \<and> j < length bs \<and> events_from bs lx n = pre @ events_from bs lx j)"
  have extend: "\<exists>pre. ?P i pre"
    if "significant_from bs lx i = significant_from bs lx n" "i \<le> n"
      "events_from bs lx i = es @ events_from bs lx n" "?P n pre"
      "list_all (\<lambda>e. is_comment e \<or> is_separator e) es" for n es pre
    using that by (intro exI [of _ "es @ pre"]) (auto split: option.splits)
  consider (stop) "length bs \<le> i"
    | (space) "i < length bs" "is_ascii_whitespace (bs ! i)"
    | (sep) "i < length bs" "bs ! i = CHR '';''" "\<not> is_ascii_whitespace (bs ! i)"
    | (exec) n where "i < length bs" "\<not> (is_ascii_whitespace (bs ! i) \<or> bs ! i = CHR '';'')"
        "executable_comment_opener bs i lx = Some n"
    | (comment) n where "i < length bs" "\<not> (is_ascii_whitespace (bs ! i) \<or> bs ! i = CHR '';'')"
        "executable_comment_opener bs i lx = None" "comment_end bs i lx = Some n"
    | (found) "i < length bs" "\<not> (is_ascii_whitespace (bs ! i) \<or> bs ! i = CHR '';'')"
        "executable_comment_opener bs i lx = None" "comment_end bs i lx = None"
    by (meson not_le option.exhaust)
  then show ?case
  proof cases
    case stop
    then show ?thesis
      by (intro exI [of _ "[]"]) (simp add: significant_from.simps [of bs lx i] events_from_past)
  next
    case space
    then obtain pre where "?P (i + 1) pre" using "1.IH"(1) by blast
    with space show ?thesis
      by (intro extend [of "i + 1" "[]" pre])
         (simp_all add: significant_from.simps [of bs lx i] events_from_whitespace)
  next
    case sep
    then obtain pre where "?P (i + 1) pre" using "1.IH"(1) by blast
    with sep show ?thesis
      by (intro extend [of "i + 1" "[EvSeparator i]" pre])
         (simp_all add: significant_from.simps [of bs lx i] events_from_separator)
  next
    case exec
    then obtain pre where "?P n pre" using "1.IH"(3) by blast
    with exec executable_comment_opener_bounds [OF exec(3)] show ?thesis
      by (intro extend [of n "[]" pre])
         (simp_all add: significant_from.simps [of bs lx i] events_from_opener)
  next
    case comment
    then obtain pre where "?P n pre" using "1.IH"(2) by blast
    moreover obtain e where "is_comment e" "events_from bs lx i = e # events_from bs lx n"
      using events_from_comment [OF comment(1,3,4)] by blast
    ultimately show ?thesis using comment comment_end_gt [OF comment(4)]
      by (intro extend [of n "[e]" pre]) (simp_all add: significant_from.simps [of bs lx i])
  next
    case found
    then show ?thesis
      by (intro exI [of _ "[]"]) (simp add: significant_from.simps [of bs lx i])
  qed
qed

section \<open>The leading keyword is the first word\<close>

lemma ident_start_step:
  assumes "is_ident_start (bs ! i) lx"
  shows "normal_step lx bs (in_code i) =
    (let e = skip_while (\<lambda>c. is_ident_cont c lx) bs i in
     case string_prefix lx bs i e of
       Some (quoted, width) \<Rightarrow> (open_region quoted SingleQuote i (e + width) (in_code i), [])
     | None \<Rightarrow> ((in_code i)\<lparr>w_index := e\<rparr>, [EvWord i e]))"
proof -
  have "\<not> is_ident_start c lx" if "c \<in> {CHR 0x27, CHR 0x22, CHR 0x60, CHR ''/'', CHR ''-'',
      CHR ''#'', CHR '';'', CHR ''$''}" for c
    using that by (auto simp: is_ident_start_def byte_class_defs)
  with assms show ?thesis by (auto simp: normal_step_def Let_def)
qed

lemma ident_start_events:
  assumes "i < length bs" "is_ident_start (bs ! i) lx"
  defines "e \<equiv> skip_while (\<lambda>c. is_ident_cont c lx) bs i"
  shows "(string_prefix lx bs i e = None \<and> events_from bs lx i = EvWord i e # events_from bs lx e) \<or>
    (string_prefix lx bs i e \<noteq> None \<and> (\<exists>b rest. events_from bs lx i = EvOpaque SingleQuote i b # rest))"
proof (cases "string_prefix lx bs i e")
  case None
  then have "normal_step lx bs (in_code i) = ((in_code i)\<lparr>w_index := e\<rparr>, [EvWord i e])"
    using ident_start_step [OF assms(2)] by (simp add: e_def Let_def)
  from events_from_step [OF assms(1) this] None show ?thesis by simp
next
  case (Some q)
  obtain s n where q: "q = (s, n)" by (cases q)
  let ?w = "open_region s SingleQuote i (e + n) (in_code i)"
  have "normal_step lx bs (in_code i) = (?w, [])"
    using ident_start_step [OF assms(2)] Some q by (simp add: e_def Let_def)
  from events_from_enter [OF assms(1) this] region_first_event [of ?w lx bs]
    string_prefix_opens(3) [of lx bs i e s n] Some q
  show ?thesis by auto
qed

lemma skip_while_prefix:
  assumes "\<And>c. P c \<Longrightarrow> Q c" "i \<le> length xs"
  shows "skip_while P xs i \<le> skip_while Q xs i"
proof (rule ccontr)
  assume "\<not> ?thesis"
  then have "skip_while Q xs i < skip_while P xs i" by simp
  with skip_while_holds [OF skip_while_le this] skip_while_stops [of Q xs i] assms(1)
  show False by auto
qed

lemma slice_prefix: "b \<le> c \<Longrightarrow> prefix (slice xs a b) (slice xs a c)"
  by (simp add: slice_def take_is_prefix prefix_def) (metis diff_le_mono le_add_diff_inverse take_add)

lemma prefix_to_ascii_uppercase: "prefix s t \<Longrightarrow> prefix (to_ascii_uppercase s) (to_ascii_uppercase t)"
  by (auto simp: prefix_def)

text \<open>What the first event after the comments must be, given the leading keyword.\<close>

fun starts_keyword :: "bytes \<Rightarrow> lexer \<Rightarrow> bytes \<Rightarrow> event \<Rightarrow> bool" where
  "starts_keyword sql lx kw (EvWord a b) =
     (prefix kw (to_ascii_uppercase (slice sql a b)) \<and>
      (postgres lx \<longrightarrow> kw = to_ascii_uppercase (slice sql a b)))"
| "starts_keyword sql lx kw (EvOpaque k a b) = (postgres lx \<and> k = SingleQuote \<and> length kw = 1)"
| "starts_keyword sql lx kw (EvSeparator a) = False"

lemma leading_keyword_events:
  assumes "leading_keyword_of sql lx = Some kw"
  shows "\<exists>pre e rest. walk_events sql lx = pre @ e # rest \<and> list_all is_comment pre \<and>
    starts_keyword sql lx kw e"
proof -
  from assms obtain j where j: "leading_start sql lx 0 = Some j"
    and ne: "keyword_end sql lx j \<noteq> j" "postgres lx \<Longrightarrow> is_ident_start (sql ! j) lx"
    and kw: "kw = to_ascii_uppercase (slice sql j (keyword_end sql lx j))"
    by (auto simp: leading_keyword_of_def Let_def split: option.splits if_splits)
  from leading_start_events [of sql lx 0] j obtain pre where pre: "list_all is_comment pre"
    "events_from sql lx 0 = pre @ events_from sql lx j" and lt: "j < length sql"
    by auto
  have start: "is_ident_start (sql ! j) lx"
  proof (cases "postgres lx")
    case False
    with ne(1) lt have "is_ascii_alphabetic (sql ! j) \<or> sql ! j = CHR ''_''"
      by (auto simp: keyword_end_def skip_while.simps [of _ sql j] split: if_splits)
    then show ?thesis by (auto simp: is_ident_start_def)
  qed (use ne in simp)
  let ?e = "skip_while (\<lambda>c. is_ident_cont c lx) sql j"
  have "keyword_end sql lx j \<le> ?e"
    using lt by (auto simp: keyword_end_def is_ident_cont_def is_ascii_alphanumeric_def
        intro!: skip_while_prefix)
  then have word: "prefix kw (to_ascii_uppercase (slice sql j ?e))"
    unfolding kw by (intro prefix_to_ascii_uppercase slice_prefix)
  have exact: "postgres lx \<Longrightarrow> kw = to_ascii_uppercase (slice sql j ?e)"
    by (simp add: kw keyword_end_def)
  have one: "length kw = 1" "postgres lx" if "string_prefix lx sql j ?e \<noteq> None"
  proof -
    from that have p: "postgres lx" "?e - j = 1"
      by (auto simp: string_prefix_def split: if_splits)
    with exact lt show "length kw = 1" "postgres lx" by simp_all
  qed
  from ident_start_events [OF lt start] show ?thesis
  proof (elim disjE conjE exE)
    assume "events_from sql lx j = EvWord j ?e # events_from sql lx ?e"
    with pre word exact show ?thesis
      by (intro exI [of _ pre] exI [of _ "EvWord j ?e"] exI [of _ "events_from sql lx ?e"])
         (simp add: walk_events_from)
  next
    fix b rest
    assume "string_prefix lx sql j ?e \<noteq> None" "events_from sql lx j = EvOpaque SingleQuote j b # rest"
    with pre one show ?thesis
      by (intro exI [of _ pre] exI [of _ "EvOpaque SingleQuote j b"] exI [of _ rest])
         (simp add: walk_events_from)
  qed
qed

section \<open>The scan's lists are the walk's events\<close>

lemma collect_foldl:
  "separators (foldl (collect_visit sql) s es) =
     separators s @ concat (map (\<lambda>e. case e of EvSeparator a \<Rightarrow> [a] | _ \<Rightarrow> []) es)"
  "bare_words (foldl (collect_visit sql) s es) =
     bare_words s @ concat (map (\<lambda>e. case e of EvWord a b \<Rightarrow> [to_ascii_uppercase (slice sql a b)]
                                   | _ \<Rightarrow> []) es)"
  by (induction es arbitrary: s) (auto split: event.split)

lemma scan_separators:
  "separators (scan_dialect sql lx) =
     concat (map (\<lambda>e. case e of EvSeparator a \<Rightarrow> [a] | _ \<Rightarrow> []) (walk_events sql lx))"
  by (simp add: scan_dialect_def Let_def collect_foldl scan_default_def)

lemma scan_words:
  "bare_words (scan_dialect sql lx) =
     concat (map (\<lambda>e. case e of EvWord a b \<Rightarrow> [to_ascii_uppercase (slice sql a b)] | _ \<Rightarrow> [])
       (walk_events sql lx))"
  by (simp add: scan_dialect_def Let_def collect_foldl scan_default_def)

lemma scan_leading [simp]: "leading_keyword (scan_dialect sql lx) = leading_keyword_of sql lx"
  by (simp add: scan_dialect_def Let_def)

lemma in_scan_separators: "a \<in> set (separators (scan_dialect sql lx)) \<longleftrightarrow>
    EvSeparator a \<in> set (walk_events sql lx)"
  by (force simp: scan_separators split: event.splits)

lemma in_scan_words: "w \<in> set (bare_words (scan_dialect sql lx)) \<longleftrightarrow>
    (\<exists>a b. EvWord a b \<in> set (walk_events sql lx) \<and> w = to_ascii_uppercase (slice sql a b))"
  by (force simp: scan_words split: event.splits)

lemma sorted_separators:
  "sorted_wrt (\<lambda>e f. ev_end e \<le> ev_start f) es \<Longrightarrow>
     sorted_wrt (<) (concat (map (\<lambda>e. case e of EvSeparator a \<Rightarrow> [a] | _ \<Rightarrow> []) es))"
proof (induction es)
  case (Cons e es)
  then show ?case by (cases e) (fastforce split: event.splits)+
qed simp

lemma scan_separators_sorted: "sorted_wrt (<) (separators (scan_dialect sql lx))"
  unfolding scan_separators by (rule sorted_separators, rule walked.events_ordered)

lemma scan_separator_bounds: "a \<in> set (separators (scan_dialect sql lx)) \<Longrightarrow> a < length sql"
  unfolding in_scan_separators using walked.event_bounds [of "EvSeparator a" sql lx] by simp

section \<open>Properties\<close>

text \<open>
  The keyword a statement is classified by is its first word. When the scan names a leading
  keyword, the walk reports nothing but comments before the word that starts with it (under
  PostgreSQL's lexers the whole word, or a string whose one-letter prefix it is).
\<close>
theorem leading_keyword_is_first:
  assumes "leading_keyword (scan_dialect sql lx) = Some kw"
  shows "\<exists>pre e rest. walk_events sql lx = pre @ e # rest \<and> list_all is_comment pre \<and>
    starts_keyword sql lx kw e"
  using leading_keyword_events assms by simp

theorem leading_keyword_is_first_witness:
  "\<exists>pre e rest. walk_events ''/*x*/ drop t'' MYSQL = pre @ e # rest \<and> list_all is_comment pre \<and>
    starts_keyword ''/*x*/ drop t'' MYSQL ''DROP'' e"
  by (rule leading_keyword_is_first) code_simp

text \<open>
  Text the guard skips as no statement at all holds nothing: when no significant text is found,
  the walk of it reports comments and separators only.
\<close>
theorem insignificant_text_is_trivia:
  assumes "\<not> has_significant_text sql lx"
  shows "list_all (\<lambda>e. is_comment e \<or> is_separator e) (walk_events sql lx)"
  using significant_from_events [of sql lx 0] assms
  by (auto simp: has_significant_text_def first_significant_def walk_events_from)

theorem insignificant_text_is_trivia_witness:
  "list_all (\<lambda>e. is_comment e \<or> is_separator e) (walk_events '' ; -- x'' GENERIC)"
  by (rule insignificant_text_is_trivia) code_simp

end
