(* ===== verification/SqlScript.thy ===== *)
theory SqlScript
  imports SqlScan
begin

text \<open>
  The script splitter of \<^verbatim>\<open>crates/qh-sql/src/script.rs\<close>: which \<open>;\<close> of a script end a statement once
  the bodies of MySQL's stored programs are read as one statement each.

  \<open>Splitter\<close> is a visitor of the walk, so \<open>script_separators\<close> folds it over the walk's events. The
  counters of the source are \<open>i32\<close> and \<open>u32\<close>; they count parentheses and keywords of one text, so
  they are \<open>int\<close> and \<open>nat\<close> here, except \<open>opens\<close>, which the source saturates.

  The lemmas show that the splitter only ever drops separators, that it drops one only inside a
  statement whose first word opens a stored program, and (\<open>SqlScriptBody\<close>) that a well-formed body is
  never closed before its own \<open>END\<close>.
\<close>

section \<open>Words\<close>

definition is_kw :: "bytes \<Rightarrow> bytes \<Rightarrow> bool" where
  "is_kw w keyword = eq_ignore_ascii_case w keyword"

definition is_any :: "bytes \<Rightarrow> bytes list \<Rightarrow> bool" where
  "is_any w keywords = list_ex (is_kw w) keywords"

datatype ev = EWord bytes | EQuoted opaque_kind

record ctx =
  c_parens :: int
  c_opens :: nat
  c_at :: bool
  c_label :: bool

section \<open>Bodies of stored programs\<close>

datatype opener = OpIf | OpCase | OpWhile

datatype cond = CondOpen | CondNot | CondSqlstate | CondValue | CondClosed

datatype declare_phase = DeclarePre bool | DeclareHandler | DeclareCond cond

datatype stmt_kind = SFresh | SOther | SOpener opener | SEnd | SUntil | SDeclare declare_phase

record body =
  b_depth :: nat
  b_at_start :: bool
  b_kind :: stmt_kind
  b_expr_case :: nat

definition body_block :: body where
  "body_block = \<lparr>b_depth = 1, b_at_start = True, b_kind = SFresh, b_expr_case = 0\<rparr>"

definition body_opened_by :: "bytes \<Rightarrow> body option" where
  "body_opened_by w =
     (if is_any w [''BEGIN'', ''LOOP'', ''REPEAT''] then Some body_block
      else if is_kw w ''IF''
      then Some \<lparr>b_depth = 1, b_at_start = False, b_kind = SOpener OpIf, b_expr_case = 0\<rparr>
      else if is_kw w ''CASE''
      then Some \<lparr>b_depth = 1, b_at_start = False, b_kind = SOpener OpCase, b_expr_case = 0\<rparr>
      else if is_kw w ''WHILE''
      then Some \<lparr>b_depth = 1, b_at_start = False, b_kind = SOpener OpWhile, b_expr_case = 0\<rparr>
      else None)"

definition body_restart :: "body \<Rightarrow> body" where
  "body_restart b = b\<lparr>b_at_start := True, b_kind := SFresh, b_expr_case := 0\<rparr>"

fun cond_byte :: "cond \<Rightarrow> byte \<Rightarrow> cond" where
  "cond_byte CondClosed c = (if c = CHR '','' then CondOpen else CondClosed)"
| "cond_byte CondOpen c = (if is_ascii_digit c then CondClosed else CondOpen)"
| "cond_byte k c = k"

definition body_gap :: "bytes \<Rightarrow> body \<Rightarrow> body" where
  "body_gap segment b =
     (case b_kind b of
        SDeclare (DeclareCond k) \<Rightarrow> b\<lparr>b_kind := SDeclare (DeclareCond (foldl cond_byte k segment))\<rparr>
      | _ \<Rightarrow> b)"

definition body_first_word :: "ctx \<Rightarrow> bytes \<Rightarrow> body \<Rightarrow> body \<times> bool" where
  "body_first_word c w b0 =
     (let b = b0\<lparr>b_kind := SFresh, b_expr_case := 0\<rparr> in
      if is_kw w ''END'' then
        (let b = b\<lparr>b_depth := b_depth b - 1, b_kind := SEnd, b_at_start := False\<rparr>
         in (b, b_depth b = 0))
      else if c_label c then (b, False)
      else if is_any w [''BEGIN'', ''LOOP'', ''REPEAT''] then (b\<lparr>b_depth := b_depth b + 1\<rparr>, False)
      else if is_kw w ''ELSE'' then (b, False)
      else
        (let b = b\<lparr>b_at_start := False\<rparr> in
         (if is_kw w ''IF'' then b\<lparr>b_depth := b_depth b + 1, b_kind := SOpener OpIf\<rparr>
          else if is_kw w ''CASE'' then b\<lparr>b_depth := b_depth b + 1, b_kind := SOpener OpCase\<rparr>
          else if is_kw w ''WHILE'' then b\<lparr>b_depth := b_depth b + 1, b_kind := SOpener OpWhile\<rparr>
          else if is_kw w ''UNTIL'' then b\<lparr>b_kind := SUntil\<rparr>
          else if is_kw w ''DECLARE'' then b\<lparr>b_kind := SDeclare (DeclarePre False)\<rparr>
          else b\<lparr>b_kind := SOther\<rparr>, False)))"

definition body_plain_word :: "bytes \<Rightarrow> body \<Rightarrow> body \<times> bool" where
  "body_plain_word w b =
     (let plain = (b_expr_case b = 0);
          starts_statement = (is_kw w ''THEN'' \<or> is_kw w ''ELSE'' \<or>
            (is_kw w ''DO'' \<and> b_kind b = SOpener OpWhile)) in
      if starts_statement \<and> plain then (b\<lparr>b_at_start := True\<rparr>, False)
      else if is_kw w ''CASE'' then (b\<lparr>b_expr_case := b_expr_case b + 1\<rparr>, False)
      else if is_kw w ''END'' then
        (if b_expr_case b > 0 then (b\<lparr>b_expr_case := b_expr_case b - 1\<rparr>, False)
         else if b_kind b = SUntil then
           (let b = b\<lparr>b_depth := b_depth b - 1, b_kind := SEnd\<rparr> in (b, b_depth b = 0))
         else (b, False))
      else (b, False))"

text \<open>The arm of \<open>DeclareCond\<close> is the source's \<open>unreachable!\<close>: \<open>body_event\<close> handles it first.\<close>

definition body_inner_word :: "bytes \<Rightarrow> body \<Rightarrow> body \<times> bool" where
  "body_inner_word w b =
     (case b_kind b of
        SEnd \<Rightarrow> (b, False)
      | SDeclare (DeclarePre seen) \<Rightarrow>
          (if is_any w [''CONTINUE'', ''EXIT'', ''UNDO'']
           then b\<lparr>b_kind := SDeclare (DeclarePre True)\<rparr>
           else if seen \<and> is_kw w ''HANDLER'' then b\<lparr>b_kind := SDeclare DeclareHandler\<rparr>
           else b, False)
      | SDeclare DeclareHandler \<Rightarrow>
          (if is_kw w ''FOR'' then b\<lparr>b_kind := SDeclare (DeclareCond CondOpen)\<rparr> else b, False)
      | SDeclare (DeclareCond k) \<Rightarrow> (b, False)
      | _ \<Rightarrow> body_plain_word w b)"

fun cond_next :: "cond \<Rightarrow> ev \<Rightarrow> cond" where
  "cond_next CondOpen (EWord w) =
     (if is_any w [''SQLEXCEPTION'', ''SQLWARNING''] then CondClosed
      else if is_kw w ''NOT'' then CondNot
      else if is_kw w ''SQLSTATE'' then CondSqlstate
      else CondClosed)"
| "cond_next CondSqlstate (EWord w) = (if is_kw w ''VALUE'' then CondValue else CondClosed)"
| "cond_next k e = CondClosed"

text \<open>
  The source's loop runs at most twice: a closed condition list restarts the statement and handles
  the event again, and after a restart the kind is no condition list.
\<close>

definition body_event :: "ctx \<Rightarrow> ev \<Rightarrow> body \<Rightarrow> body \<times> bool" where
  "body_event c e b0 =
     (let b = (if b_kind b0 = SDeclare (DeclareCond CondClosed) then body_restart b0 else b0) in
      case b_kind b of
        SDeclare (DeclareCond k) \<Rightarrow> (b\<lparr>b_kind := SDeclare (DeclareCond (cond_next k e))\<rparr>, False)
      | _ \<Rightarrow>
        (case e of
           EWord w \<Rightarrow> if b_at_start b then body_first_word c w b else body_inner_word w b
         | EQuoted k \<Rightarrow>
             if b_at_start b then
               (if c_label c \<and> (k = Backtick \<or> k = DoubleQuote) then (b, False)
                else (b\<lparr>b_kind := SOther, b_at_start := False\<rparr>, False))
             else (b, False)))"

section \<open>Headers of stored programs\<close>

datatype phase =
    PIntro | PDefinerUser | PDefinerHost | PName | PParams | PAfter | PReturnType | PTypeTail
  | PTrigger | POrder | PEvent | PBodyFirst

record head =
  h_alter :: bool
  h_phase :: phase
  h_skip :: bool
  h_for_each :: nat
  h_opens_at :: nat

definition CHARACTERISTICS :: "bytes list" where
  "CHARACTERISTICS = [''COMMENT'', ''LANGUAGE'', ''SQL'', ''NOT'', ''DETERMINISTIC'', ''CONTAINS'',
     ''NO'', ''READS'', ''MODIFIES'', ''DATA'', ''SECURITY'', ''DEFINER'', ''INVOKER'']"

definition TYPE_TAIL :: "bytes list" where
  "TYPE_TAIL = [''UNSIGNED'', ''SIGNED'', ''ZEROFILL'', ''PRECISION'', ''VARYING'', ''BINARY'',
     ''ASCII'', ''UNICODE'', ''NATIONAL'']"

definition head_new :: "bool \<Rightarrow> head" where
  "head_new alter = \<lparr>h_alter = alter, h_phase = PIntro, h_skip = False, h_for_each = 0,
     h_opens_at = 0\<rparr>"

datatype step = StStay | StPlain | StBegin | StHead head | StEnter body

definition head_intro :: "ctx \<Rightarrow> bytes option \<Rightarrow> head \<Rightarrow> head \<times> step" where
  "head_intro c word h =
     (case word of
        None \<Rightarrow> (h, StPlain)
      | Some w \<Rightarrow>
          if is_any w [''OR'', ''REPLACE'', ''AGGREGATE''] then (h, StStay)
          else if is_kw w ''DEFINER'' then (h\<lparr>h_phase := PDefinerUser\<rparr>, StStay)
          else if is_any w [''PROCEDURE'', ''FUNCTION''] \<and> \<not> h_alter h
          then (h\<lparr>h_opens_at := c_opens c, h_phase := PName\<rparr>, StStay)
          else if is_kw w ''TRIGGER'' \<and> \<not> h_alter h then (h\<lparr>h_phase := PTrigger\<rparr>, StStay)
          else if is_kw w ''EVENT'' then (h\<lparr>h_phase := PEvent\<rparr>, StStay)
          else (h, StPlain))"

definition head_trigger :: "bytes option \<Rightarrow> head \<Rightarrow> head \<times> step" where
  "head_trigger word h =
     (let progress =
        (case word of
           None \<Rightarrow> 0
         | Some w \<Rightarrow>
             if h_for_each h = 0 \<and> is_kw w ''FOR'' then 1
             else if h_for_each h = 1 \<and> is_kw w ''EACH'' then 2
             else if h_for_each h = 2 \<and> is_kw w ''ROW'' then 3
             else 0) in
      (h\<lparr>h_for_each := progress, h_phase := (if progress = 3 then POrder else h_phase h)\<rparr>, StStay))"

definition head_body_first :: "ctx \<Rightarrow> ev \<Rightarrow> head \<Rightarrow> head \<times> step" where
  "head_body_first c e h =
     (h, case e of
           EWord w \<Rightarrow>
             if c_label c then StStay
             else (case body_opened_by w of Some b \<Rightarrow> StEnter b | None \<Rightarrow> StPlain)
         | EQuoted k \<Rightarrow> if c_label c \<and> (k = Backtick \<or> k = DoubleQuote) then StStay else StPlain)"

text \<open>The loop of \<open>Head::event\<close>; the arms of \<open>PName\<close> and \<open>PParams\<close> are its \<open>unreachable!\<close>.\<close>

function head_loop :: "ctx \<Rightarrow> ev \<Rightarrow> head \<Rightarrow> head \<times> step" where
  "head_loop c e h =
     (if h_phase h = PName \<or> h_phase h = PParams then
        (if c_parens c > 0 then (h\<lparr>h_phase := PParams\<rparr>, StStay)
         else if c_opens c = h_opens_at h then (h, StStay)
         else head_loop c e (h\<lparr>h_phase := PAfter\<rparr>))
      else if c_parens c > 0 then (h, StStay)
      else
        (let word = (case e of EWord w \<Rightarrow> Some w | EQuoted _ \<Rightarrow> None) in
         case h_phase h of
           PIntro \<Rightarrow> head_intro c word h
         | PDefinerUser \<Rightarrow> (h\<lparr>h_phase := PDefinerHost\<rparr>, StStay)
         | PDefinerHost \<Rightarrow>
             if c_at c then (h\<lparr>h_phase := PIntro\<rparr>, StStay)
             else head_loop c e (h\<lparr>h_phase := PIntro\<rparr>)
         | PName \<Rightarrow> (h, StStay)
         | PParams \<Rightarrow> (h, StStay)
         | PAfter \<Rightarrow>
             (case word of
                None \<Rightarrow> (h, StStay)
              | Some w \<Rightarrow>
                  if is_kw w ''RETURNS'' then (h\<lparr>h_phase := PReturnType\<rparr>, StStay)
                  else if is_any w CHARACTERISTICS then (h, StStay)
                  else head_loop c e (h\<lparr>h_phase := PBodyFirst\<rparr>))
         | PReturnType \<Rightarrow> (h\<lparr>h_phase := PTypeTail\<rparr>, StStay)
         | PTypeTail \<Rightarrow>
             (case word of
                None \<Rightarrow> (h, StStay)
              | Some w \<Rightarrow>
                  if is_any w TYPE_TAIL \<or> is_any w CHARACTERISTICS then (h, StStay)
                  else if is_any w [''CHARACTER'', ''CHAR''] then (h, StStay)
                  else if is_any w [''SET'', ''CHARSET'', ''COLLATE'']
                  then (h\<lparr>h_skip := True\<rparr>, StStay)
                  else head_loop c e (h\<lparr>h_phase := PBodyFirst\<rparr>))
         | PTrigger \<Rightarrow> head_trigger word h
         | POrder \<Rightarrow>
             if (case word of Some w \<Rightarrow> is_any w [''FOLLOWS'', ''PRECEDES''] | None \<Rightarrow> False)
             then (h\<lparr>h_skip := True\<rparr>, StStay)
             else head_loop c e (h\<lparr>h_phase := PBodyFirst\<rparr>)
         | PEvent \<Rightarrow>
             if (case word of Some w \<Rightarrow> is_kw w ''DO'' | None \<Rightarrow> False) then (h\<lparr>h_phase := PBodyFirst\<rparr>, StStay)
             else (h, StStay)
         | PBodyFirst \<Rightarrow> head_body_first c e h))"
  by pat_completeness auto

fun phase_rank :: "phase \<Rightarrow> nat" where
  "phase_rank PName = 2" | "phase_rank PParams = 2" | "phase_rank PAfter = 1"
| "phase_rank PDefinerHost = 1" | "phase_rank PTypeTail = 1" | "phase_rank POrder = 1"
| "phase_rank p = 0"

termination head_loop
  by (relation "measure (\<lambda>(c, e, h). phase_rank (h_phase h))") auto

declare head_loop.simps [simp del]

definition head_event :: "ctx \<Rightarrow> ev \<Rightarrow> head \<Rightarrow> head \<times> step" where
  "head_event c e h = (if h_skip h then (h\<lparr>h_skip := False\<rparr>, StStay) else head_loop c e h)"

section \<open>The splitter\<close>

datatype top = TStart | TPlain | TBegin bool | THead head | TBody body

record splitter =
  sp_pos :: nat
  sp_parens :: int
  sp_opens :: nat
  sp_at :: bool
  sp_top :: top
  sp_separators :: "nat list"

definition splitter_init :: splitter where
  "splitter_init = \<lparr>sp_pos = 0, sp_parens = 0, sp_opens = 0, sp_at = False, sp_top = TStart,
     sp_separators = []\<rparr>"

definition gap_byte :: "splitter \<Rightarrow> byte \<Rightarrow> splitter" where
  "gap_byte s c =
     (if c = CHR ''('' then
        s\<lparr>sp_parens := sp_parens s + 1, sp_opens := min (2 ^ 32 - 1) (sp_opens s + 1)\<rparr>
      else if c = CHR '')'' then s\<lparr>sp_parens := max (sp_parens s - 1) 0\<rparr>
      else if c = CHR ''@'' then s\<lparr>sp_at := True\<rparr>
      else s)"

fun is_tracking :: "top \<Rightarrow> bool" where
  "is_tracking (THead h) = True" | "is_tracking (TBody b) = True" | "is_tracking t = False"

definition splitter_gap :: "bytes \<Rightarrow> nat \<Rightarrow> splitter \<Rightarrow> splitter" where
  "splitter_gap bs up s0 =
     (if \<not> is_tracking (sp_top s0) then s0
      else
        (let segment = slice bs (sp_pos s0) up;
             s = foldl gap_byte s0 segment in
         case sp_top s of
           TBody b \<Rightarrow> s\<lparr>sp_top := TBody (body_gap segment b)\<rparr>
         | _ \<Rightarrow> s))"

definition colon_after :: "bytes \<Rightarrow> nat \<Rightarrow> bool" where
  "colon_after bs end_index =
     (let i = skip_while is_ascii_whitespace bs end_index in
      get bs i = Some (CHR '':'') \<and> get bs (i + 1) \<noteq> Some (CHR ''=''))"

definition splitter_reset :: "splitter \<Rightarrow> splitter" where
  "splitter_reset s = s\<lparr>sp_top := TStart, sp_parens := 0, sp_opens := 0, sp_at := False\<rparr>"

fun start_step :: "ev \<Rightarrow> step" where
  "start_step (EWord w) =
     (if is_kw w ''CREATE'' then StHead (head_new False)
      else if is_kw w ''ALTER'' then StHead (head_new True)
      else if is_kw w ''BEGIN'' then StBegin
      else StPlain)"
| "start_step (EQuoted k) = StPlain"

fun begin_step :: "bool \<Rightarrow> ev \<Rightarrow> bool \<times> step" where
  "begin_step not_seen (EWord w) =
     (if \<not> not_seen \<and> is_kw w ''NOT'' then (True, StStay)
      else if not_seen \<and> is_kw w ''ATOMIC'' then (not_seen, StEnter body_block)
      else (not_seen, StPlain))"
| "begin_step not_seen (EQuoted k) = (not_seen, StPlain)"

fun take_step :: "top \<Rightarrow> step \<Rightarrow> top" where
  "take_step t StStay = t"
| "take_step t StPlain = TPlain"
| "take_step t StBegin = TBegin False"
| "take_step t (StHead h) = THead h"
| "take_step t (StEnter b) = TBody b"

definition top_event :: "ctx \<Rightarrow> ev \<Rightarrow> top \<Rightarrow> top" where
  "top_event c e t =
     (case t of
        TPlain \<Rightarrow> TPlain
      | TStart \<Rightarrow> take_step TStart (start_step e)
      | TBegin not_seen \<Rightarrow> (case begin_step not_seen e of (n, st) \<Rightarrow> take_step (TBegin n) st)
      | THead h \<Rightarrow> (case head_event c e h of (h', st) \<Rightarrow> take_step (THead h') st)
      | TBody b \<Rightarrow>
          (case body_event c e b of
             (b', closed) \<Rightarrow> take_step (TBody b') (if closed then StPlain else StStay)))"

definition splitter_event :: "bytes \<Rightarrow> ev \<Rightarrow> splitter \<Rightarrow> splitter" where
  "splitter_event bs e s =
     (let c = \<lparr>c_parens = sp_parens s, c_opens = sp_opens s, c_at = sp_at s,
               c_label = is_tracking (sp_top s) \<and> colon_after bs (sp_pos s)\<rparr> in
      s\<lparr>sp_at := False, sp_top := top_event c e (sp_top s)\<rparr>)"

fun splitter_visit :: "bytes \<Rightarrow> splitter \<Rightarrow> event \<Rightarrow> splitter" where
  "splitter_visit bs s0 (EvSeparator a) =
     (let s = (splitter_gap bs a s0)\<lparr>sp_pos := a + 1\<rparr>;
          ends = splitter_reset (s\<lparr>sp_separators := sp_separators s @ [a]\<rparr>) in
      case sp_top s of
        TBody b \<Rightarrow> if b_depth b > 0 then s\<lparr>sp_top := TBody (body_restart b)\<rparr> else ends
      | _ \<Rightarrow> ends)"
| "splitter_visit bs s0 (EvOpaque k a b) =
     (let s = (splitter_gap bs a s0)\<lparr>sp_pos := b\<rparr> in
      if k = LineComment \<or> k = BlockComment then s else splitter_event bs (EQuoted k) s)"
| "splitter_visit bs s0 (EvWord a b) =
     splitter_event bs (EWord (slice bs a b)) ((splitter_gap bs a s0)\<lparr>sp_pos := b\<rparr>)"

definition script_separators :: "bytes \<Rightarrow> lexer \<Rightarrow> nat list" where
  "script_separators sql lx =
     (if \<not> is_mysql lx then separators (scan_dialect sql lx)
      else sp_separators (foldl (splitter_visit sql) splitter_init (walk_events sql lx)))"

section \<open>What one event does to the splitter\<close>

fun same_top :: "top \<Rightarrow> top \<Rightarrow> bool" where
  "same_top (TBody b) (TBody b') = (b_depth b = b_depth b')"
| "same_top t t' = (t = t')"

lemma same_top_refl [simp]: "same_top t t"
  by (cases t) simp_all

lemma gap_bytes:
  "sp_top (foldl gap_byte s seg) = sp_top s"
  "sp_separators (foldl gap_byte s seg) = sp_separators s"
  "0 \<le> sp_parens s \<Longrightarrow> 0 \<le> sp_parens (foldl gap_byte s seg)"
  by (induction seg arbitrary: s) (simp_all add: gap_byte_def)

lemma body_gap_depth [simp]: "b_depth (body_gap seg b) = b_depth b"
  by (simp add: body_gap_def split: stmt_kind.split declare_phase.split)

lemma splitter_gap_keeps:
  "same_top (sp_top s) (sp_top (splitter_gap bs up s))"
  "sp_separators (splitter_gap bs up s) = sp_separators s"
  "0 \<le> sp_parens s \<Longrightarrow> 0 \<le> sp_parens (splitter_gap bs up s)"
  by (cases "sp_top s"; simp add: splitter_gap_def Let_def gap_bytes)+

lemma body_restart_depth [simp]: "b_depth (body_restart b) = b_depth b"
  by (simp add: body_restart_def)

lemma body_first_word_closed:
  "0 < b_depth b \<Longrightarrow> body_first_word c w b = (b', closed) \<Longrightarrow> closed \<longleftrightarrow> b_depth b' = 0"
  by (auto simp: body_first_word_def Let_def split: if_splits)

lemma body_inner_word_closed:
  "0 < b_depth b \<Longrightarrow> body_inner_word w b = (b', closed) \<Longrightarrow> closed \<longleftrightarrow> b_depth b' = 0"
  by (auto simp: body_inner_word_def body_plain_word_def Let_def
      split: if_splits stmt_kind.splits declare_phase.splits)

text \<open>The tracker says that a body is closed exactly when no block is open.\<close>

lemma body_event_closed:
  assumes "0 < b_depth b0" "body_event c e b0 = (b', closed)"
  shows "closed \<longleftrightarrow> b_depth b' = 0"
proof -
  define b where "b = (if b_kind b0 = SDeclare (DeclareCond CondClosed) then body_restart b0 else b0)"
  have d: "0 < b_depth b" using assms(1) by (simp add: b_def)
  from assms(2) d show ?thesis
    unfolding body_event_def b_def [symmetric] Let_def
    by (auto split: stmt_kind.splits declare_phase.splits ev.splits if_splits
        dest: body_first_word_closed [OF d] body_inner_word_closed [OF d])
qed

definition OPENERS :: "bytes list" where
  "OPENERS = [''CREATE'', ''ALTER'', ''BEGIN'']"

fun top_ok :: "top \<Rightarrow> bool" where
  "top_ok (TBody b) = (0 < b_depth b)" | "top_ok t = True"

lemma body_opened_by_depth: "body_opened_by w = Some b \<Longrightarrow> b_depth b = 1"
  by (auto simp: body_opened_by_def body_block_def split: if_splits)

text \<open>A header either waits, gives up, or enters a body of one block.\<close>

definition head_outcome :: "head \<times> step \<Rightarrow> bool" where
  "head_outcome r \<longleftrightarrow> snd r = StStay \<or> snd r = StPlain \<or> (\<exists>b. snd r = StEnter b \<and> b_depth b = 1)"

lemma head_outcome_simps [simp]:
  "head_outcome (h, StStay)" "head_outcome (h, StPlain)"
  "head_outcome (h, StEnter b) \<longleftrightarrow> b_depth b = 1"
  by (simp_all add: head_outcome_def)

lemma head_parts_outcome:
  "head_outcome (head_intro c word h)" "head_outcome (head_trigger word h)"
  "head_outcome (head_body_first c e h)"
  by (auto simp: head_intro_def head_trigger_def head_body_first_def Let_def body_opened_by_depth
      split: option.split ev.split)

lemma head_loop_outcome: "head_outcome (head_loop c e h)"
proof -
  have final: "head_outcome (head_loop c e h)" if "h_phase h \<in> {PIntro, PBodyFirst}" for h
  proof -
    from that have "h_phase h = PIntro \<or> h_phase h = PBodyFirst" by simp
    then show ?thesis by (subst head_loop.simps) (elim disjE; simp add: Let_def head_parts_outcome)
  qed
  have middle: "head_outcome (head_loop c e h)"
    if "h_phase h \<in> {PAfter, PDefinerHost, PTypeTail, POrder}" for h
  proof -
    from that have "h_phase h = PAfter \<or> h_phase h = PDefinerHost \<or> h_phase h = PTypeTail \<or>
        h_phase h = POrder" by simp
    then show ?thesis
      by (subst head_loop.simps) (elim disjE; simp add: Let_def final split: option.split ev.split)
  qed
  show ?thesis
  proof (cases "h_phase h \<in> {PIntro, PBodyFirst, PAfter, PDefinerHost, PTypeTail, POrder}")
    case False
    then show ?thesis
      by (subst head_loop.simps)
         (cases "h_phase h"; simp add: Let_def middle head_parts_outcome split: option.split ev.split)
  qed (use final middle in auto)
qed

lemma head_event_outcome: "head_outcome (head_event c e h)"
  by (simp add: head_event_def head_loop_outcome)

lemma top_event_ok: "top_ok t \<Longrightarrow> top_ok (top_event c e t)"
proof (cases t)
  case (TBegin n)
  then show ?thesis
    by (cases e) (simp_all add: top_event_def body_block_def)
next
  case (THead h)
  from head_event_outcome [of c e h] THead show ?thesis
    by (auto simp: top_event_def head_outcome_def split: prod.split)
next
  case (TBody b)
  assume "top_ok t"
  obtain b' cl where b: "body_event c e b = (b', cl)" by (cases "body_event c e b")
  with TBody \<open>top_ok t\<close> body_event_closed [of b c e b' cl] show ?thesis
    by (auto simp: top_event_def)
qed (cases e; simp add: top_event_def)+

lemma top_event_start:
  "top_event c e TStart = TPlain \<or> (\<exists>w. e = EWord w \<and> is_any w OPENERS)"
  by (cases e) (simp_all add: top_event_def OPENERS_def is_any_def)

lemma top_event_not_start: "top_event c e t \<noteq> TStart"
proof (cases t)
  case (THead h)
  from head_event_outcome [of c e h] THead show ?thesis
    by (auto simp: top_event_def head_outcome_def split: prod.split)
qed (cases e; auto simp: top_event_def split: prod.split)+

section \<open>The splitter over a walk\<close>

text \<open>
  \<open>statement_opens sql cur\<close>: the first event of a statement that is no comment is a word that can
  open a stored program. \<open>swallowed\<close>: a separator inside such a statement, all of whose earlier
  separators were dropped as well.
\<close>

definition statement_opens :: "bytes \<Rightarrow> event list \<Rightarrow> bool" where
  "statement_opens sql cur \<longleftrightarrow>
     (\<exists>cs a b post. cur = cs @ EvWord a b # post \<and> list_all is_comment cs \<and>
        is_any (slice sql a b) OPENERS)"

definition at_boundary :: "nat list \<Rightarrow> event list \<Rightarrow> bool" where
  "at_boundary seps pre \<longleftrightarrow> pre = [] \<or> (\<exists>q \<in> set seps. last pre = EvSeparator q)"

definition within_statement :: "nat list \<Rightarrow> event list \<Rightarrow> bool" where
  "within_statement seps cur \<longleftrightarrow> (\<forall>q \<in> set seps. EvSeparator q \<notin> set cur)"

definition swallowed :: "bytes \<Rightarrow> nat list \<Rightarrow> event list \<Rightarrow> nat \<Rightarrow> bool" where
  "swallowed sql seps es a \<longleftrightarrow>
     (\<exists>pre cur rest. es = pre @ cur @ EvSeparator a # rest \<and> at_boundary seps pre \<and>
        within_statement seps cur \<and> statement_opens sql cur)"

lemma statement_opens_append: "statement_opens sql cur \<Longrightarrow> statement_opens sql (cur @ es)"
  unfolding statement_opens_def by (metis append.assoc append_Cons)

lemma swallowed_append: "swallowed sql seps es a \<Longrightarrow> swallowed sql seps (es @ fs) a"
  unfolding swallowed_def by (metis append.assoc append_Cons)

lemma swallowed_push:
  assumes "swallowed sql seps es a" "EvSeparator b \<notin> set es"
  shows "swallowed sql (seps @ [b]) es a"
proof -
  from assms(1) obtain pre cur rest where es: "es = pre @ cur @ EvSeparator a # rest"
    and s: "at_boundary seps pre" "within_statement seps cur" "statement_opens sql cur"
    by (auto simp: swallowed_def)
  from s(1) have "at_boundary (seps @ [b]) pre" by (auto simp: at_boundary_def)
  moreover from s(2) es assms(2) have "within_statement (seps @ [b]) cur"
    by (auto simp: within_statement_def)
  ultimately show ?thesis unfolding swallowed_def using es s(3) by blast
qed

definition top_fits :: "bytes \<Rightarrow> top \<Rightarrow> event list \<Rightarrow> bool" where
  "top_fits sql t cur \<longleftrightarrow>
     (case t of
        TStart \<Rightarrow> list_all is_comment cur
      | TPlain \<Rightarrow> statement_opens sql cur \<or> (\<forall>q. EvSeparator q \<notin> set cur)
      | _ \<Rightarrow> statement_opens sql cur)"

definition split_inv :: "bytes \<Rightarrow> splitter \<Rightarrow> event list \<Rightarrow> bool" where
  "split_inv sql s es \<longleftrightarrow>
     top_ok (sp_top s) \<and>
     (\<exists>pre cur. es = pre @ cur \<and> at_boundary (sp_separators s) pre \<and>
        within_statement (sp_separators s) cur \<and> top_fits sql (sp_top s) cur) \<and>
     (\<forall>a. EvSeparator a \<in> set es \<longrightarrow> a \<notin> set (sp_separators s) \<longrightarrow>
        swallowed sql (sp_separators s) es a)"

lemma same_top_ok: "same_top t t' \<Longrightarrow> top_ok t \<longleftrightarrow> top_ok t'"
  by (cases t; cases t') auto

lemma same_top_fits: "same_top t t' \<Longrightarrow> top_fits sql t = top_fits sql t'"
  by (cases t; cases t') (auto simp: top_fits_def)

text \<open>An event that is no separator stays in the statement.\<close>

lemma split_inv_stay:
  assumes inv: "split_inv sql s es" and e: "\<not> is_separator e"
    and seps: "sp_separators s' = sp_separators s" and top: "top_ok (sp_top s')"
    and fits: "\<And>cur. top_fits sql (sp_top s) cur \<Longrightarrow> top_fits sql (sp_top s') (cur @ [e])"
  shows "split_inv sql s' (es @ [e])"
proof -
  from inv obtain pre cur where es: "es = pre @ cur"
    and pre: "at_boundary (sp_separators s) pre"
    and cur: "within_statement (sp_separators s) cur" "top_fits sql (sp_top s) cur"
    by (auto simp: split_inv_def)
  from e have no: "e \<noteq> EvSeparator q" for q by auto
  then have "within_statement (sp_separators s) (cur @ [e])"
    using cur(1) by (auto simp: within_statement_def)
  with es pre fits [OF cur(2)] have "\<exists>pre cur. es @ [e] = pre @ cur \<and>
      at_boundary (sp_separators s) pre \<and> within_statement (sp_separators s) cur \<and>
      top_fits sql (sp_top s') cur"
    by (intro exI [of _ pre] exI [of _ "cur @ [e]"]) simp
  moreover have "swallowed sql (sp_separators s) (es @ [e]) a"
    if "EvSeparator a \<in> set (es @ [e])" "a \<notin> set (sp_separators s)" for a
    using that inv no [of a] by (auto simp: split_inv_def intro: swallowed_append)
  ultimately show ?thesis using top seps by (simp add: split_inv_def)
qed

text \<open>A separator that is kept starts the next statement.\<close>

lemma split_inv_end:
  assumes inv: "split_inv sql s es" and new: "EvSeparator a \<notin> set es"
    and seps: "sp_separators s' = sp_separators s @ [a]" and top: "sp_top s' = TStart"
  shows "split_inv sql s' (es @ [EvSeparator a])"
proof -
  have "at_boundary (sp_separators s') (es @ [EvSeparator a])"
    by (simp add: at_boundary_def seps)
  then have "\<exists>pre cur. es @ [EvSeparator a] = pre @ cur \<and>
      at_boundary (sp_separators s') pre \<and> within_statement (sp_separators s') cur \<and>
      top_fits sql (sp_top s') cur"
    by (intro exI [of _ "es @ [EvSeparator a]"] exI [of _ "[]"])
       (simp add: within_statement_def top_fits_def top)
  moreover have "swallowed sql (sp_separators s') (es @ [EvSeparator a]) b"
    if "EvSeparator b \<in> set (es @ [EvSeparator a])" "b \<notin> set (sp_separators s')" for b
    using that inv new by (auto simp: split_inv_def seps intro: swallowed_append swallowed_push)
  ultimately show ?thesis by (simp add: split_inv_def top)
qed

text \<open>A separator that is dropped belongs to a statement that opened a stored program.\<close>

lemma split_inv_drop:
  assumes inv: "split_inv sql s es" and new: "a \<notin> set (sp_separators s)"
    and seps: "sp_separators s' = sp_separators s"
    and top: "sp_top s = TBody b" "sp_top s' = TBody b'" "0 < b_depth b'"
  shows "split_inv sql s' (es @ [EvSeparator a])"
proof -
  from inv obtain pre cur where es: "es = pre @ cur"
    and pre: "at_boundary (sp_separators s) pre"
    and cur: "within_statement (sp_separators s) cur" "statement_opens sql cur"
    by (auto simp: split_inv_def top_fits_def top)
  from cur new have cur': "within_statement (sp_separators s) (cur @ [EvSeparator a])"
    by (auto simp: within_statement_def)
  have "\<exists>pre cur. es @ [EvSeparator a] = pre @ cur \<and>
      at_boundary (sp_separators s) pre \<and> within_statement (sp_separators s) cur \<and>
      top_fits sql (sp_top s') cur"
    using es pre cur' statement_opens_append [OF cur(2)]
    by (intro exI [of _ pre] exI [of _ "cur @ [EvSeparator a]"]) (simp add: top_fits_def top)
  moreover have "swallowed sql (sp_separators s) (es @ [EvSeparator a]) c"
    if "EvSeparator c \<in> set (es @ [EvSeparator a])" "c \<notin> set (sp_separators s)" for c
  proof (cases "c = a")
    case True
    have "swallowed sql (sp_separators s) (es @ [EvSeparator a]) a"
      unfolding swallowed_def using es pre cur
      by (intro exI [of _ pre] exI [of _ cur] exI [of _ "[]"]) simp
    with True show ?thesis by simp
  next
    case False
    with that inv show ?thesis by (auto simp: split_inv_def intro: swallowed_append)
  qed
  ultimately show ?thesis using top seps by (simp add: split_inv_def)
qed

text \<open>One event of the walk, whatever it is.\<close>

lemma top_fits_comment: "is_comment e \<Longrightarrow> top_fits sql t cur \<Longrightarrow> top_fits sql t (cur @ [e])"
  by (cases t) (auto simp: top_fits_def statement_opens_append is_comment_def)

lemma top_fits_event:
  assumes fits: "top_fits sql t cur" and sep: "\<not> is_separator e"
    and word: "\<And>w. ev = EWord w \<Longrightarrow> \<exists>a b. e = EvWord a b \<and> w = slice sql a b"
  shows "top_fits sql (top_event c ev t) (cur @ [e])"
proof (cases t)
  case TStart
  with fits have cs: "list_all is_comment cur" by (simp add: top_fits_def)
  show ?thesis
  proof (cases "top_event c ev TStart = TPlain")
    case True
    from cs sep have "EvSeparator q \<notin> set (cur @ [e])" for q
      by (auto simp: list_all_iff)
    with True TStart show ?thesis by (simp add: top_fits_def)
  next
    case False
    with top_event_start [of c ev] word obtain a b where "e = EvWord a b"
      "is_any (slice sql a b) OPENERS" by blast
    with cs have "statement_opens sql (cur @ [e])"
      unfolding statement_opens_def by blast
    then show ?thesis using top_event_not_start [of c ev t]
      by (simp add: top_fits_def split: top.split)
  qed
next
  case TPlain
  with fits sep show ?thesis
    by (auto simp: top_fits_def top_event_def statement_opens_append)
qed (use fits top_event_not_start [of c ev t] in
    \<open>simp add: top_fits_def statement_opens_append split: top.split\<close>)+

lemma splitter_event_inv:
  assumes inv: "split_inv sql s es" and sep: "\<not> is_separator e"
    and s1: "same_top (sp_top s) (sp_top s1)" "sp_separators s1 = sp_separators s"
    and word: "\<And>w. ev = EWord w \<Longrightarrow> \<exists>a b. e = EvWord a b \<and> w = slice sql a b"
  shows "split_inv sql (splitter_event sql ev s1) (es @ [e])"
proof (rule split_inv_stay [OF inv sep])
  show "sp_separators (splitter_event sql ev s1) = sp_separators s"
    by (simp add: splitter_event_def Let_def s1)
  have "top_ok (sp_top s1)" using inv same_top_ok [OF s1(1)] by (simp add: split_inv_def)
  then show "top_ok (sp_top (splitter_event sql ev s1))"
    by (simp add: splitter_event_def Let_def top_event_ok)
  fix cur assume "top_fits sql (sp_top s) cur"
  then have "top_fits sql (sp_top s1) cur" by (simp add: same_top_fits [OF s1(1)])
  from top_fits_event [OF this sep word]
  show "top_fits sql (sp_top (splitter_event sql ev s1)) (cur @ [e])"
    by (simp add: splitter_event_def Let_def)
qed

lemma splitter_visit_inv:
  assumes inv: "split_inv sql s es"
    and new: "\<And>a. e = EvSeparator a \<Longrightarrow> EvSeparator a \<notin> set es \<and> a \<notin> set (sp_separators s)"
  shows "split_inv sql (splitter_visit sql s e) (es @ [e])"
proof (cases e)
  case (EvWord a b)
  then show ?thesis
    using splitter_gap_keeps [where s = s and bs = sql and up = a] by (auto intro!: splitter_event_inv [OF inv])
next
  case (EvOpaque k a b)
  show ?thesis
  proof (cases "is_comment e")
    case True
    let ?s = "(splitter_gap sql a s)\<lparr>sp_pos := b\<rparr>"
    from True EvOpaque have "splitter_visit sql s e = ?s" by (auto simp: is_comment_def)
    moreover have "split_inv sql ?s (es @ [e])"
      using splitter_gap_keeps [where s = s and bs = sql and up = a] inv True EvOpaque
      by (intro split_inv_stay [OF inv])
         (simp_all add: same_top_ok [symmetric] same_top_fits [symmetric] split_inv_def top_fits_comment)
    ultimately show ?thesis by simp
  next
    case False
    with EvOpaque have "\<not> (k = LineComment \<or> k = BlockComment)" by auto
    with EvOpaque show ?thesis
      using splitter_gap_keeps [where s = s and bs = sql and up = a] by (auto intro!: splitter_event_inv [OF inv])
  qed
next
  case (EvSeparator a)
  let ?g = "splitter_gap sql a s"
  note keeps = splitter_gap_keeps [where s = s and bs = sql and up = a]
  show ?thesis
  proof (cases "\<exists>b. sp_top ?g = TBody b \<and> 0 < b_depth b")
    case True
    then obtain b where b: "sp_top ?g = TBody b" "0 < b_depth b" by blast
    with keeps(1) obtain b0 where "sp_top s = TBody b0" by (cases "sp_top s") auto
    with b keeps EvSeparator new [OF EvSeparator] show ?thesis
      by (auto simp: Let_def intro!: split_inv_drop [OF inv])
  next
    case False
    then have "splitter_visit sql s e =
        splitter_reset (?g\<lparr>sp_pos := a + 1, sp_separators := sp_separators ?g @ [a]\<rparr>)"
      by (auto simp: EvSeparator Let_def split: top.split)
    with keeps EvSeparator new [OF EvSeparator] show ?thesis
      by (auto simp: splitter_reset_def intro!: split_inv_end [OF inv])
  qed
qed

lemma splitter_visit_separators:
  "sp_separators (splitter_visit sql s e) = sp_separators s \<or>
     (\<exists>a. e = EvSeparator a \<and> sp_separators (splitter_visit sql s e) = sp_separators s @ [a])"
  by (cases e)
     (auto simp: Let_def splitter_gap_keeps splitter_event_def splitter_reset_def split: top.split)

lemma subseq_set: "subseq xs ys \<Longrightarrow> set xs \<subseteq> set ys"
  by (induction xs ys rule: list_emb.induct) auto

lemma subseq_sorted: "subseq xs ys \<Longrightarrow> sorted_wrt P ys \<Longrightarrow> sorted_wrt P xs"
proof (induction xs ys rule: list_emb.induct)
  case (list_emb_Cons2 x y xs ys)
  then show ?case using subseq_set [of xs ys] by auto
qed auto

lemma subseq_eq_of_set:
  assumes "subseq xs ys" "sorted_wrt (<) (ys :: nat list)" "set ys \<subseteq> set xs"
  shows "xs = ys"
proof -
  from assms subseq_set [of xs ys] have "set xs = set ys" by blast
  moreover have "sorted_wrt (<) xs" using assms subseq_sorted by blast
  ultimately show ?thesis using assms(2) strict_sorted_equal by blast
qed

definition event_separators :: "event list \<Rightarrow> nat list" where
  "event_separators es = concat (map (\<lambda>e. case e of EvSeparator a \<Rightarrow> [a] | _ \<Rightarrow> []) es)"

lemma splitter_subseq:
  "subseq (sp_separators (foldl (splitter_visit sql) splitter_init es)) (event_separators es)"
proof (induction es rule: rev_induct)
  case Nil
  then show ?case by (simp add: splitter_init_def event_separators_def)
next
  case (snoc e es)
  then show ?case
    using splitter_visit_separators [of sql "foldl (splitter_visit sql) splitter_init es" e]
    by (auto simp: event_separators_def list_emb_append2)
qed

lemma event_separators_iff: "a \<in> set (event_separators es) \<longleftrightarrow> EvSeparator a \<in> set es"
  by (force simp: event_separators_def split: event.splits)

lemma splitter_inv:
  "sorted_wrt (<) (event_separators es) \<Longrightarrow>
     split_inv sql (foldl (splitter_visit sql) splitter_init es) es"
proof (induction es rule: rev_induct)
  case Nil
  then show ?case
    by (simp add: split_inv_def splitter_init_def at_boundary_def within_statement_def top_fits_def)
next
  case (snoc e es)
  let ?s = "foldl (splitter_visit sql) splitter_init es"
  from snoc.prems have sorted: "sorted_wrt (<) (event_separators es)"
    by (simp add: event_separators_def sorted_wrt_append)
  have "EvSeparator a \<notin> set es \<and> a \<notin> set (sp_separators ?s)" if "e = EvSeparator a" for a
  proof -
    have "a \<notin> set (event_separators es)"
      using snoc.prems that by (auto simp: event_separators_def sorted_wrt_append)
    then show ?thesis
      using event_separators_iff subseq_set [OF splitter_subseq] by blast
  qed
  with splitter_visit_inv [OF snoc.IH [OF sorted]] show ?case by simp
qed

lemma scan_event_separators: "separators (scan_dialect sql lx) = event_separators (walk_events sql lx)"
  by (simp add: scan_separators event_separators_def)

lemma script_separators_subseq:
  "subseq (script_separators sql lx) (separators (scan_dialect sql lx))"
  by (simp add: script_separators_def scan_event_separators splitter_subseq)

lemma script_split_inv:
  "is_mysql lx \<Longrightarrow>
     split_inv sql (foldl (splitter_visit sql) splitter_init (walk_events sql lx)) (walk_events sql lx)"
  using scan_separators_sorted [of sql lx] by (intro splitter_inv) (simp add: scan_event_separators)

lemma script_separator_dropped:
  assumes "a \<in> set (separators (scan_dialect sql lx))" "a \<notin> set (script_separators sql lx)"
  shows "swallowed sql (script_separators sql lx) (walk_events sql lx) a"
proof -
  from assms have m: "is_mysql lx" by (auto simp: script_separators_def split: if_splits)
  from script_split_inv [OF m, of sql] assms show ?thesis
    by (simp add: split_inv_def script_separators_def m in_scan_separators)
qed

section \<open>Properties\<close>

text \<open>
  The splitter never cuts where the scanner sees no separator, and never reorders: the offsets a
  script is cut at are a subsequence of the scan's separators, in increasing order, and for every
  lexer but MySQL's they are the scan's separators themselves.
\<close>
theorem script_cuts_at_separators:
  "subseq (script_separators sql lx) (separators (scan_dialect sql lx)) \<and>
   sorted_wrt (<) (script_separators sql lx) \<and>
   (\<not> is_mysql lx \<longrightarrow> script_separators sql lx = separators (scan_dialect sql lx))"
  using script_separators_subseq [of sql lx] scan_separators_sorted [of sql lx]
  using subseq_sorted by (auto simp: script_separators_def)

theorem script_cuts_at_separators_witness:
  "script_separators ''a;b'' TRINO = separators (scan_dialect ''a;b'' TRINO)"
  using script_cuts_at_separators [of "''a;b''" TRINO] by (simp add: is_mysql_def lexer_defs)

text \<open>
  A separator the splitter drops lies in a statement that announces a stored program: among the
  events since the last cut, the first that is no comment is the word \<open>CREATE\<close>, \<open>ALTER\<close> or \<open>BEGIN\<close>, and
  no cut lies in between. Two statements of any other kind are never sent as one.
\<close>
theorem dropped_separator_in_opener:
  assumes "a \<in> set (separators (scan_dialect sql lx))"
    and "a \<notin> set (script_separators sql lx)"
  shows "\<exists>pre cs s t post rest.
    walk_events sql lx = pre @ cs @ EvWord s t # post @ EvSeparator a # rest \<and>
    (pre = [] \<or> (\<exists>q \<in> set (script_separators sql lx). last pre = EvSeparator q)) \<and>
    list_all is_comment cs \<and> is_any (slice sql s t) [''CREATE'', ''ALTER'', ''BEGIN''] \<and>
    (\<forall>q \<in> set (script_separators sql lx). EvSeparator q \<notin> set post)"
proof -
  from script_separator_dropped [OF assms] obtain pre cur rest
    where es: "walk_events sql lx = pre @ cur @ EvSeparator a # rest"
      and pre: "at_boundary (script_separators sql lx) pre"
      and cur: "within_statement (script_separators sql lx) cur" "statement_opens sql cur"
    by (auto simp: swallowed_def)
  from cur(2) obtain cs s t post where c: "cur = cs @ EvWord s t # post"
    "list_all is_comment cs" "is_any (slice sql s t) OPENERS"
    by (auto simp: statement_opens_def)
  show ?thesis
    using es pre cur(1) c
    by (intro exI [of _ pre] exI [of _ cs] exI [of _ s] exI [of _ t] exI [of _ post] exI [of _ rest])
       (simp add: at_boundary_def within_statement_def OPENERS_def)
qed

theorem dropped_separator_in_opener_witness:
  "\<exists>pre cs s t post rest.
    walk_events ''begin not atomic;'' MYSQL =
      pre @ cs @ EvWord s t # post @ EvSeparator 16 # rest \<and>
    (pre = [] \<or> (\<exists>q \<in> set (script_separators ''begin not atomic;'' MYSQL).
      last pre = EvSeparator q)) \<and>
    list_all is_comment cs \<and>
    is_any (slice ''begin not atomic;'' s t) [''CREATE'', ''ALTER'', ''BEGIN''] \<and>
    (\<forall>q \<in> set (script_separators ''begin not atomic;'' MYSQL).
      EvSeparator q \<notin> set post)"
  by (rule dropped_separator_in_opener) code_simp+

text \<open>
  A script in which no word is \<open>CREATE\<close>, \<open>ALTER\<close> or \<open>BEGIN\<close> is cut at every separator.
\<close>
theorem plain_script_is_cut_everywhere:
  assumes "list_all (\<lambda>w. w \<notin> {''CREATE'', ''ALTER'', ''BEGIN''}) (bare_words (scan_dialect sql lx))"
  shows "script_separators sql lx = separators (scan_dialect sql lx)"
proof (rule subseq_eq_of_set [OF script_separators_subseq])
  show "sorted_wrt (<) (separators (scan_dialect sql lx))" by (rule scan_separators_sorted)
  show "set (separators (scan_dialect sql lx)) \<subseteq> set (script_separators sql lx)"
  proof
    fix a assume a: "a \<in> set (separators (scan_dialect sql lx))"
    show "a \<in> set (script_separators sql lx)"
    proof (rule ccontr)
      assume "a \<notin> set (script_separators sql lx)"
      from script_separator_dropped [OF a this] obtain s t
        where w: "EvWord s t \<in> set (walk_events sql lx)" "is_any (slice sql s t) OPENERS"
        unfolding swallowed_def statement_opens_def
        by (metis append_assoc append_Cons in_set_conv_decomp)
      from w(2) have "to_ascii_uppercase (slice sql s t) \<in> {''CREATE'', ''ALTER'', ''BEGIN''}"
        by (auto simp: is_any_def OPENERS_def is_kw_def eq_ignore_ascii_case_upper
            to_ascii_uppercase_def ascii_upper_def is_ascii_lowercase_def)
      with w(1) assms in_scan_words [of _ sql lx] show False by (auto simp: list_all_iff)
    qed
  qed
qed

theorem plain_script_is_cut_everywhere_witness:
  "script_separators ''x;y'' MYSQL = separators (scan_dialect ''x;y'' MYSQL)"
  by (rule plain_script_is_cut_everywhere) code_simp

end
