(* ===== verification/SqlStatements.thy ===== *)
theory SqlStatements
  imports SqlScript
begin

text \<open>
  The statements of a script, from \<^verbatim>\<open>crates/qh-sql/src/classify.rs\<close>: the pieces between two cuts of
  the splitter that hold more than white space and comments, trimmed, each with the line its first
  significant byte is on.

  The line counter of the source counts every byte once and may only be moved forward. The lemmas
  show that it is, so that the lines are those a fresh count would give, and that the pieces and the
  cuts between them are the whole text.
\<close>

section \<open>Lines\<close>

definition newlines :: "bytes \<Rightarrow> nat" where
  "newlines s = length (filter (\<lambda>b. b = CHR 0x0A) s)"

definition line_at :: "bytes \<Rightarrow> nat \<Rightarrow> nat" where
  "line_at sql offset = newlines (take offset sql) + 1"

record line_counter =
  lc_offset :: nat
  lc_line :: nat

definition line_counter_new :: line_counter where
  "line_counter_new = \<lparr>lc_offset = 0, lc_line = 1\<rparr>"

definition line_counter_at :: "bytes \<Rightarrow> nat \<Rightarrow> line_counter \<Rightarrow> line_counter \<times> nat" where
  "line_counter_at sql offset c =
     (let line = lc_line c + newlines (slice sql (lc_offset c) offset)
      in (\<lparr>lc_offset = offset, lc_line = line\<rparr>, line))"

section \<open>Statements\<close>

record script_statement =
  st_line :: nat
  st_text :: bytes

definition push_with_line ::
  "bytes \<Rightarrow> lexer \<Rightarrow> nat \<Rightarrow> nat \<Rightarrow> script_statement list \<times> line_counter
    \<Rightarrow> script_statement list \<times> line_counter" where
  "push_with_line sql lx start end_index s =
     (let piece = slice sql start end_index in
      case first_significant piece lx of
        None \<Rightarrow> s
      | Some leading \<Rightarrow>
          (let (lines, line) = line_counter_at sql (start + leading) (snd s)
           in (fst s @ [\<lparr>st_line = line, st_text = trim piece\<rparr>], lines)))"

fun statements_loop ::
  "bytes \<Rightarrow> lexer \<Rightarrow> nat \<Rightarrow> nat list \<Rightarrow> script_statement list \<times> line_counter
    \<Rightarrow> script_statement list \<times> line_counter" where
  "statements_loop sql lx start [] s = push_with_line sql lx start (length sql) s"
| "statements_loop sql lx start (sep # seps) s =
     statements_loop sql lx (sep + 1) seps (push_with_line sql lx start sep s)"

definition statements_with_lines_dialect :: "bytes \<Rightarrow> lexer \<Rightarrow> script_statement list" where
  "statements_with_lines_dialect sql lx =
     (if \<not> has_significant_text sql lx then []
      else fst (statements_loop sql lx 0 (script_separators sql lx) ([], line_counter_new)))"

definition statements_dialect :: "bytes \<Rightarrow> lexer \<Rightarrow> bytes list" where
  "statements_dialect sql lx = map st_text (statements_with_lines_dialect sql lx)"

section \<open>The pieces a script is cut into\<close>

text \<open>The byte ranges between the cuts, and the statement each gives, if it gives one.\<close>

fun cut_at :: "nat \<Rightarrow> nat \<Rightarrow> nat list \<Rightarrow> (nat \<times> nat) list" where
  "cut_at start stop [] = [(start, stop)]"
| "cut_at start stop (sep # seps) = (start, sep) # cut_at (sep + 1) stop seps"

definition piece_statement :: "bytes \<Rightarrow> lexer \<Rightarrow> nat \<times> nat \<Rightarrow> script_statement list" where
  "piece_statement sql lx p =
     (case first_significant (slice sql (fst p) (snd p)) lx of
        None \<Rightarrow> []
      | Some leading \<Rightarrow> [\<lparr>st_line = line_at sql (fst p + leading), st_text = trim (slice sql (fst p) (snd p))\<rparr>])"

definition script_pieces :: "bytes \<Rightarrow> lexer \<Rightarrow> (nat \<times> nat) list" where
  "script_pieces sql lx = cut_at 0 (length sql) (script_separators sql lx)"

lemma newlines_append [simp]: "newlines (s @ t) = newlines s + newlines t"
  by (simp add: newlines_def)

lemma take_slice: "a \<le> b \<Longrightarrow> take a xs @ slice xs a b = take b xs"
  using slice_append_slice [of 0 a b xs] by (simp add: slice_def)

text \<open>The counter is right as long as it is behind.\<close>

definition counter_ok :: "bytes \<Rightarrow> nat \<Rightarrow> line_counter \<Rightarrow> bool" where
  "counter_ok sql start c \<longleftrightarrow> lc_offset c \<le> start \<and> lc_line c = line_at sql (lc_offset c)"

lemma line_counter_at_correct:
  assumes "counter_ok sql start c" "start \<le> offset"
  shows "line_counter_at sql offset c = (\<lparr>lc_offset = offset, lc_line = line_at sql offset\<rparr>, line_at sql offset)"
proof -
  from assms have "take (lc_offset c) sql @ slice sql (lc_offset c) offset = take offset sql"
    by (intro take_slice) (simp add: counter_ok_def)
  from arg_cong [OF this, of newlines] assms(1) show ?thesis
    by (simp add: line_counter_at_def counter_ok_def line_at_def Let_def)
qed

lemma first_significant_less: "first_significant s lx = Some n \<Longrightarrow> n < length s"
  using significant_from_events [of s lx 0] by (auto simp: first_significant_def)

lemma push_with_line_correct:
  assumes "counter_ok sql start (snd s)" "start \<le> stop" "stop \<le> length sql"
  shows "fst (push_with_line sql lx start stop s) = fst s @ piece_statement sql lx (start, stop)"
    and "counter_ok sql stop (snd (push_with_line sql lx start stop s))"
  using assms line_counter_at_correct [OF assms(1)] first_significant_less [of "slice sql start stop" lx]
  by (auto simp: push_with_line_def piece_statement_def Let_def counter_ok_def split: option.split)

lemma statements_loop_correct:
  assumes "counter_ok sql start (snd s)" "start \<le> length sql"
    and "sorted_wrt (<) seps" "list_all (\<lambda>a. start \<le> a \<and> a < length sql) seps"
  shows "fst (statements_loop sql lx start seps s) =
    fst s @ concat (map (piece_statement sql lx) (cut_at start (length sql) seps))"
  using assms
proof (induction seps arbitrary: start s)
  case Nil
  then show ?case using push_with_line_correct [of sql start s "length sql" lx] by simp
next
  case (Cons sep seps)
  let ?s = "push_with_line sql lx start sep s"
  from Cons.prems have "start \<le> sep" "sep < length sql" by simp_all
  with push_with_line_correct [OF Cons.prems(1), of sep lx]
  have s: "fst ?s = fst s @ piece_statement sql lx (start, sep)" "counter_ok sql (sep + 1) (snd ?s)"
    by (simp_all add: counter_ok_def)
  with Cons show ?case by (auto simp: list_all_iff Suc_le_eq)
qed

lemma script_separator_bounds:
  "list_all (\<lambda>a. a < length sql \<and> sql ! a = CHR '';'') (script_separators sql lx)"
proof -
  have "a < length sql \<and> sql ! a = CHR '';''" if "a \<in> set (script_separators sql lx)" for a
  proof -
    from that have "EvSeparator a \<in> set (walk_events sql lx)"
      using subseq_set [OF script_separators_subseq, of sql lx] in_scan_separators [of a sql lx] by blast
    from walked.event_bounds [OF this] walked.event_reads [OF this] show ?thesis by simp
  qed
  then show ?thesis by (simp add: list_all_iff)
qed

lemma script_separators_sorted: "sorted_wrt (<) (script_separators sql lx)"
  using subseq_sorted [OF script_separators_subseq scan_separators_sorted] .

lemma statements_are_pieces:
  "statements_with_lines_dialect sql lx =
     (if has_significant_text sql lx
      then concat (map (piece_statement sql lx) (script_pieces sql lx)) else [])"
  using statements_loop_correct [of sql 0 "([], line_counter_new)" "script_separators sql lx" lx]
    script_separators_sorted [of sql lx] script_separator_bounds [of sql lx]
  by (auto simp: statements_with_lines_dialect_def script_pieces_def counter_ok_def line_counter_new_def
      line_at_def newlines_def list_all_iff)

text \<open>The pieces, joined by the cuts, are the text.\<close>

lemma cut_at_join:
  assumes "sorted_wrt (<) seps" "start \<le> length sql"
    "list_all (\<lambda>a. start \<le> a \<and> a < length sql \<and> sql ! a = CHR '';'') seps"
  shows "join '';'' (map (\<lambda>p. slice sql (fst p) (snd p)) (cut_at start (length sql) seps)) = drop start sql"
  using assms
proof (induction seps arbitrary: start)
  case (Cons sep seps)
  from Cons.prems have sep: "start \<le> sep" "sep < length sql" "sql ! sep = CHR '';''" by simp_all
  have IH: "join '';'' (map (\<lambda>p. slice sql (fst p) (snd p)) (cut_at (sep + 1) (length sql) seps)) =
      drop (sep + 1) sql"
    using Cons.prems by (intro Cons.IH) (auto simp: list_all_iff Suc_le_eq)
  have "drop start sql = slice sql start sep @ drop sep sql"
    using sep(1) by (metis append_take_drop_id drop_drop le_add_diff_inverse2 slice_def)
  also have "drop sep sql = '';'' @ drop (sep + 1) sql"
    using sep(2,3) by (simp add: Cons_nth_drop_Suc [symmetric])
  finally show ?case using IH by (cases "cut_at (sep + 1) (length sql) seps"; cases seps) simp_all
qed (simp add: slice_def)

section \<open>Properties\<close>


text \<open>
  The statements of a script are exactly its significant pieces, in order, trimmed, and the line a
  statement is reported on is one more than the newlines before its first significant byte, although
  the counter reads each byte only once.
\<close>
theorem statement_lines_are_right:
  "statements_with_lines_dialect sql lx =
     (if has_significant_text sql lx
      then concat (map (\<lambda>(a, b).
        (case first_significant (slice sql a b) lx of
           None \<Rightarrow> []
         | Some n \<Rightarrow> [\<lparr>st_line = 1 + length (filter (\<lambda>c. c = CHR 0x0A) (take (a + n) sql)),
                       st_text = trim (slice sql a b)\<rparr>])) (script_pieces sql lx))
      else [])"
proof -
  have "piece_statement sql lx = (\<lambda>(a, b).
        (case first_significant (slice sql a b) lx of
           None \<Rightarrow> []
         | Some n \<Rightarrow> [\<lparr>st_line = 1 + length (filter (\<lambda>c. c = CHR 0x0A) (take (a + n) sql)),
                       st_text = trim (slice sql a b)\<rparr>]))"
    by (auto simp: piece_statement_def line_at_def newlines_def split: option.split)
  then show ?thesis unfolding statements_are_pieces by (rule arg_cong)
qed

end
