(* ===== verification/SqlDirective.thy ===== *)
theory SqlDirective
  imports SqlStatements
begin

text \<open>
  The end of \<^verbatim>\<open>crates/qh-sql/src/script.rs\<close>: \<open>client_directive\<close> looks for the lines of a script that are
  instructions to a client program (\<open>DELIMITER\<close> of the mysql client, the backslash commands of psql,
  \<open>COPY \<dots> FROM STDIN\<close>), which the import refuses before it connects.

  Two of the readers are visitors of the walk: the state of each is the record the source has, and
  the closure \<open>take\<close> of the second reads the code between two reported regions. The lemmas show that
  the offsets they find are the first ones outside every region, so a script without a directive has
  no backslash in its code at all.
\<close>

section \<open>The readers\<close>

text \<open>\<open>Iterator::position\<close>.\<close>

fun find_index :: "('a \<Rightarrow> bool) \<Rightarrow> 'a list \<Rightarrow> nat option" where
  "find_index P [] = None"
| "find_index P (x # xs) = (if P x then Some 0 else map_option Suc (find_index P xs))"

definition leading_word :: "bytes \<Rightarrow> bytes" where
  "leading_word s =
     take (case find_index (\<lambda>c. \<not> (is_ascii_alphanumeric c \<or> c = CHR ''_'')) s of
             Some e \<Rightarrow> e | None \<Rightarrow> length s) s"

definition opens_its_line :: "bytes \<Rightarrow> nat \<Rightarrow> bool" where
  "opens_its_line bs start \<longleftrightarrow>
     list_all is_ascii_whitespace (takeWhile (\<lambda>c. c \<noteq> CHR 0x0A) (rev (take start bs)))"

fun delimiter_visit :: "bytes \<Rightarrow> nat option \<Rightarrow> event \<Rightarrow> nat option" where
  "delimiter_visit bs found (EvWord a b) =
     (if found = None \<and> eq_ignore_ascii_case (slice bs a b) ''DELIMITER'' \<and> opens_its_line bs a
      then Some a else found)"
| "delimiter_visit bs found (EvSeparator a) = found"
| "delimiter_visit bs found (EvOpaque k a b) = found"

definition first_delimiter_line :: "bytes \<Rightarrow> lexer \<Rightarrow> nat option" where
  "first_delimiter_line sql lx = foldl (delimiter_visit sql) None (walk_events sql lx)"

record backslash =
  bk_pos :: nat
  bk_found :: "nat option"

definition backslash_take :: "bytes \<Rightarrow> nat \<Rightarrow> nat \<Rightarrow> backslash \<Rightarrow> backslash" where
  "backslash_take bs to resume s =
     (let found = (if bk_found s = None
        then map_option (\<lambda>n. bk_pos s + n) (find_index (\<lambda>c. c = CHR 0x5C) (slice bs (bk_pos s) to))
        else bk_found s)
      in \<lparr>bk_pos = resume, bk_found = found\<rparr>)"

fun backslash_visit :: "bytes \<Rightarrow> backslash \<Rightarrow> event \<Rightarrow> backslash" where
  "backslash_visit bs s (EvSeparator a) = backslash_take bs a (a + 1) s"
| "backslash_visit bs s (EvOpaque k a b) = backslash_take bs a b s"
| "backslash_visit bs s (EvWord a b) = backslash_take bs a b s"

definition first_backslash :: "bytes \<Rightarrow> lexer \<Rightarrow> nat option" where
  "first_backslash sql lx =
     bk_found (backslash_take sql (length sql) (length sql)
       (foldl (backslash_visit sql) \<lparr>bk_pos = 0, bk_found = None\<rparr> (walk_events sql lx)))"

section \<open>The refusal\<close>

record script_refusal =
  sr_line :: nat
  sr_directive :: bytes
  sr_reason :: bytes

text \<open>
  \<open>chars().take_while(|c| !c.is_whitespace()).take(n)\<close>: a character is a lead byte and the
  continuation bytes behind it.
\<close>

definition char_width :: "bytes \<Rightarrow> nat" where
  "char_width s = 1 + length (takeWhile is_continuation (tl s))"

fun take_name :: "nat \<Rightarrow> bytes \<Rightarrow> bytes" where
  "take_name 0 s = []"
| "take_name (Suc n) s =
     (if s = [] \<or> ws_head s \<noteq> 0 then []
      else take (char_width s) s @ take_name n (drop (char_width s) s))"

definition DELIMITER_REASON :: bytes where
  "DELIMITER_REASON =
     ''`DELIMITER` is a mysql client command, not SQL. The server rejects it, and this import does '' @
     ''not honour it, so a routine body that relies on it would be cut at its own `;` and sent in '' @
     ''pieces. Load the file with the mysql client, or remove the DELIMITER lines and end each '' @
     ''routine with a single `;`. Any line that starts with the word is refused, a column named '' @
     ''`delimiter` included; write it in backticks''"

definition COPY_FROM_STDIN :: bytes where
  "COPY_FROM_STDIN = ''COPY '' @ [CHR 0xE2, CHR 0x80, CHR 0xA6] @ '' FROM STDIN''"

definition COPY_REASON :: bytes where
  "COPY_REASON =
     ''`'' @ COPY_FROM_STDIN @ ''` reads its rows from the client'' @ [CHR 0x27] @ ''s input stream, '' @
     ''which the lines after it in a file are not. An import cannot supply them. Use `'' @ [CHR 0x5C] @
     ''copy` in psql, or export the table as CSV and import that''"

definition delimiter_refusal :: "bytes \<Rightarrow> nat \<Rightarrow> script_refusal" where
  "delimiter_refusal sql offset =
     \<lparr>sr_line = line_at sql offset, sr_directive = ''DELIMITER'', sr_reason = DELIMITER_REASON\<rparr>"

definition backslash_refusal :: "bytes \<Rightarrow> nat \<Rightarrow> script_refusal" where
  "backslash_refusal sql offset =
     (let name = take_name 32 (drop offset sql) in
      \<lparr>sr_line = line_at sql offset, sr_directive = name,
       sr_reason = ''`'' @ name @ ''` is a psql meta-command, not SQL. The server cannot run it, so this '' @
         ''import refuses the file before connecting. Remove the line, or load the file with psql''\<rparr>)"

text \<open>A statement whose first word is \<open>COPY\<close> and that has the words \<open>FROM STDIN\<close> next to each other.\<close>

definition copies_from_stdin :: "lexer \<Rightarrow> bytes \<Rightarrow> bool" where
  "copies_from_stdin lx stmt \<longleftrightarrow>
     (case first_significant stmt lx of
        Some at \<Rightarrow> eq_ignore_ascii_case (leading_word (drop at stmt)) ''COPY''
      | None \<Rightarrow> False) \<and>
     (let words = bare_words (scan_dialect stmt lx) in
      list_ex (\<lambda>(v, w). v = ''FROM'' \<and> w = ''STDIN'') (zip words (tl words)))"

definition copy_refusal :: "bytes \<Rightarrow> lexer \<Rightarrow> script_refusal option" where
  "copy_refusal sql lx =
     map_option (\<lambda>s. \<lparr>sr_line = st_line s, sr_directive = COPY_FROM_STDIN, sr_reason = COPY_REASON\<rparr>)
       (find (\<lambda>s. copies_from_stdin lx (st_text s)) (statements_with_lines_dialect sql lx))"

text \<open>\<open>min_by_key\<close> keeps the first of two refusals on one line.\<close>

fun earlier_refusal :: "script_refusal option \<Rightarrow> script_refusal option \<Rightarrow> script_refusal option" where
  "earlier_refusal None r = r"
| "earlier_refusal (Some q) None = Some q"
| "earlier_refusal (Some q) (Some r) = Some (if sr_line r < sr_line q then r else q)"

definition client_directive :: "bytes \<Rightarrow> lexer \<Rightarrow> script_refusal option" where
  "client_directive sql lx =
     (if is_mysql lx then map_option (delimiter_refusal sql) (first_delimiter_line sql lx)
      else if \<not> is_postgres lx then None
      else earlier_refusal (map_option (backslash_refusal sql) (first_backslash sql lx)) (copy_refusal sql lx))"

section \<open>What the visitors find\<close>

lemma find_index_None: "find_index P xs = None \<longleftrightarrow> (\<forall>x \<in> set xs. \<not> P x)"
  by (induction xs) auto

lemma find_index_Some:
  "find_index P xs = Some i \<longleftrightarrow> i < length xs \<and> P (xs ! i) \<and> (\<forall>j < i. \<not> P (xs ! j))"
proof (induction xs arbitrary: i)
  case (Cons x xs)
  then show ?case by (cases i) (auto simp: less_Suc_eq_0_disj)
qed simp

lemma delimiter_fold_Some: "foldl (delimiter_visit bs) (Some a) es = Some a"
proof (induction es)
  case (Cons e es)
  then show ?case by (cases e) auto
qed simp

lemma first_delimiter_line_None:
  "first_delimiter_line sql lx = None \<longleftrightarrow>
     (\<forall>a b. EvWord a b \<in> set (walk_events sql lx) \<longrightarrow> opens_its_line sql a \<longrightarrow>
        \<not> eq_ignore_ascii_case (slice sql a b) ''DELIMITER'')"
proof -
  have "foldl (delimiter_visit sql) None es = None \<longleftrightarrow>
     (\<forall>a b. EvWord a b \<in> set es \<longrightarrow> opens_its_line sql a \<longrightarrow>
        \<not> eq_ignore_ascii_case (slice sql a b) ''DELIMITER'')" for es
  proof (induction es)
    case (Cons e es)
    show ?case
    proof (cases e)
      case (EvWord a b)
      with Cons show ?thesis by (auto simp: delimiter_fold_Some)
    qed (use Cons in auto)
  qed simp
  then show ?thesis by (simp add: first_delimiter_line_def)
qed

text \<open>\<open>clear es lo hi\<close>: the offsets between \<open>lo\<close> and \<open>hi\<close> that lie in no event and hold a backslash.\<close>

definition code_backslash :: "bytes \<Rightarrow> event list \<Rightarrow> nat \<Rightarrow> bool" where
  "code_backslash bs es i \<longleftrightarrow>
     i < length bs \<and> bs ! i = CHR 0x5C \<and> (\<forall>e \<in> set es. \<not> (ev_start e \<le> i \<and> i < ev_end e))"

lemma backslash_visit_take: "backslash_visit bs s e = backslash_take bs (ev_start e) (ev_end e) s"
  by (cases e) simp_all

lemma backslash_take_found:
  "bk_found (backslash_take bs to resume s) =
     (if bk_found s = None
      then map_option ((+) (bk_pos s)) (find_index (\<lambda>c. c = CHR 0x5C) (slice bs (bk_pos s) to))
      else bk_found s)"
  "bk_pos (backslash_take bs to resume s) = resume"
  by (auto simp: backslash_take_def Let_def)

lemma backslash_fold_Some: "bk_found s = Some i \<Longrightarrow> bk_found (foldl (backslash_visit bs) s es) = Some i"
proof (induction es arbitrary: s)
  case (Cons e es)
  then show ?case by (simp add: backslash_visit_take backslash_take_found)
qed simp

definition scan_backslash :: "bytes \<Rightarrow> nat \<Rightarrow> event list \<Rightarrow> nat option" where
  "scan_backslash bs pos es =
     bk_found (backslash_take bs (length bs) (length bs)
       (foldl (backslash_visit bs) \<lparr>bk_pos = pos, bk_found = None\<rparr> es))"

lemma scan_backslash_Cons:
  "scan_backslash bs pos (e # es) =
     (case find_index (\<lambda>c. c = CHR 0x5C) (slice bs pos (ev_start e)) of
        Some n \<Rightarrow> Some (pos + n)
      | None \<Rightarrow> scan_backslash bs (ev_end e) es)"
  by (cases "find_index (\<lambda>c. c = CHR 0x5C) (slice bs pos (ev_start e))")
     (auto simp: scan_backslash_def backslash_visit_take backslash_take_found backslash_fold_Some
       backslash_take_def)

lemma find_index_slice_None:
  "find_index P (slice bs a b) = None \<Longrightarrow> b \<le> length bs \<Longrightarrow> a \<le> i \<Longrightarrow> i < b \<Longrightarrow> \<not> P (bs ! i)"
proof -
  assume r: "find_index P (slice bs a b) = None" and "b \<le> length bs" "a \<le> i" "i < b"
  then have "slice bs a b ! (i - a) = bs ! i" "i - a < length (slice bs a b)" by simp_all
  with r show ?thesis by (metis find_index_None nth_mem)
qed

lemma find_index_slice_Some:
  assumes "find_index P (slice bs a b) = Some n" "b \<le> length bs"
  shows "a + n < b" "P (bs ! (a + n))" "\<And>i. a \<le> i \<Longrightarrow> i < a + n \<Longrightarrow> \<not> P (bs ! i)"
proof -
  from assms(1) have n: "n < length (slice bs a b)" "P (slice bs a b ! n)"
    "\<forall>j < n. \<not> P (slice bs a b ! j)" by (simp_all add: find_index_Some)
  from n(1) assms(2) show ab: "a + n < b" by simp
  with n(2) assms(2) show "P (bs ! (a + n))" by simp
  fix i assume i: "a \<le> i" "i < a + n"
  with ab assms(2) have "slice bs a b ! (i - a) = bs ! i" "i - a < n" by simp_all
  with n(3) show "\<not> P (bs ! i)" by metis
qed

lemma code_backslash_Cons:
  assumes "tiles lx bs pos (length bs) (e # es)" "pos \<le> i"
  shows "code_backslash bs (e # es) i \<longleftrightarrow>
    (if i < ev_start e then bs ! i = CHR 0x5C
     else if i < ev_end e then False else code_backslash bs es i)"
proof -
  from assms(1) have t: "ev_start e < ev_end e" "ev_end e \<le> length bs"
    "tiles lx bs (ev_end e) (length bs) es" by auto
  have later: "ev_end e \<le> ev_start f" if "f \<in> set es" for f using walked.tiles_sorted [OF t(3)] that by blast
  show ?thesis
  proof (cases "i < ev_start e")
    case True
    with later t have "\<not> ev_start f \<le> i" if "f \<in> set es" for f using that by fastforce
    with True t show ?thesis by (auto simp: code_backslash_def)
  next
    case False
    then show ?thesis by (auto simp: code_backslash_def)
  qed
qed

lemma scan_backslash_first:
  assumes "tiles lx bs pos (length bs) es"
  shows "(scan_backslash bs pos es = None \<longrightarrow> (\<forall>i \<ge> pos. \<not> code_backslash bs es i)) \<and>
    (\<forall>n. scan_backslash bs pos es = Some n \<longrightarrow> pos \<le> n \<and> code_backslash bs es n \<and>
       (\<forall>i \<ge> pos. i < n \<longrightarrow> \<not> code_backslash bs es i))"
  using assms
proof (induction es arbitrary: pos)
  case Nil
  have s: "scan_backslash bs pos [] =
      map_option ((+) pos) (find_index (\<lambda>c. c = CHR 0x5C) (slice bs pos (length bs)))"
    by (simp add: scan_backslash_def backslash_take_found)
  show ?case
  proof (cases "find_index (\<lambda>c. c = CHR 0x5C) (slice bs pos (length bs))")
    case None
    with s find_index_slice_None [OF None] show ?thesis by (simp add: code_backslash_def)
  next
    case (Some n)
    with s find_index_slice_Some [OF Some] show ?thesis by (simp add: code_backslash_def)
  qed
next
  case (Cons e es)
  from Cons.prems have t: "pos \<le> ev_start e" "ev_start e < ev_end e" "ev_end e \<le> length bs"
    "ev_start e \<le> length bs" "tiles lx bs (ev_end e) (length bs) es" by (auto simp: gap_ok_def)
  note split_at = code_backslash_Cons [OF Cons.prems]
  show ?case
  proof (cases "find_index (\<lambda>c. c = CHR 0x5C) (slice bs pos (ev_start e))")
    case None
    note none = find_index_slice_None [OF None t(4)]
    from None have s: "scan_backslash bs pos (e # es) = scan_backslash bs (ev_end e) es"
      by (simp add: scan_backslash_Cons)
    note IH = Cons.IH [OF t(5)]
    show ?thesis
    proof (cases "scan_backslash bs (ev_end e) es")
      case N: None
      with IH s none split_at show ?thesis by simp
    next
      case S: (Some n)
      with IH have n: "ev_end e \<le> n" "code_backslash bs es n"
        "\<forall>i \<ge> ev_end e. i < n \<longrightarrow> \<not> code_backslash bs es i" by simp_all
      then have "code_backslash bs (e # es) n" using split_at [of n] t by simp
      moreover have "\<not> code_backslash bs (e # es) i" if "pos \<le> i" "i < n" for i
        using split_at [OF that(1)] none [OF that(1)] n(3) that by auto
      ultimately show ?thesis using s S n(1) t by simp
    qed
  next
    case (Some n)
    note n = find_index_slice_Some [OF Some t(4)]
    from Some have s: "scan_backslash bs pos (e # es) = Some (pos + n)" by (simp add: scan_backslash_Cons)
    have "\<not> code_backslash bs (e # es) i" if "pos \<le> i" "i < pos + n" for i
      using split_at [OF that(1)] n(3) [OF that] n(1) that by simp
    with s n split_at [of "pos + n"] show ?thesis by simp
  qed
qed

lemma first_backslash_first:
  "(first_backslash sql lx = None \<longrightarrow> (\<forall>i. \<not> code_backslash sql (walk_events sql lx) i)) \<and>
   (\<forall>n. first_backslash sql lx = Some n \<longrightarrow> code_backslash sql (walk_events sql lx) n \<and>
      (\<forall>i < n. \<not> code_backslash sql (walk_events sql lx) i))"
  using scan_backslash_first [OF walk_tiles, of sql lx]
  by (simp add: first_backslash_def scan_backslash_def)

section \<open>Properties\<close>

lemma copy_refusal_None:
  "copy_refusal sql lx = None \<longleftrightarrow>
     (\<forall>s \<in> set (statements_with_lines_dialect sql lx). \<not> copies_from_stdin lx (st_text s))"
  by (auto simp: copy_refusal_def find_None_iff)

lemma earlier_refusal_None: "earlier_refusal q r = None \<longleftrightarrow> q = None \<and> r = None"
  by (cases q; cases r) auto

text \<open>
  C37. What an import is spared. When \<open>client_directive\<close> finds nothing under PostgreSQL's lexer, every
  backslash of the script lies in a string, a comment, a quoted name or a word the walk reported, and no
  statement is a \<open>COPY\<close> with \<open>FROM STDIN\<close>; under MySQL's, no bare word \<open>DELIMITER\<close> is the first
  thing on its line. When it finds a backslash command, its line is that of the first backslash in the
  script's code or of a \<open>COPY\<close> before it.
\<close>
theorem import_has_no_directive:
  assumes "client_directive sql lx = None"
  shows "(is_postgres lx \<longrightarrow> \<not> is_mysql lx \<longrightarrow>
      (\<forall>i < length sql. sql ! i = CHR 0x5C \<longrightarrow>
        (\<exists>e \<in> set (walk_events sql lx). ev_start e \<le> i \<and> i < ev_end e)) \<and>
      (\<forall>s \<in> set (statements_with_lines_dialect sql lx). \<not> copies_from_stdin lx (st_text s))) \<and>
    (is_mysql lx \<longrightarrow> (\<forall>a b. EvWord a b \<in> set (walk_events sql lx) \<longrightarrow>
      eq_ignore_ascii_case (slice sql a b) ''DELIMITER'' \<longrightarrow>
      (\<exists>c \<in> set (takeWhile (\<lambda>c. c \<noteq> CHR 0x0A) (rev (take a sql))). \<not> is_ascii_whitespace c)))"
proof (intro conjI impI)
  assume "is_postgres lx" "\<not> is_mysql lx"
  with assms have "first_backslash sql lx = None" "copy_refusal sql lx = None"
    by (simp_all add: client_directive_def earlier_refusal_None)
  with first_backslash_first [of sql lx] copy_refusal_None [of sql lx] show
    "\<forall>i < length sql. sql ! i = CHR 0x5C \<longrightarrow>
        (\<exists>e \<in> set (walk_events sql lx). ev_start e \<le> i \<and> i < ev_end e)"
    "\<forall>s \<in> set (statements_with_lines_dialect sql lx). \<not> copies_from_stdin lx (st_text s)"
    by (auto simp: code_backslash_def)
next
  assume "is_mysql lx"
  with assms have "first_delimiter_line sql lx = None" by (simp add: client_directive_def)
  then show "\<forall>a b. EvWord a b \<in> set (walk_events sql lx) \<longrightarrow>
      eq_ignore_ascii_case (slice sql a b) ''DELIMITER'' \<longrightarrow>
      (\<exists>c \<in> set (takeWhile (\<lambda>c. c \<noteq> CHR 0x0A) (rev (take a sql))). \<not> is_ascii_whitespace c)"
    by (auto simp: first_delimiter_line_None opens_its_line_def list_all_iff)
qed

theorem import_has_no_directive_witness:
  "\<exists>e \<in> set (walk_events [CHR 0x27, CHR 0x5C, CHR 0x27] POSTGRES). ev_start e \<le> 1 \<and> 1 < ev_end e"
proof -
  have "client_directive [CHR 0x27, CHR 0x5C, CHR 0x27] POSTGRES = None" by code_simp
  from import_has_no_directive [OF this] show ?thesis
    by (simp add: POSTGRES_def lexer_postgres_def is_postgres_def is_mysql_def)
qed

text \<open>The commands of pg_dump and of the mysql client are found, on their lines.\<close>

lemma restrict_is_found:
  "map_option sr_directive (client_directive (''a;'' @ [CHR 0x0A, CHR 0x5C] @ ''restrict x'') POSTGRES) =
     Some (CHR 0x5C # ''restrict'') \<and>
   map_option sr_line (client_directive (''a;'' @ [CHR 0x0A] @ ''delimiter //'') MYSQL) = Some 2"
  by code_simp

end
