(* ===== verification/Decimal.thy ===== *)
theory Decimal
  imports QHPrelude
begin

text \<open>Decimal numbers: printing integers, reading them back, and the bounds of the machine types.\<close>

section \<open>Printing\<close>

text \<open>Rust's \<open>Display\<close> of an unsigned integer and of a signed one.\<close>

fun nat_bytes :: "nat \<Rightarrow> bytes" where
  "nat_bytes n = (if n < 10 then [char_of (48 + n)] else nat_bytes (n div 10) @ [char_of (48 + n mod 10)])"

definition int_bytes :: "int \<Rightarrow> bytes" where
  "int_bytes i = (if i < 0 then CHR ''-'' # nat_bytes (nat (- i)) else nat_bytes (nat i))"

text \<open>The value of a list of digits, most significant first.\<close>

definition digits_val :: "bytes \<Rightarrow> nat" where
  "digits_val s = foldl (\<lambda>n c. 10 * n + (byte_val c - 48)) 0 s"

declare nat_bytes.simps [simp del]

lemma is_ascii_digit_char [simp]: "n < 10 \<Longrightarrow> is_ascii_digit (char_of (48 + n :: nat))"
  by (simp add: is_ascii_digit_def)

lemma digits_val_snoc: "digits_val (s @ [c]) = 10 * digits_val s + (byte_val c - 48)"
  by (simp add: digits_val_def)

lemma nat_bytes_digits: "nat_bytes n \<noteq> [] \<and> list_all is_ascii_digit (nat_bytes n)"
  by (induction n rule: nat_bytes.induct) (subst (1 2) nat_bytes.simps, simp)

lemma digits_val_nat_bytes [simp]: "digits_val (nat_bytes n) = n"
proof (induction n rule: nat_bytes.induct)
  case (1 n)
  then show ?case
    by (subst nat_bytes.simps) (auto simp: digits_val_snoc, simp add: digits_val_def)
qed

section \<open>Reading\<close>

text \<open>
  Rust's \<open>str::parse\<close> for an integer type: a sign if the type has one, then digits and nothing
  else, and no value outside the type.
\<close>

definition all_digits :: "bytes \<Rightarrow> bool" where
  "all_digits s \<longleftrightarrow> s \<noteq> [] \<and> list_all is_ascii_digit s"

definition parse_int_in :: "int \<Rightarrow> int \<Rightarrow> bytes \<Rightarrow> int option" where
  "parse_int_in lo hi s =
     (let (neg, ds) = (case s of
          [] \<Rightarrow> (False, [])
        | c # r \<Rightarrow> if c = CHR ''+'' then (False, r)
                  else if c = CHR ''-'' \<and> lo < 0 then (True, r) else (False, s));
        v = (if neg then - int (digits_val ds) else int (digits_val ds))
      in if all_digits ds \<and> lo \<le> v \<and> v \<le> hi then Some v else None)"

definition i64_min :: int where "i64_min = - (2 ^ 63)"
definition i64_max :: int where "i64_max = 2 ^ 63 - 1"

definition parse_i64 :: "bytes \<Rightarrow> int option" where
  "parse_i64 s = parse_int_in i64_min i64_max s"

lemma all_digits_nat_bytes [simp]: "all_digits (nat_bytes n)"
  using nat_bytes_digits [of n] by (simp add: all_digits_def)

lemma nat_bytes_no_sign: "nat_bytes n = c # r \<Longrightarrow> c \<noteq> CHR ''-'' \<and> c \<noteq> CHR ''+''"
  using nat_bytes_digits [of n] by (auto simp: is_ascii_digit_def)

lemma parse_int_in_range: "parse_int_in lo hi s = Some v \<Longrightarrow> lo \<le> v \<and> v \<le> hi"
  by (auto simp: parse_int_in_def Let_def split: prod.splits if_splits)

lemma parse_i64_range: "parse_i64 s = Some v \<Longrightarrow> i64_min \<le> v \<and> v \<le> i64_max"
  unfolding parse_i64_def by (rule parse_int_in_range)

lemma parse_int_in_int_bytes:
  assumes "lo \<le> v" "v \<le> hi"
  shows "parse_int_in lo hi (int_bytes v) = Some v"
proof (cases "v < 0")
  case True
  then show ?thesis using assms by (simp add: parse_int_in_def int_bytes_def)
next
  case False
  obtain c r where cr: "nat_bytes (nat v) = c # r" using nat_bytes_digits by (meson neq_Nil_conv)
  with nat_bytes_no_sign [OF cr] have "parse_int_in lo hi (nat_bytes (nat v)) =
      (if lo \<le> int (digits_val (nat_bytes (nat v))) \<and> int (digits_val (nat_bytes (nat v))) \<le> hi
       then Some (int (digits_val (nat_bytes (nat v)))) else None)"
    using all_digits_nat_bytes [of "nat v"] unfolding parse_int_in_def by (simp add: Let_def)
  then show ?thesis using False assms by (simp add: int_bytes_def)
qed

lemma parse_i64_int_bytes: "i64_min \<le> v \<Longrightarrow> v \<le> i64_max \<Longrightarrow> parse_i64 (int_bytes v) = Some v"
  unfolding parse_i64_def by (rule parse_int_in_int_bytes)

end
