(* ===== verification/TextOps.thy ===== *)
theory TextOps
  imports Decimal
begin

text \<open>
  The operations of Rust's \<open>str\<close> that the engine's parsers are built from (\<open>split\<close>, \<open>split_once\<close>,
  \<open>splitn\<close>, \<open>lines\<close>, \<open>split_whitespace\<close>), the width of a formatted number (\<open>{:02}\<close>), and what they give on
  texts the engine has written itself.
\<close>

section \<open>Splitting\<close>

fun split_on :: "byte \<Rightarrow> bytes \<Rightarrow> bytes list" where
  "split_on sep [] = [[]]"
| "split_on sep (c # s) =
     (if c = sep then [] # split_on sep s
      else (case split_on sep s of l # ls \<Rightarrow> (c # l) # ls | [] \<Rightarrow> [[c]]))"

text \<open>\<open>split_once\<close> at the first byte, or at the first of several.\<close>

fun split_once_in :: "byte list \<Rightarrow> bytes \<Rightarrow> (bytes \<times> bytes) option" where
  "split_once_in seps [] = None"
| "split_once_in seps (c # s) =
     (if c \<in> set seps then Some ([], s)
      else map_option (\<lambda>(a, b). (c # a, b)) (split_once_in seps s))"

definition split_once :: "byte \<Rightarrow> bytes \<Rightarrow> (bytes \<times> bytes) option" where
  "split_once sep s = split_once_in [sep] s"

text \<open>\<open>rsplit_once\<close> and \<open>rfind\<close> go for the last one.\<close>

definition rsplit_once_in :: "byte list \<Rightarrow> bytes \<Rightarrow> (bytes \<times> bytes) option" where
  "rsplit_once_in seps s = map_option (\<lambda>(a, b). (rev b, rev a)) (split_once_in seps (rev s))"

definition contains_byte :: "byte \<Rightarrow> bytes \<Rightarrow> bool" where
  "contains_byte c s \<longleftrightarrow> c \<in> set s"

text \<open>\<open>lines\<close>: without the line feeds, without a carriage return before one, and without a last empty line.\<close>

definition strip_cr :: "bytes \<Rightarrow> bytes" where
  "strip_cr l = (if l \<noteq> [] \<and> last l = CHR 0x0D then butlast l else l)"

definition text_lines :: "bytes \<Rightarrow> bytes list" where
  "text_lines s =
     (let ls = split_on (CHR 0x0A) s in
      map strip_cr (butlast ls) @ (if last ls = [] then [] else [last ls]))"

text \<open>\<open>split_whitespace\<close>: the runs of characters that are not white space.\<close>

fun field_end :: "bytes \<Rightarrow> nat" where
  "field_end [] = 0"
| "field_end (c # s) = (if ws_head (c # s) \<noteq> 0 then 0 else Suc (field_end s))"

lemma field_end_le: "field_end s \<le> length s"
  by (induction s) auto

lemma trim_start_length: "length (trim_start s) \<le> length s"
  using trim_start_suffix [of s] by (rule suffix_length_le)

lemma field_end_pos: "s \<noteq> [] \<Longrightarrow> ws_head s = 0 \<Longrightarrow> 0 < field_end s"
  by (cases s) auto

lemma ws_head_trim_start: "ws_head (trim_start s) = 0"
proof (induction s rule: trim_start.induct)
  case (1 s)
  then show ?case by (cases "ws_head s = 0") (simp_all add: trim_start.simps [of s])
qed

function split_whitespace :: "bytes \<Rightarrow> bytes list" where
  "split_whitespace s =
     (let t = trim_start s in
      if t = [] then [] else take (field_end t) t # split_whitespace (drop (field_end t) t))"
  by pat_completeness auto
termination
proof (relation "measure length")
  fix s t :: bytes
  assume t: "t = trim_start s" "t \<noteq> []"
  then have "0 < field_end t" using field_end_pos ws_head_trim_start by blast
  with t field_end_le [of t] trim_start_length [of s] show "(drop (field_end t) t, s) \<in> measure length" by simp
qed simp

declare split_whitespace.simps [simp del]

section \<open>Numbers at a width\<close>

definition pad_zeros :: "nat \<Rightarrow> bytes \<Rightarrow> bytes" where
  "pad_zeros w s = replicate (w - length s) (CHR ''0'') @ s"

definition nat_pad :: "nat \<Rightarrow> nat \<Rightarrow> bytes" where
  "nat_pad w n = pad_zeros w (nat_bytes n)"

text \<open>The sign counts: \<open>{:04}\<close> of \<open>-5\<close> is \<open>-005\<close>.\<close>

definition int_pad :: "nat \<Rightarrow> int \<Rightarrow> bytes" where
  "int_pad w i = (if i < 0 then CHR ''-'' # nat_pad (w - 1) (nat (- i)) else nat_pad w (nat i))"

section \<open>Splitting what was joined\<close>

lemma split_on_ne [simp]: "split_on c s \<noteq> []"
  by (induction s) (auto split: list.split)

lemma split_on_free [simp]: "c \<notin> set s \<Longrightarrow> split_on c s = [s]"
  by (induction s) auto

lemma split_on_append [simp]: "c \<notin> set s \<Longrightarrow> split_on c (s @ c # t) = s # split_on c t"
  by (induction s) auto

lemma split_on_join: "join [c] (split_on c s) = s"
proof (induction s)
  case (Cons a s)
  obtain l ls where "split_on c s = l # ls" by (meson split_on_ne neq_Nil_conv)
  with Cons show ?case by (cases ls) auto
qed simp

lemma split_on_no_sep: "l \<in> set (split_on c s) \<Longrightarrow> c \<notin> set l"
proof (induction s arbitrary: l)
  case (Cons a s)
  obtain l' ls where "split_on c s = l' # ls" by (meson split_on_ne neq_Nil_conv)
  with Cons show ?case by (auto split: if_splits)
qed simp

lemma split_once_in_free [simp]: "set s \<inter> set seps = {} \<Longrightarrow> split_once_in seps s = None"
  by (induction s) auto

lemma split_once_in_append [simp]:
  "set s \<inter> set seps = {} \<Longrightarrow> c \<in> set seps \<Longrightarrow> split_once_in seps (s @ c # t) = Some (s, t)"
  by (induction s) auto

lemma split_once_free [simp]: "c \<notin> set s \<Longrightarrow> split_once c s = None"
  by (simp add: split_once_def)

lemma split_once_append [simp]: "c \<notin> set s \<Longrightarrow> split_once c (s @ c # t) = Some (s, t)"
  by (simp add: split_once_def)

lemma rsplit_once_in_append [simp]:
  assumes "set t \<inter> set seps = {}" "c \<in> set seps"
  shows "rsplit_once_in seps (s @ c # t) = Some (s, t)"
proof -
  have "set (rev t) \<inter> set seps = {}" using assms(1) by simp
  from split_once_in_append [OF this assms(2), of "rev s"] show ?thesis by (simp add: rsplit_once_in_def)
qed

section \<open>Digits\<close>

lemma all_digits_append: "all_digits a \<Longrightarrow> list_all is_ascii_digit b \<Longrightarrow> all_digits (a @ b)"
  by (auto simp: all_digits_def)

lemma digits_val_zeros [simp]: "digits_val (replicate n (CHR ''0'') @ s) = digits_val s"
  by (induction n) (simp_all add: digits_val_def)

lemma digits_val_append: "digits_val (a @ b) = digits_val a * 10 ^ length b + digits_val b"
proof (induction b rule: rev_induct)
  case (snoc c b)
  have "digits_val (a @ b @ [c]) = 10 * digits_val (a @ b) + (byte_val c - 48)"
    using digits_val_snoc [of "a @ b" c] by simp
  with snoc show ?case by (simp add: digits_val_snoc algebra_simps)
qed (simp add: digits_val_def)

lemma digits_val_pad [simp]: "digits_val (nat_pad w n) = n"
  by (simp add: nat_pad_def pad_zeros_def)

lemma list_all_digits_pad [simp]: "list_all is_ascii_digit (nat_pad w n)"
  using nat_bytes_digits [of n] by (auto simp: nat_pad_def pad_zeros_def list_all_iff is_ascii_digit_def)

lemma all_digits_pad [simp]: "all_digits (nat_pad w n)"
  using nat_bytes_digits [of n] by (simp add: all_digits_def) (simp add: nat_pad_def pad_zeros_def)

lemma digit_not: "is_ascii_digit c \<Longrightarrow> c \<notin> {CHR '':'', CHR ''-'', CHR ''+'', CHR ''.'', CHR '' '', CHR ''T''}"
  by (auto simp: is_ascii_digit_def)

lemma digits_free:
  assumes "list_all is_ascii_digit s" "c \<in> {CHR '':'', CHR ''-'', CHR ''+'', CHR ''.'', CHR '' '', CHR ''T''}"
  shows "c \<notin> set s"
  using assms digit_not by (auto simp: list_all_iff)

lemma parse_digits:
  assumes "all_digits s" "lo \<le> int (digits_val s)" "int (digits_val s) \<le> hi"
  shows "parse_int_in lo hi s = Some (int (digits_val s))"
proof -
  obtain c r where s: "s = c # r" using assms(1) by (auto simp: all_digits_def neq_Nil_conv)
  with assms(1) have "c \<noteq> CHR ''+''" "c \<noteq> CHR ''-''" by (auto simp: all_digits_def is_ascii_digit_def)
  with assms s show ?thesis by (simp add: parse_int_in_def Let_def)
qed

lemma nat_bytes_length_le: "n < 10 ^ k \<Longrightarrow> 0 < k \<Longrightarrow> length (nat_bytes n) \<le> k"
proof (induction n arbitrary: k rule: nat_bytes.induct)
  case (1 n)
  show ?case
  proof (cases "n < 10")
    case True
    with 1 show ?thesis by (subst nat_bytes.simps) simp
  next
    case False
    with 1(2) have "k \<noteq> 1" by auto
    with 1(3) obtain j where j: "k = Suc j" "0 < j" by (cases k) auto
    with 1(2) have "n div 10 < 10 ^ j" by (simp add: less_mult_imp_div_less mult.commute)
    from 1(1) [OF False this j(2)] False j show ?thesis by (subst nat_bytes.simps) simp
  qed
qed

lemma length_nat_pad: "n < 10 ^ w \<Longrightarrow> 0 < w \<Longrightarrow> length (nat_pad w n) = w"
  using nat_bytes_length_le [of n w] by (simp add: nat_pad_def pad_zeros_def)

section \<open>Trimming what has no white space at its ends\<close>

lemma ws_head_plain: "33 \<le> byte_val c \<Longrightarrow> byte_val c < 128 \<Longrightarrow> ws_head (c # s) = 0"
  by (cases s; cases "tl s") (auto simp: ws3_def)

lemma ws_head_whole:
  "ws_head s = length s \<Longrightarrow> s \<noteq> [] \<Longrightarrow> byte_val (last s) \<le> 32 \<or> 128 \<le> byte_val (last s)"
  by (induction s rule: ws_head.induct) (auto simp: ws3_def split: if_splits)

lemma ws_last_plain:
  assumes "s \<noteq> []" "33 \<le> byte_val (last s)" "byte_val (last s) < 128"
  shows "ws_last s = 0"
proof -
  have "ws_head (drop (length s - k) s) \<noteq> k" if "1 \<le> k" "k \<le> length s" for k
  proof
    assume h: "ws_head (drop (length s - k) s) = k"
    let ?t = "drop (length s - k) s"
    have "?t \<noteq> []" "length ?t = k" "last ?t = last s" using that by (auto simp: last_drop)
    with ws_head_whole [of ?t] h assms show False by simp
  qed
  then show ?thesis by (simp add: ws_last_def Let_def)
qed

lemma trim_plain:
  assumes "s \<noteq> []" "33 \<le> byte_val (hd s)" "byte_val (hd s) < 128" "33 \<le> byte_val (last s)" "byte_val (last s) < 128"
  shows "trim s = s"
proof -
  have "trim_start s = s" using ws_head_plain [OF assms(2,3), of "tl s"] assms(1)
    by (subst trim_start.simps) simp
  moreover have "trim_end s = s" using ws_last_plain assms(1,4,5) by (subst trim_end.simps) simp
  ultimately show ?thesis by (simp add: trim_def)
qed

lemma trim_digits:
  assumes "all_digits s"
  shows "trim s = s"
proof -
  from assms have s: "s \<noteq> []" and d: "\<And>c. c \<in> set s \<Longrightarrow> is_ascii_digit c"
    by (auto simp: all_digits_def list_all_iff)
  from d [OF hd_in_set [OF s]] d [OF last_in_set [OF s]] show ?thesis
    using s by (intro trim_plain) (simp_all add: is_ascii_digit_def)
qed

lemma trim_end_idle: "trim_end s = s \<longleftrightarrow> ws_last s = 0"
proof
  assume s: "trim_end s = s"
  show "ws_last s = 0"
  proof (rule ccontr)
    assume n: "ws_last s \<noteq> 0"
    then have "trim_end s = trim_end (take (length s - ws_last s) s)" by (subst trim_end.simps) simp
    with trim_end_prefix [of "take (length s - ws_last s) s"] s
    have "length s \<le> length s - ws_last s" by (metis length_take min.absorb2 diff_le_self prefix_length_le)
    with n ws_last_le [of s] show False by auto
  qed
qed (simp add: trim_end.simps)

lemma trim_start_idle: "ws_head s = 0 \<Longrightarrow> trim_start s = s"
  by (subst trim_start.simps) simp

text \<open>A character that begins a text is no less white space when the text goes on.\<close>

lemma ws_head_append: "ws_head s \<noteq> 0 \<Longrightarrow> ws_head (s @ t) = ws_head s"
proof (induction s rule: ws_head.induct)
  case (2 a b)
  then show ?case by (cases t) (auto split: if_splits)
next
  case (3 a)
  then show ?case by (cases t; cases "tl t") (auto split: if_splits)
qed auto

lemma trim_idem [simp]: "trim (trim s) = trim s"
proof -
  have "ws_head (trim s) = 0"
  proof (rule ccontr)
    assume h: "ws_head (trim s) \<noteq> 0"
    obtain t where "trim_start s = trim s @ t"
      using trim_end_prefix [of "trim_start s"] by (auto simp: trim_def prefix_def)
    with ws_head_append [OF h, of t] ws_head_trim_start [of s] h show False by simp
  qed
  then show ?thesis by (simp add: trim_def trim_start_idle)
qed

lemma trim_Nil [simp]: "trim [] = []"
  by (simp add: trim_def trim_start.simps trim_end.simps ws_last_def)

section \<open>Words between spaces\<close>

definition plain_word :: "bytes \<Rightarrow> bool" where
  "plain_word w \<longleftrightarrow> w \<noteq> [] \<and> (\<forall>c \<in> set w. 33 \<le> byte_val c \<and> byte_val c < 128)"

lemma ws_head_space: "ws_head (CHR '' '' # s) = 1"
  by (cases s; cases "tl s") auto

lemma field_end_word:
  "\<forall>c \<in> set w. 33 \<le> byte_val c \<and> byte_val c < 128 \<Longrightarrow> field_end (w @ CHR '' '' # s) = length w"
  "\<forall>c \<in> set w. 33 \<le> byte_val c \<and> byte_val c < 128 \<Longrightarrow> field_end w = length w"
  by (induction w) (simp_all add: ws_head_plain ws_head_space)

lemma trim_start_word: "plain_word w \<Longrightarrow> trim_start (w @ s) = w @ s"
  by (cases w) (simp_all add: plain_word_def ws_head_plain trim_start_idle)

lemma trim_start_space: "trim_start (CHR '' '' # s) = trim_start s"
  by (subst trim_start.simps) (simp add: ws_head_space)

lemma split_whitespace_space [simp]: "split_whitespace (CHR '' '' # s) = split_whitespace s"
  by (subst (1 2) split_whitespace.simps) (simp add: trim_start_space)

lemma split_whitespace_word:
  assumes "plain_word w"
  shows "split_whitespace (w @ CHR '' '' # s) = w # split_whitespace s" "split_whitespace w = [w]"
proof -
  have w: "w \<noteq> []" "field_end (w @ CHR '' '' # s) = length w" "field_end w = length w"
    using assms by (simp_all add: plain_word_def field_end_word)
  show "split_whitespace (w @ CHR '' '' # s) = w # split_whitespace s"
    using w trim_start_word [OF assms, of "CHR '' '' # s"] by (subst split_whitespace.simps) (simp add: Let_def)
  show "split_whitespace w = [w]"
    using w trim_start_word [OF assms, of "[]"]
    by (subst split_whitespace.simps) (simp add: Let_def, simp add: split_whitespace.simps trim_start.simps)
qed

section \<open>Lines\<close>

lemma split_on_app: "split_on c (s @ c # t) = split_on c s @ split_on c t"
proof (induction s)
  case (Cons a s)
  obtain l ls where "split_on c s = l # ls" by (meson split_on_ne neq_Nil_conv)
  with Cons show ?case by auto
qed simp

lemma text_lines_append:
  "text_lines (s @ CHR 0x0A # t) = text_lines (s @ [CHR 0x0A]) @ text_lines t"
proof -
  have "split_on (CHR 0x0A) (s @ [CHR 0x0A]) = split_on (CHR 0x0A) s @ [[]]" using split_on_app [of _ s "[]"] by simp
  then show ?thesis by (simp add: text_lines_def Let_def split_on_app butlast_append)
qed

lemma text_lines_one: "CHR 0x0A \<notin> set l \<Longrightarrow> l = [] \<or> last l \<noteq> CHR 0x0D \<Longrightarrow> text_lines (l @ [CHR 0x0A]) = [l]"
  by (auto simp: text_lines_def strip_cr_def Let_def)

lemma text_lines_Nil [simp]: "text_lines [] = []"
  by (simp add: text_lines_def)

text \<open>A line feed that ends a text whose last line had none adds no line, unless the line had a carriage return.\<close>

lemma text_lines_ended:
  assumes "s \<noteq> []" "last s \<noteq> CHR 0x0A" "last s \<noteq> CHR 0x0D"
  shows "text_lines (s @ [CHR 0x0A]) = text_lines s"
proof -
  let ?ls = "split_on (CHR 0x0A) s"
  have l: "last ?ls \<noteq> [] \<and> last (last ?ls) = last s"
    using assms(1,2)
  proof (induction s)
    case (Cons a s)
    obtain l ls where ls: "split_on (CHR 0x0A) s = l # ls" by (meson split_on_ne neq_Nil_conv)
    show ?case
    proof (cases "s = []")
      case True
      with Cons.prems show ?thesis by simp
    next
      case False
      with Cons have "last (l # ls) \<noteq> [] \<and> last (last (l # ls)) = last s" using ls by simp
      with False ls show ?thesis by (cases ls) auto
    qed
  qed simp
  obtain xs x where x: "?ls = xs @ [x]" using split_on_ne [of "CHR 0x0A" s] by (metis rev_exhaust)
  have "split_on (CHR 0x0A) (s @ [CHR 0x0A]) = xs @ [x] @ [[]]" using split_on_app [of _ s "[]"] x by simp
  moreover have "strip_cr x = x" "x \<noteq> []" using l assms(3) x by (simp_all add: strip_cr_def)
  ultimately show ?thesis using x by (simp add: text_lines_def Let_def butlast_append)
qed

end
