(* ===== verification/SqlWrap.thy ===== *)
theory SqlWrap
  imports SqlScan TextOps
begin

text \<open>
  \<^verbatim>\<open>crates/qh-sql/src/wrap.rs\<close>: peeling the terminator off a statement, and the wrapper that counts a
  statement's rows. The wrapper refuses what is not one \<open>SELECT\<close> or \<open>WITH\<close>.

  \<open>count_wraps_one_statement\<close> says what it puts between the parentheses. Two lemmas show where the source's
  arithmetic of semicolons is off: \<open>hidden_terminator_is_counted\<close> (a \<open>;\<close> at the end of a comment is taken for
  the terminator, so two statements count as one) and \<open>third_semicolon_survives\<close>.
\<close>

datatype sql_error = Blank | MultipleStatements nat | NotASelect bytes

fun sql_error_text :: "sql_error \<Rightarrow> bytes" where
  "sql_error_text Blank = ''SQL is required''"
| "sql_error_text (MultipleStatements count) = nat_bytes count @ '' statements; the grid counts one at a time''"
| "sql_error_text (NotASelect keyword) = keyword @ '' cannot be counted; use SELECT or WITH''"

definition drop_trailing_terminator :: "bytes \<Rightarrow> bytes" where
  "drop_trailing_terminator s =
     (let trimmed = trim s in
      if trimmed \<noteq> [] \<and> last trimmed = CHR '';'' then trim_end (butlast trimmed) else trimmed)"

definition strip_terminator_dialect :: "bytes \<Rightarrow> lexer \<Rightarrow> bytes" where
  "strip_terminator_dialect sql lx =
     (let trimmed = trim sql; sc = scan_dialect trimmed lx in
      case separators sc of
        [] \<Rightarrow> if ends_with_terminator sc then drop_trailing_terminator trimmed else trimmed
      | first # _ \<Rightarrow>
          (let head = take first trimmed; rest = drop (first + 1) trimmed in
           if has_significant_text rest lx then trimmed
           else (let rest = drop_trailing_terminator rest; head = trim_end head; rest = trim rest in
                 if rest = [] then head else head @ '' '' @ rest)))"

definition strip_terminator :: "bytes \<Rightarrow> bytes" where
  "strip_terminator sql = strip_terminator_dialect sql (lexer_of Generic)"

definition count_statement_dialect :: "bytes \<Rightarrow> lexer \<Rightarrow> sql_error + bytes" where
  "count_statement_dialect sql lx =
     (let trimmed = trim sql; sc = scan_dialect trimmed lx; count = statement_count trimmed sc lx in
      if count = 0 then Inl Blank
      else if count > 1 then Inl (MultipleStatements count)
      else (case leading_keyword sc of
              None \<Rightarrow> Inl Blank
            | Some keyword \<Rightarrow>
                if keyword = ''SELECT'' \<or> keyword = ''WITH''
                then Inr (''SELECT COUNT(*) FROM ('' @ strip_terminator_dialect trimmed lx @ [CHR 0x0A] @
                       '') AS queryhive_count'')
                else Inl (NotASelect keyword)))"

definition count_statement :: "bytes \<Rightarrow> sql_error + bytes" where
  "count_statement sql = count_statement_dialect sql (lexer_of Generic)"

section \<open>One statement\<close>

lemma strip_terminator_at_end:
  assumes "separators (scan_dialect (trim sql) lx) = [length (trim sql) - 1]"
  shows "strip_terminator_dialect sql lx = trim_end (butlast (trim sql))"
proof -
  have "has_significant_text [] lx = False"
    by (simp add: has_significant_text_def first_significant_def significant_from.simps)
  moreover have "trim sql \<noteq> []"
    using assms in_scan_separators [of "length (trim sql) - 1" "trim sql" lx]
      walked.event_bounds [of _ "trim sql" lx] by force
  ultimately show ?thesis using assms
    by (simp add: strip_terminator_dialect_def drop_trailing_terminator_def butlast_conv_take Let_def)
qed

text \<open>The last byte of a trimmed text is what the scan calls its terminator.\<close>

lemma ends_with_terminator_trim:
  "ends_with_terminator (scan_dialect (trim sql) lx) \<longleftrightarrow> trim sql \<noteq> [] \<and> last (trim sql) = CHR '';''"
  by (simp add: scan_dialect_def Let_def trim_def)

text \<open>
  What the count wrapper sends. When \<open>count_statement\<close> accepts a text whose last \<open>;\<close>, if it ends in one,
  is a separator and not the end of a comment or a string, the text is one statement that starts with
  \<open>SELECT\<close> or \<open>WITH\<close>: it has no separator, or only its own terminator. What goes between the parentheses
  is that statement, trimmed, without the terminator, and a line break follows it.
\<close>
theorem count_wraps_one_statement:
  assumes "count_statement_dialect sql lx = Inr w"
    and "last (trim sql) = CHR '';'' \<Longrightarrow> EvSeparator (length (trim sql) - 1) \<in> set (walk_events (trim sql) lx)"
  shows "\<exists>body. w = ''SELECT COUNT(*) FROM ('' @ body @ [CHR 0x0A] @ '') AS queryhive_count'' \<and>
     leading_keyword_of (trim sql) lx \<in> {Some ''SELECT'', Some ''WITH''} \<and>
     (separators (scan_dialect (trim sql) lx) = [] \<and> body = trim sql \<or>
      separators (scan_dialect (trim sql) lx) = [length (trim sql) - 1] \<and> body = trim_end (butlast (trim sql)))"
proof -
  let ?t = "trim sql" and ?seps = "separators (scan_dialect (trim sql) lx)"
  from assms(1) have c: "statement_count ?t (scan_dialect ?t lx) lx = 1"
    and k: "leading_keyword (scan_dialect ?t lx) \<in> {Some ''SELECT'', Some ''WITH''}"
    and w: "w = ''SELECT COUNT(*) FROM ('' @ strip_terminator_dialect ?t lx @ [CHR 0x0A] @ '') AS queryhive_count''"
    by (auto simp: count_statement_dialect_def Let_def split: option.splits if_splits)
  from k have k': "leading_keyword_of ?t lx \<in> {Some ''SELECT'', Some ''WITH''}"
    by (simp add: scan_dialect_def Let_def)
  show ?thesis
  proof (cases "?seps = []")
    case True
    have "\<not> ends_with_terminator (scan_dialect ?t lx)"
    proof
      assume "ends_with_terminator (scan_dialect ?t lx)"
      with assms(2) have "length ?t - 1 \<in> set ?seps"
        by (simp add: ends_with_terminator_trim in_scan_separators)
      with True show False by simp
    qed
    with True have "strip_terminator_dialect ?t lx = ?t" by (simp add: strip_terminator_dialect_def Let_def)
    with True w k' show ?thesis by blast
  next
    case False
    with c have e: "ends_with_terminator (scan_dialect ?t lx)" "length ?seps = 1"
      by (auto simp: statement_count_def split: if_splits)
    with assms(2) have "length ?t - 1 \<in> set ?seps"
      by (simp add: ends_with_terminator_trim in_scan_separators)
    with e(2) have s: "?seps = [length ?t - 1]" by (auto simp: length_Suc_conv)
    with strip_terminator_at_end [of ?t lx] have "strip_terminator_dialect ?t lx = trim_end (butlast ?t)" by simp
    with s w k' show ?thesis by blast
  qed
qed

theorem count_wraps_one_statement_witness:
  "\<exists>body. ''SELECT COUNT(*) FROM (SELECT 1'' @ [CHR 0x0A] @ '') AS queryhive_count'' =
       ''SELECT COUNT(*) FROM ('' @ body @ [CHR 0x0A] @ '') AS queryhive_count'' \<and>
     leading_keyword_of (trim '' SELECT 1 ; '') MYSQL \<in> {Some ''SELECT'', Some ''WITH''} \<and>
     (separators (scan_dialect (trim '' SELECT 1 ; '') MYSQL) = [] \<and> body = trim '' SELECT 1 ; '' \<or>
      separators (scan_dialect (trim '' SELECT 1 ; '') MYSQL) = [length (trim '' SELECT 1 ; '') - 1] \<and>
        body = trim_end (butlast (trim '' SELECT 1 ; '')))"
proof (rule count_wraps_one_statement)
  show "count_statement_dialect '' SELECT 1 ; '' MYSQL =
      Inr (''SELECT COUNT(*) FROM (SELECT 1'' @ [CHR 0x0A] @ '') AS queryhive_count'')" by code_simp
  show "EvSeparator (length (trim '' SELECT 1 ; '') - 1) \<in> set (walk_events (trim '' SELECT 1 ; '') MYSQL)"
    by code_simp
qed

section \<open>Where the semicolons are miscounted\<close>

lemma hidden_terminator_is_counted:
  "separators (scan_dialect ''SELECT 1; SELECT 2 -- x;'' GENERIC) = [8] \<and>
   statement_count ''SELECT 1; SELECT 2 -- x;'' (scan_dialect ''SELECT 1; SELECT 2 -- x;'' GENERIC) GENERIC = 1"
  by code_simp

lemma second_statement_is_wrapped:
  "count_statement ''SELECT 1; SELECT 2 -- x;'' =
     Inr (''SELECT COUNT(*) FROM (SELECT 1; SELECT 2 -- x;'' @ [CHR 0x0A] @ '') AS queryhive_count'')"
  by code_simp

lemma third_semicolon_survives:
  "strip_terminator ''SELECT 1;;'' = ''SELECT 1'' \<and> strip_terminator ''SELECT 1;;;'' = ''SELECT 1 ;''"
  by code_simp

end
