(* ===== verification/CivilDate.thy ===== *)
theory CivilDate
  imports Main "HOL-Library.Signed_Division"
begin

text \<open>
  The calendar arithmetic of the engine: \<open>civil_from_days\<close> of \<^verbatim>\<open>crates/qh-core/src/render.rs\<close> and
  \<open>days_from_civil\<close>, of which the MySQL, PostgreSQL and Trino drivers have a copy each. Both are Howard
  Hinnant's, in \<open>i64\<close> with a division that truncates (\<open>sdiv\<close>); the values stay far from the ends of the type
  for every date a driver can send, so the integers are unbounded here.

  The reference is the Gregorian calendar itself: \<open>next_day\<close> steps from a date to the one after it by the
  lengths of the months and the rule of leap years. \<open>civil_calendar\<close> says that day number 0 is 1 January
  1970 and that the date of the next number is the next day, and \<open>days_of_civil\<close> that the drivers' function
  is the inverse.
\<close>

section \<open>The code\<close>

definition civil_from_days :: "int \<Rightarrow> int \<times> int \<times> int" where
  "civil_from_days d =
     (let days = d + 719468;
          era = (if days \<ge> 0 then days else days - 146096) sdiv 146097;
          day_of_era = days - era * 146097;
          year_of_era = (day_of_era - day_of_era sdiv 1460 + day_of_era sdiv 36524 - day_of_era sdiv 146096) sdiv 365;
          year = year_of_era + era * 400;
          day_of_year = day_of_era - (365 * year_of_era + year_of_era sdiv 4 - year_of_era sdiv 100);
          month_prime = (5 * day_of_year + 2) sdiv 153;
          day = day_of_year - (153 * month_prime + 2) sdiv 5 + 1;
          month = (if month_prime < 10 then month_prime + 3 else month_prime - 9)
      in (if month \<le> 2 then year + 1 else year, month, day))"

definition days_from_civil :: "int \<Rightarrow> int \<Rightarrow> int \<Rightarrow> int" where
  "days_from_civil y month day =
     (let year = (if month \<le> 2 then y - 1 else y);
          era = (if year \<ge> 0 then year else year - 399) sdiv 400;
          year_of_era = year - era * 400;
          month_prime = (if month > 2 then month - 3 else month + 9);
          day_of_year = (153 * month_prime + 2) sdiv 5 + day - 1;
          day_of_era = year_of_era * 365 + year_of_era sdiv 4 - year_of_era sdiv 100 + day_of_year
      in era * 146097 + day_of_era - 719468)"

section \<open>The calendar\<close>

definition leap_year :: "int \<Rightarrow> bool" where
  "leap_year y \<longleftrightarrow> y mod 4 = 0 \<and> (y mod 100 \<noteq> 0 \<or> y mod 400 = 0)"

definition month_length :: "int \<Rightarrow> int \<Rightarrow> int" where
  "month_length y m =
     (if m = 2 then if leap_year y then 29 else 28
      else if m \<in> {4, 6, 9, 11} then 30 else 31)"

definition valid_date :: "int \<Rightarrow> int \<Rightarrow> int \<Rightarrow> bool" where
  "valid_date y m d \<longleftrightarrow> 1 \<le> m \<and> m \<le> 12 \<and> 1 \<le> d \<and> d \<le> month_length y m"

fun next_day :: "int \<times> int \<times> int \<Rightarrow> int \<times> int \<times> int" where
  "next_day (y, m, d) =
     (if d < month_length y m then (y, m, d + 1)
      else if m < 12 then (y, m + 1, 1) else (y + 1, 1, 1))"

section \<open>Days as positions in an era\<close>

text \<open>
  A day is placed in its era of 400 years, which begins on 1 March: century \<open>c\<close>, four-year cycle \<open>q\<close>, year
  \<open>k\<close> and day \<open>doy\<close>. The last year of a cycle is one day longer when the cycle is not the last of its
  century, or the century the last of its era.
\<close>

definition placed :: "int \<Rightarrow> int \<Rightarrow> int \<Rightarrow> int \<Rightarrow> bool" where
  "placed c q k doy \<longleftrightarrow> 0 \<le> c \<and> c \<le> 3 \<and> 0 \<le> q \<and> q \<le> 24 \<and> 0 \<le> k \<and> k \<le> 3 \<and> 0 \<le> doy \<and>
     (doy \<le> 364 \<or> doy = 365 \<and> k = 3 \<and> (q \<le> 23 \<or> c = 3))"

definition day_of :: "int \<Rightarrow> int \<Rightarrow> int \<Rightarrow> int \<Rightarrow> int \<Rightarrow> int" where
  "day_of e c q k doy = 146097 * e + 36524 * c + 1461 * q + 365 * k + doy - 719468"

lemma sdiv_pos: "0 \<le> a \<Longrightarrow> 0 \<le> b \<Longrightarrow> a sdiv b = a div (b::int)"
  by (simp add: signed_divide_int_def sgn_if)

lemma div_eqI: "a = b * q + r \<Longrightarrow> 0 \<le> r \<Longrightarrow> r < b \<Longrightarrow> a div b = (q::int)"
  by simp

lemma sdiv_era:
  assumes "0 < (b::int)" and n: "n = b - 1"
  shows "(if a \<ge> 0 then a else a - n) sdiv b = a div b"
proof (cases "a \<ge> 0")
  case False
  have "(- a - 1) div b = - (a div b) - 1"
  proof (rule div_eqI)
    show "- a - 1 = b * (- (a div b) - 1) + (b - 1 - a mod b)"
      using mult_div_mod_eq [of b a] by (simp add: algebra_simps)
  qed (use assms pos_mod_bound [of b a] pos_mod_sign [of b a] in linarith)+
  moreover have "(- a + (b - 1)) div b = (- a - 1) div b + 1"
    using div_add_self2 [of b "- a - 1"] assms by (simp add: algebra_simps)
  ultimately show ?thesis using False assms by (simp add: n signed_divide_int_def sgn_if)
qed (use assms in \<open>simp add: sdiv_pos\<close>)

definition month_day :: "int \<Rightarrow> int \<times> int" where
  "month_day doy =
     (let mp = (5 * doy + 2) div 153
      in (if mp < 10 then mp + 3 else mp - 9, doy - (153 * mp + 2) div 5 + 1))"

definition dated :: "int \<Rightarrow> int \<times> int \<Rightarrow> int \<times> int \<times> int" where
  "dated y md = (if fst md \<le> 2 then y + 1 else y, fst md, snd md)"

lemma placed_year:
  assumes "placed c q k doy" and doe: "doe = 36524 * c + 1461 * q + 365 * k + doy"
  shows "(doe - doe div 1460 + doe div 36524 - doe div 146096) div 365 = 100 * c + 4 * q + k"
proof -
  let ?s = "365 * k + doy"
  note b = assms(1) [unfolded placed_def]
  from b have s: "0 \<le> ?s" "?s \<le> 1460" "?s = 1460 \<Longrightarrow> q \<le> 23 \<or> c = 3" by auto
  have c: "doe div 36524 - doe div 146096 = c"
  proof (cases "doe = 146096")
    case True
    with b doe s have "c = 3" by linarith
    with True show ?thesis by simp
  next
    case False
    have lt: "1461 * q + ?s < 36524"
    proof (rule ccontr)
      assume "\<not> 1461 * q + ?s < 36524"
      with b s have "q = 24" "?s = 1460" by linarith+
      with s b have "c = 3" by auto
      with False doe \<open>q = 24\<close> \<open>?s = 1460\<close> show False by simp
    qed
    have "doe div 36524 = c" by (rule div_eqI [of _ _ _ "1461 * q + ?s"]) (use lt b s doe in linarith)+
    moreover have "doe div 146096 = 0" by (rule div_eqI [of _ _ _ doe]) (use lt b s doe in linarith)+
    ultimately show ?thesis by simp
  qed
  define \<epsilon> :: int where "\<epsilon> = (if 24 * c + q + ?s \<ge> 1460 then 1 else 0)"
  have "doe div 1460 = 25 * c + q + \<epsilon>"
    by (rule div_eqI [of _ _ _ "24 * c + q + ?s - 1460 * \<epsilon>"]) (use b s doe in \<open>auto simp: \<epsilon>_def\<close>)
  then have "doe - doe div 1460 + doe div 36524 - doe div 146096 = doe - (25 * c + q + \<epsilon>) + c"
    by (simp only: c add_diff_eq [symmetric])
  also have "\<dots> = 365 * (100 * c + 4 * q + k) + (doy - \<epsilon>)" by (simp add: doe)
  finally show ?thesis by (rule div_eqI) (use b in \<open>auto simp: \<epsilon>_def\<close>)
qed

lemma placed_start:
  assumes "placed c q k doy" and "y = 100 * c + 4 * q + k"
  shows "365 * y + y div 4 - y div 100 = 36524 * c + 1461 * q + 365 * k"
proof -
  note b = assms(1) [unfolded placed_def]
  have "y div 4 = 25 * c + q" by (rule div_eqI [of _ _ _ k]) (use b assms(2) in auto)
  moreover have "y div 100 = c" by (rule div_eqI [of _ _ _ "4 * q + k"]) (use b assms(2) in auto)
  ultimately show ?thesis by (simp add: assms(2))
qed

lemma placed_day:
  assumes "placed c q k doy"
  shows "0 \<le> 36524 * c + 1461 * q + 365 * k + doy" "36524 * c + 1461 * q + 365 * k + doy \<le> 146096"
  using assms by (auto simp: placed_def)

lemma civil_placed:
  assumes p: "placed c q k doy"
  shows "civil_from_days (day_of e c q k doy) = dated (400 * e + 100 * c + 4 * q + k) (month_day doy)"
proof -
  define doe where "doe = 36524 * c + 1461 * q + 365 * k + doy"
  define y where "y = 100 * c + 4 * q + k"
  have doe: "0 \<le> doe" "doe \<le> 146096" using placed_day [OF p] by (simp_all add: doe_def)
  have days: "day_of e c q k doy + 719468 = 146097 * e + doe" by (simp add: day_of_def doe_def)
  have e: "(146097 * e + doe) div 146097 = e" by (rule div_eqI [OF refl]) (use doe in linarith)+
  have "(if 146097 * e + doe \<ge> 0 then 146097 * e + doe else 146097 * e + doe - 146096) sdiv 146097 =
      (146097 * e + doe) div 146097"
    by (rule sdiv_era) simp_all
  note era = this [unfolded e]
  have y0: "0 \<le> y" and doy: "0 \<le> doy" using p by (auto simp: placed_def y_def)
  let ?n = "doe - doe div 1460 + doe div 36524 - doe div 146096"
  have eq: "doe - doe sdiv 1460 + doe sdiv 36524 - doe sdiv 146096 = ?n" using doe by (simp only: sdiv_pos zero_le_numeral)
  have year: "?n div 365 = y" unfolding y_def by (rule placed_year [OF p doe_def])
  have "0 \<le> ?n"
  proof -
    have "doe div 146096 \<le> doe div 36524" using doe by (intro zdiv_mono2) auto
    moreover have "doe div 1460 \<le> doe div 1" using doe by (intro zdiv_mono2) auto
    moreover have "b \<le> c \<Longrightarrow> a \<le> d div 1 \<Longrightarrow> 0 \<le> d - a + c - b" for a b c d :: int by simp
    ultimately show ?thesis by blast
  qed
  then have yoe: "(doe - doe sdiv 1460 + doe sdiv 36524 - doe sdiv 146096) sdiv 365 = y"
    by (simp only: eq sdiv_pos zero_le_numeral year)
  have start: "doe - (365 * y + y sdiv 4 - y sdiv 100) = doy"
    using placed_start [OF p y_def] y0 by (simp add: sdiv_pos doe_def)
  have rest: "146097 * e + doe - e * 146097 = doe" by simp
  have month: "(5 * doy + 2) sdiv 153 = (5 * doy + 2) div 153"
    "(153 * ((5 * doy + 2) div 153) + 2) sdiv 5 = (153 * ((5 * doy + 2) div 153) + 2) div 5"
    using doy by (simp_all add: sdiv_pos)
  show ?thesis
    unfolding civil_from_days_def Let_def days era rest yoe start month
    by (simp add: dated_def month_day_def Let_def y_def)
qed

lemma every_day_placed:
  obtains e c q k doy where "placed c q k doy" "d = day_of e c q k doy"
proof -
  define e doe where "e = (d + 719468) div 146097" and "doe = (d + 719468) mod 146097"
  have doe: "0 \<le> doe" "doe \<le> 146096" using pos_mod_bound [of 146097 "d + 719468"] by (simp_all add: doe_def)
  have d: "d = 146097 * e + doe - 719468" using mult_div_mod_eq [of 146097 "d + 719468"] by (simp add: e_def doe_def)
  define c r where "c = min 3 (doe div 36524)" and "r = doe - 36524 * c"
  have c: "0 \<le> c" "c \<le> 3" "0 \<le> r" "r \<le> 36523 \<or> c = 3 \<and> r = 36524"
    using doe by (auto simp: c_def r_def min_def)
  define q s where "q = r div 1461" and "s = r mod 1461"
  have r: "r = 1461 * q + s" by (simp add: q_def s_def)
  have q: "0 \<le> q" "q \<le> 24" "0 \<le> s" "s \<le> 1460" using c by (auto simp: q_def s_def)
  have last: "s = 1460 \<Longrightarrow> q \<le> 23 \<or> c = 3" using c(4) q r by linarith
  define k doy where "k = min 3 (s div 365)" and "doy = s - 365 * k"
  have k: "0 \<le> k" "k \<le> 3" "0 \<le> doy" "doy \<le> 364 \<or> doy = 365 \<and> k = 3 \<and> s = 1460"
    using q by (auto simp: k_def doy_def min_def)
  have "placed c q k doy" using c(1,2) q k last by (auto simp: placed_def)
  moreover have "d = day_of e c q k doy" using d r by (simp add: day_of_def r_def doy_def)
  ultimately show ?thesis by (rule that)
qed

section \<open>The date of the next day\<close>

text \<open>The table the arithmetic stands for.\<close>

lemma month_days:
  "0 \<le> doy \<Longrightarrow> doy < 31 \<Longrightarrow> month_day doy = (3, doy - 0 + 1)"
  "31 \<le> doy \<Longrightarrow> doy < 61 \<Longrightarrow> month_day doy = (4, doy - 31 + 1)"
  "61 \<le> doy \<Longrightarrow> doy < 92 \<Longrightarrow> month_day doy = (5, doy - 61 + 1)"
  "92 \<le> doy \<Longrightarrow> doy < 122 \<Longrightarrow> month_day doy = (6, doy - 92 + 1)"
  "122 \<le> doy \<Longrightarrow> doy < 153 \<Longrightarrow> month_day doy = (7, doy - 122 + 1)"
  "153 \<le> doy \<Longrightarrow> doy < 184 \<Longrightarrow> month_day doy = (8, doy - 153 + 1)"
  "184 \<le> doy \<Longrightarrow> doy < 214 \<Longrightarrow> month_day doy = (9, doy - 184 + 1)"
  "214 \<le> doy \<Longrightarrow> doy < 245 \<Longrightarrow> month_day doy = (10, doy - 214 + 1)"
  "245 \<le> doy \<Longrightarrow> doy < 275 \<Longrightarrow> month_day doy = (11, doy - 245 + 1)"
  "275 \<le> doy \<Longrightarrow> doy < 306 \<Longrightarrow> month_day doy = (12, doy - 275 + 1)"
  "306 \<le> doy \<Longrightarrow> doy < 337 \<Longrightarrow> month_day doy = (1, doy - 306 + 1)"
  "337 \<le> doy \<Longrightarrow> doy < 366 \<Longrightarrow> month_day doy = (2, doy - 337 + 1)"
proof -
  have mp: "month_day doy = (if mp < 10 then mp + 3 else mp - 9, doy - (153 * mp + 2) div 5 + 1)"
    if "153 * mp \<le> 5 * doy + 2" "5 * doy + 2 < 153 * mp + 153" for mp
  proof -
    have "(5 * doy + 2) div 153 = mp" by (rule div_eqI [of _ _ _ "5 * doy + 2 - 153 * mp"]) (use that in simp_all)
    then show ?thesis by (simp add: month_day_def Let_def)
  qed
  show "0 \<le> doy \<Longrightarrow> doy < 31 \<Longrightarrow> month_day doy = (3, doy - 0 + 1)"
    using mp [of 0] by simp
  show "31 \<le> doy \<Longrightarrow> doy < 61 \<Longrightarrow> month_day doy = (4, doy - 31 + 1)"
    using mp [of 1] by simp
  show "61 \<le> doy \<Longrightarrow> doy < 92 \<Longrightarrow> month_day doy = (5, doy - 61 + 1)"
    using mp [of 2] by simp
  show "92 \<le> doy \<Longrightarrow> doy < 122 \<Longrightarrow> month_day doy = (6, doy - 92 + 1)"
    using mp [of 3] by simp
  show "122 \<le> doy \<Longrightarrow> doy < 153 \<Longrightarrow> month_day doy = (7, doy - 122 + 1)"
    using mp [of 4] by simp
  show "153 \<le> doy \<Longrightarrow> doy < 184 \<Longrightarrow> month_day doy = (8, doy - 153 + 1)"
    using mp [of 5] by simp
  show "184 \<le> doy \<Longrightarrow> doy < 214 \<Longrightarrow> month_day doy = (9, doy - 184 + 1)"
    using mp [of 6] by simp
  show "214 \<le> doy \<Longrightarrow> doy < 245 \<Longrightarrow> month_day doy = (10, doy - 214 + 1)"
    using mp [of 7] by simp
  show "245 \<le> doy \<Longrightarrow> doy < 275 \<Longrightarrow> month_day doy = (11, doy - 245 + 1)"
    using mp [of 8] by simp
  show "275 \<le> doy \<Longrightarrow> doy < 306 \<Longrightarrow> month_day doy = (12, doy - 275 + 1)"
    using mp [of 9] by simp
  show "306 \<le> doy \<Longrightarrow> doy < 337 \<Longrightarrow> month_day doy = (1, doy - 306 + 1)"
    using mp [of 10] by simp
  show "337 \<le> doy \<Longrightarrow> doy < 366 \<Longrightarrow> month_day doy = (2, doy - 337 + 1)"
    using mp [of 11] by simp
qed

lemma month_day_ends: "month_day 0 = (3, 1)" "month_day 364 = (2, 28)" "month_day 365 = (2, 29)"
  by (simp_all add: month_days)

lemma leap_placed:
  assumes "placed c q k doy"
  shows "leap_year (400 * e + 100 * c + 4 * q + k + 1) \<longleftrightarrow> k = 3 \<and> (q \<le> 23 \<or> c = 3)"
proof -
  let ?y = "400 * e + 100 * c + 4 * q + k + 1"
  note b = assms [unfolded placed_def]
  have mod_small: "(n * z + w) mod n = w" if "0 \<le> w" "w < n" for n z w :: int using that by simp
  show ?thesis
  proof (cases "k = 3")
    case False
    have "(4 * (100 * e + 25 * c + q) + (k + 1)) mod 4 = k + 1" by (rule mod_small) (use b False in auto)
    moreover have "4 * (100 * e + 25 * c + q) + (k + 1) = ?y" by simp
    ultimately have "?y mod 4 = k + 1" by metis
    with False b show ?thesis by (simp add: leap_year_def)
  next
    case k: True
    have "?y = 4 * (100 * e + 25 * c + q + 1)" by (simp add: k)
    then have 4: "?y mod 4 = 0" by (metis mod_mult_self1_is_0)
    show ?thesis
    proof (cases "q = 24")
      case False
      have "(100 * (4 * e + c) + (4 * q + 4)) mod 100 = 4 * q + 4" by (rule mod_small) (use b False in auto)
      moreover have "100 * (4 * e + c) + (4 * q + 4) = ?y" by (simp add: k)
      ultimately have "?y mod 100 = 4 * q + 4" by metis
      with 4 b k False show ?thesis by (simp add: leap_year_def)
    next
      case q: True
      have "?y = 100 * (4 * e + c + 1)" by (simp add: k q)
      then have 100: "?y mod 100 = 0" by (metis mod_mult_self1_is_0)
      show ?thesis
      proof (cases "c = 3")
        case True
        then have "?y = 400 * (e + 1)" by (simp add: k q)
        then have "?y mod 400 = 0" by (metis mod_mult_self1_is_0)
        with 4 100 k q True show ?thesis by (simp add: leap_year_def)
      next
        case False
        have "(400 * e + (100 * c + 100)) mod 400 = 100 * c + 100" by (rule mod_small) (use b False in auto)
        moreover have "400 * e + (100 * c + 100) = ?y" by (simp add: k q)
        ultimately have "?y mod 400 = 100 * c + 100" by metis
        with 4 100 b k q False show ?thesis by (simp add: leap_year_def)
      qed
    qed
  qed
qed

lemma month_cases:
  fixes doy :: int
  obtains (1) "doy < 31"
    | (2) "31 \<le> doy" "doy < 61"
    | (3) "61 \<le> doy" "doy < 92"
    | (4) "92 \<le> doy" "doy < 122"
    | (5) "122 \<le> doy" "doy < 153"
    | (6) "153 \<le> doy" "doy < 184"
    | (7) "184 \<le> doy" "doy < 214"
    | (8) "214 \<le> doy" "doy < 245"
    | (9) "245 \<le> doy" "doy < 275"
    | (10) "275 \<le> doy" "doy < 306"
    | (11) "306 \<le> doy" "doy < 337"
    | (12) "337 \<le> doy"
  by (simp only: linorder_not_less [symmetric]) blast

lemma next_day_within:
  assumes "0 \<le> doy" "doy < 364"
  shows "next_day (dated y (month_day doy)) = dated y (month_day (doy + 1))"
proof (cases doy rule: month_cases)
    case 1
    with assms show ?thesis by (cases "doy < 30") (simp_all add: month_days dated_def month_length_def)
  next
    case 2
    with assms show ?thesis by (cases "doy < 60") (simp_all add: month_days dated_def month_length_def)
  next
    case 3
    with assms show ?thesis by (cases "doy < 91") (simp_all add: month_days dated_def month_length_def)
  next
    case 4
    with assms show ?thesis by (cases "doy < 121") (simp_all add: month_days dated_def month_length_def)
  next
    case 5
    with assms show ?thesis by (cases "doy < 152") (simp_all add: month_days dated_def month_length_def)
  next
    case 6
    with assms show ?thesis by (cases "doy < 183") (simp_all add: month_days dated_def month_length_def)
  next
    case 7
    with assms show ?thesis by (cases "doy < 213") (simp_all add: month_days dated_def month_length_def)
  next
    case 8
    with assms show ?thesis by (cases "doy < 244") (simp_all add: month_days dated_def month_length_def)
  next
    case 9
    with assms show ?thesis by (cases "doy < 274") (simp_all add: month_days dated_def month_length_def)
  next
    case 10
    with assms show ?thesis by (cases "doy < 305") (simp_all add: month_days dated_def month_length_def)
  next
    case 11
    with assms show ?thesis by (cases "doy < 336") (simp_all add: month_days dated_def month_length_def)
  next
    case 12
    with assms show ?thesis by (simp add: month_days dated_def month_length_def)
qed

lemma next_placed:
  assumes p: "placed c q k doy"
  obtains e' c' q' k' doy' where "placed c' q' k' doy'"
    "day_of e' c' q' k' doy' = day_of e c q k doy + 1"
    "dated (400 * e' + 100 * c' + 4 * q' + k') (month_day doy') =
       next_day (dated (400 * e + 100 * c + 4 * q + k) (month_day doy))"
proof -
  note b = p [unfolded placed_def]
  note leap = leap_placed [OF p, of e]
  consider "doy < 364" | "doy = 364" "k = 3" "q \<le> 23 \<or> c = 3" | "doy = 364" "k < 3"
    | "doy = 364" "k = 3" "q = 24" "c < 3" | "doy = 365" "q \<le> 23" | "doy = 365" "q = 24" "c = 3"
    using b by linarith
  then show ?thesis
  proof cases
    case 1
    with b next_day_within [of doy] show ?thesis
      by (intro that [of c q k "doy + 1" e]) (auto simp: placed_def day_of_def)
  next
    case 2
    with b leap show ?thesis
      by (intro that [of c q k 365 e]) (auto simp: placed_def day_of_def month_day_ends dated_def month_length_def)
  next
    case 3
    with b leap show ?thesis
      by (intro that [of c q "k + 1" 0 e]) (auto simp: placed_def day_of_def month_day_ends dated_def month_length_def)
  next
    case 4
    with b leap show ?thesis
      by (intro that [of "c + 1" 0 0 0 e]) (auto simp: placed_def day_of_def month_day_ends dated_def month_length_def)
  next
    case 5
    with b leap show ?thesis
      by (intro that [of c "q + 1" 0 0 e]) (auto simp: placed_def day_of_def month_day_ends dated_def month_length_def)
  next
    case 6
    with b leap show ?thesis
      by (intro that [of 0 0 0 0 "e + 1"]) (auto simp: placed_def day_of_def month_day_ends dated_def month_length_def)
  qed
qed

lemma civil_next: "civil_from_days (d + 1) = next_day (civil_from_days d)"
proof -
  obtain e c q k doy where p: "placed c q k doy" "d = day_of e c q k doy" by (rule every_day_placed)
  obtain e' c' q' k' doy' where n: "placed c' q' k' doy'" "day_of e' c' q' k' doy' = day_of e c q k doy + 1"
    "dated (400 * e' + 100 * c' + 4 * q' + k') (month_day doy') =
       next_day (dated (400 * e + 100 * c + 4 * q + k) (month_day doy))"
    by (rule next_placed [OF p(1), of e])
  show ?thesis using civil_placed [OF n(1), of e'] civil_placed [OF p(1), of e] n p(2) by simp
qed

lemma civil_epoch: "civil_from_days 0 = (1970, 1, 1)"
  by code_simp

section \<open>The inverse\<close>

definition day_of_year :: "int \<Rightarrow> int \<Rightarrow> int" where
  "day_of_year m d = (153 * (if m > 2 then m - 3 else m + 9) + 2) div 5 + d - 1"

lemma day_of_month_day:
  assumes "0 \<le> doy" "doy \<le> 365"
  shows "day_of_year (fst (month_day doy)) (snd (month_day doy)) = doy"
  using assms by (cases doy rule: month_cases) (simp_all add: month_days day_of_year_def)

lemma month_day_valid:
  assumes "0 \<le> doy" "doy \<le> 365" "doy = 365 \<Longrightarrow> leap_year (y + 1)"
  shows "case dated y (month_day doy) of (y, m, d) \<Rightarrow> valid_date y m d"
proof (cases "doy = 365")
  case True
  with assms(3) show ?thesis by (simp add: month_day_ends dated_def valid_date_def month_length_def)
next
  case False
  with assms(2) have "doy \<le> 364" by simp
  with assms(1) show ?thesis
    by (cases doy rule: month_cases) (simp_all add: month_days dated_def valid_date_def month_length_def)
qed

lemma month_day_of_year:
  assumes "valid_date y m d"
  shows "month_day (day_of_year m d) = (m, d)" "0 \<le> day_of_year m d" "day_of_year m d \<le> 365"
    "day_of_year m d = 365 \<Longrightarrow> m = 2 \<and> leap_year y"
proof -
  from assms have b: "1 \<le> m" "m \<le> 12" "1 \<le> d" "d \<le> month_length y m" by (simp_all add: valid_date_def)
  from b(1,2) have "m = 1 \<or> m = 2 \<or> m = 3 \<or> m = 4 \<or> m = 5 \<or> m = 6 \<or> m = 7 \<or> m = 8 \<or> m = 9 \<or>
      m = 10 \<or> m = 11 \<or> m = 12" by presburger
  then have "month_day (day_of_year m d) = (m, d) \<and> 0 \<le> day_of_year m d \<and> day_of_year m d \<le> 365 \<and>
      (day_of_year m d = 365 \<longrightarrow> m = 2 \<and> leap_year y)"
    using b(3,4) by (elim disjE) (simp_all add: day_of_year_def month_days month_length_def split: if_splits)
  then show "month_day (day_of_year m d) = (m, d)" "0 \<le> day_of_year m d" "day_of_year m d \<le> 365"
    "day_of_year m d = 365 \<Longrightarrow> m = 2 \<and> leap_year y" by simp_all
qed

lemma days_placed:
  assumes p: "placed c q k (day_of_year m d)" and m: "1 \<le> m" "m \<le> 12"
    and y: "(if m \<le> 2 then y - 1 else y) = 400 * e + 100 * c + 4 * q + k"
  shows "days_from_civil y m d = day_of e c q k (day_of_year m d)"
proof -
  note b = p [unfolded placed_def]
  define z where "z = 100 * c + 4 * q + k"
  have z: "0 \<le> z" "z < 400" using b by (auto simp: z_def)
  have year: "(if m \<le> 2 then y - 1 else y) = 400 * e + z" using y by (simp add: z_def)
  have "(if 400 * e + z \<ge> 0 then 400 * e + z else 400 * e + z - 399) sdiv 400 = (400 * e + z) div 400"
    by (rule sdiv_era) simp_all
  also have "\<dots> = e" by (rule div_eqI [OF refl z])
  finally have era: "(if 400 * e + z \<ge> 0 then 400 * e + z else 400 * e + z - 399) sdiv 400 = e" .
  have doy: "(153 * (if m > 2 then m - 3 else m + 9) + 2) sdiv 5 + d - 1 = day_of_year m d"
    using m by (simp add: day_of_year_def sdiv_pos)
  show ?thesis
    unfolding days_from_civil_def Let_def year era doy
    using placed_start [OF p z_def] z by (simp add: sdiv_pos day_of_def)
qed

lemma days_of_civil:
  "case civil_from_days n of (y, m, d) \<Rightarrow> valid_date y m d \<and> days_from_civil y m d = n"
proof -
  obtain e c q k doy where p: "placed c q k doy" "n = day_of e c q k doy" by (rule every_day_placed)
  note b = p(1) [unfolded placed_def]
  let ?y = "400 * e + 100 * c + 4 * q + k"
  obtain m d where md: "month_day doy = (m, d)" by (cases "month_day doy")
  have doy: "0 \<le> doy" "doy \<le> 365" using b by auto
  have "day_of_year m d = doy" using day_of_month_day [OF doy] md by simp
  moreover have v: "case dated ?y (m, d) of (y, m, d) \<Rightarrow> valid_date y m d"
    using month_day_valid [OF doy, of ?y] leap_placed [OF p(1), of e] b md by auto
  moreover have "days_from_civil (if m \<le> 2 then ?y + 1 else ?y) m d = day_of e c q k (day_of_year m d)"
    by (rule days_placed) (use p(1) calculation v in \<open>auto simp: dated_def valid_date_def\<close>)
  ultimately show ?thesis using civil_placed [OF p(1), of e] p(2) md by (simp add: dated_def)
qed

lemma civil_of_days:
  assumes v: "valid_date y m d"
  shows "civil_from_days (days_from_civil y m d) = (y, m, d)"
proof -
  let ?Y = "if m \<le> 2 then y - 1 else y"
  define e r where "e = ?Y div 400" and "r = ?Y mod 400"
  define c q k where "c = r div 100" and "q = r mod 100 div 4" and "k = r mod 4"
  have r: "0 \<le> r" "r < 400" and Y: "?Y = 400 * e + r" by (simp_all add: r_def e_def)
  have qk: "r mod 100 = 4 * q + k"
  proof -
    have "k = r mod 100 mod 4" by (simp add: k_def mod_mod_cancel)
    then show ?thesis by (simp add: q_def)
  qed
  then have rr: "r = 100 * c + 4 * q + k" using mult_div_mod_eq [of 100 r] by (simp add: c_def)
  have k: "0 \<le> k" "k \<le> 3" using pos_mod_bound [of 4 r] by (simp_all add: k_def)
  have q: "0 \<le> q" "q \<le> 24" using pos_mod_bound [of 100 r] pos_mod_sign [of 100 r] qk k by linarith+
  have "0 \<le> c" "c < 4" using r rr q k by linarith+
  then have c: "0 \<le> c" "c \<le> 3" by auto
  note md = month_day_of_year [OF v]
  have p0: "placed c q k 0" using c q k by (simp add: placed_def)
  have leap: "k = 3 \<and> (q \<le> 23 \<or> c = 3)" if "day_of_year m d = 365"
    using leap_placed [OF p0, of e] md(4) [OF that] Y rr by (simp add: algebra_simps)
  have p: "placed c q k (day_of_year m d)"
    using md(2,3) leap c q k by (cases "day_of_year m d = 365") (auto simp: placed_def)
  have "days_from_civil y m d = day_of e c q k (day_of_year m d)"
    using v by (intro days_placed [OF p]) (use Y rr in \<open>auto simp: valid_date_def\<close>)
  with civil_placed [OF p, of e] md(1) Y rr show ?thesis by (auto simp: dated_def split: if_splits)
qed

section \<open>Properties\<close>

text \<open>
  The engine's calendar is the Gregorian one, for every day number: day 0 is 1 January 1970, the date
  of the number after \<open>n\<close> is the day after the date of \<open>n\<close>, by the lengths of the months and the rule of
  leap years, and the date of every number is one the calendar has.
\<close>
theorem civil_calendar:
  "civil_from_days 0 = (1970, 1, 1) \<and> civil_from_days (n + 1) = next_day (civil_from_days n) \<and>
   (case civil_from_days n of (y, m, d) \<Rightarrow> valid_date y m d)"
  using civil_epoch civil_next [of n] days_of_civil [of n] by (auto split: prod.splits)

text \<open>
  A date is the same on both sides of the engine: what a driver reads as a number of days and the engine
  writes as a date is the date the server sent, whenever the calendar has it, and a number of days written
  and read back is that number.
\<close>
theorem dates_round_trip:
  "(\<forall>y m d. valid_date y m d \<longrightarrow> civil_from_days (days_from_civil y m d) = (y, m, d)) \<and>
   (\<forall>n. (case civil_from_days n of (y, m, d) \<Rightarrow> days_from_civil y m d) = n)"
  using civil_of_days days_of_civil by (fastforce split: prod.splits)

theorem dates_round_trip_witness: "civil_from_days (days_from_civil 2000 2 29) = (2000, 2, 29)"
  by (rule dates_round_trip [THEN conjunct1, rule_format])
     (simp add: valid_date_def month_length_def leap_year_def)

end
