(* ===== verification/Values.thy ===== *)
theory Values
  imports CivilDate TextOps "HOL-Library.AList"
begin

text \<open>
  The value a driver hands upward (\<^verbatim>\<open>crates/qh-core/src/value.rs\<close>) and its text and JSON forms
  (\<^verbatim>\<open>crates/qh-core/src/render.rs\<close>).

  The machine integers of a value are the unbounded integers they denote; the ranges of the types are
  hypotheses where a lemma needs them. A float is what the standard library says of it: whether it is a
  NaN, an infinity or a zero, and otherwise the exponent of its leading digit and its two printed forms.
  A \<open>write_\<close> function of the source that only appends is the text it appends; \<open>write_interval\<close> looks at the
  buffer it appends to, so it takes the buffer.
\<close>

section \<open>Values\<close>

record interval_value =
  iv_months :: int
  iv_days :: int
  iv_micros :: int

record finite_float =
  ff_magnitude :: int
  ff_display :: bytes
  ff_exp :: bytes

datatype f64 = FNan | FInf bool | FZero bool | FFinite finite_float

datatype sql_value =
    VNull
  | VBool bool
  | VInt int
  | VUInt int
  | VFloat f64
  | VDecimal int nat
  | VText bytes
  | VBytes bytes
  | VTimestamp int "int option"
  | VDate int
  | VTime int
  | VInterval interval_value
  | VJson bytes
  | VArray "sql_value list"
  | VRow "sql_value list"
  | VMap "(sql_value \<times> sql_value) list"
  | VUnknown bytes "bytes option" "bytes option"

definition unknown_text :: "bytes \<Rightarrow> bytes \<Rightarrow> sql_value" where
  "unknown_text type_name s = VUnknown type_name (Some s) None"

definition unknown_bytes :: "bytes \<Rightarrow> bytes \<Rightarrow> sql_value" where
  "unknown_bytes type_name raw = VUnknown type_name None (Some raw)"

definition is_null :: "sql_value \<Rightarrow> bool" where
  "is_null v \<longleftrightarrow> v = VNull"

text \<open>\<open>utf8\<close> is \<open>str::from_utf8\<close> being \<open>Ok\<close>.\<close>

definition unsupported :: "(bytes \<Rightarrow> bool) \<Rightarrow> bytes \<Rightarrow> bytes \<Rightarrow> sql_value" where
  "unsupported utf8 type_name raw =
     (if utf8 raw then unknown_text type_name raw else unknown_bytes type_name raw)"

section \<open>Numbers\<close>

definition scientific_text :: "bytes \<Rightarrow> bytes" where
  "scientific_text rusty =
     (case split_once (CHR ''e'') rusty of
        None \<Rightarrow> rusty
      | Some (mantissa, exponent) \<Rightarrow>
          (case exponent of
             CHR ''-'' # rest \<Rightarrow> mantissa @ ''e-'' @ pad_zeros 2 rest
           | _ \<Rightarrow> mantissa @ ''e+'' @ pad_zeros 2 exponent))"

fun float_text :: "f64 \<Rightarrow> bytes" where
  "float_text FNan = ''nan''"
| "float_text (FInf negative) = (if negative then ''-inf'' else ''inf'')"
| "float_text (FZero negative) = (if negative then ''-0.0'' else ''0.0'')"
| "float_text (FFinite f) =
     (if \<not> (- 4 \<le> ff_magnitude f \<and> ff_magnitude f < 16) then scientific_text (ff_exp f)
      else if contains_byte (CHR ''.'') (ff_display f) then ff_display f else ff_display f @ ''.0'')"

definition decimal_text :: "int \<Rightarrow> nat \<Rightarrow> bytes" where
  "decimal_text unscaled scale =
     (if scale = 0 then int_bytes unscaled
      else (let digits = nat_bytes (nat \<bar>unscaled\<bar>) in
        (if unscaled < 0 then ''-'' else []) @
        (if length digits \<le> scale then ''0.'' @ replicate (scale - length digits) (CHR ''0'') @ digits
         else take (length digits - scale) digits @ ''.'' @ drop (length digits - scale) digits)))"

section \<open>Dates and times\<close>

definition date_text :: "int \<Rightarrow> bytes" where
  "date_text days =
     (case civil_from_days days of (year, month, day) \<Rightarrow>
        int_pad 4 year @ ''-'' @ int_pad 2 month @ ''-'' @ int_pad 2 day)"

definition time_text :: "int \<Rightarrow> bytes" where
  "time_text micros =
     (let m = nat \<bar>micros\<bar>; seconds_of_day = m div 1000000; fraction = m mod 1000000 in
      (if micros < 0 then ''-'' else []) @
      nat_pad 2 (seconds_of_day div 3600) @ '':'' @ nat_pad 2 (seconds_of_day mod 3600 div 60) @ '':'' @
      nat_pad 2 (seconds_of_day mod 60) @
      (if fraction \<noteq> 0 then ''.'' @ nat_pad 6 fraction else []))"

definition offset_text :: "int \<Rightarrow> bytes" where
  "offset_text offset =
     (let secs = nat \<bar>offset\<bar> in
      (if offset < 0 then ''-'' else ''+'') @ nat_pad 2 (secs div 3600) @ '':'' @ nat_pad 2 (secs mod 3600 div 60))"

definition timestamp_text :: "int \<Rightarrow> int option \<Rightarrow> bytes" where
  "timestamp_text micros offset_secs =
     (let wall = (case offset_secs of Some offset \<Rightarrow> micros + offset * 1000000 | None \<Rightarrow> micros) in
      date_text (wall div 86400000000) @ '' '' @ time_text (wall mod 86400000000) @
      (case offset_secs of Some offset \<Rightarrow> offset_text offset | None \<Rightarrow> []))"

definition counted :: "int \<Rightarrow> bytes \<Rightarrow> bytes" where
  "counted n unit_name = int_bytes n @ '' '' @ unit_name @ (if \<bar>n\<bar> = 1 then [] else ''s'')"

definition write_interval :: "interval_value \<Rightarrow> bytes \<Rightarrow> bytes" where
  "write_interval i out =
     (let out = (if iv_months i \<noteq> 0 then out @ counted (iv_months i) ''month'' else out);
          out = (if iv_days i \<noteq> 0
                 then (if out \<noteq> [] then out @ '', '' else out) @ counted (iv_days i) ''day'' else out);
          magnitude = nat \<bar>iv_micros i\<bar>; seconds = magnitude div 1000000; sub_second = magnitude mod 1000000;
          clock = nat_bytes (seconds div 3600) @ '':'' @ nat_pad 2 (seconds div 60 mod 60) @ '':'' @
            nat_pad 2 (seconds mod 60) @ (if sub_second = 0 then [] else ''.'' @ nat_pad 6 sub_second)
      in (if out \<noteq> [] then out @ '', '' else out) @ (if iv_micros i < 0 then ''-'' else []) @ clock)"

section \<open>Bytes and JSON strings\<close>

definition hex_digit :: "nat \<Rightarrow> byte" where
  "hex_digit n = ''0123456789abcdef'' ! n"

definition hex_byte :: "byte \<Rightarrow> bytes" where
  "hex_byte c = [hex_digit (byte_val c div 16), hex_digit (byte_val c mod 16)]"

definition hex_encode :: "bytes \<Rightarrow> bytes" where
  "hex_encode s = concat (map hex_byte s)"

text \<open>\<open>char::to_digit(16)\<close>, which reads the digits back.\<close>

definition hex_value :: "byte \<Rightarrow> nat option" where
  "hex_value c =
     (let v = byte_val c in
      if 48 \<le> v \<and> v \<le> 57 then Some (v - 48)
      else if 97 \<le> v \<and> v \<le> 102 then Some (v - 87)
      else if 65 \<le> v \<and> v \<le> 70 then Some (v - 55) else None)"

lemma hex_value_digit:
  assumes "n < 16"
  shows "hex_value (hex_digit n) = Some n"
proof -
  have "list_all (\<lambda>n. hex_value (hex_digit n) = Some n) [0..<16]" by code_simp
  with assms show ?thesis by (simp add: list_all_iff)
qed

lemma hex_byte_values:
  "hex_value (hex_digit (byte_val c div 16)) = Some (byte_val c div 16)"
  "hex_value (hex_digit (byte_val c mod 16)) = Some (byte_val c mod 16)"
  "char_of (byte_val c div 16 * 16 + byte_val c mod 16) = c"
  by (simp_all add: hex_value_digit less_mult_imp_div_less) (simp add: byte_val_def)

definition json_escape :: "byte \<Rightarrow> bytes" where
  "json_escape c =
     (if c = CHR 0x22 then [CHR 0x5C, CHR 0x22]
      else if c = CHR 0x5C then [CHR 0x5C, CHR 0x5C]
      else if c = CHR 0x0A then [CHR 0x5C, CHR ''n'']
      else if c = CHR 0x0D then [CHR 0x5C, CHR ''r'']
      else if c = CHR 0x09 then [CHR 0x5C, CHR ''t'']
      else if c = CHR 0x08 then [CHR 0x5C, CHR ''b'']
      else if c = CHR 0x0C then [CHR 0x5C, CHR ''f'']
      else if byte_val c < 32 then CHR 0x5C # ''u00'' @ hex_byte c
      else [c])"

definition json_string :: "bytes \<Rightarrow> bytes" where
  "json_string s = CHR 0x22 # concat (map json_escape s) @ [CHR 0x22]"

section \<open>The text of a value\<close>

text \<open>
  \<open>write_text\<close> appends to \<open>out\<close>. \<open>write_items\<close> and \<open>write_entries\<close> are the loops of \<open>write_json_array\<close> and
  \<open>write_json_map\<close>, with whether an item came before. \<open>write_scalar\<close> is the part of \<open>write_text\<close> without
  nested values, which \<open>write_json_like\<close> calls on a buffer of its own.
\<close>

fun write_scalar :: "sql_value \<Rightarrow> bytes \<Rightarrow> bytes" where
  "write_scalar VNull out = out"
| "write_scalar (VBool flag) out = out @ (if flag then ''true'' else ''false'')"
| "write_scalar (VInt n) out = out @ int_bytes n"
| "write_scalar (VUInt n) out = out @ int_bytes n"
| "write_scalar (VFloat x) out = out @ float_text x"
| "write_scalar (VDecimal u s) out = out @ decimal_text u s"
| "write_scalar (VText s) out = out @ s"
| "write_scalar (VBytes s) out = out @ hex_encode s"
| "write_scalar (VTimestamp m off) out = out @ timestamp_text m off"
| "write_scalar (VDate d) out = out @ date_text d"
| "write_scalar (VTime m) out = out @ time_text m"
| "write_scalar (VInterval i) out = write_interval i out"
| "write_scalar (VJson s) out = out @ s"
| "write_scalar (VUnknown n s r) out =
     (case s of Some s \<Rightarrow> out @ s | None \<Rightarrow> (case r of Some r \<Rightarrow> out @ hex_encode r | None \<Rightarrow> out))"
| "write_scalar v out = out"

function write_text :: "sql_value \<Rightarrow> bytes \<Rightarrow> bytes"
  and write_json_like :: "sql_value \<Rightarrow> bytes \<Rightarrow> bytes"
  and write_items :: "bool \<Rightarrow> sql_value list \<Rightarrow> bytes \<Rightarrow> bytes"
  and write_entries :: "bool \<Rightarrow> (sql_value \<times> sql_value) list \<Rightarrow> bytes \<Rightarrow> bytes" where
  "write_text v out =
     (case v of
        VArray vs \<Rightarrow> write_items False vs (out @ ''['') @ '']''
      | VRow vs \<Rightarrow> write_items False vs (out @ ''['') @ '']''
      | VMap es \<Rightarrow> write_entries False es (out @ ''{'') @ ''}''
      | _ \<Rightarrow> write_scalar v out)"
| "write_json_like v out =
     (case v of
        VArray vs \<Rightarrow> write_items False vs (out @ ''['') @ '']''
      | VRow vs \<Rightarrow> write_items False vs (out @ ''['') @ '']''
      | VMap es \<Rightarrow> write_entries False es (out @ ''{'') @ ''}''
      | VNull \<Rightarrow> out @ ''null''
      | VBool flag \<Rightarrow> out @ (if flag then ''true'' else ''false'')
      | VInt n \<Rightarrow> out @ int_bytes n
      | VUInt n \<Rightarrow> out @ int_bytes n
      | VFloat x \<Rightarrow> out @ float_text x
      | _ \<Rightarrow> out @ json_string (write_scalar v []))"
| "write_items follows [] out = out"
| "write_items follows (v # vs) out = write_items True vs (write_json_like v (if follows then out @ '', '' else out))"
| "write_entries follows [] out = out"
| "write_entries follows ((k, v) # es) out =
     write_entries True es
       (write_json_like v ((if follows then out @ '', '' else out) @
          json_string (if is_null k then [] else write_text k []) @ '': ''))"
  by pat_completeness auto
termination
  by (relation "measure (\<lambda>x. case x of
        Inl (Inl (v, out)) \<Rightarrow> size v
      | Inl (Inr (v, out)) \<Rightarrow> size v
      | Inr (Inl (follows, vs, out)) \<Rightarrow> size_list size vs
      | Inr (Inr (follows, es, out)) \<Rightarrow> size_list (size_prod size size) es)") simp_all

declare write_text.simps [simp del] write_json_like.simps [simp del]

definition to_text :: "sql_value \<Rightarrow> bytes option" where
  "to_text v = (if is_null v then None else Some (write_text v []))"

section \<open>The JSON form of a value\<close>

datatype json = JNull | JBool bool | JInt int | JFloat f64 | JText bytes | JArray "json list"
  | JObject "(bytes \<times> json) list"

text \<open>\<open>Json::from\<close> of a float is \<open>null\<close> for one that is not finite; an object keeps the order its keys came in.\<close>

fun json_float :: "f64 \<Rightarrow> json" where
  "json_float FNan = JNull"
| "json_float (FInf negative) = JNull"
| "json_float x = JFloat x"

text \<open>\<open>decimal_float\<close> is \<open>decimal_to_f64\<close>: the division of two floats, \<open>None\<close> when it is not finite.\<close>

function to_json_value :: "(int \<Rightarrow> nat \<Rightarrow> f64 option) \<Rightarrow> sql_value \<Rightarrow> json"
  and to_json_values :: "(int \<Rightarrow> nat \<Rightarrow> f64 option) \<Rightarrow> sql_value list \<Rightarrow> json list"
  and to_json_object :: "(int \<Rightarrow> nat \<Rightarrow> f64 option) \<Rightarrow> (sql_value \<times> sql_value) list \<Rightarrow> (bytes \<times> json) list
    \<Rightarrow> (bytes \<times> json) list" where
  "to_json_value df v =
     (case v of
        VNull \<Rightarrow> JNull
      | VBool flag \<Rightarrow> JBool flag
      | VInt n \<Rightarrow> JInt n
      | VUInt n \<Rightarrow> JInt n
      | VFloat x \<Rightarrow> json_float x
      | VDecimal u s \<Rightarrow> (case df u s of Some x \<Rightarrow> json_float x | None \<Rightarrow> JNull)
      | VText s \<Rightarrow> JText s
      | VArray vs \<Rightarrow> JArray (to_json_values df vs)
      | VRow vs \<Rightarrow> JArray (to_json_values df vs)
      | VMap es \<Rightarrow> JObject (to_json_object df es [])
      | _ \<Rightarrow> (case to_text v of Some s \<Rightarrow> JText s | None \<Rightarrow> JNull))"
| "to_json_values df [] = []"
| "to_json_values df (v # vs) = to_json_value df v # to_json_values df vs"
| "to_json_object df [] obj = obj"
| "to_json_object df ((k, v) # es) obj =
     to_json_object df es
       (AList.update (case to_text k of Some s \<Rightarrow> s | None \<Rightarrow> []) (to_json_value df v) obj)"
  by pat_completeness auto
termination
  by (relation "measure (\<lambda>x. case x of
        Inl (df, v) \<Rightarrow> size v
      | Inr (Inl (df, vs)) \<Rightarrow> size_list size vs
      | Inr (Inr (df, es, obj)) \<Rightarrow> size_list (size_prod size size) es)") simp_all

declare to_json_value.simps [simp del]

end
