(* ===== verification/SafeMode.thy ===== *)
theory SafeMode
  imports QHPrelude "HOL-Library.Multiset" "HOL-Library.Product_Lexorder"
begin

text \<open>
  The policy half of \<^verbatim>\<open>crates/qh-sql/src/classify.rs\<close>: the kinds of statement, the four Safe Mode
  levels, what each decides about each kind, and the floor that raises a level.

  The lemmas show that the levels are a chain, that a refusal is given exactly where a statement does
  not run as it is, and that a floor resolves to its strictest entry whatever order its conditions
  were raised in.
\<close>

section \<open>Choosing a maximum by a key\<close>

text \<open>\<open>Iterator::max_by_key\<close>: the last of the elements whose key is greatest.\<close>

fun max_by_key :: "('a \<Rightarrow> 'k::linorder) \<Rightarrow> 'a list \<Rightarrow> 'a option" where
  "max_by_key f [] = None"
| "max_by_key f (x # xs) =
     (case max_by_key f xs of
        None \<Rightarrow> Some x
      | Some y \<Rightarrow> if f x \<le> f y then Some y else Some x)"

lemma max_by_key_None [simp]: "max_by_key f xs = None \<longleftrightarrow> xs = []"
  by (induction xs) (auto split: option.splits)

lemma max_by_key_Some:
  "max_by_key f xs = Some m \<Longrightarrow> m \<in> set xs \<and> (\<forall>x \<in> set xs. f x \<le> f m)"
  by (induction xs arbitrary: m) (auto split: option.splits if_splits)

text \<open>Where the key tells elements apart, the choice does not depend on the order.\<close>

locale ranking =
  fixes rank :: "'a \<Rightarrow> 'k::linorder"
  assumes rank_inj: "rank x = rank y \<Longrightarrow> x = y"
begin

lemma max_unique: "m \<in> set xs \<Longrightarrow> (\<And>x. x \<in> set xs \<Longrightarrow> rank x \<le> rank m) \<Longrightarrow>
    max_by_key rank xs = Some m"
proof -
  assume m: "m \<in> set xs" "\<And>x. x \<in> set xs \<Longrightarrow> rank x \<le> rank m"
  then obtain n where n: "max_by_key rank xs = Some n"
    by (cases "max_by_key rank xs") auto
  from max_by_key_Some [OF n] m have "rank n = rank m" by (auto intro: antisym)
  with n rank_inj show ?thesis by simp
qed

lemma max_set: "set xs = set ys \<Longrightarrow> max_by_key rank xs = max_by_key rank ys"
proof (cases "max_by_key rank ys")
  case (Some m)
  moreover assume "set xs = set ys"
  ultimately show ?thesis using max_by_key_Some [OF Some] by (auto intro!: max_unique)
qed auto

lemma max_snoc:
  "max_by_key rank (xs @ [x]) =
     (case max_by_key rank xs of None \<Rightarrow> Some x | Some y \<Rightarrow> Some (if rank y \<le> rank x then x else y))"
  by (induction xs) (auto split: option.splits)

end

section \<open>Kinds, levels and decisions\<close>

datatype statement_kind = KReadOnly | Dml | Ddl | Unknown

fun label :: "statement_kind \<Rightarrow> bytes" where
  "label KReadOnly = ''read-only''"
| "label Dml = ''a write''"
| "label Ddl = ''DDL''"
| "label Unknown = ''unclassified''"

fun kind_token :: "statement_kind \<Rightarrow> bytes" where
  "kind_token KReadOnly = ''read_only''"
| "kind_token Dml = ''dml''"
| "kind_token Ddl = ''ddl''"
| "kind_token Unknown = ''unknown''"

fun kind_rank :: "statement_kind \<Rightarrow> nat" where
  "kind_rank KReadOnly = 0"
| "kind_rank Dml = 1"
| "kind_rank Ddl = 2"
| "kind_rank Unknown = 3"

lemma kind_rank_inj: "kind_rank k = kind_rank l \<Longrightarrow> k = l"
  by (cases k; cases l) simp_all

interpretation kinds: ranking kind_rank
  by unfold_locales (rule kind_rank_inj)

datatype safe_mode = Full | NoDdl | Confirm | ReadOnly

definition SAFE_MODES :: "bytes list" where
  "SAFE_MODES = [''full'', ''no_ddl'', ''confirm'', ''read_only'']"

datatype decision = Allow | AskConfirm | Refuse

fun is_allowed :: "decision \<Rightarrow> bool" where
  "is_allowed Allow = True"
| "is_allowed d = False"

definition parse_safe_mode :: "bytes \<Rightarrow> safe_mode option" where
  "parse_safe_mode name =
     (let s = to_ascii_lowercase (trim name) in
      if s = ''full'' then Some Full
      else if s = ''no_ddl'' then Some NoDdl
      else if s = ''confirm'' then Some Confirm
      else if s = ''read_only'' then Some ReadOnly
      else None)"

fun safe_mode_str :: "safe_mode \<Rightarrow> bytes" where
  "safe_mode_str Full = ''full''"
| "safe_mode_str NoDdl = ''no_ddl''"
| "safe_mode_str Confirm = ''confirm''"
| "safe_mode_str ReadOnly = ''read_only''"

fun strictness :: "safe_mode \<Rightarrow> nat" where
  "strictness Full = 0"
| "strictness NoDdl = 1"
| "strictness Confirm = 2"
| "strictness ReadOnly = 3"

definition strictest :: "safe_mode \<Rightarrow> safe_mode \<Rightarrow> safe_mode" where
  "strictest self other = (if strictness other > strictness self then other else self)"

fun decide :: "safe_mode \<Rightarrow> statement_kind \<Rightarrow> decision" where
  "decide Full kind = Allow"
| "decide NoDdl kind = (case kind of
     KReadOnly \<Rightarrow> Allow | Dml \<Rightarrow> Allow | Ddl \<Rightarrow> Refuse | Unknown \<Rightarrow> Refuse)"
| "decide Confirm kind = (case kind of
     KReadOnly \<Rightarrow> Allow | Dml \<Rightarrow> AskConfirm | Ddl \<Rightarrow> Refuse | Unknown \<Rightarrow> Refuse)"
| "decide ReadOnly kind = (case kind of
     KReadOnly \<Rightarrow> Allow | Dml \<Rightarrow> Refuse | Ddl \<Rightarrow> Refuse | Unknown \<Rightarrow> Refuse)"

fun refusal :: "safe_mode \<Rightarrow> statement_kind \<Rightarrow> bytes option" where
  "refusal mode kind =
     (case decide mode kind of
        Allow \<Rightarrow> None
      | AskConfirm \<Rightarrow> Some (''writing runs on a confirm connection only after an explicit '' @
          ''confirmation (SAFE_MODE_CONFIRMED=1)'')
      | Refuse \<Rightarrow>
          (case mode of
             NoDdl \<Rightarrow> Some ''DDL is not allowed on a connection whose Safe Mode is no_ddl''
           | Confirm \<Rightarrow>
               (case kind of
                  Ddl \<Rightarrow> Some ''DDL is not allowed on a connection whose Safe Mode is confirm''
                | _ \<Rightarrow> Some (''the classifier could not tell whether this statement is read-only, and '' @
                    ''a confirm connection refuses an unclassified statement''))
           | ReadOnly \<Rightarrow>
               (case kind of
                  Dml \<Rightarrow> Some ''writing is not allowed on a read-only connection''
                | Ddl \<Rightarrow> Some ''DDL is not allowed on a read-only connection''
                | _ \<Rightarrow> Some (''the classifier could not tell whether this statement is read-only, and '' @
                    ''a read-only connection refuses an unclassified statement''))
           | Full \<Rightarrow> None))"

lemma strictness_inj: "strictness m = strictness n \<Longrightarrow> m = n"
  by (cases m; cases n) simp_all

interpretation modes: ranking strictness
  by unfold_locales (rule strictness_inj)

lemma refusal_None_iff: "refusal mode kind = None \<longleftrightarrow> decide mode kind = Allow"
  by (cases mode; cases kind) simp_all

fun decision_rank :: "decision \<Rightarrow> nat" where
  "decision_rank Allow = 0" | "decision_rank AskConfirm = 1" | "decision_rank Refuse = 2"

lemma decide_mono_mode:
  "strictness m \<le> strictness n \<Longrightarrow> decision_rank (decide m k) \<le> decision_rank (decide n k)"
  by (cases m; cases n; cases k) simp_all

lemma decide_mono_kind:
  "kind_rank k \<le> kind_rank l \<Longrightarrow> decision_rank (decide m k) \<le> decision_rank (decide m l)"
  by (cases m; cases k; cases l) simp_all

lemma decide_ReadOnly_Allow: "decide ReadOnly k = Allow \<longleftrightarrow> k = KReadOnly"
  by (cases k) simp_all

section \<open>Floors\<close>

datatype floor_source = User | Driver | Connection | Policy

fun source_rank :: "floor_source \<Rightarrow> nat" where
  "source_rank User = 0" | "source_rank Driver = 1" | "source_rank Connection = 2"
| "source_rank Policy = 3"

text \<open>The derived order of \<open>FloorSource\<close>: the order of its variants.\<close>

instantiation floor_source :: linorder
begin

definition less_eq_floor_source :: "floor_source \<Rightarrow> floor_source \<Rightarrow> bool" where
  "less_eq_floor_source a b = (source_rank a \<le> source_rank b)"

definition less_floor_source :: "floor_source \<Rightarrow> floor_source \<Rightarrow> bool" where
  "less_floor_source a b = (source_rank a < source_rank b)"

instance
proof
  fix x y z :: floor_source
  show "x < y \<longleftrightarrow> x \<le> y \<and> \<not> y \<le> x"
    by (auto simp: less_eq_floor_source_def less_floor_source_def)
  show "x \<le> x" by (simp add: less_eq_floor_source_def)
  show "x \<le> y \<Longrightarrow> y \<le> z \<Longrightarrow> x \<le> z" by (simp add: less_eq_floor_source_def)
  show "x \<le> y \<Longrightarrow> y \<le> x \<Longrightarrow> x = y"
    by (cases x; cases y) (simp_all add: less_eq_floor_source_def)
  show "x \<le> y \<or> y \<le> x" by (auto simp: less_eq_floor_source_def)
qed

end

fun floor_source_str :: "floor_source \<Rightarrow> bytes" where
  "floor_source_str User = ''the connection'' @ [CHR 0x27] @ ''s own Safe Mode''"
| "floor_source_str Driver = ''the driver, which cannot write''"
| "floor_source_str Connection = ''the connection, which is marked read-only''"
| "floor_source_str Policy = ''a policy pinned outside the connection''"

record safe_mode_floor =
  floor_entries :: "(floor_source \<times> safe_mode) list"

definition floor_new :: safe_mode_floor where
  "floor_new = \<lparr>floor_entries = []\<rparr>"

definition floor_raise :: "floor_source \<Rightarrow> safe_mode \<Rightarrow> safe_mode_floor \<Rightarrow> safe_mode_floor" where
  "floor_raise source mode fl = fl\<lparr>floor_entries := floor_entries fl @ [(source, mode)]\<rparr>"

definition floor_key :: "floor_source \<times> safe_mode \<Rightarrow> nat \<times> floor_source" where
  "floor_key e = (strictness (snd e), fst e)"

definition floor_resolve :: "safe_mode_floor \<Rightarrow> (safe_mode \<times> floor_source) option" where
  "floor_resolve fl = map_option (\<lambda>(source, mode). (mode, source))
     (max_by_key floor_key (floor_entries fl))"

definition floor_is_empty :: "safe_mode_floor \<Rightarrow> bool" where
  "floor_is_empty fl \<longleftrightarrow> floor_entries fl = []"

interpretation floors: ranking floor_key
  by unfold_locales (auto simp: floor_key_def prod_eq_iff strictness_inj)

lemma floor_resolve_None: "floor_resolve fl = None \<longleftrightarrow> floor_is_empty fl"
  by (simp add: floor_resolve_def floor_is_empty_def)

lemma floor_resolve_Some:
  assumes "floor_resolve fl = Some (mode, source)"
  shows "(source, mode) \<in> set (floor_entries fl)"
    and "(src, m) \<in> set (floor_entries fl) \<Longrightarrow>
      strictness m < strictness mode \<or> m = mode \<and> src \<le> source"
proof -
  from assms have m: "max_by_key floor_key (floor_entries fl) = Some (source, mode)"
    by (auto simp: floor_resolve_def)
  show "(source, mode) \<in> set (floor_entries fl)" using max_by_key_Some [OF m] by simp
  assume "(src, m) \<in> set (floor_entries fl)"
  then have "floor_key (src, m) \<le> floor_key (source, mode)" using max_by_key_Some [OF m] by blast
  then show "strictness m < strictness mode \<or> m = mode \<and> src \<le> source"
    by (auto simp: floor_key_def less_eq_prod_def intro: strictness_inj)
qed

lemma floor_raise_resolve:
  "floor_resolve (floor_raise source mode fl) =
     Some (case floor_resolve fl of
             None \<Rightarrow> (mode, source)
           | Some (m, s) \<Rightarrow> if (strictness m, s) \<le> (strictness mode, source) then (mode, source) else (m, s))"
  by (auto simp: floor_resolve_def floor_raise_def floors.max_snoc floor_key_def split: option.split)

section \<open>Properties\<close>

text \<open>
  The four levels are a chain: a stricter level never treats a kind of statement more leniently,
  a stricter kind is never treated more leniently by a level, and a level gives a reason exactly for
  the statements it does not run as they are.
\<close>
theorem safe_mode_chain:
  "(\<forall>m n k. strictness m \<le> strictness n \<longrightarrow>
      decision_rank (decide m k) \<le> decision_rank (decide n k)) \<and>
   (\<forall>m k l. kind_rank k \<le> kind_rank l \<longrightarrow>
      decision_rank (decide m k) \<le> decision_rank (decide m l)) \<and>
   (\<forall>m k. (refusal m k = None) = (decide m k = Allow))"
  using decide_mono_mode decide_mono_kind refusal_None_iff by blast

theorem safe_mode_chain_witness:
  "decision_rank (decide NoDdl Dml) \<le> decision_rank (decide Confirm Dml)"
  using safe_mode_chain by (metis eval_nat_numeral(2) le_SucI order_refl strictness.simps(2,3) One_nat_def
      numeral_2_eq_2)

text \<open>
  A floor is its strictest condition, whatever order its conditions were raised in: raising one
  more condition moves the result only to a stricter level (or, at the same level, to a more
  authoritative source), and floors with the same conditions resolve alike.
\<close>
theorem floor_is_strictest:
  "floor_resolve (floor_raise source mode fl) =
     Some (case floor_resolve fl of
             None \<Rightarrow> (mode, source)
           | Some (m, s) \<Rightarrow> if (strictness m, s) \<le> (strictness mode, source) then (mode, source) else (m, s)) \<and>
   (mset (floor_entries fl) = mset (floor_entries fl') \<longrightarrow> floor_resolve fl = floor_resolve fl')"
proof (rule conjI [OF floor_raise_resolve], rule impI)
  assume "mset (floor_entries fl) = mset (floor_entries fl')"
  then have "set (floor_entries fl) = set (floor_entries fl')" by (rule mset_eq_setD)
  from floors.max_set [OF this] show "floor_resolve fl = floor_resolve fl'"
    by (simp only: floor_resolve_def)
qed

theorem floor_is_strictest_witness:
  "floor_resolve \<lparr>floor_entries = [(Driver, ReadOnly), (User, NoDdl)]\<rparr> =
   floor_resolve \<lparr>floor_entries = [(User, NoDdl), (Driver, ReadOnly)]\<rparr>"
  by (rule conjunct2 [OF floor_is_strictest [of Policy Full], THEN mp]) (simp add: add_mset_commute)

text \<open>
  The setting round-trips: every level is what its own spelling parses to.
\<close>
lemma parse_safe_mode_str: "parse_safe_mode (safe_mode_str m) = Some m"
proof -
  have "parse_safe_mode ''full'' = Some Full" by code_simp
  moreover have "parse_safe_mode ''no_ddl'' = Some NoDdl" by code_simp
  moreover have "parse_safe_mode ''confirm'' = Some Confirm" by code_simp
  moreover have "parse_safe_mode ''read_only'' = Some ReadOnly" by code_simp
  ultimately show ?thesis by (cases m) simp_all
qed

text \<open>
  Without a confirmation, \<open>confirm\<close> and \<open>read_only\<close> run the same statements: the step from one to
  the other only takes the confirmed write away.
\<close>
lemma confirm_and_read_only_unconfirmed:
  "is_allowed (decide Confirm k) = is_allowed (decide ReadOnly k)"
  by (cases k) simp_all

end
