(* ===== verification/Settings.thy ===== *)
theory Settings
  imports Decimal SafeMode "HOL-Library.AList"
begin

text \<open>
  Settings, \<^verbatim>\<open>crates/qh-ffi/src/env.rs\<close>: the readers that turn text into values, and the split of
  one environment into a source connection and a destination connection.

  The source's \<open>BTreeMap\<close> is an association list with distinct keys, read through \<open>map_of\<close>; every
  reader is a function of that map alone (\<open>settings_wf\<close> is the invariant). The process environment
  itself is the list handed to \<open>from_pairs\<close>.
\<close>

section \<open>The map and its readers\<close>

datatype setting_error = NotANumber bytes bytes | Negative bytes int

type_synonym settings = "(bytes \<times> bytes) list"

definition SECRET_KEYS :: "bytes list" where
  "SECRET_KEYS = [''DB_PASSWORD'', ''TRINO_PASSWORD'', ''DB_URL'', ''TRINO_URL'', ''DB_JWT'',
     ''SSH_PASSWORD'', ''SSH_KEY_PASSPHRASE'']"

definition DEST_PREFIX :: bytes where
  "DEST_PREFIX = ''DEST_''"

definition SHARED_KEYS :: "bytes list" where
  "SHARED_KEYS = [''DB_PATH'', ''PROGRESS_MS'']"

text \<open>\<open>str::strip_prefix\<close>.\<close>

definition strip_prefix :: "bytes \<Rightarrow> bytes \<Rightarrow> bytes option" where
  "strip_prefix p s = (if prefix p s then Some (drop (length p) s) else None)"

function bare_key :: "bytes \<Rightarrow> bytes" where
  "bare_key key = (case strip_prefix DEST_PREFIX key of Some r \<Rightarrow> bare_key r | None \<Rightarrow> key)"
  by pat_completeness auto
termination
  by (relation "measure length")
    (auto simp: strip_prefix_def DEST_PREFIX_def prefix_def split: if_splits)

declare bare_key.simps [simp del]

definition is_secret_key :: "bytes \<Rightarrow> bool" where
  "is_secret_key key \<longleftrightarrow> bare_key key \<in> set SECRET_KEYS"

definition from_pairs :: "(bytes \<times> bytes) list \<Rightarrow> settings" where
  "from_pairs ps = fold (\<lambda>(k, v) m. AList.update k v m) ps []"

text \<open>What \<open>Debug\<close> prints of a settings map, entry by entry.\<close>

definition debug_entries :: "settings \<Rightarrow> (bytes \<times> bytes) list" where
  "debug_entries s = map (\<lambda>(k, v). (k, if is_secret_key k then ''<redacted>'' else v)) s"

definition setting :: "settings \<Rightarrow> bytes \<Rightarrow> bytes option" where
  "setting s key = map_of s key"

definition is_set :: "settings \<Rightarrow> bytes \<Rightarrow> bool" where
  "is_set s key \<longleftrightarrow> setting s key \<noteq> None"

definition raw_setting :: "settings \<Rightarrow> bytes \<Rightarrow> bytes \<Rightarrow> bytes" where
  "raw_setting s key dflt = (case setting s key of None \<Rightarrow> dflt | Some v \<Rightarrow> if v = [] then dflt else v)"

definition text_setting :: "settings \<Rightarrow> bytes \<Rightarrow> bytes \<Rightarrow> bytes" where
  "text_setting s key dflt =
     (let value = trim (raw_setting s key []) in if value = [] then dflt else value)"

definition number_setting :: "settings \<Rightarrow> bytes \<Rightarrow> int \<Rightarrow> setting_error + int" where
  "number_setting s key dflt =
     (let raw = text_setting s key [] in
      if raw = [] then Inr dflt
      else (case parse_i64 raw of Some n \<Rightarrow> Inr n | None \<Rightarrow> Inl (NotANumber key raw)))"

definition non_negative :: "settings \<Rightarrow> bytes \<Rightarrow> int \<Rightarrow> setting_error + int" where
  "non_negative s key dflt =
     (case number_setting s key dflt of
        Inl e \<Rightarrow> Inl e
      | Inr value \<Rightarrow> if value < 0 then Inl (Negative key value) else Inr value)"

definition parse_flag :: "bytes \<Rightarrow> bool \<Rightarrow> bool" where
  "parse_flag raw dflt =
     (let v = to_ascii_lowercase (trim raw) in
      if v = [] then dflt
      else if v \<in> set [''0'', ''false'', ''no'', ''off''] then False
      else if v \<in> set [''1'', ''true'', ''yes'', ''on''] then True
      else dflt)"

definition flag_setting :: "settings \<Rightarrow> bytes \<Rightarrow> bool \<Rightarrow> bool" where
  "flag_setting s key dflt = parse_flag (text_setting s key []) dflt"

section \<open>Two connections in one environment\<close>

definition has_prefixed :: "settings \<Rightarrow> bytes \<Rightarrow> bool" where
  "has_prefixed s p \<longleftrightarrow> list_ex (\<lambda>(k, _). prefix p k) s"

text \<open>The \<open>filter_map\<close> of \<open>prefixed\<close>, then the loop over the shared keys.\<close>

definition strip_keys :: "bytes \<Rightarrow> settings \<Rightarrow> settings" where
  "strip_keys p s = List.map_filter
     (\<lambda>(k, v). case strip_prefix p k of
        Some bare \<Rightarrow> if bare = [] then None else Some (bare, v) | None \<Rightarrow> None) s"

definition share_key :: "settings \<Rightarrow> bytes \<Rightarrow> settings \<Rightarrow> settings" where
  "share_key s shared values =
     (let values = AList.delete shared values in
      case setting s shared of Some v \<Rightarrow> AList.update shared v values | None \<Rightarrow> values)"

definition prefixed :: "settings \<Rightarrow> bytes \<Rightarrow> settings" where
  "prefixed s p = fold (share_key s) SHARED_KEYS (strip_keys p s)"

definition without_prefix :: "settings \<Rightarrow> bytes \<Rightarrow> settings" where
  "without_prefix s p = filter (\<lambda>(k, _). \<not> prefix p k) s"

datatype transfer_mode = TransferCreate | TransferReplace

record destination =
  d_source :: settings
  d_dest :: settings
  d_mode :: transfer_mode
  d_safe_mode :: safe_mode

datatype destination_error =
    NoConnection
  | NoSafeMode
  | UnknownSafeMode bytes
  | AppendMode
  | UnknownWriteMode bytes

definition write_mode_of :: "settings \<Rightarrow> destination_error + transfer_mode" where
  "write_mode_of s =
     (case setting s ''WRITE_MODE'' of
        None \<Rightarrow> Inr TransferCreate
      | Some raw \<Rightarrow>
          (let mode = to_ascii_lowercase (trim raw) in
           if mode = ''create'' then Inr TransferCreate
           else if mode = ''replace'' then Inr TransferReplace
           else if mode = ''append'' then Inl AppendMode
           else Inl (UnknownWriteMode mode)))"

definition destination_of :: "settings \<Rightarrow> destination_error + destination option" where
  "destination_of s =
     (if \<not> has_prefixed s DEST_PREFIX then Inr None
      else
        let dest = prefixed s DEST_PREFIX in
        if text_setting dest ''DB_KIND'' [] = [] \<and> text_setting dest ''DB_URL'' [] = [] then Inl NoConnection
        else
          let raw_safe = text_setting dest ''SAFE_MODE'' [] in
          if raw_safe = [] then Inl NoSafeMode
          else (case parse_safe_mode raw_safe of
                  None \<Rightarrow> Inl (UnknownSafeMode raw_safe)
                | Some safe_mode \<Rightarrow>
                    (case write_mode_of s of
                       Inl e \<Rightarrow> Inl e
                     | Inr mode \<Rightarrow>
                         Inr (Some \<lparr>d_source = without_prefix s DEST_PREFIX, d_dest = dest,
                           d_mode = mode, d_safe_mode = safe_mode\<rparr>))))"

section \<open>What the split promises\<close>

definition settings_wf :: "settings \<Rightarrow> bool" where
  "settings_wf s \<longleftrightarrow> distinct (map fst s)"

lemma setting_share_key [simp]:
  "setting (share_key s shared m) k = (if k = shared then setting s k else setting m k)"
  by (simp add: share_key_def setting_def Let_def AList.update_conv' AList.delete_conv' split: option.splits)

lemma setting_strip_keys: "setting (strip_keys p s) k = (if k = [] then None else setting s (p @ k))"
proof (induction s)
  case (Cons x s)
  obtain k' v where x: "x = (k', v)" by (cases x)
  show ?case
  proof (cases "prefix p k'")
    case True
    then obtain b where b: "k' = p @ b" by (auto simp: prefix_def)
    then show ?thesis using Cons x
      by (auto simp: strip_keys_def setting_def strip_prefix_def List.map_filter_simps)
  next
    case False
    then have "k' \<noteq> p @ k" by auto
    with False show ?thesis using Cons x
      by (simp add: strip_keys_def setting_def strip_prefix_def List.map_filter_simps)
  qed
qed (simp add: strip_keys_def setting_def List.map_filter_simps)

lemma setting_prefixed:
  "setting (prefixed s p) k =
     (if k \<in> set SHARED_KEYS then setting s k else if k = [] then None else setting s (p @ k))"
  by (auto simp: prefixed_def SHARED_KEYS_def setting_strip_keys)

lemma setting_without_prefix:
  "setting (without_prefix s p) k = (if prefix p k then None else setting s k)"
  by (induction s) (auto simp: setting_def without_prefix_def)

lemma has_prefixed_iff: "has_prefixed s p \<longleftrightarrow> (\<exists>k. prefix p k \<and> is_set s k)"
proof (induction s)
  case (Cons x s)
  obtain k v where x: "x = (k, v)" by (cases x)
  then have first: "has_prefixed (x # s) p \<longleftrightarrow> prefix p k \<or> has_prefixed s p" by (simp add: has_prefixed_def)
  have second: "is_set (x # s) k' \<longleftrightarrow> k' = k \<or> is_set s k'" for k'
    using x by (simp add: is_set_def setting_def)
  show ?case unfolding first second Cons.IH by auto
qed (simp add: has_prefixed_def is_set_def setting_def)

lemma from_pairs_wf: "settings_wf (from_pairs ps)"
proof -
  have "distinct (map fst m) \<Longrightarrow> distinct (map fst (fold (\<lambda>(k, v) m. AList.update k v m) ps m))" for m
    by (induction ps arbitrary: m) (auto intro: AList.distinct_update)
  then show ?thesis by (simp add: settings_wf_def from_pairs_def)
qed

lemma setting_from_pairs: "setting (from_pairs ps) k = map_of (rev ps) k"
proof -
  have "map_of (fold (\<lambda>(k, v) m. AList.update k v m) ps m) k =
      (case map_of (rev ps) k of Some v \<Rightarrow> Some v | None \<Rightarrow> map_of m k)" for m
    by (induction ps arbitrary: m) (auto simp: AList.update_conv' map_add_def split: option.splits)
  then show ?thesis by (simp add: setting_def from_pairs_def split: option.splits)
qed

lemma text_setting_cong:
  "setting s k = setting s' k' \<Longrightarrow> text_setting s k d = text_setting s' k' d"
  by (simp add: text_setting_def raw_setting_def)

lemma text_setting_unset: "setting s k = None \<Longrightarrow> text_setting s k d = d"
proof -
  have "trim [] = []" by code_simp
  then show "setting s k = None \<Longrightarrow> text_setting s k d = d"
    by (simp add: text_setting_def raw_setting_def)
qed

text \<open>A prefixed view is a function of what the environment says under the prefix and of the shared keys.\<close>

lemma text_prefixed_cong:
  assumes "\<And>k. prefix p k \<or> k \<in> set SHARED_KEYS \<Longrightarrow> setting s k = setting s' k"
  shows "text_setting (prefixed s p) k d = text_setting (prefixed s' p) k d"
  by (rule text_setting_cong) (use assms in \<open>simp add: setting_prefixed\<close>)

text \<open>A key stays secret however often it is prefixed.\<close>

lemma is_secret_key_prefixed: "is_secret_key (DEST_PREFIX @ key) \<longleftrightarrow> is_secret_key key"
  by (simp add: is_secret_key_def bare_key.simps [of "DEST_PREFIX @ key"] strip_prefix_def)

lemma debug_entries_hide: "(k, v) \<in> set (debug_entries s) \<Longrightarrow> is_secret_key k \<Longrightarrow> v = ''<redacted>''"
  by (auto simp: debug_entries_def)

lemma non_negative_ok: "non_negative s k d = Inr v \<Longrightarrow> 0 \<le> v"
  by (auto simp: non_negative_def split: sum.splits if_splits)

lemma number_setting_range:
  "number_setting s k d = Inr v \<Longrightarrow> v = d \<or> i64_min \<le> v \<and> v \<le> i64_max"
  by (auto simp: number_setting_def Let_def dest: parse_i64_range split: if_splits option.splits)

text \<open>
  C20. A transfer's two sides are apart: the source side reads no key that starts with \<open>DEST_\<close>, and
  every other key as it is; the destination side reads under a key exactly what the environment says
  under \<open>DEST_\<close> and that key, except that \<open>DB_PATH\<close> and \<open>PROGRESS_MS\<close> are read from the top level only.
\<close>
theorem destination_isolates:
  assumes "destination_of s = Inr (Some d)"
  shows "setting (d_source d) k = (if prefix DEST_PREFIX k then None else setting s k) \<and>
    setting (d_dest d) k = (if k \<in> {''DB_PATH'', ''PROGRESS_MS''} then setting s k
      else if k = [] then None else setting s (DEST_PREFIX @ k))"
proof
  have d: "d_source d = without_prefix s DEST_PREFIX" "d_dest d = prefixed s DEST_PREFIX"
    using assms by (auto simp: destination_of_def Let_def split: if_splits option.splits sum.splits)
  show "setting (d_source d) k = (if prefix DEST_PREFIX k then None else setting s k)"
    by (simp add: d setting_without_prefix)
  show "setting (d_dest d) k = (if k \<in> {''DB_PATH'', ''PROGRESS_MS''} then setting s k
      else if k = [] then None else setting s (DEST_PREFIX @ k))"
    by (simp add: d setting_prefixed SHARED_KEYS_def)
qed

definition example_settings :: settings where
  "example_settings = from_pairs
     [(''DB_KIND'', ''trino''), (''DB_PASSWORD'', ''s3cret''), (''SAFE_MODE'', ''full''), (''DB_PATH'', ''log''),
      (''DEST_DB_KIND'', ''postgres''), (''DEST_SAFE_MODE'', '' Confirm''), (''DEST_DB_PATH'', ''elsewhere'')]"

theorem destination_isolates_witness:
  "\<exists>d. destination_of example_settings = Inr (Some d) \<and>
     setting (d_source d) ''DEST_DB_KIND'' = None \<and> setting (d_source d) ''DB_KIND'' = Some ''trino'' \<and>
     setting (d_dest d) ''DB_KIND'' = Some ''postgres'' \<and> setting (d_dest d) ''DB_PASSWORD'' = None \<and>
     setting (d_dest d) ''DB_PATH'' = Some ''log''"
proof -
  have "case destination_of example_settings of Inr (Some d) \<Rightarrow> True | _ \<Rightarrow> False" by code_simp
  then obtain d where d: "destination_of example_settings = Inr (Some d)"
    by (auto split: sum.splits option.splits)
  have look: "setting example_settings ''DB_KIND'' = Some ''trino''"
    "setting example_settings ''DEST_DB_KIND'' = Some ''postgres''"
    "setting example_settings ''DEST_DB_PASSWORD'' = None"
    "setting example_settings ''DB_PATH'' = Some ''log''"
    by code_simp+
  from d destination_isolates [OF d] look show ?thesis
    by (intro exI [of _ d]) (simp add: DEST_PREFIX_def)
qed

section \<open>What a destination depends on\<close>

definition same_destination_settings :: "settings \<Rightarrow> settings \<Rightarrow> bool" where
  "same_destination_settings s s' \<longleftrightarrow>
     (\<forall>k. prefix DEST_PREFIX k \<or> k \<in> set SHARED_KEYS \<or> k = ''WRITE_MODE'' \<longrightarrow> setting s k = setting s' k)"

definition destination_view :: "destination_error + destination option \<Rightarrow>
    destination_error + ((bytes \<Rightarrow> bytes option) \<times> transfer_mode \<times> safe_mode) option" where
  "destination_view r = map_sum id (map_option (\<lambda>d. (setting (d_dest d), d_mode d, d_safe_mode d))) r"

text \<open>
  Non-interference: two environments that agree on the keys starting with \<open>DEST_\<close>, on \<open>DB_PATH\<close>,
  \<open>PROGRESS_MS\<close> and \<open>WRITE_MODE\<close> have the same destination, the same mode, the same Safe Mode and the
  same error. No setting of the source connection (its \<open>SAFE_MODE\<close>, its password) can change any of these.
\<close>
theorem destination_ignores_the_source:
  assumes "same_destination_settings s s'"
  shows "destination_view (destination_of s) = destination_view (destination_of s')"
proof -
  have agree: "setting s k = setting s' k" if "prefix DEST_PREFIX k \<or> k \<in> set SHARED_KEYS \<or> k = ''WRITE_MODE''" for k
    using assms that unfolding same_destination_settings_def by blast
  have has: "has_prefixed s DEST_PREFIX \<longleftrightarrow> has_prefixed s' DEST_PREFIX"
    by (auto simp: has_prefixed_iff is_set_def agree)
  have read: "text_setting (prefixed s DEST_PREFIX) k d = text_setting (prefixed s' DEST_PREFIX) k d" for k d
    by (rule text_prefixed_cong) (blast intro: agree)
  have view: "setting (prefixed s DEST_PREFIX) = setting (prefixed s' DEST_PREFIX)"
    by (rule ext) (simp add: setting_prefixed agree)
  have mode: "write_mode_of s = write_mode_of s'"
    by (simp add: write_mode_of_def agree)
  show ?thesis
    unfolding destination_of_def destination_view_def has read mode Let_def
    by (simp add: view split: option.splits sum.splits)
qed

theorem destination_ignores_the_source_witness:
  "destination_view (destination_of (AList.update ''SAFE_MODE'' ''read_only'' example_settings)) =
   destination_view (destination_of example_settings)"
  by (rule destination_ignores_the_source)
    (auto simp: same_destination_settings_def setting_def AList.update_conv' DEST_PREFIX_def SHARED_KEYS_def)

text \<open>
  There is no default destination: \<open>destination\<close> answers "none asked for" exactly when no key at
  all starts with \<open>DEST_\<close>, and it accepts one only when a connection is described, a Safe Mode the
  engine knows is named for it, and the write mode is create or replace.
\<close>
theorem destination_needs_everything:
  "(destination_of s = Inr None \<longleftrightarrow> \<not> (\<exists>k. prefix DEST_PREFIX k \<and> is_set s k)) \<and>
   ((\<exists>d. destination_of s = Inr (Some d) \<and> d_mode d = m \<and> d_safe_mode d = l) \<longleftrightarrow>
     (let dest = prefixed s DEST_PREFIX in
      \<not> (text_setting dest ''DB_KIND'' [] = [] \<and> text_setting dest ''DB_URL'' [] = []) \<and>
      parse_safe_mode (text_setting dest ''SAFE_MODE'' []) = Some l \<and> write_mode_of s = Inr m))"
proof
  show "destination_of s = Inr None \<longleftrightarrow> \<not> (\<exists>k. prefix DEST_PREFIX k \<and> is_set s k)"
    by (auto simp: destination_of_def Let_def has_prefixed_iff split: option.splits sum.splits)
  have "parse_safe_mode [] = None" by code_simp
  moreover have "has_prefixed s DEST_PREFIX" if "text_setting (prefixed s DEST_PREFIX) k [] \<noteq> []" "k \<notin> set SHARED_KEYS" for k
  proof -
    have "setting (prefixed s DEST_PREFIX) k \<noteq> None"
      using that(1) text_setting_unset by metis
    with that(2) have "is_set s (DEST_PREFIX @ k)"
      by (auto simp: setting_prefixed is_set_def split: if_splits)
    then show ?thesis unfolding has_prefixed_iff by (intro exI [of _ "DEST_PREFIX @ k"]) simp
  qed
  from this [of "''DB_KIND''"] this [of "''DB_URL''"]
  have "has_prefixed s DEST_PREFIX" if "text_setting (prefixed s DEST_PREFIX) ''DB_KIND'' [] \<noteq> [] \<or>
      text_setting (prefixed s DEST_PREFIX) ''DB_URL'' [] \<noteq> []"
    using that by (auto simp: SHARED_KEYS_def)
  ultimately show "(\<exists>d. destination_of s = Inr (Some d) \<and> d_mode d = m \<and> d_safe_mode d = l) \<longleftrightarrow>
     (let dest = prefixed s DEST_PREFIX in
      \<not> (text_setting dest ''DB_KIND'' [] = [] \<and> text_setting dest ''DB_URL'' [] = []) \<and>
      parse_safe_mode (text_setting dest ''SAFE_MODE'' []) = Some l \<and> write_mode_of s = Inr m)"
    unfolding destination_of_def by (auto simp: Let_def split: option.splits sum.splits)
qed

end
