(* ===== verification/PgText.thy ===== *)
theory PgText
  imports Values Settings
begin

text \<open>
  How the PostgreSQL driver reads a cell (\<^verbatim>\<open>crates/qh-driver-postgres/src/normalize.rs\<close>): every value
  arrives as text, with the server's name of its type. What does not parse stays the text it was.

  \<open>parse_f64\<close> is the standard library's parser of floats. Arithmetic that the source truncates with
  \<open>as i32\<close> is \<open>wrap32\<close>; the other sums stay inside their types for every text a server sends and are
  unbounded here.
\<close>

section \<open>Shared readers\<close>

definition wrap32 :: "int \<Rightarrow> int" where
  "wrap32 i = (i + 2 ^ 31) mod 2 ^ 32 - 2 ^ 31"

definition parse_i32 :: "bytes \<Rightarrow> int option" where
  "parse_i32 s = parse_int_in (- (2 ^ 31)) (2 ^ 31 - 1) s"

definition parse_u32 :: "bytes \<Rightarrow> int option" where
  "parse_u32 s = parse_int_in 0 (2 ^ 32 - 1) s"

definition parse_i128 :: "bytes \<Rightarrow> int option" where
  "parse_i128 s = parse_int_in (- (2 ^ 127)) (2 ^ 127 - 1) s"

definition parse_fraction :: "bytes \<Rightarrow> int option" where
  "parse_fraction fraction =
     (if fraction = [] \<or> length fraction > 6 then None
      else if \<not> list_all is_ascii_digit fraction then None
      else map_option (\<lambda>v. v * 10 ^ (6 - length fraction)) (parse_i64 fraction))"

text \<open>A seconds field: the whole seconds and, after a point, the microseconds.\<close>

definition seconds_field :: "(bytes \<Rightarrow> int option) \<Rightarrow> bytes \<Rightarrow> (int \<times> int) option" where
  "seconds_field parse s =
     (case split_once (CHR ''.'') s of
        Some (seconds, fraction) \<Rightarrow>
          (case parse seconds of
             None \<Rightarrow> None
           | Some secs \<Rightarrow> map_option (\<lambda>micros. (secs, micros)) (parse_fraction fraction))
      | None \<Rightarrow> map_option (\<lambda>secs. (secs, 0)) (parse s))"

section \<open>Decimals and bytes\<close>

definition mantle_parts :: "bytes \<Rightarrow> (bytes \<times> bytes) option" where
  "mantle_parts mantissa =
     (let (whole, fraction) = (case split_once (CHR ''.'') mantissa of Some p \<Rightarrow> p | None \<Rightarrow> (mantissa, [])) in
      if whole = [] \<and> fraction = [] then None
      else if \<not> list_all is_ascii_digit whole \<or> \<not> list_all is_ascii_digit fraction then None
      else Some (whole, fraction))"

definition strip_sign :: "bytes \<Rightarrow> bool \<times> bytes" where
  "strip_sign s =
     (case strip_prefix ''-'' s of
        Some rest \<Rightarrow> (True, rest)
      | None \<Rightarrow> (False, case strip_prefix ''+'' s of Some rest \<Rightarrow> rest | None \<Rightarrow> s))"

definition pg_decimal :: "bytes \<Rightarrow> (int \<times> nat) option" where
  "pg_decimal s =
     (let (negative, digits) = strip_sign (trim s) in
      case (case split_once_in [CHR ''e'', CHR ''E''] digits of
              Some (mantissa, exponent) \<Rightarrow> map_option (\<lambda>e. (mantissa, e)) (parse_i32 exponent)
            | None \<Rightarrow> Some (digits, 0)) of
        None \<Rightarrow> None
      | Some (mantissa, exponent) \<Rightarrow>
          (case mantle_parts mantissa of
             None \<Rightarrow> None
           | Some (whole, fraction) \<Rightarrow>
               (let scale = int (length fraction) - exponent; zeros = nat (- scale) in
                if scale < 0 \<and> zeros > 64 then None
                else (let combined = whole @ fraction @ replicate zeros (CHR ''0''); scale = max 0 scale in
                      if scale > 38 then None
                      else map_option (\<lambda>u. (if negative then - u else u, nat scale)) (parse_i128 combined)))))"

text \<open>\<open>chunks(2)\<close>.\<close>

fun hex_decode :: "bytes \<Rightarrow> bytes option" where
  "hex_decode [] = Some []"
| "hex_decode [c] = None"
| "hex_decode (c # d # s) =
     (case (hex_value c, hex_value d) of
        (Some h, Some l) \<Rightarrow> map_option (\<lambda>t. char_of (h * 16 + l) # t) (hex_decode s)
      | _ \<Rightarrow> None)"

text \<open>The octal escapes: at most three digits, \<open>None\<close> where \<open>u8::from_str_radix\<close> fails.\<close>

definition octal_digits :: "bytes \<Rightarrow> bytes" where
  "octal_digits s = takeWhile (\<lambda>c. 48 \<le> byte_val c \<and> byte_val c \<le> 55) (take 3 s)"

definition octal_value :: "bytes \<Rightarrow> nat option" where
  "octal_value s =
     (let v = foldl (\<lambda>n c. 8 * n + (byte_val c - 48)) 0 s in if s = [] \<or> v > 255 then None else Some v)"

function escape_decode :: "bytes \<Rightarrow> bytes option" where
  "escape_decode s =
     (case s of
        [] \<Rightarrow> Some []
      | c # r \<Rightarrow>
          if c \<noteq> CHR 0x5C then map_option ((#) c) (escape_decode r)
          else if r \<noteq> [] \<and> hd r = CHR 0x5C then map_option ((#) (CHR 0x5C)) (escape_decode (tl r))
          else (case octal_value (octal_digits r) of
                  Some v \<Rightarrow> map_option ((#) (char_of v)) (escape_decode (drop (length (octal_digits r)) r))
                | None \<Rightarrow> None))"
  by pat_completeness auto
termination
  by (relation "measure length") auto

declare escape_decode.simps [simp del]

definition parse_bytea :: "bytes \<Rightarrow> sql_value" where
  "parse_bytea s =
     (case strip_prefix [CHR 0x5C, CHR ''x''] s of
        Some hex \<Rightarrow>
          if length hex mod 2 \<noteq> 0 then VText s
          else (case hex_decode hex of Some b \<Rightarrow> VBytes b | None \<Rightarrow> VText s)
      | None \<Rightarrow> (case escape_decode s of Some b \<Rightarrow> VBytes b | None \<Rightarrow> VText s))"

section \<open>Dates, times and timestamps\<close>

text \<open>\<open>splitn(3, '-')\<close> and its three numbers.\<close>

definition split_three :: "byte \<Rightarrow> bytes \<Rightarrow> (bytes \<times> bytes \<times> bytes) option" where
  "split_three sep s =
     (case split_once sep s of
        None \<Rightarrow> None
      | Some (a, r) \<Rightarrow> map_option (\<lambda>(b, c). (a, b, c)) (split_once sep r))"

definition pg_ymd :: "bytes \<Rightarrow> (int \<times> int \<times> int) option" where
  "pg_ymd s =
     (case split_three (CHR ''-'') s of
        None \<Rightarrow> None
      | Some (y, m, d) \<Rightarrow>
          (case (parse_i64 y, parse_u32 m, parse_u32 d) of
             (Some year, Some month, Some day) \<Rightarrow>
               if 1 \<le> month \<and> month \<le> 12 \<and> 1 \<le> day \<and> day \<le> 31 then Some (year, month, day) else None
           | _ \<Rightarrow> None))"

definition pg_days :: "bytes \<Rightarrow> int option" where
  "pg_days s = map_option (\<lambda>(y, m, d). wrap32 (days_from_civil y m d)) (pg_ymd (trim s))"

definition pg_offset_seconds :: "bytes \<Rightarrow> int option" where
  "pg_offset_seconds s =
     (case s of
        [] \<Rightarrow> None
      | c # rest \<Rightarrow>
          if c \<noteq> CHR ''+'' \<and> c \<noteq> CHR ''-'' then None
          else (let sign = (if c = CHR ''+'' then 1 else - 1); parts = split_on (CHR '':'') rest;
                    whole = (\<lambda>p. case split_once (CHR ''.'') p of Some (w, _) \<Rightarrow> w | None \<Rightarrow> p) in
                if length parts > 3 then None
                else (case (parse_i32 (hd parts),
                            if length parts > 1 then parse_i32 (parts ! 1) else Some 0,
                            if length parts > 2 then parse_i32 (whole (parts ! 2)) else Some 0) of
                        (Some hours, Some minutes, Some seconds) \<Rightarrow>
                          if hours > 14 \<or> minutes > 59 \<or> seconds > 59 then None
                          else Some (sign * (hours * 3600 + minutes * 60 + seconds))
                      | _ \<Rightarrow> None)))"

definition pg_split_offset :: "bytes \<Rightarrow> bytes \<times> int option" where
  "pg_split_offset s =
     (case rsplit_once_in [CHR ''+'', CHR ''-''] s of
        None \<Rightarrow> (s, None)
      | Some (a, b) \<Rightarrow>
          if a \<noteq> [] \<and> is_ascii_digit (last a) \<and> b \<noteq> [] then
            (case pg_offset_seconds (drop (length a) s) of
               Some offset \<Rightarrow> (trim_end a, Some offset)
             | None \<Rightarrow> (s, None))
          else (s, None))"

definition pg_clock :: "bytes \<Rightarrow> (int \<times> int \<times> int \<times> int) option" where
  "pg_clock s =
     (case map trim (split_on (CHR '':'') (trim s)) of
        [h, m, sec] \<Rightarrow>
          (case (parse_u32 h, parse_u32 m, seconds_field parse_u32 sec) of
             (Some hours, Some minutes, Some (seconds, micros)) \<Rightarrow>
               if hours > 24 \<or> minutes > 59 \<or> seconds > 60 then None
               else Some (hours, minutes, seconds, micros)
           | _ \<Rightarrow> None)
      | _ \<Rightarrow> None)"

definition pg_time_micros :: "bytes \<Rightarrow> int option" where
  "pg_time_micros s =
     map_option (\<lambda>(h, m, sec, micros). (h * 3600 + m * 60 + sec) * 1000000 + micros)
       (pg_clock (fst (pg_split_offset (trim s))))"

definition pg_timestamp :: "bytes \<Rightarrow> (int \<times> int) option" where
  "pg_timestamp s =
     (case split_once_in [CHR '' '', CHR ''T''] (trim s) of
        None \<Rightarrow> None
      | Some (date_part, rest) \<Rightarrow>
          (case (pg_ymd date_part, pg_split_offset rest) of
             (None, _) \<Rightarrow> None
           | (Some (year, month, day), (clock, offset)) \<Rightarrow>
               (case pg_clock clock of
                  None \<Rightarrow> None
                | Some (h, m, sec, micros) \<Rightarrow>
                    if year < 1 then None
                    else (let off = (case offset of Some off \<Rightarrow> off | None \<Rightarrow> 0);
                              local_micros = days_from_civil year month day * 86400 * 1000000 +
                                (h * 3600 + m * 60 + sec) * 1000000 + micros
                          in Some (local_micros - off * 1000000, off)))))"

section \<open>Intervals\<close>

definition trim_end_matches :: "byte \<Rightarrow> bytes \<Rightarrow> bytes" where
  "trim_end_matches c s = rev (dropWhile (\<lambda>d. d = c) (rev s))"

definition add_unit :: "bytes \<Rightarrow> int \<Rightarrow> interval_value \<Rightarrow> interval_value option" where
  "add_unit unit_name amount i =
     (let u = trim_end_matches (CHR ''s'') unit_name in
      if u = ''year'' then Some (i\<lparr>iv_months := iv_months i + wrap32 (amount * 12)\<rparr>)
      else if u = ''mon'' \<or> u = ''month'' then Some (i\<lparr>iv_months := iv_months i + wrap32 amount\<rparr>)
      else if u = ''day'' then Some (i\<lparr>iv_days := iv_days i + wrap32 amount\<rparr>)
      else if u = ''hour'' then Some (i\<lparr>iv_micros := iv_micros i + amount * 3600000000\<rparr>)
      else if u = ''min'' \<or> u = ''minute'' then Some (i\<lparr>iv_micros := iv_micros i + amount * 60000000\<rparr>)
      else if u = ''sec'' \<or> u = ''second'' then Some (i\<lparr>iv_micros := iv_micros i + amount * 1000000\<rparr>)
      else None)"

function pg_interval_loop :: "bytes list \<Rightarrow> interval_value \<Rightarrow> bool \<Rightarrow> interval_value option" where
  "pg_interval_loop ts i saw_any =
     (case ts of
        [] \<Rightarrow> if saw_any then Some i else None
      | t # rest \<Rightarrow>
          (case parse_i64 t of
             None \<Rightarrow>
               (case pg_clock t of
                  None \<Rightarrow> None
                | Some (h, m, sec, micros) \<Rightarrow>
                    (let sign = (if iv_micros i < 0 then - 1 else 1);
                         clock = (h * 3600 + m * 60 + sec) * 1000000 + micros
                     in pg_interval_loop rest (i\<lparr>iv_micros := \<bar>iv_micros i\<bar> + sign * clock\<rparr>) True))
           | Some amount \<Rightarrow>
               if rest = [] then None
               else (case add_unit (trim_end_matches (CHR '','') (hd rest)) amount i of
                       None \<Rightarrow> None
                     | Some i' \<Rightarrow> pg_interval_loop (tl rest) i' True)))"
  by pat_completeness auto
termination
  by (relation "measure (\<lambda>(ts, _). length ts)") auto

declare pg_interval_loop.simps [simp del]

definition pg_interval :: "bytes \<Rightarrow> interval_value option" where
  "pg_interval s = pg_interval_loop (split_whitespace s) \<lparr>iv_months = 0, iv_days = 0, iv_micros = 0\<rparr> False"

section \<open>Cells\<close>

datatype column_parser =
    PgBool | PgInt | PgFloat | PgNumeric | PgBytea | PgDate | PgTime | PgTimestamp | PgTimestamptz
  | PgInterval | PgJson | PgText

definition pg_base_type :: "bytes \<Rightarrow> bytes" where
  "pg_base_type type_name = trim_end (takeWhile (\<lambda>c. c \<noteq> CHR ''('') (trim type_name))"

definition column_parser_new :: "bytes \<Rightarrow> column_parser" where
  "column_parser_new type_name =
     (let t = pg_base_type type_name in
      if t = ''bool'' then PgBool
      else if t \<in> set [''int2'', ''int4'', ''int8'', ''oid''] then PgInt
      else if t \<in> set [''float4'', ''float8''] then PgFloat
      else if t \<in> set [''numeric'', ''decimal''] then PgNumeric
      else if t = ''bytea'' then PgBytea
      else if t = ''date'' then PgDate
      else if t = ''time'' then PgTime
      else if t = ''timestamp'' then PgTimestamp
      else if t = ''timestamptz'' then PgTimestamptz
      else if t = ''interval'' then PgInterval
      else if t \<in> set [''json'', ''jsonb''] then PgJson
      else PgText)"

definition pg_parse :: "(bytes \<Rightarrow> f64 option) \<Rightarrow> column_parser \<Rightarrow> bytes option \<Rightarrow> sql_value" where
  "pg_parse parse_f64 p cell =
     (case cell of
        None \<Rightarrow> VNull
      | Some s \<Rightarrow>
          (let keep = (\<lambda>v. case v of Some v \<Rightarrow> v | None \<Rightarrow> VText s) in
           case p of
             PgBool \<Rightarrow> if s = ''t'' \<or> s = ''true'' then VBool True
                       else if s = ''f'' \<or> s = ''false'' then VBool False else VText s
           | PgInt \<Rightarrow> keep (map_option VInt (parse_i64 s))
           | PgFloat \<Rightarrow>
               (case parse_f64 s of
                  Some x \<Rightarrow> VFloat x
                | None \<Rightarrow> if s = ''Infinity'' then VFloat (FInf False)
                          else if s = ''-Infinity'' then VFloat (FInf True) else VText s)
           | PgNumeric \<Rightarrow> keep (map_option (\<lambda>(u, sc). VDecimal u sc) (pg_decimal s))
           | PgBytea \<Rightarrow> parse_bytea s
           | PgDate \<Rightarrow> keep (map_option VDate (pg_days s))
           | PgTime \<Rightarrow> keep (map_option VTime (pg_time_micros s))
           | PgTimestamp \<Rightarrow> keep (map_option (\<lambda>(m, _). VTimestamp m None) (pg_timestamp s))
           | PgTimestamptz \<Rightarrow> keep (map_option (\<lambda>(m, off). VTimestamp m (Some off)) (pg_timestamp s))
           | PgInterval \<Rightarrow> keep (map_option VInterval (pg_interval s))
           | PgJson \<Rightarrow> VJson s
           | PgText \<Rightarrow> VText s))"

definition pg_from_text :: "(bytes \<Rightarrow> f64 option) \<Rightarrow> bytes \<Rightarrow> bytes option \<Rightarrow> sql_value" where
  "pg_from_text parse_f64 type_name cell = pg_parse parse_f64 (column_parser_new type_name) cell"

end
