(* ===== verification/TrinoDecode.thy ===== *)
theory TrinoDecode
  imports PgText
begin

text \<open>
  How the Trino driver reads a cell (\<^verbatim>\<open>crates/qh-driver-trino/src/decode.rs\<close>): a JSON value and the text of
  the column's type. What the type does not explain is kept as the text of the JSON.

  \<open>tr_fns\<close> holds what is not in the repository: the text \<^verbatim>\<open>serde_json\<close> prints for a value, \<open>parse::<f64>\<close>
  and \<open>as f64\<close> of an integer. The sums in \<open>i64\<close> and \<open>i32\<close> stay inside their types for what a server
  sends, and are unbounded here; the checked ones are checked.
\<close>

record tr_fns =
  tr_display :: "json \<Rightarrow> bytes"
  tr_parse_f64 :: "bytes \<Rightarrow> f64 option"
  tr_int_f64 :: "int \<Rightarrow> f64"

section \<open>Type texts\<close>

definition before_paren :: "bytes \<Rightarrow> bytes" where
  "before_paren s = (if CHR ''('' \<in> set s then trim (takeWhile (\<lambda>c. c \<noteq> CHR ''('') s) else s)"

definition base_type :: "bytes \<Rightarrow> bytes" where
  "base_type type_text =
     (let t = trim type_text in
      if (case strip_prefix ''timestamp'' t of Some rest \<Rightarrow> sublist ''with time zone'' rest | None \<Rightarrow> False)
      then ''timestamp with time zone'' else before_paren t)"

definition strip_suffix :: "bytes \<Rightarrow> bytes \<Rightarrow> bytes option" where
  "strip_suffix p s = (if suffix p s then Some (take (length s - length p) s) else None)"

fun split_arguments :: "bytes \<Rightarrow> nat \<Rightarrow> bytes \<Rightarrow> bytes list" where
  "split_arguments [] depth current = (if trim current \<noteq> [] then [trim current] else [])"
| "split_arguments (c # s) depth current =
     (if c = CHR ''('' then split_arguments s (depth + 1) (current @ [c])
      else if c = CHR '')'' then split_arguments s (depth - 1) (current @ [c])
      else if c = CHR '','' \<and> depth = 0 then trim current # split_arguments s depth []
      else split_arguments s depth (current @ [c]))"

definition type_arguments :: "bytes \<Rightarrow> bytes \<Rightarrow> bytes list option" where
  "type_arguments type_text name =
     (case strip_prefix name (trim type_text) of
        None \<Rightarrow> None
      | Some rest \<Rightarrow>
          (case strip_prefix ''('' (trim_start rest) of
             None \<Rightarrow> None
           | Some rest \<Rightarrow> map_option (\<lambda>s. split_arguments s 0 []) (strip_suffix '')'' rest)))"

definition single_argument :: "bytes \<Rightarrow> bytes \<Rightarrow> bytes option" where
  "single_argument type_text name =
     (case type_arguments type_text name of Some [t] \<Rightarrow> Some t | _ \<Rightarrow> None)"

section \<open>Numbers\<close>

definition unmodelled :: "tr_fns \<Rightarrow> bytes \<Rightarrow> json \<Rightarrow> sql_value" where
  "unmodelled tr type_text v =
     (case v of JText s \<Rightarrow> unknown_text type_text s | _ \<Rightarrow> unknown_text type_text (tr_display tr v))"

definition json_i64 :: "json \<Rightarrow> int option" where
  "json_i64 v = (case v of JInt n \<Rightarrow> if i64_min \<le> n \<and> n \<le> i64_max then Some n else None | _ \<Rightarrow> None)"

definition json_u64 :: "json \<Rightarrow> int option" where
  "json_u64 v = (case v of JInt n \<Rightarrow> if 0 \<le> n \<and> n < 2 ^ 64 then Some n else None | _ \<Rightarrow> None)"

definition json_str :: "json \<Rightarrow> bytes option" where
  "json_str v = (case v of JText s \<Rightarrow> Some s | _ \<Rightarrow> None)"

definition tr_as_int :: "tr_fns \<Rightarrow> bytes \<Rightarrow> json \<Rightarrow> sql_value" where
  "tr_as_int tr type_text v =
     (case json_i64 v of
        Some n \<Rightarrow> VInt n
      | None \<Rightarrow>
          (case Option.bind (json_str v) parse_i64 of
             Some n \<Rightarrow> VInt n
           | None \<Rightarrow> (case json_u64 v of Some n \<Rightarrow> VUInt n | None \<Rightarrow> unmodelled tr type_text v)))"

definition tr_as_float :: "tr_fns \<Rightarrow> bytes \<Rightarrow> json \<Rightarrow> sql_value" where
  "tr_as_float tr type_text v =
     (case v of
        JFloat x \<Rightarrow> VFloat x
      | JInt n \<Rightarrow> VFloat (tr_int_f64 tr n)
      | JText s \<Rightarrow> (case tr_parse_f64 tr s of Some x \<Rightarrow> VFloat x | None \<Rightarrow> unmodelled tr type_text v)
      | _ \<Rightarrow> unmodelled tr type_text v)"

text \<open>The digits one by one, with \<open>checked_mul\<close> and \<open>checked_add\<close> of an \<open>i128\<close>.\<close>

definition i128_max :: int where "i128_max = 2 ^ 127 - 1"

fun checked_digits :: "bytes \<Rightarrow> int \<Rightarrow> int option" where
  "checked_digits [] u = Some u"
| "checked_digits (c # s) u =
     (if u * 10 > i128_max \<or> u * 10 + int (byte_val c - 48) > i128_max then None
      else checked_digits s (u * 10 + int (byte_val c - 48)))"

definition tr_parse_decimal :: "bytes \<Rightarrow> (int \<times> nat) option" where
  "tr_parse_decimal s =
     (let (negative, digits) = strip_sign (trim s) in
      case mantle_parts digits of
        None \<Rightarrow> None
      | Some (whole, fraction) \<Rightarrow>
          if length fraction > 255 then None
          else map_option (\<lambda>u. (if negative then - u else u, length fraction)) (checked_digits (whole @ fraction) 0))"

section \<open>Dates and times\<close>

definition fraction_to_micros :: "bytes \<Rightarrow> int option" where
  "fraction_to_micros fraction =
     (if fraction = [] then Some 0
      else if \<not> list_all is_ascii_digit fraction \<or> length fraction > 6 then None
      else parse_i64 (fraction @ replicate (6 - length fraction) (CHR ''0'')))"

definition tr_parse_date :: "bytes \<Rightarrow> int option" where
  "tr_parse_date s =
     (case split_on (CHR ''-'') (trim s) of
        [y, m, d] \<Rightarrow>
          (case (parse_i64 y, parse_i64 m, parse_i64 d) of
             (Some year, Some month, Some day) \<Rightarrow>
               (let n = days_from_civil year month day in if - (2 ^ 31) \<le> n \<and> n < 2 ^ 31 then Some n else None)
           | _ \<Rightarrow> None)
      | _ \<Rightarrow> None)"

definition tr_time_micros :: "bytes \<Rightarrow> int option" where
  "tr_time_micros s =
     (case split_on (CHR '':'') (trim s) of
        [h, m, seconds_text] \<Rightarrow>
          (let (sec, fraction) = (case split_once (CHR ''.'') seconds_text of Some p \<Rightarrow> p | None \<Rightarrow> (seconds_text, []))
           in case (parse_i64 h, parse_i64 m, parse_i64 sec, fraction_to_micros fraction) of
                (Some hours, Some minutes, Some seconds, Some micros) \<Rightarrow>
                  Some (hours * 3600000000 + minutes * 60000000 + seconds * 1000000 + micros)
              | _ \<Rightarrow> None)
      | _ \<Rightarrow> None)"

definition tr_split_offset :: "bytes \<Rightarrow> (bytes \<times> int) option" where
  "tr_split_offset s =
     (case rsplit_once_in [CHR '' ''] s of
        None \<Rightarrow> None
      | Some (rest, z) \<Rightarrow>
          (let zone = trim z in
           if eq_ignore_ascii_case zone ''utc'' \<or> eq_ignore_ascii_case zone ''z'' then Some (rest, 0)
           else (case (case strip_prefix ''+'' zone of
                         Some digits \<Rightarrow> Some (1, digits)
                       | None \<Rightarrow> map_option (\<lambda>digits. (- 1, digits)) (strip_prefix ''-'' zone)) of
                   None \<Rightarrow> None
                 | Some (sign, digits) \<Rightarrow>
                     (let (hours, minutes) = (case split_once (CHR '':'') digits of Some p \<Rightarrow> p | None \<Rightarrow> (digits, ''0'')) in
                      case (parse_i32 hours, parse_i32 minutes) of
                        (Some h, Some m) \<Rightarrow> Some (rest, sign * (h * 3600 + m * 60))
                      | _ \<Rightarrow> None))))"

definition tr_timestamp :: "bytes \<Rightarrow> bool \<Rightarrow> (int \<times> int option) option" where
  "tr_timestamp s has_zone =
     (let t = trim s in
      case (if has_zone then map_option (\<lambda>(rest, off). (rest, Some off)) (tr_split_offset t) else Some (t, None)) of
        None \<Rightarrow> None
      | Some (rest, offset_secs) \<Rightarrow>
          (case split_once (CHR '' '') rest of
             None \<Rightarrow> None
           | Some (day_part, clock_part) \<Rightarrow>
               (case (tr_parse_date day_part, tr_time_micros clock_part) of
                  (Some days, Some time_micros) \<Rightarrow>
                    Some (days * 86400000000 + time_micros -
                      (case offset_secs of Some off \<Rightarrow> off | None \<Rightarrow> 0) * 1000000, offset_secs)
                | _ \<Rightarrow> None)))"

section \<open>Intervals\<close>

definition in_i32 :: "int \<Rightarrow> bool" where
  "in_i32 n \<longleftrightarrow> - (2 ^ 31) \<le> n \<and> n < 2 ^ 31"

definition in_i64 :: "int \<Rightarrow> bool" where
  "in_i64 n \<longleftrightarrow> i64_min \<le> n \<and> n \<le> i64_max"

definition tr_interval_day_to_second :: "bytes \<Rightarrow> interval_value option" where
  "tr_interval_day_to_second s =
     (case split_once (CHR '' '') (trim s) of
        None \<Rightarrow> None
      | Some (days_text, clock_part) \<Rightarrow>
          (let sign = (if prefix ''-'' days_text then - 1 else 1) in
           case (parse_i64 (dropWhile (\<lambda>c. c = CHR ''+'' \<or> c = CHR ''-'') days_text), tr_time_micros clock_part) of
             (Some days, Some clock) \<Rightarrow>
               if in_i32 (sign * days) then Some \<lparr>iv_months = 0, iv_days = sign * days, iv_micros = sign * clock\<rparr> else None
           | _ \<Rightarrow> None))"

definition tr_interval_year_to_month :: "bytes \<Rightarrow> interval_value option" where
  "tr_interval_year_to_month s =
     (let (negative, rest) = strip_sign (trim s) in
      case split_once (CHR ''-'') rest of
        None \<Rightarrow> None
      | Some (years, months) \<Rightarrow>
          (case (parse_i64 (trim years), parse_i64 (trim months)) of
             (Some y, Some m) \<Rightarrow>
               (let n = y * 12 + m; sign = (if negative then - 1 else 1) in
                if in_i64 (y * 12) \<and> in_i64 n \<and> in_i32 (sign * n)
                then Some \<lparr>iv_months = sign * n, iv_days = 0, iv_micros = 0\<rparr> else None)
           | _ \<Rightarrow> None))"

section \<open>Base64\<close>

definition b64_alphabet :: bytes where
  "b64_alphabet = ''ABCDEFGHIJKLMNOPQRSTUVWXYZabcdefghijklmnopqrstuvwxyz0123456789+/''"

fun find_index :: "byte \<Rightarrow> bytes \<Rightarrow> nat option" where
  "find_index c [] = None"
| "find_index c (d # s) = (if c = d then Some 0 else map_option Suc (find_index c s))"

text \<open>The shift of a \<open>u32\<close> drops what passes its 32 bits.\<close>

fun b64_loop :: "bytes \<Rightarrow> nat \<Rightarrow> nat \<Rightarrow> bytes option" where
  "b64_loop [] buffer bits = Some []"
| "b64_loop (c # s) buffer bits =
     (if c = CHR ''='' then Some []
      else (case find_index c b64_alphabet of
              None \<Rightarrow> None
            | Some i \<Rightarrow>
                (let buffer = (buffer * 64 + i) mod 2 ^ 32; bits = bits + 6 in
                 if bits \<ge> 8 then map_option ((#) (char_of (buffer div 2 ^ (bits - 8) mod 256))) (b64_loop s buffer (bits - 8))
                 else b64_loop s buffer bits)))"

definition decode_base64 :: "bytes \<Rightarrow> bytes option" where
  "decode_base64 s = b64_loop (filter (\<lambda>c. \<not> is_ascii_whitespace c) (trim s)) 0 0"

section \<open>A cell\<close>

definition or_unmodelled :: "tr_fns \<Rightarrow> bytes \<Rightarrow> json \<Rightarrow> sql_value option \<Rightarrow> sql_value" where
  "or_unmodelled tr type_text v r = (case r of Some r \<Rightarrow> r | None \<Rightarrow> unmodelled tr type_text v)"

text \<open>The branches of \<open>decode\<close> for a type without parts.\<close>

definition decode_scalar :: "tr_fns \<Rightarrow> bytes \<Rightarrow> json \<Rightarrow> sql_value" where
  "decode_scalar tr type_text v =
     (let base = base_type type_text;
          from_str = (\<lambda>f. or_unmodelled tr type_text v (Option.bind (json_str v) f)) in
      if base = ''boolean'' then (case v of JBool flag \<Rightarrow> VBool flag | _ \<Rightarrow> unmodelled tr type_text v)
      else if base \<in> set [''tinyint'', ''smallint'', ''integer'', ''bigint''] then tr_as_int tr type_text v
      else if base \<in> set [''real'', ''double''] then tr_as_float tr type_text v
      else if base = ''decimal'' then from_str (\<lambda>s. map_option (\<lambda>(u, sc). VDecimal u sc) (tr_parse_decimal s))
      else if base \<in> set [''varchar'', ''char'', ''uuid''] then from_str (\<lambda>s. Some (VText s))
      else if base = ''varbinary'' then from_str (\<lambda>s. map_option VBytes (decode_base64 s))
      else if base = ''json'' then from_str (\<lambda>s. Some (VJson s))
      else if base = ''date'' then from_str (\<lambda>s. map_option VDate (tr_parse_date s))
      else if base = ''time'' then from_str (\<lambda>s. map_option VTime (tr_time_micros s))
      else if base \<in> set [''timestamp'', ''timestamp with time zone'']
      then from_str (\<lambda>s. map_option (\<lambda>(m, off). VTimestamp m off) (tr_timestamp s (suffix ''with time zone'' base)))
      else if eq_ignore_ascii_case base ''interval day to second''
      then from_str (\<lambda>s. map_option VInterval (tr_interval_day_to_second s))
      else if eq_ignore_ascii_case base ''interval year to month''
      then from_str (\<lambda>s. map_option VInterval (tr_interval_year_to_month s))
      else unmodelled tr type_text v)"

lemma item_size: "x \<in> set xs \<Longrightarrow> size x < Suc (size_list size xs)" for x :: json
  by (induction xs) auto

lemma entry_size: "(k, e) \<in> set es \<Longrightarrow> size e < Suc (size_list (size_prod (\<lambda>x. 0) size) es)" for e :: json
  by (induction es) auto

function decode :: "tr_fns \<Rightarrow> bytes \<Rightarrow> json \<Rightarrow> sql_value" where
  "decode tr type_text v =
     (if v = JNull then VNull
      else if base_type type_text = ''array'' then
        (case (v, single_argument type_text ''array'') of
           (JArray items, Some element) \<Rightarrow> VArray (map (\<lambda>item. decode tr element item) items)
         | _ \<Rightarrow> unmodelled tr type_text v)
      else if base_type type_text = ''row'' then
        (case (v, type_arguments type_text ''row'') of
           (JArray items, Some types) \<Rightarrow>
             if length items = length types
             then VRow (map (\<lambda>(item, type_name). decode tr type_name item) (zip items types))
             else unmodelled tr type_text v
         | _ \<Rightarrow> unmodelled tr type_text v)
      else if base_type type_text = ''map'' then
        (case (v, type_arguments type_text ''map'') of
           (JObject entries, Some [key_type, value_type]) \<Rightarrow>
             VMap (map (\<lambda>(key, entry). (decode tr key_type (JText key), decode tr value_type entry)) entries)
         | _ \<Rightarrow> unmodelled tr type_text v)
      else decode_scalar tr type_text v)"
  by pat_completeness auto
termination
  by (relation "measure (\<lambda>(tr, type_text, v). size v)") (auto intro: item_size entry_size dest!: set_zip_leftD)

declare decode.simps [simp del]

end
