(* ===== verification/MySqlText.thy ===== *)
theory MySqlText
  imports PgText
begin

text \<open>
  How the MySQL driver reads a value (\<^verbatim>\<open>crates/qh-driver-mysql/src/normalize.rs\<close>): by the type of the
  column, whether the server sent text (the text protocol) or a value already parsed (the binary one).

  The functions of the standard library that the module calls on bytes and floats are the record
  \<open>std_fns\<close>: \<open>str::from_utf8\<close> being \<open>Ok\<close>, \<open>parse::<f64>\<close>, and \<open>as f64\<close> of an integer. A \<open>Float\<close> of the
  protocol is given as the \<open>f64\<close> it converts to. Sums that the source makes in \<open>i64\<close> and \<open>u32\<close> stay inside
  the types for every value the protocol has, and are unbounded here.
\<close>

record std_fns =
  sf_utf8 :: "bytes \<Rightarrow> bool"
  sf_parse_f64 :: "bytes \<Rightarrow> f64 option"
  sf_int_f64 :: "int \<Rightarrow> f64"

section \<open>What the protocol has\<close>

datatype my_value =
    MNull
  | MBytes bytes
  | MInt int
  | MUInt int
  | MFloat f64
  | MDouble f64
  | MDate nat nat nat nat nat nat nat
  | MTime bool nat nat nat nat nat

datatype my_type =
    MyTiny | MyShort | MyInt24 | MyLong | MyLongLong | MyYear | MyFloat | MyDouble | MyDecimal | MyNewDecimal
  | MyBit | MyDateType | MyNewDate | MyDatetime | MyDatetime2 | MyTimestamp | MyTimestamp2 | MyTimeType | MyTime2
  | MyJson | MyTinyBlob | MyMediumBlob | MyLongBlob | MyBlob | MyGeometry | MyVector | MyEnum | MySet | MyString
  | MyVarString | MyVarchar | MyOther

definition BINARY_CHARSET :: nat where "BINARY_CHARSET = 63"

definition is_binary_charset :: "nat \<Rightarrow> bool" where
  "is_binary_charset character_set \<longleftrightarrow> character_set = BINARY_CHARSET"

section \<open>Readers of text\<close>

definition parse_u8 :: "bytes \<Rightarrow> int option" where
  "parse_u8 s = parse_int_in 0 255 s"

definition parse_u64 :: "bytes \<Rightarrow> int option" where
  "parse_u64 s = parse_int_in 0 (2 ^ 64 - 1) s"

definition try_i32 :: "int \<Rightarrow> int option" where
  "try_i32 n = (if - (2 ^ 31) \<le> n \<and> n < 2 ^ 31 then Some n else None)"

definition my_parse_decimal :: "bytes \<Rightarrow> sql_value option" where
  "my_parse_decimal s =
     (let t = trim s;
          (negative, digits) = (case strip_prefix ''-'' t of
              Some rest \<Rightarrow> (True, rest)
            | None \<Rightarrow> (False, case strip_prefix ''+'' t of Some rest \<Rightarrow> rest | None \<Rightarrow> t)) in
      case (case split_once_in [CHR ''e'', CHR ''E''] digits of
              Some (mantissa, exponent) \<Rightarrow> map_option (\<lambda>e. (mantissa, e)) (parse_i32 exponent)
            | None \<Rightarrow> Some (digits, 0)) of
        None \<Rightarrow> None
      | Some (mantissa, exponent) \<Rightarrow>
          (let (whole, fraction) = (case split_once (CHR ''.'') mantissa of Some p \<Rightarrow> p | None \<Rightarrow> (mantissa, [])) in
           if whole = [] \<and> fraction = [] then None
           else if \<not> list_all is_ascii_digit whole \<or> \<not> list_all is_ascii_digit fraction then None
           else (let scale = int (length fraction) - exponent; zeros = nat (- scale) in
                 if scale < 0 \<and> zeros > 64 then None
                 else (let combined = whole @ fraction @ replicate zeros (CHR ''0''); scale = max 0 scale in
                       if scale > 38 then None
                       else map_option (\<lambda>u. VDecimal (if negative then - u else u) (nat scale)) (parse_i128 combined)))))"

definition my_parse_ymd :: "bytes \<Rightarrow> (int \<times> int \<times> int) option" where
  "my_parse_ymd s =
     (case split_three (CHR ''-'') (trim s) of
        None \<Rightarrow> None
      | Some (y, m, d) \<Rightarrow>
          (case (parse_i64 y, parse_u8 m, parse_u8 d) of
             (Some year, Some month, Some day) \<Rightarrow>
               if 1 \<le> month \<and> month \<le> 12 \<and> 1 \<le> day \<and> day \<le> 31 then Some (year, month, day) else None
           | _ \<Rightarrow> None))"

definition parse_date_days :: "bytes \<Rightarrow> int option" where
  "parse_date_days s =
     (case my_parse_ymd s of None \<Rightarrow> None | Some (year, month, day) \<Rightarrow> try_i32 (days_from_civil year month day))"

definition timestamp_micros :: "int \<Rightarrow> int \<Rightarrow> int \<Rightarrow> int \<Rightarrow> int \<Rightarrow> int \<Rightarrow> int option" where
  "timestamp_micros year month day hour minute second =
     (if \<not> (1 \<le> month \<and> month \<le> 12) \<or> \<not> (1 \<le> day \<and> day \<le> 31) \<or> hour > 23 \<or> minute > 59 \<or> second > 60 then None
      else Some (days_from_civil year month day * 86400 * 1000000 + (hour * 3600 + minute * 60 + second) * 1000000))"

text \<open>The first three parts between colons; the source does not look for a fourth.\<close>

definition three_fields :: "bytes \<Rightarrow> (bytes \<times> bytes \<times> bytes) option" where
  "three_fields s = (case split_on (CHR '':'') s of h # m # sec # rest \<Rightarrow> Some (h, m, sec) | _ \<Rightarrow> None)"

definition parse_timestamp_naive :: "bytes \<Rightarrow> int option" where
  "parse_timestamp_naive s =
     (let t = trim s in
      if prefix ''0000-00-00'' t then None
      else (case split_once_in [CHR '' '', CHR ''T''] t of
              None \<Rightarrow> None
            | Some (date_part, time_part) \<Rightarrow>
                (case (my_parse_ymd date_part, three_fields time_part) of
                   (Some (year, month, day), Some (h, m, sec)) \<Rightarrow>
                     (case (parse_u8 h, parse_u8 m, seconds_field parse_u8 sec) of
                        (Some hour, Some minute, Some (second, micros)) \<Rightarrow>
                          map_option (\<lambda>base. base + micros) (timestamp_micros year month day hour minute second)
                      | _ \<Rightarrow> None)
                 | _ \<Rightarrow> None)))"

definition my_time_micros :: "bytes \<Rightarrow> int option" where
  "my_time_micros s =
     (let t = trim s;
          (negative, rest) = (case strip_prefix ''-'' t of Some rest \<Rightarrow> (True, rest) | None \<Rightarrow> (False, t)) in
      case three_fields rest of
        None \<Rightarrow> None
      | Some (h, m, sec) \<Rightarrow>
          (case (parse_i64 h, parse_i64 m, seconds_field parse_i64 sec) of
             (Some hours, Some minutes, Some (seconds, micros)) \<Rightarrow>
               if minutes > 59 \<or> seconds > 60 then None
               else (let t = (hours * 3600 + minutes * 60 + seconds) * 1000000 + micros
                     in Some (if negative then - t else t))
           | _ \<Rightarrow> None))"

section \<open>Values of a shape the column did not expect\<close>

definition text_or_bytes_of :: "std_fns \<Rightarrow> bytes \<Rightarrow> sql_value" where
  "text_or_bytes_of sf b = (if sf_utf8 sf b then VText b else VBytes b)"

text \<open>The \<open>format!\<close> of a date and of a time; the source's \<open>render_fallback\<close> has one for each, so that its
  debug form is never reached.\<close>

definition render_ymd :: "nat \<Rightarrow> nat \<Rightarrow> nat \<Rightarrow> bytes" where
  "render_ymd y m d = nat_pad 4 y @ ''-'' @ nat_pad 2 m @ ''-'' @ nat_pad 2 d"

definition render_hms :: "nat \<Rightarrow> nat \<Rightarrow> nat \<Rightarrow> bytes" where
  "render_hms h mi s = nat_pad 2 h @ '':'' @ nat_pad 2 mi @ '':'' @ nat_pad 2 s"

fun my_fallback :: "std_fns \<Rightarrow> my_value \<Rightarrow> sql_value" where
  "my_fallback sf MNull = VNull"
| "my_fallback sf (MBytes b) = text_or_bytes_of sf b"
| "my_fallback sf (MInt n) = VInt n"
| "my_fallback sf (MUInt n) = VUInt n"
| "my_fallback sf (MFloat x) = VFloat x"
| "my_fallback sf (MDouble x) = VFloat x"
| "my_fallback sf (MDate y m d h mi s us) = VText (render_ymd y m d @ '' '' @ render_hms h mi s)"
| "my_fallback sf (MTime negative days h mi s us) =
     VText ((if negative then ''-'' else []) @ render_hms (days * 24 + h) mi s)"

fun text_or_bytes :: "std_fns \<Rightarrow> my_value \<Rightarrow> bool \<Rightarrow> sql_value" where
  "text_or_bytes sf (MBytes b) is_binary = (if is_binary then VBytes b else text_or_bytes_of sf b)"
| "text_or_bytes sf v is_binary = my_fallback sf v"

section \<open>One reader for each kind of column\<close>

text \<open>Bytes as text: what is not UTF-8 stays bytes, and what does not parse stays the text.\<close>

definition read_text :: "std_fns \<Rightarrow> (bytes \<Rightarrow> sql_value option) \<Rightarrow> bytes \<Rightarrow> sql_value" where
  "read_text sf read b =
     (if \<not> sf_utf8 sf b then VBytes b else (case read b of Some v \<Rightarrow> v | None \<Rightarrow> VText b))"

fun as_integer :: "std_fns \<Rightarrow> my_value \<Rightarrow> sql_value" where
  "as_integer sf (MInt n) = VInt n"
| "as_integer sf (MUInt n) = VUInt n"
| "as_integer sf (MBytes b) =
     read_text sf (\<lambda>b. case parse_i64 b of Some n \<Rightarrow> Some (VInt n) | None \<Rightarrow> map_option VUInt (parse_u64 b)) b"
| "as_integer sf v = my_fallback sf v"

fun as_float :: "std_fns \<Rightarrow> my_value \<Rightarrow> sql_value" where
  "as_float sf (MFloat x) = VFloat x"
| "as_float sf (MDouble x) = VFloat x"
| "as_float sf (MInt n) = VFloat (sf_int_f64 sf n)"
| "as_float sf (MUInt n) = VFloat (sf_int_f64 sf n)"
| "as_float sf (MBytes b) = read_text sf (\<lambda>b. map_option VFloat (sf_parse_f64 sf b)) b"
| "as_float sf v = my_fallback sf v"

fun as_decimal :: "std_fns \<Rightarrow> my_value \<Rightarrow> sql_value" where
  "as_decimal sf (MBytes b) = read_text sf my_parse_decimal b"
| "as_decimal sf (MInt n) = VDecimal n 0"
| "as_decimal sf (MUInt n) = VDecimal n 0"
| "as_decimal sf v = my_fallback sf v"

definition date_from_parts :: "nat \<Rightarrow> nat \<Rightarrow> nat \<Rightarrow> sql_value option" where
  "date_from_parts year month day =
     (if \<not> (1 \<le> month \<and> month \<le> 12) \<or> \<not> (1 \<le> day \<and> day \<le> 31) then None
      else map_option VDate (try_i32 (days_from_civil (int year) (int month) (int day))))"

fun as_date :: "std_fns \<Rightarrow> my_value \<Rightarrow> sql_value" where
  "as_date sf (MDate y m d h mi s us) =
     (case date_from_parts y m d of
        Some v \<Rightarrow> v
      | None \<Rightarrow> VText (render_ymd y m d))"
| "as_date sf (MBytes b) = read_text sf (\<lambda>b. map_option VDate (parse_date_days b)) b"
| "as_date sf v = my_fallback sf v"

fun as_timestamp :: "std_fns \<Rightarrow> my_value \<Rightarrow> sql_value" where
  "as_timestamp sf (MDate y m d h mi s us) =
     (case timestamp_micros (int y) (int m) (int d) (int h) (int mi) (int s) of
        Some base \<Rightarrow> VTimestamp (base + int us) None
      | None \<Rightarrow> VText (render_ymd y m d @ '' '' @ render_hms h mi s))"
| "as_timestamp sf (MBytes b) = read_text sf (\<lambda>b. map_option (\<lambda>m. VTimestamp m None) (parse_timestamp_naive b)) b"
| "as_timestamp sf v = my_fallback sf v"

text \<open>A \<open>TIME\<close> that is not a time of day is an interval.\<close>

definition time_or_interval :: "int \<Rightarrow> sql_value" where
  "time_or_interval t =
     (if 0 \<le> t \<and> t < 86400000000 then VTime t
      else VInterval \<lparr>iv_months = 0, iv_days = 0, iv_micros = t\<rparr>)"

fun as_time :: "std_fns \<Rightarrow> my_value \<Rightarrow> sql_value" where
  "as_time sf (MTime negative days h mi s us) =
     (let t = (int days * 86400 + int h * 3600 + int mi * 60 + int s) * 1000000 + int us
      in time_or_interval (if negative then - t else t))"
| "as_time sf (MBytes b) = read_text sf (\<lambda>b. map_option time_or_interval (my_time_micros b)) b"
| "as_time sf v = my_fallback sf v"

text \<open>\<open>to_be_bytes\<close> of a 64-bit integer.\<close>

definition be_bytes :: "int \<Rightarrow> bytes" where
  "be_bytes n = map (\<lambda>k. char_of (nat (n div 256 ^ k mod 256))) (rev [0..<8])"

fun as_bytes :: "std_fns \<Rightarrow> my_value \<Rightarrow> sql_value" where
  "as_bytes sf (MBytes b) = VBytes b"
| "as_bytes sf (MInt n) = VBytes (be_bytes n)"
| "as_bytes sf (MUInt n) = VBytes (be_bytes n)"
| "as_bytes sf v = my_fallback sf v"

fun as_bytes_value :: "std_fns \<Rightarrow> my_value \<Rightarrow> sql_value" where
  "as_bytes_value sf (MBytes b) = VBytes b"
| "as_bytes_value sf v = my_fallback sf v"

fun as_json :: "std_fns \<Rightarrow> my_value \<Rightarrow> sql_value" where
  "as_json sf (MBytes b) = (if sf_utf8 sf b then VJson b else VBytes b)"
| "as_json sf v = my_fallback sf v"

section \<open>A cell\<close>

definition my_from_value :: "std_fns \<Rightarrow> my_type \<Rightarrow> my_value option \<Rightarrow> bool \<Rightarrow> sql_value" where
  "my_from_value sf column_type cell is_binary =
     (case cell of
        None \<Rightarrow> VNull
      | Some v \<Rightarrow>
          if v = MNull then VNull
          else if column_type \<in> set [MyTiny, MyShort, MyInt24, MyLong, MyLongLong, MyYear] then as_integer sf v
          else if column_type \<in> set [MyFloat, MyDouble] then as_float sf v
          else if column_type \<in> set [MyDecimal, MyNewDecimal] then as_decimal sf v
          else if column_type = MyBit then as_bytes sf v
          else if column_type \<in> set [MyDateType, MyNewDate] then as_date sf v
          else if column_type \<in> set [MyDatetime, MyDatetime2, MyTimestamp, MyTimestamp2] then as_timestamp sf v
          else if column_type \<in> set [MyTimeType, MyTime2] then as_time sf v
          else if column_type = MyJson then as_json sf v
          else if column_type \<in> set [MyGeometry, MyVector] then as_bytes_value sf v
          else text_or_bytes sf v is_binary)"

text \<open>The name of the type: the flags say what the code of a \<open>STRING\<close> column does not.\<close>

definition flags_name :: "my_type \<Rightarrow> bool \<Rightarrow> bool \<Rightarrow> bytes option" where
  "flags_name column_type enum_flag set_flag =
     (if column_type \<noteq> MyString then None
      else if enum_flag then Some ''enum'' else if set_flag then Some ''set'' else None)"

definition my_type_name :: "my_type \<Rightarrow> bool \<Rightarrow> bool \<Rightarrow> bytes" where
  "my_type_name column_type enum_flag set_flag =
     (case flags_name column_type enum_flag set_flag of
        Some name \<Rightarrow> name
      | None \<Rightarrow>
          (case column_type of
             MyTiny \<Rightarrow> ''tinyint'' | MyShort \<Rightarrow> ''smallint'' | MyInt24 \<Rightarrow> ''mediumint'' | MyLong \<Rightarrow> ''int''
           | MyLongLong \<Rightarrow> ''bigint'' | MyFloat \<Rightarrow> ''float'' | MyDouble \<Rightarrow> ''double'' | MyDecimal \<Rightarrow> ''decimal''
           | MyNewDecimal \<Rightarrow> ''decimal'' | MyDateType \<Rightarrow> ''date'' | MyNewDate \<Rightarrow> ''date'' | MyDatetime \<Rightarrow> ''datetime''
           | MyDatetime2 \<Rightarrow> ''datetime'' | MyTimestamp \<Rightarrow> ''timestamp'' | MyTimestamp2 \<Rightarrow> ''timestamp''
           | MyTimeType \<Rightarrow> ''time'' | MyTime2 \<Rightarrow> ''time'' | MyYear \<Rightarrow> ''year'' | MyBit \<Rightarrow> ''bit'' | MyJson \<Rightarrow> ''json''
           | MyEnum \<Rightarrow> ''enum'' | MySet \<Rightarrow> ''set'' | MyTinyBlob \<Rightarrow> ''tinyblob'' | MyMediumBlob \<Rightarrow> ''mediumblob''
           | MyLongBlob \<Rightarrow> ''longblob'' | MyBlob \<Rightarrow> ''blob'' | MyGeometry \<Rightarrow> ''geometry'' | MyVector \<Rightarrow> ''vector''
           | MyVarchar \<Rightarrow> ''varchar'' | MyVarString \<Rightarrow> ''varchar'' | MyString \<Rightarrow> ''char'' | MyOther \<Rightarrow> ''unknown''))"

end
