(* ===== verification/Codec.thy ===== *)
theory Codec
  imports QHPrelude
begin

text \<open>
  The contract between a writer of texts and the reader of a driver: what the writer prints for a value in
  its domain the reader parses as that value. The lemmas are what a client of such a pair has from it.
\<close>

locale codec =
  fixes covers :: "'a \<Rightarrow> bool"
    and print :: "'a \<Rightarrow> bytes"
    and parse :: "bytes \<Rightarrow> 'a option"
  assumes reads_back: "covers v \<Longrightarrow> parse (print v) = Some v"
begin

lemma prints_injectively: "covers v \<Longrightarrow> covers w \<Longrightarrow> print v = print w \<Longrightarrow> v = w"
  by (metis option.inject reads_back)

lemma reprinted: "covers v \<Longrightarrow> map_option print (parse (print v)) = Some (print v)"
  by (simp add: reads_back)

lemma column_reads_back: "list_all covers vs \<Longrightarrow> map parse (map print vs) = map Some vs"
  by (induction vs) (simp_all add: reads_back)

end

text \<open>A reader that takes a prefix of its text: what follows is left for the next one.\<close>

locale prefix_codec =
  fixes covers :: "'a \<Rightarrow> bool"
    and print :: "'a \<Rightarrow> bytes"
    and parse :: "bytes \<Rightarrow> ('a \<times> bytes) option"
  assumes reads_prefix: "covers v \<Longrightarrow> parse (print v @ rest) = Some (v, rest)"
begin

lemma prints_uniquely:
  assumes "covers v" "covers w" "print v @ r = print w @ s"
  shows "v = w \<and> r = s"
proof -
  have "Some (v, r) = parse (print v @ r)" by (rule reads_prefix [OF assms(1), symmetric])
  also have "\<dots> = parse (print w @ s)" by (rule arg_cong [OF assms(3)])
  also have "\<dots> = Some (w, s)" by (rule reads_prefix [OF assms(2)])
  finally show ?thesis by blast
qed

lemma prefix_free:
  assumes "covers v" "covers w" "prefix (print v) (print w)"
  shows "v = w"
proof -
  obtain r where "print v @ r = print w @ []" using assms(3) by (auto elim: prefixE)
  with prints_uniquely [OF assms(1,2)] show ?thesis by blast
qed

end

sublocale prefix_codec \<subseteq> whole: codec covers print "\<lambda>s. map_option fst (parse s)"
proof
  show "map_option fst (parse (print v)) = Some v" if "covers v" for v
    using reads_prefix [OF that, of "[]"] by simp
qed

end
