(* ===== verification/PgRoundTrip.thy ===== *)
theory PgRoundTrip
  imports PgText Codec
begin

text \<open>
  What the engine writes for a cell (\<open>Values\<close>) is what the PostgreSQL driver reads back (\<open>PgText\<close>):
  decimals with every digit, dates, times, timestamps and the bytes of a hexadecimal \<open>bytea\<close>.
\<close>

section \<open>Decimals\<close>

lemma strip_sign_signed:
  assumes "d \<noteq> []" "is_ascii_digit (hd d)"
  shows "strip_sign ((if neg then ''-'' else []) @ d) = (neg, d)"
proof -
  obtain c r where d: "d = c # r" using assms(1) by (cases d) auto
  with assms(2) have "c \<noteq> CHR ''-''" "c \<noteq> CHR ''+''" by (auto simp: is_ascii_digit_def)
  then show ?thesis using d by (simp add: strip_sign_def strip_prefix_def prefix_def)
qed

text \<open>The digits of a decimal: a whole part and, for a scale above zero, a fraction of that length.\<close>

definition decimal_parts :: "nat \<Rightarrow> nat \<Rightarrow> bytes \<times> bytes" where
  "decimal_parts n scale =
     (let digits = nat_bytes n in
      if length digits \<le> scale then (''0'', replicate (scale - length digits) (CHR ''0'') @ digits)
      else (take (length digits - scale) digits, drop (length digits - scale) digits))"

lemma decimal_parts:
  assumes "decimal_parts n scale = (w, f)"
  shows "all_digits w" "list_all is_ascii_digit f" "length f = scale" "digits_val (w @ f) = n"
proof -
  let ?d = "nat_bytes n"
  have d: "?d \<noteq> []" "list_all is_ascii_digit ?d" using nat_bytes_digits [of n] by simp_all
  have "all_digits w \<and> list_all is_ascii_digit f \<and> length f = scale \<and> digits_val (w @ f) = n"
  proof (cases "length ?d \<le> scale")
    case True
    then have w: "w = ''0''" and f: "f = replicate (scale - length ?d) (CHR ''0'') @ ?d"
      using assms by (simp_all add: decimal_parts_def Let_def)
    have "w @ f = replicate (Suc (scale - length ?d)) (CHR ''0'') @ ?d" by (simp add: w f)
    then have "digits_val (w @ f) = n" by (simp only: digits_val_zeros digits_val_nat_bytes)
    then show ?thesis using d True
      by (auto simp: w f all_digits_def is_ascii_digit_def list_all_iff)
  next
    case False
    then have "w = take (length ?d - scale) ?d" "f = drop (length ?d - scale) ?d"
      using assms by (simp_all add: decimal_parts_def Let_def)
    with d False show ?thesis
      by (auto simp: all_digits_def list_all_iff dest: in_set_takeD in_set_dropD)
  qed
  then show "all_digits w" "list_all is_ascii_digit f" "length f = scale" "digits_val (w @ f) = n" by simp_all
qed

lemma decimal_text_parts:
  assumes "decimal_parts (nat \<bar>u\<bar>) scale = (w, f)"
  shows "decimal_text u scale = (if u < 0 then ''-'' else []) @ w @ (if scale = 0 then [] else CHR ''.'' # f)"
  using assms nat_bytes_digits [of "nat \<bar>u\<bar>"]
  by (auto simp: decimal_text_def decimal_parts_def int_bytes_def Let_def split: if_splits)

lemma digits_no_e: "list_all is_ascii_digit s \<Longrightarrow> set s \<inter> set [CHR ''e'', CHR ''E''] = {}"
  by (auto simp: list_all_iff is_ascii_digit_def)

text \<open>The two forms of the mantissa, whatever the sign in front of it.\<close>

definition plain_mantissa :: "bytes \<Rightarrow> bytes \<Rightarrow> bytes" where
  "plain_mantissa w f = w @ (if f = [] then [] else CHR ''.'' # f)"

lemma plain_mantissa_trim:
  assumes "all_digits w" "list_all is_ascii_digit f"
  shows "trim ((if neg then ''-'' else []) @ plain_mantissa w f) = (if neg then ''-'' else []) @ plain_mantissa w f"
proof -
  have w: "w \<noteq> []" "is_ascii_digit (hd w)" "is_ascii_digit (last w)"
    using assms(1) by (auto simp: all_digits_def list_all_iff)
  have f: "f \<noteq> [] \<Longrightarrow> is_ascii_digit (last f)" using assms(2) by (auto simp: list_all_iff)
  show ?thesis
    by (rule trim_plain) (use w f in \<open>auto simp: plain_mantissa_def is_ascii_digit_def\<close>)
qed

lemma plain_mantissa_sign:
  assumes "all_digits w"
  shows "strip_sign ((if neg then ''-'' else []) @ plain_mantissa w f) = (neg, plain_mantissa w f)"
  by (rule strip_sign_signed) (use assms in \<open>auto simp: plain_mantissa_def all_digits_def list_all_iff\<close>)

lemma plain_mantissa_split:
  assumes "all_digits w" "list_all is_ascii_digit f"
  shows "split_once_in [CHR ''e'', CHR ''E''] (plain_mantissa w f) = None"
    and "mantle_parts (plain_mantissa w f) = Some (w, f)"
proof -
  have "set (plain_mantissa w f) \<inter> set [CHR ''e'', CHR ''E''] = {}"
    using assms by (auto simp: plain_mantissa_def all_digits_def list_all_iff is_ascii_digit_def)
  then show "split_once_in [CHR ''e'', CHR ''E''] (plain_mantissa w f) = None" by (rule split_once_in_free)
  have w: "CHR ''.'' \<notin> set w" using assms(1) by (intro digits_free) (simp_all add: all_digits_def)
  then show "mantle_parts (plain_mantissa w f) = Some (w, f)"
    using assms by (auto simp: mantle_parts_def plain_mantissa_def all_digits_def)
qed

lemma decimal_text_mantissa:
  assumes "decimal_parts (nat \<bar>u\<bar>) scale = (w, f)"
  shows "decimal_text u scale = (if u < 0 then ''-'' else []) @ plain_mantissa w f"
  using decimal_text_parts [OF assms] decimal_parts(3) [OF assms] by (auto simp: plain_mantissa_def)

lemma pg_decimal_text:
  assumes u: "\<bar>u\<bar> < 2 ^ 127" and s: "scale \<le> 38"
  shows "pg_decimal (decimal_text u scale) = Some (u, scale)"
proof -
  obtain w f where p: "decimal_parts (nat \<bar>u\<bar>) scale = (w, f)" by (metis surj_pair)
  note d = decimal_parts [OF p]
  have "parse_i128 (w @ f) = Some \<bar>u\<bar>"
    unfolding parse_i128_def using parse_digits [of "w @ f" "- (2 ^ 127)" "2 ^ 127 - 1"] all_digits_append [OF d(1,2)] u
    by (simp add: d(4))
  then show ?thesis
    using d(3) s unfolding decimal_text_mantissa [OF p] pg_decimal_def plain_mantissa_trim [OF d(1,2)]
      plain_mantissa_sign [OF d(1)]
    by (auto simp: plain_mantissa_split [OF d(1,2)] Let_def)
qed

section \<open>Clocks\<close>

text \<open>\<open>HH:MM:SS\<close> with its fraction, as \<open>time_text\<close> and, with hours of any width, \<open>write_interval\<close> write it.\<close>

definition clock_seconds :: "nat \<Rightarrow> nat \<Rightarrow> bytes" where
  "clock_seconds s f = nat_pad 2 s @ (if f = 0 then [] else CHR ''.'' # nat_pad 6 f)"

definition clock_text :: "nat \<Rightarrow> nat \<Rightarrow> nat \<Rightarrow> nat \<Rightarrow> nat \<Rightarrow> bytes" where
  "clock_text w h m s f = nat_pad w h @ CHR '':'' # nat_pad 2 m @ CHR '':'' # clock_seconds s f"

lemma time_text_clock:
  "0 \<le> t \<Longrightarrow> time_text t = clock_text 2 (nat t div 1000000 div 3600) (nat t div 1000000 mod 3600 div 60)
     (nat t div 1000000 mod 60) (nat t mod 1000000)"
  by (simp add: time_text_def clock_text_def clock_seconds_def Let_def)

lemma pad_no: "c \<in> {CHR '':'', CHR ''-'', CHR ''+'', CHR ''.'', CHR '' '', CHR ''T''} \<Longrightarrow> c \<notin> set (nat_pad w n)"
  by (rule digits_free) simp_all

lemma seconds_no: "c \<in> {CHR '':'', CHR ''-'', CHR ''+'', CHR '' '', CHR ''T''} \<Longrightarrow> c \<notin> set (clock_seconds s f)"
  using pad_no [of c] by (auto simp: clock_seconds_def)

lemma clock_no: "c \<in> {CHR ''-'', CHR ''+'', CHR '' '', CHR ''T''} \<Longrightarrow> c \<notin> set (clock_text w h m s f)"
  using pad_no [of c] seconds_no [of c] by (auto simp: clock_text_def)

lemma pad_ends: "nat_pad w n \<noteq> [] \<and> is_ascii_digit (hd (nat_pad w n)) \<and> is_ascii_digit (last (nat_pad w n))"
  using all_digits_pad [of w n] unfolding all_digits_def list_all_iff by auto

lemma seconds_ends:
  "clock_seconds s f \<noteq> [] \<and> is_ascii_digit (hd (clock_seconds s f)) \<and> is_ascii_digit (last (clock_seconds s f))"
  using pad_ends [of 2 s] pad_ends [of 6 f] by (auto simp: clock_seconds_def)

lemma clock_ends:
  "clock_text w h m s f \<noteq> [] \<and> is_ascii_digit (hd (clock_text w h m s f)) \<and> is_ascii_digit (last (clock_text w h m s f))"
  using pad_ends [of w h] seconds_ends [of s f] by (auto simp: clock_text_def)

lemma trim_ends: "s \<noteq> [] \<and> is_ascii_digit (hd s) \<and> is_ascii_digit (last s) \<Longrightarrow> trim s = s"
  by (rule trim_plain) (auto simp: is_ascii_digit_def)

lemma trim_clock [simp]: "trim (clock_text w h m s f) = clock_text w h m s f"
  and trim_seconds [simp]: "trim (clock_seconds s f) = clock_seconds s f"
  and trim_pad [simp]: "trim (nat_pad w n) = nat_pad w n"
  by (intro trim_ends clock_ends seconds_ends pad_ends)+

lemma split_clock: "split_on (CHR '':'') (clock_text w h m s f) = [nat_pad w h, nat_pad 2 m, clock_seconds s f]"
  unfolding clock_text_def by (simp add: pad_no seconds_no)

lemma parse_pad: "int n \<le> hi \<Longrightarrow> lo \<le> 0 \<Longrightarrow> parse_int_in lo hi (nat_pad w n) = Some (int n)"
  using parse_digits [OF all_digits_pad, of lo w n hi] by simp

lemma parse_fraction_pad:
  assumes "f < 1000000"
  shows "parse_fraction (nat_pad 6 f) = Some (int f)"
proof -
  have "length (nat_pad 6 f) = 6" using assms by (intro length_nat_pad) simp_all
  moreover have "parse_i64 (nat_pad 6 f) = Some (int f)"
    unfolding parse_i64_def using assms by (intro parse_pad) (simp_all add: i64_min_def i64_max_def)
  ultimately show ?thesis using pad_ends [of 6 f] by (simp add: parse_fraction_def)
qed

text \<open>Whatever unsigned or signed type the seconds are read as.\<close>

lemma seconds_field_clock:
  assumes "\<And>w. parse (nat_pad w s) = Some (int s)" "f < 1000000"
  shows "seconds_field parse (clock_seconds s f) = Some (int s, int f)"
  using assms parse_fraction_pad [of f]
  by (cases "f = 0") (simp_all add: seconds_field_def clock_seconds_def pad_no)

lemma pg_clock_text:
  assumes "h \<le> 24" "m \<le> 59" "s \<le> 60" "f < 1000000"
  shows "pg_clock (clock_text w h m s f) = Some (int h, int m, int s, int f)"
proof -
  have p: "parse_u32 (nat_pad w n) = Some (int n)" if "n \<le> 60" for n w
    unfolding parse_u32_def using that by (intro parse_pad) simp_all
  have "seconds_field parse_u32 (clock_seconds s f) = Some (int s, int f)"
    using p [of s] assms(3,4) by (intro seconds_field_clock) auto
  with assms p [of h] p [of m] show ?thesis by (simp add: pg_clock_def split_clock)
qed


section \<open>Dates, times and timestamps\<close>

definition ymd_text :: "nat \<Rightarrow> nat \<Rightarrow> nat \<Rightarrow> bytes" where
  "ymd_text y m d = nat_pad 4 y @ CHR ''-'' # nat_pad 2 m @ CHR ''-'' # nat_pad 2 d"

lemma date_text_ymd:
  "civil_from_days n = (y, m, d) \<Longrightarrow> 0 \<le> y \<Longrightarrow> date_text n = ymd_text (nat y) (nat m) (nat d)"
  using days_of_civil [of n] by (simp add: date_text_def ymd_text_def int_pad_def valid_date_def)

lemma ymd_no: "c \<in> {CHR '' '', CHR ''T'', CHR '':'', CHR ''+''} \<Longrightarrow> c \<notin> set (ymd_text y m d)"
  using pad_no [of c] by (auto simp: ymd_text_def)

lemma ymd_ends:
  "ymd_text y m d \<noteq> [] \<and> is_ascii_digit (hd (ymd_text y m d)) \<and> is_ascii_digit (last (ymd_text y m d))"
  using pad_ends [of 4 y] pad_ends [of 2 d] by (auto simp: ymd_text_def)

lemma trim_ymd [simp]: "trim (ymd_text y m d) = ymd_text y m d"
  by (rule trim_ends [OF ymd_ends])

lemma pg_ymd_text:
  assumes "int y \<le> i64_max" "1 \<le> m" "m \<le> 12" "1 \<le> d" "d \<le> 31"
  shows "pg_ymd (ymd_text y m d) = Some (int y, int m, int d)"
proof -
  have "parse_i64 (nat_pad 4 y) = Some (int y)"
    unfolding parse_i64_def using assms(1) by (intro parse_pad) (simp_all add: i64_min_def)
  moreover have "parse_u32 (nat_pad 2 m) = Some (int m)" "parse_u32 (nat_pad 2 d) = Some (int d)"
    unfolding parse_u32_def using assms by (auto intro!: parse_pad)
  ultimately show ?thesis using assms by (simp add: pg_ymd_def split_three_def ymd_text_def pad_no)
qed

text \<open>What \<open>date_text\<close> and \<open>days_from_civil\<close> have of a day number whose year is not negative.\<close>

lemma date_text_parts:
  assumes "civil_from_days n = (y, mo, d)" "0 \<le> y" "y \<le> i64_max"
  shows "date_text n = ymd_text (nat y) (nat mo) (nat d)" "pg_ymd (date_text n) = Some (y, mo, d)"
    "days_from_civil y mo d = n"
proof -
  have v: "valid_date y mo d" and n: "days_from_civil y mo d = n" using days_of_civil [of n] assms(1) by simp_all
  then have "1 \<le> mo" "mo \<le> 12" "1 \<le> d" "d \<le> 31"
    by (auto simp: valid_date_def month_length_def split: if_splits)
  with pg_ymd_text [of "nat y" "nat mo" "nat d"] assms show "pg_ymd (date_text n) = Some (y, mo, d)"
    by (simp add: date_text_ymd)
  from assms show "date_text n = ymd_text (nat y) (nat mo) (nat d)" by (simp add: date_text_ymd)
qed (use days_of_civil [of n] assms in simp)

lemma wrap32_id: "- (2 ^ 31) \<le> i \<Longrightarrow> i < 2 ^ 31 \<Longrightarrow> wrap32 i = i"
  by (simp add: wrap32_def)

lemma pg_days_text:
  assumes "civil_from_days n = (y, mo, d)" "0 \<le> y" "y \<le> i64_max" "- (2 ^ 31) \<le> n" "n < 2 ^ 31"
  shows "pg_days (date_text n) = Some n"
  using date_text_parts [OF assms(1-3)] wrap32_id [OF assms(4,5)] by (simp add: pg_days_def)

lemma no_offset: "CHR ''+'' \<notin> set s \<Longrightarrow> CHR ''-'' \<notin> set s \<Longrightarrow> pg_split_offset s = (s, None)"
  by (simp add: pg_split_offset_def rsplit_once_in_def)

lemma clock_no_offset: "pg_split_offset (clock_text w h m s f) = (clock_text w h m s f, None)"
  by (rule no_offset) (simp_all add: clock_no)

text \<open>The fields of a number of microseconds, and the number from its fields.\<close>

lemma clock_fields:
  fixes t :: int
  assumes "0 \<le> t" "t < 90000000000"
  defines "u \<equiv> nat t"
  shows "u div 1000000 div 3600 \<le> 24" "u div 1000000 mod 3600 div 60 \<le> 59" "u div 1000000 mod 60 \<le> 60"
    "u mod 1000000 < 1000000"
    "(int (u div 1000000 div 3600) * 3600 + int (u div 1000000 mod 3600 div 60) * 60 + int (u div 1000000 mod 60)) *
       1000000 + int (u mod 1000000) = t"
proof -
  define q where "q = u div 1000000"
  have u: "u < 90000000000" "int u = t" using assms by (simp_all add: nat_less_iff)
  then have "q < 90000" by (simp add: q_def less_mult_imp_div_less)
  then show "u div 1000000 div 3600 \<le> 24" unfolding q_def [symmetric] by simp
  show "u div 1000000 mod 3600 div 60 \<le> 59" "u div 1000000 mod 60 \<le> 60"
    unfolding q_def [symmetric] by (simp_all add: less_Suc_eq_le [symmetric] less_mult_imp_div_less)
  have "q = q div 3600 * 3600 + q mod 3600 div 60 * 60 + q mod 3600 mod 60" by simp
  moreover have "q mod 3600 mod 60 = q mod 60" by (rule mod_mod_cancel) simp
  ultimately have "q = q div 3600 * 3600 + q mod 3600 div 60 * 60 + q mod 60" by simp
  moreover have "u = q * 1000000 + u mod 1000000" by (simp add: q_def)
  ultimately have "u = (q div 3600 * 3600 + q mod 3600 div 60 * 60 + q mod 60) * 1000000 + u mod 1000000" by simp
  then have "int u = int ((q div 3600 * 3600 + q mod 3600 div 60 * 60 + q mod 60) * 1000000 + u mod 1000000)" by simp
  then show "(int (u div 1000000 div 3600) * 3600 + int (u div 1000000 mod 3600 div 60) * 60 +
      int (u div 1000000 mod 60)) * 1000000 + int (u mod 1000000) = t"
    unfolding q_def [symmetric] u(2) by simp
qed simp

lemma pg_clock_time:
  assumes "0 \<le> t" "t < 90000000000"
  shows "\<exists>h m s f. pg_clock (time_text t) = Some (h, m, s, f) \<and> (h * 3600 + m * 60 + s) * 1000000 + f = t"
  unfolding time_text_clock [OF assms(1)]
  using pg_clock_text [OF clock_fields(1-4) [OF assms]] clock_fields(5) [OF assms] by blast

lemma time_text_no: "0 \<le> t \<Longrightarrow> c \<in> {CHR ''-'', CHR ''+'', CHR '' '', CHR ''T''} \<Longrightarrow> c \<notin> set (time_text t)"
  by (simp only: time_text_clock clock_no not_False_eq_True)

lemma pg_time_micros_text:
  assumes "0 \<le> t" "t < 90000000000"
  shows "pg_time_micros (time_text t) = Some t"
proof -
  have "trim (time_text t) = time_text t" by (simp add: time_text_clock assms(1))
  moreover have "pg_split_offset (time_text t) = (time_text t, None)" using assms(1) by (simp add: no_offset time_text_no)
  ultimately show ?thesis using pg_clock_time [OF assms] by (auto simp: pg_time_micros_def)
qed

section \<open>Offsets and timestamps\<close>

definition whole_minutes :: "int \<Rightarrow> bool" where
  "whole_minutes offset \<longleftrightarrow> \<bar>offset\<bar> < 54000 \<and> offset mod 60 = 0"

definition offset_digits :: "int \<Rightarrow> bytes" where
  "offset_digits offset = nat_pad 2 (nat \<bar>offset\<bar> div 3600) @ CHR '':'' # nat_pad 2 (nat \<bar>offset\<bar> mod 3600 div 60)"

lemma offset_text_digits:
  "offset_text offset = (if offset < 0 then CHR ''-'' else CHR ''+'') # offset_digits offset"
  by (simp add: offset_text_def offset_digits_def Let_def)

lemma offset_digits_no: "c \<in> {CHR ''-'', CHR ''+'', CHR '' '', CHR ''T''} \<Longrightarrow> c \<notin> set (offset_digits offset)"
  using pad_no [of c] by (auto simp: offset_digits_def)

lemma offset_digits_ends:
  "offset_digits offset \<noteq> [] \<and> is_ascii_digit (hd (offset_digits offset)) \<and> is_ascii_digit (last (offset_digits offset))"
  using pad_ends [of 2 "nat \<bar>offset\<bar> div 3600"] pad_ends [of 2 "nat \<bar>offset\<bar> mod 3600 div 60"]
  by (auto simp: offset_digits_def)

lemma offset_fields:
  assumes "whole_minutes offset"
  defines "a \<equiv> nat \<bar>offset\<bar>"
  shows "a div 3600 \<le> 14" "a mod 3600 div 60 \<le> 59"
    "(if offset < 0 then - 1 else 1) * (int (a div 3600) * 3600 + int (a mod 3600 div 60) * 60) = offset"
proof -
  have a: "a < 54000" "int a = \<bar>offset\<bar>" using assms(1) by (simp_all add: a_def whole_minutes_def nat_less_iff)
  have "\<bar>offset\<bar> mod 60 = 0" using assms(1) by (simp add: whole_minutes_def abs_if zmod_zminus1_eq_if)
  then have "int a mod int 60 = int 0" using a(2) by simp
  then have m: "a mod 60 = 0" by (simp only: zmod_int [symmetric] of_nat_eq_iff)
  show "a div 3600 \<le> 14" using a(1) by (simp add: less_Suc_eq_le [symmetric] less_mult_imp_div_less)
  show "a mod 3600 div 60 \<le> 59" by (simp add: less_Suc_eq_le [symmetric] less_mult_imp_div_less)
  have "a mod 3600 mod 60 = a mod 60" by (rule mod_mod_cancel) simp
  moreover have "a = a div 3600 * 3600 + (a mod 3600 div 60 * 60 + a mod 3600 mod 60)" by simp
  ultimately have "a = a div 3600 * 3600 + a mod 3600 div 60 * 60" using m by simp
  then have "int a = int (a div 3600 * 3600 + a mod 3600 div 60 * 60)" by simp
  then have "int (a div 3600) * 3600 + int (a mod 3600 div 60) * 60 = \<bar>offset\<bar>" using a(2) by simp
  then show "(if offset < 0 then - 1 else 1) * (int (a div 3600) * 3600 + int (a mod 3600 div 60) * 60) = offset"
    by simp
qed

lemma pg_offset_seconds_fields:
  assumes "split_on (CHR '':'') rest = [a, b]" "parse_i32 a = Some h" "parse_i32 b = Some m" "h \<le> 14" "m \<le> 59"
    "c = CHR ''+'' \<or> c = CHR ''-''"
  shows "pg_offset_seconds (c # rest) = Some ((if c = CHR ''-'' then - 1 else 1) * (h * 3600 + m * 60))"
  using assms by (simp add: pg_offset_seconds_def Let_def) auto

lemma pg_offset_text:
  assumes "whole_minutes offset"
  shows "pg_offset_seconds (offset_text offset) = Some offset"
proof -
  define h where "h = nat \<bar>offset\<bar> div 3600"
  define m where "m = nat \<bar>offset\<bar> mod 3600 div 60"
  note f = offset_fields [OF assms, folded h_def m_def]
  have "split_on (CHR '':'') (offset_digits offset) = [nat_pad 2 h, nat_pad 2 m]"
    unfolding offset_digits_def h_def [symmetric] m_def [symmetric] by (simp add: pad_no)
  moreover have "parse_i32 (nat_pad 2 h) = Some (int h)" "parse_i32 (nat_pad 2 m) = Some (int m)"
    unfolding parse_i32_def by (intro parse_pad; use f in simp)+
  ultimately have "pg_offset_seconds (c # offset_digits offset) =
      Some ((if c = CHR ''-'' then - 1 else 1) * (int h * 3600 + int m * 60))" if "c = CHR ''+'' \<or> c = CHR ''-''" for c
    using that f(1,2) by (intro pg_offset_seconds_fields) simp_all
  from this [of "if offset < 0 then CHR ''-'' else CHR ''+''"] f(3) show ?thesis
    by (simp add: offset_text_digits split: if_splits)
qed

definition offset_part :: "int option \<Rightarrow> bytes" where
  "offset_part offset_secs = (case offset_secs of Some offset \<Rightarrow> offset_text offset | None \<Rightarrow> [])"

definition wall_clock :: "int \<Rightarrow> int option \<Rightarrow> int" where
  "wall_clock micros offset_secs = (case offset_secs of Some offset \<Rightarrow> micros + offset * 1000000 | None \<Rightarrow> micros)"

lemma timestamp_text_parts:
  "timestamp_text micros offset_secs = date_text (wall_clock micros offset_secs div 86400000000) @
     CHR '' '' # time_text (wall_clock micros offset_secs mod 86400000000) @ offset_part offset_secs"
  by (simp add: timestamp_text_def wall_clock_def offset_part_def Let_def)

lemma clock_split_offset:
  assumes "\<And>offset. offset_secs = Some offset \<Longrightarrow> whole_minutes offset"
  shows "pg_split_offset (clock_text w h m s f @ offset_part offset_secs) = (clock_text w h m s f, offset_secs)"
proof (cases offset_secs)
  case None
  then show ?thesis by (simp add: offset_part_def clock_no_offset)
next
  case (Some offset)
  let ?c = "clock_text w h m s f"
  have "ws_last ?c = 0" using clock_ends [of w h m s f] by (intro ws_last_plain) (auto simp: is_ascii_digit_def)
  then have "trim_end ?c = ?c" by (simp add: trim_end_idle)
  moreover have "pg_offset_seconds (offset_text offset) = Some offset" by (rule pg_offset_text [OF assms [OF Some]])
  moreover have "rsplit_once_in [CHR ''+'', CHR ''-''] (?c @ offset_text offset) = Some (?c, offset_digits offset)"
    unfolding offset_text_digits by (rule rsplit_once_in_append) (simp_all add: offset_digits_no)
  ultimately show ?thesis
    using clock_ends [of w h m s f] offset_digits_ends [of offset]
    by (simp add: Some offset_part_def pg_split_offset_def)
qed

lemma clock_offset_last:
  "clock_text w h m s f @ offset_part offset_secs \<noteq> [] \<and>
   is_ascii_digit (last (clock_text w h m s f @ offset_part offset_secs))"
  using clock_ends [of w h m s f] offset_digits_ends
  by (auto simp: offset_part_def offset_text_digits split: option.split)

lemma pg_timestamp_text:
  assumes off: "\<And>offset. offset_secs = Some offset \<Longrightarrow> whole_minutes offset"
    and date: "civil_from_days (wall_clock micros offset_secs div 86400000000) = (y, mo, d)" "1 \<le> y" "y \<le> i64_max"
  shows "pg_timestamp (timestamp_text micros offset_secs) =
     Some (micros, case offset_secs of Some offset \<Rightarrow> offset | None \<Rightarrow> 0)"
proof -
  define wall where "wall = wall_clock micros offset_secs"
  define t where "t = wall mod 86400000000"
  have t: "0 \<le> t" "t < 90000000000"
    using pos_mod_sign [of 86400000000 wall] pos_mod_bound [of 86400000000 wall] by (simp_all add: t_def)
  obtain h m s f where c: "time_text t = clock_text 2 h m s f"
    and p: "pg_clock (clock_text 2 h m s f) = Some (int h, int m, int s, int f)"
    and v: "(int h * 3600 + int m * 60 + int s) * 1000000 + int f = t"
    using time_text_clock [OF t(1)] pg_clock_text [OF clock_fields(1-4) [OF t]] clock_fields(5) [OF t] by metis
  have y0: "0 \<le> y" using date(2) by simp
  note dt = date_text_parts [OF date(1) y0 date(3), folded wall_def]
  have ymd: "pg_ymd (ymd_text (nat y) (nat mo) (nat d)) = Some (y, mo, d)" using dt(2) by (simp only: dt(1))
  let ?D = "ymd_text (nat y) (nat mo) (nat d)" and ?C = "clock_text 2 h m s f @ offset_part offset_secs"
  have shape: "timestamp_text micros offset_secs = ?D @ CHR '' '' # ?C"
    unfolding timestamp_text_parts wall_def [symmetric] t_def [symmetric] c dt(1) by simp
  have "trim (?D @ CHR '' '' # ?C) = ?D @ CHR '' '' # ?C"
    using ymd_ends [of "nat y" "nat mo" "nat d"] clock_offset_last [of 2 h m s f offset_secs]
    by (intro trim_ends) auto
  moreover have "split_once_in [CHR '' '', CHR ''T''] (?D @ CHR '' '' # ?C) = Some (?D, ?C)"
    by (rule split_once_in_append) (simp_all add: ymd_no)
  moreover have "wall = wall div 86400000000 * 86400 * 1000000 + t" by (simp add: t_def)
  ultimately show ?thesis
    using ymd dt(3) p v date(2) clock_split_offset [of offset_secs 2 h m s f, OF off]
    unfolding shape pg_timestamp_def
    by (cases offset_secs) (simp_all add: Let_def wall_def wall_clock_def)
qed

section \<open>Intervals\<close>

lemma digits_plain: "list_all is_ascii_digit s \<Longrightarrow> c \<in> set s \<Longrightarrow> 33 \<le> byte_val c \<and> byte_val c < 128"
  by (auto simp: list_all_iff is_ascii_digit_def)

lemma plain_int_bytes: "plain_word (int_bytes n)"
  using nat_bytes_digits digits_plain by (auto simp: plain_word_def int_bytes_def)

lemma plain_clock: "plain_word (clock_text w h m s f)"
  using clock_ends [of w h m s f] digits_plain [OF list_all_digits_pad]
  by (auto simp: plain_word_def clock_text_def clock_seconds_def)

text \<open>The texts of the three parts, each but the last followed by a comma and a space.\<close>

definition unit_part :: "int \<Rightarrow> bytes \<Rightarrow> bytes" where
  "unit_part n unit_name = (if n = 0 then [] else counted n unit_name @ '', '')"

lemma write_interval_parts:
  assumes "0 \<le> iv_micros i"
  defines "q \<equiv> nat (iv_micros i) div 1000000"
  shows "write_interval i [] = unit_part (iv_months i) ''month'' @ unit_part (iv_days i) ''day'' @
     clock_text 0 (q div 3600) (q div 60 mod 60) (q mod 60) (nat (iv_micros i) mod 1000000)"
  using assms
  by (auto simp: write_interval_def unit_part_def clock_text_def clock_seconds_def counted_def Let_def nat_pad_def
      pad_zeros_def)

definition unit_word :: "int \<Rightarrow> bytes \<Rightarrow> bytes" where
  "unit_word n unit_name = unit_name @ (if \<bar>n\<bar> = 1 then [] else ''s'') @ '',''"

lemma split_unit_part:
  assumes "n \<noteq> 0" "plain_word unit_name"
  shows "split_whitespace (unit_part n unit_name @ s) = int_bytes n # unit_word n unit_name # split_whitespace s"
proof -
  have "unit_part n unit_name @ s = int_bytes n @ CHR '' '' # unit_word n unit_name @ CHR '' '' # s"
    using assms(1) by (simp add: unit_part_def counted_def unit_word_def)
  moreover have "plain_word (unit_word n unit_name)" using assms(2) by (auto simp: plain_word_def unit_word_def)
  ultimately show ?thesis by (simp only: split_whitespace_word plain_int_bytes)
qed

lemma trim_unit_word:
  "trim_end_matches (CHR ''s'') (trim_end_matches (CHR '','') (unit_word n ''month'')) = ''month''"
  "trim_end_matches (CHR ''s'') (trim_end_matches (CHR '','') (unit_word n ''day'')) = ''day''"
  by (simp_all add: trim_end_matches_def unit_word_def)

definition fits_i32 :: "int \<Rightarrow> bool" where
  "fits_i32 n \<longleftrightarrow> - (2 ^ 31) \<le> n \<and> n < 2 ^ 31"

lemma pg_loop_unit:
  assumes "fits_i32 n" "add_unit (trim_end_matches (CHR '','') u) n i = Some i'"
  shows "pg_interval_loop (int_bytes n # u # ts) i saw = pg_interval_loop ts i' True"
  using assms parse_i64_int_bytes [of n]
  by (subst pg_interval_loop.simps) (simp add: fits_i32_def i64_min_def i64_max_def)

lemma parse_i64_clock: "parse_i64 (clock_text w h m s f) = None"
proof -
  have "is_ascii_digit (hd (clock_text w h m s f))" "CHR '':'' \<in> set (clock_text w h m s f)"
    using clock_ends by (simp_all add: clock_text_def)
  then show ?thesis
    by (cases "clock_text w h m s f")
       (auto simp: parse_i64_def parse_int_in_def all_digits_def list_all_iff Let_def is_ascii_digit_def split: if_splits)
qed

lemma pg_loop_clock:
  assumes "pg_clock t = Some (h, m, s, f)" "parse_i64 t = None" "iv_micros i = 0"
    "(h * 3600 + m * 60 + s) * 1000000 + f = u"
  shows "pg_interval_loop [t] i saw = Some (i\<lparr>iv_micros := u\<rparr>)"
  using assms by (simp add: pg_interval_loop.simps Let_def)

lemma clock_minutes: "q div 60 mod 60 = q mod 3600 div 60" for q :: nat
  using mod_mult2_eq [of q 60 60] by simp

text \<open>The clock of an interval: from zero and below the 25 hours the reader accepts.\<close>

definition readable_interval :: "interval_value \<Rightarrow> bool" where
  "readable_interval i \<longleftrightarrow> fits_i32 (iv_months i) \<and> fits_i32 (iv_days i) \<and> 0 \<le> iv_micros i \<and> iv_micros i < 90000000000"

lemma add_unit_words:
  "add_unit (trim_end_matches (CHR '','') (unit_word n ''month'')) n i = Some (i\<lparr>iv_months := iv_months i + wrap32 n\<rparr>)"
  "add_unit (trim_end_matches (CHR '','') (unit_word n ''day'')) n i = Some (i\<lparr>iv_days := iv_days i + wrap32 n\<rparr>)"
  by (simp_all add: add_unit_def trim_unit_word)

lemma wrap32_fits: "fits_i32 n \<Longrightarrow> wrap32 n = n"
  by (simp add: fits_i32_def wrap32_id)

lemma pg_interval_text:
  assumes "readable_interval i"
  shows "pg_interval (write_interval i []) = Some i"
proof -
  from assms have i: "fits_i32 (iv_months i)" "fits_i32 (iv_days i)" "0 \<le> iv_micros i" "iv_micros i < 90000000000"
    by (simp_all add: readable_interval_def)
  define q where "q = nat (iv_micros i) div 1000000"
  let ?clock = "clock_text 0 (q div 3600) (q mod 3600 div 60) (q mod 60) (nat (iv_micros i) mod 1000000)"
  have "pg_clock ?clock = Some (int (q div 3600), int (q mod 3600 div 60), int (q mod 60),
      int (nat (iv_micros i) mod 1000000))"
    unfolding q_def by (rule pg_clock_text [OF clock_fields(1-4) [OF i(3,4)]])
  from pg_loop_clock [OF this parse_i64_clock, where u = "iv_micros i"] clock_fields(5) [OF i(3,4)]
  have last: "pg_interval_loop [?clock] j saw = Some (j\<lparr>iv_micros := iv_micros i\<rparr>)" if "iv_micros j = 0" for j saw
    using that unfolding q_def by simp
  have words: "split_whitespace ?clock = [?clock]" by (rule split_whitespace_word(2) [OF plain_clock])
  have days: "pg_interval_loop (split_whitespace (unit_part (iv_days i) ''day'' @ ?clock)) j saw =
      Some (j\<lparr>iv_days := iv_days i, iv_micros := iv_micros i\<rparr>)" if "iv_micros j = 0" "iv_days j = 0" for j saw
  proof (cases "iv_days i = 0")
    case True
    with that last [of j] show ?thesis by (cases j) (simp add: unit_part_def words)
  next
    case False
    have "plain_word ''day''" by (simp add: plain_word_def)
    with False that last show ?thesis
      by (simp add: split_unit_part words pg_loop_unit [OF i(2) add_unit_words(2)] wrap32_fits [OF i(2)])
  qed
  let ?zero = "\<lparr>iv_months = 0, iv_days = 0, iv_micros = 0\<rparr>"
  have "pg_interval_loop (split_whitespace (unit_part (iv_months i) ''month'' @ unit_part (iv_days i) ''day'' @ ?clock))
      ?zero False = Some (?zero\<lparr>iv_months := iv_months i, iv_days := iv_days i, iv_micros := iv_micros i\<rparr>)"
  proof (cases "iv_months i = 0")
    case True
    with days [of ?zero] show ?thesis by (simp add: unit_part_def)
  next
    case False
    have "plain_word ''month''" by (simp add: plain_word_def)
    with False days show ?thesis
      by (simp add: split_unit_part pg_loop_unit [OF i(1) add_unit_words(1)] wrap32_fits [OF i(1)])
  qed
  then show ?thesis
    unfolding pg_interval_def write_interval_parts [OF i(3)] q_def [symmetric] clock_minutes by simp
qed

section \<open>Bytes\<close>

lemma hex_decode_encode: "hex_decode (hex_encode s) = Some s"
proof (induction s)
  case (Cons c s)
  then show ?case using hex_byte_values [of c] by (simp add: hex_encode_def hex_byte_def)
qed (simp add: hex_encode_def)

lemma length_hex_encode: "length (hex_encode s) = 2 * length s"
  by (induction s) (simp_all add: hex_encode_def hex_byte_def)

lemma parse_bytea_hex: "parse_bytea ([CHR 0x5C, CHR ''x''] @ hex_encode s) = VBytes s"
  by (simp add: parse_bytea_def strip_prefix_def prefix_def hex_decode_encode length_hex_encode)

section \<open>Cells\<close>

text \<open>The type of the column a value comes from, and the values whose text the driver reads back.\<close>

definition pg_type_of :: "sql_value \<Rightarrow> bytes" where
  "pg_type_of v =
     (case v of
        VBool flag \<Rightarrow> ''bool'' | VInt n \<Rightarrow> ''int8'' | VDecimal u s \<Rightarrow> ''numeric(38,10)'' | VDate n \<Rightarrow> ''date''
      | VTime t \<Rightarrow> ''time'' | VTimestamp m None \<Rightarrow> ''timestamp'' | VTimestamp m (Some off) \<Rightarrow> ''timestamptz''
      | VInterval i \<Rightarrow> ''interval'' | VJson s \<Rightarrow> ''jsonb'' | _ \<Rightarrow> ''text'')"

definition year_from :: "int \<Rightarrow> int \<Rightarrow> bool" where
  "year_from lo n \<longleftrightarrow> (case civil_from_days n of (y, m, d) \<Rightarrow> lo \<le> y \<and> y \<le> i64_max)"

definition pg_exact :: "sql_value \<Rightarrow> bool" where
  "pg_exact v =
     (case v of
        VNull \<Rightarrow> True | VBool flag \<Rightarrow> True | VInt n \<Rightarrow> i64_min \<le> n \<and> n \<le> i64_max
      | VDecimal u s \<Rightarrow> \<bar>u\<bar> < 2 ^ 127 \<and> s \<le> 38
      | VText s \<Rightarrow> True | VJson s \<Rightarrow> True
      | VDate n \<Rightarrow> fits_i32 n \<and> year_from 0 n
      | VTime t \<Rightarrow> 0 \<le> t \<and> t < 90000000000
      | VTimestamp m off \<Rightarrow> (case off of Some off \<Rightarrow> whole_minutes off | None \<Rightarrow> True) \<and> year_from 1 (wall_clock m off div 86400000000)
      | VInterval i \<Rightarrow> readable_interval i
      | _ \<Rightarrow> False)"

lemma column_parsers:
  "column_parser_new ''bool'' = PgBool" "column_parser_new ''int8'' = PgInt"
  "column_parser_new ''numeric(38,10)'' = PgNumeric" "column_parser_new ''date'' = PgDate"
  "column_parser_new ''time'' = PgTime" "column_parser_new ''timestamp'' = PgTimestamp"
  "column_parser_new ''timestamptz'' = PgTimestamptz" "column_parser_new ''interval'' = PgInterval"
  "column_parser_new ''jsonb'' = PgJson" "column_parser_new ''text'' = PgText"
  by code_simp+

lemma to_text_scalar:
  "to_text VNull = None" "to_text (VBool flag) = Some (if flag then ''true'' else ''false'')"
  "to_text (VInt n) = Some (int_bytes n)" "to_text (VDecimal u s) = Some (decimal_text u s)"
  "to_text (VText b) = Some b" "to_text (VJson b) = Some b" "to_text (VDate n) = Some (date_text n)"
  "to_text (VTime t) = Some (time_text t)" "to_text (VTimestamp m off) = Some (timestamp_text m off)"
  "to_text (VInterval i) = Some (write_interval i [])" "to_text (VBytes b) = Some (hex_encode b)"
  by (simp_all add: to_text_def is_null_def write_text.simps)

lemma pg_timestamp_cell:
  assumes "case off of Some off \<Rightarrow> whole_minutes off | None \<Rightarrow> True" "year_from 1 (wall_clock m off div 86400000000)"
  shows "pg_timestamp (timestamp_text m off) = Some (m, case off of Some off \<Rightarrow> off | None \<Rightarrow> 0)"
proof -
  obtain y mo d where "civil_from_days (wall_clock m off div 86400000000) = (y, mo, d)" by (metis surj_pair)
  with assms show ?thesis
    by (intro pg_timestamp_text) (auto simp: year_from_def)
qed

lemma pg_date_cell:
  assumes "fits_i32 n" "year_from 0 n"
  shows "pg_days (date_text n) = Some n"
proof -
  obtain y mo d where "civil_from_days n = (y, mo, d)" by (metis surj_pair)
  with assms show ?thesis by (intro pg_days_text) (auto simp: year_from_def fits_i32_def)
qed

section \<open>The pairs of writers and readers\<close>

interpretation pg_decimals: codec "\<lambda>(u, sc). \<bar>u\<bar> < 2 ^ 127 \<and> sc \<le> 38" "\<lambda>(u, sc). decimal_text u sc" pg_decimal
  by unfold_locales (auto simp: pg_decimal_text)

interpretation pg_times: codec "\<lambda>t. 0 \<le> t \<and> t < 90000000000" time_text pg_time_micros
  by unfold_locales (simp add: pg_time_micros_text)

interpretation pg_dates: codec "\<lambda>n. fits_i32 n \<and> year_from 0 n" date_text pg_days
  by unfold_locales (simp add: pg_date_cell)

interpretation pg_intervals: codec readable_interval "\<lambda>i. write_interval i []" pg_interval
  by unfold_locales (rule pg_interval_text)

interpretation hex_bytes: codec "\<lambda>s. True" hex_encode hex_decode
  by unfold_locales (rule hex_decode_encode)

lemmas pg_cells = pg_decimals.reads_back [of "(u, sc)" for u sc, simplified] pg_times.reads_back pg_dates.reads_back
  pg_intervals.reads_back

section \<open>Properties\<close>



section \<open>What does not come back\<close>

text \<open>The seconds of an offset, which the driver reads and \<open>offset_text\<close> does not write.\<close>

lemma offset_seconds_are_lost:
  "pg_offset_seconds ''+07:07:12'' = Some 25632" "offset_text 25632 = ''+07:07''"
  "pg_offset_seconds ''+07:07'' = Some 25620"
proof -
  have "nat_bytes 7 = ''7''" by code_simp
  then show "pg_offset_seconds ''+07:07:12'' = Some 25632" "offset_text 25632 = ''+07:07''"
    "pg_offset_seconds ''+07:07'' = Some 25620"
    by (simp_all add: pg_offset_seconds_def split_once_def parse_i32_def parse_int_in_def all_digits_def
        is_ascii_digit_def digits_val_def byte_val_def offset_text_def nat_pad_def pad_zeros_def Let_def)
qed

text \<open>A negative clock, and one of more than 24 hours, are not read: the cell stays the text it was.\<close>

lemma interval_of_word:
  assumes "plain_word w" "parse_i64 w = None" "pg_clock w = None"
  shows "pg_from_text parse_f64 ''interval'' (Some w) = VText w"
  using assms by (simp add: pg_from_text_def column_parsers pg_parse_def pg_interval_def split_whitespace_word
      pg_interval_loop.simps)

lemma interval_clocks_refused:
  "pg_from_text parse_f64 ''interval'' (Some ''-01:00:00'') = VText ''-01:00:00''"
  "pg_from_text parse_f64 ''interval'' (Some ''100:00:00'') = VText ''100:00:00''"
proof -
  have "trim ''-01:00:00'' = ''-01:00:00''" "trim ''100:00:00'' = ''100:00:00''" "trim ''-01'' = ''-01''"
    "trim ''100'' = ''100''" "trim ''00'' = ''00''"
    by (rule trim_plain; simp add: byte_val_def)+
  note trims = this
  have "pg_clock ''-01:00:00'' = None" "pg_clock ''100:00:00'' = None"
    unfolding pg_clock_def trims
    by (simp_all add: trims parse_u32_def parse_int_in_def all_digits_def is_ascii_digit_def digits_val_def byte_val_def
        seconds_field_def)
  moreover have "parse_i64 ''-01:00:00'' = None" "parse_i64 ''100:00:00'' = None"
    by (simp_all add: parse_i64_def parse_int_in_def all_digits_def is_ascii_digit_def byte_val_def Let_def)
  ultimately show "pg_from_text parse_f64 ''interval'' (Some ''-01:00:00'') = VText ''-01:00:00''"
    "pg_from_text parse_f64 ''interval'' (Some ''100:00:00'') = VText ''100:00:00''"
    by (auto intro!: interval_of_word simp: plain_word_def byte_val_def)
qed

end
