(* ===== verification/MySqlProtocols.thy ===== *)
theory MySqlProtocols
  imports MySqlText PgRoundTrip
begin

text \<open>
  The two protocols of MySQL land in the same place: the value the driver makes of a cell sent in binary is
  the one it makes of the text the server prints for it. And a decimal is read as in the PostgreSQL driver.
\<close>

section \<open>Decimals\<close>

lemma my_parse_decimal_pg: "my_parse_decimal s = map_option (\<lambda>(u, sc). VDecimal u sc) (pg_decimal s)"
proof -
  obtain negative digits where sign: "strip_sign (trim s) = (negative, digits)" by (metis surj_pair)
  then have sign': "(case strip_prefix ''-'' (trim s) of Some rest \<Rightarrow> (True, rest)
      | None \<Rightarrow> (False, case strip_prefix ''+'' (trim s) of Some rest \<Rightarrow> rest | None \<Rightarrow> trim s)) = (negative, digits)"
    by (simp only: strip_sign_def)
  let ?me = "case split_once_in [CHR ''e'', CHR ''E''] digits of
      Some (mantissa, exponent) \<Rightarrow> map_option (\<lambda>e. (mantissa, e)) (parse_i32 exponent) | None \<Rightarrow> Some (digits, 0)"
  show ?thesis
  proof (cases ?me)
    case None
    then show ?thesis unfolding my_parse_decimal_def pg_decimal_def Let_def sign sign' by simp
  next
    case (Some me)
    obtain mantissa exponent where me: "me = (mantissa, exponent)" by (cases me)
    obtain w f where wf: "(case split_once (CHR ''.'') mantissa of Some p \<Rightarrow> p | None \<Rightarrow> (mantissa, [])) = (w, f)"
      by (metis surj_pair)
    have "mantle_parts mantissa = (if w = [] \<and> f = [] then None
        else if \<not> list_all is_ascii_digit w \<or> \<not> list_all is_ascii_digit f then None else Some (w, f))"
      unfolding mantle_parts_def wf Let_def by simp
    with Some wf show ?thesis
      unfolding my_parse_decimal_def pg_decimal_def Let_def sign sign' by (simp add: me option.map_comp comp_def max_def)
  qed
qed

section \<open>The text the server prints\<close>

text \<open>A fraction of \<open>k\<close> digits, the fractional precision of the column.\<close>

definition fraction_text :: "nat \<Rightarrow> nat \<Rightarrow> bytes" where
  "fraction_text k us = (if k = 0 then [] else CHR ''.'' # nat_pad k (us div 10 ^ (6 - k)))"

definition fraction_fits :: "nat \<Rightarrow> nat \<Rightarrow> bool" where
  "fraction_fits k us \<longleftrightarrow> k \<le> 6 \<and> us < 1000000 \<and> us mod 10 ^ (6 - k) = 0"

definition server_hms :: "nat \<Rightarrow> nat \<Rightarrow> nat \<Rightarrow> nat \<Rightarrow> nat \<Rightarrow> bytes" where
  "server_hms k h mi s us = nat_pad 2 h @ CHR '':'' # nat_pad 2 mi @ CHR '':'' # nat_pad 2 s @ fraction_text k us"

lemma parse_fraction_digits:
  assumes "0 < k" "k \<le> 6" "v < 10 ^ k"
  shows "parse_fraction (nat_pad k v) = Some (int v * 10 ^ (6 - k))"
proof -
  have "(10::nat) ^ k \<le> 10 ^ 6" using assms(2) by (intro power_increasing) simp_all
  then have "v < 1000000" using assms(3) by simp
  then have "parse_i64 (nat_pad k v) = Some (int v)"
    unfolding parse_i64_def by (intro parse_pad) (simp_all add: i64_min_def i64_max_def)
  moreover have "length (nat_pad k v) = k" using assms by (intro length_nat_pad)
  ultimately show ?thesis using assms pad_ends [of k v] by (simp add: parse_fraction_def)
qed

lemma seconds_field_server:
  assumes "\<And>w. parse (nat_pad w s) = Some (int s)" "fraction_fits k us"
  shows "seconds_field parse (nat_pad 2 s @ fraction_text k us) = Some (int s, int us)"
proof (cases "k = 0")
  case True
  with assms have "us < 1000000" "us mod 1000000 = 0" by (simp_all add: fraction_fits_def)
  then have "us = 0" by (metis mod_less)
  with True assms(1) show ?thesis by (simp add: seconds_field_def fraction_text_def pad_no)
next
  case False
  from assms(2) have k: "k \<le> 6" "us < 1000000" "us mod 10 ^ (6 - k) = 0" by (simp_all add: fraction_fits_def)
  have "(10::nat) ^ (6 - k) * 10 ^ k = 10 ^ 6" using k(1) by (simp add: power_add [symmetric])
  with k(2) have "us div 10 ^ (6 - k) < 10 ^ k" by (intro less_mult_imp_div_less) (simp add: mult.commute)
  with False k(1) have "parse_fraction (nat_pad k (us div 10 ^ (6 - k))) = Some (int (us div 10 ^ (6 - k)) * 10 ^ (6 - k))"
    by (intro parse_fraction_digits) simp_all
  also have "int (us div 10 ^ (6 - k)) * 10 ^ (6 - k) = int (us div 10 ^ (6 - k) * 10 ^ (6 - k))" by simp
  also have "us div 10 ^ (6 - k) * 10 ^ (6 - k) = us" using k(3) by (metis add.right_neutral div_mult_mod_eq)
  finally show ?thesis using False assms(1) by (simp add: seconds_field_def fraction_text_def pad_no)
qed

lemma three_fields_server:
  "three_fields (server_hms k h mi s us) = Some (nat_pad 2 h, nat_pad 2 mi, nat_pad 2 s @ fraction_text k us)"
  using pad_no [of "CHR '':''"] by (simp add: three_fields_def server_hms_def fraction_text_def)

lemma server_hms_ends:
  "server_hms k h mi s us \<noteq> [] \<and> is_ascii_digit (hd (server_hms k h mi s us)) \<and>
   is_ascii_digit (last (server_hms k h mi s us))"
  using pad_ends [of 2 h] pad_ends [of 2 s] pad_ends [of k] by (auto simp: server_hms_def fraction_text_def)

section \<open>Dates\<close>

lemma parse_u8_pad: "n < 256 \<Longrightarrow> parse_u8 (nat_pad w n) = Some (int n)"
  unfolding parse_u8_def by (intro parse_pad) simp_all

lemma parse_i64_pad: "int n \<le> i64_max \<Longrightarrow> parse_i64 (nat_pad w n) = Some (int n)"
  unfolding parse_i64_def by (intro parse_pad) (simp_all add: i64_min_def)

definition date_in_range :: "nat \<Rightarrow> nat \<Rightarrow> bool" where
  "date_in_range m d \<longleftrightarrow> 1 \<le> m \<and> m \<le> 12 \<and> 1 \<le> d \<and> d \<le> 31"

lemma render_ymd_text: "render_ymd y m d = ymd_text y m d"
  by (simp add: render_ymd_def ymd_text_def)

lemma my_ymd_text:
  assumes "int y \<le> i64_max" "m < 256" "d < 256"
  shows "my_parse_ymd (ymd_text y m d) = (if date_in_range m d then Some (int y, int m, int d) else None)"
proof -
  have "split_three (CHR ''-'') (ymd_text y m d) = Some (nat_pad 4 y, nat_pad 2 m, nat_pad 2 d)"
    by (simp add: split_three_def ymd_text_def pad_no)
  with assms show ?thesis by (auto simp: my_parse_ymd_def parse_u8_pad parse_i64_pad date_in_range_def)
qed

lemma zero_date_prefix:
  assumes "prefix ''0000-00-00'' (ymd_text y m d @ r)"
  shows "m = 0"
proof -
  from assms obtain z where z: "ymd_text y m d @ r = ''0000-00-00'' @ z" by (auto simp: prefix_def)
  have "split_once (CHR ''-'') (nat_pad 4 y @ CHR ''-'' # nat_pad 2 m @ CHR ''-'' # nat_pad 2 d @ r) =
      Some (nat_pad 4 y, nat_pad 2 m @ CHR ''-'' # nat_pad 2 d @ r)" by (rule split_once_append) (simp add: pad_no)
  moreover have "split_once (CHR ''-'') (''0000'' @ CHR ''-'' # ''00-00'' @ z) = Some (''0000'', ''00-00'' @ z)"
    by (rule split_once_append) simp
  ultimately have m: "nat_pad 2 m @ CHR ''-'' # nat_pad 2 d @ r = ''00-00'' @ z" using z by (simp add: ymd_text_def)
  have "split_once (CHR ''-'') (nat_pad 2 m @ CHR ''-'' # nat_pad 2 d @ r) = Some (nat_pad 2 m, nat_pad 2 d @ r)"
    by (rule split_once_append) (simp add: pad_no)
  moreover have "split_once (CHR ''-'') (''00'' @ CHR ''-'' # ''00'' @ z) = Some (''00'', ''00'' @ z)"
    by (rule split_once_append) simp
  ultimately have "nat_pad 2 m = ''00''" using m by simp
  then have "m = digits_val ''00''" by (metis digits_val_pad)
  then show ?thesis by (simp add: digits_val_def byte_val_def)
qed

section \<open>Timestamps and times\<close>

definition server_datetime :: "nat \<Rightarrow> nat \<Rightarrow> nat \<Rightarrow> nat \<Rightarrow> nat \<Rightarrow> nat \<Rightarrow> nat \<Rightarrow> nat \<Rightarrow> bytes" where
  "server_datetime k y m d h mi s us = render_ymd y m d @ CHR '' '' # server_hms k h mi s us"

lemma my_timestamp_text:
  assumes "int y \<le> i64_max" "m < 256" "d < 256" "h < 256" "mi < 256" "s < 256" "fraction_fits k us"
  shows "parse_timestamp_naive (server_datetime k y m d h mi s us) =
     map_option (\<lambda>base. base + int us) (timestamp_micros (int y) (int m) (int d) (int h) (int mi) (int s))"
proof -
  let ?D = "ymd_text y m d" and ?C = "server_hms k h mi s us"
  have shape: "server_datetime k y m d h mi s us = ?D @ CHR '' '' # ?C"
    by (simp add: server_datetime_def render_ymd_text)
  have "trim (?D @ CHR '' '' # ?C) = ?D @ CHR '' '' # ?C"
    using ymd_ends [of y m d] server_hms_ends [of k h mi s us] by (intro trim_ends) auto
  moreover have "split_once_in [CHR '' '', CHR ''T''] (?D @ CHR '' '' # ?C) = Some (?D, ?C)"
    by (rule split_once_in_append) (simp_all add: ymd_no)
  moreover have "seconds_field parse_u8 (nat_pad 2 s @ fraction_text k us) = Some (int s, int us)"
    using assms by (intro seconds_field_server) (simp_all add: parse_u8_pad)
  moreover have "\<not> date_in_range m d" if "prefix ''0000-00-00'' (?D @ CHR '' '' # ?C)"
    using zero_date_prefix [OF that] by (simp add: date_in_range_def)
  ultimately show ?thesis
    using assms unfolding shape parse_timestamp_naive_def
    by (auto simp: Let_def my_ymd_text three_fields_server parse_u8_pad timestamp_micros_def date_in_range_def)
qed

definition server_time :: "nat \<Rightarrow> bool \<Rightarrow> nat \<Rightarrow> nat \<Rightarrow> nat \<Rightarrow> nat \<Rightarrow> bytes" where
  "server_time k negative h mi s us = (if negative then ''-'' else []) @ server_hms k h mi s us"

lemma my_time_text:
  assumes "int h \<le> i64_max" "mi \<le> 59" "s \<le> 60" "fraction_fits k us"
  shows "my_time_micros (server_time k negative h mi s us) =
     (let t = (int h * 3600 + int mi * 60 + int s) * 1000000 + int us in Some (if negative then - t else t))"
proof -
  let ?C = "server_hms k h mi s us"
  note e = server_hms_ends [of k h mi s us]
  have "trim (server_time k negative h mi s us) = server_time k negative h mi s us"
    unfolding server_time_def by (rule trim_plain) (use e in \<open>auto simp: is_ascii_digit_def\<close>)
  moreover have "(case strip_prefix ''-'' (server_time k negative h mi s us) of
      Some rest \<Rightarrow> (True, rest) | None \<Rightarrow> (False, server_time k negative h mi s us)) = (negative, ?C)"
  proof -
    obtain c r where "?C = c # r" using e by (cases ?C) auto
    with e have "c \<noteq> CHR ''-''" "?C = c # r" by (auto simp: is_ascii_digit_def)
    then show ?thesis by (simp add: server_time_def strip_prefix_def prefix_def)
  qed
  moreover have "seconds_field parse_i64 (nat_pad 2 s @ fraction_text k us) = Some (int s, int us)"
    using assms by (intro seconds_field_server) (simp_all add: parse_i64_pad i64_max_def)
  moreover have "parse_i64 (nat_pad 2 h) = Some (int h)" "parse_i64 (nat_pad 2 mi) = Some (int mi)"
    using assms by (simp_all add: parse_i64_pad i64_max_def)
  ultimately show ?thesis using assms by (simp add: my_time_micros_def Let_def three_fields_server)
qed

section \<open>The protocols agree\<close>

text \<open>
  The values the binary protocol sends for a column of a type, with the ranges of their fields: the second
  and later fields of a \<open>Date\<close> are bytes, and what is not a date or a time of day has no fraction.
\<close>

definition int_types :: "my_type list" where
  "int_types = [MyTiny, MyShort, MyInt24, MyLong, MyLongLong, MyYear]"

definition datetime_types :: "my_type list" where
  "datetime_types = [MyDatetime, MyDatetime2, MyTimestamp, MyTimestamp2]"

fun sent_for :: "my_type \<Rightarrow> nat \<Rightarrow> my_value \<Rightarrow> bool" where
  "sent_for ct k (MInt n) \<longleftrightarrow> ct \<in> set int_types \<and> i64_min \<le> n \<and> n \<le> i64_max"
| "sent_for ct k (MUInt n) \<longleftrightarrow> ct \<in> set int_types \<and> 0 \<le> n \<and> n < 2 ^ 64"
| "sent_for ct k (MDate y m d h mi s us) \<longleftrightarrow>
     y < 65536 \<and> m < 256 \<and> d < 256 \<and>
     (ct \<in> set [MyDateType, MyNewDate] \<or>
      ct \<in> set datetime_types \<and> h < 256 \<and> mi < 256 \<and> s < 256 \<and> fraction_fits k us \<and>
      (k = 0 \<or> timestamp_micros (int y) (int m) (int d) (int h) (int mi) (int s) \<noteq> None))"
| "sent_for ct k (MTime negative days h mi s us) \<longleftrightarrow>
     ct \<in> set [MyTimeType, MyTime2] \<and> days < 2 ^ 32 \<and> h < 256 \<and> mi \<le> 59 \<and> s \<le> 59 \<and> fraction_fits k us"
| "sent_for ct k v \<longleftrightarrow> False"

text \<open>What the text protocol sends for the same value.\<close>

fun server_text :: "my_type \<Rightarrow> nat \<Rightarrow> my_value \<Rightarrow> bytes" where
  "server_text ct k (MInt n) = int_bytes n"
| "server_text ct k (MUInt n) = int_bytes n"
| "server_text ct k (MDate y m d h mi s us) =
     (if ct \<in> set [MyDateType, MyNewDate] then render_ymd y m d else server_datetime k y m d h mi s us)"
| "server_text ct k (MTime negative days h mi s us) = server_time k negative (days * 24 + h) mi s us"
| "server_text ct k v = []"

text \<open>An unsigned integer that an \<open>i64\<close> holds is read as a signed one from its text.\<close>

fun as_read :: "sql_value \<Rightarrow> sql_value" where
  "as_read (VUInt n) = (if n \<le> i64_max then VInt n else VUInt n)"
| "as_read v = v"

lemma my_from_int: "ct \<in> set int_types \<Longrightarrow> v \<noteq> MNull \<Longrightarrow> my_from_value sf ct (Some v) b = as_integer sf v"
  by (auto simp: my_from_value_def int_types_def)

lemma my_from_date: "ct \<in> set [MyDateType, MyNewDate] \<Longrightarrow> v \<noteq> MNull \<Longrightarrow> my_from_value sf ct (Some v) b = as_date sf v"
  by (auto simp: my_from_value_def)

lemma my_from_timestamp:
  "ct \<in> set datetime_types \<Longrightarrow> v \<noteq> MNull \<Longrightarrow> my_from_value sf ct (Some v) b = as_timestamp sf v"
  by (auto simp: my_from_value_def datetime_types_def)

lemma my_from_time: "ct \<in> set [MyTimeType, MyTime2] \<Longrightarrow> v \<noteq> MNull \<Longrightarrow> my_from_value sf ct (Some v) b = as_time sf v"
  by (auto simp: my_from_value_def)

lemma not_datetime: "ct \<in> set datetime_types \<Longrightarrow> ct \<notin> set [MyDateType, MyNewDate]"
  by (auto simp: datetime_types_def)

lemma unsigned_read:
  assumes "0 \<le> n" "n < 2 ^ 64"
  shows "(case parse_i64 (int_bytes n) of Some n \<Rightarrow> Some (VInt n) | None \<Rightarrow> map_option VUInt (parse_u64 (int_bytes n))) =
     Some (as_read (VUInt n))"
proof -
  have b: "all_digits (int_bytes n)" "int (digits_val (int_bytes n)) = n" using assms(1) by (simp_all add: int_bytes_def)
  obtain c r where s: "int_bytes n = c # r" using b(1) by (auto simp: all_digits_def neq_Nil_conv)
  with b(1) have "c \<noteq> CHR ''+''" "c \<noteq> CHR ''-''" by (auto simp: all_digits_def is_ascii_digit_def)
  have "parse_i64 (int_bytes n) = (if n \<le> i64_max then Some n else None)"
    using b s assms \<open>c \<noteq> CHR ''+''\<close> \<open>c \<noteq> CHR ''-''\<close> by (auto simp: parse_i64_def parse_int_in_def Let_def i64_min_def)
  moreover have "parse_u64 (int_bytes n) = Some n"
    using parse_digits [OF b(1), of 0 "2 ^ 64 - 1"] b(2) assms by (simp add: parse_u64_def)
  ultimately show ?thesis by simp
qed

lemma date_read:
  assumes "y < 65536" "m < 256" "d < 256"
  shows "parse_date_days (ymd_text y m d) = (if date_in_range m d then try_i32 (days_from_civil (int y) (int m) (int d)) else None)"
  using assms by (simp add: parse_date_days_def my_ymd_text i64_max_def)

section \<open>Property\<close>



end
