(* ===== verification/TrinoAgree.thy ===== *)
theory TrinoAgree
  imports TrinoDecode MySqlProtocols
begin

text \<open>
  The Trino driver beside the two others: what the engine writes for a decimal or a timestamp all three read
  as the same value, the bytes of a \<open>varbinary\<close> come back from their base64, and the arguments of a
  parametric type are the types it was written with.
\<close>

section \<open>Decimals\<close>

lemma checked_digits_val:
  assumes "0 \<le> u" "u * 10 ^ length s + int (digits_val s) \<le> i128_max" "list_all is_ascii_digit s"
  shows "checked_digits s u = Some (u * 10 ^ length s + int (digits_val s))"
  using assms
proof (induction s arbitrary: u)
  case (Cons c s)
  let ?d = "int (byte_val c - 48)"
  have v: "int (digits_val (c # s)) = ?d * 10 ^ length s + int (digits_val s)"
    using digits_val_append [of "[c]" s] by (simp add: digits_val_def)
  then have e: "u * 10 ^ length (c # s) + int (digits_val (c # s)) = (u * 10 + ?d) * 10 ^ length s + int (digits_val s)"
    by (simp add: algebra_simps)
  have "u * 10 + ?d \<le> (u * 10 + ?d) * 10 ^ length s" using Cons.prems(1) by (simp add: mult_le_cancel_left1)
  then have "u * 10 + ?d \<le> i128_max" using Cons.prems(2) unfolding e by linarith
  moreover have "u * 10 \<le> i128_max" using calculation by simp
  moreover have "checked_digits s (u * 10 + ?d) = Some ((u * 10 + ?d) * 10 ^ length s + int (digits_val s))"
    using Cons.prems unfolding e by (intro Cons.IH) simp_all
  ultimately show ?case unfolding e by simp
qed (simp add: digits_val_def)

lemma tr_decimal_text:
  assumes u: "\<bar>u\<bar> < 2 ^ 127" and s: "scale \<le> 255"
  shows "tr_parse_decimal (decimal_text u scale) = Some (u, scale)"
proof -
  obtain w f where p: "decimal_parts (nat \<bar>u\<bar>) scale = (w, f)" by (metis surj_pair)
  note d = decimal_parts [OF p]
  have "list_all is_ascii_digit (w @ f)" using d(1,2) by (simp add: all_digits_def)
  then have "checked_digits (w @ f) 0 = Some \<bar>u\<bar>"
    using checked_digits_val [of 0 "w @ f"] u by (simp add: d(4) i128_max_def)
  then show ?thesis
    using d(3) s unfolding decimal_text_mantissa [OF p] tr_parse_decimal_def plain_mantissa_trim [OF d(1,2)]
      plain_mantissa_sign [OF d(1)]
    by (auto simp: plain_mantissa_split [OF d(1,2)] Let_def)
qed

section \<open>Timestamps\<close>

lemma fraction_to_micros_pad:
  assumes "f < 1000000"
  shows "fraction_to_micros (nat_pad 6 f) = Some (int f)"
proof -
  have "length (nat_pad 6 f) = 6" using assms by (intro length_nat_pad) simp_all
  moreover have "parse_i64 (nat_pad 6 f) = Some (int f)" using assms by (intro parse_i64_pad) (simp add: i64_max_def)
  ultimately show ?thesis using pad_ends [of 6 f] by (simp add: fraction_to_micros_def)
qed

lemma clock_seconds_split:
  "(case split_once (CHR ''.'') (clock_seconds s f) of Some p \<Rightarrow> p | None \<Rightarrow> (clock_seconds s f, [])) =
     (nat_pad 2 s, if f = 0 then [] else nat_pad 6 f)"
  by (simp add: clock_seconds_def pad_no)

lemma tr_time_text:
  assumes "0 \<le> t" "t < 90000000000"
  shows "tr_time_micros (time_text t) = Some t"
proof -
  define h m s f where c: "h = nat t div 1000000 div 3600" "m = nat t div 1000000 mod 3600 div 60"
    "s = nat t div 1000000 mod 60" "f = nat t mod 1000000"
  note v = clock_fields [OF assms, folded c]
  have "time_text t = clock_text 2 h m s f" using time_text_clock [OF assms(1)] by (simp add: c)
  moreover have "fraction_to_micros [] = Some 0" by (simp add: fraction_to_micros_def)
  then have "fraction_to_micros (if f = 0 then [] else nat_pad 6 f) = Some (int f)"
    using v(4) fraction_to_micros_pad [of f] by simp
  moreover have "parse_i64 (nat_pad w n) = Some (int n)" if "n \<le> 60" for n w
    using that by (intro parse_i64_pad) (simp add: i64_max_def)
  ultimately show ?thesis
    using v by (simp add: tr_time_micros_def split_clock clock_seconds_split Let_def)
qed

lemma tr_date_text:
  assumes "civil_from_days n = (y, mo, d)" "0 \<le> y" "y \<le> i64_max" "fits_i32 n"
  shows "tr_parse_date (date_text n) = Some n"
proof -
  note dt = date_text_parts [OF assms(1-3)]
  have v: "valid_date y mo d" using days_of_civil [of n] assms(1) by simp
  then have b: "1 \<le> mo" "mo \<le> 12" "1 \<le> d" "d \<le> 31"
    by (auto simp: valid_date_def month_length_def split: if_splits)
  have "split_on (CHR ''-'') (ymd_text (nat y) (nat mo) (nat d)) = [nat_pad 4 (nat y), nat_pad 2 (nat mo), nat_pad 2 (nat d)]"
    by (simp add: ymd_text_def pad_no)
  moreover have "parse_i64 (nat_pad 4 (nat y)) = Some y" "parse_i64 (nat_pad 2 (nat mo)) = Some mo"
    "parse_i64 (nat_pad 2 (nat d)) = Some d"
    using b assms(2,3) by (simp_all add: parse_i64_pad i64_max_def)
  ultimately show ?thesis
    using dt(3) assms(4) by (simp add: tr_parse_date_def dt(1) fits_i32_def Let_def)
qed

text \<open>The day of every timestamp an \<open>i64\<close> of microseconds holds fits the \<open>i32\<close> of a date.\<close>

lemma wall_day_fits: "\<bar>wall\<bar> < 2 ^ 63 \<Longrightarrow> fits_i32 (wall div 86400000000)"
  using zdiv_mono1 [of "- (2 ^ 63)" wall 86400000000] zdiv_mono1 [of wall "2 ^ 63" 86400000000]
  by (simp add: fits_i32_def abs_less_iff)

lemma tr_wall_text:
  assumes "civil_from_days (wall div 86400000000) = (y, mo, d)" "0 \<le> y" "y \<le> i64_max" "\<bar>wall\<bar> < 2 ^ 63"
  shows "tr_parse_date (date_text (wall div 86400000000)) = Some (wall div 86400000000)"
    "tr_time_micros (time_text (wall mod 86400000000)) = Some (wall mod 86400000000)"
    "split_once (CHR '' '') (date_text (wall div 86400000000) @ CHR '' '' # time_text (wall mod 86400000000)) =
       Some (date_text (wall div 86400000000), time_text (wall mod 86400000000))"
    "trim (date_text (wall div 86400000000) @ CHR '' '' # time_text (wall mod 86400000000)) =
       date_text (wall div 86400000000) @ CHR '' '' # time_text (wall mod 86400000000)"
proof -
  have t: "0 \<le> wall mod 86400000000" "wall mod 86400000000 < 90000000000"
    using pos_mod_sign [of 86400000000 wall] pos_mod_bound [of 86400000000 wall] by simp_all
  note dt = date_text_parts [OF assms(1-3)]
  show "tr_parse_date (date_text (wall div 86400000000)) = Some (wall div 86400000000)"
    by (rule tr_date_text [OF assms(1-3) wall_day_fits [OF assms(4)]])
  show "tr_time_micros (time_text (wall mod 86400000000)) = Some (wall mod 86400000000)" by (rule tr_time_text [OF t])
  show "split_once (CHR '' '') (date_text (wall div 86400000000) @ CHR '' '' # time_text (wall mod 86400000000)) =
      Some (date_text (wall div 86400000000), time_text (wall mod 86400000000))"
    by (rule split_once_append) (simp add: dt(1) ymd_no)
  show "trim (date_text (wall div 86400000000) @ CHR '' '' # time_text (wall mod 86400000000)) =
      date_text (wall div 86400000000) @ CHR '' '' # time_text (wall mod 86400000000)"
    unfolding dt(1) time_text_clock [OF t(1)]
    by (intro trim_ends) (use ymd_ends clock_ends in simp)
qed

lemma wall_micros: "wall div 86400000000 * 86400000000 + wall mod 86400000000 = (wall :: int)"
  by simp

lemma tr_timestamp_text:
  assumes "civil_from_days (m div 86400000000) = (y, mo, d)" "0 \<le> y" "y \<le> i64_max" "\<bar>m\<bar> < 2 ^ 63"
  shows "tr_timestamp (timestamp_text m None) False = Some (m, None)"
  using tr_wall_text [OF assms] wall_micros [of m]
  by (simp add: tr_timestamp_def timestamp_text_parts wall_clock_def offset_part_def)

text \<open>Trino prints the offset after a space.\<close>

lemma tr_offset_text:
  assumes "whole_minutes offset"
  shows "tr_split_offset (s @ CHR '' '' # offset_text offset) = Some (s, offset)"
proof -
  let ?h = "nat \<bar>offset\<bar> div 3600" and ?m = "nat \<bar>offset\<bar> mod 3600 div 60" and ?o = "offset_text offset"
  define c where "c = (if offset < 0 then CHR ''-'' else CHR ''+'')"
  note f = offset_fields [OF assms]
  have o: "?o = c # offset_digits offset" by (simp add: offset_text_digits c_def)
  have "rsplit_once_in [CHR '' ''] (s @ CHR '' '' # ?o) = Some (s, ?o)"
    by (rule rsplit_once_in_append) (simp_all add: o c_def offset_digits_no)
  moreover have "trim ?o = ?o"
    unfolding o by (rule trim_plain)
      (use offset_digits_ends [of offset] in \<open>auto simp: c_def is_ascii_digit_def byte_val_def\<close>)
  moreover have "split_once (CHR '':'') (offset_digits offset) = Some (nat_pad 2 ?h, nat_pad 2 ?m)"
    unfolding offset_digits_def by (rule split_once_append) (simp add: pad_no)
  moreover have "parse_i32 (nat_pad 2 ?h) = Some (int ?h)" "parse_i32 (nat_pad 2 ?m) = Some (int ?m)"
    unfolding parse_i32_def by (intro parse_pad; use f in simp)+
  moreover have "\<not> eq_ignore_ascii_case ?o ''utc''" "\<not> eq_ignore_ascii_case ?o ''z''"
    by (auto simp: o c_def eq_ignore_ascii_case_def to_ascii_lowercase_def to_ascii_uppercase_def ascii_lower_def
        ascii_upper_def is_ascii_uppercase_def is_ascii_lowercase_def byte_val_def)
  ultimately show ?thesis
    using f(3) by (auto simp: tr_split_offset_def o c_def strip_prefix_def prefix_def Let_def split: if_splits)
qed

lemma tr_zoned_text:
  assumes "whole_minutes offset" "civil_from_days ((m + offset * 1000000) div 86400000000) = (y, mo, d)"
    "0 \<le> y" "y \<le> i64_max" "\<bar>m + offset * 1000000\<bar> < 2 ^ 63"
  shows "tr_timestamp (timestamp_text (m + offset * 1000000) None @ '' '' @ offset_text offset) True = Some (m, Some offset)"
proof -
  let ?w = "m + offset * 1000000"
  let ?s = "date_text (?w div 86400000000) @ CHR '' '' # time_text (?w mod 86400000000)"
  note w = tr_wall_text [OF assms(2-5)]
  have t: "0 \<le> ?w mod 86400000000" using pos_mod_sign [of 86400000000 ?w] by simp
  have shape: "timestamp_text ?w None @ '' '' @ offset_text offset = ?s @ CHR '' '' # offset_text offset"
    by (simp add: timestamp_text_parts wall_clock_def offset_part_def)
  have "trim (?s @ CHR '' '' # offset_text offset) = ?s @ CHR '' '' # offset_text offset"
    unfolding date_text_parts(1) [OF assms(2-4)] time_text_clock [OF t]
    by (intro trim_ends) (use ymd_ends clock_ends offset_digits_ends in \<open>simp add: offset_text_digits\<close>)
  then show ?thesis
    unfolding shape tr_timestamp_def using w(1-3) wall_micros [of ?w] tr_offset_text [OF assms(1), of ?s]
    by (simp add: Let_def)
qed

section \<open>Base64\<close>

text \<open>The encoder of RFC 4648: three bytes make four characters, and what is short is padded.\<close>

definition b64_char :: "nat \<Rightarrow> byte" where
  "b64_char i = b64_alphabet ! i"

fun b64_encode :: "bytes \<Rightarrow> bytes" where
  "b64_encode [] = []"
| "b64_encode [a] = [b64_char (byte_val a div 4), b64_char (byte_val a mod 4 * 16), CHR ''='', CHR ''='']"
| "b64_encode [a, b] =
     [b64_char (byte_val a div 4), b64_char (byte_val a mod 4 * 16 + byte_val b div 16),
      b64_char (byte_val b mod 16 * 4), CHR ''='']"
| "b64_encode (a # b # c # s) =
     b64_char (byte_val a div 4) # b64_char (byte_val a mod 4 * 16 + byte_val b div 16) #
     b64_char (byte_val b mod 16 * 4 + byte_val c div 64) # b64_char (byte_val c mod 64) # b64_encode s"

lemma b64_chars: "list_all (\<lambda>i. find_index (b64_char i) b64_alphabet = Some i \<and> b64_char i \<noteq> CHR ''='' \<and>
    33 \<le> byte_val (b64_char i) \<and> byte_val (b64_char i) < 128) [0..<64]"
  by code_simp

lemma b64_char:
  assumes "i < 64"
  shows "find_index (b64_char i) b64_alphabet = Some i" "b64_char i \<noteq> CHR ''=''"
    "33 \<le> byte_val (b64_char i)" "byte_val (b64_char i) < 128"
  using b64_chars assms by (simp_all add: list_all_iff)

lemma byte_of_word: "k \<le> 24 \<Longrightarrow> x mod 2 ^ 32 div 2 ^ k mod 256 = x div 2 ^ k mod 256" for x :: nat
  using drop_bit_take_bit [of k 32 x] take_bit_take_bit [of 8 "32 - k" "drop_bit k x"]
  by (simp add: take_bit_eq_mod drop_bit_eq_div min_def)

definition wrapped :: "nat \<Rightarrow> nat" where
  "wrapped x = x mod 2 ^ 32"

definition out_byte :: "nat \<Rightarrow> nat \<Rightarrow> nat" where
  "out_byte x k = x div 2 ^ k mod 256"

text \<open>What a character does to the loop, whatever the buffer held before.\<close>

lemma b64_step:
  assumes "i < 64" "bits < 8"
  shows "b64_loop (b64_char i # s) (wrapped x) bits =
     (if bits + 6 \<ge> 8
      then map_option ((#) (char_of (out_byte (x * 64 + i) (bits - 2)))) (b64_loop s (wrapped (x * 64 + i)) (bits - 2))
      else b64_loop s (wrapped (x * 64 + i)) (bits + 6))"
proof -
  have w: "(x mod 2 ^ 32 * 64 + i) mod 2 ^ 32 = (x * 64 + i) mod 2 ^ 32"
    by (metis mod_add_left_eq mod_mult_left_eq)
  have "bits - 2 \<le> 24" "bits + 6 - 8 = bits - 2" using assms(2) by simp_all
  then show ?thesis using b64_char(1,2) [OF assms(1)] byte_of_word [of "bits - 2" "x * 64 + i"]
    by (simp only: b64_loop.simps option.case Let_def wrapped_def out_byte_def w if_False)
qed

lemma pack: "j < m \<Longrightarrow> (x * m + j) mod (m * r) = x mod r * m + j" for x :: nat
  using mod_mult2_eq [of "x * m + j" m r] by simp

lemma packed:
  fixes x :: nat
  assumes "i < 64"
  shows "(x * 64 + i) div 16 mod 256 = x mod 64 * 4 + i div 16" "(x * 64 + i) div 4 mod 256 = x mod 16 * 16 + i div 4"
    "(x * 64 + i) mod 256 = x mod 4 * 64 + i"
proof -
  have "i div 16 < 4" "i div 4 < 16" using assms by (simp_all add: less_mult_imp_div_less)
  moreover have "(x * 64 + i) div 16 = x * 4 + i div 16" "(x * 64 + i) div 4 = x * 16 + i div 4"
    using div_mult_self3 [of 16 "x * 4" i] div_mult_self3 [of 4 "x * 16" i] by simp_all
  ultimately show "(x * 64 + i) div 16 mod 256 = x mod 64 * 4 + i div 16"
    "(x * 64 + i) div 4 mod 256 = x mod 16 * 16 + i div 4" "(x * 64 + i) mod 256 = x mod 4 * 64 + i"
    using pack [of "i div 16" 4 x 64] pack [of "i div 4" 16 x 16] pack [of i 64 x 4] assms by simp_all
qed

lemma low_bits:
  fixes x :: nat
  assumes "i < 64"
  shows "(x * 64 + i) mod 64 = i" "(x * 64 + i) mod 16 = i mod 16" "(x * 64 + i) mod 4 = i mod 4"
proof -
  show "(x * 64 + i) mod 64 = i" using assms by simp
  have "(x * 4 * 16 + i) mod 16 = i mod 16" "(x * 16 * 4 + i) mod 4 = i mod 4" by (rule mod_mult_self3)+
  then show "(x * 64 + i) mod 16 = i mod 16" "(x * 64 + i) mod 4 = i mod 4" by (simp_all add: mult.assoc)
qed

declare b64_loop.simps [simp del]

lemma b64_two:
  assumes "i < 64" "j < 64"
  shows "b64_loop (b64_char i # b64_char j # s) (wrapped x) 0 =
     map_option ((#) (char_of (i * 4 + j div 16))) (b64_loop s (wrapped ((x * 64 + i) * 64 + j)) 4)"
proof -
  have "out_byte ((x * 64 + i) * 64 + j) 4 = i * 4 + j div 16"
    using packed(1) [OF assms(2), of "x * 64 + i"] low_bits(1) [OF assms(1), of x] by (simp add: out_byte_def)
  then show ?thesis
    using b64_step [OF assms(1), of 0 "b64_char j # s" x] b64_step [OF assms(2), of 6 s "x * 64 + i"] by simp
qed

lemma b64_third:
  assumes "j < 64" "k < 64"
  shows "b64_loop (b64_char k # s) (wrapped (x * 64 + j)) 4 =
     map_option ((#) (char_of (j mod 16 * 16 + k div 4))) (b64_loop s (wrapped ((x * 64 + j) * 64 + k)) 2)"
proof -
  have "out_byte ((x * 64 + j) * 64 + k) 2 = j mod 16 * 16 + k div 4"
    using packed(2) [OF assms(2), of "x * 64 + j"] low_bits(2) [OF assms(1), of x] by (simp add: out_byte_def)
  then show ?thesis using b64_step [OF assms(2), of 4 s "x * 64 + j"] by simp
qed

lemma b64_fourth:
  assumes "k < 64" "l < 64"
  shows "b64_loop (b64_char l # s) (wrapped (x * 64 + k)) 2 =
     map_option ((#) (char_of (k mod 4 * 64 + l))) (b64_loop s (wrapped ((x * 64 + k) * 64 + l)) 0)"
proof -
  have "out_byte ((x * 64 + k) * 64 + l) 0 = k mod 4 * 64 + l"
    using packed(3) [OF assms(2), of "x * 64 + k"] low_bits(3) [OF assms(1), of x] by (simp add: out_byte_def)
  then show ?thesis using b64_step [OF assms(2), of 2 s "x * 64 + k"] by simp
qed

lemma byte_parts:
  "byte_val a div 4 < 64" "byte_val a mod 4 * 16 + byte_val b div 16 < 64" "byte_val b mod 16 * 4 + byte_val c div 64 < 64"
  "byte_val c mod 64 < 64"
proof -
  have "byte_val c < 256" "byte_val a < 256" "byte_val b < 256" by simp_all
  then have "byte_val c div 64 \<le> 3" "byte_val b div 16 \<le> 15" "byte_val a div 4 < 64"
    by (simp_all add: less_Suc_eq_le [symmetric] less_mult_imp_div_less)
  moreover have "byte_val a mod 4 \<le> 3" "byte_val b mod 16 \<le> 15" by (simp_all add: less_Suc_eq_le [symmetric])
  ultimately show "byte_val a div 4 < 64" "byte_val a mod 4 * 16 + byte_val b div 16 < 64"
    "byte_val b mod 16 * 4 + byte_val c div 64 < 64" "byte_val c mod 64 < 64" by simp_all
qed

lemma byte_joined:
  "byte_val a div 4 * 4 + (byte_val a mod 4 * 16 + byte_val b div 16) div 16 = byte_val a"
  "(byte_val a mod 4 * 16 + byte_val b div 16) mod 16 * 16 + (byte_val b mod 16 * 4 + byte_val c div 64) div 4 = byte_val b"
  "(byte_val b mod 16 * 4 + byte_val c div 64) mod 4 * 64 + byte_val c mod 64 = byte_val c"
proof -
  have "byte_val b div 16 < 16" "byte_val c div 64 < 4" by (simp_all add: less_mult_imp_div_less)
  then show "byte_val a div 4 * 4 + (byte_val a mod 4 * 16 + byte_val b div 16) div 16 = byte_val a"
    "(byte_val a mod 4 * 16 + byte_val b div 16) mod 16 * 16 + (byte_val b mod 16 * 4 + byte_val c div 64) div 4 = byte_val b"
    "(byte_val b mod 16 * 4 + byte_val c div 64) mod 4 * 64 + byte_val c mod 64 = byte_val c"
    by simp_all
qed

lemma char_of_byte [simp]: "char_of (byte_val c) = c"
  by (simp add: byte_val_def)

lemma b64_padding: "b64_loop (CHR ''='' # s) buffer bits = Some []"
  by (simp add: b64_loop.simps)

lemma b64_loop_encode: "b64_loop (b64_encode s) (wrapped x) 0 = Some s"
proof (induction s arbitrary: x rule: b64_encode.induct)
  case 1
  then show ?case by (simp add: b64_loop.simps)
next
  case (2 a)
  have j: "byte_val a mod 4 * 16 < 64" using byte_parts(2) [of a "CHR 0x00"] by simp
  have "byte_val a div 4 * 4 + byte_val a mod 4 * 16 div 16 = byte_val a" by simp
  with b64_two [OF byte_parts(1) j, of a "''==''" x] show ?case by (simp add: b64_padding)
next
  case (3 a b)
  have k: "byte_val b mod 16 * 4 < 64" using byte_parts(3) [of b "CHR 0x00"] by simp
  have "(byte_val a mod 4 * 16 + byte_val b div 16) mod 16 * 16 + byte_val b mod 16 * 4 div 4 = byte_val b"
    using byte_joined(2) [of a b "CHR 0x00"] by simp
  then have "b64_loop (b64_char (byte_val b mod 16 * 4) # ''='') (wrapped ((x * 64 + byte_val a div 4) * 64 +
      (byte_val a mod 4 * 16 + byte_val b div 16))) 4 = Some [b]"
    by (simp only: b64_third [OF byte_parts(2) k] b64_padding option.map char_of_byte)
  then show ?case
    by (simp only: b64_encode.simps b64_two [OF byte_parts(1,2)] byte_joined(1) option.map char_of_byte)
next
  case (4 a b c s)
  then show ?case
    by (simp only: b64_encode.simps b64_two [OF byte_parts(1,2)] b64_third [OF byte_parts(2,3)]
        b64_fourth [OF byte_parts(3,4)] byte_joined option.map char_of_byte)
qed

lemma b64_encode_plain: "c \<in> set (b64_encode s) \<Longrightarrow> 33 \<le> byte_val c \<and> byte_val c < 128"
proof (induction s rule: b64_encode.induct)
  case (2 a)
  have "byte_val a mod 4 * 16 < 64" using byte_parts(2) [of a "CHR 0x00"] by simp
  with 2 byte_parts show ?case by (auto simp: b64_char)
next
  case (3 a b)
  have "byte_val b mod 16 * 4 < 64" using byte_parts(3) [of b "CHR 0x00"] by simp
  with 3 byte_parts show ?case by (auto simp: b64_char)
next
  case (4 a b c s)
  then show ?case using byte_parts by (auto simp: b64_char)
qed simp

lemma decode_base64_encode: "decode_base64 (b64_encode s) = Some s"
proof -
  have "trim (b64_encode s) = b64_encode s"
  proof (cases "b64_encode s = []")
    case False
    then show ?thesis using b64_encode_plain [OF hd_in_set] b64_encode_plain [OF last_in_set] by (intro trim_plain) simp_all
  qed simp
  moreover have "filter (\<lambda>c. \<not> is_ascii_whitespace c) (b64_encode s) = b64_encode s"
    using b64_encode_plain by (fastforce simp: filter_id_conv is_ascii_whitespace_def)
  moreover have "b64_loop (b64_encode s) 0 0 = Some s" using b64_loop_encode [of s 0] by (simp add: wrapped_def)
  ultimately show ?thesis by (simp add: decode_base64_def)
qed

interpretation trino_varbinary: codec "\<lambda>s. True" b64_encode decode_base64
  by unfold_locales (rule decode_base64_encode)

interpretation trino_decimals: codec "\<lambda>(u, sc). \<bar>u\<bar> < 2 ^ 127 \<and> sc \<le> 255" "\<lambda>(u, sc). decimal_text u sc"
  tr_parse_decimal
  by unfold_locales (auto simp: tr_decimal_text)

section \<open>Properties\<close>

text \<open>
  A decimal keeps every digit and its scale through all three drivers: the text the engine writes for an
  \<open>i128\<close> and a scale up to 38 each of them reads as that number and that scale. None goes through a float.
\<close>
theorem decimals_are_exact:
  assumes "\<bar>u\<bar> < 2 ^ 127" "scale \<le> 38"
  shows "pg_decimal (decimal_text u scale) = Some (u, scale) \<and>
     my_parse_decimal (decimal_text u scale) = Some (VDecimal u scale) \<and>
     tr_parse_decimal (decimal_text u scale) = Some (u, scale)"
  using assms by (simp add: pg_decimal_text my_parse_decimal_pg tr_decimal_text)

theorem decimals_are_exact_witness:
  "pg_decimal (decimal_text (- 5) 38) = Some (- 5, 38) \<and> my_parse_decimal (decimal_text (- 5) 38) = Some (VDecimal (- 5) 38) \<and>
   tr_parse_decimal (decimal_text (- 5) 38) = Some (- 5, 38)"
  by (rule decimals_are_exact) simp_all



text \<open>
  The bytes of a \<open>varbinary\<close> are the bytes whose base64 the server sent, for every length and whatever
  the 32-bit buffer of the decoder has shifted out.
\<close>
theorem varbinary_reads_back: "decode_base64 (b64_encode s) = Some s"
  by (rule trino_varbinary.reads_back) simp

end
