(* ===== verification/TrinoTypes.thy ===== *)
theory TrinoTypes
  imports TrinoAgree
begin

text \<open>
  The texts of Trino's types as trees, and how \<open>decode\<close> walks a nested value by them: the arguments it cuts
  out of \<open>array(...)\<close>, \<open>row(...)\<close> and \<open>map(...)\<close> are the types they were written with.
\<close>

section \<open>Types as trees\<close>

text \<open>A name, its arguments and what follows them, as in \<open>timestamp(3) with time zone\<close>.\<close>

datatype type_tree = TypeTree (tt_name: bytes) (tt_args: "type_tree list") (tt_tail: bytes)

fun type_text_of :: "type_tree \<Rightarrow> bytes" where
  "type_text_of (TypeTree name args tail) =
     name @ (if args = [] then [] else CHR ''('' # join '', '' (map type_text_of args) @ '')'') @ tail"

definition no_marks :: "bytes \<Rightarrow> bool" where
  "no_marks s \<longleftrightarrow> CHR ''('' \<notin> set s \<and> CHR '')'' \<notin> set s \<and> CHR '','' \<notin> set s"

definition edge_byte :: "byte \<Rightarrow> bool" where
  "edge_byte c \<longleftrightarrow> 33 \<le> byte_val c \<and> byte_val c < 128"

fun written_type :: "type_tree \<Rightarrow> bool" where
  "written_type (TypeTree name args tail) \<longleftrightarrow>
     name \<noteq> [] \<and> no_marks name \<and> no_marks tail \<and> edge_byte (hd name) \<and> edge_byte (last name) \<and>
     (tail = [] \<or> edge_byte (last tail)) \<and> (\<forall>t \<in> set args. written_type t)"

lemma split_no_marks: "no_marks s \<Longrightarrow> split_arguments (s @ r) depth current = split_arguments r depth (current @ s)"
  by (induction s arbitrary: current) (auto simp: no_marks_def)

lemma split_inside_join:
  assumes "\<And>t depth current r. t \<in> set ts \<Longrightarrow>
      split_arguments (type_text_of t @ r) depth current = split_arguments r depth (current @ type_text_of t)"
  shows "split_arguments (join '', '' (map type_text_of ts) @ r) (Suc depth) current =
     split_arguments r (Suc depth) (current @ join '', '' (map type_text_of ts))"
  using assms
proof (induction ts arbitrary: current)
  case (Cons t ts)
  then show ?case by (cases ts) simp_all
qed simp

lemma split_type:
  "written_type t \<Longrightarrow> split_arguments (type_text_of t @ r) depth current = split_arguments r depth (current @ type_text_of t)"
proof (induction t arbitrary: r depth current)
  case (TypeTree name args tail)
  then have n: "no_marks name" "no_marks tail" by simp_all
  have "split_arguments (join '', '' (map type_text_of args) @ s) (Suc k) c =
      split_arguments s (Suc k) (c @ join '', '' (map type_text_of args))" for s k c
    by (rule split_inside_join) (use TypeTree in simp)
  then show ?case using split_no_marks [OF n(1)] split_no_marks [OF n(2)] by simp
qed

lemma type_text_edges:
  "written_type t \<Longrightarrow> type_text_of t \<noteq> [] \<and> edge_byte (hd (type_text_of t)) \<and> edge_byte (last (type_text_of t))"
  by (cases t) (auto simp: edge_byte_def)

lemma trim_type: "written_type t \<Longrightarrow> trim (type_text_of t) = type_text_of t"
  using type_text_edges [of t] by (intro trim_plain) (auto simp: edge_byte_def)

lemma trim_space: "trim (CHR '' '' # s) = trim s"
  by (simp add: trim_def trim_start_space)

lemma split_joined:
  assumes "ts \<noteq> []" "\<forall>t \<in> set ts. written_type t" "current = [] \<or> current = '' ''"
  shows "split_arguments (join '', '' (map type_text_of ts)) 0 current = map type_text_of ts"
  using assms
proof (induction ts arbitrary: current)
  case (Cons t ts)
  have t: "trim (current @ type_text_of t) = type_text_of t" "type_text_of t \<noteq> []"
    using Cons.prems trim_type [of t] type_text_edges [of t] by (auto simp: trim_space)
  show ?case
  proof (cases ts)
    case Nil
    with t Cons.prems split_type [of t "[]" 0 current] show ?thesis by simp
  next
    case (Cons t' ts')
    with t Cons.prems Cons.IH [of "'' ''"] split_type [of t _ 0 current] show ?thesis by simp
  qed
qed simp

lemma type_arguments_text:
  assumes "written_type (TypeTree name args [])" "args \<noteq> []"
  shows "type_arguments (type_text_of (TypeTree name args [])) name = Some (map type_text_of args)"
proof -
  let ?j = "join '', '' (map type_text_of args)"
  have "strip_prefix name (name @ CHR ''('' # ?j @ '')'') = Some (CHR ''('' # ?j @ '')'')"
    by (simp add: strip_prefix_def prefix_def)
  moreover have "trim_start (CHR ''('' # ?j @ '')'') = CHR ''('' # ?j @ '')''"
    by (rule trim_start_idle) (simp add: ws_head_plain)
  moreover have "strip_suffix '')'' (?j @ '')'') = Some ?j" by (simp add: strip_suffix_def suffix_def)
  moreover have "split_arguments ?j 0 [] = map type_text_of args"
    using assms by (intro split_joined) simp_all
  ultimately show ?thesis
    using trim_type [OF assms(1)] assms(2)
    by (simp add: type_arguments_def) (simp add: strip_prefix_def prefix_def)
qed

lemma takeWhile_free: "c \<notin> set s \<Longrightarrow> takeWhile (\<lambda>x. x \<noteq> c) (s @ c # r) = s"
  by (induction s) auto

lemma base_type_text:
  assumes "written_type (TypeTree name args tail)" "args \<noteq> []" "\<not> prefix ''timestamp'' (type_text_of (TypeTree name args tail))"
  shows "base_type (type_text_of (TypeTree name args tail)) = name"
proof -
  have "takeWhile (\<lambda>c. c \<noteq> CHR ''('') (name @ CHR ''('' # r) = name" for r
    using assms(1) by (intro takeWhile_free) (simp add: no_marks_def)
  moreover have "trim name = name" using assms(1) by (intro trim_plain) (auto simp: edge_byte_def)
  ultimately show ?thesis
    using assms(2,3) trim_type [OF assms(1)] by (simp add: base_type_def strip_prefix_def before_paren_def Let_def)
qed

section \<open>Properties\<close>

text \<open>
  A nested value is read by its types: each item of an \<open>array(T)\<close> by \<open>T\<close>, the items of a \<open>row\<close> by the
  types in their places and the keys and values of a \<open>map(K, V)\<close> by \<open>K\<close> and \<open>V\<close>, however deep the types
  nest and with parameter lists of their own.
\<close>
theorem nested_values_by_their_types:
  assumes "list_all written_type (t # u # ts)"
  shows "decode tr (type_text_of (TypeTree ''array'' [t] [])) (JArray items) =
       VArray (map (decode tr (type_text_of t)) items) \<and>
     (length items = length (t # ts) \<longrightarrow>
       decode tr (type_text_of (TypeTree ''row'' (t # ts) [])) (JArray items) =
       VRow (map2 (\<lambda>item ty. decode tr (type_text_of ty) item) items (t # ts))) \<and>
     decode tr (type_text_of (TypeTree ''map'' [t, u] [])) (JObject entries) =
       VMap (map (\<lambda>(k, v). (decode tr (type_text_of t) (JText k), decode tr (type_text_of u) v)) entries)"
proof -
  have base: "base_type (type_text_of (TypeTree name as [])) = name \<and>
      type_arguments (type_text_of (TypeTree name as [])) name = Some (map type_text_of as)"
    if "name \<in> {''array'', ''row'', ''map''}" "as \<noteq> []" "list_all written_type as" for name as
  proof -
    have w: "written_type (TypeTree name as [])"
      using that by (auto simp: no_marks_def edge_byte_def byte_val_def list_all_iff)
    moreover have "\<not> prefix ''timestamp'' (type_text_of (TypeTree name as []))" using that by (auto simp: prefix_def)
    ultimately show ?thesis using base_type_text type_arguments_text that(2) by blast
  qed
  have a: "decode tr (type_text_of (TypeTree ''array'' [t] [])) (JArray items) =
      VArray (map (decode tr (type_text_of t)) items)"
    using base [of "''array''" "[t]"] assms
    by (subst decode.simps) (simp add: single_argument_def del: type_text_of.simps)
  have r: "decode tr (type_text_of (TypeTree ''row'' (t # ts) [])) (JArray items) =
      VRow (map2 (\<lambda>item ty. decode tr (type_text_of ty) item) items (t # ts))" if "length items = length (t # ts)"
    using base [of "''row''" "t # ts"] assms that
    by (subst decode.simps) (simp add: zip_map2 comp_def case_prod_unfold del: type_text_of.simps list.map)
  have m: "decode tr (type_text_of (TypeTree ''map'' [t, u] [])) (JObject entries) =
      VMap (map (\<lambda>(k, v). (decode tr (type_text_of t) (JText k), decode tr (type_text_of u) v)) entries)"
    using base [of "''map''" "[t, u]"] assms by (subst decode.simps) (simp del: type_text_of.simps)
  show ?thesis using a r m by blast
qed

theorem nested_values_by_their_types_witness:
  "decode \<lparr>tr_display = (\<lambda>v. []), tr_parse_f64 = (\<lambda>s. None), tr_int_f64 = (\<lambda>n. FNan)\<rparr>
     (type_text_of (TypeTree ''row'' [TypeTree ''bigint'' [] [],
        TypeTree ''decimal'' [TypeTree ''38'' [] [], TypeTree ''2'' [] []] []] []))
     (JArray [JInt 7, JText ''1.50'']) =
   VRow (map2 (\<lambda>item ty. decode \<lparr>tr_display = (\<lambda>v. []), tr_parse_f64 = (\<lambda>s. None), tr_int_f64 = (\<lambda>n. FNan)\<rparr>
       (type_text_of ty) item)
     [JInt 7, JText ''1.50''] [TypeTree ''bigint'' [] [],
        TypeTree ''decimal'' [TypeTree ''38'' [] [], TypeTree ''2'' [] []] []])"
  by (rule nested_values_by_their_types [where u = "TypeTree ''date'' [] []", THEN conjunct2, THEN conjunct1, THEN mp])
     (simp_all add: no_marks_def edge_byte_def)

section \<open>What the types do not reach\<close>

text \<open>
  A field of a row that Trino names (\<^verbatim>\<open>row(x integer)\<close>) has the name before its type; \<open>decode\<close> takes the whole
  text for the type, so the item stays text. The descriptor (\<open>field_type\<close>) splits the name off.
\<close>

lemma named_field_is_not_read:
  "decode tr ''row(x integer)'' (JArray [JInt 1]) = VRow [VUnknown ''x integer'' (Some (tr_display tr (JInt 1))) None]"
proof -
  let ?x = "TypeTree ''x integer'' [] []"
  have w: "list_all written_type [?x, ?x]" by (simp add: no_marks_def edge_byte_def)
  have t: "''row(x integer)'' = type_text_of (TypeTree ''row'' [?x] [])" by simp
  have "trim ''x integer'' = ''x integer''" by (rule trim_plain) simp_all
  then have "base_type ''x integer'' = ''x integer''"
    by (simp add: base_type_def strip_prefix_def prefix_def before_paren_def)
  then have "decode tr ''x integer'' (JInt 1) = VUnknown ''x integer'' (Some (tr_display tr (JInt 1))) None"
    by (subst decode.simps)
       (simp add: decode_scalar_def unmodelled_def unknown_text_def eq_ignore_ascii_case_def to_ascii_lowercase_def)
  moreover have "type_arguments ''row(x integer)'' ''row'' = Some [''x integer'']"
    using type_arguments_text [of "''row''" "[?x]"] w by (simp add: no_marks_def edge_byte_def)
  moreover have "base_type ''row(x integer)'' = ''row''"
    using base_type_text [of "''row''" "[?x]" "[]"] w by (simp add: no_marks_def edge_byte_def prefix_def)
  ultimately show ?thesis by (subst decode.simps) simp
qed

end
