(* ===== verification/JsonText.thy ===== *)
theory JsonText
  imports Values Codec
begin

text \<open>
  A reader of JSON strings, after RFC 8259, and what it makes of the strings \<open>json_string\<close> writes
  (\<^verbatim>\<open>write_json_string\<close> of \<^verbatim>\<open>crates/qh-core/src/render.rs\<close>). The reader is the reference: it stops at the
  first quote that is not escaped and refuses a control byte. Of the \<open>\u\<close> escapes it reads those of one
  byte.
\<close>

section \<open>The reference\<close>

definition short_escape :: "byte \<Rightarrow> byte option" where
  "short_escape c =
     (if c \<in> set [CHR 0x22, CHR 0x5C, CHR ''/''] then Some c
      else if c = CHR ''n'' then Some (CHR 0x0A) else if c = CHR ''r'' then Some (CHR 0x0D)
      else if c = CHR ''t'' then Some (CHR 0x09) else if c = CHR ''b'' then Some (CHR 0x08)
      else if c = CHR ''f'' then Some (CHR 0x0C) else None)"

definition byte_escape :: "bytes \<Rightarrow> (byte \<times> bytes) option" where
  "byte_escape s =
     (case s of
        z # y # h # l # r \<Rightarrow>
          (case (hex_value h, hex_value l) of
             (Some a, Some b) \<Rightarrow> if z = CHR ''0'' \<and> y = CHR ''0'' \<and> a < 8 then Some (char_of (a * 16 + b), r) else None
           | _ \<Rightarrow> None)
      | _ \<Rightarrow> None)"

text \<open>One character of a string: its byte and what follows it.\<close>

definition json_char :: "bytes \<Rightarrow> (byte \<times> bytes) option" where
  "json_char s =
     (case s of
        [] \<Rightarrow> None
      | c # r \<Rightarrow>
          if c \<noteq> CHR 0x5C then if byte_val c < 32 then None else Some (c, r)
          else (case r of
                  [] \<Rightarrow> None
                | e # r' \<Rightarrow> if e = CHR ''u'' then byte_escape r' else map_option (\<lambda>b. (b, r')) (short_escape e)))"

lemma json_char_shorter: "json_char s = Some (b, r) \<Longrightarrow> length r < length s"
  by (auto simp: json_char_def byte_escape_def split: list.splits option.splits if_splits)

text \<open>The characters up to the quote that ends the string, and what follows it.\<close>

function json_chars :: "bytes \<Rightarrow> (bytes \<times> bytes) option" where
  "json_chars s =
     (if s \<noteq> [] \<and> hd s = CHR 0x22 then Some ([], tl s)
      else (case json_char s of
              None \<Rightarrow> None
            | Some (b, r) \<Rightarrow> map_option (\<lambda>(t, rest). (b # t, rest)) (json_chars r)))"
  by pat_completeness auto
termination
  by (relation "measure length") (auto dest: json_char_shorter)

declare json_chars.simps [simp del]

definition json_read_string :: "bytes \<Rightarrow> (bytes \<times> bytes) option" where
  "json_read_string s = (if s \<noteq> [] \<and> hd s = CHR 0x22 then json_chars (tl s) else None)"

section \<open>What the writer writes\<close>

lemma json_escape_control:
  assumes "byte_val c < 32" "c \<notin> {CHR 0x0A, CHR 0x0D, CHR 0x09, CHR 0x08, CHR 0x0C}"
  shows "json_char (json_escape c @ s) = Some (c, s)"
proof -
  have "byte_val c div 16 < 8" using assms(1) by (simp add: less_mult_imp_div_less)
  then have "byte_escape (''00'' @ hex_byte c @ s) = Some (c, s)"
    using hex_byte_values [of c] by (simp add: byte_escape_def hex_byte_def)
  moreover have "c \<noteq> CHR 0x22" "c \<noteq> CHR 0x5C" using assms(1) by auto
  ultimately show ?thesis using assms by (simp add: json_escape_def json_char_def)
qed

lemma json_escape_read: "hd (json_escape c @ s) \<noteq> CHR 0x22 \<and> json_char (json_escape c @ s) = Some (c, s)"
proof (cases "byte_val c < 32 \<and> c \<notin> {CHR 0x0A, CHR 0x0D, CHR 0x09, CHR 0x08, CHR 0x0C}")
  case True
  then have "c \<noteq> CHR 0x22" by auto
  with True json_escape_control [of c s] show ?thesis by (simp add: json_escape_def)
next
  case False
  then show ?thesis by (auto simp: json_escape_def json_char_def short_escape_def)
qed

lemma json_chars_escape: "json_chars (json_escape c @ s) = map_option (\<lambda>(t, rest). (c # t, rest)) (json_chars s)"
  using json_escape_read [of c s] by (subst json_chars.simps) simp

lemma json_chars_escapes: "json_chars (concat (map json_escape t) @ CHR 0x22 # rest) = Some (t, rest)"
  by (induction t) (simp_all add: json_chars_escape, simp add: json_chars.simps)

lemma json_read_string: "json_read_string (json_string s @ rest) = Some (s, rest)"
  by (simp add: json_read_string_def json_string_def json_chars_escapes)

interpretation json_strings: prefix_codec "\<lambda>s. True" json_string json_read_string
  by unfold_locales (rule json_read_string)

text \<open>No string of a document is the beginning of another.\<close>

lemma json_strings_apart: "prefix (json_string s) (json_string t) \<Longrightarrow> s = t"
  by (rule json_strings.prefix_free) simp_all

section \<open>Property\<close>

text \<open>
  A string the engine writes into JSON is read back as that string, whatever bytes it has and whatever
  follows: no quote, backslash or control byte of a value ends the string early or changes it.
\<close>
theorem json_string_reads_back: "json_read_string (json_string s @ rest) = Some (s, rest)"
  by (rule json_strings.reads_prefix) simp

end
