(* ===== verification/SqlScriptBody.thy ===== *)
theory SqlScriptBody
  imports SqlScript
begin

text \<open>
  A grammar of the statements of a MySQL stored program and the proof that the splitter of
  \<^verbatim>\<open>crates/qh-sql/src/script.rs\<close> reads every one of them to its end: no \<open>;\<close> inside is a cut, and the
  body is over at its own \<open>END\<close>.

  The grammar is the abstract specification. Its terminals are what the splitter is given between
  two cuts: the bytes of a gap, an event (a word or a quoted region, with the mark that a label's
  colon follows), and a \<open>;\<close>.
\<close>

section \<open>What a body is given\<close>

datatype item = ItGap bytes | ItEv bool ev | ItSemi

abbreviation ItWord :: "bool \<Rightarrow> bytes \<Rightarrow> item" where
  "ItWord l w \<equiv> ItEv l (EWord w)"

fun is_gap :: "item \<Rightarrow> bool" where
  "is_gap (ItGap g) = True" | "is_gap _ = False"

fun is_semi :: "item \<Rightarrow> bool" where
  "is_semi ItSemi = True" | "is_semi _ = False"

definition label_ctx :: "bool \<Rightarrow> ctx" where
  "label_ctx l = \<lparr>c_parens = 0, c_opens = 0, c_at = False, c_label = l\<rparr>"

text \<open>The body after a list of items, \<open>None\<close> when it was closed on the way.\<close>

fun body_run :: "item list \<Rightarrow> body \<Rightarrow> body option" where
  "body_run [] b = Some b"
| "body_run (ItGap g # xs) b = body_run xs (body_gap g b)"
| "body_run (ItSemi # xs) b = body_run xs (body_restart b)"
| "body_run (ItEv l e # xs) b =
     (case body_event (label_ctx l) e b of (b', closed) \<Rightarrow> if closed then None else body_run xs b')"

lemma body_run_append:
  "body_run (xs @ ys) b = Option.bind (body_run xs b) (body_run ys)"
  by (induction xs b rule: body_run.induct) (auto split: prod.split)

section \<open>The grammar\<close>

text \<open>
  An expression: any tokens, where a \<open>CASE\<close> is closed by its own \<open>END\<close>. Outside a \<open>CASE\<close> the words
  that start a statement do not occur.
\<close>

inductive sp_expr :: "bool \<Rightarrow> item list \<Rightarrow> bool" where
  expr_nil: "sp_expr c []"
| expr_gap: "sp_expr c xs \<Longrightarrow> sp_expr c (ItGap g # xs)"
| expr_quoted: "sp_expr c xs \<Longrightarrow> sp_expr c (ItEv l (EQuoted k) # xs)"
| expr_word: "sp_expr c xs \<Longrightarrow> \<not> is_any w [''CASE'', ''END''] \<Longrightarrow>
    c \<or> \<not> is_any w [''THEN'', ''ELSE'', ''DO''] \<Longrightarrow> sp_expr c (ItWord l w # xs)"
| expr_case: "sp_expr True ys \<Longrightarrow> sp_expr c xs \<Longrightarrow> is_kw w ''CASE'' \<Longrightarrow> is_kw v ''END'' \<Longrightarrow>
    sp_expr c (ItWord l w # ys @ ItWord m v # xs)"

definition FIRST_WORDS :: "bytes list" where
  "FIRST_WORDS = [''END'', ''BEGIN'', ''LOOP'', ''REPEAT'', ''ELSE'', ''IF'', ''CASE'', ''WHILE'',
     ''UNTIL'', ''DECLARE'']"

text \<open>A condition of a handler, up to the last of its events.\<close>

inductive sp_condition :: "item list \<Rightarrow> bool" where
  condition_name: "\<not> is_any w [''NOT'', ''SQLSTATE''] \<Longrightarrow> sp_condition [ItWord l w]"
| condition_not_found: "is_kw w ''NOT'' \<Longrightarrow> sp_condition [ItWord l w, ItGap g, ItWord m v]"
| condition_sqlstate: "is_kw w ''SQLSTATE'' \<Longrightarrow>
    sp_condition [ItWord l w, ItGap g, ItEv m (EQuoted k)]"
| condition_sqlstate_value: "is_kw w ''SQLSTATE'' \<Longrightarrow> is_kw v ''VALUE'' \<Longrightarrow>
    sp_condition [ItWord l w, ItGap g, ItWord n v, ItGap h, ItEv m (EQuoted k)]"

definition blank :: "bytes \<Rightarrow> bool" where
  "blank g \<longleftrightarrow> list_all (\<lambda>c. c \<noteq> CHR '','' \<and> \<not> is_ascii_digit c) g"

inductive sp_conditions :: "item list \<Rightarrow> bool" where
  conditions_one: "sp_condition xs \<Longrightarrow> blank g \<Longrightarrow> sp_conditions (ItGap g # xs)"
| conditions_more: "sp_condition xs \<Longrightarrow> blank g \<Longrightarrow> blank h \<Longrightarrow> sp_conditions (ItGap i # ys) \<Longrightarrow>
    blank i \<Longrightarrow> sp_conditions (ItGap g # xs @ ItGap (h @ CHR '','' # i) # ys)"

text \<open>
  Statements, sequences of them, and the further arms of an \<open>IF\<close> or a \<open>CASE\<close> (an \<open>ELSEIF\<close> or \<open>WHEN\<close>
  with its condition, or an \<open>ELSE\<close>). Every statement ends in its \<open>;\<close>.
\<close>

inductive sp_stmt :: "item list \<Rightarrow> bool"
  and sp_stmts :: "item list \<Rightarrow> bool"
  and sp_arms :: "item list \<Rightarrow> bool" where
  stmt_simple: "\<not> is_any w FIRST_WORDS \<Longrightarrow> sp_expr False xs \<Longrightarrow>
    sp_stmt (ItWord False w # xs @ [ItSemi])"
| stmt_label: "sp_stmt xs \<Longrightarrow> \<not> is_kw w ''END'' \<Longrightarrow> sp_stmt (ItWord True w # ItGap g # xs)"
| stmt_block: "is_any w [''BEGIN'', ''LOOP''] \<Longrightarrow> sp_stmts xs \<Longrightarrow> is_kw v ''END'' \<Longrightarrow>
    list_all (\<lambda>i. \<not> is_semi i) ys \<Longrightarrow>
    sp_stmt (ItWord False w # xs @ ItWord l v # ys @ [ItSemi])"
| stmt_repeat: "is_kw w ''REPEAT'' \<Longrightarrow> sp_stmts xs \<Longrightarrow> is_kw u ''UNTIL'' \<Longrightarrow> sp_expr False zs \<Longrightarrow>
    is_kw v ''END'' \<Longrightarrow> list_all (\<lambda>i. \<not> is_semi i) ys \<Longrightarrow>
    sp_stmt (ItWord False w # xs @ ItWord False u # zs @ ItWord l v # ys @ [ItSemi])"
| stmt_while: "is_kw w ''WHILE'' \<Longrightarrow> sp_expr False zs \<Longrightarrow> is_kw u ''DO'' \<Longrightarrow> sp_stmts xs \<Longrightarrow>
    is_kw v ''END'' \<Longrightarrow> list_all (\<lambda>i. \<not> is_semi i) ys \<Longrightarrow>
    sp_stmt (ItWord False w # zs @ ItWord m u # xs @ ItWord l v # ys @ [ItSemi])"
| stmt_choice: "is_any w [''IF'', ''CASE''] \<Longrightarrow> sp_expr False zs \<Longrightarrow> is_kw u ''THEN'' \<Longrightarrow>
    sp_stmts xs \<Longrightarrow> sp_arms as \<Longrightarrow> is_kw v ''END'' \<Longrightarrow> list_all (\<lambda>i. \<not> is_semi i) ys \<Longrightarrow>
    sp_stmt (ItWord False w # zs @ ItWord m u # xs @ as @ ItWord l v # ys @ [ItSemi])"
| stmt_declare: "is_kw w ''DECLARE'' \<Longrightarrow>
    list_all (\<lambda>i. \<not> is_semi i \<and>
      (case i of ItEv l (EWord u) \<Rightarrow> \<not> is_any u [''CONTINUE'', ''EXIT'', ''UNDO''] | _ \<Rightarrow> True)) ys \<Longrightarrow>
    sp_stmt (ItWord False w # ys @ [ItSemi])"
| stmt_handler: "is_kw w ''DECLARE'' \<Longrightarrow> is_any a [''CONTINUE'', ''EXIT'', ''UNDO''] \<Longrightarrow>
    is_kw h ''HANDLER'' \<Longrightarrow> is_kw f ''FOR'' \<Longrightarrow> sp_conditions cs \<Longrightarrow> blank g \<Longrightarrow> sp_stmt xs \<Longrightarrow>
    sp_stmt (ItWord False w # ItGap g1 # ItWord l1 a # ItGap g2 # ItWord l2 h # ItGap g3 #
      ItWord l3 f # cs @ ItGap g # xs)"
| stmts_nil: "sp_stmts []"
| stmts_gap: "sp_stmts xs \<Longrightarrow> sp_stmts (ItGap g # xs)"
| stmts_cons: "sp_stmt xs \<Longrightarrow> sp_stmts ys \<Longrightarrow> sp_stmts (xs @ ys)"
| arms_nil: "sp_arms []"
| arms_else: "is_kw u ''ELSE'' \<Longrightarrow> sp_stmts xs \<Longrightarrow> sp_arms (ItWord False u # xs)"
| arms_cons: "\<not> is_any w FIRST_WORDS \<Longrightarrow> sp_expr False zs \<Longrightarrow> is_kw u ''THEN'' \<Longrightarrow> sp_stmts xs \<Longrightarrow>
    sp_arms as \<Longrightarrow> sp_arms (ItWord False w # zs @ ItWord m u # xs @ as)"

section \<open>Words of the grammar\<close>

definition KEYWORDS :: "bytes list" where
  "KEYWORDS = FIRST_WORDS @ [''THEN'', ''DO'', ''CONTINUE'', ''EXIT'', ''UNDO'', ''HANDLER'', ''FOR'',
     ''NOT'', ''SQLSTATE'', ''VALUE'', ''SQLEXCEPTION'', ''SQLWARNING'']"

lemmas KEYWORDS_list = KEYWORDS_def FIRST_WORDS_def append.simps

lemma KEYWORDS_upper: "list_all (\<lambda>k. to_ascii_uppercase k = k) KEYWORDS"
  by code_simp

text \<open>A word is at most one of the keywords.\<close>

lemma kw_facts:
  assumes "is_kw w k" "k \<in> set KEYWORDS"
  shows "list_all (\<lambda>j. is_kw w j \<longleftrightarrow> j = k) KEYWORDS"
  using assms KEYWORDS_upper by (fastforce simp: list_all_iff is_kw_def eq_ignore_ascii_case_upper)

lemmas kw_is = kw_facts [unfolded KEYWORDS_list, simplified]

lemma is_any_Nil [simp]: "\<not> is_any w []"
  and is_any_Cons [simp]: "is_any w (k # ks) \<longleftrightarrow> is_kw w k \<or> is_any w ks"
  by (simp_all add: is_any_def)

section \<open>Every statement is read to its end\<close>

text \<open>\<open>starting\<close>: the next word is the first of a statement. \<open>inside\<close>: in the middle of one.\<close>

definition starting :: "nat \<Rightarrow> body \<Rightarrow> bool" where
  "starting d b \<longleftrightarrow> b_depth b = d \<and> b_at_start b \<and> (\<forall>k. b_kind b \<noteq> SDeclare k)"

definition inside :: "body \<Rightarrow> bool" where
  "inside b \<longleftrightarrow> \<not> b_at_start b \<and> (b_kind b = SOther \<or> (\<exists>op. b_kind b = SOpener op) \<or> b_kind b = SUntil)"

lemma starting_restart [simp]: "starting (b_depth b) (body_restart b)"
  by (simp add: starting_def body_restart_def)

lemma body_event_plain:
  "(\<forall>k. b_kind b \<noteq> SDeclare k) \<Longrightarrow>
     body_event c e b =
       (case e of
          EWord w \<Rightarrow> if b_at_start b then body_first_word c w b else body_inner_word w b
        | EQuoted k \<Rightarrow>
            if b_at_start b then
              (if c_label c \<and> (k = Backtick \<or> k = DoubleQuote) then (b, False)
               else (b\<lparr>b_kind := SOther, b_at_start := False\<rparr>, False))
            else (b, False))"
  by (cases "b_kind b") (simp_all add: body_event_def Let_def)

lemma body_gap_plain: "(\<forall>k. b_kind b \<noteq> SDeclare (DeclareCond k)) \<Longrightarrow> body_gap g b = b"
  by (auto simp: body_gap_def split: stmt_kind.split declare_phase.split)

lemma inside_word:
  "inside b \<Longrightarrow> body_event c (EWord w) b = body_plain_word w b"
  by (auto simp: inside_def body_event_plain body_inner_word_def)

lemma run_expr:
  "sp_expr c xs \<Longrightarrow> inside b \<Longrightarrow> c \<longrightarrow> 0 < b_expr_case b \<Longrightarrow> \<not> c \<longrightarrow> b_expr_case b = 0 \<Longrightarrow>
     body_run xs b = Some b"
proof (induction arbitrary: b rule: sp_expr.induct)
  case (expr_gap c xs g)
  moreover have "body_gap g b = b" using expr_gap.prems by (auto simp: inside_def body_gap_plain)
  ultimately show ?case by simp
next
  case (expr_quoted c xs l k)
  moreover have "body_event (label_ctx l) (EQuoted k) b = (b, False)"
    using expr_quoted.prems by (auto simp: inside_def body_event_plain)
  ultimately show ?case by simp
next
  case (expr_word c xs w l)
  then have "body_plain_word w b = (b, False)" by (auto simp: body_plain_word_def Let_def)
  with expr_word show ?case by (simp add: inside_word)
next
  case (expr_case ys c xs w v l m)
  let ?b = "b\<lparr>b_expr_case := b_expr_case b + 1\<rparr>"
  from expr_case.prems have "inside ?b" by (simp add: inside_def)
  have "body_plain_word w b = (?b, False)"
    using kw_is [OF \<open>is_kw w ''CASE''\<close>] by (simp add: body_plain_word_def)
  moreover have "body_plain_word v ?b = (b, False)"
    using kw_is [OF \<open>is_kw v ''END''\<close>] by (simp add: body_plain_word_def)
  moreover have "body_run ys ?b = Some ?b" using expr_case.IH(1) [of ?b] \<open>inside ?b\<close> by simp
  moreover have "body_run xs b = Some b" using expr_case.IH(2) [of b] expr_case.prems by simp
  ultimately show ?case using \<open>inside ?b\<close> expr_case.prems(1)
    by (simp add: inside_word body_run_append)
qed simp

text \<open>\<open>reads d d' xs\<close>: from the start of a statement in \<open>d\<close> blocks to the start of one in \<open>d'\<close>.\<close>

definition reads :: "nat \<Rightarrow> nat \<Rightarrow> item list \<Rightarrow> bool" where
  "reads d d' xs \<longleftrightarrow> (\<forall>b. starting d b \<longrightarrow> (\<exists>b'. body_run xs b = Some b' \<and> starting d' b'))"

lemma readsI: "(\<And>b. starting d b \<Longrightarrow> \<exists>b'. body_run xs b = Some b' \<and> starting d' b') \<Longrightarrow> reads d d' xs"
  by (simp add: reads_def)

lemma reads_nil: "reads d d []"
  by (simp add: reads_def)

lemma reads_append: "reads d e xs \<Longrightarrow> reads e f ys \<Longrightarrow> reads d f (xs @ ys)"
  by (fastforce simp: reads_def body_run_append)

lemma reads_cons: "reads d e [x] \<Longrightarrow> reads e f ys \<Longrightarrow> reads d f (x # ys)"
  using reads_append [of d e "[x]" f ys] by simp

lemma starting_gap: "starting d b \<Longrightarrow> body_gap g b = b"
  by (auto simp: starting_def body_gap_plain)

lemma reads_gap: "reads d d [ItGap g]"
  by (simp add: reads_def starting_gap)

lemma starting_word:
  "starting d b \<Longrightarrow> body_event c (EWord w) b = body_first_word c w b"
  by (simp add: starting_def body_event_plain)

lemma run_tail:
  "list_all (\<lambda>i. \<not> is_semi i) ys \<Longrightarrow> b_kind b = SEnd \<Longrightarrow> \<not> b_at_start b \<Longrightarrow> body_run ys b = Some b"
proof (induction ys)
  case (Cons y ys)
  then show ?case
  proof (cases y)
    case (ItEv l e)
    with Cons show ?thesis
      by (cases e) (simp_all add: body_event_plain body_inner_word_def)
  qed (simp_all add: body_gap_plain)
qed simp

lemma run_end:
  assumes "b_kind b = SEnd" "\<not> b_at_start b" "b_depth b = d" "list_all (\<lambda>i. \<not> is_semi i) ys"
  shows "\<exists>b'. body_run (ys @ [ItSemi]) b = Some b' \<and> starting d b'"
  using run_tail [OF assms(4,1,2)] assms(3) starting_restart [of b] by (simp add: body_run_append)

lemma reads_end:
  assumes "is_kw v ''END''" "list_all (\<lambda>i. \<not> is_semi i) ys" "0 < d"
  shows "reads (Suc d) d (ItWord l v # ys @ [ItSemi])"
proof (rule readsI)
  fix b assume b: "starting (Suc d) b"
  let ?b = "b\<lparr>b_kind := SEnd, b_expr_case := 0, b_depth := d, b_at_start := False\<rparr>"
  from b have "body_event (label_ctx l) (EWord v) b = (?b, False)"
    using assms(1,3) by (simp add: starting_word body_first_word_def Let_def) (simp add: starting_def)
  with run_end [of ?b d ys] assms(2)
  show "\<exists>b'. body_run (ItWord l v # ys @ [ItSemi]) b = Some b' \<and> starting d b'" by simp
qed

lemma reads_until:
  assumes "is_kw u ''UNTIL''" "sp_expr False zs" "is_kw v ''END''" "list_all (\<lambda>i. \<not> is_semi i) ys" "0 < d"
  shows "reads (Suc d) d (ItWord False u # zs @ ItWord l v # ys @ [ItSemi])"
proof (rule readsI)
  fix b assume b: "starting (Suc d) b"
  let ?b = "b\<lparr>b_kind := SUntil, b_expr_case := 0, b_at_start := False\<rparr>"
  let ?c = "?b\<lparr>b_kind := SEnd, b_depth := d\<rparr>"
  from b have "body_event (label_ctx False) (EWord u) b = (?b, False)"
    using kw_is [OF assms(1)] by (simp add: starting_word body_first_word_def Let_def label_ctx_def)
  moreover have "inside ?b" by (simp add: inside_def)
  moreover from run_expr [OF assms(2) this] have "body_run zs ?b = Some ?b" by simp
  moreover have "body_event (label_ctx l) (EWord v) ?b = (?c, False)"
    using kw_is [OF assms(3)] assms(5) b \<open>inside ?b\<close>
    by (simp add: inside_word body_plain_word_def starting_def)
  moreover have "\<exists>b'. body_run (ys @ [ItSemi]) ?c = Some b' \<and> starting d b'"
    using assms(4) by (intro run_end) simp_all
  ultimately show "\<exists>b'. body_run (ItWord False u # zs @ ItWord l v # ys @ [ItSemi]) b = Some b' \<and>
      starting d b'" by (simp add: body_run_append)
qed

lemma reads_open:
  assumes "is_any w [''BEGIN'', ''LOOP'', ''REPEAT'']"
  shows "reads d (Suc d) [ItWord False w]"
proof (rule readsI)
  fix b assume b: "starting d b"
  have "\<not> is_kw w ''END''"
  proof -
    from assms consider "is_kw w ''BEGIN''" | "is_kw w ''LOOP''" | "is_kw w ''REPEAT''" by auto
    then show ?thesis by cases (simp_all add: kw_is)
  qed
  with assms b have "body_event (label_ctx False) (EWord w) b =
      (b\<lparr>b_kind := SFresh, b_expr_case := 0, b_depth := b_depth b + 1\<rparr>, False)"
    by (auto simp: starting_word body_first_word_def label_ctx_def)
  with b show "\<exists>b'. body_run [ItWord False w] b = Some b' \<and> starting (Suc d) b'"
    by (simp add: starting_def)
qed

lemma reads_else: "is_kw w ''ELSE'' \<Longrightarrow> reads d d [ItWord False w]"
  by (rule readsI)
     (use kw_is [of w "''ELSE''"] in
       \<open>simp add: starting_word body_first_word_def label_ctx_def starting_def Let_def\<close>)

text \<open>From a first word over an expression to the word after which the next statement starts.\<close>

lemma reads_to_start:
  assumes first: "\<And>b. starting d b \<Longrightarrow> \<exists>b'. body_event (label_ctx False) (EWord w) b = (b', False) \<and>
      b_depth b' = e \<and> b_expr_case b' = 0 \<and> inside b' \<and>
      (is_any u [''THEN''] \<or> is_any u [''DO''] \<and> b_kind b' = SOpener OpWhile)"
    and zs: "sp_expr False zs"
  shows "reads d e (ItWord False w # zs @ [ItWord m u])"
proof (rule readsI)
  fix b assume "starting d b"
  from first [OF this] obtain b' where b': "body_event (label_ctx False) (EWord w) b = (b', False)"
    "b_depth b' = e" "b_expr_case b' = 0" "inside b'"
    "is_kw u ''THEN'' \<or> is_kw u ''DO'' \<and> b_kind b' = SOpener OpWhile" by auto
  have "body_event (label_ctx m) (EWord u) b' = (b'\<lparr>b_at_start := True\<rparr>, False)"
    using b'(3-5) by (auto simp: inside_word body_plain_word_def)
  moreover have "body_run zs b' = Some b'" using run_expr [OF zs b'(4)] b'(3) by simp
  moreover have "starting e (b'\<lparr>b_at_start := True\<rparr>)" using b'(2,4) by (auto simp: starting_def inside_def)
  ultimately show "\<exists>b'. body_run (ItWord False w # zs @ [ItWord m u]) b = Some b' \<and> starting e b'"
    using b'(1) by (simp add: body_run_append)
qed

lemma reads_choice:
  assumes "is_any w [''IF'', ''CASE'']" "sp_expr False zs" "is_kw u ''THEN''"
  shows "reads d (Suc d) (ItWord False w # zs @ [ItWord m u])"
proof (rule reads_to_start [OF _ assms(2)])
  fix b assume b: "starting d b"
  from assms(1) consider "is_kw w ''IF''" | "is_kw w ''CASE''" by auto
  then have "\<exists>b'. body_first_word (label_ctx False) w b = (b', False) \<and>
      b_depth b' = Suc d \<and> b_expr_case b' = 0 \<and> inside b'"
  proof cases
    case 1
    from kw_is [OF this] b show ?thesis
      by (simp add: body_first_word_def label_ctx_def Let_def inside_def starting_def)
  next
    case 2
    from kw_is [OF this] b show ?thesis
      by (simp add: body_first_word_def label_ctx_def Let_def inside_def starting_def)
  qed
  then show "\<exists>b'. body_event (label_ctx False) (EWord w) b = (b', False) \<and>
      b_depth b' = Suc d \<and> b_expr_case b' = 0 \<and> inside b' \<and>
      (is_any u [''THEN''] \<or> is_any u [''DO''] \<and> b_kind b' = SOpener OpWhile)"
    using assms(3) starting_word [OF b] by auto
qed

lemma reads_while:
  assumes "is_kw w ''WHILE''" "sp_expr False zs" "is_kw u ''DO''"
  shows "reads d (Suc d) (ItWord False w # zs @ [ItWord m u])"
proof (rule reads_to_start [OF _ assms(2)])
  fix b assume b: "starting d b"
  with kw_is [OF assms(1)] show "\<exists>b'. body_event (label_ctx False) (EWord w) b = (b', False) \<and>
      b_depth b' = Suc d \<and> b_expr_case b' = 0 \<and> inside b' \<and>
      (is_any u [''THEN''] \<or> is_any u [''DO''] \<and> b_kind b' = SOpener OpWhile)"
    using assms(3) starting_word [OF b]
    by (simp add: body_first_word_def label_ctx_def Let_def inside_def starting_def)
qed

lemma reads_arm:
  assumes "\<not> is_any w FIRST_WORDS" "sp_expr False zs" "is_kw u ''THEN''"
  shows "reads d d (ItWord False w # zs @ [ItWord m u])"
proof (rule reads_to_start [OF _ assms(2)])
  fix b assume b: "starting d b"
  with assms(1) show "\<exists>b'. body_event (label_ctx False) (EWord w) b = (b', False) \<and>
      b_depth b' = d \<and> b_expr_case b' = 0 \<and> inside b' \<and>
      (is_any u [''THEN''] \<or> is_any u [''DO''] \<and> b_kind b' = SOpener OpWhile)"
    using assms(3) starting_word [OF b]
    by (simp add: body_first_word_def label_ctx_def Let_def inside_def starting_def FIRST_WORDS_def)
qed

lemma reads_simple:
  assumes "\<not> is_any w FIRST_WORDS" "sp_expr False xs"
  shows "reads d d (ItWord False w # xs @ [ItSemi])"
proof (rule readsI)
  fix b assume b: "starting d b"
  let ?b = "b\<lparr>b_kind := SOther, b_expr_case := 0, b_at_start := False\<rparr>"
  from b assms(1) have "body_event (label_ctx False) (EWord w) b = (?b, False)"
    by (simp add: starting_word body_first_word_def label_ctx_def Let_def FIRST_WORDS_def)
  moreover have "body_run xs ?b = Some ?b" by (rule run_expr [OF assms(2)]) (simp_all add: inside_def)
  moreover have "starting d (body_restart ?b)"
    using starting_restart [of ?b] b by (simp add: starting_def)
  ultimately show "\<exists>b'. body_run (ItWord False w # xs @ [ItSemi]) b = Some b' \<and> starting d b'"
    by (simp add: body_run_append)
qed

lemma starting_label:
  assumes "starting d b" "\<not> is_kw w ''END''"
  shows "body_event (label_ctx True) (EWord w) b = (b\<lparr>b_kind := SFresh, b_expr_case := 0\<rparr>, False)"
  using assms by (simp add: starting_word body_first_word_def label_ctx_def Let_def)

lemma reads_label:
  assumes "\<not> is_kw w ''END''" shows "reads d d [ItWord True w]"
proof (rule readsI)
  fix b assume b: "starting d b"
  with starting_label [OF b assms]
  show "\<exists>b'. body_run [ItWord True w] b = Some b' \<and> starting d b'" by (simp add: starting_def)
qed

subsection \<open>Declarations\<close>

lemma declare_word:
  assumes "b_kind b = SDeclare p" "\<forall>k. p \<noteq> DeclareCond k" "\<not> b_at_start b"
  shows "body_event c (EWord w) b = body_inner_word w b" "body_event c (EQuoted q) b = (b, False)"
  using assms by (cases p; simp add: body_event_def)+

lemma starting_declare:
  assumes "starting d b" "is_kw w ''DECLARE''"
  shows "body_event (label_ctx False) (EWord w) b =
    (b\<lparr>b_kind := SDeclare (DeclarePre False), b_expr_case := 0, b_at_start := False\<rparr>, False)"
  using starting_word [OF assms(1)] kw_is [OF assms(2)]
  by (simp add: body_first_word_def label_ctx_def Let_def)

lemma run_declare:
  assumes "list_all (\<lambda>i. \<not> is_semi i \<and>
      (case i of ItEv l (EWord u) \<Rightarrow> \<not> is_any u [''CONTINUE'', ''EXIT'', ''UNDO''] | _ \<Rightarrow> True)) ys"
    "b_kind b = SDeclare (DeclarePre False)" "\<not> b_at_start b"
  shows "body_run ys b = Some b"
  using assms(1)
proof (induction ys)
  case (Cons y ys)
  show ?case
  proof (cases y)
    case (ItEv l e)
    with Cons assms(2,3) declare_word [OF assms(2) _ assms(3)] show ?thesis
      by (cases e) (simp_all add: body_inner_word_def)
  qed (use Cons assms(2) in \<open>simp_all add: body_gap_plain\<close>)
qed simp

lemma reads_declare:
  assumes "is_kw w ''DECLARE''"
    "list_all (\<lambda>i. \<not> is_semi i \<and>
      (case i of ItEv l (EWord u) \<Rightarrow> \<not> is_any u [''CONTINUE'', ''EXIT'', ''UNDO''] | _ \<Rightarrow> True)) ys"
  shows "reads d d (ItWord False w # ys @ [ItSemi])"
proof (rule readsI)
  fix b assume b: "starting d b"
  let ?b = "b\<lparr>b_kind := SDeclare (DeclarePre False), b_expr_case := 0, b_at_start := False\<rparr>"
  have "starting d (body_restart ?b)" using starting_restart [of ?b] b by (simp add: starting_def)
  moreover have "body_run ys ?b = Some ?b" using assms(2) by (rule run_declare) simp_all
  ultimately show "\<exists>b'. body_run (ItWord False w # ys @ [ItSemi]) b = Some b' \<and> starting d b'"
    by (simp add: starting_declare [OF b assms(1)] body_run_append)
qed

lemma blank_cond: "blank g \<Longrightarrow> foldl cond_byte k g = k"
proof (induction g arbitrary: k)
  case (Cons c g)
  then have "cond_byte k c = k" by (cases k) (simp_all add: blank_def)
  with Cons show ?case by (simp add: blank_def)
qed simp

lemma cond_event:
  "b_kind b = SDeclare (DeclareCond k) \<Longrightarrow> k \<noteq> CondClosed \<Longrightarrow>
     body_event c e b = (b\<lparr>b_kind := SDeclare (DeclareCond (cond_next k e))\<rparr>, False)"
  by (simp add: body_event_def)

lemma cond_gap:
  "b_kind b = SDeclare (DeclareCond k) \<Longrightarrow>
     body_gap g b = b\<lparr>b_kind := SDeclare (DeclareCond (foldl cond_byte k g))\<rparr>"
  by (simp add: body_gap_def)

lemma cond_gap_blank:
  "b_kind b = SDeclare (DeclareCond k) \<Longrightarrow> blank g \<Longrightarrow> body_gap g b = b"
  by (cases b) (simp add: body_gap_def blank_cond)

lemma cond_not_gap [simp]: "foldl cond_byte CondNot g = CondNot"
  "foldl cond_byte CondSqlstate g = CondSqlstate" "foldl cond_byte CondValue g = CondValue"
  by (induction g) simp_all

lemma run_condition:
  assumes "sp_condition xs" "b_kind b = SDeclare (DeclareCond CondOpen)"
  shows "body_run xs b = Some (b\<lparr>b_kind := SDeclare (DeclareCond CondClosed)\<rparr>)"
  using assms(1)
proof cases
  case (condition_not_found w l g m v)
  with kw_is [of w "''NOT''"] assms(2) show ?thesis by (simp add: cond_event cond_gap)
next
  case (condition_sqlstate w l g m k)
  with kw_is [of w "''SQLSTATE''"] assms(2) show ?thesis by (simp add: cond_event cond_gap)
next
  case (condition_sqlstate_value w v l g n h m k)
  with kw_is [of w "''SQLSTATE''"] assms(2) show ?thesis by (simp add: cond_event cond_gap)
qed (use assms(2) in \<open>simp add: cond_event\<close>)

lemma run_conditions:
  "sp_conditions xs \<Longrightarrow> b_kind b = SDeclare (DeclareCond CondOpen) \<Longrightarrow>
     body_run xs b = Some (b\<lparr>b_kind := SDeclare (DeclareCond CondClosed)\<rparr>)"
proof (induction rule: sp_conditions.induct)
  case (conditions_one xs g)
  with run_condition [of xs b] show ?case by (simp add: cond_gap_blank)
next
  case (conditions_more xs g h i ys)
  let ?closed = "b\<lparr>b_kind := SDeclare (DeclareCond CondClosed)\<rparr>"
  have "foldl cond_byte CondClosed (h @ CHR '','' # i) = CondOpen"
    using conditions_more(2-5) by (simp add: blank_cond)
  then have "body_gap (h @ CHR '','' # i) ?closed = b"
    using conditions_more.prems by (cases b) (simp add: body_gap_def)
  moreover have "body_run ys b = Some ?closed"
    using conditions_more.IH conditions_more.prems conditions_more(5) by (simp add: cond_gap_blank)
  ultimately show ?case
    using conditions_more run_condition [of xs b] by (simp add: cond_gap_blank body_run_append)
qed

lemma sp_stmt_first: "sp_stmt xs \<Longrightarrow> \<exists>l w ys. xs = ItWord l w # ys"
  by (cases xs rule: sp_stmt.cases) auto

lemma reads_handler:
  assumes kws: "is_kw w ''DECLARE''" "is_any a [''CONTINUE'', ''EXIT'', ''UNDO'']"
      "is_kw h ''HANDLER''" "is_kw f ''FOR''"
    and cs: "sp_conditions cs" "blank g" and xs: "sp_stmt xs" "reads d d xs"
  shows "reads d d (ItWord False w # ItGap g1 # ItWord l1 a # ItGap g2 # ItWord l2 h # ItGap g3 #
      ItWord l3 f # cs @ ItGap g # xs)"
proof (rule readsI)
  fix b assume b: "starting d b"
  let ?b = "\<lambda>p. b\<lparr>b_kind := SDeclare p, b_expr_case := 0, b_at_start := False\<rparr>"
  have h: "\<not> is_any h [''CONTINUE'', ''EXIT'', ''UNDO'']" using kw_is [OF kws(3)] by simp
  have "body_event (label_ctx l1) (EWord a) (?b (DeclarePre False)) = (?b (DeclarePre True), False)"
    using kws(2) by (simp add: declare_word(1) [of _ "DeclarePre False"] body_inner_word_def)
  moreover have "body_event (label_ctx l2) (EWord h) (?b (DeclarePre True)) = (?b DeclareHandler, False)"
    using kws(3) h by (simp add: declare_word(1) [of _ "DeclarePre True"] body_inner_word_def)
  moreover have "body_event (label_ctx l3) (EWord f) (?b DeclareHandler) =
      (?b (DeclareCond CondOpen), False)"
    using kws(4) by (simp add: declare_word(1) [of _ DeclareHandler] body_inner_word_def)
  moreover have "body_run cs (?b (DeclareCond CondOpen)) = Some (?b (DeclareCond CondClosed))"
    using run_conditions [OF cs(1), of "?b (DeclareCond CondOpen)"] by simp
  moreover have "body_gap g (?b (DeclareCond CondClosed)) = ?b (DeclareCond CondClosed)"
    using cs(2) by (simp add: cond_gap blank_cond)
  moreover have "body_run xs (?b (DeclareCond CondClosed)) =
      body_run xs (body_restart (?b (DeclareCond CondClosed)))"
  proof -
    have "body_event c e (?b (DeclareCond CondClosed)) =
        body_event c e (body_restart (?b (DeclareCond CondClosed)))" for c e
      by (simp add: body_event_def body_restart_def)
    with sp_stmt_first [OF xs(1)] show ?thesis by (elim exE) simp
  qed
  moreover have "\<exists>b'. body_run xs (body_restart (?b (DeclareCond CondClosed))) = Some b' \<and> starting d b'"
    using xs(2) b starting_restart [of "?b (DeclareCond CondClosed)"]
    by (simp add: reads_def starting_def)
  ultimately show "\<exists>b'. body_run (ItWord False w # ItGap g1 # ItWord l1 a # ItGap g2 # ItWord l2 h #
      ItGap g3 # ItWord l3 f # cs @ ItGap g # xs) b = Some b' \<and> starting d b'"
    by (simp add: starting_declare [OF b kws(1)] body_gap_plain body_run_append)
qed

subsection \<open>The grammar as a whole\<close>

lemma reads_grammar:
  "sp_stmt xs \<Longrightarrow> 0 < d \<Longrightarrow> reads d d xs"
  "sp_stmts ys \<Longrightarrow> 0 < d \<Longrightarrow> reads d d ys"
  "sp_arms zs \<Longrightarrow> 0 < d \<Longrightarrow> reads d d zs"
proof (induction arbitrary: d and d and d rule: sp_stmt_sp_stmts_sp_arms.inducts)
  case (stmt_simple w xs)
  then show ?case by (simp add: reads_simple)
next
  case (stmt_label xs w g)
  then show ?case by (intro reads_cons [OF reads_label] reads_cons [OF reads_gap]) simp_all
next
  case (stmt_block w xs v ys l)
  have "reads d (Suc d) [ItWord False w]" using stmt_block.hyps(1) by (intro reads_open) auto
  from reads_cons [OF this reads_append [OF stmt_block.IH reads_end]] stmt_block
  show ?case by simp
next
  case (stmt_repeat w xs u zs v ys l)
  have "reads d (Suc d) [ItWord False w]" using stmt_repeat.hyps(1) by (intro reads_open) auto
  from reads_cons [OF this reads_append [OF stmt_repeat.IH reads_until]] stmt_repeat
  show ?case by simp
next
  case (stmt_while w zs u xs v ys m l)
  from reads_append [OF reads_while reads_append [OF stmt_while.IH reads_end]] stmt_while
  have "reads d d ((ItWord False w # zs @ [ItWord m u]) @ xs @ ItWord l v # ys @ [ItSemi])" by blast
  then show ?case by simp
next
  case (stmt_choice w zs u xs as v ys m l)
  from reads_append [OF reads_choice reads_append [OF stmt_choice.IH(1)
      reads_append [OF stmt_choice.IH(2) reads_end]]] stmt_choice
  have "reads d d ((ItWord False w # zs @ [ItWord m u]) @ xs @ as @ ItWord l v # ys @ [ItSemi])"
    by blast
  then show ?case by simp
next
  case (stmt_declare w ys)
  then show ?case by (simp add: reads_declare)
next
  case (stmt_handler w a h f cs g xs g1 l1 g2 l2 g3 l3)
  then show ?case by (intro reads_handler) simp_all
next
  case stmts_nil
  then show ?case by (simp add: reads_nil)
next
  case (stmts_gap xs g)
  then show ?case by (intro reads_cons [OF reads_gap]) simp_all
next
  case (stmts_cons xs ys)
  then show ?case by (intro reads_append [of d d xs]) simp_all
next
  case arms_nil
  then show ?case by (simp add: reads_nil)
next
  case (arms_else u xs)
  then show ?case by (intro reads_cons [OF reads_else]) simp_all
next
  case (arms_cons w zs u xs as m)
  from reads_append [OF reads_arm reads_append [OF arms_cons.IH]] arms_cons
  have "reads d d ((ItWord False w # zs @ [ItWord m u]) @ xs @ as)" by blast
  then show ?case by simp
qed

section \<open>The splitter in a body\<close>

text \<open>What the splitter gives the body for a list of the walk's events, from \<open>pos\<close> on.\<close>

fun body_items :: "bytes \<Rightarrow> nat \<Rightarrow> event list \<Rightarrow> item list" where
  "body_items bs pos [] = []"
| "body_items bs pos (EvSeparator a # es) =
     ItGap (slice bs pos a) # ItSemi # body_items bs (a + 1) es"
| "body_items bs pos (EvOpaque k a b # es) =
     ItGap (slice bs pos a) #
       (if k = LineComment \<or> k = BlockComment then [] else [ItEv (colon_after bs b) (EQuoted k)]) @
       body_items bs b es"
| "body_items bs pos (EvWord a b # es) =
     ItGap (slice bs pos a) # ItWord (colon_after bs b) (slice bs a b) # body_items bs b es"

lemma body_event_label:
  assumes "c_label c = c_label c'"
  shows "body_event c e b = body_event c' e b"
proof -
  have "body_first_word c w b = body_first_word c' w b" for w b
    unfolding body_first_word_def assms by (rule refl)
  then have "body_first_word c = body_first_word c'" by (intro ext)
  then show ?thesis unfolding body_event_def assms by (rule arg_cong)
qed

lemma splitter_gap_body:
  "sp_top s = TBody b \<Longrightarrow> sp_top (splitter_gap bs up s) = TBody (body_gap (slice bs (sp_pos s) up) b)"
  by (simp add: splitter_gap_def Let_def gap_bytes)

lemma splitter_event_body:
  assumes "sp_top s = TBody b" "body_event (label_ctx (colon_after bs (sp_pos s))) e b = (b', closed)"
  shows "sp_top (splitter_event bs e s) = (if closed then TPlain else TBody b')"
    and "sp_separators (splitter_event bs e s) = sp_separators s"
    and "sp_pos (splitter_event bs e s) = sp_pos s"
proof -
  let ?c = "\<lparr>c_parens = sp_parens s, c_opens = sp_opens s, c_at = sp_at s,
      c_label = is_tracking (sp_top s) \<and> colon_after bs (sp_pos s)\<rparr>"
  have "body_event ?c e b = (b', closed)"
    using assms body_event_label [of ?c "label_ctx (colon_after bs (sp_pos s))" e b]
    by (simp add: label_ctx_def)
  with assms(1) show "sp_top (splitter_event bs e s) = (if closed then TPlain else TBody b')"
    and "sp_separators (splitter_event bs e s) = sp_separators s"
    and "sp_pos (splitter_event bs e s) = sp_pos s"
    by (simp_all add: splitter_event_def Let_def top_event_def)
qed

lemma splitter_body_run:
  "sp_top s = TBody b \<Longrightarrow> 0 < b_depth b \<Longrightarrow> body_run (body_items bs (sp_pos s) es) b = Some b' \<Longrightarrow>
     sp_top (foldl (splitter_visit bs) s es) = TBody b' \<and>
     sp_separators (foldl (splitter_visit bs) s es) = sp_separators s"
proof (induction es arbitrary: s b)
  case (Cons e es)
  let ?up = "ev_start e"
  let ?b = "body_gap (slice bs (sp_pos s) ?up) b"
  note gap = splitter_gap_body [OF Cons.prems(1), of bs ?up]
    splitter_gap_keeps(2) [where s = s and bs = bs and up = ?up]
  have step: ?case
    if v: "splitter_visit bs s e = splitter_event bs v s1" and
      s1: "s1 = (splitter_gap bs ?up s)\<lparr>sp_pos := ev_end e\<rparr>" and
      run: "body_run (ItEv (colon_after bs (ev_end e)) v # body_items bs (ev_end e) es) ?b = Some b'"
    for v s1
  proof -
    obtain c closed where c: "body_event (label_ctx (colon_after bs (ev_end e))) v ?b = (c, closed)"
      by (cases "body_event (label_ctx (colon_after bs (ev_end e))) v ?b")
    with run have "\<not> closed" "body_run (body_items bs (ev_end e) es) c = Some b'"
      by (auto split: if_splits)
    moreover have "0 < b_depth c" using body_event_closed [OF _ c] Cons.prems(2) \<open>\<not> closed\<close> by simp
    moreover have "sp_top s1 = TBody ?b" "sp_pos s1 = ev_end e" "sp_separators s1 = sp_separators s"
      using gap by (simp_all add: s1)
    ultimately show ?thesis
      using Cons.IH [of "splitter_event bs v s1" c] splitter_event_body [of s1 ?b bs v c closed] c
      by (simp add: v)
  qed
  show ?case
  proof (cases e)
    case (EvSeparator a)
    with gap Cons.prems Cons.IH [of "splitter_visit bs s e" "body_restart ?b"] show ?thesis
      by (simp add: Let_def)
  next
    case (EvWord a z)
    with Cons.prems(3) show ?thesis by (intro step [OF _ refl]) simp_all
  next
    case (EvOpaque k a z)
    show ?thesis
    proof (cases "k = LineComment \<or> k = BlockComment")
      case True
      with EvOpaque gap Cons.prems Cons.IH [of "splitter_visit bs s e" ?b] show ?thesis
        by (simp add: Let_def)
    next
      case False
      with EvOpaque Cons.prems(3) show ?thesis by (intro step [OF _ refl]) simp_all
    qed
  qed
qed simp

lemma body_items_prefix: "\<exists>ys. body_items bs pos (es @ fs) = body_items bs pos es @ ys"
  by (induction bs pos es rule: body_items.induct) auto

lemma body_run_prefix: "body_run (xs @ ys) b = Some b' \<Longrightarrow> \<exists>c. body_run xs b = Some c"
  by (cases "body_run xs b") (simp_all add: body_run_append)

lemma starting_block: "starting 1 body_block"
  by (simp add: starting_def body_block_def)

lemma grammar_in_body:
  assumes "sp_top s = TBody body_block" "sp_stmts (body_items sql (sp_pos s) es)"
  shows "\<exists>b. sp_top (foldl (splitter_visit sql) s es) = TBody b \<and> starting 1 b \<and>
    sp_separators (foldl (splitter_visit sql) s es) = sp_separators s"
    and "\<exists>b. sp_top (foldl (splitter_visit sql) s (take n es)) = TBody b"
proof -
  from reads_grammar(2) [OF assms(2), of 1] starting_block
  obtain b where b: "body_run (body_items sql (sp_pos s) es) body_block = Some b" "starting 1 b"
    by (auto simp: reads_def)
  with splitter_body_run [OF assms(1) _ b(1)]
  show "\<exists>b. sp_top (foldl (splitter_visit sql) s es) = TBody b \<and> starting 1 b \<and>
    sp_separators (foldl (splitter_visit sql) s es) = sp_separators s"
    by (simp add: body_block_def)
  obtain ys where "body_items sql (sp_pos s) es = body_items sql (sp_pos s) (take n es) @ ys"
    using body_items_prefix [of sql "sp_pos s" "take n es" "drop n es"] by auto
  with b(1) body_run_prefix obtain c
    where "body_run (body_items sql (sp_pos s) (take n es)) body_block = Some c" by metis
  with splitter_body_run [OF assms(1) _ this]
  show "\<exists>b. sp_top (foldl (splitter_visit sql) s (take n es)) = TBody b" by (simp add: body_block_def)
qed

lemma end_closes:
  assumes "sp_top s = TBody b" "starting 1 b" "is_kw (slice sql a z) ''END''"
  shows "sp_top (splitter_visit sql s (EvWord a z)) = TPlain"
    and "sp_separators (splitter_visit sql s (EvWord a z)) = sp_separators s"
proof -
  let ?s = "(splitter_gap sql a s)\<lparr>sp_pos := z\<rparr>"
  have top: "sp_top ?s = TBody b" using splitter_gap_body [OF assms(1)] starting_gap [OF assms(2)] by simp
  obtain b' where "body_event (label_ctx (colon_after sql (sp_pos ?s))) (EWord (slice sql a z)) b = (b', True)"
    using assms(2,3) by (auto simp: starting_word body_first_word_def Let_def starting_def)
  from splitter_event_body [OF top this]
  show "sp_top (splitter_visit sql s (EvWord a z)) = TPlain"
    and "sp_separators (splitter_visit sql s (EvWord a z)) = sp_separators s"
    using splitter_gap_keeps(2) [where s = s and bs = sql and up = a] by simp_all
qed

section \<open>Properties\<close>

text \<open>
  C8. A stored program is sent whole. When the splitter has entered a block and the events up to a
  word \<open>END\<close> are a sequence of the grammar's statements (nested blocks, loops, \<open>IF\<close> and \<open>CASE\<close>
  statements, \<open>CASE\<close> expressions, declarations and handlers), the body is still open before every
  one of these events, none of their separators becomes a cut, and the \<open>END\<close> is what closes it.
\<close>
theorem body_ends_at_its_end:
  assumes "sp_top s = TBody body_block"
    and "sp_stmts (body_items sql (sp_pos s) es)"
    and "is_kw (slice sql a z) ''END''"
  shows "(\<forall>n. \<exists>b. sp_top (foldl (splitter_visit sql) s (take n es)) = TBody b) \<and>
    sp_separators (foldl (splitter_visit sql) s (es @ [EvWord a z])) = sp_separators s \<and>
    sp_top (foldl (splitter_visit sql) s (es @ [EvWord a z])) = TPlain"
proof -
  obtain b where "sp_top (foldl (splitter_visit sql) s es) = TBody b" "starting 1 b"
    "sp_separators (foldl (splitter_visit sql) s es) = sp_separators s"
    using grammar_in_body(1) [OF assms(1,2)] by blast
  with end_closes [of "foldl (splitter_visit sql) s es" b sql a z] assms(3)
    grammar_in_body(2) [OF assms(1,2)]
  show ?thesis by simp
qed

theorem body_ends_at_its_end_witness:
  "sp_separators (foldl (splitter_visit ''set x; end'') (splitter_init\<lparr>sp_top := TBody body_block\<rparr>)
      ([EvWord 0 3, EvWord 4 5, EvSeparator 5] @ [EvWord 7 10])) = []"
proof -
  let ?s = "splitter_init\<lparr>sp_top := TBody body_block\<rparr>"
  have items: "body_items ''set x; end'' 0 [EvWord 0 3, EvWord 4 5, EvSeparator 5] =
      [ItGap [], ItWord False ''set'', ItGap '' '', ItWord False ''x'', ItGap [], ItSemi]"
    by code_simp
  have w: "\<not> is_any ''set'' FIRST_WORDS" "\<not> is_any ''x'' [''CASE'', ''END'']"
    "\<not> is_any ''x'' [''THEN'', ''ELSE'', ''DO'']" by code_simp+
  have "sp_stmt (ItWord False ''set'' # [ItGap '' '', ItWord False ''x'', ItGap []] @ [ItSemi])"
    using w by (intro stmt_simple expr_gap expr_word expr_nil) simp_all
  from stmts_gap [OF stmts_cons [OF this stmts_nil], of "[]"]
  have "sp_stmts (body_items ''set x; end'' 0 [EvWord 0 3, EvWord 4 5, EvSeparator 5])"
    unfolding items by simp
  moreover have "sp_pos ?s = 0" by (simp add: splitter_init_def)
  ultimately have "sp_stmts (body_items ''set x; end'' (sp_pos ?s) [EvWord 0 3, EvWord 4 5, EvSeparator 5])"
    by (simp only:)
  moreover have "is_kw (slice ''set x; end'' 7 10) ''END''" by code_simp
  ultimately show ?thesis
    using body_ends_at_its_end [of ?s "''set x; end''" "[EvWord 0 3, EvWord 4 5, EvSeparator 5]" 7 10]
    by (simp add: splitter_init_def)
qed

end
