(* ===== verification/SqlSurface.thy ===== *)
theory SqlSurface
  imports SqlScan SafeMode
begin

text \<open>
  \<open>Surface\<close> of \<^verbatim>\<open>crates/qh-sql/src/classify.rs\<close>: the tokens a call and a row-locking clause are read
  from, built by a visitor of the walk, and the tables of names the classifier knows.

  The source keeps the text inside the surface; here it is the argument \<open>sql\<close>. The lemmas show that
  a name followed by a parenthesis is seen as a call across white space, comments and line breaks.
\<close>

section \<open>Tokens and the gaps between them\<close>

datatype surface_token = TkWord nat nat | TkQuoted nat nat | TkLiteral | TkOpen bool | TkClose

fun is_name_token :: "surface_token \<Rightarrow> bool" where
  "is_name_token (TkWord a b) = True"
| "is_name_token (TkQuoted a b) = True"
| "is_name_token t = False"

record surface =
  sf_tokens :: "surface_token list"
  sf_unicode_identifier :: bool
  sf_literal_names_encoding :: bool

record surface_builder = surface +
  sb_seen :: nat
  sb_dirty :: bool

function gap_loop :: "bytes \<Rightarrow> lexer \<Rightarrow> nat \<Rightarrow> nat \<Rightarrow> surface_token list \<Rightarrow> bool \<Rightarrow> surface_token list \<times> bool" where
  "gap_loop bs lx up i toks dirty =
     (if i < up then
        (let b = bs ! i in
         if b = CHR ''('' then
           gap_loop bs lx up (i + 1)
             (toks @ [TkOpen (\<not> dirty \<and> toks \<noteq> [] \<and> is_name_token (last toks))]) False
         else if b = CHR '')'' then gap_loop bs lx up (i + 1) (toks @ [TkClose]) False
         else if is_ascii_whitespace b \<or> b = CHR 0x0B then gap_loop bs lx up (i + 1) toks dirty
         else if b = CHR ''/'' \<and>
             (case executable_comment_opener bs i lx of Some n \<Rightarrow> n \<le> up | None \<Rightarrow> False)
         then gap_loop bs lx up (the (executable_comment_opener bs i lx)) toks dirty
         else if b = CHR ''*'' \<and> runs_executable_comments lx \<and> get bs (i + 1) = Some (CHR ''/'')
         then gap_loop bs lx up (i + 2) toks dirty
         else gap_loop bs lx up (i + 1) toks True)
      else (toks, dirty))"
  by pat_completeness auto
termination
proof (relation "measure (\<lambda>(bs, lx, up, i, toks, dirty). up - i)", goal_cases)
  case (5 bs lx up i toks dirty x)
  then obtain n where n: "executable_comment_opener bs i lx = Some n" by (auto split: option.splits)
  from executable_comment_opener_bounds [OF n] n 5(1) show ?case by (simp add: diff_less_mono2)
qed auto

declare gap_loop.simps [simp del]

definition surface_gap :: "bytes \<Rightarrow> lexer \<Rightarrow> nat \<Rightarrow> surface_builder \<Rightarrow> surface_builder" where
  "surface_gap bs lx up s =
     (let (toks, dirty) = gap_loop bs lx up (min (sb_seen s) up) (sf_tokens s) (sb_dirty s)
      in s\<lparr>sf_tokens := toks, sb_dirty := dirty, sb_seen := up\<rparr>)"

definition surface_push :: "surface_token \<Rightarrow> nat \<Rightarrow> surface_builder \<Rightarrow> surface_builder" where
  "surface_push t end_index s =
     s\<lparr>sf_tokens := sf_tokens s @ [t], sb_seen := end_index, sb_dirty := False\<rparr>"

definition mentions_encoding :: "bytes \<Rightarrow> bool" where
  "mentions_encoding text =
     list_ex (\<lambda>needle. list_ex (\<lambda>i. eq_ignore_ascii_case (slice text i (i + length needle)) needle)
         [0..<length text + 1 - length needle])
       [''set_config'', ''client_encoding'']"

definition unicode_escaped :: "bytes \<Rightarrow> nat \<Rightarrow> nat \<Rightarrow> bool" where
  "unicode_escaped bs a b \<longleftrightarrow>
     (b - a \<ge> 2 \<and> eq_ignore_ascii_case (take 2 (slice bs a b)) ''u&'') \<or>
     (a \<ge> 2 \<and> eq_ignore_ascii_case [bs ! (a - 2)] ''u'' \<and> bs ! (a - 1) = CHR ''&'')"

fun surface_visit :: "bytes \<Rightarrow> lexer \<Rightarrow> surface_builder \<Rightarrow> event \<Rightarrow> surface_builder" where
  "surface_visit bs lx s (EvWord a b) = surface_push (TkWord a b) b (surface_gap bs lx a s)"
| "surface_visit bs lx s0 (EvOpaque k a b) =
     (let s = surface_gap bs lx a s0 in
      case k of
        LineComment \<Rightarrow> s\<lparr>sb_seen := b\<rparr>
      | BlockComment \<Rightarrow> s\<lparr>sb_seen := b\<rparr>
      | DoubleQuote \<Rightarrow> surface_push (TkQuoted a b) b
          (s\<lparr>sf_unicode_identifier := sf_unicode_identifier s \<or> unicode_escaped bs a b\<rparr>)
      | Backtick \<Rightarrow> surface_push (TkQuoted a b) b
          (s\<lparr>sf_unicode_identifier := sf_unicode_identifier s \<or> unicode_escaped bs a b\<rparr>)
      | _ \<Rightarrow> surface_push TkLiteral b
          (if is_postgres lx
           then s\<lparr>sf_literal_names_encoding :=
                    sf_literal_names_encoding s \<or> mentions_encoding (slice bs a b)\<rparr>
           else s))"
| "surface_visit bs lx s (EvSeparator a) = s"

definition surface_init :: surface_builder where
  "surface_init = \<lparr>sf_tokens = [], sf_unicode_identifier = False, sf_literal_names_encoding = False,
     sb_seen = 0, sb_dirty = False\<rparr>"

definition surface_of :: "bytes \<Rightarrow> lexer \<Rightarrow> surface" where
  "surface_of sql lx = surface.truncate
     (surface_gap sql lx (length sql) (foldl (surface_visit sql lx) surface_init (walk_events sql lx)))"

section \<open>What is read from the tokens\<close>

definition is_quote_mark :: "byte \<Rightarrow> bool" where
  "is_quote_mark c \<longleftrightarrow> c = CHR 0x22 \<or> c = CHR 0x60"

definition strip_quotes :: "bytes \<Rightarrow> bytes" where
  "strip_quotes text =
     (let t = (if text \<noteq> [] \<and> is_quote_mark (hd text) then tl text else text)
      in if t \<noteq> [] \<and> is_quote_mark (last t) then butlast t else t)"

fun token_name :: "bytes \<Rightarrow> surface_token \<Rightarrow> bytes option" where
  "token_name sql (TkWord a b) = Some (slice sql a b)"
| "token_name sql (TkQuoted a b) = Some (strip_quotes (slice sql a b))"
| "token_name sql t = None"

definition word_at :: "bytes \<Rightarrow> surface_token list \<Rightarrow> nat \<Rightarrow> bytes" where
  "word_at sql toks i = (case get toks i of Some (TkWord a b) \<Rightarrow> slice sql a b | _ \<Rightarrow> [])"

fun calls_in :: "bytes \<Rightarrow> (bytes \<Rightarrow> bool) \<Rightarrow> surface_token list \<Rightarrow> bool" where
  "calls_in sql matches (s # t # ts) =
     ((t = TkOpen True \<and>
        (case token_name sql s of Some n \<Rightarrow> matches (to_ascii_lowercase n) | None \<Rightarrow> False)) \<or>
      calls_in sql matches (t # ts))"
| "calls_in sql matches ts = False"

definition calls_a_function :: "bytes \<Rightarrow> surface \<Rightarrow> (bytes \<Rightarrow> bool) \<Rightarrow> bool" where
  "calls_a_function sql sf matches = calls_in sql matches (sf_tokens sf)"

definition names_encoding :: "bytes \<Rightarrow> surface \<Rightarrow> bool" where
  "names_encoding sql sf \<longleftrightarrow>
     sf_unicode_identifier sf \<or>
     list_ex (\<lambda>t. case token_name sql t of
         Some n \<Rightarrow> eq_ignore_ascii_case n ''set_config'' \<or> eq_ignore_ascii_case n ''client_encoding''
       | None \<Rightarrow> False) (sf_tokens sf)"

text \<open>The loop of \<open>has_locking_clause\<close> from token \<open>i\<close> on; \<open>stack\<close> is the last open call first.\<close>

definition locks_at :: "bytes \<Rightarrow> surface_token list \<Rightarrow> nat \<Rightarrow> bool" where
  "locks_at sql toks i =
     (let n1 = to_ascii_lowercase (word_at sql toks (i + 1));
          n2 = to_ascii_lowercase (word_at sql toks (i + 2));
          n3 = to_ascii_lowercase (word_at sql toks (i + 3)) in
      n1 = ''share'' \<or> (n1 = ''key'' \<and> n2 = ''share'') \<or>
      (n1 = ''no'' \<and> n2 = ''key'' \<and> n3 = ''update''))"

definition length_call :: "bytes \<Rightarrow> bool" where
  "length_call name = list_ex (eq_ignore_ascii_case name) [''substring'', ''substr'', ''overlay'']"

fun locking_loop :: "bytes \<Rightarrow> surface_token list \<Rightarrow> nat \<Rightarrow> bytes list \<Rightarrow> surface_token list \<Rightarrow> bool" where
  "locking_loop sql toks i stack [] = False"
| "locking_loop sql toks i stack (TkOpen c # rest) =
     locking_loop sql toks (i + 1) ((if i = 0 then [] else word_at sql toks (i - 1)) # stack) rest"
| "locking_loop sql toks i stack (TkClose # rest) = locking_loop sql toks (i + 1) (tl stack) rest"
| "locking_loop sql toks i stack (TkWord a b # rest) =
     ((eq_ignore_ascii_case (word_at sql toks i) ''for'' \<and>
       \<not> (stack \<noteq> [] \<and> length_call (hd stack)) \<and> locks_at sql toks i) \<or>
      locking_loop sql toks (i + 1) stack rest)"
| "locking_loop sql toks i stack (t # rest) = locking_loop sql toks (i + 1) stack rest"

definition has_locking_clause :: "bytes \<Rightarrow> surface \<Rightarrow> bool" where
  "has_locking_clause sql sf = locking_loop sql (sf_tokens sf) 0 [] (sf_tokens sf)"

section \<open>The names the classifier knows\<close>

definition SIDE_EFFECT_FUNCTIONS :: "bytes list" where
  "SIDE_EFFECT_FUNCTIONS = [
     ''nextval'', ''setval'', ''pg_terminate_backend'', ''pg_cancel_backend'',
     ''pg_reload_conf'', ''pg_rotate_logfile'', ''pg_logfile_rotate'', ''pg_switch_wal'',
     ''pg_switch_xlog'', ''pg_create_restore_point'', ''pg_backup_start'', ''pg_backup_stop'',
     ''pg_start_backup'', ''pg_stop_backup'', ''pg_promote'', ''pg_wal_replay_pause'',
     ''pg_wal_replay_resume'', ''pg_xlog_replay_pause'', ''pg_xlog_replay_resume'',
     ''pg_create_physical_replication_slot'', ''pg_create_logical_replication_slot'',
     ''pg_drop_replication_slot'', ''pg_replication_slot_advance'', ''pg_logical_emit_message'',
     ''pg_notify'', ''pg_import_system_collations'', ''pg_prewarm'', ''pg_stat_reset'',
     ''pg_stat_reset_shared'', ''pg_stat_reset_slru'', ''pg_stat_reset_single_table_counters'',
     ''pg_stat_reset_single_function_counters'', ''pg_stat_statements_reset'', ''lo_create'',
     ''lo_creat'', ''lo_import'', ''lo_export'', ''lo_unlink'', ''lo_put'', ''lo_from_bytea'',
     ''lo_truncate'', ''lo_truncate64'', ''lowrite'', ''pg_file_write'', ''pg_file_rename'',
     ''pg_file_unlink'', ''get_lock'', ''release_lock'', ''release_all_locks'']"

definition has_side_effect :: "bytes \<Rightarrow> bool" where
  "has_side_effect name \<longleftrightarrow>
     name \<in> set SIDE_EFFECT_FUNCTIONS \<or> starts_with_at name 0 ''pg_advisory_'' \<or>
     starts_with_at name 0 ''pg_try_advisory_''"

definition TEXT_AS_SQL_FUNCTIONS :: "bytes list" where
  "TEXT_AS_SQL_FUNCTIONS = [
     ''query_to_xml'', ''query_to_xmlschema'', ''query_to_xml_and_xmlschema'', ''ts_stat'',
     ''ts_rewrite'', ''connectby'', ''crosstab'', ''crosstab2'', ''crosstab3'', ''crosstab4'',
     ''sys_exec'', ''sys_eval'']"

definition runs_text_as_sql :: "bytes \<Rightarrow> bool" where
  "runs_text_as_sql name \<longleftrightarrow>
     name \<in> set TEXT_AS_SQL_FUNCTIONS \<or> starts_with_at name 0 ''dblink''"

definition DML_WORDS :: "bytes list" where
  "DML_WORDS = [
     ''INSERT'', ''UPDATE'', ''DELETE'', ''MERGE'', ''REPLACE'', ''UPSERT'', ''COPY'', ''LOAD'']"

definition OPAQUE_WORDS :: "bytes list" where
  "OPAQUE_WORDS = [''DO'', ''CALL'', ''EXECUTE'']"

definition DDL_WORDS :: "bytes list" where
  "DDL_WORDS = [
     ''CREATE'', ''ALTER'', ''DROP'', ''TRUNCATE'', ''GRANT'', ''REVOKE'', ''COMMENT'',
     ''RENAME'', ''REINDEX'', ''VACUUM'', ''CLUSTER'', ''ANALYZE'', ''ANALYSE'', ''REFRESH'',
     ''ATTACH'', ''DETACH'', ''LOCK'', ''INTO'']"

definition write_kind :: "bytes \<Rightarrow> statement_kind option" where
  "write_kind w =
     (if w \<in> set DML_WORDS then Some Dml
      else if w \<in> set DDL_WORDS then Some Ddl
      else if w \<in> set OPAQUE_WORDS then Some Unknown
      else None)"

section \<open>Tokens are only added\<close>

lemma gap_loop_grows: "\<exists>ts. fst (gap_loop bs lx up i toks dirty) = toks @ ts"
proof (induction bs lx up i toks dirty rule: gap_loop.induct)
  case (1 bs lx up i toks dirty)
  then show ?case
    by (subst gap_loop.simps) (auto simp: Let_def)
qed

lemma surface_gap_grows: "\<exists>ts. sf_tokens (surface_gap bs lx up s) = sf_tokens s @ ts"
  using gap_loop_grows [of bs lx up "min (sb_seen s) up" "sf_tokens s" "sb_dirty s"]
  by (auto simp: surface_gap_def split: prod.split)

lemma surface_visit_grows: "\<exists>ts. sf_tokens (surface_visit bs lx s e) = sf_tokens s @ ts"
proof (cases e)
  case (EvWord a b)
  with surface_gap_grows [of bs lx a s] show ?thesis by (auto simp: surface_push_def)
next
  case (EvOpaque k a b)
  with surface_gap_grows [of bs lx a s] show ?thesis
    by (auto simp: surface_push_def Let_def split: opaque_kind.split)
qed simp

lemma surface_visits_grow: "\<exists>ts. sf_tokens (foldl (surface_visit bs lx) s es) = sf_tokens s @ ts"
proof (induction es arbitrary: s)
  case (Cons e es)
  from Cons.IH [of "surface_visit bs lx s e"] surface_visit_grows [of bs lx s e]
  show ?case by auto
qed simp

lemma calls_in_append: "calls_in sql m ts \<Longrightarrow> calls_in sql m (ts @ us)"
  by (induction sql m ts rule: calls_in.induct) auto

lemma calls_in_found:
  "token_name sql t = Some n \<Longrightarrow> m (to_ascii_lowercase n) \<Longrightarrow> calls_in sql m (xs @ t # TkOpen True # ys)"
proof (induction xs)
  case (Cons x xs)
  then show ?case by (cases xs) auto
qed simp

section \<open>A call is seen\<close>

text \<open>
  \<open>only_space bs q cs p\<close>: from offset \<open>q\<close> to offset \<open>p\<close> there is nothing but white space and the
  comments \<open>cs\<close>. \<open>event_token\<close> is the token a name of the walk becomes.
\<close>

definition is_space :: "byte \<Rightarrow> bool" where
  "is_space b \<longleftrightarrow> is_ascii_whitespace b \<or> b = CHR 0x0B"

fun only_space :: "bytes \<Rightarrow> nat \<Rightarrow> event list \<Rightarrow> nat \<Rightarrow> bool" where
  "only_space bs q [] p = (q \<le> p \<and> list_all is_space (slice bs q p))"
| "only_space bs q (e # cs) p =
     (is_comment e \<and> q \<le> ev_start e \<and> list_all is_space (slice bs q (ev_start e)) \<and>
      only_space bs (ev_end e) cs p)"

fun event_token :: "event \<Rightarrow> surface_token option" where
  "event_token (EvWord a b) = Some (TkWord a b)"
| "event_token (EvOpaque k a b) = (if k = DoubleQuote \<or> k = Backtick then Some (TkQuoted a b) else None)"
| "event_token (EvSeparator a) = None"

lemma gap_loop_space:
  "i \<le> p \<Longrightarrow> p \<le> up \<Longrightarrow> up \<le> length bs \<Longrightarrow> list_all is_space (slice bs i p) \<Longrightarrow>
     gap_loop bs lx up i toks dirty = gap_loop bs lx up p toks dirty"
proof (induction "p - i" arbitrary: i)
  case (Suc n)
  then have i: "i < up" "i < p" "i < length bs" by simp_all
  then have "slice bs i p = bs ! i # slice bs (i + 1) p"
    by (simp add: slice_def Cons_nth_drop_Suc [symmetric] Suc_diff_Suc [symmetric])
  with Suc.prems have sp: "is_space (bs ! i)" "list_all is_space (slice bs (i + 1) p)" by simp_all
  from sp(1) have "bs ! i \<noteq> CHR ''(''" "bs ! i \<noteq> CHR '')''"
    by (auto simp: is_space_def is_ascii_whitespace_iff)
  with sp(1) i(1) have "gap_loop bs lx up i toks dirty = gap_loop bs lx up (i + 1) toks dirty"
    by (subst gap_loop.simps) (auto simp: is_space_def)
  with Suc.hyps(1) [of "i + 1"] Suc.hyps(2) Suc.prems sp(2) i show ?case by simp
qed simp

text \<open>\<open>poised\<close>: the last token is the name, and nothing but space has come since.\<close>

definition poised :: "surface_token \<Rightarrow> nat \<Rightarrow> surface_builder \<Rightarrow> bool" where
  "poised t q s \<longleftrightarrow> (\<exists>ts. sf_tokens s = ts @ [t]) \<and> is_name_token t \<and> \<not> sb_dirty s \<and> sb_seen s = q"

lemma poised_gap:
  assumes "poised t q s" "q \<le> up" "up \<le> length bs" "list_all is_space (slice bs q up)"
  shows "poised t up (surface_gap bs lx up s)"
proof -
  from assms(1) have "min (sb_seen s) up = q" using assms(2) by (simp add: poised_def)
  moreover have "gap_loop bs lx up q (sf_tokens s) (sb_dirty s) = (sf_tokens s, sb_dirty s)"
    using gap_loop_space [of q up up bs lx] assms(2-4) by (simp add: gap_loop.simps [of bs lx up up])
  ultimately show ?thesis using assms(1) by (auto simp: poised_def surface_gap_def)
qed

lemma poised_comments:
  "poised t q s \<Longrightarrow> only_space bs q cs p \<Longrightarrow> list_all (\<lambda>e. ev_end e \<le> length bs \<and> ev_start e < ev_end e) cs \<Longrightarrow>
     \<exists>q'. poised t q' (foldl (surface_visit bs lx) s cs) \<and> q' \<le> p \<and> list_all is_space (slice bs q' p)"
proof (induction cs arbitrary: q s)
  case (Cons e cs)
  then have "poised t (ev_start e) (surface_gap bs lx (ev_start e) s)"
    by (intro poised_gap) auto
  moreover from Cons.prems(2) have "is_comment e" by simp
  ultimately have "poised t (ev_end e) (surface_visit bs lx s e)"
    by (auto simp: is_comment_def poised_def Let_def)
  from Cons.IH [OF this] Cons.prems show ?case by simp
qed auto

lemma poised_open:
  assumes "poised t q s" "q \<le> p" "list_all is_space (slice bs q p)" "p < up" "up \<le> length bs"
    "bs ! p = CHR ''(''"
  shows "\<exists>xs ys. sf_tokens (surface_gap bs lx up s) = xs @ t # TkOpen True # ys"
proof -
  from assms(1) obtain ts where s: "sf_tokens s = ts @ [t]" "is_name_token t" "\<not> sb_dirty s" "sb_seen s = q"
    by (auto simp: poised_def)
  have "gap_loop bs lx up q (ts @ [t]) False = gap_loop bs lx up p (ts @ [t]) False"
    using assms by (intro gap_loop_space) simp_all
  also have "\<dots> = gap_loop bs lx up (p + 1) (ts @ [t] @ [TkOpen True]) False"
    using assms(4,6) s(2) by (subst gap_loop.simps) simp
  finally have g: "gap_loop bs lx up q (ts @ [t]) False =
      gap_loop bs lx up (p + 1) (ts @ [t] @ [TkOpen True]) False" .
  moreover have "min (sb_seen s) up = q" using s(4) assms(2,4) by simp
  ultimately have "sf_tokens (surface_gap bs lx up s) =
      fst (gap_loop bs lx up (p + 1) (ts @ [t] @ [TkOpen True]) False)"
    using s by (simp add: surface_gap_def split: prod.split)
  with gap_loop_grows [of bs lx up "p + 1" "ts @ [t] @ [TkOpen True]" False] show ?thesis by auto
qed

lemma poised_rest:
  assumes "poised t q s" "q \<le> p" "list_all is_space (slice bs q p)" "p < length bs"
    "bs ! p = CHR ''(''" "list_all (\<lambda>e. p < ev_start e \<and> ev_start e \<le> length bs) post"
  shows "\<exists>xs ys. sf_tokens (surface_gap bs lx (length bs) (foldl (surface_visit bs lx) s post)) =
    xs @ t # TkOpen True # ys"
  using assms
proof (induction post)
  case Nil
  then show ?case using poised_open [of t q s p bs "length bs" lx] by simp
next
  case (Cons e post)
  show ?case
  proof (cases "is_separator e")
    case True
    then obtain a where "e = EvSeparator a" by (auto simp: is_separator_def)
    with Cons show ?thesis by simp
  next
    case False
    let ?g = "surface_gap bs lx (ev_start e) s"
    from Cons.prems poised_open [of t q s p bs "ev_start e" lx] obtain xs ys
      where g: "sf_tokens ?g = xs @ t # TkOpen True # ys" by auto
    have "\<exists>zs. sf_tokens (surface_visit bs lx s e) = sf_tokens ?g @ zs"
      using False by (cases e) (auto simp: surface_push_def Let_def split: opaque_kind.split)
    moreover have "\<exists>zs. sf_tokens (surface_gap bs lx (length bs)
        (foldl (surface_visit bs lx) (surface_visit bs lx s e) post)) =
        sf_tokens (surface_visit bs lx s e) @ zs"
      using surface_visits_grow [of bs lx "surface_visit bs lx s e" post]
        surface_gap_grows [of bs lx "length bs" "foldl (surface_visit bs lx) (surface_visit bs lx s e) post"]
      by auto
    ultimately obtain zs where "sf_tokens (surface_gap bs lx (length bs)
        (foldl (surface_visit bs lx) (surface_visit bs lx s e) post)) = xs @ t # TkOpen True # ys @ zs"
      using g by auto
    then show ?thesis by (intro exI [of _ xs] exI [of _ "ys @ zs"]) simp
  qed
qed

lemma event_token_poised:
  assumes "event_token e = Some t"
  shows "poised t (ev_end e) (surface_visit bs lx s e)"
  using assms
  by (cases e) (auto simp: poised_def surface_push_def Let_def split: opaque_kind.split if_splits)

section \<open>Properties\<close>

text \<open>
  A call cannot be hidden from the classifier by what is between the name and its parenthesis.
  When the walk reports a bare word or a quoted name, then only comments, and the bytes between them
  up to a \<open>(\<close> are white space, the text calls the function of that name, in any case of its letters.
\<close>
theorem call_is_seen:
  assumes "walk_events sql lx = pre @ e # cs @ post" and "event_token e = Some t"
    and "only_space sql (ev_end e) cs p" and "p < length sql" and "sql ! p = CHR ''(''"
    and "list_all (\<lambda>f. p < ev_start f) post"
    and "token_name sql t = Some name" and "matches (to_ascii_lowercase name)"
  shows "calls_a_function sql (surface_of sql lx) matches"
proof -
  have bounds: "list_all (\<lambda>f. ev_end f \<le> length sql \<and> ev_start f < ev_end f) (pre @ e # cs @ post)"
    using walked.event_bounds [of _ sql lx] assms(1) by (auto simp: list_all_iff)
  let ?s = "foldl (surface_visit sql lx) surface_init pre"
  have "list_all (\<lambda>f. ev_end f \<le> length sql \<and> ev_start f < ev_end f) cs" using bounds by simp
  from poised_comments [OF event_token_poised [OF assms(2)] assms(3) this]
  obtain q where q: "poised t q (foldl (surface_visit sql lx) (surface_visit sql lx ?s e) cs)"
    "q \<le> p" "list_all is_space (slice sql q p)" by blast
  have "list_all (\<lambda>f. p < ev_start f \<and> ev_start f \<le> length sql) post"
  proof -
    have "list_all (\<lambda>f. ev_end f \<le> length sql \<and> ev_start f < ev_end f) post" using bounds by simp
    with assms(6) show ?thesis by (fastforce simp: list_all_iff)
  qed
  from poised_rest [OF q assms(4,5) this, of lx] obtain xs ys
    where "sf_tokens (surface_of sql lx) = xs @ t # TkOpen True # ys"
    by (auto simp: surface_of_def assms(1) surface.truncate_def)
  with calls_in_found [OF assms(7), of matches xs ys] assms(8) show ?thesis
    by (simp add: calls_a_function_def)
qed

theorem call_is_seen_witness:
  "calls_a_function ''DBLINK/**/ (x)'' (surface_of ''DBLINK/**/ (x)'' POSTGRES) runs_text_as_sql"
  by (rule call_is_seen [of _ _ "[]" "EvWord 0 6" "[EvOpaque BlockComment 6 10]" "[EvWord 12 13]"
        "TkWord 0 6" 11 "''DBLINK''"])
     (simp_all, code_simp+)

end
