(* ===== verification/SqlClassify.thy ===== *)
theory SqlClassify
  imports SqlStatements SqlSurface
begin

text \<open>
  The classifier and the Safe Mode check of \<^verbatim>\<open>crates/qh-sql/src/classify.rs\<close>: what a statement does,
  what a mode decides about each statement of a script, and whether the script may run, under one
  lexer and under several readings at once.

  The lemmas show what a classification as read-only rules out, that a check under several readings
  accepts only what every reading accepts, that it fails closed when they disagree, and that a
  stricter mode accepts no more than a laxer one.
\<close>

section \<open>Classifying one statement\<close>

definition READ_STARTERS :: "bytes list" where
  "READ_STARTERS = [''SELECT'', ''VALUES'', ''TABLE'', ''WITH'', ''EXPLAIN'']"

definition SHOW_WORDS :: "bytes list" where
  "SHOW_WORDS = [''SHOW'', ''DESC'', ''DESCRIBE'']"

fun flatten :: "'a option list \<Rightarrow> 'a list" where
  "flatten [] = []"
| "flatten (None # xs) = flatten xs"
| "flatten (Some x # xs) = x # flatten xs"

text \<open>A read starter can hide a write further in; the strictest thing found wins.\<close>

definition read_kind :: "bytes \<Rightarrow> scan \<Rightarrow> surface \<Rightarrow> statement_kind" where
  "read_kind sql sc sf =
     (let word_kind = max_by_key kind_rank (flatten (map write_kind (bare_words sc)));
          lock_kind = (if has_locking_clause sql sf then Some Dml else None);
          call_kind = (if calls_a_function sql sf has_side_effect then Some Dml else None) in
      case max_by_key kind_rank (flatten [word_kind, lock_kind, call_kind]) of
        None \<Rightarrow> KReadOnly
      | Some k \<Rightarrow> k)"

definition leading_kind :: "bytes \<Rightarrow> scan \<Rightarrow> surface \<Rightarrow> bytes \<Rightarrow> statement_kind" where
  "leading_kind sql sc sf leading =
     (if leading \<in> set SHOW_WORDS then KReadOnly
      else if leading \<in> set READ_STARTERS then read_kind sql sc sf
      else if leading = ''COPY'' \<and> ''PROGRAM'' \<in> set (bare_words sc) then Unknown
      else (case write_kind leading of Some k \<Rightarrow> k | None \<Rightarrow> Unknown))"

definition classify_dialect :: "bytes \<Rightarrow> lexer \<Rightarrow> statement_kind" where
  "classify_dialect sql lx =
     (let sc = scan_dialect sql lx; sf = surface_of sql lx in
      if calls_a_function sql sf runs_text_as_sql then Unknown
      else if is_postgres lx \<and> leading_keyword sc \<noteq> Some ''SHOW'' \<and> names_encoding sql sf
      then Unknown
      else (case leading_keyword sc of
              None \<Rightarrow> Unknown
            | Some leading \<Rightarrow>
                (let kind = leading_kind sql sc sf leading in
                 if kind \<noteq> KReadOnly \<and> is_postgres lx \<and> sf_literal_names_encoding sf then Unknown
                 else kind)))"

text \<open>The strictest kind any reading gives; no reading at all is \<open>Unknown\<close>.\<close>

fun merge_kinds :: "statement_kind option \<Rightarrow> statement_kind list \<Rightarrow> statement_kind option" where
  "merge_kinds merged [] = merged"
| "merge_kinds merged (k # ks) =
     merge_kinds
       (case merged of
          None \<Rightarrow> Some k
        | Some c \<Rightarrow> if kind_rank k > kind_rank c then Some k else Some c) ks"

definition classify_readings :: "bytes \<Rightarrow> lexer list \<Rightarrow> statement_kind" where
  "classify_readings sql rs =
     (case merge_kinds None (map (classify_dialect sql) rs) of Some k \<Rightarrow> k | None \<Rightarrow> Unknown)"

section \<open>A shortened rendering\<close>

text \<open>\<open>str::split_whitespace\<close>, with the word being read in \<open>acc\<close>.\<close>

function split_whitespace :: "bytes \<Rightarrow> bytes \<Rightarrow> bytes list" where
  "split_whitespace acc s =
     (let flushed = (if acc = [] then [] else [acc]) in
      if s = [] then flushed
      else if ws_head s = 0 then split_whitespace (acc @ [hd s]) (tl s)
      else flushed @ split_whitespace [] (drop (ws_head s) s))"
  by pat_completeness auto
termination
proof (relation "measure (\<lambda>(acc, s). length s)", goal_cases)
  case (3 acc s x)
  with ws_head_le [of s] show ?case by auto
qed auto

declare split_whitespace.simps [simp del]

text \<open>The first \<open>n\<close> characters of a UTF-8 text, and what is left after them.\<close>

definition utf8_width :: "byte \<Rightarrow> nat" where
  "utf8_width b = (if byte_val b < 0x80 then 1 else if byte_val b < 0xE0 then 2
     else if byte_val b < 0xF0 then 3 else 4)"

fun split_chars :: "nat \<Rightarrow> bytes \<Rightarrow> bytes \<times> bytes" where
  "split_chars 0 s = ([], s)"
| "split_chars (Suc n) [] = ([], [])"
| "split_chars (Suc n) (b # s) =
     (let w = utf8_width b; (h, r) = split_chars n (drop w (b # s)) in (take w (b # s) @ h, r))"

definition snippet :: "bytes \<Rightarrow> bytes" where
  "snippet sql =
     (let (head, rest) = split_chars 80 (join '' '' (split_whitespace [] sql)) in
      if rest \<noteq> [] then head @ [CHR 0xE2, CHR 0x80, CHR 0xA6] else head)"

section \<open>Decisions and refusals\<close>

datatype safe_mode_error =
    Refused safe_mode nat statement_kind bytes bytes
  | NeedsConfirmation safe_mode nat statement_kind bytes bytes

record statement_decision =
  sd_index :: nat
  sd_kind :: statement_kind
  sd_statement :: bytes
  sd_decision :: decision
  sd_reason :: "bytes option"

definition refusal_error :: "statement_decision \<Rightarrow> safe_mode \<Rightarrow> bool \<Rightarrow> safe_mode_error option" where
  "refusal_error d mode confirmed =
     (let reason = (case sd_reason d of Some r \<Rightarrow> r | None \<Rightarrow> ''this statement is not allowed here'') in
      case sd_decision d of
        Allow \<Rightarrow> None
      | AskConfirm \<Rightarrow>
          if confirmed then None
          else Some (NeedsConfirmation mode (sd_index d) (sd_kind d) reason (snippet (sd_statement d)))
      | Refuse \<Rightarrow> Some (Refused mode (sd_index d) (sd_kind d) reason (snippet (sd_statement d))))"

definition ambiguous_reason :: "safe_mode \<Rightarrow> bool \<Rightarrow> bytes option" where
  "ambiguous_reason mode pg =
     (let who = (case mode of
                   Full \<Rightarrow> [] | NoDdl \<Rightarrow> ''a no_ddl connection'' | Confirm \<Rightarrow> ''a confirm connection''
                 | ReadOnly \<Rightarrow> ''a read-only connection'');
          mysql_text = ''the classifier could not tell where this statement ends or what it does, because '' @
            ''MySQL string escaping and comments depend on the server'' @ [CHR 0x27] @
            ''s sql_mode (write a quote inside a string as '' @ [CHR 0x27, CHR 0x27] @ '' instead of '' @
            [CHR 0x5C, CHR 0x27] @ '' and avoid unusual comments), and '';
          postgres_text = ''the classifier could not tell where this statement ends or what it does, because '' @
            ''PostgreSQL reads a backslash in a plain string differently depending on '' @
            ''standard_conforming_strings (write a quote inside a string as '' @ [CHR 0x27, CHR 0x27] @
            '' instead of '' @ [CHR 0x5C, CHR 0x27] @ '', or use an E'' @ [CHR 0x27, CHR 0x27] @
            '' string), and '' in
      if mode = Full then None
      else Some ((if pg then postgres_text else mysql_text) @ who @ '' refuses an unclassified statement''))"

text \<open>\<open>enumerate\<close>, counting from 1.\<close>

fun numbered :: "nat \<Rightarrow> 'a list \<Rightarrow> (nat \<times> 'a) list" where
  "numbered n [] = []"
| "numbered n (x # xs) = (n, x) # numbered (n + 1) xs"

definition decisions_dialect :: "safe_mode \<Rightarrow> bytes \<Rightarrow> lexer \<Rightarrow> statement_decision list" where
  "decisions_dialect mode sql lx =
     map (\<lambda>(i, statement).
         (let kind = classify_dialect statement lx in
          \<lparr>sd_index = i, sd_kind = kind, sd_statement = statement,
           sd_decision = decide mode kind, sd_reason = refusal mode kind\<rparr>))
       (numbered 1 (statements_dialect sql lx))"

definition statements_agreeing :: "bytes \<Rightarrow> lexer list \<Rightarrow> bytes list option" where
  "statements_agreeing sql rs =
     (case rs of
        [] \<Rightarrow> None
      | r # rest \<Rightarrow>
          (let expected = statements_dialect sql r in
           if list_ex (\<lambda>lx. statements_dialect sql lx \<noteq> expected) rest then None else Some expected))"

definition decisions_readings :: "safe_mode \<Rightarrow> bytes \<Rightarrow> lexer list \<Rightarrow> statement_decision list" where
  "decisions_readings mode sql rs =
     (let pg = list_ex is_postgres rs in
      case statements_agreeing sql rs of
        None \<Rightarrow> [\<lparr>sd_index = 1, sd_kind = Unknown, sd_statement = trim sql,
                  sd_decision = decide mode Unknown, sd_reason = ambiguous_reason mode pg\<rparr>]
      | Some statements \<Rightarrow>
          map (\<lambda>(i, statement).
              (let kind = classify_readings statement rs;
                   ambiguous = (kind = Unknown \<and>
                     list_ex (\<lambda>lx. classify_dialect statement lx \<noteq> Unknown) rs) in
               \<lparr>sd_index = i, sd_kind = kind, sd_statement = statement, sd_decision = decide mode kind,
                sd_reason = (if ambiguous then ambiguous_reason mode pg else refusal mode kind)\<rparr>))
            (numbered 1 statements))"

fun find_map :: "('a \<Rightarrow> 'b option) \<Rightarrow> 'a list \<Rightarrow> 'b option" where
  "find_map f [] = None"
| "find_map f (x # xs) = (case f x of Some y \<Rightarrow> Some y | None \<Rightarrow> find_map f xs)"

definition result_of :: "safe_mode_error option \<Rightarrow> safe_mode_error + unit" where
  "result_of e = (case e of Some err \<Rightarrow> Inl err | None \<Rightarrow> Inr ())"

definition check_confirmed_dialect :: "safe_mode \<Rightarrow> bool \<Rightarrow> bytes \<Rightarrow> lexer \<Rightarrow> safe_mode_error + unit" where
  "check_confirmed_dialect mode confirmed sql lx =
     result_of (find_map (\<lambda>d. refusal_error d mode confirmed) (decisions_dialect mode sql lx))"

definition check_dialect :: "safe_mode \<Rightarrow> bytes \<Rightarrow> lexer \<Rightarrow> safe_mode_error + unit" where
  "check_dialect mode sql lx = check_confirmed_dialect mode False sql lx"

definition check_confirmed_readings ::
  "safe_mode \<Rightarrow> bool \<Rightarrow> bytes \<Rightarrow> lexer list \<Rightarrow> safe_mode_error + unit" where
  "check_confirmed_readings mode confirmed sql rs =
     result_of (find_map (\<lambda>d. refusal_error d mode confirmed) (decisions_readings mode sql rs))"

text \<open>The generic entry points.\<close>

definition classify :: "bytes \<Rightarrow> statement_kind" where
  "classify sql = classify_dialect sql (lexer_of Generic)"

definition decisions :: "safe_mode \<Rightarrow> bytes \<Rightarrow> statement_decision list" where
  "decisions mode sql = decisions_dialect mode sql (lexer_of Generic)"

definition check_confirmed :: "safe_mode \<Rightarrow> bool \<Rightarrow> bytes \<Rightarrow> safe_mode_error + unit" where
  "check_confirmed mode confirmed sql = check_confirmed_dialect mode confirmed sql (lexer_of Generic)"

definition check :: "safe_mode \<Rightarrow> bytes \<Rightarrow> safe_mode_error + unit" where
  "check mode sql = check_confirmed mode False sql"

section \<open>What a classification rules out\<close>

lemma in_flatten [simp]: "x \<in> set (flatten xs) \<longleftrightarrow> Some x \<in> set xs"
  by (induction xs rule: flatten.induct) auto

lemma write_kind_not_read: "write_kind w \<noteq> Some KReadOnly"
  by (simp add: write_kind_def)

lemma max_kind_read:
  "max_by_key kind_rank ks = Some KReadOnly \<Longrightarrow> k \<in> set ks \<Longrightarrow> k = KReadOnly"
  using max_by_key_Some [of kind_rank ks KReadOnly] by (cases k) auto

lemma read_kind_read_only:
  "read_kind sql sc sf = KReadOnly \<longleftrightarrow>
     (\<forall>w \<in> set (bare_words sc). write_kind w = None) \<and> \<not> has_locking_clause sql sf \<and>
     \<not> calls_a_function sql sf has_side_effect"
proof -
  let ?ws = "flatten (map write_kind (bare_words sc))"
  let ?word = "max_by_key kind_rank ?ws"
  let ?all = "flatten [?word, if has_locking_clause sql sf then Some Dml else None,
      if calls_a_function sql sf has_side_effect then Some Dml else None]"
  have words: "?word = None \<longleftrightarrow> (\<forall>w \<in> set (bare_words sc). write_kind w = None)"
  proof -
    have "?ws = [] \<longleftrightarrow> (\<forall>k. k \<notin> set ?ws)" by (cases ?ws) auto
    also have "\<dots> \<longleftrightarrow> (\<forall>w \<in> set (bare_words sc). write_kind w = None)"
      by (auto simp: image_iff) (metis not_None_eq)+
    finally show ?thesis by simp
  qed
  have word_kind: "?word \<noteq> Some KReadOnly"
    using max_by_key_Some [of kind_rank ?ws KReadOnly] write_kind_not_read by (auto simp: image_iff) metis
  have "KReadOnly \<notin> set ?all" using word_kind by (auto split: if_splits)
  then have "max_by_key kind_rank ?all \<noteq> Some KReadOnly"
    using max_by_key_Some [of kind_rank ?all KReadOnly] by blast
  then have "read_kind sql sc sf = KReadOnly \<longleftrightarrow> ?all = []"
    by (auto simp: read_kind_def Let_def split: option.splits)
  then show ?thesis using words by (cases ?word) auto
qed

text \<open>What is known of a statement that is classified as read-only.\<close>

definition reads_only :: "bytes \<Rightarrow> lexer \<Rightarrow> bytes \<Rightarrow> bool" where
  "reads_only sql lx leading \<longleftrightarrow>
     (leading \<in> set SHOW_WORDS \<or>
      leading \<in> set READ_STARTERS \<and>
        (\<forall>w \<in> set (bare_words (scan_dialect sql lx)). write_kind w = None) \<and>
        \<not> has_locking_clause sql (surface_of sql lx) \<and>
        \<not> calls_a_function sql (surface_of sql lx) has_side_effect)"

lemma leading_kind_read_only:
  "leading_kind sql (scan_dialect sql lx) (surface_of sql lx) leading = KReadOnly \<longleftrightarrow> reads_only sql lx leading"
proof -
  have "(case write_kind w of Some k \<Rightarrow> k | None \<Rightarrow> Unknown) \<noteq> KReadOnly" for w
    using write_kind_not_read [of w] by (auto split: option.split)
  then show ?thesis
    by (auto simp: leading_kind_def reads_only_def read_kind_read_only)
qed

lemma classify_read_only:
  "classify_dialect sql lx = KReadOnly \<longleftrightarrow>
     \<not> calls_a_function sql (surface_of sql lx) runs_text_as_sql \<and>
     (is_postgres lx \<longrightarrow> leading_keyword_of sql lx \<noteq> Some ''SHOW'' \<longrightarrow>
        \<not> names_encoding sql (surface_of sql lx)) \<and>
     (\<exists>leading. leading_keyword_of sql lx = Some leading \<and> reads_only sql lx leading)"
  by (auto simp: classify_dialect_def Let_def leading_kind_read_only split: option.split)

section \<open>Merging readings\<close>

lemma merge_kinds_Some:
  "\<exists>k. merge_kinds (Some m) ks = Some k \<and> (k = m \<or> k \<in> set ks) \<and>
     kind_rank m \<le> kind_rank k \<and> (\<forall>l \<in> set ks. kind_rank l \<le> kind_rank k)"
proof (induction ks arbitrary: m)
  case (Cons l ks)
  from Cons.IH [of "if kind_rank l > kind_rank m then l else m"] show ?case
    by (cases "kind_rank l > kind_rank m") fastforce+
qed simp

lemma classify_readings_is_max:
  assumes "rs \<noteq> []"
  shows "(\<exists>lx \<in> set rs. classify_readings sql rs = classify_dialect sql lx) \<and>
    (\<forall>lx \<in> set rs. kind_rank (classify_dialect sql lx) \<le> kind_rank (classify_readings sql rs))"
proof (cases rs)
  case (Cons r rest)
  from merge_kinds_Some [of "classify_dialect sql r" "map (classify_dialect sql) rest"]
  show ?thesis by (auto simp: classify_readings_def Cons)
qed (use assms in simp)

lemma classify_readings_read_only:
  assumes "classify_readings sql rs = KReadOnly" "lx \<in> set rs"
  shows "classify_dialect sql lx = KReadOnly"
proof -
  from assms(2) have "rs \<noteq> []" by auto
  with classify_readings_is_max [OF this, of sql] assms
  have "kind_rank (classify_dialect sql lx) \<le> 0" by fastforce
  then show ?thesis by (cases "classify_dialect sql lx") simp_all
qed

section \<open>Checks\<close>

lemma find_map_None: "find_map f xs = None \<longleftrightarrow> (\<forall>x \<in> set xs. f x = None)"
  by (induction xs) (auto split: option.split)

lemma find_map_Some:
  "find_map f xs = Some y \<Longrightarrow> \<exists>ys x zs. xs = ys @ x # zs \<and> f x = Some y \<and> (\<forall>z \<in> set ys. f z = None)"
proof (induction xs)
  case (Cons a xs)
  show ?case
  proof (cases "f a")
    case None
    with Cons obtain ys x zs where "xs = ys @ x # zs" "f x = Some y" "\<forall>z \<in> set ys. f z = None" by auto
    with None show ?thesis by (intro exI [of _ "a # ys"] exI [of _ x] exI [of _ zs]) simp
  next
    case (Some b)
    with Cons.prems show ?thesis by (intro exI [of _ "[]"] exI [of _ a] exI [of _ xs]) simp
  qed
qed simp

lemma result_of_iff [simp]: "result_of e = Inr u \<longleftrightarrow> e = None" "result_of e = Inl x \<longleftrightarrow> e = Some x"
  by (simp_all add: result_of_def split: option.split)

text \<open>Whether a decision lets the statement run, once the confirmation is counted.\<close>

fun runs :: "decision \<Rightarrow> bool \<Rightarrow> bool" where
  "runs Allow confirmed = True" | "runs AskConfirm confirmed = confirmed" | "runs Refuse confirmed = False"

lemma refusal_error_None: "refusal_error d mode confirmed = None \<longleftrightarrow> runs (sd_decision d) confirmed"
  by (cases "sd_decision d") (simp_all add: refusal_error_def Let_def)

lemma runs_rank: "decision_rank d \<le> decision_rank e \<Longrightarrow> runs e confirmed \<Longrightarrow> runs d confirmed"
  by (cases d; cases e) auto

lemma set_numbered: "snd ` set (numbered n xs) = set xs"
  by (induction xs arbitrary: n) auto

lemma in_numbered: "(i, x) \<in> set (numbered n xs) \<Longrightarrow> x \<in> set xs"
  using set_numbered [of n xs] by force

lemma numbered_all: "(\<forall>p \<in> set (numbered n xs). P (snd p)) \<longleftrightarrow> (\<forall>x \<in> set xs. P x)"
  using set_numbered [of n xs] by force

lemma check_dialect_ok:
  "check_confirmed_dialect mode confirmed sql lx = Inr () \<longleftrightarrow>
     (\<forall>s \<in> set (statements_dialect sql lx). runs (decide mode (classify_dialect s lx)) confirmed)"
  using numbered_all [of 1 "statements_dialect sql lx" "\<lambda>s. runs (decide mode (classify_dialect s lx)) confirmed"]
  by (simp add: check_confirmed_dialect_def find_map_None decisions_dialect_def refusal_error_None Let_def
      case_prod_unfold)

lemma check_readings_ok:
  "check_confirmed_readings mode confirmed sql rs = Inr () \<longleftrightarrow>
     (case statements_agreeing sql rs of
        None \<Rightarrow> runs (decide mode Unknown) confirmed
      | Some ss \<Rightarrow> (\<forall>s \<in> set ss. runs (decide mode (classify_readings s rs)) confirmed))"
  using numbered_all [of 1 _ "\<lambda>s. runs (decide mode (classify_readings s rs)) confirmed"]
  by (simp add: check_confirmed_readings_def find_map_None decisions_readings_def refusal_error_None
      Let_def case_prod_unfold split: option.split)

lemma statements_agreeing_Some:
  "statements_agreeing sql rs = Some ss \<longleftrightarrow> rs \<noteq> [] \<and> (\<forall>lx \<in> set rs. statements_dialect sql lx = ss)"
  by (cases rs) (auto simp: statements_agreeing_def Let_def list_ex_iff)

lemma decide_Unknown: "runs (decide mode Unknown) confirmed \<longleftrightarrow> mode = Full"
  by (cases mode) simp_all

lemma in_numbered_nth: "numbered n xs = ys @ (i, x) # zs \<Longrightarrow>
    i = n + length ys \<and> length ys < length xs \<and> xs ! length ys = x \<and> map snd ys = take (length ys) xs"
proof (induction xs arbitrary: n ys)
  case (Cons a xs)
  then show ?case
  proof (cases ys)
    case (Cons y ys')
    with Cons.prems have "numbered (n + 1) xs = ys' @ (i, x) # zs" "y = (n, a)" by simp_all
    with Cons.IH [of "n + 1" ys'] Cons show ?thesis by simp
  qed simp
qed simp

lemma write_openers:
  "write_kind ''CREATE'' = Some Ddl" "write_kind ''ALTER'' = Some Ddl" "write_kind ''BEGIN'' = None"
  by code_simp+

lemma opener_kind:
  assumes "leading_keyword_of s lx = Some w" "w \<in> {''CREATE'', ''ALTER'', ''BEGIN''}"
  shows "classify_dialect s lx \<in> {Ddl, Unknown}"
proof -
  from assms(2) have "w \<notin> set SHOW_WORDS" "w \<notin> set READ_STARTERS" "w \<noteq> ''COPY''"
    by (auto simp: SHOW_WORDS_def READ_STARTERS_def)
  with assms(2) have "leading_kind s sc sf w \<in> {Ddl, Unknown}" for sc sf
    using write_openers by (auto simp: leading_kind_def)
  with assms(1) show ?thesis by (auto simp: classify_dialect_def Let_def)
qed

section \<open>Properties\<close>

text \<open>
  C7. What \<open>read-only\<close> means. A statement the classifier calls read-only runs no text as SQL, and either
  starts with \<open>SHOW\<close>, \<open>DESC\<close> or \<open>DESCRIBE\<close>, or starts with a read and then takes no row lock, calls no
  function with a side effect, and has no write word anywhere in its code: no word the walk reports,
  in any case of its letters, is one of the DML, DDL or opaque words.
\<close>
theorem read_only_has_no_write:
  assumes "classify_dialect sql lx = KReadOnly"
  shows "\<not> calls_a_function sql (surface_of sql lx) runs_text_as_sql \<and>
    (\<exists>leading. leading_keyword (scan_dialect sql lx) = Some leading \<and>
       (leading \<in> {''SHOW'', ''DESC'', ''DESCRIBE''} \<or>
        leading \<in> {''SELECT'', ''VALUES'', ''TABLE'', ''WITH'', ''EXPLAIN''} \<and>
        \<not> has_locking_clause sql (surface_of sql lx) \<and>
        \<not> calls_a_function sql (surface_of sql lx) has_side_effect \<and>
        list_all (\<lambda>e. case e of
            EvWord a b \<Rightarrow> to_ascii_uppercase (slice sql a b) \<notin>
              set (DML_WORDS @ DDL_WORDS @ OPAQUE_WORDS)
          | _ \<Rightarrow> True) (walk_events sql lx)))"
proof -
  have word: "to_ascii_uppercase (slice sql a b) \<notin> set (DML_WORDS @ DDL_WORDS @ OPAQUE_WORDS)"
    if "EvWord a b \<in> set (walk_events sql lx)"
      "\<forall>w \<in> set (bare_words (scan_dialect sql lx)). write_kind w = None" for a b
  proof -
    from that in_scan_words [of _ sql lx] have "write_kind (to_ascii_uppercase (slice sql a b)) = None" by blast
    then show ?thesis by (simp add: write_kind_def split: if_splits)
  qed
  have words: "list_all (\<lambda>e. case e of
      EvWord a b \<Rightarrow> to_ascii_uppercase (slice sql a b) \<notin> set (DML_WORDS @ DDL_WORDS @ OPAQUE_WORDS)
    | _ \<Rightarrow> True) (walk_events sql lx)"
    if "\<forall>w \<in> set (bare_words (scan_dialect sql lx)). write_kind w = None"
    unfolding list_all_iff
  proof
    fix e assume "e \<in> set (walk_events sql lx)"
    with word that show "case e of
        EvWord a b \<Rightarrow> to_ascii_uppercase (slice sql a b) \<notin> set (DML_WORDS @ DDL_WORDS @ OPAQUE_WORDS)
      | _ \<Rightarrow> True" by (cases e) simp_all
  qed
  from assms [unfolded classify_read_only] obtain leading
    where l: "leading_keyword_of sql lx = Some leading" "reads_only sql lx leading"
      and c: "\<not> calls_a_function sql (surface_of sql lx) runs_text_as_sql" by blast
  from l(2) words have "leading \<in> {''SHOW'', ''DESC'', ''DESCRIBE''} \<or>
      leading \<in> {''SELECT'', ''VALUES'', ''TABLE'', ''WITH'', ''EXPLAIN''} \<and>
      \<not> has_locking_clause sql (surface_of sql lx) \<and>
      \<not> calls_a_function sql (surface_of sql lx) has_side_effect \<and>
      list_all (\<lambda>e. case e of
          EvWord a b \<Rightarrow> to_ascii_uppercase (slice sql a b) \<notin> set (DML_WORDS @ DDL_WORDS @ OPAQUE_WORDS)
        | _ \<Rightarrow> True) (walk_events sql lx)"
    unfolding reads_only_def SHOW_WORDS_def READ_STARTERS_def list.set by (elim disjE conjE) iprover+
  with l(1) c show ?thesis by (intro conjI exI [of _ leading]) simp_all
qed

lemma show_example:
  "statements_dialect ''show x'' TRINO = [''show x'']"
  "classify_dialect ''show x'' TRINO = KReadOnly"
  by code_simp+

lemma show_example_checked: "check_confirmed_readings ReadOnly False ''show x'' [TRINO] = Inr ()"
  by (simp add: check_readings_ok statements_agreeing_def classify_readings_def show_example)

theorem read_only_has_no_write_witness:
  "\<not> calls_a_function ''show x'' (surface_of ''show x'' TRINO) runs_text_as_sql"
  by (rule conjunct1 [OF read_only_has_no_write [OF show_example(2)]])

lemma read_only_check_reads:
  assumes "check_confirmed_readings ReadOnly confirmed sql (readings d) = Inr ()"
  shows "list_all (\<lambda>lx. list_all (\<lambda>s. list_all (\<lambda>r. classify_dialect s r = KReadOnly) (readings d))
      (statements_dialect sql lx)) (readings d)"
proof -
  from assms obtain ss where ss: "statements_agreeing sql (readings d) = Some ss"
    and runs: "\<forall>s \<in> set ss. runs (decide ReadOnly (classify_readings s (readings d))) confirmed"
    by (auto simp: check_readings_ok split: option.splits)
  have "classify_readings s (readings d) = KReadOnly" if "s \<in> set ss" for s
    using runs that by (cases "classify_readings s (readings d)") auto
  with classify_readings_read_only ss show ?thesis
    by (auto simp: statements_agreeing_Some list_all_iff)
qed



text \<open>
  Several readings accept no more than each one: in every mode, a script the guard lets run under a
  list of readings is a script it lets run under every single one of them.
\<close>
theorem readings_accept_what_each_accepts:
  assumes "check_confirmed_readings mode confirmed sql rs = Inr ()" and "lx \<in> set rs"
  shows "check_confirmed_dialect mode confirmed sql lx = Inr ()"
proof (cases "statements_agreeing sql rs")
  case None
  with assms have "mode = Full" by (simp add: check_readings_ok decide_Unknown)
  then show ?thesis by (simp add: check_dialect_ok)
next
  case (Some ss)
  with assms have same: "statements_dialect sql lx = ss" "rs \<noteq> []" by (simp_all add: statements_agreeing_Some)
  have "runs (decide mode (classify_dialect s lx)) confirmed" if "s \<in> set ss" for s
  proof -
    have "kind_rank (classify_dialect s lx) \<le> kind_rank (classify_readings s rs)"
      using classify_readings_is_max [OF same(2)] assms(2) by blast
    moreover have "runs (decide mode (classify_readings s rs)) confirmed"
      using assms(1) that by (simp add: check_readings_ok Some)
    ultimately show ?thesis using runs_rank decide_mono_kind by blast
  qed
  with same show ?thesis by (simp add: check_dialect_ok)
qed

theorem readings_accept_what_each_accepts_witness:
  "check_confirmed_dialect ReadOnly False ''show x'' TRINO = Inr ()"
  by (rule readings_accept_what_each_accepts [OF show_example_checked]) simp



text \<open>
  A stricter mode accepts no more scripts than a laxer one, whatever the readings and with the same
  confirmation, and \<open>full\<close> accepts every script.
\<close>
theorem stricter_mode_accepts_less:
  assumes "strictness m \<le> strictness n" and "check_confirmed_readings n confirmed sql rs = Inr ()"
  shows "check_confirmed_readings m confirmed sql rs = Inr () \<and>
    check_confirmed_readings Full confirmed sql rs = Inr ()"
proof -
  have "runs (decide m k) confirmed" if "runs (decide n k) confirmed" for k
    using that runs_rank decide_mono_mode [OF assms(1)] by blast
  with assms(2) show ?thesis by (simp add: check_readings_ok split: option.splits)
qed

theorem stricter_mode_accepts_less_witness:
  "check_confirmed_readings NoDdl False ''show x'' [TRINO] = Inr ()"
  by (rule conjunct1 [OF stricter_mode_accepts_less [OF _ show_example_checked]]) simp

text \<open>
  A refusal names the first statement that does not run: the error's index is its position from 1,
  its kind is that statement's kind, and every statement before it would have run.
\<close>
theorem refusal_names_the_first:
  assumes "check_confirmed_dialect mode confirmed sql lx = Inl err"
  shows "\<exists>i reason. i < length (statements_dialect sql lx) \<and>
    (let s = statements_dialect sql lx ! i; k = classify_dialect s lx in
       (err = Refused mode (i + 1) k reason (snippet s) \<and> decide mode k = Refuse \<or>
        err = NeedsConfirmation mode (i + 1) k reason (snippet s) \<and> decide mode k = AskConfirm \<and>
          \<not> confirmed)) \<and>
    list_all (\<lambda>s. runs (decide mode (classify_dialect s lx)) confirmed) (take i (statements_dialect sql lx))"
proof -
  let ?ss = "statements_dialect sql lx"
  let ?d = "\<lambda>(i, s). (let kind = classify_dialect s lx in
      \<lparr>sd_index = i, sd_kind = kind, sd_statement = s, sd_decision = decide mode kind,
       sd_reason = refusal mode kind\<rparr>)"
  from assms have "find_map (\<lambda>d. refusal_error d mode confirmed) (map ?d (numbered 1 ?ss)) = Some err"
    by (simp add: check_confirmed_dialect_def decisions_dialect_def)
  from find_map_Some [OF this] obtain ys x zs where split: "map ?d (numbered 1 ?ss) = ys @ x # zs"
    and err: "refusal_error x mode confirmed = Some err"
    and before: "\<forall>z \<in> set ys. refusal_error z mode confirmed = None" by blast
  from split obtain us i s vs where n: "numbered 1 ?ss = us @ (i, s) # vs"
    and ys: "ys = map ?d us" and x: "x = ?d (i, s)"
    by (auto simp: map_eq_append_conv map_eq_Cons_conv)
  from in_numbered_nth [OF n] have pos: "i = Suc (length us)" "length us < length ?ss"
    "?ss ! length us = s" "map snd us = take (length us) ?ss" by simp_all
  have "list_all (\<lambda>s. runs (decide mode (classify_dialect s lx)) confirmed) (map snd us)"
    using before by (auto simp: ys list_all_iff refusal_error_None Let_def split: prod.splits)
  with pos err show ?thesis
    by (intro exI [of _ "length us"]
        exI [of _ "case refusal mode (classify_dialect s lx) of Some r \<Rightarrow> r | None \<Rightarrow> ''this statement is not allowed here''"])
       (auto simp: x refusal_error_def Let_def split: decision.splits if_splits)
qed

theorem refusal_names_the_first_witness:
  "\<exists>i reason. i < length (statements_dialect ''x'' TRINO) \<and>
    (let s = statements_dialect ''x'' TRINO ! i; k = classify_dialect s TRINO in
       (Refused ReadOnly 1 Unknown
          (''the classifier could not tell whether this statement is read-only, and '' @
           ''a read-only connection refuses an unclassified statement'') ''x'' =
          Refused ReadOnly (i + 1) k reason (snippet s) \<and> decide ReadOnly k = Refuse \<or>
        Refused ReadOnly 1 Unknown
          (''the classifier could not tell whether this statement is read-only, and '' @
           ''a read-only connection refuses an unclassified statement'') ''x'' =
          NeedsConfirmation ReadOnly (i + 1) k reason (snippet s) \<and> decide ReadOnly k = AskConfirm \<and>
          \<not> False)) \<and>
    list_all (\<lambda>s. runs (decide ReadOnly (classify_dialect s TRINO)) False) (take i (statements_dialect ''x'' TRINO))"
  by (rule refusal_names_the_first) code_simp

text \<open>
  A statement that can open a stored program (it starts with \<open>CREATE\<close>, \<open>ALTER\<close> or \<open>BEGIN\<close>) runs in no
  mode but \<open>full\<close>, confirmed or not, so what the splitter keeps in one piece cannot slip past Safe Mode.
\<close>
theorem opener_is_refused:
  assumes "leading_keyword (scan_dialect s lx) = Some w" and "w \<in> {''CREATE'', ''ALTER'', ''BEGIN''}"
    and "mode \<noteq> Full"
  shows "decide mode (classify_dialect s lx) = Refuse"
  using opener_kind [of s lx w] assms by (cases mode) auto

theorem opener_is_refused_witness:
  "decide NoDdl (classify_dialect ''begin'' MYSQL) = Refuse"
  by (rule opener_is_refused [of _ _ "''BEGIN''"]) (code_simp, simp_all)

end
