(* ===== verification/Glob.thy ===== *)
theory Glob
  imports QHPrelude
begin

text \<open>
  The \<open>*\<close>/\<open>?\<close> matcher of \<^verbatim>\<open>crates/qh-tunnel/src/pattern.rs\<close>, shared by \<open>known_hosts\<close> patterns and
  \<open>ssh_config\<close> host lines. The source's loop backtracks to the last star only; it is
  \<open>partial_function\<close> here, so that its termination is a theorem (\<open>glob_loop_returns\<close>).

  \<open>glob_spec\<close> is the reference: the textbook recursive matcher, exponential in the number of stars. The
  loop agrees with it on every text without a literal \<open>*\<close>, and \<open>glob_star_text\<close> shows why the
  hypothesis is there.
\<close>

record glob_state =
  g_p :: nat
  g_t :: nat
  g_star :: "nat option"
  g_resume :: nat

definition glob_init :: glob_state where
  "glob_init = \<lparr>g_p = 0, g_t = 0, g_star = None, g_resume = 0\<rparr>"

text \<open>One turn of the loop, \<open>None\<close> for its \<open>return false\<close>.\<close>

definition glob_turn :: "bytes \<Rightarrow> bytes \<Rightarrow> glob_state \<Rightarrow> glob_state option" where
  "glob_turn pat txt s =
     (if g_p s < length pat \<and> (pat ! g_p s = CHR ''?'' \<or> pat ! g_p s = txt ! g_t s) then
        Some (s\<lparr>g_p := g_p s + 1, g_t := g_t s + 1\<rparr>)
      else if g_p s < length pat \<and> pat ! g_p s = CHR ''*'' then
        Some (s\<lparr>g_star := Some (g_p s), g_resume := g_t s, g_p := g_p s + 1\<rparr>)
      else (case g_star s of
              Some star \<Rightarrow> Some (s\<lparr>g_p := star + 1, g_resume := g_resume s + 1, g_t := g_resume s + 1\<rparr>)
            | None \<Rightarrow> None))"

partial_function (option) glob_loop :: "bytes \<Rightarrow> bytes \<Rightarrow> glob_state \<Rightarrow> bool option" where
  "glob_loop pat txt s =
     (if g_t s < length txt then
        (case glob_turn pat txt s of
           Some s' \<Rightarrow> glob_loop pat txt s'
         | None \<Rightarrow> Some False)
      else Some (skip_while (\<lambda>c. c = CHR ''*'') pat (g_p s) = length pat))"

definition glob :: "bytes \<Rightarrow> bytes \<Rightarrow> bool option" where
  "glob pat txt = glob_loop pat txt glob_init"

section \<open>The reference\<close>

fun glob_spec :: "bytes \<Rightarrow> bytes \<Rightarrow> bool" where
  "glob_spec [] ts = (ts = [])"
| "glob_spec (c # ps) [] = (c = CHR ''*'' \<and> glob_spec ps [])"
| "glob_spec (c # ps) (t # ts) =
     (if c = CHR ''*'' then glob_spec ps (t # ts) \<or> glob_spec (c # ps) ts
      else (c = CHR ''?'' \<or> c = t) \<and> glob_spec ps ts)"

lemma glob_spec_star: "glob_spec (CHR ''*'' # ps) ts \<longleftrightarrow> (\<exists>n \<le> length ts. glob_spec ps (drop n ts))"
proof (induction ts)
  case (Cons t ts)
  show ?case
  proof
    assume "glob_spec (CHR ''*'' # ps) (t # ts)"
    then consider "glob_spec ps (t # ts)" | "glob_spec (CHR ''*'' # ps) ts" by auto
    then show "\<exists>n \<le> length (t # ts). glob_spec ps (drop n (t # ts))"
    proof cases
      case 2
      with Cons.IH obtain n where "n \<le> length ts" "glob_spec ps (drop n ts)" by blast
      then show ?thesis by (intro exI [of _ "Suc n"]) simp
    qed (auto intro: exI [of _ 0])
  next
    assume "\<exists>n \<le> length (t # ts). glob_spec ps (drop n (t # ts))"
    then obtain n where n: "n \<le> Suc (length ts)" "glob_spec ps (drop n (t # ts))" by auto
    show "glob_spec (CHR ''*'' # ps) (t # ts)"
    proof (cases n)
      case (Suc m)
      with n have "\<exists>n \<le> length ts. glob_spec ps (drop n ts)" by auto
      with Cons.IH show ?thesis by simp
    qed (use n in simp)
  qed
qed simp

text \<open>A part of the pattern without a star matches exactly as many bytes as it has.\<close>

definition seg_matches :: "bytes \<Rightarrow> bytes \<Rightarrow> bool" where
  "seg_matches seg ts \<longleftrightarrow> list_all2 (\<lambda>c t. c \<noteq> CHR ''*'' \<and> (c = CHR ''?'' \<or> c = t)) seg ts"

lemma glob_spec_seg:
  "CHR ''*'' \<notin> set seg \<Longrightarrow> glob_spec (seg @ ps) ts \<longleftrightarrow>
     length seg \<le> length ts \<and> seg_matches seg (take (length seg) ts) \<and> glob_spec ps (drop (length seg) ts)"
proof (induction seg arbitrary: ts)
  case (Cons c seg)
  then show ?case by (cases ts) (auto simp: seg_matches_def)
qed (simp add: seg_matches_def)

lemma seg_matches_snoc:
  "seg_matches (seg @ [c]) (ts @ [t]) \<longleftrightarrow> seg_matches seg ts \<and> c \<noteq> CHR ''*'' \<and> (c = CHR ''?'' \<or> c = t)"
  if "length seg = length ts"
  using that by (auto simp: seg_matches_def list_all2_append)

section \<open>The loop returns\<close>

definition glob_measure :: "bytes \<Rightarrow> bytes \<Rightarrow> glob_state \<Rightarrow> nat \<times> nat \<times> nat" where
  "glob_measure pat txt s = (length txt - g_resume s, length txt - g_t s, length pat - g_p s)"

lemma glob_induct [case_names less]:
  assumes "\<And>s. (\<And>s'. (glob_measure pat txt s', glob_measure pat txt s)
      \<in> less_than <*lex*> less_than <*lex*> less_than \<Longrightarrow> P s') \<Longrightarrow> P s"
  shows "P s"
proof -
  have "wf (inv_image (less_than <*lex*> less_than <*lex*> less_than) (glob_measure pat txt))"
    by (intro wf_inv_image wf_lex_prod wf_less_than)
  then show ?thesis by (induction s rule: wf_induct_rule) (rule assms, simp add: inv_image_def)
qed

lemma glob_turn_progress:
  assumes "g_t s < length txt" "g_resume s \<le> g_t s" "glob_turn pat txt s = Some s'"
  shows "(glob_measure pat txt s', glob_measure pat txt s) \<in> less_than <*lex*> less_than <*lex*> less_than"
    and "g_resume s' \<le> g_t s'"
  using assms by (auto simp: glob_turn_def glob_measure_def split: if_splits option.splits)

lemma glob_loop_returns: "g_resume s \<le> g_t s \<Longrightarrow> \<exists>r. glob_loop pat txt s = Some r"
proof (induction s rule: glob_induct [of pat "txt"])
  case (less s)
  show ?case
  proof (cases "g_t s < length txt \<and> glob_turn pat txt s \<noteq> None")
    case True
    then obtain n where n: "glob_turn pat txt s = Some n" by blast
    have "\<exists>r. glob_loop pat txt n = Some r"
      using glob_turn_progress [OF _ less.prems n] True by (intro less.IH) simp_all
    with True n show ?thesis by (simp add: glob_loop.simps [of pat "txt" s])
  next
    case False
    then show ?thesis by (subst glob_loop.simps) auto
  qed
qed

section \<open>The loop agrees with the reference\<close>

text \<open>What the loop still has to decide in a state.\<close>

definition glob_pending :: "bytes \<Rightarrow> bytes \<Rightarrow> glob_state \<Rightarrow> bool" where
  "glob_pending pat txt s \<longleftrightarrow>
     glob_spec (drop (g_p s) pat) (drop (g_t s) txt) \<or>
     (\<exists>star. g_star s = Some star \<and> glob_spec (drop star pat) (drop (g_resume s + 1) txt))"

text \<open>Since the last star, the pattern has matched the text byte for byte.\<close>

definition glob_inv :: "bytes \<Rightarrow> bytes \<Rightarrow> glob_state \<Rightarrow> bool" where
  "glob_inv pat txt s \<longleftrightarrow>
     g_p s \<le> length pat \<and> g_resume s \<le> g_t s \<and> g_t s \<le> length txt \<and>
     (\<forall>star. g_star s = Some star \<longrightarrow>
        star < g_p s \<and> pat ! star = CHR ''*'' \<and> g_t s - g_resume s = g_p s - (star + 1) \<and>
        CHR ''*'' \<notin> set (slice pat (star + 1) (g_p s)))"

lemma slice_snoc: "a \<le> b \<Longrightarrow> b < length xs \<Longrightarrow> slice xs a (b + 1) = slice xs a b @ [xs ! b]"
  using slice_append_slice [of a b "b + 1" xs]
  by (simp add: slice_def take_Suc_conv_app_nth Suc_diff_le)

text \<open>A match later in the text can be traded for one here, since the star takes what lies between.\<close>

lemma later_match:
  assumes inv: "glob_inv pat txt s" "g_star s = Some star"
    and later: "glob_spec (drop star pat) (drop (g_resume s + 1) txt)"
  shows "\<exists>n. glob_spec (drop (g_p s) pat) (drop (g_t s + n) txt)"
proof -
  let ?seg = "slice pat (star + 1) (g_p s)"
  from inv have i: "star < g_p s" "g_p s \<le> length pat" "pat ! star = CHR ''*''"
    "g_t s - g_resume s = g_p s - (star + 1)" "CHR ''*'' \<notin> set ?seg" "g_resume s \<le> g_t s"
    by (auto simp: glob_inv_def)
  have "drop star pat = pat ! star # drop (star + 1) pat"
    using Cons_nth_drop_Suc [of star pat] i(1,2) by simp
  moreover have "drop (star + 1) pat = ?seg @ drop (g_p s) pat"
    using i(1) by (simp add: slice_def) (metis add.commute append_take_drop_id drop_drop le_add_diff_inverse Suc_leI)
  ultimately have "glob_spec (CHR ''*'' # ?seg @ drop (g_p s) pat) (drop (g_resume s + 1) txt)"
    using later i(3) by simp
  then obtain n where n: "n \<le> length (drop (g_resume s + 1) txt)"
    "glob_spec (?seg @ drop (g_p s) pat) (drop n (drop (g_resume s + 1) txt))"
    unfolding glob_spec_star by blast
  have len: "length ?seg = g_t s - g_resume s" using i by simp
  from n(2) glob_spec_seg [OF i(5)] have m: "length ?seg \<le> length (drop n (drop (g_resume s + 1) txt))"
    "glob_spec (drop (g_p s) pat) (drop (length ?seg) (drop n (drop (g_resume s + 1) txt)))" by blast+
  have "length ?seg + (n + (g_resume s + 1)) = g_t s + (n + 1)" using len i(6) by simp
  then have "drop (length ?seg) (drop n (drop (g_resume s + 1) txt)) = drop (g_t s + (n + 1)) txt"
    by (metis drop_drop)
  with m(2) show ?thesis by (intro exI [of _ "n + 1"]) simp
qed

lemma star_absorbs: "glob_spec (CHR ''*'' # ps) (drop (t + n) ts) \<Longrightarrow> glob_spec (CHR ''*'' # ps) (drop t ts)"
proof -
  assume "glob_spec (CHR ''*'' # ps) (drop (t + n) ts)"
  then obtain m where "m \<le> length (drop (t + n) ts)" "glob_spec ps (drop m (drop (t + n) ts))"
    unfolding glob_spec_star by blast
  moreover have "drop m (drop (t + n) ts) = drop (min (length (drop t ts)) (m + n)) (drop t ts)"
    by (simp add: add.commute add.left_commute min_def)
  ultimately show ?thesis unfolding glob_spec_star by (metis min.cobounded1)
qed

text \<open>One turn keeps the invariant and what is still to be decided.\<close>

lemma glob_turn_correct:
  assumes inv: "glob_inv pat txt s" and t: "g_t s < length txt" and star: "CHR ''*'' \<notin> set txt"
  shows "case glob_turn pat txt s of
      Some s' \<Rightarrow> glob_inv pat txt s' \<and> (glob_pending pat txt s' \<longleftrightarrow> glob_pending pat txt s)
    | None \<Rightarrow> \<not> glob_pending pat txt s"
proof -
  let ?c = "pat ! g_p s" and ?b = "txt ! g_t s"
  have b: "?b \<noteq> CHR ''*''" using t star by (metis nth_mem)
  have dt: "drop (g_t s) txt = ?b # drop (g_t s + 1) txt" using t by (simp add: Cons_nth_drop_Suc)
  have dp: "drop (g_p s) pat = ?c # drop (g_p s + 1) pat" if "g_p s < length pat"
    using that by (simp add: Cons_nth_drop_Suc)
  consider (same) "g_p s < length pat" "?c = CHR ''?'' \<or> ?c = ?b"
    | (opens) "g_p s < length pat" "\<not> (?c = CHR ''?'' \<or> ?c = ?b)" "?c = CHR ''*''"
    | (stuck) "g_p s < length pat \<longrightarrow> \<not> (?c = CHR ''?'' \<or> ?c = ?b) \<and> ?c \<noteq> CHR ''*''" by blast
  then show ?thesis
  proof cases
    case same
    let ?s = "s\<lparr>g_p := g_p s + 1, g_t := g_t s + 1\<rparr>"
    have turn: "glob_turn pat txt s = Some ?s" using same by (auto simp: glob_turn_def)
    have c: "?c \<noteq> CHR ''*''" using same b by auto
    have "glob_inv pat txt ?s"
      using inv same(1) t c slice_snoc [of _ "g_p s" pat]
      by (auto simp: glob_inv_def Suc_diff_le)
    moreover have "glob_spec (drop (g_p s) pat) (drop (g_t s) txt) \<longleftrightarrow>
        glob_spec (drop (g_p s + 1) pat) (drop (g_t s + 1) txt)"
      unfolding dt dp [OF same(1)] using c same(2) by simp
    ultimately show ?thesis by (simp add: turn glob_pending_def)
  next
    case opens
    let ?s = "s\<lparr>g_star := Some (g_p s), g_resume := g_t s, g_p := g_p s + 1\<rparr>"
    have turn: "glob_turn pat txt s = Some ?s" using opens by (auto simp: glob_turn_def)
    have "glob_inv pat txt ?s" using inv opens by (auto simp: glob_inv_def)
    moreover have pat: "drop (g_p s) pat = CHR ''*'' # drop (g_p s + 1) pat" using dp opens by simp
    have "glob_pending pat txt s \<longleftrightarrow> glob_spec (drop (g_p s) pat) (drop (g_t s) txt)"
    proof -
      have "glob_spec (drop (g_p s) pat) (drop (g_t s) txt)"
        if "g_star s = Some st" "glob_spec (drop st pat) (drop (g_resume s + 1) txt)" for st
        using later_match [OF inv that] star_absorbs unfolding pat by blast
      then show ?thesis by (auto simp: glob_pending_def)
    qed
    moreover have "glob_pending pat txt ?s \<longleftrightarrow> glob_spec (drop (g_p s) pat) (drop (g_t s) txt)"
    proof -
      have "glob_pending pat txt ?s \<longleftrightarrow> glob_spec (drop (g_p s + 1) pat) (drop (g_t s) txt) \<or>
          glob_spec (drop (g_p s) pat) (drop (g_t s + 1) txt)"
        by (simp add: glob_pending_def)
      also have "\<dots> \<longleftrightarrow> glob_spec (drop (g_p s) pat) (drop (g_t s) txt)"
        unfolding dt pat by simp
      finally show ?thesis .
    qed
    ultimately show ?thesis by (simp add: turn)
  next
    case stuck
    have no: "\<not> glob_spec (drop (g_p s) pat) (drop (g_t s) txt)"
    proof (cases "g_p s < length pat")
      case True
      with stuck show ?thesis unfolding dt dp [OF True] by simp
    qed (simp add: dt)
    show ?thesis
    proof (cases "g_star s")
      case None
      with stuck have "glob_turn pat txt s = None" by (auto simp: glob_turn_def)
      with None no show ?thesis by (simp add: glob_pending_def)
    next
      case (Some st)
      let ?s = "s\<lparr>g_p := st + 1, g_resume := g_resume s + 1, g_t := g_resume s + 1\<rparr>"
      have turn: "glob_turn pat txt s = Some ?s" using Some stuck by (auto simp: glob_turn_def)
      have st: "st < length pat" "pat ! st = CHR ''*''" "g_resume s < length txt"
        using inv Some t by (auto simp: glob_inv_def)
      then have "glob_inv pat txt ?s" using inv Some by (auto simp: glob_inv_def)
      moreover have "glob_spec (drop st pat) (drop (g_resume s + 1) txt) \<longleftrightarrow>
          glob_spec (drop (st + 1) pat) (drop (g_resume s + 1) txt) \<or>
          glob_spec (drop st pat) (drop (g_resume s + 1 + 1) txt)"
      proof -
        have d: "drop st pat = CHR ''*'' # drop (st + 1) pat"
          using st Cons_nth_drop_Suc [of st pat] by simp
        have e: "drop (g_resume s + 1 + 1) txt = drop 1 (drop (g_resume s + 1) txt)" by simp
        show ?thesis unfolding d e by (cases "drop (g_resume s + 1) txt") simp_all
      qed
      ultimately show ?thesis
        using no Some by (simp add: turn glob_pending_def)
    qed
  qed
qed

lemma glob_loop_correct:
  assumes "CHR ''*'' \<notin> set txt"
  shows "glob_inv pat txt s \<Longrightarrow> glob_loop pat txt s = Some (glob_pending pat txt s)"
proof (induction s rule: glob_induct [of pat "txt"])
  case (less s)
  note inv = less.prems
  show ?case
  proof (cases "g_t s < length txt")
    case True
    note turn = glob_turn_correct [OF inv True assms]
    show ?thesis
    proof (cases "glob_turn pat txt s")
      case None
      with turn True show ?thesis by (simp add: glob_loop.simps [of pat "txt" s])
    next
      case (Some s')
      from inv have "g_resume s \<le> g_t s" by (simp add: glob_inv_def)
      from glob_turn_progress(1) [OF True this Some] less.IH [of s'] turn Some True
      show ?thesis by (simp add: glob_loop.simps [of pat "txt" s])
    qed
  next
    case False
    with inv have t: "g_t s = length txt" by (simp add: glob_inv_def)
    have "glob_spec (drop (g_p s) pat) []"
      if "g_star s = Some st" "glob_spec (drop st pat) (drop (g_resume s + 1) txt)" for st
      using later_match [OF inv that] t by simp
    then have "glob_pending pat txt s \<longleftrightarrow> glob_spec (drop (g_p s) pat) []"
      using t by (auto simp: glob_pending_def)
    also have "\<dots> \<longleftrightarrow> skip_while (\<lambda>c. c = CHR ''*'') pat (g_p s) = length pat"
    proof -
      have "glob_spec (drop i pat) [] \<longleftrightarrow> skip_while (\<lambda>c. c = CHR ''*'') pat i = length pat"
        if "i \<le> length pat" for i
        using that
      proof (induction "length pat - i" arbitrary: i)
        case 0
        then show ?case by (simp add: skip_while_past)
      next
        case (Suc n)
        then have i: "i < length pat" by simp
        then have d: "drop i pat = pat ! i # drop (i + 1) pat" by (simp add: Cons_nth_drop_Suc)
        have "glob_spec (drop (i + 1) pat) [] \<longleftrightarrow>
            skip_while (\<lambda>c. c = CHR ''*'') pat (i + 1) = length pat"
          using Suc.hyps(2) i by (intro Suc.hyps(1)) auto
        with i show ?case unfolding d by (subst skip_while.simps) auto
      qed
      with inv show ?thesis by (simp add: glob_inv_def)
    qed
    finally show ?thesis using False by (subst glob_loop.simps) simp
  qed
qed

lemma glob_star_text: "glob ''*'' ''*a'' = Some False" "glob_spec ''*'' ''*a''"
  by (simp add: glob_def glob_init_def glob_loop.simps glob_turn_def skip_while.simps) code_simp

lemma glob_reference: "CHR ''*'' \<notin> set txt \<Longrightarrow> glob pat txt = Some (glob_spec pat txt)"
  using glob_loop_correct [of "txt" pat glob_init]
  by (simp add: glob_def glob_init_def glob_inv_def glob_pending_def)

text \<open>A pattern without wild cards matches itself only.\<close>

lemma glob_spec_literal: "CHR ''*'' \<notin> set pat \<Longrightarrow> CHR ''?'' \<notin> set pat \<Longrightarrow> glob_spec pat ts \<longleftrightarrow> pat = ts"
  by (induction pat ts rule: glob_spec.induct) auto

section \<open>Properties\<close>

text \<open>
  The host pattern matcher returns on every pattern and text, however many stars the pattern has.
\<close>
theorem glob_returns: "\<exists>r. glob pat txt = Some r"
  unfolding glob_def by (rule glob_loop_returns) (simp add: glob_init_def)

text \<open>
  C26. The matcher that backtracks to the last star only is the recursive matcher: on every text that
  has no literal \<open>*\<close> (no host name has one), it says what the reference says.
\<close>
theorem glob_is_reference:
  assumes "CHR ''*'' \<notin> set txt"
  shows "glob pat txt = Some (glob_spec pat txt)"
  by (rule glob_reference [OF assms])

theorem glob_is_reference_witness: "glob ''*.b'' ''a.b'' = Some (glob_spec ''*.b'' ''a.b'')"
  by (rule glob_is_reference) simp

end
