(* ===== verification/KnownHosts.thy ===== *)
theory KnownHosts
  imports Glob CivilDate TextOps
begin

text \<open>
  The host keys of the SSH tunnel (\<^verbatim>\<open>crates/qh-tunnel/src/known_hosts.rs\<close>, \<^verbatim>\<open>key.rs\<close>) and the decision whether a
  server's key is trusted (\<open>HostKeyVerifier::decide\<close> of \<^verbatim>\<open>tunnel.rs\<close>).

  \<open>ssh_fns\<close> holds what the crates \<^verbatim>\<open>base64\<close>, \<^verbatim>\<open>sha2\<close> and \<^verbatim>\<open>hmac\<close> compute. The disk is a map from a path to
  what \<open>open\<close>, \<open>fstat\<close> and \<open>read_to_string\<close> say of it (\<open>stored\<close>); a write happens as a whole or fails. A path
  is its display form.
\<close>

type_synonym path = bytes

record ssh_fns =
  sk_decode :: "bytes \<Rightarrow> bytes option"
  sk_encode :: "bytes \<Rightarrow> bytes"
  sk_digest :: "bytes \<Rightarrow> bytes"
  sk_hmac :: "bytes \<Rightarrow> bytes \<Rightarrow> bytes"

record stored =
  st_opens :: bool
  st_symlink :: bool
  st_regular :: bool
  st_uid :: nat
  st_mode :: nat
  st_text :: "bytes option"

record ssh_world =
  sw_disk :: "path \<Rightarrow> stored option"
  sw_dirs :: "path \<Rightarrow> bool"
  sw_writes :: "path \<Rightarrow> bool"
  sw_now :: nat
  sw_euid :: nat

section \<open>Keys\<close>

record server_key =
  key_type :: bytes
  key_blob :: bytes

definition be_u32 :: "bytes \<Rightarrow> nat" where
  "be_u32 s = foldl (\<lambda>n c. n * 256 + byte_val c) 0 s"

definition is_ascii_graphic :: "byte \<Rightarrow> bool" where
  "is_ascii_graphic c \<longleftrightarrow> 33 \<le> byte_val c \<and> byte_val c \<le> 126"

text \<open>A name of graphic bytes is UTF-8, so the source's check of that adds nothing.\<close>

definition key_type_of :: "bytes \<Rightarrow> bytes option" where
  "key_type_of blob =
     (if length blob < 4 then None
      else (let len = be_u32 (take 4 blob); rest = drop 4 blob in
            if length rest < len then None
            else (let name = take len rest; key_data = drop len rest in
                  if name = [] \<or> \<not> list_all is_ascii_graphic name \<or> key_data = [] then None else Some name)))"

definition fingerprint :: "ssh_fns \<Rightarrow> bytes \<Rightarrow> bytes" where
  "fingerprint sk blob = ''SHA256:'' @ sk_digest sk blob"

datatype origin = OriginApp | OriginUser | OriginSystem

fun origin_str :: "origin \<Rightarrow> bytes" where
  "origin_str OriginApp = ''app''"
| "origin_str OriginUser = ''user''"
| "origin_str OriginSystem = ''system''"

record store_file =
  sf_path :: path
  sf_origin :: origin

record recorded_key =
  rk_type :: bytes
  rk_blob :: bytes
  rk_line :: nat
  rk_file :: "path option"
  rk_origin :: "origin option"

definition pinned_record :: "server_key \<Rightarrow> recorded_key" where
  "pinned_record key = \<lparr>rk_type = key_type key, rk_blob = key_blob key, rk_line = 0, rk_file = None, rk_origin = None\<rparr>"

datatype ssh_error =
    MalformedKnownHosts bytes nat
  | KnownHostsUnreadable path
  | MalformedKeyBlob
  | HostKeyStoreUnsafe path bytes
  | SshIo
  | SshUsage bytes
  | HostKeyNotVerified
  | HostKeyUnknown bytes nat path server_key bool
  | HostKeyMismatch bytes nat path server_key "recorded_key list"
  | HostKeyRevoked bytes nat path nat
  | HostKeyCertificateExpected bytes nat server_key path
  | HostKeyPinMismatch bytes nat server_key bytes bytes
  | HostKeyRecordFailed bytes nat server_key path ssh_error
  | HostCertificateUnsupported bytes nat bytes

datatype host_key_verdict =
    KeyMatched
  | KeyUnknown bytes bool
  | KeyMismatch "recorded_key list"
  | KeyRevoked nat "path option"

definition from_blob :: "bytes \<Rightarrow> ssh_error + server_key" where
  "from_blob blob =
     (case key_type_of blob of
        Some t \<Rightarrow> Inr \<lparr>key_type = t, key_blob = blob\<rparr>
      | None \<Rightarrow> Inl MalformedKeyBlob)"

definition host_spelling :: "bytes \<Rightarrow> nat \<Rightarrow> bytes" where
  "host_spelling host port = (if port = 22 then host else ''['' @ host @ '']:'' @ nat_bytes port)"

definition known_hosts_line :: "ssh_fns \<Rightarrow> server_key \<Rightarrow> bytes \<Rightarrow> nat \<Rightarrow> bytes" where
  "known_hosts_line sk key host port =
     host_spelling host port @ '' '' @ key_type key @ '' '' @ sk_encode sk (key_blob key)"

section \<open>Host patterns\<close>

text \<open>\<open>glob\<close> returns on every input (\<open>glob_returns\<close>).\<close>

definition glob_matches :: "bytes \<Rightarrow> bytes \<Rightarrow> bool" where
  "glob_matches pat s \<longleftrightarrow> glob pat s = Some True"

definition hashed_matches :: "ssh_fns \<Rightarrow> bytes \<Rightarrow> bytes \<Rightarrow> bool" where
  "hashed_matches sk hashed host =
     (case split_on (CHR ''|'') hashed of
        [salt, hash] \<Rightarrow>
          (case (sk_decode sk salt, sk_decode sk hash) of
             (Some salt, Some hash) \<Rightarrow> sk_hmac sk salt host = hash
           | _ \<Rightarrow> False)
      | _ \<Rightarrow> False)"

definition pattern_matches :: "ssh_fns \<Rightarrow> bytes \<Rightarrow> bytes \<Rightarrow> bool" where
  "pattern_matches sk pat host =
     (if prefix ''|1|'' pat then hashed_matches sk (drop 3 pat) host else glob_matches (to_ascii_lowercase pat) host)"

fun match_list :: "ssh_fns \<Rightarrow> bytes list \<Rightarrow> bytes \<Rightarrow> bool \<Rightarrow> bool" where
  "match_list sk [] host positive = positive"
| "match_list sk (pat # pats) host positive =
     (if pat = [] then match_list sk pats host positive
      else if hd pat = CHR ''!'' then
        (if pattern_matches sk (tl pat) host then False else match_list sk pats host positive)
      else match_list sk pats host (positive \<or> pattern_matches sk pat host))"

definition patterns_match :: "ssh_fns \<Rightarrow> bytes \<Rightarrow> bytes \<Rightarrow> bool" where
  "patterns_match sk patterns host = match_list sk (split_on (CHR '','') patterns) (to_ascii_lowercase host) False"

section \<open>Lines\<close>

datatype marker = CertAuthority | Revoked

record kh_entry =
  ke_marker :: "marker option"
  ke_patterns :: bytes
  ke_type :: bytes
  ke_blob :: bytes

text \<open>The marker and the host patterns, and what is left of the fields.\<close>

definition entry_head :: "bytes list \<Rightarrow> (marker option \<times> bytes \<times> bytes list) option" where
  "entry_head ws =
     (case ws of
        [] \<Rightarrow> None
      | first # rest \<Rightarrow>
          if first = ''@cert-authority'' then
            (case rest of p # r \<Rightarrow> Some (Some CertAuthority, p, r) | [] \<Rightarrow> None)
          else if first = ''@revoked'' then (case rest of p # r \<Rightarrow> Some (Some Revoked, p, r) | [] \<Rightarrow> None)
          else if prefix ''@'' first then None
          else Some (None, first, rest))"

definition parse_entry :: "ssh_fns \<Rightarrow> bytes \<Rightarrow> bytes \<Rightarrow> nat \<Rightarrow> ssh_error + kh_entry option" where
  "parse_entry sk raw source line =
     (let raw = trim raw; malformed = Inl (MalformedKnownHosts source line) in
      if raw = [] \<or> hd raw = CHR ''#'' then Inr None
      else (case entry_head (split_whitespace raw) of
              Some (m, patterns, token # body # comment) \<Rightarrow>
                (case sk_decode sk body of
                   None \<Rightarrow> malformed
                 | Some blob \<Rightarrow>
                     (case key_type_of blob of
                        None \<Rightarrow> malformed
                      | Some t \<Rightarrow>
                          if t \<noteq> token then malformed
                          else Inr (Some \<lparr>ke_marker = m, ke_patterns = patterns, ke_type = t, ke_blob = blob\<rparr>)))
            | _ \<Rightarrow> malformed))"

section \<open>One host and one key\<close>

record kh_scan =
  ks_recorded :: "recorded_key list"
  ks_matched :: bool
  ks_ca_covered :: bool
  ks_revoked :: "(path option \<times> nat) option"

definition scan_new :: kh_scan where
  "scan_new = \<lparr>ks_recorded = [], ks_matched = False, ks_ca_covered = False, ks_revoked = None\<rparr>"

definition add_entry :: "bytes \<Rightarrow> (path \<times> origin) option \<Rightarrow> nat \<Rightarrow> kh_entry \<Rightarrow> kh_scan \<Rightarrow> kh_scan" where
  "add_entry blob from_file line e s =
     (case ke_marker e of
        Some CertAuthority \<Rightarrow> s\<lparr>ks_ca_covered := True\<rparr>
      | Some Revoked \<Rightarrow>
          if ke_blob e = blob \<and> ks_revoked s = None then s\<lparr>ks_revoked := Some (map_option fst from_file, line)\<rparr> else s
      | None \<Rightarrow>
          if ke_blob e = blob then s\<lparr>ks_matched := True\<rparr>
          else s\<lparr>ks_recorded := ks_recorded s @ [\<lparr>rk_type = ke_type e, rk_blob = ke_blob e, rk_line = line,
                   rk_file = map_option fst from_file, rk_origin = map_option snd from_file\<rparr>]\<rparr>)"

fun add_lines :: "ssh_fns \<Rightarrow> bytes \<Rightarrow> bytes \<Rightarrow> bytes \<Rightarrow> (path \<times> origin) option \<Rightarrow> nat \<Rightarrow> bytes list \<Rightarrow> kh_scan
    \<Rightarrow> ssh_error + kh_scan" where
  "add_lines sk spelling blob source from_file line [] s = Inr s"
| "add_lines sk spelling blob source from_file line (raw # raws) s =
     (case parse_entry sk raw source line of
        Inl e \<Rightarrow> Inl e
      | Inr None \<Rightarrow> add_lines sk spelling blob source from_file (line + 1) raws s
      | Inr (Some e) \<Rightarrow>
          add_lines sk spelling blob source from_file (line + 1) raws
            (if patterns_match sk (ke_patterns e) spelling then add_entry blob from_file line e s else s))"

definition add_text :: "ssh_fns \<Rightarrow> bytes \<Rightarrow> bytes \<Rightarrow> bytes \<Rightarrow> bytes \<Rightarrow> (path \<times> origin) option \<Rightarrow> kh_scan
    \<Rightarrow> ssh_error + kh_scan" where
  "add_text sk spelling blob s source from_file scan = add_lines sk spelling blob source from_file 1 (text_lines s) scan"

definition scan_finish :: "ssh_fns \<Rightarrow> bytes \<Rightarrow> kh_scan \<Rightarrow> host_key_verdict" where
  "scan_finish sk blob s =
     (case ks_revoked s of
        Some (file, line) \<Rightarrow> KeyRevoked line file
      | None \<Rightarrow>
          if ks_matched s then KeyMatched
          else if ks_recorded s \<noteq> [] then KeyMismatch (ks_recorded s)
          else KeyUnknown (fingerprint sk blob) (ks_ca_covered s))"

definition check_text :: "ssh_fns \<Rightarrow> bytes \<Rightarrow> bytes \<Rightarrow> bytes \<Rightarrow> nat \<Rightarrow> bytes \<Rightarrow> ssh_error + host_key_verdict" where
  "check_text sk s source host port blob =
     (case add_text sk (host_spelling host port) blob s source None scan_new of
        Inl e \<Rightarrow> Inl e
      | Inr scan \<Rightarrow> Inr (scan_finish sk blob scan))"

definition check_one :: "ssh_fns \<Rightarrow> (path \<Rightarrow> stored option) \<Rightarrow> path \<Rightarrow> bytes \<Rightarrow> nat \<Rightarrow> bytes \<Rightarrow> ssh_error + host_key_verdict" where
  "check_one sk disk p host port blob =
     (case disk p of
        None \<Rightarrow> check_text sk [] p host port blob
      | Some f \<Rightarrow>
          (case st_text f of Some s \<Rightarrow> check_text sk s p host port blob | None \<Rightarrow> Inl (KnownHostsUnreadable p)))"

section \<open>Files\<close>

text \<open>\<open>meta.mode() & 0o022\<close> are the bits 1 and 4.\<close>

definition unsafe_reason :: "nat \<Rightarrow> stored \<Rightarrow> bytes option" where
  "unsafe_reason euid f =
     (if \<not> st_regular f then Some ''is not a regular file''
      else if st_uid f \<noteq> euid then Some ''is owned by another user''
      else if bit (st_mode f) 1 \<or> bit (st_mode f) 4 then Some ''is writable by group or others''
      else None)"

definition new_store :: "nat \<Rightarrow> stored" where
  "new_store euid =
     \<lparr>st_opens = True, st_symlink = False, st_regular = True, st_uid = euid, st_mode = 384, st_text = Some []\<rparr>"

definition open_app_store :: "(path \<Rightarrow> stored option) \<Rightarrow> path \<Rightarrow> nat \<Rightarrow> bool \<Rightarrow> ssh_error + stored option" where
  "open_app_store disk p euid create =
     (case disk p of
        None \<Rightarrow> Inr (if create then Some (new_store euid) else None)
      | Some f \<Rightarrow>
          if st_symlink f then Inl (HostKeyStoreUnsafe p ''is a symbolic link'')
          else if \<not> st_opens f then Inl (if create then SshIo else KnownHostsUnreadable p)
          else (case unsafe_reason euid f of
                  Some reason \<Rightarrow> Inl (HostKeyStoreUnsafe p reason)
                | None \<Rightarrow> Inr (Some f)))"

definition read_store :: "(path \<Rightarrow> stored option) \<Rightarrow> store_file \<Rightarrow> nat \<Rightarrow> ssh_error + bytes" where
  "read_store disk file euid =
     (let p = sf_path file;
          contents = (\<lambda>f. case st_text f of Some s \<Rightarrow> Inr s | None \<Rightarrow> Inl (KnownHostsUnreadable p)) in
      if sf_origin file = OriginApp then
        (case open_app_store disk p euid False of
           Inl e \<Rightarrow> Inl e
         | Inr None \<Rightarrow> Inr []
         | Inr (Some f) \<Rightarrow> contents f)
      else (case disk p of None \<Rightarrow> Inr [] | Some f \<Rightarrow> contents f))"

fun add_files :: "ssh_fns \<Rightarrow> (path \<Rightarrow> stored option) \<Rightarrow> nat \<Rightarrow> bytes \<Rightarrow> bytes \<Rightarrow> store_file list \<Rightarrow> kh_scan
    \<Rightarrow> ssh_error + kh_scan" where
  "add_files sk disk euid spelling blob [] s = Inr s"
| "add_files sk disk euid spelling blob (file # files) s =
     (case read_store disk file euid of
        Inl e \<Rightarrow> Inl e
      | Inr contents \<Rightarrow>
          (case add_text sk spelling blob contents (sf_path file) (Some (sf_path file, sf_origin file)) s of
             Inl e \<Rightarrow> Inl e
           | Inr s' \<Rightarrow> add_files sk disk euid spelling blob files s'))"

definition check_all_as :: "ssh_fns \<Rightarrow> (path \<Rightarrow> stored option) \<Rightarrow> store_file list \<Rightarrow> bytes \<Rightarrow> nat \<Rightarrow> bytes \<Rightarrow> nat
    \<Rightarrow> ssh_error + host_key_verdict" where
  "check_all_as sk disk files host port blob euid =
     (case add_files sk disk euid (host_spelling host port) blob files scan_new of
        Inl e \<Rightarrow> Inl e
      | Inr scan \<Rightarrow> Inr (scan_finish sk blob scan))"

definition check_all :: "ssh_fns \<Rightarrow> ssh_world \<Rightarrow> store_file list \<Rightarrow> bytes \<Rightarrow> nat \<Rightarrow> bytes \<Rightarrow> ssh_error + host_key_verdict" where
  "check_all sk w files host port blob = check_all_as sk (sw_disk w) files host port blob (sw_euid w)"

fun line_types :: "ssh_fns \<Rightarrow> bytes \<Rightarrow> bytes \<Rightarrow> nat \<Rightarrow> bytes list \<Rightarrow> bytes list \<Rightarrow> ssh_error + bytes list" where
  "line_types sk spelling source line [] types = Inr types"
| "line_types sk spelling source line (raw # raws) types =
     (case parse_entry sk raw source line of
        Inl e \<Rightarrow> Inl e
      | Inr None \<Rightarrow> line_types sk spelling source (line + 1) raws types
      | Inr (Some e) \<Rightarrow>
          line_types sk spelling source (line + 1) raws
            (if ke_marker e = None \<and> patterns_match sk (ke_patterns e) spelling \<and> ke_type e \<notin> set types
             then types @ [ke_type e] else types))"

fun file_types :: "ssh_fns \<Rightarrow> ssh_world \<Rightarrow> bytes \<Rightarrow> store_file list \<Rightarrow> bytes list \<Rightarrow> ssh_error + bytes list" where
  "file_types sk w spelling [] types = Inr types"
| "file_types sk w spelling (file # files) types =
     (case read_store (sw_disk w) file (sw_euid w) of
        Inl e \<Rightarrow> Inl e
      | Inr contents \<Rightarrow>
          (case line_types sk spelling (sf_path file) 1 (text_lines contents) types of
             Inl e \<Rightarrow> Inl e
           | Inr types' \<Rightarrow> file_types sk w spelling files types'))"

definition recorded_key_types :: "ssh_fns \<Rightarrow> ssh_world \<Rightarrow> store_file list \<Rightarrow> bytes \<Rightarrow> nat \<Rightarrow> ssh_error + bytes list" where
  "recorded_key_types sk w files host port = file_types sk w (host_spelling host port) files []"

section \<open>Recording\<close>

definition is_valid_host :: "bytes \<Rightarrow> bool" where
  "is_valid_host host \<longleftrightarrow>
     1 \<le> length host \<and> length host \<le> 253 \<and> hd host \<noteq> CHR ''-'' \<and>
     list_all (\<lambda>c. is_ascii_alphanumeric c \<or> c \<in> set ''.-_:'') host"

text \<open>The date of \<open>utc_iso8601\<close> is computed in place, with Euclidean division.\<close>

definition utc_civil :: "int \<Rightarrow> int \<times> int \<times> int" where
  "utc_civil days =
     (let z = days + 719468; era = z div 146097; doe = z mod 146097;
          yoe = (doe - doe div 1460 + doe div 36524 - doe div 146096) div 365;
          doy = doe - (365 * yoe + yoe div 4 - yoe div 100);
          mp = (5 * doy + 2) div 153;
          day = doy - (153 * mp + 2) div 5 + 1;
          month = (if mp < 10 then mp + 3 else mp - 9)
      in (yoe + era * 400 + (if month \<le> 2 then 1 else 0), month, day))"

definition utc_iso8601 :: "nat \<Rightarrow> bytes" where
  "utc_iso8601 secs =
     (case utc_civil (int (secs div 86400)) of (year, month, day) \<Rightarrow>
        int_pad 4 year @ ''-'' @ int_pad 2 month @ ''-'' @ int_pad 2 day @ ''T'' @ nat_pad 2 (secs mod 86400 div 3600) @
        '':'' @ nat_pad 2 (secs mod 86400 mod 3600 div 60) @ '':'' @ nat_pad 2 (secs mod 86400 mod 60) @ ''Z'')"

definition accepted_line :: "ssh_fns \<Rightarrow> server_key \<Rightarrow> bytes \<Rightarrow> nat \<Rightarrow> nat \<Rightarrow> bytes" where
  "accepted_line sk key host port now =
     known_hosts_line sk key host port @ '' # accepted by QueryHive '' @ utc_iso8601 now @ [CHR 0x0A]"

definition USAGE_HOST :: bytes where
  "USAGE_HOST = ''the host name has characters that cannot be written to known_hosts''"

definition append_if_absent :: "ssh_fns \<Rightarrow> ssh_world \<Rightarrow> path \<Rightarrow> bytes \<Rightarrow> nat \<Rightarrow> bytes
    \<Rightarrow> (ssh_error + bool) \<times> ssh_world" where
  "append_if_absent sk w p host port blob =
     (if \<not> is_valid_host host then (Inl (SshUsage USAGE_HOST), w)
      else (case from_blob blob of
        Inl e \<Rightarrow> (Inl e, w)
      | Inr key \<Rightarrow>
          if \<not> sw_dirs w p then (Inl SshIo, w)
          else (case open_app_store (sw_disk w) p (sw_euid w) True of
            Inl e \<Rightarrow> (Inl e, w)
          | Inr None \<Rightarrow> (Inl SshIo, w)
          | Inr (Some f) \<Rightarrow>
              (let opened = w\<lparr>sw_disk := (sw_disk w)(p \<mapsto> f)\<rparr> in
               case st_text f of
                 None \<Rightarrow> (Inl SshIo, opened)
               | Some s \<Rightarrow>
                   (let host = to_ascii_lowercase host in
                    case add_text sk (host_spelling host port) blob s p (Some (p, OriginApp)) scan_new of
                      Inl e \<Rightarrow> (Inl e, opened)
                    | Inr scan \<Rightarrow>
                        if ks_matched scan then (Inr False, opened)
                        else if \<not> sw_writes w p then (Inl SshIo, opened)
                        else (Inr True,
                          opened\<lparr>sw_disk := (sw_disk w)(p \<mapsto> f\<lparr>st_text := Some (s @
                            (if s \<noteq> [] \<and> last s \<noteq> CHR 0x0A then [CHR 0x0A] else []) @
                            accepted_line sk key host port (sw_now w))\<rparr>)\<rparr>))))))"

section \<open>A command to paste\<close>

definition shell_quote :: "bytes \<Rightarrow> bytes" where
  "shell_quote s = [CHR 0x27] @ concat (map (\<lambda>c. if c = CHR 0x27 then [CHR 0x27, CHR 0x5C, CHR 0x27, CHR 0x27] else [c]) s) @
     [CHR 0x27]"

definition remove_command :: "bytes \<Rightarrow> nat \<Rightarrow> path \<Rightarrow> bytes" where
  "remove_command host port file =
     ''ssh-keygen -R '' @ shell_quote (host_spelling host port) @ '' -f '' @ shell_quote file"

section \<open>The decision\<close>

datatype host_key_policy = Strict | TrustNew server_key | TrustFingerprint bytes

record verifier =
  v_host :: bytes
  v_port :: nat
  v_files :: "store_file list"
  v_fallback :: path
  v_record_to :: "path option"
  v_policy :: host_key_policy
  v_verified :: bool
  v_abandoned :: bool

definition USAGE_RECORD :: bytes where
  "USAGE_RECORD = ''a host key cannot be trusted without a file to record it in''"

definition decide_unknown :: "ssh_fns \<Rightarrow> ssh_world \<Rightarrow> verifier \<Rightarrow> server_key \<Rightarrow> (ssh_error + unit) \<times> ssh_world" where
  "decide_unknown sk w v key =
     (case v_policy v of
        TrustNew pinned \<Rightarrow>
          if key_blob pinned = key_blob key then (Inr (), w)
          else (Inl (HostKeyMismatch (v_host v) (v_port v) (v_fallback v) key [pinned_record pinned]), w)
      | Strict \<Rightarrow> (Inl (HostKeyUnknown (v_host v) (v_port v) (v_fallback v) key False), w)
      | TrustFingerprint pin \<Rightarrow>
          (let presented = fingerprint sk (key_blob key) in
           if pin \<noteq> presented then (Inl (HostKeyPinMismatch (v_host v) (v_port v) key presented pin), w)
           else (case v_record_to v of
                   None \<Rightarrow> (Inl (SshUsage USAGE_RECORD), w)
                 | Some p \<Rightarrow>
                     (case append_if_absent sk w p (v_host v) (v_port v) (key_blob key) of
                        (Inr written, w') \<Rightarrow> (Inr (), w')
                      | (Inl e, w') \<Rightarrow>
                          (Inl (case e of HostKeyStoreUnsafe q r \<Rightarrow> e
                                | _ \<Rightarrow> HostKeyRecordFailed (v_host v) (v_port v) key p e), w')))))"

definition verifier_decide :: "ssh_fns \<Rightarrow> ssh_world \<Rightarrow> verifier \<Rightarrow> server_key
    \<Rightarrow> (ssh_error + bool) \<times> ssh_world \<times> verifier" where
  "verifier_decide sk w v key =
     (if v_abandoned v then (Inl HostKeyNotVerified, w, v)
      else (case check_all sk w (v_files v) (v_host v) (v_port v) (key_blob key) of
        Inl e \<Rightarrow> (Inl e, w, v)
      | Inr KeyMatched \<Rightarrow> (Inr True, w, v\<lparr>v_verified := True\<rparr>)
      | Inr (KeyRevoked line file) \<Rightarrow>
          (Inl (HostKeyRevoked (v_host v) (v_port v) (case file of Some p \<Rightarrow> p | None \<Rightarrow> v_fallback v) line), w, v)
      | Inr (KeyMismatch recorded) \<Rightarrow>
          (Inl (HostKeyMismatch (v_host v) (v_port v)
             (case recorded of r # rs \<Rightarrow> (case rk_file r of Some p \<Rightarrow> p | None \<Rightarrow> v_fallback v) | [] \<Rightarrow> v_fallback v)
             key recorded), w, v)
      | Inr (KeyUnknown fp covered) \<Rightarrow>
          if covered then (Inl (HostKeyCertificateExpected (v_host v) (v_port v) key (v_fallback v)), w, v)
          else (case decide_unknown sk w v key of
                  (Inl e, w') \<Rightarrow> (Inl e, w', v)
                | (Inr _, w') \<Rightarrow> (Inr True, w', v\<lparr>v_verified := True\<rparr>))))"

end
