(* ===== verification/HostKeys.thy ===== *)
theory HostKeys
  imports KnownHosts TrinoAgree
begin

text \<open>
  What the host-key check promises: the verdict is that of all lines of all files, whatever their order; a
  key is accepted only when it is on record or when the person approved exactly it and nothing speaks
  against it; and recording a key adds one line and changes no other host's verdict.
\<close>

section \<open>The entries for a host\<close>

definition parsed_line :: "ssh_fns \<Rightarrow> bytes \<Rightarrow> kh_entry option option" where
  "parsed_line sk raw = (case parse_entry sk raw [] 0 of Inl e \<Rightarrow> None | Inr x \<Rightarrow> Some x)"

text \<open>\<open>None\<close> when a line of the text is malformed.\<close>

fun text_entries :: "ssh_fns \<Rightarrow> bytes \<Rightarrow> bytes list \<Rightarrow> kh_entry list option" where
  "text_entries sk spelling [] = Some []"
| "text_entries sk spelling (raw # raws) =
     (case parsed_line sk raw of
        None \<Rightarrow> None
      | Some None \<Rightarrow> text_entries sk spelling raws
      | Some (Some e) \<Rightarrow>
          map_option (\<lambda>es. if patterns_match sk (ke_patterns e) spelling then e # es else es)
            (text_entries sk spelling raws))"

definition file_entries :: "ssh_fns \<Rightarrow> (path \<Rightarrow> stored option) \<Rightarrow> nat \<Rightarrow> bytes \<Rightarrow> store_file \<Rightarrow> kh_entry list option" where
  "file_entries sk disk euid spelling file =
     (case read_store disk file euid of Inl e \<Rightarrow> None | Inr s \<Rightarrow> text_entries sk spelling (text_lines s))"

fun all_entries :: "ssh_fns \<Rightarrow> (path \<Rightarrow> stored option) \<Rightarrow> nat \<Rightarrow> bytes \<Rightarrow> store_file list \<Rightarrow> kh_entry list option" where
  "all_entries sk disk euid spelling [] = Some []"
| "all_entries sk disk euid spelling (file # files) =
     (case file_entries sk disk euid spelling file of
        None \<Rightarrow> None
      | Some es \<Rightarrow> map_option ((@) es) (all_entries sk disk euid spelling files))"

text \<open>The four things an entry for the host can say of a key.\<close>

definition revokes :: "bytes \<Rightarrow> kh_entry \<Rightarrow> bool" where
  "revokes blob e \<longleftrightarrow> ke_marker e = Some Revoked \<and> ke_blob e = blob"

definition holds_key :: "bytes \<Rightarrow> kh_entry \<Rightarrow> bool" where
  "holds_key blob e \<longleftrightarrow> ke_marker e = None \<and> ke_blob e = blob"

definition holds_other :: "bytes \<Rightarrow> kh_entry \<Rightarrow> bool" where
  "holds_other blob e \<longleftrightarrow> ke_marker e = None \<and> ke_blob e \<noteq> blob"

definition names_ca :: "kh_entry \<Rightarrow> bool" where
  "names_ca e \<longleftrightarrow> ke_marker e = Some CertAuthority"

datatype verdict_kind = VerdictRevoked | VerdictMatched | VerdictMismatch | VerdictUnknown bool

definition kind_of_entries :: "bytes \<Rightarrow> kh_entry list \<Rightarrow> verdict_kind" where
  "kind_of_entries blob es =
     (if list_ex (revokes blob) es then VerdictRevoked
      else if list_ex (holds_key blob) es then VerdictMatched
      else if list_ex (holds_other blob) es then VerdictMismatch
      else VerdictUnknown (list_ex names_ca es))"

fun kind_of :: "host_key_verdict \<Rightarrow> verdict_kind" where
  "kind_of KeyMatched = VerdictMatched"
| "kind_of (KeyUnknown fp covered) = VerdictUnknown covered"
| "kind_of (KeyMismatch recorded) = VerdictMismatch"
| "kind_of (KeyRevoked line file) = VerdictRevoked"

text \<open>\<open>None\<close> for an error.\<close>

definition verdict_kind :: "ssh_error + host_key_verdict \<Rightarrow> verdict_kind option" where
  "verdict_kind r = (case r of Inl e \<Rightarrow> None | Inr v \<Rightarrow> Some (kind_of v))"

section \<open>The scan is the fold over the entries\<close>

lemma parse_entry_line:
  "parsed_line sk raw = (case parse_entry sk raw source line of Inl e \<Rightarrow> None | Inr x \<Rightarrow> Some x)"
  unfolding parsed_line_def parse_entry_def Let_def
  by (auto split: option.splits list.splits prod.splits if_splits)

text \<open>What a scan has found so far.\<close>

definition found :: "bytes \<Rightarrow> kh_scan \<Rightarrow> kh_entry list \<Rightarrow> bool" where
  "found blob s es \<longleftrightarrow>
     (ks_revoked s \<noteq> None) = list_ex (revokes blob) es \<and> ks_matched s = list_ex (holds_key blob) es \<and>
     (ks_recorded s \<noteq> []) = list_ex (holds_other blob) es \<and> ks_ca_covered s = list_ex names_ca es"

lemma found_new: "found blob scan_new []"
  by (simp add: found_def scan_new_def)

lemma found_entry: "found blob s es \<Longrightarrow> found blob (add_entry blob from_file line e s) (es @ [e])"
  by (auto simp: found_def add_entry_def revokes_def holds_key_def holds_other_def names_ca_def
      split: option.splits marker.splits)

lemma found_lines:
  "found blob s es \<Longrightarrow>
   (case add_lines sk spelling blob source from_file line raws s of
      Inl e \<Rightarrow> text_entries sk spelling raws = None
    | Inr s' \<Rightarrow> \<exists>fs. text_entries sk spelling raws = Some fs \<and> found blob s' (es @ fs))"
proof (induction raws arbitrary: line s es)
  case (Cons raw raws)
  note line = parse_entry_line [of sk raw source line]
  show ?case
  proof (cases "parse_entry sk raw source line")
    case (Inl e)
    with line show ?thesis by simp
  next
    case (Inr x)
    show ?thesis
    proof (cases x)
      case None
      with Inr line Cons.IH [OF Cons.prems, of "line + 1"] show ?thesis by (auto split: sum.splits)
    next
      case (Some e)
      show ?thesis
      proof (cases "patterns_match sk (ke_patterns e) spelling")
        case True
        from Cons.IH [OF found_entry [OF Cons.prems, of from_file line e], of "line + 1"] True Inr Some line
        show ?thesis by (auto split: sum.splits)
      next
        case False
        with Cons.IH [OF Cons.prems, of "line + 1"] Inr Some line show ?thesis by (auto split: sum.splits)
      qed
    qed
  qed
qed simp

lemma found_files:
  "found blob s es \<Longrightarrow>
   (case add_files sk disk euid spelling blob files s of
      Inl e \<Rightarrow> all_entries sk disk euid spelling files = None
    | Inr s' \<Rightarrow> \<exists>fs. all_entries sk disk euid spelling files = Some fs \<and> found blob s' (es @ fs))"
proof (induction files arbitrary: s es)
  case (Cons f fs')
  show ?case
  proof (cases "read_store disk f euid")
    case (Inl e)
    then show ?thesis by (simp add: file_entries_def)
  next
    case (Inr contents)
    let ?ff = "Some (sf_path f, sf_origin f)"
    have lines: "case add_text sk spelling blob contents (sf_path f) ?ff s of
        Inl e \<Rightarrow> text_entries sk spelling (text_lines contents) = None
      | Inr s' \<Rightarrow> \<exists>fs. text_entries sk spelling (text_lines contents) = Some fs \<and> found blob s' (es @ fs)"
      unfolding add_text_def by (rule found_lines [OF Cons.prems])
    show ?thesis
    proof (cases "add_text sk spelling blob contents (sf_path f) ?ff s")
      case (Inl e)
      with lines Inr show ?thesis by (simp add: file_entries_def)
    next
      case s': (Inr s')
      with lines obtain fs where fs: "text_entries sk spelling (text_lines contents) = Some fs" "found blob s' (es @ fs)"
        by auto
      from Cons.IH [OF fs(2)] Inr s' fs(1) show ?thesis by (auto simp: file_entries_def split: sum.splits)
    qed
  qed
qed simp

lemma finish_kind: "found blob s es \<Longrightarrow> kind_of (scan_finish sk blob s) = kind_of_entries blob es"
  by (auto simp: found_def scan_finish_def kind_of_entries_def split: option.splits)

lemma check_kind:
  "verdict_kind (check_all_as sk disk files host port blob euid) =
     map_option (kind_of_entries blob) (all_entries sk disk euid (host_spelling host port) files)"
  using found_files [OF found_new, where blob = blob and files = files and sk = sk and disk = disk and euid = euid
      and spelling = "host_spelling host port"]
  by (auto simp: check_all_as_def verdict_kind_def finish_kind split: sum.splits)

lemma all_entries_one: "all_entries sk disk euid spelling [f] = file_entries sk disk euid spelling f"
  by (cases "file_entries sk disk euid spelling f") simp_all

lemma all_entries_set:
  "all_entries sk disk euid spelling files =
     (if list_all (\<lambda>f. file_entries sk disk euid spelling f \<noteq> None) files
      then Some (concat (map (\<lambda>f. the (file_entries sk disk euid spelling f)) files)) else None)"
  by (induction files) (auto split: option.splits)

lemma kind_of_entries_set: "set es = set fs \<Longrightarrow> kind_of_entries blob es = kind_of_entries blob fs"
  by (simp add: kind_of_entries_def list_ex_iff)

section \<open>The line that is recorded\<close>

text \<open>What the code relies on of base64: an encoded key is one printable word and decodes to the key.\<close>

definition base64_sound :: "ssh_fns \<Rightarrow> bool" where
  "base64_sound sk \<longleftrightarrow> (\<forall>b. b \<noteq> [] \<longrightarrow> sk_decode sk (sk_encode sk b) = Some b \<and> plain_word (sk_encode sk b))"

definition host_byte :: "byte \<Rightarrow> bool" where
  "host_byte c \<longleftrightarrow> is_ascii_alphanumeric c \<or> c \<in> set ''.-_:[]''"

lemma host_byte_plain:
  "host_byte c \<Longrightarrow> 33 \<le> byte_val c \<and> byte_val c < 128 \<and> c \<noteq> CHR ''*'' \<and> c \<noteq> CHR ''?'' \<and> c \<noteq> CHR ''!'' \<and> c \<noteq> CHR '','' \<and>
     c \<noteq> CHR ''|'' \<and> c \<noteq> CHR ''#'' \<and> c \<noteq> CHR ''@''"
  by (auto simp: host_byte_def is_ascii_alphanumeric_def is_ascii_alphabetic_def is_ascii_uppercase_def
      is_ascii_lowercase_def is_ascii_digit_def)

lemma host_byte_lower: "host_byte c \<Longrightarrow> host_byte (ascii_lower c)"
  by (auto simp: host_byte_def ascii_lower_def is_ascii_alphanumeric_def is_ascii_alphabetic_def is_ascii_uppercase_def
      is_ascii_lowercase_def is_ascii_digit_def byte_val_def)

lemma lower_idem: "ascii_lower (ascii_lower c) = ascii_lower c"
  by (auto simp: ascii_lower_def is_ascii_uppercase_def byte_val_def)

lemma spelling_bytes:
  assumes "is_valid_host host"
  shows "host_spelling host port \<noteq> [] \<and> list_all host_byte (host_spelling host port)"
proof -
  have h: "list_all host_byte host" "host \<noteq> []"
    using assms by (auto simp: is_valid_host_def list_all_iff host_byte_def)
  have "list_all host_byte (nat_bytes port)"
    using nat_bytes_digits [of port] by (auto simp: list_all_iff host_byte_def is_ascii_alphanumeric_def)
  with h show ?thesis by (simp add: host_spelling_def host_byte_def)
qed

lemma lower_spelling: "to_ascii_lowercase (host_spelling host port) = host_spelling (to_ascii_lowercase host) port"
proof -
  have "ascii_lower c = c" if "is_ascii_digit c" for c
    using that by (simp add: ascii_lower_def is_ascii_uppercase_def is_ascii_digit_def)
  then have "map ascii_lower (nat_bytes port) = nat_bytes port"
    using nat_bytes_digits [of port] by (intro map_idI) (simp add: list_all_iff)
  then show ?thesis by (simp add: host_spelling_def to_ascii_lowercase_def ascii_lower_def is_ascii_uppercase_def)
qed

lemma lower_lower [simp]: "to_ascii_lowercase (to_ascii_lowercase s) = to_ascii_lowercase s"
  by (simp add: to_ascii_lowercase_def lower_idem)

lemma patterns_lower: "patterns_match sk pats (to_ascii_lowercase host) = patterns_match sk pats host"
  by (simp add: patterns_match_def)

lemma lower_free:
  assumes "list_all host_byte s" "c = CHR ''*'' \<or> c = CHR ''?''"
  shows "c \<notin> set (to_ascii_lowercase s)"
proof
  assume "c \<in> set (to_ascii_lowercase s)"
  then obtain x where "x \<in> set s" "c = ascii_lower x" by (auto simp: to_ascii_lowercase_def)
  with assms(1) have "host_byte c" using host_byte_lower by (auto simp: list_all_iff)
  with assms(2) host_byte_plain show False by blast
qed

text \<open>A spelled host as a pattern names itself, in any case, and no other valid host.\<close>

lemma spelling_matches:
  assumes "s \<noteq> []" "list_all host_byte s" "list_all host_byte t"
  shows "patterns_match sk s t \<longleftrightarrow> to_ascii_lowercase s = to_ascii_lowercase t"
proof -
  have s: "\<And>c. c \<in> set s \<Longrightarrow> host_byte c" using assms(2) by (simp add: list_all_iff)
  have one: "split_on (CHR '','') s = [s]" using s host_byte_plain by (intro split_on_free) blast
  have hd: "host_byte (hd s)" using s assms(1) by simp
  then have "\<not> prefix ''|1|'' s" "hd s \<noteq> CHR ''!''"
    using host_byte_plain [of "hd s"] by (auto simp: prefix_def)
  moreover have "CHR ''*'' \<notin> set (to_ascii_lowercase t)" "CHR ''*'' \<notin> set (to_ascii_lowercase s)"
    "CHR ''?'' \<notin> set (to_ascii_lowercase s)"
    using lower_free assms(2,3) by blast+
  ultimately show ?thesis
    using assms(1) one
    by (simp add: patterns_match_def pattern_matches_def glob_matches_def glob_reference glob_spec_literal)
qed

lemma key_type_plain: "key_type_of blob = Some t \<Longrightarrow> plain_word t \<and> blob \<noteq> []"
  by (auto simp: key_type_of_def Let_def plain_word_def list_all_iff is_ascii_graphic_def split: if_splits)

text \<open>The line without its line feed.\<close>

definition record_line :: "ssh_fns \<Rightarrow> server_key \<Rightarrow> bytes \<Rightarrow> nat \<Rightarrow> nat \<Rightarrow> bytes" where
  "record_line sk key host port now =
     known_hosts_line sk key host port @ '' # accepted by QueryHive '' @ utc_iso8601 now"

lemma utc_iso8601_ends: "utc_iso8601 now \<noteq> [] \<and> last (utc_iso8601 now) = CHR ''Z''"
  by (simp add: utc_iso8601_def split: prod.splits)

lemma parsed_record_line:
  assumes "base64_sound sk" "is_valid_host host" "from_blob blob = Inr key"
  shows "parsed_line sk (record_line sk key host port now) =
     Some (Some \<lparr>ke_marker = None, ke_patterns = host_spelling host port, ke_type = key_type key, ke_blob = blob\<rparr>)"
proof -
  from assms(3) have k: "key_type_of blob = Some (key_type key)" "key_blob key = blob"
    by (auto simp: from_blob_def split: option.splits)
  note t = key_type_plain [OF k(1)]
  let ?s = "host_spelling host port" and ?b = "sk_encode sk blob"
  let ?rest = "''# accepted by QueryHive '' @ utc_iso8601 now"
  have line: "record_line sk key host port now = ?s @ CHR '' '' # key_type key @ CHR '' '' # ?b @ CHR '' '' # ?rest"
    by (simp add: record_line_def known_hosts_line_def k(2))
  have s: "?s \<noteq> []" "list_all host_byte ?s" using spelling_bytes [OF assms(2)] by simp_all
  then have ps: "plain_word ?s" using host_byte_plain by (auto simp: plain_word_def list_all_iff)
  have b: "plain_word ?b" "sk_decode sk ?b = Some blob" using assms(1) t by (simp_all add: base64_sound_def)
  have hs: "host_byte (hd ?s)" using s by (simp add: list_all_iff)
  have "trim (record_line sk key host port now) = record_line sk key host port now"
    unfolding line by (rule trim_plain)
      (use s(1) host_byte_plain [OF hs] utc_iso8601_ends [of now] in \<open>simp_all\<close>)
  moreover have "split_whitespace (record_line sk key host port now) =
      ?s # key_type key # ?b # split_whitespace ?rest"
    unfolding line using split_whitespace_word(1) [OF ps] split_whitespace_word(1) [of "key_type key"]
      split_whitespace_word(1) [OF b(1)] t by simp
  moreover have "entry_head (?s # key_type key # ?b # split_whitespace ?rest) =
      Some (None, ?s, key_type key # ?b # split_whitespace ?rest)"
    using s(1) host_byte_plain [OF hs] by (auto simp: entry_head_def prefix_def)
  moreover have "hd (record_line sk key host port now) \<noteq> CHR ''#''" "record_line sk key host port now \<noteq> []"
    unfolding line using s(1) host_byte_plain [OF hs] by auto
  ultimately show ?thesis
    using b k by (simp add: parsed_line_def parse_entry_def Let_def)
qed

lemma text_entries_append:
  "text_entries sk spelling (raws @ raws') =
     (case text_entries sk spelling raws of None \<Rightarrow> None
      | Some es \<Rightarrow> map_option ((@) es) (text_entries sk spelling raws'))"
  by (induction raws; cases "text_entries sk spelling raws'") (auto split: option.splits)

text \<open>The lines of a text that has had the record added.\<close>

definition with_record :: "bytes \<Rightarrow> bytes \<Rightarrow> bytes" where
  "with_record s line = s @ (if s \<noteq> [] \<and> last s \<noteq> CHR 0x0A then [CHR 0x0A] else []) @ line @ [CHR 0x0A]"

lemma with_record_lines:
  assumes "s = [] \<or> last s \<noteq> CHR 0x0D" "CHR 0x0A \<notin> set l" "l \<noteq> []" "last l \<noteq> CHR 0x0D"
  shows "text_lines (with_record s l) = text_lines s @ [l]"
proof -
  note one = text_lines_one [OF assms(2)]
  consider "s = []" | s0 where "s = s0 @ [CHR 0x0A]" | "s \<noteq> []" "last s \<noteq> CHR 0x0A"
    by (metis append_butlast_last_id)
  then show ?thesis
  proof cases
    case 1
    with one assms show ?thesis by (simp add: with_record_def)
  next
    case 2
    with one assms text_lines_append [of s0 "l @ [CHR 0x0A]"] show ?thesis by (simp add: with_record_def)
  next
    case 3
    with one assms text_lines_append [of s "l @ [CHR 0x0A]"] text_lines_ended [of s] show ?thesis
      by (simp add: with_record_def)
  qed
qed

lemma utc_printable: "c \<in> set (utc_iso8601 now) \<Longrightarrow> 32 \<le> byte_val c"
proof -
  have n: "32 \<le> byte_val d" if "d \<in> set (nat_pad w n)" for d w n
    using digits_plain [OF list_all_digits_pad that] by simp
  then have i: "32 \<le> byte_val d" if "d \<in> set (int_pad w n)" for d w n
    using that by (auto simp: int_pad_def split: if_splits)
  assume "c \<in> set (utc_iso8601 now)"
  then show ?thesis using n i by (auto simp: utc_iso8601_def split: prod.splits)
qed

lemma record_line_free:
  assumes "base64_sound sk" "is_valid_host host" "from_blob blob = Inr key"
  shows "CHR 0x0A \<notin> set (record_line sk key host port now)" "last (record_line sk key host port now) \<noteq> CHR 0x0D"
    "record_line sk key host port now \<noteq> []"
proof -
  from assms(3) have k: "key_type_of blob = Some (key_type key)" "key_blob key = blob"
    by (auto simp: from_blob_def split: option.splits)
  have "plain_word (key_type key)" "plain_word (sk_encode sk (key_blob key))"
    using key_type_plain [OF k(1)] assms(1) k(2) by (simp_all add: base64_sound_def)
  moreover have "33 \<le> byte_val c" if "c \<in> set (host_spelling host port)" for c
    using spelling_bytes [OF assms(2), of port] host_byte_plain that by (auto simp: list_all_iff)
  ultimately have "32 \<le> byte_val c" if "c \<in> set (record_line sk key host port now)" for c
    using that utc_printable [of c now] by (force simp: record_line_def known_hosts_line_def plain_word_def)
  then show "CHR 0x0A \<notin> set (record_line sk key host port now)" by fastforce
  show "last (record_line sk key host port now) \<noteq> CHR 0x0D" "record_line sk key host port now \<noteq> []"
    using utc_iso8601_ends [of now] by (simp_all add: record_line_def)
qed

lemma valid_lower: "is_valid_host host \<Longrightarrow> is_valid_host (to_ascii_lowercase host)"
proof -
  assume h: "is_valid_host host"
  have one: "is_ascii_alphanumeric (ascii_lower c) \<or> ascii_lower c \<in> set ''.-_:''"
    if "is_ascii_alphanumeric c \<or> c \<in> set ''.-_:''" for c
    using that by (auto simp: ascii_lower_def is_ascii_alphanumeric_def is_ascii_alphabetic_def is_ascii_uppercase_def
        is_ascii_lowercase_def is_ascii_digit_def byte_val_def)
  have "ascii_lower (hd host) \<noteq> CHR ''-''" if "hd host \<noteq> CHR ''-''"
  proof (cases "is_ascii_uppercase (hd host)")
    case True
    then have "97 \<le> byte_val (ascii_lower (hd host))"
      by (simp add: ascii_lower_def is_ascii_uppercase_def byte_val_def)
    then show ?thesis by auto
  qed (use that in \<open>simp add: ascii_lower_def\<close>)
  then show ?thesis
    using h one by (cases host) (auto simp: is_valid_host_def to_ascii_lowercase_def list_all_iff)
qed

section \<open>What appending does\<close>

lemma append_if_absent_writes:
  assumes "append_if_absent sk w p host port blob = (Inr written, w')"
  shows "\<exists>key f s scan. is_valid_host host \<and> from_blob blob = Inr key \<and>
     open_app_store (sw_disk w) p (sw_euid w) True = Inr (Some f) \<and> st_text f = Some s \<and>
     add_text sk (host_spelling (to_ascii_lowercase host) port) blob s p (Some (p, OriginApp)) scan_new = Inr scan \<and>
     written = (\<not> ks_matched scan) \<and>
     sw_disk w' = (sw_disk w)(p \<mapsto> if written
       then f\<lparr>st_text := Some (with_record s (record_line sk key (to_ascii_lowercase host) port (sw_now w)))\<rparr> else f)"
proof -
  have host: "is_valid_host host" using assms by (simp add: append_if_absent_def split: if_splits)
  obtain key where key: "from_blob blob = Inr key"
    using assms host by (cases "from_blob blob") (simp_all add: append_if_absent_def)
  have dirs: "sw_dirs w p" using assms host key by (simp add: append_if_absent_def split: if_splits)
  obtain f where f: "open_app_store (sw_disk w) p (sw_euid w) True = Inr (Some f)"
    using assms host key dirs
    by (cases "open_app_store (sw_disk w) p (sw_euid w) True") (simp_all add: append_if_absent_def split: option.splits)
  obtain s where s: "st_text f = Some s"
    using assms host key dirs f by (cases "st_text f") (simp_all add: append_if_absent_def)
  obtain scan where scan:
    "add_text sk (host_spelling (to_ascii_lowercase host) port) blob s p (Some (p, OriginApp)) scan_new = Inr scan"
    using assms host key dirs f s
    by (cases "add_text sk (host_spelling (to_ascii_lowercase host) port) blob s p (Some (p, OriginApp)) scan_new")
       (simp_all add: append_if_absent_def Let_def)
  have "written = (\<not> ks_matched scan) \<and>
     sw_disk w' = (sw_disk w)(p \<mapsto> if written
       then f\<lparr>st_text := Some (with_record s (record_line sk key (to_ascii_lowercase host) port (sw_now w)))\<rparr> else f)"
    using assms host key dirs f s scan
    by (auto simp: append_if_absent_def Let_def with_record_def accepted_line_def record_line_def split: if_splits)
  with host key f s scan show ?thesis by blast
qed

lemma new_store_safe: "unsafe_reason euid (new_store euid) = None"
proof -
  have "\<not> bit (384 :: nat) 1" "\<not> bit (384 :: nat) 4" by (simp_all add: bit_iff_odd)
  then show ?thesis by (simp add: unsafe_reason_def new_store_def)
qed

lemma opened_store:
  assumes "open_app_store disk p euid True = Inr (Some f)"
  shows "\<not> st_symlink f \<and> st_opens f \<and> unsafe_reason euid f = None"
    "disk p = Some f \<or> disk p = None \<and> f = new_store euid"
proof -
  have "\<not> st_symlink f \<and> st_opens f \<and> unsafe_reason euid f = None \<and> (disk p = Some f \<or> disk p = None \<and> f = new_store euid)"
  proof (cases "disk p")
    case None
    with assms show ?thesis using new_store_safe [of euid] by (auto simp: open_app_store_def new_store_def)
  next
    case (Some g)
    with assms show ?thesis by (auto simp: open_app_store_def split: option.splits if_splits)
  qed
  then show "\<not> st_symlink f \<and> st_opens f \<and> unsafe_reason euid f = None"
    "disk p = Some f \<or> disk p = None \<and> f = new_store euid" by simp_all
qed

definition app_file :: "path \<Rightarrow> store_file" where
  "app_file p = \<lparr>sf_path = p, sf_origin = OriginApp\<rparr>"

lemma app_file_entries:
  assumes "disk p = Some f" "\<not> st_symlink f \<and> st_opens f \<and> unsafe_reason euid f = None" "st_text f = Some s"
  shows "file_entries sk disk euid spelling (app_file p) = text_entries sk spelling (text_lines s)"
  using assms by (simp add: file_entries_def read_store_def app_file_def open_app_store_def)

definition stored_text :: "(path \<Rightarrow> stored option) \<Rightarrow> path \<Rightarrow> bytes" where
  "stored_text disk p = (case disk p of None \<Rightarrow> [] | Some f \<Rightarrow> (case st_text f of Some s \<Rightarrow> s | None \<Rightarrow> []))"

lemma old_entries:
  assumes "open_app_store disk p euid True = Inr (Some f)" "st_text f = Some s"
  shows "file_entries sk disk euid spelling (app_file p) = text_entries sk spelling (text_lines s)"
    "stored_text disk p = s"
proof -
  from opened_store(2) [OF assms(1)]
  show "file_entries sk disk euid spelling (app_file p) = text_entries sk spelling (text_lines s)"
  proof
    assume "disk p = None \<and> f = new_store euid"
    with assms(2) show ?thesis
      by (simp add: file_entries_def read_store_def app_file_def open_app_store_def new_store_def)
  qed (use opened_store(1) [OF assms(1)] assms(2) app_file_entries in blast)
  show "stored_text disk p = s"
    using opened_store(2) [OF assms(1)] assms(2) by (auto simp: stored_text_def new_store_def)
qed

lemma recorded_entries:
  assumes "base64_sound sk" "append_if_absent sk w p host port blob = (Inr written, w')"
    "stored_text (sw_disk w) p = [] \<or> last (stored_text (sw_disk w) p) \<noteq> CHR 0x0D"
  shows "\<exists>(key :: server_key) old.
    sw_disk w' = (sw_disk w)(p := sw_disk w' p) \<and>
    prefix (stored_text (sw_disk w) p) (stored_text (sw_disk w') p) \<and>
    text_entries sk (host_spelling host port) (text_lines (stored_text (sw_disk w) p)) = Some old \<and>
    written = (\<not> list_ex (holds_key blob) old) \<and>
    (\<forall>spelling. file_entries sk (sw_disk w) (sw_euid w) spelling (app_file p) =
       text_entries sk spelling (text_lines (stored_text (sw_disk w) p))) \<and>
    (\<forall>spelling. file_entries sk (sw_disk w') (sw_euid w) spelling (app_file p) =
       (case file_entries sk (sw_disk w) (sw_euid w) spelling (app_file p) of None \<Rightarrow> None
        | Some es \<Rightarrow> Some (es @ (if written \<and>
            patterns_match sk (host_spelling (to_ascii_lowercase host) port) spelling
            then [\<lparr>ke_marker = None, ke_patterns = host_spelling (to_ascii_lowercase host) port, ke_type = key_type key,
                   ke_blob = blob\<rparr>] else [])))) \<and>
    is_valid_host host"
proof -
  from append_if_absent_writes [OF assms(2)] obtain key f s scan where
    h: "is_valid_host host" "from_blob blob = Inr key" "open_app_store (sw_disk w) p (sw_euid w) True = Inr (Some f)"
      "st_text f = Some s"
      "add_text sk (host_spelling (to_ascii_lowercase host) port) blob s p (Some (p, OriginApp)) scan_new = Inr scan"
      "written = (\<not> ks_matched scan)"
      "sw_disk w' = (sw_disk w)(p \<mapsto> if written
         then f\<lparr>st_text := Some (with_record s (record_line sk key (to_ascii_lowercase host) port (sw_now w)))\<rparr> else f)"
    by blast
  let ?l = "record_line sk key (to_ascii_lowercase host) port (sw_now w)"
  let ?host = "to_ascii_lowercase host"
  let ?new = "\<lparr>ke_marker = None, ke_patterns = host_spelling ?host port, ke_type = key_type key, ke_blob = blob\<rparr>"
  note v = valid_lower [OF h(1)]
  note old = old_entries [OF h(3,4)]
  note safe = opened_store(1) [OF h(3)]
  have lowered: "text_entries sk (host_spelling ?host port) raws = text_entries sk (host_spelling host port) raws" for raws
    by (induction raws) (simp_all add: patterns_lower lower_spelling [symmetric] cong: option.case_cong)
  have "case add_text sk (host_spelling ?host port) blob s p (Some (p, OriginApp)) scan_new of
      Inl e \<Rightarrow> text_entries sk (host_spelling ?host port) (text_lines s) = None
    | Inr s' \<Rightarrow> \<exists>fs. text_entries sk (host_spelling ?host port) (text_lines s) = Some fs \<and> found blob s' ([] @ fs)"
    unfolding add_text_def by (rule found_lines [OF found_new])
  then obtain es where es: "text_entries sk (host_spelling host port) (text_lines s) = Some es" "found blob scan es"
    using h(5) lowered by auto
  have text': "st_text (the (sw_disk w' p)) = Some (if written then with_record s ?l else s)"
    "sw_disk w' p = Some (the (sw_disk w' p))" using h(4,7) by auto
  have "\<not> st_symlink (the (sw_disk w' p)) \<and> st_opens (the (sw_disk w' p)) \<and>
      unsafe_reason (sw_euid w) (the (sw_disk w' p)) = None"
    using safe h(7) by (auto simp: unsafe_reason_def split: if_splits)
  then have new: "file_entries sk (sw_disk w') (sw_euid w) spelling (app_file p) =
      text_entries sk spelling (text_lines (if written then with_record s ?l else s))" for spelling
    using text' by (intro app_file_entries) simp_all
  have lines: "text_lines (with_record s ?l) = text_lines s @ [?l]"
    using assms(3) old(2) record_line_free [OF assms(1) v h(2)] by (intro with_record_lines) simp_all
  have parsed: "parsed_line sk ?l = Some (Some ?new)" by (rule parsed_record_line [OF assms(1) v h(2)])
  show ?thesis
  proof (intro exI [of _ key] exI [of _ es] conjI allI)
    show "sw_disk w' = (sw_disk w)(p := sw_disk w' p)" using h(7) by simp
    have "stored_text (sw_disk w') p = (if written then with_record s ?l else s)"
      using text' by (cases "sw_disk w' p") (simp_all add: stored_text_def)
    then show "prefix (stored_text (sw_disk w) p) (stored_text (sw_disk w') p)"
      using old(2) by (simp add: with_record_def)
    show "text_entries sk (host_spelling host port) (text_lines (stored_text (sw_disk w) p)) = Some es"
      using es(1) old(2) by simp
    show "written = (\<not> list_ex (holds_key blob) es)" using h(6) es(2) by (simp add: found_def)
    show "is_valid_host host" by (rule h(1))
    fix spelling
    show "file_entries sk (sw_disk w) (sw_euid w) spelling (app_file p) =
        text_entries sk spelling (text_lines (stored_text (sw_disk w) p))"
      using old by simp
    show "file_entries sk (sw_disk w') (sw_euid w) spelling (app_file p) =
       (case file_entries sk (sw_disk w) (sw_euid w) spelling (app_file p) of None \<Rightarrow> None
        | Some es \<Rightarrow> Some (es @ (if written \<and> patterns_match sk (host_spelling ?host port) spelling
            then [?new] else [])))"
      using new [of spelling] lines parsed old(1) [of sk spelling]
      by (auto simp: text_entries_append split: option.splits)
  qed
qed

section \<open>Shell words\<close>

text \<open>
  How a POSIX shell reads a word made of single-quoted parts and escaped characters: the word and what
  follows it, \<open>None\<close> when a quote is not closed.
\<close>

fun shell_word :: "bool \<Rightarrow> bytes \<Rightarrow> (bytes \<times> bytes) option" where
  "shell_word True [] = None"
| "shell_word True (c # s) =
     (if c = CHR 0x27 then shell_word False s else map_option (\<lambda>(w, r). (c # w, r)) (shell_word True s))"
| "shell_word False [] = Some ([], [])"
| "shell_word False (c # s) =
     (if c = CHR 0x27 then shell_word True s
      else if c = CHR 0x5C then
        (case s of [] \<Rightarrow> None | d # s' \<Rightarrow> map_option (\<lambda>(w, r). (d # w, r)) (shell_word False s'))
      else if c \<in> {CHR '' '', CHR 0x09, CHR 0x0A} then Some ([], c # s)
      else map_option (\<lambda>(w, r). (c # w, r)) (shell_word False s))"

lemma shell_quoted:
  "shell_word True (concat (map (\<lambda>c. if c = CHR 0x27 then [CHR 0x27, CHR 0x5C, CHR 0x27, CHR 0x27] else [c]) s) @
     CHR 0x27 # r) = map_option (\<lambda>(w, r). (s @ w, r)) (shell_word False r)"
  by (induction s) (auto simp: option.map_comp comp_def case_prod_unfold option.map_ident)

section \<open>Concrete functions and a concrete file\<close>

definition witness_fns :: ssh_fns where
  "witness_fns = \<lparr>sk_decode = decode_base64, sk_encode = b64_encode, sk_digest = (\<lambda>b. []), sk_hmac = (\<lambda>salt s. [])\<rparr>"

definition witness_world :: ssh_world where
  "witness_world =
     \<lparr>sw_disk = (\<lambda>q. None), sw_dirs = (\<lambda>q. True), sw_writes = (\<lambda>q. True), sw_now = 0, sw_euid = 501\<rparr>"

definition witness_blob :: bytes where
  "witness_blob = [CHR 0x00, CHR 0x00, CHR 0x00, CHR 0x03] @ ''rsa'' @ ''key''"

lemma witness_sound: "base64_sound witness_fns"
proof -
  have "b64_encode b \<noteq> []" if "b \<noteq> []" for b
    using that by (cases b rule: b64_encode.cases) simp_all
  then show ?thesis
    using b64_encode_plain by (simp add: base64_sound_def witness_fns_def plain_word_def decode_base64_encode)
qed

lemma witness_appends:
  "append_if_absent witness_fns witness_world ''f'' ''a'' 22 witness_blob =
     (Inr True, snd (append_if_absent witness_fns witness_world ''f'' ''a'' 22 witness_blob))"
proof -
  have "key_type_of witness_blob = Some ''rsa''" by code_simp
  then have k: "from_blob witness_blob = Inr \<lparr>key_type = ''rsa'', key_blob = witness_blob\<rparr>" by (simp add: from_blob_def)
  have "is_valid_host ''a''" by code_simp
  with k have "fst (append_if_absent witness_fns witness_world ''f'' ''a'' 22 witness_blob) = Inr True"
    by (simp add: append_if_absent_def witness_world_def open_app_store_def new_store_def add_text_def scan_new_def Let_def)
  then show ?thesis by (simp add: prod_eq_iff)
qed

section \<open>Properties\<close>

text \<open>
  Neither the order of the files nor that of their lines decides about a key, and a file read twice adds
  nothing: file lists with the same members give the same verdict, and the verdict is refusal when any
  line of any file revokes the key, else a match when any holds it, else a mismatch when any holds another
  key for the host, and unknown otherwise. One line that cannot be read, in any file, is an error.
\<close>
theorem verdict_ignores_order:
  assumes "set files = set files'"
  shows "verdict_kind (check_all_as sk disk files host port blob euid) =
       verdict_kind (check_all_as sk disk files' host port blob euid) \<and>
     verdict_kind (check_all_as sk disk files host port blob euid) =
       map_option (kind_of_entries blob) (all_entries sk disk euid (host_spelling host port) files)"
proof -
  let ?E = "all_entries sk disk euid (host_spelling host port)"
  have "map_option (kind_of_entries blob) (?E files) = map_option (kind_of_entries blob) (?E files')"
    using assms kind_of_entries_set unfolding all_entries_set list_all_iff by (auto intro!: kind_of_entries_set)
  then show ?thesis by (simp add: check_kind)
qed

theorem verdict_ignores_order_witness:
  "verdict_kind (check_all_as witness_fns (sw_disk witness_world) [app_file ''a'', app_file ''b''] ''h'' 22 [] 501) =
     verdict_kind (check_all_as witness_fns (sw_disk witness_world) [app_file ''b'', app_file ''a''] ''h'' 22 [] 501) \<and>
   verdict_kind (check_all_as witness_fns (sw_disk witness_world) [app_file ''a'', app_file ''b''] ''h'' 22 [] 501) =
     map_option (kind_of_entries []) (all_entries witness_fns (sw_disk witness_world) 501 (host_spelling ''h'' 22)
       [app_file ''a'', app_file ''b''])"
  by (rule verdict_ignores_order) auto

lemma decide_vouched:
  "(case verifier_decide sk w v key of
      (Inr ok, w', v') \<Rightarrow>
        ok \<and> v' = v\<lparr>v_verified := True\<rparr> \<and> \<not> v_abandoned v \<and>
        (case all_entries sk (sw_disk w) (sw_euid w) (host_spelling (v_host v) (v_port v)) (v_files v) of
           None \<Rightarrow> False
         | Some es \<Rightarrow>
             \<not> list_ex (revokes (key_blob key)) es \<and>
             (list_ex (holds_key (key_blob key)) es \<and> w' = w \<or>
              \<not> list_ex (holds_other (key_blob key)) es \<and> \<not> list_ex names_ca es \<and>
              (case v_policy v of
                 Strict \<Rightarrow> False
               | TrustNew pinned \<Rightarrow> key_blob pinned = key_blob key \<and> w' = w
               | TrustFingerprint pin \<Rightarrow>
                   pin = fingerprint sk (key_blob key) \<and>
                   (\<exists>p written. v_record_to v = Some p \<and>
                      append_if_absent sk w p (v_host v) (v_port v) (key_blob key) = (Inr written, w')))))
    | (Inl e, w', v') \<Rightarrow> v' = v)"
proof (cases "v_abandoned v")
  case True
  then show ?thesis by (simp add: verifier_decide_def)
next
  case False
  let ?c = "check_all sk w (v_files v) (v_host v) (v_port v) (key_blob key)"
  let ?E = "all_entries sk (sw_disk w) (sw_euid w) (host_spelling (v_host v) (v_port v)) (v_files v)"
  have kind: "verdict_kind ?c = map_option (kind_of_entries (key_blob key)) ?E"
    by (simp add: check_all_def check_kind)
  show ?thesis
  proof (cases ?c)
    case (Inl e)
    with False show ?thesis by (simp add: verifier_decide_def)
  next
    case (Inr verdict)
    with kind obtain es where es: "?E = Some es" "kind_of verdict = kind_of_entries (key_blob key) es"
      by (cases ?E) (auto simp: verdict_kind_def)
    show ?thesis
    proof (cases verdict)
      case KeyMatched
      with False Inr es show ?thesis by (auto simp: verifier_decide_def kind_of_entries_def split: if_splits)
    next
      case (KeyUnknown fp covered)
      with es(2) have "\<not> list_ex (revokes (key_blob key)) es" "\<not> list_ex (holds_other (key_blob key)) es"
        "covered = list_ex names_ca es" by (auto simp: kind_of_entries_def split: if_splits)
      with False Inr es(1) KeyUnknown show ?thesis
        by (auto simp: verifier_decide_def decide_unknown_def Let_def
            split: host_key_policy.splits option.splits prod.splits sum.splits if_splits)
    qed (use False Inr in \<open>simp_all add: verifier_decide_def\<close>)
  qed
qed


text \<open>
  Recording a key adds to the app's file and to nothing else: the old text is the beginning of the new
  one, the key is then on record for its host (and trusted unless a line of the file revokes it), and what
  the file says of any other valid host is what it said before.
\<close>
theorem recording_adds_one_key:
  assumes "base64_sound sk" "append_if_absent sk w p host port blob = (Inr written, w')"
    "stored_text (sw_disk w) p = [] \<or> last (stored_text (sw_disk w) p) \<noteq> CHR 0x0D"
  shows "sw_disk w' = (sw_disk w)(p := sw_disk w' p) \<and>
     prefix (stored_text (sw_disk w) p) (stored_text (sw_disk w') p) \<and>
     verdict_kind (check_all_as sk (sw_disk w') [app_file p] host port blob (sw_euid w)) \<in>
       {Some VerdictMatched, Some VerdictRevoked} \<and>
     (is_valid_host other \<and>
      to_ascii_lowercase (host_spelling other port') \<noteq> to_ascii_lowercase (host_spelling host port) \<longrightarrow>
      verdict_kind (check_all_as sk (sw_disk w') [app_file p] other port' blob' (sw_euid w)) =
      verdict_kind (check_all_as sk (sw_disk w) [app_file p] other port' blob' (sw_euid w)))"
proof -
  obtain key :: server_key and old where r:
    "sw_disk w' = (sw_disk w)(p := sw_disk w' p)"
    "prefix (stored_text (sw_disk w) p) (stored_text (sw_disk w') p)"
    "text_entries sk (host_spelling host port) (text_lines (stored_text (sw_disk w) p)) = Some old"
    "written = (\<not> list_ex (holds_key blob) old)"
    "\<forall>spelling. file_entries sk (sw_disk w) (sw_euid w) spelling (app_file p) =
       text_entries sk spelling (text_lines (stored_text (sw_disk w) p))"
    "\<forall>spelling. file_entries sk (sw_disk w') (sw_euid w) spelling (app_file p) =
       (case file_entries sk (sw_disk w) (sw_euid w) spelling (app_file p) of None \<Rightarrow> None
        | Some es \<Rightarrow> Some (es @ (if written \<and>
            patterns_match sk (host_spelling (to_ascii_lowercase host) port) spelling
            then [\<lparr>ke_marker = None, ke_patterns = host_spelling (to_ascii_lowercase host) port, ke_type = key_type key,
                   ke_blob = blob\<rparr>] else [])))"
    "is_valid_host host"
    using recorded_entries [OF assms] by blast
  let ?s = "host_spelling (to_ascii_lowercase host) port"
  note s = spelling_bytes [OF valid_lower [OF r(7)], of port]
  have match: "patterns_match sk ?s (host_spelling h q) \<longleftrightarrow> ?s = to_ascii_lowercase (host_spelling h q)" if "is_valid_host h" for h q
    using spelling_matches [of ?s "host_spelling h q" sk] s spelling_bytes [OF that, of q] by (simp add: lower_spelling)
  have "patterns_match sk ?s (host_spelling host port)" using match [OF r(7)] by (simp add: lower_spelling)
  then have "verdict_kind (check_all_as sk (sw_disk w') [app_file p] host port blob (sw_euid w)) \<in>
      {Some VerdictMatched, Some VerdictRevoked}"
    using r(3-6) by (auto simp: check_kind kind_of_entries_def holds_key_def)
  moreover have "verdict_kind (check_all_as sk (sw_disk w') [app_file p] other port' blob' (sw_euid w)) =
      verdict_kind (check_all_as sk (sw_disk w) [app_file p] other port' blob' (sw_euid w))"
    if "is_valid_host other" "to_ascii_lowercase (host_spelling other port') \<noteq> to_ascii_lowercase (host_spelling host port)"
  proof -
    have "\<not> patterns_match sk ?s (host_spelling other port')" using match [OF that(1)] that(2) by (simp add: lower_spelling)
    with r(6) [rule_format, of "host_spelling other port'"]
    have "file_entries sk (sw_disk w') (sw_euid w) (host_spelling other port') (app_file p) =
        file_entries sk (sw_disk w) (sw_euid w) (host_spelling other port') (app_file p)"
      by (auto split: option.splits)
    then show ?thesis by (simp only: check_kind all_entries_one)
  qed
  ultimately show ?thesis using r(1,2) by blast
qed

theorem recording_adds_one_key_witness:
  "verdict_kind (check_all_as witness_fns (sw_disk (snd (append_if_absent witness_fns witness_world ''f'' ''a'' 22 witness_blob)))
     [app_file ''f''] ''a'' 22 witness_blob (sw_euid witness_world)) \<in> {Some VerdictMatched, Some VerdictRevoked}"
  using recording_adds_one_key [OF witness_sound witness_appends]
  by (simp add: stored_text_def witness_world_def)

text \<open>
  A host or a path in the command a person is asked to paste is one word of it: a POSIX shell reads the
  quoted text back as exactly that text and goes on after it, whatever quotes, spaces or newlines it holds.
\<close>
theorem shell_quote_is_one_word:
  "shell_word False (shell_quote s @ '' '' @ rest) = Some (s, '' '' @ rest)"
  by (simp add: shell_quote_def shell_quoted)

end
