(* ===== verification/EngineError.thy ===== *)
theory EngineError
  imports Decimal "HOL-Library.Word"
begin

text \<open>
  The error taxonomy of \<^verbatim>\<open>crates/qh-core/src/error.rs\<close> and the arithmetic of error positions:
  \<open>offset_of_line_column\<close> turns a server's line and column into one offset counted in characters.

  A text is its UTF-8 bytes, so the number of its characters (\<open>chars().count()\<close>) is the number of
  bytes that are not continuation bytes. \<open>place_of\<close> is the reference for the offsets: it reads line
  and column off the text before the offset, and the two are inverse to each other.
\<close>

section \<open>Errors\<close>

datatype failure_kind = Transient | Permanent | Cancelled

datatype host_key_state =
    HKUnknown | HKChanged | HKRevoked | HKCertificate | HKCertificateExpected | HKPinMismatch
  | HKRecordFailed | HKStoreUnsafe

fun host_key_state_str :: "host_key_state \<Rightarrow> bytes" where
  "host_key_state_str HKUnknown = ''unknown''"
| "host_key_state_str HKChanged = ''changed''"
| "host_key_state_str HKRevoked = ''revoked''"
| "host_key_state_str HKCertificate = ''certificate''"
| "host_key_state_str HKCertificateExpected = ''certificate_expected''"
| "host_key_state_str HKPinMismatch = ''pin_mismatch''"
| "host_key_state_str HKRecordFailed = ''record_failed''"
| "host_key_state_str HKStoreUnsafe = ''store_unsafe''"

record recorded_host_key =
  rk_fingerprint :: bytes
  rk_key_type :: bytes
  rk_source :: bytes
  rk_path :: bytes
  rk_line :: "32 word"

record host_key_failure =
  hk_message :: bytes
  hk_state :: host_key_state
  hk_host :: bytes
  hk_port :: "16 word"
  hk_alias :: "bytes option"
  hk_key_type :: "bytes option"
  hk_fingerprint :: "bytes option"
  hk_app_known_hosts :: "bytes option"
  hk_ca_covered :: bool
  hk_recorded :: "recorded_host_key list"
  hk_pinned :: "bytes option"

datatype engine_error =
    Usage bytes
  | Connect bytes failure_kind
  | Query bytes "bytes option" "32 word option" failure_kind
  | StaleHandle
  | Timeout bytes "64 word option"
  | HostKey host_key_failure
  | Internal bytes

fun kind_of_failure :: "engine_error \<Rightarrow> failure_kind" where
  "kind_of_failure (Connect _ kind) = kind"
| "kind_of_failure (Query _ _ _ kind) = kind"
| "kind_of_failure (Usage _) = Permanent"
| "kind_of_failure (Internal _) = Permanent"
| "kind_of_failure (HostKey _) = Permanent"
| "kind_of_failure (Timeout _ _) = Permanent"
| "kind_of_failure StaleHandle = Cancelled"

fun error_message :: "engine_error \<Rightarrow> bytes" where
  "error_message (Usage m) = m"
| "error_message (Connect m _) = m"
| "error_message (Query m _ _ _) = m"
| "error_message (Timeout m _) = m"
| "error_message (Internal m) = m"
| "error_message (HostKey failure) = hk_message failure"
| "error_message StaleHandle = ''result handle is stale''"

fun error_host_key :: "engine_error \<Rightarrow> host_key_failure option" where
  "error_host_key (HostKey failure) = Some failure"
| "error_host_key _ = None"

fun error_code :: "engine_error \<Rightarrow> bytes option" where
  "error_code (Query _ c _ _) = c"
| "error_code _ = None"

fun error_position :: "engine_error \<Rightarrow> 32 word option" where
  "error_position (Query _ _ p _) = p"
| "error_position _ = None"

fun error_limit_ms :: "engine_error \<Rightarrow> 64 word option" where
  "error_limit_ms (Timeout _ l) = l"
| "error_limit_ms _ = None"

text \<open>
  \<open>statement_timeout\<close>; a \<open>Duration\<close> is its nanoseconds.
\<close>

definition statement_timeout :: "nat option \<Rightarrow> bytes \<Rightarrow> engine_error" where
  "statement_timeout limit server_message =
     (let message = (case limit of
          Some l \<Rightarrow> ''the statement exceeded the '' @ nat_bytes (l div 1000000) @
            '' ms statement timeout and was cancelled by the server''
        | None \<Rightarrow> ''the statement was cancelled by the server because it exceeded a statement timeout'');
        message = (if trim server_message = [] then message else message @ '': '' @ trim server_message)
      in Timeout message
        (case limit of
           Some l \<Rightarrow> if l div 1000000 < 2 ^ 64 then Some (of_nat (l div 1000000)) else None
         | None \<Rightarrow> None))"

section \<open>Line spans\<close>

definition char_count :: "bytes \<Rightarrow> nat" where
  "char_count s = length (filter (\<lambda>c. \<not> is_continuation c) s)"

text \<open>\<open>sql.split('\\n')\<close>.\<close>

fun split_lines :: "bytes \<Rightarrow> bytes list" where
  "split_lines [] = [[]]"
| "split_lines (c # s) =
     (if c = CHR 0x0A then [] # split_lines s
      else (case split_lines s of l # ls \<Rightarrow> (c # l) # ls | [] \<Rightarrow> [[c]]))"

text \<open>\<open>u32::checked_add\<close> and \<open>u32::try_from\<close> on the values the source computes.\<close>

definition to_u32 :: "nat \<Rightarrow> 32 word option" where
  "to_u32 n = (if n < 2 ^ 32 then Some (of_nat n) else None)"

definition u32_checked_add :: "32 word \<Rightarrow> 32 word \<Rightarrow> 32 word option" where
  "u32_checked_add a b = (if unat a + unat b < 2 ^ 32 then Some (a + b) else None)"

text \<open>The loop of \<open>line_span\<close> over the lines that are left; \<open>number\<close> counts up to \<open>index\<close>.\<close>

fun line_span_loop :: "bytes list \<Rightarrow> nat \<Rightarrow> nat \<Rightarrow> 32 word \<Rightarrow> (32 word \<times> 32 word) option" where
  "line_span_loop [] number index before = None"
| "line_span_loop (l # ls) number index before =
     (case to_u32 (char_count l) of
        None \<Rightarrow> None
      | Some width \<Rightarrow>
          if number = index then Some (before, width)
          else (case u32_checked_add before width of
                  None \<Rightarrow> None
                | Some b \<Rightarrow>
                    (case u32_checked_add b 1 of
                       None \<Rightarrow> None
                     | Some b' \<Rightarrow> line_span_loop ls (Suc number) index b')))"

definition line_span :: "bytes \<Rightarrow> 32 word \<Rightarrow> (32 word \<times> 32 word) option" where
  "line_span sql line =
     (if line = 0 then None else line_span_loop (split_lines sql) 0 (unat (line - 1)) 0)"

definition offset_of_line_column :: "bytes \<Rightarrow> 32 word \<Rightarrow> 32 word \<Rightarrow> 32 word option" where
  "offset_of_line_column sql line column =
     (case line_span sql line of
        None \<Rightarrow> None
      | Some (before, width) \<Rightarrow>
          (case u32_checked_add width 1 of
             None \<Rightarrow> None
           | Some past \<Rightarrow> if 1 \<le> column \<and> column \<le> past then Some (before + column) else None))"

definition offset_of_line :: "bytes \<Rightarrow> 32 word \<Rightarrow> 32 word option" where
  "offset_of_line sql line = map_option (\<lambda>(before, _). before + 1) (line_span sql line)"

section \<open>The reference: reading line and column off the text\<close>

definition chars_of :: "bytes \<Rightarrow> bytes" where
  "chars_of s = filter (\<lambda>c. \<not> is_continuation c) s"

definition advance :: "nat \<times> nat \<Rightarrow> byte \<Rightarrow> nat \<times> nat" where
  "advance p c = (if c = CHR 0x0A then (fst p + 1, 1) else (fst p, snd p + 1))"

text \<open>The 1-based line and column after reading \<open>n - 1\<close> characters.\<close>

definition place_of :: "bytes \<Rightarrow> nat \<Rightarrow> nat \<times> nat" where
  "place_of sql n = foldl advance (1, 1) (take (n - 1) (chars_of sql))"

text \<open>The loop on lines of characters, without bounds.\<close>

fun line_at_index :: "bytes list \<Rightarrow> nat \<Rightarrow> nat \<Rightarrow> (nat \<times> nat) option" where
  "line_at_index [] i b = None"
| "line_at_index (l # ls) i b =
     (if i = 0 then Some (b, length l) else line_at_index ls (i - 1) (b + length l + 1))"

lemma char_count_chars: "char_count s = length (chars_of s)"
  by (simp add: char_count_def chars_of_def)

lemma newline_is_no_continuation [simp]: "\<not> is_continuation (CHR 0x0A)"
  by (simp add: is_continuation_def)

lemma foldl_advance_line:
  "CHR 0x0A \<notin> set l \<Longrightarrow> foldl advance (m, c) l = (m, c + length l)"
  by (induction l arbitrary: c) (auto simp: advance_def)

lemma foldl_advance_grows: "m \<le> fst (foldl advance (m, c) l)"
proof (induction l arbitrary: m c)
  case (Cons x l)
  have "m \<le> fst (advance (m, c) x)" by (simp add: advance_def)
  also have "\<dots> \<le> fst (foldl advance (advance (m, c) x) l)"
    using Cons [of "fst (advance (m, c) x)" "snd (advance (m, c) x)"] by simp
  finally show ?case by simp
qed simp

lemma line_at_index_ge: "line_at_index ls i b = Some (b', w) \<Longrightarrow> b \<le> b'"
  by (induction ls i b rule: line_at_index.induct) (auto split: if_splits)

lemma line_at_index_place:
  assumes "ls \<noteq> []" "\<forall>l \<in> set ls. CHR 0x0A \<notin> set l"
  shows "(\<exists>b' w. line_at_index ls i b = Some (b', w) \<and> 1 \<le> c \<and> c \<le> w + 1 \<and> n = b' + c) \<longleftrightarrow>
    b < n \<and> n \<le> b + length (join [CHR 0x0A] ls) + 1 \<and>
    foldl advance (m, 1) (take (n - b - 1) (join [CHR 0x0A] ls)) = (m + i, c)"
  using assms
proof (induction ls arbitrary: i b m)
  case (Cons l ls)
  have l: "CHR 0x0A \<notin> set l" using Cons.prems by simp
  have short: "foldl advance (m, 1) (take k l) = (m, 1 + min (length l) k)" for k
    using foldl_advance_line [of "take k l" m 1] l by (auto dest: in_set_takeD)
  show ?case
  proof (cases ls)
    case Nil
    then show ?thesis using short [of "n - b - 1"] by auto
  next
    case (Cons l2 ls2)
    let ?J = "join [CHR 0x0A] ls"
    have join: "join [CHR 0x0A] (l # ls) = l @ CHR 0x0A # ?J" using Cons by simp
    show ?thesis
    proof (cases "n - b - 1 \<le> length l")
      case True
      then have "foldl advance (m, 1) (take (n - b - 1) (join [CHR 0x0A] (l # ls))) = (m, 1 + (n - b - 1))"
        using short [of "n - b - 1"] by (simp add: join)
      with True show ?thesis
        by (cases "i = 0") (auto simp: join dest: line_at_index_ge)
    next
      case False
      then obtain k where k: "n - b - 1 = length l + 1 + k"
        by (metis Suc_eq_plus1 add.commute add_Suc_right not_less_eq_eq nat_le_iff_add)
      then have n: "n = (b + length l + 1) + k + 1" by simp
      have take: "take (n - b - 1) (join [CHR 0x0A] (l # ls)) = l @ CHR 0x0A # take k ?J"
        unfolding join k by simp
      have read: "foldl advance (m, 1) (take (n - b - 1) (join [CHR 0x0A] (l # ls))) =
          foldl advance (m + 1, 1) (take k ?J)"
        unfolding take by (simp add: foldl_advance_line [OF l] advance_def)
      show ?thesis
      proof (cases i)
        case 0
        have "fst (foldl advance (m + 1, 1) (take k ?J)) \<noteq> m"
          using foldl_advance_grows [of "m + 1" 1 "take k ?J"] by simp
        then show ?thesis unfolding read using 0 n by auto
      next
        case (Suc j)
        have IH: "(\<exists>b' w. line_at_index ls j (b + length l + 1) = Some (b', w) \<and> 1 \<le> c \<and> c \<le> w + 1 \<and> n = b' + c) \<longleftrightarrow>
            b + length l + 1 < n \<and> n \<le> b + length l + 1 + length ?J + 1 \<and>
            foldl advance (m + 1, 1) (take (n - (b + length l + 1) - 1) ?J) = (m + 1 + j, c)"
          by (rule Cons.IH) (use Cons.prems Cons in auto)
        show ?thesis unfolding read using IH Suc n by (simp add: join)
      qed
    qed
  qed
qed simp

section \<open>The loop computes the reference\<close>

lemma split_lines_ne [simp]: "split_lines s \<noteq> []"
  by (induction s) (auto split: list.splits)

lemma split_lines_join: "join [CHR 0x0A] (map chars_of (split_lines s)) = chars_of s"
proof (induction s)
  case (Cons c s)
  obtain l ls where split: "split_lines s = l # ls" by (cases "split_lines s") auto
  show ?case
  proof (cases "c = CHR 0x0A")
    case True
    then show ?thesis using Cons split by (simp add: chars_of_def)
  next
    case False
    then show ?thesis using Cons split by (cases ls) (auto simp: chars_of_def)
  qed
qed (simp add: chars_of_def)

lemma split_lines_no_newline: "\<forall>l \<in> set (map chars_of (split_lines s)). CHR 0x0A \<notin> set l"
proof (induction s)
  case (Cons c s)
  obtain l ls where "split_lines s = l # ls" by (cases "split_lines s") auto
  with Cons show ?case by (auto simp: chars_of_def)
qed (simp add: chars_of_def)

lemma unat_of_nat_small: "n < 2 ^ LENGTH('a) \<Longrightarrow> unat (of_nat n :: 'a::len word) = n"
  by (simp add: unsigned_of_nat take_bit_nat_eq_self)

lemma to_u32_small [simp]: "n < 2 ^ 32 \<Longrightarrow> to_u32 n = Some (of_nat n)"
  by (simp add: to_u32_def)

lemma u32_checked_add_small:
  "a + b < 2 ^ 32 \<Longrightarrow> u32_checked_add (of_nat a) (of_nat b) = Some (of_nat (a + b))"
  by (simp add: u32_checked_add_def unat_of_nat_small)

lemma line_span_loop_eq:
  assumes "b + length (join [CHR 0x0A] (map chars_of ls)) + 1 < 2 ^ 32" "number \<le> index"
  shows "line_span_loop ls number index (of_nat b) =
    map_option (\<lambda>(b', w). (of_nat b', of_nat w)) (line_at_index (map chars_of ls) (index - number) b)"
  using assms
proof (induction ls arbitrary: number b)
  case (Cons l ls)
  have len: "b + length (chars_of l) + 1 < 2 ^ 32"
    using Cons.prems(1) by (cases ls) auto
  show ?case
  proof (cases "number = index")
    case True
    then show ?thesis using len by (simp add: char_count_chars)
  next
    case False
    have add1: "u32_checked_add (of_nat b) (of_nat (length (chars_of l))) = Some (of_nat (b + length (chars_of l)))"
      by (rule u32_checked_add_small) (use len in simp)
    have add2: "u32_checked_add (of_nat (b + length (chars_of l))) 1 = Some (of_nat (b + length (chars_of l) + 1))"
      using u32_checked_add_small [of "b + length (chars_of l)" 1] len by simp
    show ?thesis
    proof (cases ls)
      case Nil
      then show ?thesis using False add1 add2 len Cons.prems by (simp add: char_count_chars)
    next
      case (Cons l2 ls2)
      then have "line_span_loop ls (Suc number) index (of_nat (b + length (chars_of l) + 1)) =
          map_option (\<lambda>(b', w). (of_nat b', of_nat w))
            (line_at_index (map chars_of ls) (index - Suc number) (b + length (chars_of l) + 1))"
        using Cons.prems False by (intro Cons.IH) auto
      then show ?thesis using False add1 add2 len Cons.prems(2) by (simp add: char_count_chars)
    qed
  qed
qed simp

lemma line_at_index_bound:
  "line_at_index ls i b = Some (b', w) \<Longrightarrow> b' + w \<le> b + length (join [CHR 0x0A] ls)"
proof (induction ls i b rule: line_at_index.induct)
  case (2 l ls i b)
  then show ?case by (cases ls) (auto split: if_splits)
qed simp

lemma line_span_eq:
  assumes "char_count sql + 1 < 2 ^ 32" "line \<noteq> 0"
  shows "line_span sql line = map_option (\<lambda>(b, w). (of_nat b, of_nat w))
    (line_at_index (map chars_of (split_lines sql)) (unat line - 1) 0)"
proof -
  have "unat (line - 1) = unat line - 1"
    using assms(2) by (metis unat_minus_one)
  with line_span_loop_eq [of 0 "split_lines sql" 0 "unat (line - 1)"] assms show ?thesis
    by (simp add: line_span_def split_lines_join char_count_chars)
qed

lemma offset_of_line_column_eq:
  assumes "char_count sql + 1 < 2 ^ 32"
  shows "offset_of_line_column sql line column = Some off \<longleftrightarrow>
    line \<noteq> 0 \<and> (\<exists>b w. line_at_index (map chars_of (split_lines sql)) (unat line - 1) 0 = Some (b, w) \<and>
      1 \<le> unat column \<and> unat column \<le> w + 1 \<and> unat off = b + unat column)"
proof (cases "line = 0 \<or> line_at_index (map chars_of (split_lines sql)) (unat line - 1) 0 = None")
  case True
  then show ?thesis
    using line_span_eq [OF assms, of line] by (auto simp: offset_of_line_column_def line_span_def)
next
  case False
  then obtain b w where span: "line_at_index (map chars_of (split_lines sql)) (unat line - 1) 0 = Some (b, w)"
    by auto
  have bound: "b + w + 1 < 2 ^ 32"
    using line_at_index_bound [OF span] assms by (simp add: split_lines_join char_count_chars)
  have past: "u32_checked_add (of_nat w) 1 = Some (of_nat (w + 1))"
    using u32_checked_add_small [of w 1] bound by simp
  have column: "column \<le> of_nat (w + 1) \<longleftrightarrow> unat column \<le> w + 1" "1 \<le> column \<longleftrightarrow> 1 \<le> unat column"
    using bound by (simp_all add: word_le_nat_alt unat_of_nat_small del: of_nat_add of_nat_Suc)
  have sum: "of_nat b + column = off \<longleftrightarrow> unat off = b + unat column" if "unat column \<le> w + 1"
  proof -
    have "of_nat b + column = of_nat (b + unat column)" by simp
    moreover have "unat (of_nat (b + unat column) :: 32 word) = b + unat column"
      by (rule unat_of_nat_small) (use that bound in simp)
    ultimately show ?thesis by (metis unsigned_word_eqI)
  qed
  have "offset_of_line_column sql line column =
      (if 1 \<le> column \<and> column \<le> of_nat (w + 1) then Some (of_nat b + column) else None)"
    using line_span_eq [OF assms, of line] False span past by (simp add: offset_of_line_column_def)
  then show ?thesis using False span column sum by auto
qed

text \<open>
  C25. \<open>offset_of_line_column\<close> is the inverse of reading: for every text of less than 4G characters it
  returns the offset \<open>off\<close> exactly when \<open>off\<close> is an offset of the text (or the one past its end)
  whose line and column, read off the text before it, are the ones asked for.
\<close>
theorem offset_is_place:
  assumes "char_count sql + 1 < 2 ^ 32"
  shows "offset_of_line_column sql line column = Some off \<longleftrightarrow>
    1 \<le> unat off \<and> unat off \<le> char_count sql + 1 \<and> place_of sql (unat off) = (unat line, unat column)"
proof (cases "line = 0")
  case True
  have "1 \<le> fst (place_of sql (unat off))"
    using foldl_advance_grows [of 1 1] by (simp add: place_of_def)
  then show ?thesis using True offset_of_line_column_eq [OF assms, of line column off] by auto
next
  case False
  then have "1 + (unat line - 1) = unat line" by (simp add: unat_gt_0 Suc_leI)
  then show ?thesis
    using line_at_index_place [of "map chars_of (split_lines sql)" "unat line - 1" 0 "unat column" "unat off" 1]
      offset_of_line_column_eq [OF assms, of line column off] False
    by (auto simp: split_lines_no_newline split_lines_join char_count_chars place_of_def
      dest: bspec [OF split_lines_no_newline])
qed

theorem offset_is_place_witness:
  "offset_of_line_column (''SELECT'' @ [CHR 0x0A, CHR 0xC3, CHR 0xA9, CHR ''x'']) 2 2 = Some 9"
  by (subst offset_is_place) (simp_all add: char_count_def place_of_def chars_of_def is_continuation_def advance_def)

end
