(* ===== verification/Retry.thy ===== *)
theory Retry
  imports EngineError Settings
begin

text \<open>
  The session layer's retry, \<^verbatim>\<open>crates/qh-ffi/src/retry.rs\<close>: \<open>connect\<close>, \<open>execute\<close>, \<open>browse\<close>, \<open>objects\<close>
  and the cursor that asks for a page again.

  A driver is code outside this file's crate, so each of its calls is a parameter: a function from the
  driver's state to an error or a result and the driver's next state. The four loops of the source are
  the same loop around different calls, \<open>retry_loop\<close>; \<open>ok\<close> is what a call site asks of an error
  besides \<open>again\<close>. The lines written to stderr and the waits are the returned list of \<open>log_entry\<close>. A
  \<open>Duration\<close> is its nanoseconds.

  \<open>retry_loop_calls\<close> says which calls a loop makes and what it returns; the properties are its
  instances.
\<close>

section \<open>The policy\<close>

definition DURATION_MAX :: nat where
  "DURATION_MAX = (2 ^ 64 - 1) * 1000000000 + 999999999"

definition duration_saturating_mul :: "nat \<Rightarrow> 32 word \<Rightarrow> nat" where
  "duration_saturating_mul d n = min (d * unat n) DURATION_MAX"

definition DEFAULT_RETRIES :: int where
  "DEFAULT_RETRIES = 5"

definition BACKOFF_BASE :: nat where
  "BACKOFF_BASE = 2 * 1000000000"

record retry_policy =
  retries :: "32 word"
  backoff :: nat

definition retry_policy_new :: "32 word \<Rightarrow> nat \<Rightarrow> retry_policy" where
  "retry_policy_new r b = \<lparr>retries = r, backoff = b\<rparr>"

definition retry_from_settings :: "settings \<Rightarrow> setting_error + retry_policy" where
  "retry_from_settings s =
     (case number_setting s ''RETRIES'' DEFAULT_RETRIES of
        Inl e \<Rightarrow> Inl e
      | Inr n \<Rightarrow>
          (let n = max n 0 in
           Inr (retry_policy_new (if n < 2 ^ 32 then of_int n else - 1) BACKOFF_BASE)))"

text \<open>Total attempts; the addition is not checked in the source.\<close>

definition attempts :: "retry_policy \<Rightarrow> 32 word" where
  "attempts p = retries p + 1"

text \<open>\<open>1u32.checked_shl(attempt).unwrap_or(u32::MAX)\<close>.\<close>

definition delay_factor :: "32 word \<Rightarrow> 32 word" where
  "delay_factor attempt = (if attempt < 32 then push_bit (unat attempt) 1 else - 1)"

definition delay :: "retry_policy \<Rightarrow> 32 word \<Rightarrow> nat" where
  "delay p attempt = duration_saturating_mul (backoff p) (delay_factor attempt)"

definition again :: "retry_policy \<Rightarrow> 32 word \<Rightarrow> engine_error \<Rightarrow> bool" where
  "again p attempt e \<longleftrightarrow> attempt < retries p \<and> kind_of_failure e = Transient"

fun produced_no_page :: "engine_error \<Rightarrow> bool" where
  "produced_no_page (Connect _ _) = True"
| "produced_no_page (Query _ c _ _) = (c = None)"
| "produced_no_page _ = False"

definition again_mid_stream :: "retry_policy \<Rightarrow> 32 word \<Rightarrow> engine_error \<Rightarrow> bool" where
  "again_mid_stream p attempt e \<longleftrightarrow> again p attempt e \<and> produced_no_page e"

record log_entry =
  le_number :: "32 word"
  le_retries :: "32 word"
  le_what :: bytes
  le_delay :: nat
  le_message :: bytes

text \<open>\<open>wait\<close>: the line it writes and the time it sleeps.\<close>

definition wait :: "retry_policy \<Rightarrow> 32 word \<Rightarrow> bytes \<Rightarrow> engine_error \<Rightarrow> log_entry" where
  "wait p attempt what e =
     \<lparr>le_number = attempt + 1, le_retries = retries p, le_what = what, le_delay = delay p attempt,
      le_message = error_message e\<rparr>"

section \<open>The loop\<close>

lemma unat_attempt_Suc:
  assumes "attempt < n"
  shows "unat (attempt + 1 :: 32 word) = Suc (unat attempt)"
proof -
  have "unat n < 2 ^ LENGTH(32)" by (rule unsigned_less)
  with assms have "Suc (unat attempt) < 2 ^ LENGTH(32)" by (simp add: word_less_nat_alt)
  then have "unat (of_nat (Suc (unat attempt)) :: 32 word) = Suc (unat attempt)"
    by (rule unat_of_nat_small)
  then show ?thesis by (simp add: add.commute)
qed

type_synonym ('s, 'a) driver_call = "'s \<Rightarrow> (engine_error + 'a) \<times> 's"

function retry_loop :: "('s, 'a) driver_call \<Rightarrow> (engine_error \<Rightarrow> bool) \<Rightarrow> bytes \<Rightarrow> retry_policy \<Rightarrow>
    32 word \<Rightarrow> 's \<Rightarrow> (engine_error + 'a) \<times> log_entry list \<times> 's" where
  "retry_loop call ok what p attempt s =
     (case call s of
        (Inr a, s') \<Rightarrow> (Inr a, [], s')
      | (Inl e, s') \<Rightarrow>
          if again p attempt e \<and> ok e then
            (let (r, ws, s'') = retry_loop call ok what p (attempt + 1) s' in (r, wait p attempt what e # ws, s''))
          else (Inl e, [], s'))"
  by pat_completeness auto

termination
  by (relation "measure (\<lambda>(call, ok, what, p, attempt, s). unat (retries p) - unat attempt)")
    (auto simp: again_def word_less_nat_alt unat_attempt_Suc)

declare retry_loop.simps [simp del]

definition retry_connect :: "('s, 'c) driver_call \<Rightarrow> retry_policy \<Rightarrow> 's \<Rightarrow>
    (engine_error + 'c) \<times> log_entry list \<times> 's" where
  "retry_connect connect p s = retry_loop connect (\<lambda>_. True) ''connect'' p 0 s"

definition retry_browse :: "('s, bytes list) driver_call \<Rightarrow> retry_policy \<Rightarrow> 's \<Rightarrow>
    (engine_error + bytes list) \<times> log_entry list \<times> 's" where
  "retry_browse browse p s = retry_loop browse (\<lambda>_. True) ''list'' p 0 s"

definition retry_objects :: "('s, 'o) driver_call \<Rightarrow> retry_policy \<Rightarrow> 's \<Rightarrow>
    (engine_error + 'o) \<times> log_entry list \<times> 's" where
  "retry_objects objects p s = retry_loop objects (\<lambda>_. True) ''objects'' p 0 s"

record 'c retry_cursor =
  inner :: 'c
  policy :: retry_policy
  resumable :: bool

text \<open>
  \<open>persistent\<close> is \<open>session.capabilities().persistent_connection\<close>, asked once the statement ran.
\<close>

definition retry_execute :: "('s, 'c) driver_call \<Rightarrow> ('s \<Rightarrow> bool) \<Rightarrow> retry_policy \<Rightarrow> 's \<Rightarrow>
    (engine_error + 'c retry_cursor) \<times> log_entry list \<times> 's" where
  "retry_execute execute persistent p s =
     (case retry_loop execute (\<lambda>_. True) ''execute'' p 0 s of
        (Inl e, ws, s') \<Rightarrow> (Inl e, ws, s')
      | (Inr c, ws, s') \<Rightarrow> (Inr \<lparr>inner = c, policy = p, resumable = \<not> persistent s'\<rparr>, ws, s'))"

definition retry_next_batch :: "('c, 'b option) driver_call \<Rightarrow> 'c retry_cursor \<Rightarrow>
    (engine_error + 'b option) \<times> log_entry list \<times> 'c retry_cursor" where
  "retry_next_batch next_batch c =
     (case retry_loop next_batch (\<lambda>e. resumable c \<and> produced_no_page e) ''fetch'' (policy c) 0 (inner c) of
        (r, ws, c') \<Rightarrow> (r, ws, c\<lparr>inner := c'\<rparr>))"

section \<open>Which calls a loop makes\<close>

text \<open>The driver's state after \<open>n\<close> calls, and whether the result of a call is worth another one.\<close>

definition call_state :: "('s, 'a) driver_call \<Rightarrow> nat \<Rightarrow> 's \<Rightarrow> 's" where
  "call_state call n s = ((\<lambda>s. snd (call s)) ^^ n) s"

definition outcome :: "('s, 'a) driver_call \<Rightarrow> 's \<Rightarrow> nat \<Rightarrow> engine_error + 'a" where
  "outcome call s i = fst (call (call_state call i s))"

definition retryable :: "(engine_error \<Rightarrow> bool) \<Rightarrow> engine_error + 'a \<Rightarrow> bool" where
  "retryable ok r \<longleftrightarrow> (case r of Inl e \<Rightarrow> kind_of_failure e = Transient \<and> ok e | Inr _ \<Rightarrow> False)"

text \<open>How many of the first \<open>m\<close> calls fail in a row with an error worth another call.\<close>

definition failures :: "('s, 'a) driver_call \<Rightarrow> (engine_error \<Rightarrow> bool) \<Rightarrow> 's \<Rightarrow> nat \<Rightarrow> nat" where
  "failures call ok s m = length (takeWhile (retryable ok) (map (outcome call s) [0..<m]))"

lemma call_state_0 [simp]: "call_state call 0 s = s"
  by (simp add: call_state_def)

lemma call_state_Suc: "call_state call (Suc n) s = call_state call n (snd (call s))"
  by (simp add: call_state_def funpow_Suc_right del: funpow.simps)

lemma outcome_0 [simp]: "outcome call s 0 = fst (call s)"
  by (simp add: outcome_def)

lemma outcome_Suc: "outcome call s (Suc i) = outcome call (snd (call s)) i"
  by (simp add: outcome_def call_state_Suc)

lemma failures_0 [simp]: "failures call ok s 0 = 0"
  by (simp add: failures_def)

lemma failures_Suc:
  "failures call ok s (Suc m) =
     (if retryable ok (fst (call s)) then Suc (failures call ok (snd (call s)) m) else 0)"
proof -
  have "map (outcome call s) [0..<Suc m] = fst (call s) # map (outcome call (snd (call s))) [0..<m]"
    by (simp add: upt_conv_Cons map_Suc_upt [symmetric] comp_def outcome_Suc del: upt_Suc)
  then show ?thesis by (simp add: failures_def del: upt_Suc)
qed

lemma failures_le: "failures call ok s m \<le> m"
  unfolding failures_def by (rule order_trans [OF length_takeWhile_le]) simp

lemma failures_retryable: "i < failures call ok s m \<Longrightarrow> retryable ok (outcome call s i)"
proof (induction m arbitrary: s i)
  case (Suc m)
  then show ?case by (cases i) (auto simp: failures_Suc outcome_Suc split: if_splits)
qed simp

lemma failures_stop: "failures call ok s m < m \<Longrightarrow> \<not> retryable ok (outcome call s (failures call ok s m))"
proof (induction m arbitrary: s)
  case (Suc m)
  then show ?case by (auto simp: failures_Suc outcome_Suc)
qed simp

lemma failures_eqI:
  "(\<And>i. i < n \<Longrightarrow> retryable ok (outcome call s i)) \<Longrightarrow> n < m \<longrightarrow> \<not> retryable ok (outcome call s n) \<Longrightarrow> n \<le> m \<Longrightarrow>
     failures call ok s m = n"
  by (metis failures_le failures_retryable failures_stop linorder_neqE_nat order_less_le_trans)

lemma retry_loop_calls:
  assumes "attempt \<le> retries p"
  shows "let n = failures call ok s (unat (retries p) - unat attempt) in
    \<exists>ws. retry_loop call ok what p attempt s = (outcome call s n, ws, call_state call (Suc n) s) \<and>
      map le_delay ws = map (\<lambda>i. delay p (attempt + of_nat i)) [0..<n]"
  unfolding Let_def using assms
proof (induction "unat (retries p) - unat attempt" arbitrary: attempt s)
  case 0
  then have "\<not> attempt < retries p" by (simp add: word_less_nat_alt)
  then show ?case using 0(1)
    by (subst retry_loop.simps)
      (auto simp: again_def call_state_Suc simp flip: 0(1) split: prod.splits sum.splits)
next
  case (Suc m)
  then have less: "attempt < retries p" by (simp add: word_less_nat_alt)
  obtain r s' where call: "call s = (r, s')" by (cases "call s")
  show ?case
  proof (cases "retryable ok r")
    case False
    then show ?thesis using call less
      by (subst retry_loop.simps)
        (auto simp: again_def call_state_Suc failures_Suc retryable_def simp flip: Suc(2) split: sum.splits)
  next
    case True
    then obtain e where e: "r = Inl e" "again p attempt e" "ok e"
      using less by (auto simp: retryable_def again_def split: sum.splits)
    have m: "unat (retries p) - unat (attempt + 1) = m"
      using Suc(2) unat_attempt_Suc [OF less] by simp
    have "attempt + 1 \<le> retries p"
      using less unat_attempt_Suc [OF less] by (simp add: word_less_nat_alt word_le_nat_alt)
    with Suc(1) [of "attempt + 1" s'] m obtain ws where ws:
      "retry_loop call ok what p (attempt + 1) s' =
        (outcome call s' (failures call ok s' m), ws, call_state call (Suc (failures call ok s' m)) s')"
      "map le_delay ws = map (\<lambda>i. delay p (attempt + 1 + of_nat i)) [0..<failures call ok s' m]"
      by auto
    have n: "failures call ok s (unat (retries p) - unat attempt) = Suc (failures call ok s' m)"
      using True call by (simp add: failures_Suc flip: Suc(2))
    have "retry_loop call ok what p attempt s = (outcome call s' (failures call ok s' m),
        wait p attempt what e # ws, call_state call (Suc (failures call ok s' m)) s')"
      using call e ws(1) by (subst retry_loop.simps) simp
    moreover have "map le_delay (wait p attempt what e # ws) =
        map (\<lambda>i. delay p (attempt + of_nat i)) [0..<Suc (failures call ok s' m)]"
      using ws(2) by (simp add: wait_def upt_conv_Cons map_Suc_upt [symmetric] comp_def add.assoc del: upt_Suc)
    ultimately show ?thesis unfolding n using call
      by (auto simp: outcome_Suc call_state_Suc [of call "Suc _" s])
  qed
qed

lemma retry_loop_from_0:
  obtains ws where
    "retry_loop call ok what p 0 s =
      (outcome call s (failures call ok s (unat (retries p))), ws,
       call_state call (Suc (failures call ok s (unat (retries p)))) s)"
    "map le_delay ws = map (\<lambda>i. delay p (of_nat i)) [0..<failures call ok s (unat (retries p))]"
  using retry_loop_calls [of 0 p call ok s what] by (auto simp: Let_def)

section \<open>Properties\<close>

text \<open>
  C23. \<open>connect\<close> always returns. It calls the driver until a call succeeds, fails for a reason that a
  retry cannot help with, or is the last of the \<open>retries + 1\<close>; it returns that call's answer, and has
  waited \<open>delay 0\<close>, \<open>delay 1\<close>, and so on before each call but the first.
\<close>
theorem connect_makes_these_calls:
  "let n = failures connect (\<lambda>_. True) s (unat (retries p)) in
   n \<le> unat (retries p) \<and>
   (\<exists>ws. retry_connect connect p s = (outcome connect s n, ws, call_state connect (Suc n) s) \<and>
     map le_delay ws = map (\<lambda>i. delay p (of_nat i)) [0..<n])"
  unfolding retry_connect_def Let_def using retry_loop_from_0 failures_le by metis

text \<open>
  C24. An accident is survived: when the first \<open>k\<close> attempts to connect fail with a transient error, the
  next one succeeds and \<open>k\<close> is no more than the retries, \<open>connect\<close> returns that session.
\<close>
theorem connect_gets_through:
  assumes "\<forall>i < k. \<exists>e. outcome connect s i = Inl e \<and> kind_of_failure e = Transient"
    and "outcome connect s k = Inr session" and "k \<le> unat (retries p)"
  shows "fst (retry_connect connect p s) = Inr session"
proof -
  have "failures connect (\<lambda>_. True) s (unat (retries p)) = k"
    by (rule failures_eqI) (use assms in \<open>auto simp: retryable_def split: sum.splits\<close>)
  then show ?thesis
    unfolding retry_connect_def
    by (rule_tac retry_loop_from_0 [of connect "\<lambda>_. True" "''connect''" p s]) (simp add: assms(2))
qed

theorem connect_gets_through_witness:
  "fst (retry_connect (\<lambda>n::nat. (if n < 2 then Inl (Connect ''refused'' Transient) else Inr ''session'', n + 1))
     (retry_policy_new 5 BACKOFF_BASE) 0) = Inr ''session''"
proof (rule connect_gets_through [where k = 2])
  show "2 \<le> unat (retries (retry_policy_new 5 BACKOFF_BASE))"
    by (simp add: retry_policy_new_def)
qed (auto simp: outcome_def call_state_def numeral_2_eq_2 less_Suc_eq)

text \<open>
  The wait doubles from the backoff and never overflows: before retry number \<open>a\<close> (from 0) it is
  the backoff times \<open>2 ^ a\<close>, where the factor stops at the largest 32-bit number and the product at the
  longest \<open>Duration\<close>.
\<close>
theorem delay_doubles:
  "delay p a = min (backoff p * min (2 ^ unat a) (2 ^ 32 - 1)) DURATION_MAX"
proof (cases "a < 32")
  case True
  then have a: "unat a < 32" by (simp add: word_less_nat_alt)
  then have "(2::nat) ^ unat a < 2 ^ 32" by (intro power_strict_increasing) auto
  then have "unat (push_bit (unat a) (1 :: 32 word)) = 2 ^ unat a"
    using unat_of_nat_small [of "2 ^ unat a", where 'a = 32] by (simp add: push_bit_eq_mult)
  with \<open>(2::nat) ^ unat a < 2 ^ 32\<close> True show ?thesis
    by (simp add: delay_def delay_factor_def duration_saturating_mul_def min_def)
next
  case False
  then have "32 \<le> unat a" by (simp add: word_less_nat_alt)
  then have "(2::nat) ^ 32 \<le> 2 ^ unat a" by (intro power_increasing) auto
  then have "min ((2::nat) ^ unat a) (2 ^ 32 - 1) = 2 ^ 32 - 1" by (simp add: min_def)
  moreover have "unat (- 1 :: 32 word) = 2 ^ 32 - 1"
    by (simp add: unsigned_minus_1_eq_mask mask_eq_exp_minus_1)
  ultimately show ?thesis using False
    by (simp add: delay_def delay_factor_def duration_saturating_mul_def)
qed

text \<open>The five default waits: 62 seconds together.\<close>

lemma default_waits:
  "map (\<lambda>i. delay (retry_policy_new 5 BACKOFF_BASE) (of_nat i) div 1000000000) [0..<5] = [2, 4, 8, 16, 32]"
  by (simp add: delay_doubles retry_policy_new_def BACKOFF_BASE_def DURATION_MAX_def upt_rec unat_of_nat_small)

text \<open>
  C22. A fetch is repeated only when nothing came of it. When the cursor that \<open>execute\<close> handed back is
  asked for a batch, every call before the last failed transiently with no page produced; on a
  driver whose cursor lives in its connection there is exactly one call.
\<close>
theorem fetch_repeats_nothing:
  assumes "retry_execute execute persistent p s = (Inr c, ws, s')"
    and "retry_next_batch next_batch c = (r, ws', c')"
  shows "r = outcome next_batch (inner c) (length ws') \<and>
    inner c' = call_state next_batch (Suc (length ws')) (inner c) \<and>
    length ws' \<le> unat (retries p) \<and> \<not> (persistent s' \<and> ws' \<noteq> []) \<and>
    list_all (\<lambda>i. case outcome next_batch (inner c) i of
      Inl e \<Rightarrow> kind_of_failure e = Transient \<and> produced_no_page e | Inr _ \<Rightarrow> False) [0..<length ws']"
proof -
  let ?ok = "\<lambda>e. resumable c \<and> produced_no_page e"
  let ?n = "failures next_batch ?ok (inner c) (unat (retries p))"
  have c: "policy c = p" "resumable c = (\<not> persistent s')"
    using assms(1) by (auto simp: retry_execute_def split: prod.splits sum.splits)
  obtain v where loop: "retry_loop next_batch ?ok ''fetch'' p 0 (inner c) =
      (outcome next_batch (inner c) ?n, v, call_state next_batch (Suc ?n) (inner c))"
    and v: "map le_delay v = map (\<lambda>i. delay p (of_nat i)) [0..<?n]"
    by (rule retry_loop_from_0)
  have n: "length ws' = ?n"
    using assms(2) loop v c by (auto simp: retry_next_batch_def dest: arg_cong [where f = length])
  have each: "\<exists>e. outcome next_batch (inner c) i = Inl e \<and> kind_of_failure e = Transient \<and> ?ok e"
    if "i < ?n" for i
    using failures_retryable [OF that] by (auto simp: retryable_def split: sum.splits)
  have "?n = 0" if "persistent s'"
    using each [of 0] c that by (cases "?n") auto
  moreover have "list_all (\<lambda>i. case outcome next_batch (inner c) i of
      Inl e \<Rightarrow> kind_of_failure e = Transient \<and> produced_no_page e | Inr _ \<Rightarrow> False) [0..<?n]"
    by (auto simp: list_all_iff dest!: each)
  moreover have "?n \<le> unat (retries p)" by (rule failures_le)
  ultimately show ?thesis
    using assms(2) loop c n by (auto simp: retry_next_batch_def)
qed

text \<open>A Trino-like session: two refusals to answer, then a page, and no connection to lose.\<close>

definition paging_cursor :: "nat \<Rightarrow> (engine_error + bytes option) \<times> nat" where
  "paging_cursor n = (if n < 2 then Inl (Query ''reset'' None None Transient) else Inr (Some ''row''), n + 1)"

definition paging_session :: "nat retry_cursor" where
  "paging_session = \<lparr>inner = 0, policy = retry_policy_new 5 BACKOFF_BASE, resumable = True\<rparr>"

theorem fetch_repeats_nothing_witness:
  "\<exists>ws c'. retry_next_batch paging_cursor paging_session = (outcome paging_cursor 0 (length ws), ws, c') \<and>
     length ws \<le> 5"
proof -
  obtain r ws c' where res: "retry_next_batch paging_cursor paging_session = (r, ws, c')"
    by (cases "retry_next_batch paging_cursor paging_session") auto
  have "retry_execute (\<lambda>s. (Inr 0, s)) (\<lambda>_. False) (retry_policy_new 5 BACKOFF_BASE) () =
      (Inr paging_session, [], ())"
    by (simp add: retry_execute_def retry_loop.simps paging_session_def)
  from fetch_repeats_nothing [OF this res] res show ?thesis
    by (auto simp: paging_session_def retry_policy_new_def)
qed

text \<open>
  C21. No row is lost or delivered twice by a retry. Of the driver it is assumed only what the module
  relies on: a batch takes its rows from the front of what is left, and a call that produced no page
  leaves what is left as it was. Then a batch that \<open>next_batch\<close> delivers after any number of retries
  is again the front of what was left before, and the end of the result is reported only when a call
  of the driver reported it.
\<close>
theorem retries_keep_the_rows:
  assumes "\<forall>c e c'. next_batch c = (Inl e, c') \<and> produced_no_page e \<longrightarrow> rows_left c' = rows_left c"
    and "\<forall>c b c'. next_batch c = (Inr (Some b), c') \<longrightarrow> rows_left c = b @ rows_left c'"
    and "\<forall>c c'. next_batch c = (Inr None, c') \<longrightarrow> rows_left c = [] \<and> rows_left c' = []"
    and "retry_next_batch next_batch cur = (Inr batch, ws, cur')"
  shows "rows_left (inner cur) = (case batch of Some b \<Rightarrow> b | None \<Rightarrow> []) @ rows_left (inner cur')"
proof -
  let ?ok = "\<lambda>e. resumable cur \<and> produced_no_page e"
  let ?n = "failures next_batch ?ok (inner cur) (unat (retries (policy cur)))"
  obtain v where loop: "retry_loop next_batch ?ok ''fetch'' (policy cur) 0 (inner cur) =
      (outcome next_batch (inner cur) ?n, v, call_state next_batch (Suc ?n) (inner cur))"
    by (rule retry_loop_from_0)
  then have "outcome next_batch (inner cur) ?n = Inr batch"
    and "inner cur' = call_state next_batch (Suc ?n) (inner cur)"
    using assms(4) by (auto simp: retry_next_batch_def)
  then have end_call: "next_batch (call_state next_batch ?n (inner cur)) = (Inr batch, inner cur')"
    by (simp add: outcome_def call_state_def prod_eq_iff)
  have "rows_left (call_state next_batch k (inner cur)) = rows_left (inner cur)" if "k \<le> ?n" for k
    using that
  proof (induction k)
    case (Suc k)
    then have "retryable ?ok (outcome next_batch (inner cur) k)"
      by (intro failures_retryable [of k next_batch ?ok "inner cur" "unat (retries (policy cur))"]) simp
    then obtain e where "next_batch (call_state next_batch k (inner cur)) =
        (Inl e, call_state next_batch (Suc k) (inner cur))" "produced_no_page e"
      by (auto simp: retryable_def outcome_def call_state_def prod_eq_iff split: sum.splits)
    with assms(1) Suc show ?case by (metis Suc_leD)
  qed simp
  from this [of ?n] end_call assms(2,3) show ?thesis by (cases batch) auto
qed

text \<open>A result of three rows, two to a page, whose second page fails once on the way.\<close>

definition three_rows :: "nat \<Rightarrow> (engine_error + nat list option) \<times> nat" where
  "three_rows n =
     (if n = 0 then (Inr (Some [1, 2]), 1)
      else if n = 1 then (Inl (Query ''reset'' None None Transient), 2)
      else if n = 2 then (Inr (Some [3]), 3)
      else (Inr None, 4))"

definition three_rows_left :: "nat \<Rightarrow> nat list" where
  "three_rows_left n = (if n = 0 then [1, 2, 3] else if n \<le> 2 then [3] else [])"

theorem retries_keep_the_rows_witness:
  "\<exists>ws cur'. retry_next_batch three_rows (paging_session\<lparr>inner := 1\<rparr>) = (Inr (Some [3]), ws, cur') \<and>
     three_rows_left 1 = [3] @ three_rows_left (inner cur')"
proof -
  have "\<exists>ws cur'. retry_next_batch three_rows (paging_session\<lparr>inner := 1\<rparr>) = (Inr (Some [3]), ws, cur')"
    by (simp add: retry_next_batch_def paging_session_def retry_policy_new_def retry_loop.simps three_rows_def
      again_def)
  then obtain ws cur' where run:
    "retry_next_batch three_rows (paging_session\<lparr>inner := 1\<rparr>) = (Inr (Some [3]), ws, cur')" by blast
  have "three_rows_left (inner (paging_session\<lparr>inner := 1\<rparr>)) =
      (case Some [3] of Some b \<Rightarrow> b | None \<Rightarrow> []) @ three_rows_left (inner cur')"
    by (rule retries_keep_the_rows [OF _ _ _ run])
      (auto simp: three_rows_def three_rows_left_def split: if_splits)
  with run show ?thesis by (auto simp: paging_session_def)
qed

lemma attempts_overflow:
  "\<exists>p. retry_from_settings [(''RETRIES'', ''4294967295'')] = Inr p \<and> attempts p = 0"
proof -
  have "trim ''4294967295'' = ''4294967295''" by code_simp
  then have "number_setting [(''RETRIES'', ''4294967295'')] ''RETRIES'' DEFAULT_RETRIES = Inr 4294967295"
    by (simp add: number_setting_def text_setting_def raw_setting_def setting_def parse_i64_def
      parse_int_in_def all_digits_def digits_val_def i64_min_def i64_max_def is_ascii_digit_def)
  then show ?thesis by (simp add: retry_from_settings_def attempts_def retry_policy_new_def)
qed

end
