(* ===== verification/Paths.thy ===== *)
theory Paths
  imports Settings TextOps
begin

text \<open>The operations of \<open>std::path\<close> the engine uses, on the bytes of a path.\<close>

text \<open>\<open>PathBuf::join\<close>, \<open>Path::file_name\<close> and, for a path that has one, \<open>Path::parent\<close>.\<close>

definition path_join :: "bytes \<Rightarrow> bytes \<Rightarrow> bytes" where
  "path_join a b =
     (if prefix ''/'' b then b
      else if a = [] \<or> last a = CHR ''/'' then a @ b else a @ ''/'' @ b)"

definition trivial_part :: "bytes \<Rightarrow> bool" where
  "trivial_part s \<longleftrightarrow> s = [] \<or> s = ''.''"

definition path_file_name :: "bytes \<Rightarrow> bytes option" where
  "path_file_name p =
     (case dropWhile trivial_part (rev (split_on (CHR ''/'') p)) of
        [] \<Rightarrow> None
      | s # rest \<Rightarrow> if s = ''..'' then None else Some s)"

definition path_parent :: "bytes \<Rightarrow> bytes" where
  "path_parent p =
     (let parts = split_on (CHR ''/'') p;
          rest = dropWhile trivial_part (tl (dropWhile trivial_part (rev parts)))
      in if rest \<noteq> [] then join ''/'' (rev rest)
         else if prefix ''/'' p then ''/''
         else if hd parts = ''.'' then ''.'' else [])"

end
