(* ===== verification/PoolKey.thy ===== *)
theory PoolKey
  imports SqlIdent EngineError Paths
begin

text \<open>
  What a connection is (\<^verbatim>\<open>ConnectionConfig\<close> and \<^verbatim>\<open>TunnelConfig\<close> of \<^verbatim>\<open>crates/qh-driver/src\<close>), how it is
  pointed at a tunnel, and the key under which the session pool keeps its sessions (\<^verbatim>\<open>PoolKey::of\<close> of
  \<^verbatim>\<open>crates/qh-ffi/src/host/pool.rs\<close>).

  The key is the identity and a hash of the secrets. The hasher is the standard library's, keyed at
  random, so it is a parameter: \<open>hash\<close> maps the bytes written to it to 64 bits. \<open>transcript\<close> is those
  bytes, and \<open>transcript_secrets\<close> shows that it determines every secret.
\<close>

section \<open>Connections\<close>

datatype tls_mode = TlsDisable | TlsPrefer | TlsRequire | TlsRequireNoVerify

datatype tunnel_auth = AuthAgent | AuthKey bytes | AuthPassword bytes

record tunnel_config =
  tu_host :: bytes
  tu_port :: "16 word"
  tu_user :: bytes
  tu_auth :: tunnel_auth
  tu_known_hosts :: "bytes option"
  tu_app_known_hosts :: "bytes option"
  tu_host_key_accept :: "bytes option"
  tu_alias :: "bytes option"

record tls_ca_bundle =
  ca_path :: bytes
  ca_der :: "bytes list"

record connection_config =
  c_kind :: driver_kind
  c_host :: bytes
  c_port :: "16 word"
  c_user :: bytes
  c_password :: "bytes option"
  c_database :: "bytes option"
  c_schema :: "bytes option"
  c_tls :: tls_mode
  c_insecure :: bool
  c_tunnel :: "tunnel_config option"
  c_tls_ca :: "tls_ca_bundle option"
  c_bearer :: "bytes option"
  c_tls_server_name :: "bytes option"

text \<open>
  \<open>retarget\<close>, with the parse of an IP address as a parameter; the target it returns is the host and
  port the configuration named.
\<close>

definition trim_brackets :: "bytes \<Rightarrow> bytes" where
  "trim_brackets s = rev (dropWhile (\<lambda>c. c = CHR ''['' \<or> c = CHR '']'')
     (rev (dropWhile (\<lambda>c. c = CHR ''['' \<or> c = CHR '']'') s)))"

definition retarget :: "(bytes \<Rightarrow> bool) \<Rightarrow> connection_config \<Rightarrow> 16 word \<Rightarrow> (bytes \<times> 16 word) \<times> connection_config" where
  "retarget is_ip c local_port =
     (let literal = is_ip (trim_brackets (c_host c));
          name = (case c_kind c of
              KPostgres \<Rightarrow> Some (c_host c)
            | KTrino \<Rightarrow> if literal then None else Some (c_host c)
            | KMysql \<Rightarrow> None)
      in ((c_host c, c_port c),
          c\<lparr>c_tls_server_name := name, c_host := ''127.0.0.1'', c_port := local_port\<rparr>))"

text \<open>
  \<open>ca_for_verifying_mode\<close>: the message names the path and what the connection is instead.
\<close>

definition ca_for_verifying_mode :: "connection_config \<Rightarrow> engine_error + tls_ca_bundle option" where
  "ca_for_verifying_mode c =
     (case c_tls_ca c of
        Some ca \<Rightarrow>
          if c_tls c \<noteq> TlsRequire \<or> c_insecure c then
            Inl (Usage (''a CA file ('' @ ca_path ca @ '') only applies when the certificate is verified, and this connection is ''
              @ (if c_tls c = TlsDisable then ''not encrypted''
                 else if c_tls c = TlsPrefer then ''prefer, which does not verify''
                 else if c_insecure c then ''set to skip certificate verification''
                 else ''require without verification'')
              @ '': it would be ignored and the connection would not be pinned to that CA. Use verify-ca or verify-full, or remove the CA file''))
          else Inr (Some ca)
      | None \<Rightarrow> Inr None)"

section \<open>The key\<close>

datatype database_slot = Named bytes | Unset | Switchable

datatype auth_identity = IdAgent | IdKey bytes | IdPassword

record tunnel_identity =
  ti_host :: bytes
  ti_port :: "16 word"
  ti_user :: bytes
  ti_auth :: auth_identity
  ti_known_hosts :: "bytes list"
  ti_app_known_hosts :: "bytes option"

record identity =
  i_kind :: driver_kind
  i_host :: bytes
  i_port :: "16 word"
  i_user :: bytes
  i_tls :: tls_mode
  i_insecure :: bool
  i_database :: database_slot
  i_tls_ca :: "bytes option"
  i_tunnel :: "tunnel_identity option"

record pool_key =
  pk_identity :: identity
  pk_credential :: "64 word"

text \<open>
  The read-only trust files; \<open>home\<close> is the process's home directory, when it has one.
\<close>

definition SYSTEM_KNOWN_HOSTS :: bytes where
  "SYSTEM_KNOWN_HOSTS = ''/etc/ssh/ssh_known_hosts''"

definition trust_files :: "bytes option \<Rightarrow> tunnel_config \<Rightarrow> bytes list" where
  "trust_files home t =
     (case tu_known_hosts t of
        Some path \<Rightarrow> [path]
      | None \<Rightarrow> (case home of Some h \<Rightarrow> [path_join (path_join h ''.ssh'') ''known_hosts''] | None \<Rightarrow> []))
     @ [SYSTEM_KNOWN_HOSTS]"

text \<open>What the hasher is fed: \<open>write_u8\<close>, \<open>write_usize\<close> (8 bytes, little-endian) and \<open>write\<close>.\<close>

definition write_usize :: "nat \<Rightarrow> bytes" where
  "write_usize n = map (\<lambda>i. char_of (n div 256 ^ i mod 256)) [0..<8]"

fun hash_secret :: "bytes option \<Rightarrow> bytes" where
  "hash_secret None = [char_of (0 :: nat)]"
| "hash_secret (Some secret) = char_of (1 :: nat) # write_usize (length secret) @ secret"

fun hash_ca :: "tls_ca_bundle option \<Rightarrow> bytes" where
  "hash_ca None = [char_of (0 :: nat)]"
| "hash_ca (Some ca) = char_of (1 :: nat) # write_usize (length (ca_der ca)) @
     concat (map (\<lambda>certificate. write_usize (length certificate) @ certificate) (ca_der ca))"

definition key_passphrase :: "settings \<Rightarrow> bytes option" where
  "key_passphrase s =
     (let p = raw_setting s ''SSH_KEY_PASSPHRASE'' [] in if p = [] then None else Some p)"

fun hash_auth :: "settings \<Rightarrow> tunnel_auth \<Rightarrow> bytes" where
  "hash_auth s AuthAgent = []"
| "hash_auth s (AuthKey _) = hash_secret (key_passphrase s)"
| "hash_auth s (AuthPassword p) = hash_secret (Some p)"

fun auth_identity_of :: "tunnel_auth \<Rightarrow> auth_identity" where
  "auth_identity_of AuthAgent = IdAgent"
| "auth_identity_of (AuthKey path) = IdKey path"
| "auth_identity_of (AuthPassword _) = IdPassword"

definition transcript :: "connection_config \<Rightarrow> settings \<Rightarrow> bytes" where
  "transcript c s =
     hash_secret (c_password c) @ hash_secret (c_bearer c) @ hash_ca (c_tls_ca c) @
     (case c_tunnel c of Some t \<Rightarrow> hash_auth s (tu_auth t) | None \<Rightarrow> [])"

definition database_slot_of :: "connection_config \<Rightarrow> database_slot" where
  "database_slot_of c =
     (case c_kind c of
        KPostgres \<Rightarrow> Named (case c_database c of Some d \<Rightarrow> d | None \<Rightarrow> [])
      | KMysql \<Rightarrow> if c_database c \<noteq> None then Switchable else Unset
      | KTrino \<Rightarrow> Switchable)"

definition tunnel_identity_of :: "bytes option \<Rightarrow> tunnel_config \<Rightarrow> tunnel_identity" where
  "tunnel_identity_of home t =
     \<lparr>ti_host = tu_host t, ti_port = tu_port t, ti_user = tu_user t,
      ti_auth = auth_identity_of (tu_auth t), ti_known_hosts = trust_files home t,
      ti_app_known_hosts = tu_app_known_hosts t\<rparr>"

definition identity_of :: "bytes option \<Rightarrow> connection_config \<Rightarrow> identity" where
  "identity_of home c =
     \<lparr>i_kind = c_kind c, i_host = c_host c, i_port = c_port c, i_user = c_user c, i_tls = c_tls c,
      i_insecure = c_insecure c, i_database = database_slot_of c,
      i_tls_ca = map_option ca_path (c_tls_ca c),
      i_tunnel = map_option (tunnel_identity_of home) (c_tunnel c)\<rparr>"

definition pool_key_of :: "(bytes \<Rightarrow> 64 word) \<Rightarrow> bytes option \<Rightarrow> connection_config \<Rightarrow> settings \<Rightarrow> pool_key" where
  "pool_key_of hash home c s =
     \<lparr>pk_identity = identity_of home c, pk_credential = hash (transcript c s)\<rparr>"

section \<open>The transcript determines the secrets\<close>

lemma length_write_usize [simp]: "length (write_usize n) = 8"
  by (simp add: write_usize_def)

lemma write_usize_value: "(n::nat) < 256 ^ k \<Longrightarrow> (\<Sum>i<k. (n div 256 ^ i mod 256) * 256 ^ i) = n"
proof (induction k arbitrary: n)
  case (Suc k)
  have "n mod 256 ^ k < 256 ^ k" by simp
  then have low: "(\<Sum>i<k. (n mod 256 ^ k div 256 ^ i mod 256) * 256 ^ i) = n mod 256 ^ k" by (rule Suc.IH)
  have digit: "n mod 256 ^ k div 256 ^ i mod 256 = n div 256 ^ i mod 256" if "i < k" for i
  proof -
    have "256 ^ k = 256 ^ i * (256 * 256 ^ (k - i - 1) :: nat)"
      using that by (simp flip: power_add power_Suc)
    then have "n mod 256 ^ k = 256 ^ i * (n div 256 ^ i mod (256 * 256 ^ (k - i - 1))) + n mod 256 ^ i"
      by (simp add: mod_mult2_eq)
    then have "n mod 256 ^ k div 256 ^ i = n div 256 ^ i mod (256 * 256 ^ (k - i - 1))" by simp
    then show ?thesis by (simp add: mod_mult2_eq)
  qed
  have high: "n div 256 ^ k mod 256 = n div 256 ^ k"
    using Suc.prems by (simp add: less_mult_imp_div_less)
  have "(\<Sum>i<Suc k. (n div 256 ^ i mod 256) * 256 ^ i) =
      (\<Sum>i<k. (n mod 256 ^ k div 256 ^ i mod 256) * 256 ^ i) + n div 256 ^ k * 256 ^ k"
    using digit high by simp
  also have "\<dots> = n" unfolding low by (rule mod_div_mult_eq)
  finally show ?case .
qed simp

lemma write_usize_inject:
  assumes "n < 256 ^ 8" "m < 256 ^ 8" "write_usize n = write_usize m"
  shows "n = m"
proof -
  have "n div 256 ^ i mod 256 = m div 256 ^ i mod 256" if "i < 8" for i
  proof -
    have "char_of (n div 256 ^ i mod 256) = (char_of (m div 256 ^ i mod 256) :: char)"
      using arg_cong [OF assms(3), of "\<lambda>l. l ! i"] that by (simp add: write_usize_def)
    then have "of_char (char_of (n div 256 ^ i mod 256) :: char) = (of_char (char_of (m div 256 ^ i mod 256) :: char) :: nat)"
      by simp
    then show ?thesis by simp
  qed
  then have "(\<Sum>i<8. (n div 256 ^ i mod 256) * 256 ^ i) = (\<Sum>i<8. (m div 256 ^ i mod 256) * 256 ^ i)"
    by simp
  with write_usize_value [of n 8] write_usize_value [of m 8] assms(1,2) show ?thesis by simp
qed

lemma sized_inject:
  assumes "length a < 256 ^ 8" "length b < 256 ^ 8"
    and "write_usize (length a) @ a @ x = write_usize (length b) @ b @ y"
  shows "a = b \<and> x = y"
proof -
  have "write_usize (length a) = write_usize (length b)" "a @ x = b @ y"
    using assms(3) by (auto simp: append_eq_append_conv)
  moreover from this(1) have "length a = length b" by (rule write_usize_inject [OF assms(1,2)])
  ultimately show ?thesis by simp
qed

definition fits :: "bytes option \<Rightarrow> bool" where
  "fits s \<longleftrightarrow> (case s of Some b \<Rightarrow> length b < 256 ^ 8 | None \<Rightarrow> True)"

lemma hash_secret_inject:
  assumes "fits a" "fits b" "hash_secret a @ x = hash_secret b @ y"
  shows "a = b \<and> x = y"
proof (cases a; cases b)
  fix s s' assume "a = Some s" "b = Some s'"
  with assms sized_inject [of s s' x y] show ?thesis by (simp add: fits_def)
qed (use assms in auto)

definition certificates :: "bytes list \<Rightarrow> bytes" where
  "certificates cs = concat (map (\<lambda>c. write_usize (length c) @ c) cs)"

lemma certificates_inject:
  assumes "length cs = length ds" "list_all (\<lambda>c. length c < 256 ^ 8) (cs @ ds)"
    and "certificates cs @ x = certificates ds @ y"
  shows "cs = ds \<and> x = y"
  using assms
proof (induction cs ds rule: list_induct2)
  case (Cons c cs d ds)
  from Cons.prems have "c = d \<and> certificates cs @ x = certificates ds @ y"
    by (intro sized_inject) (auto simp: certificates_def)
  with Cons show ?case by simp
qed (simp add: certificates_def)

definition ca_fits :: "tls_ca_bundle option \<Rightarrow> bool" where
  "ca_fits ca \<longleftrightarrow> (case ca of
     Some b \<Rightarrow> length (ca_der b) < 256 ^ 8 \<and> list_all (\<lambda>c. length c < 256 ^ 8) (ca_der b) | None \<Rightarrow> True)"

lemma hash_ca_inject:
  assumes "ca_fits a" "ca_fits b" "hash_ca a @ x = hash_ca b @ y"
  shows "map_option ca_der a = map_option ca_der b \<and> x = y"
proof (cases a; cases b)
  fix s s' assume a: "a = Some s" and b: "b = Some s'"
  have "write_usize (length (ca_der s)) = write_usize (length (ca_der s'))"
    and certs: "certificates (ca_der s) @ x = certificates (ca_der s') @ y"
    using assms(3) a b by (auto simp: append_eq_append_conv certificates_def)
  then have "length (ca_der s) = length (ca_der s')"
    using assms(1,2) a b by (intro write_usize_inject) (auto simp: ca_fits_def)
  from certificates_inject [OF this _ certs] assms(1,2) a b show ?thesis by (simp add: ca_fits_def)
qed (use assms in auto)

lemma map_option_pair:
  assumes "map_option ca_path a = map_option ca_path b" "map_option ca_der a = map_option ca_der b"
  shows "a = (b :: tls_ca_bundle option)"
  using assms by (cases a; cases b) auto

text \<open>The bastion secret a configuration and its settings give, and that all sizes are a \<open>usize\<close>.\<close>

fun auth_secret :: "settings \<Rightarrow> tunnel_auth \<Rightarrow> bytes option" where
  "auth_secret s AuthAgent = None"
| "auth_secret s (AuthKey _) = key_passphrase s"
| "auth_secret s (AuthPassword p) = Some p"

definition tunnel_secret :: "settings \<Rightarrow> connection_config \<Rightarrow> bytes option" where
  "tunnel_secret s c = (case c_tunnel c of Some t \<Rightarrow> auth_secret s (tu_auth t) | None \<Rightarrow> None)"

definition sizes_fit :: "settings \<Rightarrow> connection_config \<Rightarrow> bool" where
  "sizes_fit s c \<longleftrightarrow> fits (c_password c) \<and> fits (c_bearer c) \<and> ca_fits (c_tls_ca c) \<and> fits (tunnel_secret s c)"

lemma hash_auth_inject:
  assumes "auth_identity_of a = auth_identity_of b" "fits (auth_secret s a)" "fits (auth_secret s' b)"
    and "hash_auth s a = hash_auth s' b"
  shows "auth_secret s a = auth_secret s' b"
  using assms hash_secret_inject [of "auth_secret s a" "auth_secret s' b" "[]" "[]"]
  by (cases a; cases b) auto

lemma transcript_secrets:
  assumes fits: "sizes_fit s c" "sizes_fit s' c'"
    and tunnel: "map_option (\<lambda>t. auth_identity_of (tu_auth t)) (c_tunnel c) =
      map_option (\<lambda>t. auth_identity_of (tu_auth t)) (c_tunnel c')"
    and same: "transcript c s = transcript c' s'"
  shows "c_password c = c_password c' \<and> c_bearer c = c_bearer c' \<and>
    map_option ca_der (c_tls_ca c) = map_option ca_der (c_tls_ca c') \<and> tunnel_secret s c = tunnel_secret s' c'"
proof -
  let ?rest = "\<lambda>c s. case c_tunnel c of Some t \<Rightarrow> hash_auth s (tu_auth t) | None \<Rightarrow> []"
  have password: "c_password c = c_password c' \<and>
      hash_secret (c_bearer c) @ hash_ca (c_tls_ca c) @ ?rest c s =
      hash_secret (c_bearer c') @ hash_ca (c_tls_ca c') @ ?rest c' s'"
    using same fits unfolding transcript_def sizes_fit_def by (intro hash_secret_inject) auto
  then have bearer: "c_bearer c = c_bearer c' \<and>
      hash_ca (c_tls_ca c) @ ?rest c s = hash_ca (c_tls_ca c') @ ?rest c' s'"
    using fits unfolding sizes_fit_def by (intro hash_secret_inject) auto
  then have ca: "map_option ca_der (c_tls_ca c) = map_option ca_der (c_tls_ca c') \<and> ?rest c s = ?rest c' s'"
    using fits unfolding sizes_fit_def by (intro hash_ca_inject) auto
  have "tunnel_secret s c = tunnel_secret s' c'"
    using tunnel ca fits
    by (cases "c_tunnel c"; cases "c_tunnel c'")
      (auto simp: tunnel_secret_def sizes_fit_def intro!: hash_auth_inject)
  with password bearer ca show ?thesis by blast
qed

text \<open>
  C29. Two connections with one pool key are one connection: unless the hash collides on these very two,
  they agree on the server, the user, the password, the bearer token, the TLS mode, the trusted
  certificates byte for byte, the bastion with its secret and the files its key is checked against,
  and (PostgreSQL) the database. So a changed password or a rewritten CA file never finds a session
  that was opened with the old one.
\<close>
theorem pool_key_separates:
  assumes "pool_key_of hash home c s = pool_key_of hash home c' s'"
    and "inj_on hash {transcript c s, transcript c' s'}"
    and "sizes_fit s c" "sizes_fit s' c'"
  shows "(c_kind c, c_host c, c_port c, c_user c, c_tls c, c_insecure c) =
      (c_kind c', c_host c', c_port c', c_user c', c_tls c', c_insecure c') \<and>
    c_password c = c_password c' \<and> c_bearer c = c_bearer c' \<and> c_tls_ca c = c_tls_ca c' \<and>
    database_slot_of c = database_slot_of c' \<and>
    map_option (tunnel_identity_of home) (c_tunnel c) = map_option (tunnel_identity_of home) (c_tunnel c') \<and>
    tunnel_secret s c = tunnel_secret s' c'"
proof -
  have ids: "identity_of home c = identity_of home c'" and hashes: "hash (transcript c s) = hash (transcript c' s')"
    using assms(1) by (auto simp: pool_key_of_def)
  have same: "transcript c s = transcript c' s'" by (rule inj_onD [OF assms(2) hashes]) simp_all
  have tunnels: "map_option (tunnel_identity_of home) (c_tunnel c) = map_option (tunnel_identity_of home) (c_tunnel c')"
    and cas: "map_option ca_path (c_tls_ca c) = map_option ca_path (c_tls_ca c')"
    using ids by (auto simp: identity_of_def)
  then have "map_option (\<lambda>t. auth_identity_of (tu_auth t)) (c_tunnel c) =
      map_option (\<lambda>t. auth_identity_of (tu_auth t)) (c_tunnel c')"
    by (cases "c_tunnel c"; cases "c_tunnel c'") (auto simp: tunnel_identity_of_def)
  from transcript_secrets [OF assms(3,4) this same] map_option_pair [OF cas] ids tunnels
  show ?thesis by (auto simp: identity_of_def)
qed

definition example_connection :: connection_config where
  "example_connection = \<lparr>c_kind = KPostgres, c_host = ''db'', c_port = 5432, c_user = ''me'',
     c_password = Some ''ab'', c_database = None, c_schema = None, c_tls = TlsRequire, c_insecure = False,
     c_tunnel = None, c_tls_ca = None, c_bearer = None, c_tls_server_name = None\<rparr>"

theorem pool_key_separates_witness:
  "database_slot_of example_connection = database_slot_of (example_connection\<lparr>c_database := Some []\<rparr>)"
  using pool_key_separates [of "\<lambda>b. of_nat (length b)" None example_connection "[]"
      "example_connection\<lparr>c_database := Some [], c_schema := Some ''public''\<rparr>" "[]"]
  by (simp add: pool_key_of_def identity_of_def transcript_def sizes_fit_def fits_def ca_fits_def
    tunnel_secret_def example_connection_def database_slot_of_def)

end
