(* ===== verification/Lease.thy ===== *)
theory Lease
  imports SqlClassify PoolKey Retry Transition
begin

text \<open>
  The session every command drives, \<^verbatim>\<open>crates/qh-ffi/src/host/lease.rs\<close>: \<open>Held\<close>, the flags of its lease,
  the one rule about reconnecting, and what becomes of the session when it goes back.

  The driver's session, its cursors and the pool's \<open>reconnect\<close> are outside this file's code and are
  parameters that thread the world they act on. Each such call is an \<open>await\<close>: besides answering it can
  be \<open>Dropped\<close>, which is a Stop that drops the future while the call is in flight; nothing after
  the call runs then. \<open>Panicked\<close> is the \<open>expect\<close> of a session that is not there.

  The cells shared between a lease and the cursors it handed out (\<open>Arc<CursorEnd>\<close>) are the list
  \<open>h_ends\<close>, indexed by the order of creation. \<open>h_base\<close> is a history variable: the cursors from that
  index on were opened on the present connection.
\<close>

section \<open>Data\<close>

datatype 'a await = Dropped | Panicked | Failed engine_error | Answered 'a

record lease_state =
  l_config :: connection_config
  l_settings :: settings
  l_reused :: bool
  l_executed :: bool
  l_broken :: bool
  l_unsettled :: bool
  l_dirty :: bool
  l_read_only :: bool
  l_cancelled :: bool
  l_last_cursor :: "nat option"

definition lease_new :: "connection_config \<Rightarrow> settings \<Rightarrow> bool \<Rightarrow> lease_state" where
  "lease_new config settings reused =
     \<lparr>l_config = config, l_settings = settings, l_reused = reused, l_executed = False,
      l_broken = False, l_unsettled = False, l_dirty = False, l_read_only = False,
      l_cancelled = False, l_last_cursor = None\<rparr>"

datatype fate = FateReset | FateDiscard | FateDiscardAndRefill

record ('s, 't) held =
  h_inner :: "'s option"
  h_query_id :: "bytes option"
  h_tunnel :: "'t option"
  h_lease :: "lease_state option"
  h_ends :: "bool list"
  h_base :: nat

definition held_new :: "'s \<Rightarrow> 't option \<Rightarrow> ('s, 't) held" where
  "held_new s t = \<lparr>h_inner = Some s, h_query_id = None, h_tunnel = t, h_lease = None, h_ends = [], h_base = 0\<rparr>"

definition held_leased :: "'s \<Rightarrow> 't option \<Rightarrow> lease_state \<Rightarrow> ('s, 't) held" where
  "held_leased s t l =
     \<lparr>h_inner = Some s, h_query_id = None, h_tunnel = t, h_lease = Some l, h_ends = [], h_base = 0\<rparr>"

text \<open>Whether the last cursor of the lease was left before the server ended it.\<close>

definition cursor_left :: "bool list \<Rightarrow> nat option \<Rightarrow> bool" where
  "cursor_left ends last_cursor = (case last_cursor of Some i \<Rightarrow> \<not> ends ! i | None \<Rightarrow> False)"

definition lease_fate :: "bool list \<Rightarrow> lease_state \<Rightarrow> fate" where
  "lease_fate ends l =
     (let left_behind = c_kind (l_config l) = KPostgres \<and> (l_dirty l \<or> cursor_left ends (l_last_cursor l)) in
      if l_cancelled l \<or> l_broken l \<or> l_unsettled l then FateDiscard
      else if left_behind then FateDiscardAndRefill
      else FateReset)"

section \<open>Which statements may be sent again\<close>

definition rerunnable :: "bytes \<Rightarrow> driver_kind \<Rightarrow> bool" where
  "rerunnable sql kind =
     (if list_ex (eq_ignore_ascii_case (trim sql))
           [''BEGIN'', ''START TRANSACTION'', ''BEGIN READ ONLY'', ''START TRANSACTION READ ONLY''] then True
      else
        let dialect = (case kind of KMysql \<Rightarrow> Mysql | KPostgres \<Rightarrow> Postgres | KTrino \<Rightarrow> Trino)
        in classify_readings sql (readings dialect) = KReadOnly)"

definition connection_lost :: "engine_error \<Rightarrow> bool" where
  "connection_lost e \<longleftrightarrow> produced_no_page e \<and> kind_of_failure e = Transient"

definition held_rerunnable :: "('s, 't) held \<Rightarrow> bytes \<Rightarrow> bool" where
  "held_rerunnable h sql = (case h_lease h of Some l \<Rightarrow> rerunnable sql (c_kind (l_config l)) | None \<Rightarrow> False)"

section \<open>Calls\<close>

type_synonym ('s, 'r, 'w) session_op = "'s \<Rightarrow> 'w \<Rightarrow> 'r await \<times> 's \<times> 'w"

text \<open>
  \<open>conn\<close> is \<open>SessionPool::reconnect\<close> for the lease's entry, configuration and settings; \<open>ro\<close> is the new
  session's \<open>enforce_read_only\<close>.
\<close>

definition held_reconnect :: "(lease_state \<Rightarrow> 'w \<Rightarrow> ('s \<times> 't option) await \<times> 'w) \<Rightarrow> ('s, unit, 'w) session_op \<Rightarrow>
    ('s, 't) held \<Rightarrow> 'w \<Rightarrow> unit await \<times> ('s, 't) held \<times> 'w" where
  "held_reconnect conn ro h w =
     (case h_lease h of
        None \<Rightarrow> (Answered (), h, w)
      | Some l \<Rightarrow>
          (let h1 = h\<lparr>h_lease := Some (l\<lparr>l_broken := True\<rparr>)\<rparr>;
               replaced = (\<lambda>s t. h1\<lparr>h_inner := Some s, h_tunnel := t, h_base := length (h_ends h),
                 h_lease := Some (l\<lparr>l_broken := False, l_reused := False, l_executed := False,
                   l_unsettled := False, l_dirty := False, l_last_cursor := None\<rparr>)\<rparr>)
           in case conn l w of
                (Dropped, w') \<Rightarrow> (Dropped, h1, w')
              | (Panicked, w') \<Rightarrow> (Panicked, h1, w')
              | (Failed e, w') \<Rightarrow> (Failed e, h1, w')
              | (Answered (s, t), w') \<Rightarrow>
                  if l_read_only l then
                    (case ro s w' of
                       (Dropped, _, w'') \<Rightarrow> (Dropped, h1, w'')
                     | (Panicked, _, w'') \<Rightarrow> (Panicked, h1, w'')
                     | (Failed e, _, w'') \<Rightarrow> (Failed e, h1, w'')
                     | (Answered _, s', w'') \<Rightarrow> (Answered (), replaced s' t, w''))
                  else (Answered (), replaced s t, w')))"

definition held_attempt :: "('s, 'r, 'w) session_op \<Rightarrow> ('s, 't) held \<Rightarrow> 'w \<Rightarrow> 'r await \<times> ('s, 't) held \<times> 'w" where
  "held_attempt op h w =
     (let h1 = (case h_lease h of
          Some l \<Rightarrow> h\<lparr>h_lease := Some (l\<lparr>l_dirty := l_dirty l \<or> cursor_left (h_ends h) (l_last_cursor l),
            l_unsettled := True\<rparr>)\<rparr>
        | None \<Rightarrow> h)
      in case h_inner h1 of
           None \<Rightarrow> (Panicked, h1, w)
         | Some s \<Rightarrow>
             (case op s w of (out, s', w') \<Rightarrow>
                let h2 = h1\<lparr>h_inner := Some s'\<rparr> in
                case out of
                  Dropped \<Rightarrow> (Dropped, h2, w')
                | Panicked \<Rightarrow> (Panicked, h2, w')
                | _ \<Rightarrow>
                    (out, h2\<lparr>h_lease := map_option (\<lambda>l. l\<lparr>l_unsettled := False\<rparr>) (h_lease h2)\<rparr>, w')))"

text \<open>The end of \<open>call\<close>: what the outcome says about the connection.\<close>

definition call_end :: "'r await \<Rightarrow> ('s, 't) held \<Rightarrow> ('s, 't) held" where
  "call_end out h =
     h\<lparr>h_lease := map_option (\<lambda>l. l\<lparr>l_executed := True,
        l_broken := l_broken l \<or> (case out of Failed e \<Rightarrow> connection_lost e | _ \<Rightarrow> False)\<rparr>) (h_lease h)\<rparr>"

definition lost_message :: bytes where
  "lost_message = ''the pooled connection was lost; the statement was not sent again''"

text \<open>\<open>settle\<close> ends a call whose last attempt gave \<open>out\<close>: a dropped or panicked one has no end.\<close>

fun settle :: "'r await \<times> ('s, 't) held \<times> 'w \<Rightarrow> 'r await \<times> ('s, 't) held \<times> 'w" where
  "settle (Dropped, h, w) = (Dropped, h, w)"
| "settle (Panicked, h, w) = (Panicked, h, w)"
| "settle (out, h, w) = (out, call_end out h, w)"

text \<open>The attempt, and the second one on a replacement connection.\<close>

definition call_attempts :: "(lease_state \<Rightarrow> 'w \<Rightarrow> ('s \<times> 't option) await \<times> 'w) \<Rightarrow> ('s, unit, 'w) session_op \<Rightarrow>
    bool \<Rightarrow> ('s, 'r, 'w) session_op \<Rightarrow> ('s, 't) held \<Rightarrow> 'w \<Rightarrow> 'r await \<times> ('s, 't) held \<times> 'w" where
  "call_attempts conn ro rerun op h w =
     (let first = (case h_lease h of Some l \<Rightarrow> l_reused l \<and> \<not> l_executed l | None \<Rightarrow> False) in
      case held_attempt op h w of
        (Failed e, h1, w1) \<Rightarrow>
          if first \<and> rerun \<and> (case e of Connect _ _ \<Rightarrow> True | _ \<Rightarrow> False) \<and> produced_no_page e then
            (case held_reconnect conn ro h1 w1 of
               (Answered _, h2, w2) \<Rightarrow> settle (held_attempt op h2 w2)
             | (Dropped, h2, w2) \<Rightarrow> (Dropped, h2, w2)
             | (Panicked, h2, w2) \<Rightarrow> (Panicked, h2, w2)
             | (Failed e', h2, w2) \<Rightarrow> (Failed e', h2, w2))
          else settle (Failed e, h1, w1)
      | other \<Rightarrow> settle other)"

definition held_call :: "(lease_state \<Rightarrow> 'w \<Rightarrow> ('s \<times> 't option) await \<times> 'w) \<Rightarrow> ('s, unit, 'w) session_op \<Rightarrow>
    bool \<Rightarrow> ('s, 'r, 'w) session_op \<Rightarrow> ('s, 't) held \<Rightarrow> 'w \<Rightarrow> 'r await \<times> ('s, 't) held \<times> 'w" where
  "held_call conn ro rerun op h w =
     (if (case h_lease h of Some l \<Rightarrow> l_broken l | None \<Rightarrow> False) then
        if \<not> rerun then (Failed (Connect lost_message Permanent), h, w)
        else (case held_reconnect conn ro h w of
                (Answered _, h1, w1) \<Rightarrow> call_attempts conn ro rerun op h1 w1
              | (Dropped, h1, w1) \<Rightarrow> (Dropped, h1, w1)
              | (Panicked, h1, w1) \<Rightarrow> (Panicked, h1, w1)
              | (Failed e, h1, w1) \<Rightarrow> (Failed e, h1, w1))
      else call_attempts conn ro rerun op h w)"

section \<open>The session's operations\<close>

text \<open>A cursor that notes in its cell whether the server saw its result through to the end.\<close>

record 'c tracked =
  tr_inner :: 'c
  tr_end :: nat
  tr_row_limit :: "nat option"
  tr_delivered :: nat

datatype 'c held_cursor = Untracked 'c | Tracked "'c tracked"

definition held_track :: "'c \<Rightarrow> nat option \<Rightarrow> ('s, 't) held \<Rightarrow> 'c held_cursor \<times> ('s, 't) held" where
  "held_track c row_limit h =
     (case h_lease h of
        None \<Rightarrow> (Untracked c, h)
      | Some l \<Rightarrow>
          (Tracked \<lparr>tr_inner = c, tr_end = length (h_ends h), tr_row_limit = row_limit, tr_delivered = 0\<rparr>,
           h\<lparr>h_ends := h_ends h @ [False], h_lease := Some (l\<lparr>l_last_cursor := Some (length (h_ends h))\<rparr>)\<rparr>))"

text \<open>
  \<open>Tracked::next_batch\<close>: the cursor's answer, and the cells after it.
\<close>

definition tracked_next_batch :: "('c \<Rightarrow> 'w \<Rightarrow> 'b option await \<times> 'c \<times> 'w) \<Rightarrow> ('b \<Rightarrow> nat) \<Rightarrow>
    'c tracked \<Rightarrow> bool list \<Rightarrow> 'w \<Rightarrow> 'b option await \<times> 'c tracked \<times> bool list \<times> 'w" where
  "tracked_next_batch next_batch rows c ends w =
     (case next_batch (tr_inner c) w of (out, ic, w') \<Rightarrow>
        let c1 = c\<lparr>tr_inner := ic\<rparr> in
        case out of
          Answered (Some b) \<Rightarrow> (out, c1\<lparr>tr_delivered := tr_delivered c + rows b\<rparr>, ends, w')
        | Answered None \<Rightarrow>
            (out, c1, if (case tr_row_limit c of None \<Rightarrow> True | Some limit \<Rightarrow> tr_delivered c < limit)
                      then ends[tr_end c := True] else ends, w')
        | Failed e \<Rightarrow>
            (out, c1, if error_code e \<noteq> None \<or> (case e of Timeout _ _ \<Rightarrow> True | _ \<Rightarrow> False)
                      then ends[tr_end c := True] else ends, w')
        | _ \<Rightarrow> (out, c1, ends, w'))"

definition held_execute :: "(lease_state \<Rightarrow> 'w \<Rightarrow> ('s \<times> 't option) await \<times> 'w) \<Rightarrow> ('s, unit, 'w) session_op \<Rightarrow>
    ('s \<Rightarrow> bytes option) \<Rightarrow> bytes \<Rightarrow> nat option \<Rightarrow> ('s, 'c, 'w) session_op \<Rightarrow> ('s, 't) held \<Rightarrow> 'w \<Rightarrow>
    'c held_cursor await \<times> ('s, 't) held \<times> 'w" where
  "held_execute conn ro query_id sql row_limit exec h w =
     (case held_call conn ro (held_rerunnable h sql) exec h w of
        (Answered c, h1, w1) \<Rightarrow>
          (let h2 = h1\<lparr>h_query_id := (case h_inner h1 of Some s \<Rightarrow> query_id s | None \<Rightarrow> None)\<rparr>;
               (c', h3) = held_track c row_limit h2
           in (Answered c', h3, w1))
      | (Dropped, h1, w1) \<Rightarrow> (Dropped, h1, w1)
      | (Panicked, h1, w1) \<Rightarrow> (Panicked, h1, w1)
      | (Failed e, h1, w1) \<Rightarrow> (Failed e, h1, w1))"

definition held_copy_in :: "(lease_state \<Rightarrow> 'w \<Rightarrow> ('s \<times> 't option) await \<times> 'w) \<Rightarrow> ('s, unit, 'w) session_op \<Rightarrow>
    ('s, 'r, 'w) session_op \<Rightarrow> ('s, 't) held \<Rightarrow> 'w \<Rightarrow> 'r await \<times> ('s, 't) held \<times> 'w" where
  "held_copy_in conn ro copy h w = held_call conn ro False copy h w"

definition held_browse :: "(lease_state \<Rightarrow> 'w \<Rightarrow> ('s \<times> 't option) await \<times> 'w) \<Rightarrow> ('s, unit, 'w) session_op \<Rightarrow>
    ('s, bytes list, 'w) session_op \<Rightarrow> ('s, 't) held \<Rightarrow> 'w \<Rightarrow> bytes list await \<times> ('s, 't) held \<times> 'w" where
  "held_browse conn ro browse h w = held_call conn ro True browse h w"

definition held_objects :: "(lease_state \<Rightarrow> 'w \<Rightarrow> ('s \<times> 't option) await \<times> 'w) \<Rightarrow> ('s, unit, 'w) session_op \<Rightarrow>
    ('s, 'p, 'w) session_op \<Rightarrow> ('s, 't) held \<Rightarrow> 'w \<Rightarrow> 'p await \<times> ('s, 't) held \<times> 'w" where
  "held_objects conn ro objects h w = held_call conn ro True objects h w"

text \<open>
  \<open>cancel_within\<close>: the mark, which is made before anything is awaited; the cancel itself is the
  driver's, on a second connection.
\<close>

definition held_cancel :: "('s, 't) held \<Rightarrow> ('s, 't) held" where
  "held_cancel h = h\<lparr>h_lease := map_option (\<lambda>l. l\<lparr>l_cancelled := True\<rparr>) (h_lease h)\<rparr>"

definition held_enforce_read_only :: "('s, unit, 'w) session_op \<Rightarrow> ('s, 't) held \<Rightarrow> 'w \<Rightarrow>
    unit await \<times> ('s, 't) held \<times> 'w" where
  "held_enforce_read_only ro h w =
     (case h_inner h of
        None \<Rightarrow> (Panicked, h, w)
      | Some s \<Rightarrow>
          (case ro s w of
             (Answered _, s', w') \<Rightarrow>
               (Answered (), h\<lparr>h_inner := Some s',
                  h_lease := map_option (\<lambda>l. l\<lparr>l_read_only := True\<rparr>) (h_lease h)\<rparr>, w')
           | (out, s', w') \<Rightarrow> (out, h\<lparr>h_inner := Some s'\<rparr>, w')))"

text \<open>What is handed to \<open>SessionPool::checkin\<close>.\<close>

record ('s, 't) checkin_request =
  cr_session :: 's
  cr_tunnel :: "'t option"
  cr_fate :: fate
  cr_refill :: "(connection_config \<times> settings) option"

definition held_release :: "('s, 't) held \<Rightarrow> ('s, 't) checkin_request option \<times> ('s, 't) held" where
  "held_release h =
     ((case (h_lease h, h_inner h) of
         (Some l, Some s) \<Rightarrow>
           (let fate = lease_fate (h_ends h) l in
            Some \<lparr>cr_session = s, cr_tunnel = h_tunnel h, cr_fate = fate,
              cr_refill = (if fate = FateDiscardAndRefill then Some (l_config l, l_settings l) else None)\<rparr>)
       | _ \<Rightarrow> None),
      h\<lparr>h_inner := None, h_tunnel := None, h_lease := None\<rparr>)"

section \<open>A rule for calls\<close>

text \<open>
  \<open>I\<close> holds between the attempts and reconnects of a call, \<open>Q\<close> of its result.
\<close>

lemma call_attempts_rule:
  fixes op :: "('s, 'r, 'w) session_op" and I :: "('s, 't) held \<Rightarrow> bool"
    and Q :: "'r await \<Rightarrow> ('s, 't) held \<Rightarrow> bool"
  assumes start: "I h"
    and reconnect: "\<And>h w u h' w'. I h \<Longrightarrow> held_reconnect conn ro h w = (Answered u, h', w') \<Longrightarrow> I h'"
    and stuck: "\<And>h w out h' w'. I h \<Longrightarrow> held_reconnect conn ro h w = (out, h', w') \<Longrightarrow>
      (out = Dropped \<longrightarrow> Q Dropped h') \<and> (out = Panicked \<longrightarrow> Q Panicked h') \<and> (\<forall>e. out = Failed e \<longrightarrow> Q (Failed e) h')"
    and attempt: "\<And>h w out h' w'. I h \<Longrightarrow> held_attempt op h w = (out, h', w') \<Longrightarrow> I h'"
    and settled: "\<And>h w out h' w'. I h \<Longrightarrow> settle (held_attempt op h w) = (out, h', w') \<Longrightarrow> Q out h'"
    and run: "call_attempts conn ro rerun op h w = (out, h', w')"
  shows "Q out h'"
proof -
  obtain o1 h1 w1 where a: "held_attempt op h w = (o1, h1, w1)" by (cases "held_attempt op h w") auto
  have h1: "I h1" by (rule attempt [OF start a])
  show ?thesis
  proof (cases "\<exists>e. o1 = Failed e \<and> (case h_lease h of Some l \<Rightarrow> l_reused l \<and> \<not> l_executed l | None \<Rightarrow> False) \<and>
      rerun \<and> (case e of Connect _ _ \<Rightarrow> True | _ \<Rightarrow> False) \<and> produced_no_page e")
    case False
    then have "settle (held_attempt op h w) = (out, h', w')"
      using run a by (cases o1) (auto simp: call_attempts_def Let_def split: if_splits)
    then show ?thesis by (rule settled [OF start])
  next
    case True
    then obtain e where e: "o1 = Failed e" by blast
    obtain o2 h2 w2 where r: "held_reconnect conn ro h1 w1 = (o2, h2, w2)"
      by (cases "held_reconnect conn ro h1 w1") auto
    show ?thesis
    proof (cases o2)
      case (Answered u)
      then have "settle (held_attempt op h2 w2) = (out, h', w')"
        using run a r True e by (auto simp: call_attempts_def Let_def)
      then show ?thesis by (rule settled [OF reconnect [OF h1 r [unfolded Answered]]])
    qed (use run a r True e stuck [OF h1 r] in \<open>auto simp: call_attempts_def Let_def\<close>)
  qed
qed

lemma held_call_rule:
  fixes op :: "('s, 'r, 'w) session_op" and I :: "('s, 't) held \<Rightarrow> bool"
    and Q :: "'r await \<Rightarrow> ('s, 't) held \<Rightarrow> bool"
  assumes start: "I h"
    and refused: "\<And>h l. I h \<Longrightarrow> h_lease h = Some l \<Longrightarrow> l_broken l \<Longrightarrow> Q (Failed (Connect lost_message Permanent)) h"
    and reconnect: "\<And>h w u h' w'. I h \<Longrightarrow> held_reconnect conn ro h w = (Answered u, h', w') \<Longrightarrow> I h'"
    and stuck: "\<And>h w out h' w'. I h \<Longrightarrow> held_reconnect conn ro h w = (out, h', w') \<Longrightarrow>
      (out = Dropped \<longrightarrow> Q Dropped h') \<and> (out = Panicked \<longrightarrow> Q Panicked h') \<and> (\<forall>e. out = Failed e \<longrightarrow> Q (Failed e) h')"
    and attempt: "\<And>h w out h' w'. I h \<Longrightarrow> held_attempt op h w = (out, h', w') \<Longrightarrow> I h'"
    and settled: "\<And>h w out h' w'. I h \<Longrightarrow> settle (held_attempt op h w) = (out, h', w') \<Longrightarrow> Q out h'"
    and run: "held_call conn ro rerun op h w = (out, h', w')"
  shows "Q out h'"
proof -
  have attempts: "Q out h2" if "I h1" "call_attempts conn ro rerun op h1 w1 = (out, h2, w2)" for h1 h2 w1 w2
    using that(1) reconnect stuck attempt settled that(2) by (rule call_attempts_rule)
  show ?thesis
  proof (cases "\<exists>l. h_lease h = Some l \<and> l_broken l")
    case False
    then have "call_attempts conn ro rerun op h w = (out, h', w')"
      using run by (auto simp: held_call_def split: option.splits)
    then show ?thesis by (rule attempts [OF start])
  next
    case True
    then obtain l where l: "h_lease h = Some l" "l_broken l" by blast
    obtain o1 h1 w1 where r: "held_reconnect conn ro h w = (o1, h1, w1)"
      by (cases "held_reconnect conn ro h w") auto
    consider (no) "\<not> rerun" | (yes) u where "rerun" "o1 = Answered u" | (stuck) "rerun" "\<forall>u. o1 \<noteq> Answered u" by blast
    then show ?thesis
    proof cases
      case no
      then show ?thesis using run l refused [OF start l] by (auto simp: held_call_def)
    next
      case yes
      then have "call_attempts conn ro rerun op h1 w1 = (out, h', w')" using run r l by (simp add: held_call_def)
      then show ?thesis by (rule attempts [OF reconnect [OF start r [unfolded yes(2)]]])
    next
      case stuck
      then show ?thesis using run r l assms(4) [OF start r] by (cases o1) (auto simp: held_call_def)
    qed
  qed
qed

section \<open>The life of a lease\<close>

text \<open>What the session, its cursors and the pool's \<open>reconnect\<close> do, as one record of parameters.\<close>

record ('s, 't, 'c, 'b, 'r, 'p, 'w) driver =
  dv_connect :: "lease_state \<Rightarrow> 'w \<Rightarrow> ('s \<times> 't option) await \<times> 'w"
  dv_read_only :: "('s, unit, 'w) session_op"
  dv_query_id :: "'s \<Rightarrow> bytes option"
  dv_execute :: "bytes \<Rightarrow> nat option \<Rightarrow> ('s, 'c, 'w) session_op"
  dv_copy_in :: "bytes \<Rightarrow> ('s, 'r, 'w) session_op"
  dv_browse :: "('s, bytes list, 'w) session_op"
  dv_objects :: "('s, 'p, 'w) session_op"
  dv_next_batch :: "'c \<Rightarrow> 'w \<Rightarrow> 'b option await \<times> 'c \<times> 'w"
  dv_rows :: "'b \<Rightarrow> nat"

text \<open>
  One operation of the command that holds the session: its state is the wrapper, the cursors it was
  handed and the world. A cursor can be asked at any time, also after a later statement was sent.
\<close>

inductive held_step :: "('s, 't, 'c, 'b, 'r, 'p, 'w) driver \<Rightarrow>
    ('s, 't) held \<times> 'c tracked list \<times> 'w \<Rightarrow> ('s, 't) held \<times> 'c tracked list \<times> 'w \<Rightarrow> bool" for d where
  step_execute: "held_execute (dv_connect d) (dv_read_only d) (dv_query_id d) sql row_limit (dv_execute d sql row_limit) h w =
      (out, h', w') \<Longrightarrow>
    held_step d (h, cs, w) (h', (case out of Answered (Tracked c) \<Rightarrow> c # cs | _ \<Rightarrow> cs), w')"
| step_copy_in: "held_copy_in (dv_connect d) (dv_read_only d) (dv_copy_in d sql) h w = (copied, h', w') \<Longrightarrow>
    held_step d (h, cs, w) (h', cs, w')"
| step_browse: "held_browse (dv_connect d) (dv_read_only d) (dv_browse d) h w = (names, h', w') \<Longrightarrow>
    held_step d (h, cs, w) (h', cs, w')"
| step_objects: "held_objects (dv_connect d) (dv_read_only d) (dv_objects d) h w = (page, h', w') \<Longrightarrow>
    held_step d (h, cs, w) (h', cs, w')"
| step_next_batch: "tracked_next_batch (dv_next_batch d) (dv_rows d) c (h_ends h) w = (batch, c', ends', w') \<Longrightarrow>
    held_step d (h, xs @ c # ys, w) (h\<lparr>h_ends := ends'\<rparr>, xs @ c' # ys, w')"
| step_cancel: "held_step d (h, cs, w) (held_cancel h, cs, w)"
| step_read_only: "held_enforce_read_only (dv_read_only d) h w = (enforced, h', w') \<Longrightarrow>
    held_step d (h, cs, w) (h', cs, w')"

definition held_init :: "('s, 't) held \<times> 'c tracked list \<times> 'w \<Rightarrow> bool" where
  "held_init = (\<lambda>(h, cs, w). cs = [] \<and>
     (\<exists>s t config settings reused. h = held_leased s t (lease_new config settings reused)))"

section \<open>The invariant of a lease\<close>

text \<open>
  Every cell is in range, and on a connection that is not given up the only cursor that may be unfinished
  without the lease being dirty is the last one.
\<close>

definition unfinished :: "('s, 't) held \<Rightarrow> nat \<Rightarrow> bool" where
  "unfinished h i \<longleftrightarrow> h_base h \<le> i \<and> i < length (h_ends h) \<and> \<not> h_ends h ! i"

definition lease_cells :: "('s, 't) held \<Rightarrow> lease_state \<Rightarrow> bool" where
  "lease_cells h l \<longleftrightarrow> h_base h \<le> length (h_ends h) \<and>
     (\<forall>i. l_last_cursor l = Some i \<longrightarrow> i < length (h_ends h)) \<and>
     (\<forall>i. unfinished h i \<longrightarrow> l_dirty l \<or> l_last_cursor l = Some i)"

definition held_cells :: "('s, 't) held \<Rightarrow> bool" where
  "held_cells h \<longleftrightarrow> (\<forall>l. h_lease h = Some l \<longrightarrow> lease_cells h l)"

text \<open>After an attempt, every unfinished cursor has made the lease dirty.\<close>

definition held_swept :: "('s, 't) held \<Rightarrow> bool" where
  "held_swept h \<longleftrightarrow> held_cells h \<and> (\<forall>l i. h_lease h = Some l \<longrightarrow> unfinished h i \<longrightarrow> l_dirty l)"

lemma held_cells_cong:
  assumes "h_ends h' = h_ends h" "h_base h' = h_base h"
    and "map_option (\<lambda>l. (l_dirty l, l_last_cursor l)) (h_lease h') =
      map_option (\<lambda>l. (l_dirty l, l_last_cursor l)) (h_lease h)"
  shows "held_cells h' \<longleftrightarrow> held_cells h"
  using assms by (cases "h_lease h"; cases "h_lease h'") (auto simp: held_cells_def lease_cells_def unfinished_def)

lemma held_cells_leased: "held_cells (held_leased s t (lease_new config settings reused))"
  by (simp add: held_cells_def held_leased_def lease_new_def lease_cells_def unfinished_def)

lemma held_reconnect_cases:
  assumes "held_reconnect conn ro h w = (out, h', w')"
  obtains (none) "h_lease h = None" "out = Answered ()" "h' = h"
  | (stuck) l where "h_lease h = Some l" "\<forall>u. out \<noteq> Answered u" "h' = h\<lparr>h_lease := Some (l\<lparr>l_broken := True\<rparr>)\<rparr>"
  | (replaced) l s t where "h_lease h = Some l" "out = Answered ()"
      "h' = h\<lparr>h_inner := Some s, h_tunnel := t, h_base := length (h_ends h),
         h_lease := Some (l\<lparr>l_broken := False, l_reused := False, l_executed := False,
           l_unsettled := False, l_dirty := False, l_last_cursor := None\<rparr>)\<rparr>"
proof (cases "h_lease h")
  case None
  then have "out = Answered ()" "h' = h" using assms by (auto simp: held_reconnect_def)
  then show ?thesis by (rule none [OF None])
next
  case (Some l)
  show ?thesis
  proof (cases "\<exists>u. out = Answered u")
    case True
    with assms Some have "out = Answered () \<and> (\<exists>s t. h' = h\<lparr>h_inner := Some s, h_tunnel := t,
         h_base := length (h_ends h),
         h_lease := Some (l\<lparr>l_broken := False, l_reused := False, l_executed := False,
           l_unsettled := False, l_dirty := False, l_last_cursor := None\<rparr>)\<rparr>)"
      by (fastforce simp: held_reconnect_def Let_def split: await.splits prod.splits if_splits)
    with replaced [OF Some] show ?thesis by blast
  next
    case False
    with assms Some have "h' = h\<lparr>h_lease := Some (l\<lparr>l_broken := True\<rparr>)\<rparr>"
      by (auto simp: held_reconnect_def Let_def split: await.splits prod.splits if_splits)
    with False stuck [OF Some] show ?thesis by blast
  qed
qed

definition swept :: "('s, 't) held \<Rightarrow> bool \<Rightarrow> lease_state \<Rightarrow> lease_state" where
  "swept h u l = l\<lparr>l_dirty := l_dirty l \<or> cursor_left (h_ends h) (l_last_cursor l), l_unsettled := u\<rparr>"

lemma held_attempt_form:
  assumes "held_attempt op h w = (out, h', w')"
  shows "\<exists>x. h' = h\<lparr>h_inner := x, h_lease := map_option (swept h (out = Dropped \<or> out = Panicked)) (h_lease h)\<rparr>"
proof (cases "h_inner h")
  case None
  then show ?thesis using assms
    by (intro exI [of _ None], cases "h_lease h") (auto simp: held_attempt_def swept_def)
next
  case (Some s)
  obtain o1 s1 w1 where "op s w = (o1, s1, w1)" by (cases "op s w") auto
  with Some assms show ?thesis
    by (intro exI [of _ "Some s1"], cases "h_lease h"; cases o1) (auto simp: held_attempt_def swept_def Let_def)
qed

lemma held_cells_reconnect:
  assumes "held_cells h" "held_reconnect conn ro h w = (out, h', w')"
  shows "held_cells h'"
  using assms(2)
proof (cases rule: held_reconnect_cases)
  case (stuck l)
  then show ?thesis using assms(1) by (simp add: held_cells_def lease_cells_def unfinished_def)
next
  case (replaced l s t)
  then show ?thesis by (simp add: held_cells_def lease_cells_def unfinished_def)
qed (use assms(1) in simp)

lemma held_swept_call_end [simp]: "held_swept (call_end out h) = held_swept h"
  by (cases "h_lease h") (simp_all add: call_end_def held_swept_def held_cells_def lease_cells_def unfinished_def)

lemma held_swept_query_id [simp]: "held_swept (h\<lparr>h_query_id := q\<rparr>) = held_swept h"
  by (cases "h_lease h") (simp_all add: held_swept_def held_cells_def lease_cells_def unfinished_def)

lemma held_attempt_swept:
  assumes "held_cells h" "held_attempt op h w = (out, h', w')"
  shows "held_swept h'"
proof -
  obtain x where "h' = h\<lparr>h_inner := x, h_lease := map_option (swept h (out = Dropped \<or> out = Panicked)) (h_lease h)\<rparr>"
    using held_attempt_form [OF assms(2)] by blast
  with assms(1) show ?thesis
    by (cases "h_lease h")
      (auto simp: held_swept_def held_cells_def lease_cells_def unfinished_def swept_def cursor_left_def)
qed

lemma held_swept_cells: "held_swept h \<Longrightarrow> held_cells h"
  by (simp add: held_swept_def)

lemma settle_swept:
  assumes "held_cells h" "settle (held_attempt op h w) = (out, h', w')"
  shows "held_swept h'"
proof -
  obtain o1 h1 w1 where a: "held_attempt op h w = (o1, h1, w1)" by (cases "held_attempt op h w") auto
  from held_attempt_swept [OF assms(1) a] assms(2) a show ?thesis by (cases o1) auto
qed

text \<open>A call keeps the invariant, and one that answered has swept the cursors before it.\<close>

lemma held_call_cells:
  fixes op :: "('s, 'r, 'w) session_op" and h :: "('s, 't) held"
  assumes "held_cells h" "held_call conn ro rerun op h w = (out, h', w')"
  shows "held_cells h' \<and> ((\<exists>r. out = Answered r) \<longrightarrow> held_swept h')"
  using assms(1) _ _ _ _ _ assms(2)
proof (rule held_call_rule [where I = held_cells])
  fix h :: "('s, 't) held" and w out h' w'
  assume h: "held_cells h" and r: "held_reconnect conn ro h w = (out, h', w')"
  show "(out = Dropped \<longrightarrow> held_cells h' \<and> ((\<exists>r. Dropped = Answered r) \<longrightarrow> held_swept h')) \<and>
     (out = Panicked \<longrightarrow> held_cells h' \<and> ((\<exists>r. Panicked = Answered r) \<longrightarrow> held_swept h')) \<and>
     (\<forall>e. out = Failed e \<longrightarrow> held_cells h' \<and> ((\<exists>r. Failed e = Answered r) \<longrightarrow> held_swept h'))"
    using held_cells_reconnect [OF h r] by simp
qed (auto intro: held_cells_reconnect held_swept_cells held_attempt_swept settle_swept)

lemma held_call_ends:
  fixes op :: "('s, 'r, 'w) session_op" and h :: "('s, 't) held"
  assumes "held_call conn ro rerun op h w = (out, h', w')"
  shows "h_ends h' = h_ends h"
  using refl _ _ _ _ _ assms
proof (rule held_call_rule [where I = "\<lambda>x. h_ends x = h_ends h"])
  fix x :: "('s, 't) held" and w out x' w'
  assume "h_ends x = h_ends h" and r: "held_reconnect conn ro x w = (out, x', w')"
  then show "(out = Dropped \<longrightarrow> h_ends x' = h_ends h) \<and> (out = Panicked \<longrightarrow> h_ends x' = h_ends h) \<and>
     (\<forall>e. out = Failed e \<longrightarrow> h_ends x' = h_ends h)"
    by (cases rule: held_reconnect_cases [OF r]) auto
next
  fix x :: "('s, 't) held" and w u x' w'
  assume "h_ends x = h_ends h" and r: "held_reconnect conn ro x w = (Answered u, x', w')"
  then show "h_ends x' = h_ends h" by (cases rule: held_reconnect_cases [OF r]) auto
next
  fix x :: "('s, 't) held" and w out x' w'
  assume "h_ends x = h_ends h" and a: "held_attempt op x w = (out, x', w')"
  then show "h_ends x' = h_ends h" using held_attempt_form [OF a] by auto
next
  fix x :: "('s, 't) held" and w out x' w'
  assume x: "h_ends x = h_ends h" and s: "settle (held_attempt op x w) = (out, x', w')"
  obtain o1 x1 w1 where a: "held_attempt op x w = (o1, x1, w1)" by (cases "held_attempt op x w") auto
  then have "h_ends x1 = h_ends h" using held_attempt_form [OF a] x by auto
  with s a show "h_ends x' = h_ends h" by (cases o1) (auto simp: call_end_def)
qed

definition lease_inv :: "('s, 't) held \<times> 'c tracked list \<times> 'w \<Rightarrow> bool" where
  "lease_inv = (\<lambda>(h, cs, w). held_cells h \<and> (\<forall>c \<in> set cs. tr_end c < length (h_ends h)))"

lemma held_cells_track:
  assumes "held_swept h" "held_track c row_limit h = (c', h')"
  shows "held_cells h' \<and> length (h_ends h) \<le> length (h_ends h') \<and>
    (\<forall>t. c' = Tracked t \<longrightarrow> tr_end t < length (h_ends h'))"
proof (cases "h_lease h")
  case None
  with assms show ?thesis by (auto simp: held_track_def held_swept_def)
next
  case (Some l)
  with assms have "\<forall>i. unfinished h i \<longrightarrow> l_dirty l" "h_base h \<le> length (h_ends h)"
    by (auto simp: held_swept_def held_cells_def lease_cells_def)
  then show ?thesis using assms(2) Some
    by (auto simp: held_track_def held_cells_def lease_cells_def unfinished_def nth_append less_Suc_eq)
qed

lemma held_cells_ends:
  assumes "held_cells h" "length ends' = length (h_ends h)" "\<forall>i < length ends'. h_ends h ! i \<longrightarrow> ends' ! i"
  shows "held_cells (h\<lparr>h_ends := ends'\<rparr>)"
  using assms by (auto simp: held_cells_def lease_cells_def unfinished_def)

lemma cell_set: "ends ! i \<Longrightarrow> ends[k := True] ! i"
  by (cases "k < length ends"; cases "k = i") (auto simp: list_update_beyond not_less)

lemma tracked_next_batch_ends:
  assumes "tracked_next_batch next_batch rows c ends w = (out, c', ends', w')"
  shows "length ends' = length ends \<and> tr_end c' = tr_end c \<and> (\<forall>i < length ends. ends ! i \<longrightarrow> ends' ! i)"
  using assms
  by (auto simp: tracked_next_batch_def Let_def cell_set
      split: prod.splits await.splits option.splits if_splits)

interpretation lease: transition_system held_init "held_step d" lease_inv for d
proof
  fix s :: "('a, 'b) held \<times> 'c tracked list \<times> 'd"
  assume "held_init s"
  then show "lease_inv s" by (auto simp: held_init_def lease_inv_def held_cells_leased)
next
  fix s s' :: "('a, 'b) held \<times> 'c tracked list \<times> 'd"
  assume inv: "lease_inv s" and step: "held_step d s s'"
  from step inv show "lease_inv s'"
  proof cases
    case (step_execute sql row_limit h w out h' w' cs)
    have cells: "held_cells h" "\<forall>c \<in> set cs. tr_end c < length (h_ends h)"
      using inv step_execute(1) by (auto simp: lease_inv_def)
    obtain o1 h1 w1 where c: "held_call (dv_connect d) (dv_read_only d) (held_rerunnable h sql)
        (dv_execute d sql row_limit) h w = (o1, h1, w1)" by (metis prod_cases3)
    note c1 = held_call_cells [OF cells(1) c] and ends = held_call_ends [OF c]
    show ?thesis
    proof (cases o1)
      case (Answered r)
      define h2 where "h2 = h1\<lparr>h_query_id := (case h_inner h1 of Some s \<Rightarrow> dv_query_id d s | None \<Rightarrow> None)\<rparr>"
      obtain c' h3 where t: "held_track r row_limit h2 = (c', h3)" by (cases "held_track r row_limit h2")
      have "held_swept h2"
        using c1 Answered by (simp add: h2_def)
      note tr = held_cells_track [OF this t]
      have "out = Answered c'" "h' = h3"
        using step_execute(3) c Answered t by (auto simp: held_execute_def h2_def Let_def)
      with tr cells(2) ends step_execute(2) show ?thesis
        by (auto simp: lease_inv_def h2_def split: held_cursor.splits)
    qed (use step_execute c c1 cells ends in \<open>auto simp: held_execute_def lease_inv_def\<close>)
  next
    case (step_next_batch c h w batch c' ends' w' xs ys)
    from tracked_next_batch_ends [OF step_next_batch(3)] inv step_next_batch(1,2) show ?thesis
      by (auto simp: lease_inv_def intro: held_cells_ends)
  next
    case (step_cancel h cs w)
    have "held_cells (held_cancel h) \<longleftrightarrow> held_cells h"
      by (rule held_cells_cong) (cases "h_lease h"; simp add: held_cancel_def)+
    with step_cancel inv show ?thesis by (simp add: lease_inv_def held_cancel_def)
  next
    case (step_read_only h w enforced h' w' cs)
    have "h_ends h' = h_ends h \<and> h_base h' = h_base h \<and>
        map_option (\<lambda>l. (l_dirty l, l_last_cursor l)) (h_lease h') =
        map_option (\<lambda>l. (l_dirty l, l_last_cursor l)) (h_lease h)"
      using step_read_only(3)
      by (cases "h_lease h")
        (auto simp: held_enforce_read_only_def split: option.splits prod.splits await.splits)
    with held_cells_cong [of h' h] step_read_only inv show ?thesis by (simp add: lease_inv_def)
  qed (use inv held_call_cells held_call_ends in
    \<open>fastforce simp: lease_inv_def held_copy_in_def held_browse_def held_objects_def\<close>)+
qed

end
