(* ===== verification/LeaseSafety.thy ===== *)
theory LeaseSafety
  imports Lease
begin

text \<open>
  What the pool may rely on when a session comes back, and what a command may rely on when it sends a
  statement: the properties of \<^verbatim>\<open>crates/qh-ffi/src/host/lease.rs\<close>.
\<close>

section \<open>A cancelled lease stays cancelled\<close>

definition held_cancelled :: "('s, 't) held \<Rightarrow> bool" where
  "held_cancelled h \<longleftrightarrow> (\<forall>l. h_lease h = Some l \<longrightarrow> l_cancelled l)"

lemma held_cancelled_reconnect:
  assumes "held_cancelled h" "held_reconnect conn ro h w = (out, h', w')"
  shows "held_cancelled h'"
  using assms(2) by (cases rule: held_reconnect_cases) (use assms(1) in \<open>auto simp: held_cancelled_def\<close>)

lemma held_cancelled_attempt:
  assumes "held_cancelled h" "held_attempt op h w = (out, h', w')"
  shows "held_cancelled h'"
  using held_attempt_form [OF assms(2)] assms(1) by (auto simp: held_cancelled_def swept_def)

lemma held_cancelled_settle:
  assumes "held_cancelled h" "settle (held_attempt op h w) = (out, h', w')"
  shows "held_cancelled h'"
proof -
  obtain o1 h1 w1 where a: "held_attempt op h w = (o1, h1, w1)" by (cases "held_attempt op h w") auto
  from held_cancelled_attempt [OF assms(1) a] assms(2) a show ?thesis
    by (cases o1) (auto simp: held_cancelled_def call_end_def)
qed

lemma held_cancelled_call:
  fixes op :: "('s, 'r, 'w) session_op" and h :: "('s, 't) held"
  assumes "held_cancelled h" "held_call conn ro rerun op h w = (out, h', w')"
  shows "held_cancelled h'"
  using assms(1) _ _ _ _ _ assms(2)
proof (rule held_call_rule [where I = held_cancelled])
  fix h :: "('s, 't) held" and w out h' w'
  assume "held_cancelled h" and r: "held_reconnect conn ro h w = (out, h', w')"
  from held_cancelled_reconnect [OF this]
  show "(out = Dropped \<longrightarrow> held_cancelled h') \<and> (out = Panicked \<longrightarrow> held_cancelled h') \<and>
     (\<forall>e. out = Failed e \<longrightarrow> held_cancelled h')" by simp
qed (auto intro: held_cancelled_reconnect held_cancelled_attempt held_cancelled_settle)

lemma held_cancelled_execute:
  assumes "held_cancelled h" "held_execute conn ro qid sql row_limit exec h w = (out, h', w')"
  shows "held_cancelled h'"
proof -
  obtain o1 h1 w1 where c: "held_call conn ro (held_rerunnable h sql) exec h w = (o1, h1, w1)"
    by (cases "held_call conn ro (held_rerunnable h sql) exec h w") auto
  have "held_cancelled h1" by (rule held_cancelled_call [OF assms(1) c])
  then show ?thesis using assms(2) c
    by (cases o1; cases "h_lease h1") (auto simp: held_execute_def held_track_def held_cancelled_def)
qed

definition cancel_inv :: "('s, 't) held \<times> 'c tracked list \<times> 'w \<Rightarrow> bool" where
  "cancel_inv = (\<lambda>(h, cs, w). held_cancelled h)"

interpretation cancelled: transition_system cancel_inv "held_step d" cancel_inv for d
proof
  fix s s' :: "('a, 'b) held \<times> 'c tracked list \<times> 'd"
  assume inv: "cancel_inv s" and step: "held_step d s s'"
  from step inv show "cancel_inv s'"
  proof cases
    case (step_execute sql row_limit h w out h' w' cs)
    then show ?thesis using inv held_cancelled_execute by (fastforce simp: cancel_inv_def)
  next
    case (step_read_only h w enforced h' w' cs)
    then show ?thesis using inv
      by (auto simp: cancel_inv_def held_cancelled_def held_enforce_read_only_def
        split: option.splits prod.splits await.splits)
  next
    case (step_copy_in sql h w copied h' w' cs)
    then show ?thesis using inv held_cancelled_call by (fastforce simp: cancel_inv_def held_copy_in_def)
  next
    case (step_browse h w names h' w' cs)
    then show ?thesis using inv held_cancelled_call by (fastforce simp: cancel_inv_def held_browse_def)
  next
    case (step_objects h w page h' w' cs)
    then show ?thesis using inv held_cancelled_call by (fastforce simp: cancel_inv_def held_objects_def)
  qed (auto simp: cancel_inv_def held_cancelled_def held_cancel_def)
qed simp

lemma held_cancelled_cancel: "held_cancelled (held_cancel h)"
  by (auto simp: held_cancelled_def held_cancel_def)

text \<open>
  C35. A cancelled session never serves another statement after its lease: whatever its command still
  does with it after the cancel, reconnecting included, the session is handed back to be discarded.
\<close>
theorem cancelled_session_is_discarded:
  assumes "(held_step d)\<^sup>*\<^sup>* (held_cancel h, cs, w) (h', cs', w')"
    and "fst (held_release h') = Some req"
  shows "cr_fate req = FateDiscard \<and> cr_refill req = None"
proof -
  have "held_cancelled h'"
    using cancelled.inv_steps [OF assms(1)] held_cancelled_cancel by (auto simp: cancel_inv_def)
  with assms(2) show ?thesis
    by (auto simp: held_release_def held_cancelled_def lease_fate_def Let_def split: option.splits)
qed

text \<open>A driver for the examples: every call answers, and the world counts the calls.\<close>

definition example_driver :: "(nat, unit, unit, nat, unit, unit, nat) driver" where
  "example_driver = \<lparr>dv_connect = (\<lambda>l w. (Answered (7, None), w)), dv_read_only = (\<lambda>s w. (Answered (), s, w)),
     dv_query_id = (\<lambda>s. None), dv_execute = (\<lambda>sql limit s w. (Answered (), s, w + 1)),
     dv_copy_in = (\<lambda>sql s w. (Answered (), s, w)), dv_browse = (\<lambda>s w. (Answered [], s, w)),
     dv_objects = (\<lambda>s w. (Answered (), s, w)), dv_next_batch = (\<lambda>c w. (Answered None, c, w)),
     dv_rows = id\<rparr>"

definition example_lease :: lease_state where
  "example_lease = lease_new example_connection [] True"

definition example_held :: "(nat, unit) held" where
  "example_held = held_leased 1 None example_lease"

theorem cancelled_session_is_discarded_witness:
  "\<exists>req. fst (held_release (held_cancel example_held)) = Some req \<and> cr_fate req = FateDiscard"
proof -
  obtain req where req: "fst (held_release (held_cancel example_held)) = Some req"
    by (auto simp: held_release_def held_cancel_def example_held_def held_leased_def Let_def)
  from cancelled_session_is_discarded [of example_driver example_held "[]" 0 "held_cancel example_held" "[]" 0, OF _ req]
    req show ?thesis by auto
qed

section \<open>What goes back is settled\<close>

text \<open>
  A session goes back to be reset only when nothing about it is in doubt: it was not cancelled, no
  call on it was dropped half-way, its connection is not known to be lost, and on PostgreSQL every cursor
  that was opened on this connection was ended by the server.
\<close>
theorem reset_only_when_settled:
  assumes "reachable held_init (held_step d) (h, cs, w)"
    and "h_lease h = Some l" and "lease_fate (h_ends h) l = FateReset"
  shows "\<not> l_cancelled l \<and> \<not> l_broken l \<and> \<not> l_unsettled l \<and>
    \<not> (c_kind (l_config l) = KPostgres \<and> \<not> list_all (\<lambda>ended. ended) (drop (h_base h) (h_ends h)))"
proof -
  have "lease_inv (h, cs, w)" by (rule lease.inv_reachable [OF assms(1)])
  then have cells: "lease_cells h l" using assms(2) by (simp add: lease_inv_def held_cells_def)
  have flags: "\<not> l_cancelled l" "\<not> l_broken l" "\<not> l_unsettled l"
    and left: "c_kind (l_config l) = KPostgres \<Longrightarrow> \<not> l_dirty l \<and> \<not> cursor_left (h_ends h) (l_last_cursor l)"
    using assms(3) by (auto simp: lease_fate_def Let_def split: if_splits)
  have "list_all (\<lambda>ended. ended) (drop (h_base h) (h_ends h))" if "c_kind (l_config l) = KPostgres"
  proof -
    have "h_ends h ! i" if "h_base h \<le> i" "i < length (h_ends h)" for i
    proof (rule ccontr)
      assume "\<not> h_ends h ! i"
      with that have "unfinished h i" by (simp add: unfinished_def)
      with cells have "l_dirty l \<or> l_last_cursor l = Some i" by (simp add: lease_cells_def)
      with left [OF \<open>c_kind (l_config l) = KPostgres\<close>] \<open>\<not> h_ends h ! i\<close> show False
        by (simp add: cursor_left_def)
    qed
    then show ?thesis by (simp add: list_all_length)
  qed
  with flags show ?thesis by blast
qed

theorem reset_only_when_settled_witness:
  "lease_fate (h_ends example_held) example_lease = FateReset \<and> list_all (\<lambda>ended. ended) (drop 0 (h_ends example_held))"
proof -
  have "held_init (example_held, [] :: unit tracked list, 0 :: nat)"
    by (simp add: held_init_def example_held_def example_lease_def) blast
  then have "reachable held_init (held_step example_driver) (example_held, [], 0)" by (rule reach_init)
  moreover have "h_lease example_held = Some example_lease" by (simp add: example_held_def held_leased_def)
  moreover have fate: "lease_fate (h_ends example_held) example_lease = FateReset"
    by (simp add: example_held_def held_leased_def example_lease_def lease_new_def lease_fate_def cursor_left_def)
  ultimately show ?thesis
    using reset_only_when_settled [of example_driver example_held "[]" 0 example_lease]
    by (simp add: example_held_def held_leased_def example_lease_def lease_new_def example_connection_def)
qed

section \<open>What a failed call leaves behind\<close>

definition doubtful :: "('s, 't) held \<Rightarrow> bool" where
  "doubtful h \<longleftrightarrow> (\<forall>l. h_lease h = Some l \<longrightarrow> l_broken l \<or> l_unsettled l)"

lemma doubtful_broken: "h_lease h = Some l \<Longrightarrow> l_broken l \<Longrightarrow> doubtful h"
  by (simp add: doubtful_def)

lemma doubtful_reconnect:
  assumes "held_reconnect conn ro h w = (out, h', w')" "\<forall>u. out \<noteq> Answered u"
  shows "doubtful h'"
  using assms(1) by (cases rule: held_reconnect_cases) (use assms(2) in \<open>auto simp: doubtful_def\<close>)

lemma doubtful_settle:
  assumes "settle (held_attempt op h w) = (out, h', w')"
    and "out = Dropped \<or> (\<exists>e. out = Failed e \<and> connection_lost e)"
  shows "doubtful h'"
proof -
  obtain o1 h1 w1 where a: "held_attempt op h w = (o1, h1, w1)" by (cases "held_attempt op h w") auto
  obtain x where "h1 = h\<lparr>h_inner := x, h_lease := map_option (swept h (o1 = Dropped \<or> o1 = Panicked)) (h_lease h)\<rparr>"
    using held_attempt_form [OF a] by blast
  with assms a show ?thesis
    by (cases o1) (auto simp: doubtful_def swept_def call_end_def)
qed

text \<open>
  A session whose call was dropped by a Stop, or whose connection was lost, is never reset and used
  again: it is handed back to be discarded.
\<close>
theorem interrupted_session_is_discarded:
  fixes op :: "('s, 'r, 'w) session_op" and h :: "('s, 't) held"
  assumes "held_call conn ro rerun op h w = (out, h', w')"
    and "out = Dropped \<or> (\<exists>e. out = Failed e \<and> connection_lost e)"
    and "h_lease h' = Some l"
  shows "lease_fate (h_ends h') l = FateDiscard"
proof -
  have "out = Dropped \<or> (\<exists>e. out = Failed e \<and> connection_lost e) \<longrightarrow> doubtful h'"
    using TrueI _ _ _ _ _ assms(1)
  proof (rule held_call_rule [where I = "\<lambda>_. True"])
    fix h :: "('s, 't) held" and w out h' w'
    assume r: "held_reconnect conn ro h w = (out, h', w')"
    show "(out = Dropped \<longrightarrow> Dropped = Dropped \<or> (\<exists>e. Dropped = Failed e \<and> connection_lost e) \<longrightarrow> doubtful h') \<and>
      (out = Panicked \<longrightarrow> Panicked = Dropped \<or> (\<exists>e. Panicked = Failed e \<and> connection_lost e) \<longrightarrow> doubtful h') \<and>
      (\<forall>e. out = Failed e \<longrightarrow> Failed e = Dropped \<or> (\<exists>e'. Failed e = Failed e' \<and> connection_lost e') \<longrightarrow> doubtful h')"
      using doubtful_reconnect [OF r] by auto
  qed (auto intro: doubtful_settle doubtful_broken)
  with assms(2,3) have "l_broken l \<or> l_unsettled l" by (auto simp: doubtful_def)
  then show ?thesis by (auto simp: lease_fate_def)
qed

text \<open>A statement on a socket that was reset while it was on its way.\<close>

definition reset_by_peer :: engine_error where
  "reset_by_peer = Connect ''connection reset by peer'' Transient"

definition failing_copy :: "(nat, unit, nat) session_op" where
  "failing_copy = (\<lambda>s w. (Failed reset_by_peer, s, w + 1))"

definition plain_lease :: "bool \<Rightarrow> (nat, unit) held" where
  "plain_lease reused = held_leased 1 None (lease_new example_connection [] reused)"

lemma failing_copy_run:
  "held_call conn ro False failing_copy (plain_lease r) w =
    (Failed reset_by_peer,
     (plain_lease r)\<lparr>h_lease := Some ((lease_new example_connection [] r)\<lparr>l_executed := True, l_broken := True\<rparr>)\<rparr>,
     w + 1)"
  by (simp add: held_call_def call_attempts_def held_attempt_def failing_copy_def plain_lease_def held_leased_def
    lease_new_def call_end_def connection_lost_def reset_by_peer_def cursor_left_def)

theorem interrupted_session_is_discarded_witness:
  "lease_fate [] ((lease_new example_connection [] True)\<lparr>l_executed := True, l_broken := True\<rparr>) = FateDiscard"
  using interrupted_session_is_discarded [OF failing_copy_run [of "dv_connect example_driver"
      "dv_read_only example_driver" True 0]]
  by (simp add: connection_lost_def reset_by_peer_def plain_lease_def held_leased_def)

section \<open>How often a statement is sent\<close>

text \<open>The world with a count of the calls of one operation; the other calls do not touch the count.\<close>

definition counted :: "('s, 'r, 'w) session_op \<Rightarrow> ('s, 'r, 'w \<times> nat) session_op" where
  "counted op = (\<lambda>s (w, n). case op s w of (out, s', w') \<Rightarrow> (out, s', (w', Suc n)))"

definition uncounted :: "('s, 'r, 'w) session_op \<Rightarrow> ('s, 'r, 'w \<times> nat) session_op" where
  "uncounted op = (\<lambda>s (w, n). case op s w of (out, s', w') \<Rightarrow> (out, s', (w', n)))"

definition uncounted_connect :: "(lease_state \<Rightarrow> 'w \<Rightarrow> ('s \<times> 't option) await \<times> 'w) \<Rightarrow>
    lease_state \<Rightarrow> 'w \<times> nat \<Rightarrow> ('s \<times> 't option) await \<times> 'w \<times> nat" where
  "uncounted_connect conn = (\<lambda>l (w, n). case conn l w of (out, w') \<Rightarrow> (out, (w', n)))"

lemma attempt_counts:
  "held_attempt (counted op) h (w, n) = (out, h', (w', m)) \<Longrightarrow> m \<le> Suc n"
  by (auto simp: held_attempt_def counted_def Let_def split: option.splits prod.splits await.splits)

lemma settle_counts: "settle (out, h, w) = (out', h', w') \<Longrightarrow> w' = w"
  by (cases out) auto

lemma reconnect_counts:
  assumes "held_reconnect (uncounted_connect conn) (uncounted ro) h (w, n) = (out, h', (w', m))"
  shows "m = n"
proof (cases "h_lease h")
  case None
  with assms show ?thesis by (simp add: held_reconnect_def)
next
  case (Some l)
  obtain o1 w1 where "conn l w = (o1, w1)" by (cases "conn l w")
  with Some assms show ?thesis
    by (cases o1) (auto simp: held_reconnect_def uncounted_connect_def uncounted_def Let_def
      split: prod.splits await.splits if_splits)
qed

text \<open>A second attempt follows only a \<open>Connect\<close> failure on a reused session that ran nothing yet.\<close>

definition may_be_resent :: "('s, 't) held \<Rightarrow> bool" where
  "may_be_resent h \<longleftrightarrow> (\<exists>l. h_lease h = Some l \<and> l_reused l \<and> \<not> l_executed l)"

lemma attempts_count:
  assumes "call_attempts (uncounted_connect conn) (uncounted ro) rerun (counted op) h (w, n) = (out, h', (w', m))"
  shows "m \<le> n + (if rerun \<and> may_be_resent h then 2 else 1)"
proof -
  obtain o1 h1 w1 k where a: "held_attempt (counted op) h (w, n) = (o1, h1, (w1, k))"
    by (cases "held_attempt (counted op) h (w, n)") auto
  have k: "k \<le> Suc n" by (rule attempt_counts [OF a])
  have first: "(case h_lease h of Some l \<Rightarrow> l_reused l \<and> \<not> l_executed l | None \<Rightarrow> False) = may_be_resent h"
    by (auto simp: may_be_resent_def split: option.splits)
  show ?thesis
  proof (cases "\<exists>e. o1 = Failed e \<and> may_be_resent h \<and> rerun \<and> (case e of Connect _ _ \<Rightarrow> True | _ \<Rightarrow> False) \<and>
      produced_no_page e")
    case False
    then have "settle (o1, h1, (w1, k)) = (out, h', (w', m))"
      using assms a first by (cases o1) (auto simp: call_attempts_def Let_def split: if_splits)
    with settle_counts [OF this] k show ?thesis by simp
  next
    case True
    then obtain e where e: "o1 = Failed e" by blast
    obtain o2 h2 w2 j where r: "held_reconnect (uncounted_connect conn) (uncounted ro) h1 (w1, k) = (o2, h2, (w2, j))"
      by (cases "held_reconnect (uncounted_connect conn) (uncounted ro) h1 (w1, k)") auto
    have j: "j = k" by (rule reconnect_counts [OF r])
    obtain o3 h3 w3 i where a3: "held_attempt (counted op) h2 (w2, j) = (o3, h3, (w3, i))"
      by (cases "held_attempt (counted op) h2 (w2, j)") auto
    have i: "i \<le> Suc j" by (rule attempt_counts [OF a3])
    show ?thesis
    proof (cases o2)
      case (Answered u)
      then have "settle (o3, h3, (w3, i)) = (out, h', (w', m))"
        using assms a r a3 True e first by (auto simp: call_attempts_def Let_def)
      with settle_counts [OF this] k i j True show ?thesis by auto
    qed (use assms a r True e first k j in \<open>auto simp: call_attempts_def Let_def\<close>)
  qed
qed

text \<open>
  C36. A statement that may not be sent twice is sent at most once by a call, whatever fails on the way.
  One that may (a read, or the text that opens a transaction) is sent at most twice, and only when
  the session came from the idle list and had run nothing yet.
\<close>
theorem statement_is_sent_once:
  assumes "held_call (uncounted_connect conn) (uncounted ro) rerun (counted op) h (w, n) = (out, h', (w', m))"
  shows "m \<le> n + (if rerun \<and> may_be_resent h then 2 else 1)"
proof (cases "\<exists>l. h_lease h = Some l \<and> l_broken l")
  case False
  then have "call_attempts (uncounted_connect conn) (uncounted ro) rerun (counted op) h (w, n) = (out, h', (w', m))"
    using assms by (auto simp: held_call_def split: option.splits)
  then show ?thesis by (rule attempts_count)
next
  case True
  then obtain l where l: "h_lease h = Some l" "l_broken l" by blast
  obtain o1 h1 w1 k where r: "held_reconnect (uncounted_connect conn) (uncounted ro) h (w, n) = (o1, h1, (w1, k))"
    by (cases "held_reconnect (uncounted_connect conn) (uncounted ro) h (w, n)") auto
  have k: "k = n" by (rule reconnect_counts [OF r])
  consider (no) "\<not> rerun" | (yes) u where "rerun" "o1 = Answered u" | (stuck) "rerun" "\<forall>u. o1 \<noteq> Answered u" by blast
  then show ?thesis
  proof cases
    case no
    then show ?thesis using assms l by (auto simp: held_call_def)
  next
    case yes
    from r yes(2) have fresh: "\<not> may_be_resent h1"
      by (cases rule: held_reconnect_cases [OF r]) (auto simp: may_be_resent_def l)
    have "call_attempts (uncounted_connect conn) (uncounted ro) rerun (counted op) h1 (w1, k) = (out, h', (w', m))"
      using assms r l yes by (simp add: held_call_def)
    from attempts_count [OF this] fresh k show ?thesis by simp
  next
    case stuck
    then show ?thesis using assms r l k by (cases o1) (auto simp: held_call_def)
  qed
qed

theorem statement_is_sent_once_witness:
  "\<exists>out h' w' m. held_call (uncounted_connect (dv_connect example_driver)) (uncounted (dv_read_only example_driver))
     False (counted failing_copy) (plain_lease True) (0, 5) = (out, h', (w', m)) \<and> m \<le> 6"
proof -
  obtain out h' w' m where run: "held_call (uncounted_connect (dv_connect example_driver))
      (uncounted (dv_read_only example_driver)) False (counted failing_copy) (plain_lease True) (0, 5) =
      (out, h', (w', m))"
    by (metis prod_cases4)
  from statement_is_sent_once [OF this] run show ?thesis by auto
qed

text \<open>
  A write whose connection was lost is not sent again through \<open>retry::execute\<close> either: after such a failure
  every later call of the lease that may not be sent twice is refused before anything is sent, with an
  error that no policy retries.
\<close>
theorem lost_write_is_not_resent:
  assumes "held_call conn ro False op h w = (Failed e, h1, w1)" "connection_lost e" "h_lease h = Some l"
  shows "held_call conn' ro' False op' h1 w2 = (Failed (Connect lost_message Permanent), h1, w2) \<and>
    \<not> again p attempt (Connect lost_message Permanent)"
proof -
  have "\<exists>l1. h_lease h1 = Some l1 \<and> l_broken l1"
  proof (cases "l_broken l")
    case True
    with assms(1,3) show ?thesis by (auto simp: held_call_def)
  next
    case False
    obtain o1 ha wa where a: "held_attempt op h w = (o1, ha, wa)" by (cases "held_attempt op h w") auto
    obtain x where "ha = h\<lparr>h_inner := x, h_lease := map_option (swept h (o1 = Dropped \<or> o1 = Panicked)) (h_lease h)\<rparr>"
      using held_attempt_form [OF a] by blast
    moreover have "settle (o1, ha, wa) = (Failed e, h1, w1)"
      using assms(1,3) False a by (cases o1) (auto simp: held_call_def call_attempts_def)
    ultimately show ?thesis
      using assms(2,3) by (cases o1) (auto simp: call_end_def swept_def)
  qed
  then show ?thesis by (auto simp: held_call_def again_def)
qed

theorem lost_write_is_not_resent_witness:
  "\<exists>h1 w1. held_call (dv_connect example_driver) (dv_read_only example_driver) False failing_copy (plain_lease True) 0 =
      (Failed reset_by_peer, h1, w1) \<and>
    held_call (dv_connect example_driver) (dv_read_only example_driver) False failing_copy h1 w1 =
      (Failed (Connect lost_message Permanent), h1, w1)"
proof -
  note run = failing_copy_run [of "dv_connect example_driver" "dv_read_only example_driver" True 0]
  have lost: "connection_lost reset_by_peer" by (simp add: connection_lost_def reset_by_peer_def)
  have lease: "h_lease (plain_lease True) = Some (lease_new example_connection [] True)"
    by (simp add: plain_lease_def held_leased_def)
  show ?thesis
    by (intro exI conjI) (rule run, rule conjunct1 [OF lost_write_is_not_resent [OF run lost lease]])
qed

end
