(* ===== verification/Pool.thy ===== *)
theory Pool
  imports PoolKey Lease "HOL-Library.AList"
begin

text \<open>
  The session pool, \<^verbatim>\<open>crates/qh-ffi/src/host/pool.rs\<close>: its data and the critical sections of its
  operations, each a function of the entry (or of the pool) that the source holds locked. How these
  interleave is the theory PoolSystem.

  Sessions, tunnels and entries are driver and runtime objects behind pointers; here each is a number.
  An entry is an index into \<open>po_heap\<close>, which keeps the entries that the map no longer names, as the
  source's \<open>Arc\<close>s do. Counters are unbounded where the source has \<open>usize\<close>; \<open>Instant\<close> is a number of
  milliseconds.
\<close>

section \<open>Data\<close>

datatype lane = QueryLane | MetadataLane

definition QUERY_SESSIONS :: nat where "QUERY_SESSIONS = 2"
definition METADATA_SESSIONS :: nat where "METADATA_SESSIONS = 1"
definition IDLE_MAX :: nat where "IDLE_MAX = 3"

fun lane_cap :: "lane \<Rightarrow> nat" where
  "lane_cap QueryLane = QUERY_SESSIONS"
| "lane_cap MetadataLane = METADATA_SESSIONS"

record idle_session =
  is_session :: nat
  is_tunnel :: "nat option"
  is_since :: nat

record pool_entry =
  en_credential :: "64 word"
  en_idle :: "idle_session list"
  en_leased :: "lane \<Rightarrow> nat"
  en_pending :: nat
  en_retired :: bool
  en_tunnel :: "nat option"

definition entry_new :: "64 word \<Rightarrow> pool_entry" where
  "entry_new credential =
     \<lparr>en_credential = credential, en_idle = [], en_leased = (\<lambda>_. 0), en_pending = 0,
      en_retired = False, en_tunnel = None\<rparr>"

record session_pool =
  po_entries :: "(identity \<times> nat) list"
  po_heap :: "pool_entry list"
  po_opened :: nat
  po_reused :: nat
  po_closed :: nat
  po_tunnels_opened :: nat

definition pool_new :: session_pool where
  "pool_new = \<lparr>po_entries = [], po_heap = [], po_opened = 0, po_reused = 0, po_closed = 0, po_tunnels_opened = 0\<rparr>"

definition put_entry :: "nat \<Rightarrow> pool_entry \<Rightarrow> session_pool \<Rightarrow> session_pool" where
  "put_entry e en p = p\<lparr>po_heap := (po_heap p)[e := en]\<rparr>"

record pool_stats =
  st_idle :: nat
  st_leased_query :: nat
  st_leased_metadata :: nat
  st_pending :: nat
  st_opened :: nat
  st_reused :: nat
  st_closed :: nat
  st_tunnels_opened :: nat

definition stats_of_pool :: "session_pool \<Rightarrow> pool_stats" where
  "stats_of_pool p =
     (let es = map (\<lambda>(_, e). po_heap p ! e) (po_entries p) in
      \<lparr>st_idle = sum_list (map (length \<circ> en_idle) es),
       st_leased_query = sum_list (map (\<lambda>en. en_leased en QueryLane) es),
       st_leased_metadata = sum_list (map (\<lambda>en. en_leased en MetadataLane) es),
       st_pending = sum_list (map en_pending es),
       st_opened = po_opened p, st_reused = po_reused p, st_closed = po_closed p,
       st_tunnels_opened = po_tunnels_opened p\<rparr>)"

section \<open>Guards\<close>

text \<open>A dropped \<open>LeaseGuard\<close>, a lease that becomes pending, and a dropped \<open>PendingGuard\<close>.\<close>

definition lease_drop :: "lane \<Rightarrow> pool_entry \<Rightarrow> pool_entry" where
  "lease_drop l en = en\<lparr>en_leased := (en_leased en)(l := en_leased en l - 1)\<rparr>"

definition into_pending :: "lane \<Rightarrow> pool_entry \<Rightarrow> pool_entry" where
  "into_pending l en = (lease_drop l en)\<lparr>en_pending := en_pending en + 1\<rparr>"

definition pending_drop :: "pool_entry \<Rightarrow> pool_entry" where
  "pending_drop en = en\<lparr>en_pending := en_pending en - 1\<rparr>"

section \<open>Entries and checkout\<close>

text \<open>
  \<open>entry_for\<close>: the entry of a key and the idle sessions of the entry it retires, which are closed in the
  background.
\<close>

definition retire :: "pool_entry \<Rightarrow> pool_entry" where
  "retire en = en\<lparr>en_retired := True, en_idle := []\<rparr>"

definition entry_for :: "pool_key \<Rightarrow> session_pool \<Rightarrow> nat \<times> idle_session list \<times> session_pool" where
  "entry_for key p =
     (let fresh = length (po_heap p);
          insert_new = (\<lambda>p. p\<lparr>po_heap := po_heap p @ [entry_new (pk_credential key)],
             po_entries := AList.update (pk_identity key) fresh (po_entries p)\<rparr>)
      in case map_of (po_entries p) (pk_identity key) of
           Some e \<Rightarrow>
             if en_credential (po_heap p ! e) = pk_credential key then (e, [], p)
             else (fresh, en_idle (po_heap p ! e), insert_new (put_entry e (retire (po_heap p ! e)) p))
         | None \<Rightarrow> (fresh, [], insert_new p))"

datatype take = Reuse idle_session | OpenNew

text \<open>
  One look of \<open>checkout\<close> at the locked entry: the decision, \<open>None\<close> to wait, and the idle sessions whose
  tunnel died.
\<close>

definition tunnel_dead :: "(nat \<Rightarrow> bool) \<Rightarrow> idle_session \<Rightarrow> bool" where
  "tunnel_dead alive i = (case is_tunnel i of Some t \<Rightarrow> \<not> alive t | None \<Rightarrow> False)"

definition checkout_look :: "(nat \<Rightarrow> bool) \<Rightarrow> lane \<Rightarrow> bool \<Rightarrow> pool_entry \<Rightarrow>
    take option \<times> idle_session list \<times> pool_entry" where
  "checkout_look alive l waited en =
     (let (dead, idle) = partition (tunnel_dead alive) (en_idle en);
          en = en\<lparr>en_idle := idle\<rparr>;
          room = en_leased en l < lane_cap l;
          leased = en\<lparr>en_leased := (en_leased en)(l := en_leased en l + 1)\<rparr>
      in if room \<and> idle \<noteq> [] then (Some (Reuse (last idle)), dead, leased\<lparr>en_idle := butlast idle\<rparr>)
         else if room \<and> \<not> waited \<and> en_pending en > 0 then (None, dead, en)
         else (Some OpenNew, dead, leased))"

section \<open>Tunnels\<close>

text \<open>
  \<open>ensure_tunnel\<close> up to the await: the tunnel to use, or \<open>None\<close> to open one, and the idle sessions
  that a dead tunnel takes with it. \<open>tunnel_opened\<close> is what it does with the new one.
\<close>

definition tunnel_look :: "(nat \<Rightarrow> bool) \<Rightarrow> pool_entry \<Rightarrow> nat option \<times> idle_session list \<times> pool_entry" where
  "tunnel_look alive en =
     (case en_tunnel en of
        Some t \<Rightarrow>
          if alive t then (Some t, [], en)
          else (None, en_idle en, en\<lparr>en_tunnel := None, en_idle := []\<rparr>)
      | None \<Rightarrow> (None, [], en))"

definition tunnel_opened :: "nat \<Rightarrow> pool_entry \<Rightarrow> pool_entry" where
  "tunnel_opened t en = en\<lparr>en_tunnel := Some t\<rparr>"

section \<open>Coming back\<close>

text \<open>Whether \<open>checkin\<close> closes the session without a reset.\<close>

definition discards :: "(nat \<Rightarrow> bool) \<Rightarrow> fate \<Rightarrow> nat option \<Rightarrow> pool_entry \<Rightarrow> bool" where
  "discards alive fate tunnel en \<longleftrightarrow>
     fate \<noteq> FateReset \<or> en_retired en \<or> (case tunnel of Some t \<Rightarrow> \<not> alive t | None \<Rightarrow> False)"

text \<open>\<open>park\<close>: the session that is left over, if any, and the entry.\<close>

definition park :: "nat \<Rightarrow> nat \<Rightarrow> nat option \<Rightarrow> pool_entry \<Rightarrow> idle_session option \<times> pool_entry" where
  "park now session tunnel en =
     (let i = \<lparr>is_session = session, is_tunnel = tunnel, is_since = now\<rparr> in
      if en_retired en \<or> length (en_idle en) \<ge> IDLE_MAX then (Some i, en)
      else (None, en\<lparr>en_idle := en_idle en @ [i]\<rparr>))"

text \<open>The guard that \<open>open_idle\<close> takes, for \<open>warm\<close> (only when unused) and \<open>refill\<close>.\<close>

definition open_idle_guard :: "bool \<Rightarrow> pool_entry \<Rightarrow> pool_entry option" where
  "open_idle_guard only_when_unused en =
     (if en_retired en \<or> en_idle en \<noteq> [] \<or>
         (only_when_unused \<and> \<not> (en_leased en QueryLane = 0 \<and> en_leased en MetadataLane = 0)) \<or>
         en_pending en > 0 then None
      else Some (en\<lparr>en_pending := en_pending en + 1\<rparr>))"

section \<open>Eviction\<close>

text \<open>
  \<open>held\<close> is whether anything but the map owns the entry. \<open>evict_idle\<close> is the first look,
  \<open>evict_keeps\<close> the second one; \<open>tunnel_shared\<close> is whether anything but the slot owns its tunnel.
\<close>

definition evict_idle :: "bool \<Rightarrow> nat \<Rightarrow> nat \<Rightarrow> pool_entry \<Rightarrow> idle_session list \<times> pool_entry" where
  "evict_idle held now ttl en =
     (if held then ([], en)
      else let (old, keep) = partition (\<lambda>i. now - is_since i \<ge> ttl) (en_idle en)
           in (old, en\<lparr>en_idle := keep\<rparr>))"

definition evict_keeps :: "bool \<Rightarrow> bool \<Rightarrow> pool_entry \<Rightarrow> bool" where
  "evict_keeps held tunnel_shared en \<longleftrightarrow>
     held \<or>
     \<not> (en_idle en = [] \<and> en_leased en QueryLane = 0 \<and> en_leased en MetadataLane = 0 \<and> en_pending en = 0) \<or>
     (en_tunnel en \<noteq> None \<and> tunnel_shared)"

end
