(* ===== verification/PoolSystem.thy ===== *)
theory PoolSystem
  imports Pool Transition "HOL-Library.Multiset"
begin

text \<open>
  The session pool as a system: the critical sections of the theory Pool, interleaved the way the
  asynchronous functions of \<^verbatim>\<open>crates/qh-ffi/src/host/pool.rs\<close> interleave them.

  A \<open>pool_task\<close> is what one future or guard of the source holds between two critical sections. A future
  can be dropped at any await (a Stop, or the runtime going down), which drops its guards. Where the
  source runs two sections of one future without an await between them, the model allows other tasks in
  between; it has more behaviours than the source, not fewer.

  \<open>sy_owner\<close> (the entry each session was opened for), \<open>sy_keys\<close> (the key each entry was made for),
  \<open>sy_tainted\<close> (the sessions that were cancelled, broke, or were left in an unknown state) and
  \<open>sy_gone\<close> (the sessions closed or dropped) are history variables.
\<close>

section \<open>Tasks\<close>

datatype open_stage = Start | Tunnelling | Connecting "nat option"

datatype purpose = LeaseOf lane | IdleOf | LongOp | SwapOf lane nat "nat option"

datatype pool_task =
    Looking lane nat bool
  | Warming nat
  | Opening purpose nat open_stage
  | LeasedTo lane nat nat "nat option" bool
  | Unleased nat
  | Returning nat nat "nat option" fate bool
  | Discarding nat nat bool
  | Resetting nat nat "nat option"
  | Parking nat nat "nat option"
  | Parked nat
  | Closing nat

fun task_lease :: "pool_task \<Rightarrow> (nat \<times> lane) option" where
  "task_lease (Opening (LeaseOf l) e st) = Some (e, l)"
| "task_lease (Opening (SwapOf l x t) e st) = Some (e, l)"
| "task_lease (LeasedTo l e x t d) = Some (e, l)"
| "task_lease _ = None"

fun task_pending :: "pool_task \<Rightarrow> nat option" where
  "task_pending (Opening IdleOf e st) = Some e"
| "task_pending (Returning e x t f r) = Some e"
| "task_pending (Resetting e x t) = Some e"
| "task_pending (Parking e x t) = Some e"
| "task_pending (Parked e) = Some e"
| "task_pending _ = None"

fun task_sessions :: "pool_task \<Rightarrow> nat list" where
  "task_sessions (Opening (SwapOf l x t) e st) = [x]"
| "task_sessions (LeasedTo l e x t d) = [x]"
| "task_sessions (Unleased x) = [x]"
| "task_sessions (Returning e x t f r) = [x]"
| "task_sessions (Discarding e x r) = [x]"
| "task_sessions (Resetting e x t) = [x]"
| "task_sessions (Parking e x t) = [x]"
| "task_sessions (Closing x) = [x]"
| "task_sessions _ = []"

fun task_entry :: "pool_task \<Rightarrow> nat option" where
  "task_entry (Looking l e w) = Some e"
| "task_entry (Warming e) = Some e"
| "task_entry (Opening p e st) = Some e"
| "task_entry (LeasedTo l e x t d) = Some e"
| "task_entry (Unleased x) = None"
| "task_entry (Returning e x t f r) = Some e"
| "task_entry (Discarding e x r) = Some e"
| "task_entry (Resetting e x t) = Some e"
| "task_entry (Parking e x t) = Some e"
| "task_entry (Parked e) = Some e"
| "task_entry (Closing x) = None"

text \<open>The sessions a task holds as sessions of its entry, and those it holds to be in a known state.\<close>

fun task_owned :: "pool_task \<Rightarrow> nat list" where
  "task_owned (Opening (SwapOf l x t) e st) = [x]"
| "task_owned (LeasedTo l e x t d) = [x]"
| "task_owned (Returning e x t f r) = [x]"
| "task_owned (Resetting e x t) = [x]"
| "task_owned (Parking e x t) = [x]"
| "task_owned _ = []"

fun task_clean :: "pool_task \<Rightarrow> nat list" where
  "task_clean (LeasedTo l e x t d) = (if d then [] else [x])"
| "task_clean (Returning e x t f r) = (if f = FateReset then [x] else [])"
| "task_clean (Resetting e x t) = [x]"
| "task_clean (Parking e x t) = [x]"
| "task_clean _ = []"

record pool_system =
  sy_pool :: session_pool
  sy_tasks :: "pool_task multiset"
  sy_owner :: "nat list"
  sy_keys :: "pool_key list"
  sy_tainted :: "nat set"
  sy_gone :: "nat list"
  sy_alive :: "nat \<Rightarrow> bool"
  sy_tunnels :: nat
  sy_now :: nat

definition pool_init :: "pool_system \<Rightarrow> bool" where
  "pool_init s \<longleftrightarrow> sy_pool s = pool_new \<and> sy_tasks s = {#} \<and> sy_owner s = [] \<and> sy_keys s = [] \<and>
     sy_tainted s = {} \<and> sy_gone s = []"

text \<open>Sessions handed to background tasks that close them.\<close>

definition closings :: "idle_session list \<Rightarrow> pool_task multiset" where
  "closings is = mset (map (Closing \<circ> is_session) is)"

abbreviation entry_at :: "pool_system \<Rightarrow> nat \<Rightarrow> pool_entry" where
  "entry_at s e \<equiv> po_heap (sy_pool s) ! e"

text \<open>One entry is replaced, and some tasks by others.\<close>

definition local :: "nat \<Rightarrow> pool_entry \<Rightarrow> pool_task multiset \<Rightarrow> pool_system \<Rightarrow> pool_system" where
  "local e en tasks s = s\<lparr>sy_pool := put_entry e en (sy_pool s), sy_tasks := tasks\<rparr>"

text \<open>\<open>entry_for\<close> with the keys remembered: an entry that is new was made for this key.\<close>

definition with_entry :: "pool_key \<Rightarrow> (nat \<Rightarrow> pool_task) \<Rightarrow> pool_system \<Rightarrow> pool_system" where
  "with_entry key task s =
     (case entry_for key (sy_pool s) of (e, gone, p) \<Rightarrow>
        s\<lparr>sy_pool := p,
          sy_keys := (if length (sy_keys s) < length (po_heap p) then sy_keys s @ [key] else sy_keys s),
          sy_tasks := add_mset (task e) (sy_tasks s + closings gone)\<rparr>)"

section \<open>Steps\<close>

text \<open>What a task leaves when its future is dropped: its guard gives its count back.\<close>

fun abandon :: "pool_task \<Rightarrow> (pool_entry \<Rightarrow> pool_entry) \<times> pool_task multiset \<times> nat list" where
  "abandon (Opening (LeaseOf l) e st) = (lease_drop l, {#}, [])"
| "abandon (Opening IdleOf e st) = (pending_drop, {#}, [])"
| "abandon (Opening LongOp e st) = (id, {#}, [])"
| "abandon (Opening (SwapOf l x t) e st) = (id, {#LeasedTo l e x t True#}, [])"
| "abandon (Returning e x t f r) = (pending_drop, {#}, [x])"
| "abandon (Resetting e x t) = (pending_drop, {#}, [x])"
| "abandon (Parking e x t) = (pending_drop, {#}, [x])"
| "abandon (Parked e) = (pending_drop, {#}, [])"
| "abandon (Discarding e x r) = (id, {#}, [x])"
| "abandon (Looking l e w) = (id, {#}, [])"
| "abandon (Warming e) = (id, {#}, [])"
| "abandon t = (id, {#t#}, [])"

inductive pool_step :: "pool_system \<Rightarrow> pool_system \<Rightarrow> bool" where
  checkout_start: "pool_step s (with_entry key (\<lambda>e. Looking l e False) s)"
| checkout_reuse: "sy_tasks s = add_mset (Looking l e w) M \<Longrightarrow>
    checkout_look (sy_alive s) l w (entry_at s e) = (Some (Reuse i), dead, en) \<Longrightarrow>
    pool_step s (local e en (add_mset (LeasedTo l e (is_session i) (is_tunnel i) False) (M + closings dead))
      (s\<lparr>sy_pool := (sy_pool s)\<lparr>po_reused := po_reused (sy_pool s) + 1\<rparr>\<rparr>))"
| checkout_open: "sy_tasks s = add_mset (Looking l e w) M \<Longrightarrow>
    checkout_look (sy_alive s) l w (entry_at s e) = (Some OpenNew, dead, en) \<Longrightarrow>
    pool_step s (local e en (add_mset (Opening (LeaseOf l) e Start) (M + closings dead)) s)"
| checkout_wait: "sy_tasks s = add_mset (Looking l e w) M \<Longrightarrow>
    checkout_look (sy_alive s) l w (entry_at s e) = (None, dead, en) \<Longrightarrow>
    pool_step s (local e en (add_mset (Looking l e True) (M + closings dead)) s)"
| long_op_start: "pool_step s (with_entry key (\<lambda>e. Opening LongOp e Start) s)"
| warm_start: "pool_step s (with_entry key Warming s)"
| warm_opens: "sy_tasks s = add_mset (Warming e) M \<Longrightarrow> open_idle_guard True (entry_at s e) = Some en \<Longrightarrow>
    pool_step s (local e en (add_mset (Opening IdleOf e Start) M) s)"
| open_direct: "sy_tasks s = add_mset (Opening p e Start) M \<Longrightarrow> i_tunnel (pk_identity (sy_keys s ! e)) = None \<Longrightarrow>
    pool_step s (s\<lparr>sy_tasks := add_mset (Opening p e (Connecting None)) M\<rparr>)"
| open_tunnel_look: "sy_tasks s = add_mset (Opening p e Start) M \<Longrightarrow> i_tunnel (pk_identity (sy_keys s ! e)) \<noteq> None \<Longrightarrow>
    \<forall>t \<in># M. \<forall>q. t \<noteq> Opening q e Tunnelling \<Longrightarrow>
    tunnel_look (sy_alive s) (entry_at s e) = (tun, dead, en) \<Longrightarrow>
    pool_step s (local e en (add_mset (Opening p e (case tun of Some t \<Rightarrow> Connecting (Some t) | None \<Rightarrow> Tunnelling))
      (M + closings dead)) s)"
| open_tunnel_opened: "sy_tasks s = add_mset (Opening p e Tunnelling) M \<Longrightarrow>
    pool_step s (local e (tunnel_opened (sy_tunnels s) (entry_at s e))
      (add_mset (Opening p e (Connecting (Some (sy_tunnels s)))) M)
      (s\<lparr>sy_tunnels := sy_tunnels s + 1, sy_alive := (sy_alive s)(sy_tunnels s := True),
         sy_pool := (sy_pool s)\<lparr>po_tunnels_opened := po_tunnels_opened (sy_pool s) + 1\<rparr>\<rparr>))"
| open_connected: "sy_tasks s = add_mset (Opening p e (Connecting tun)) M \<Longrightarrow> x = length (sy_owner s) \<Longrightarrow>
    (new, gone) = (case p of
        LeaseOf l \<Rightarrow> (LeasedTo l e x tun False, [])
      | IdleOf \<Rightarrow> (Parking e x tun, [])
      | LongOp \<Rightarrow> (Unleased x, [])
      | SwapOf l old t \<Rightarrow> (LeasedTo l e x tun d, [old])) \<Longrightarrow>
    pool_step s (s\<lparr>sy_owner := sy_owner s @ [e], sy_tasks := add_mset new M, sy_gone := gone @ sy_gone s,
      sy_pool := (sy_pool s)\<lparr>po_opened := po_opened (sy_pool s) + 1\<rparr>\<rparr>)"
| lease_doubt: "sy_tasks s = add_mset (LeasedTo l e x t d) M \<Longrightarrow>
    pool_step s (s\<lparr>sy_tasks := add_mset (LeasedTo l e x t True) M, sy_tainted := insert x (sy_tainted s)\<rparr>)"
| lease_reconnect: "sy_tasks s = add_mset (LeasedTo l e x t d) M \<Longrightarrow>
    pool_step s (s\<lparr>sy_tasks := add_mset (Opening (SwapOf l x t) e Start) M, sy_tainted := insert x (sy_tainted s)\<rparr>)"
| lease_back: "sy_tasks s = add_mset (LeasedTo l e x t d) M \<Longrightarrow> d \<longrightarrow> f \<noteq> FateReset \<Longrightarrow>
    pool_step s (local e (into_pending l (entry_at s e))
      (add_mset (Returning e x t f (f = FateDiscardAndRefill)) M) s)"
| long_op_end: "sy_tasks s = add_mset (Unleased x) M \<Longrightarrow>
    pool_step s (s\<lparr>sy_tasks := M, sy_gone := x # sy_gone s\<rparr>)"
| return_discard: "sy_tasks s = add_mset (Returning e x t f r) M \<Longrightarrow> discards (sy_alive s) f t (entry_at s e) \<Longrightarrow>
    pool_step s (local e (pending_drop (entry_at s e)) (add_mset (Discarding e x r) M) s)"
| discard_refill: "sy_tasks s = add_mset (Discarding e x True) M \<Longrightarrow> open_idle_guard False (entry_at s e) = Some en \<Longrightarrow>
    pool_step s (local e en (add_mset (Opening IdleOf e Start) (add_mset (Closing x) M)) s)"
| discard_close: "sy_tasks s = add_mset (Discarding e x r) M \<Longrightarrow> r \<longrightarrow> open_idle_guard False (entry_at s e) = None \<Longrightarrow>
    pool_step s (s\<lparr>sy_tasks := add_mset (Closing x) M\<rparr>)"
| return_reset: "sy_tasks s = add_mset (Returning e x t f r) M \<Longrightarrow> \<not> discards (sy_alive s) f t (entry_at s e) \<Longrightarrow>
    pool_step s (s\<lparr>sy_tasks := add_mset (Resetting e x t) M\<rparr>)"
| reset_ok: "sy_tasks s = add_mset (Resetting e x t) M \<Longrightarrow>
    pool_step s (s\<lparr>sy_tasks := add_mset (Parking e x t) M\<rparr>)"
| reset_failed: "sy_tasks s = add_mset (Resetting e x t) M \<Longrightarrow>
    pool_step s (local e (pending_drop (entry_at s e)) (add_mset (Closing x) M) s)"
| parks: "sy_tasks s = add_mset (Parking e x t) M \<Longrightarrow> park (sy_now s) x t (entry_at s e) = (left, en) \<Longrightarrow>
    pool_step s (local e en (add_mset (Parked e) (M + closings (case left of Some i \<Rightarrow> [i] | None \<Rightarrow> []))) s)"
| parked: "sy_tasks s = add_mset (Parked e) M \<Longrightarrow>
    pool_step s (local e (pending_drop (entry_at s e)) M s)"
| closes: "sy_tasks s = add_mset (Closing x) M \<Longrightarrow>
    pool_step s (s\<lparr>sy_tasks := M, sy_gone := x # sy_gone s,
      sy_pool := (sy_pool s)\<lparr>po_closed := po_closed (sy_pool s) + 1\<rparr>\<rparr>)"
| abandons: "sy_tasks s = add_mset t M \<Longrightarrow> task_entry t = Some e \<Longrightarrow> abandon t = (f, N, gone) \<Longrightarrow>
    pool_step s (local e (f (entry_at s e)) (M + N) (s\<lparr>sy_gone := gone @ sy_gone s\<rparr>))"
| evict_look: "map_of (po_entries (sy_pool s)) i = Some e \<Longrightarrow>
    evict_idle (\<exists>t \<in># sy_tasks s. task_entry t = Some e) (sy_now s) ttl (entry_at s e) = (old, en) \<Longrightarrow>
    pool_step s (local e en (sy_tasks s + closings old) s)"
| evict_forget: "map_of (po_entries (sy_pool s)) i = Some e \<Longrightarrow>
    \<not> evict_keeps (\<exists>t \<in># sy_tasks s. task_entry t = Some e) shared (entry_at s e) \<Longrightarrow>
    pool_step s (s\<lparr>sy_pool := (sy_pool s)\<lparr>po_entries := AList.delete i (po_entries (sy_pool s))\<rparr>\<rparr>)"
| tunnel_dies: "pool_step s (s\<lparr>sy_alive := (sy_alive s)(t := False)\<rparr>)"
| time_passes: "sy_now s \<le> now \<Longrightarrow> pool_step s (s\<lparr>sy_now := now\<rparr>)"

section \<open>The invariant\<close>

definition lease_count :: "nat \<Rightarrow> lane \<Rightarrow> pool_task multiset \<Rightarrow> nat" where
  "lease_count e l T = size (filter_mset (\<lambda>t. task_lease t = Some (e, l)) T)"

definition pending_count :: "nat \<Rightarrow> pool_task multiset \<Rightarrow> nat" where
  "pending_count e T = size (filter_mset (\<lambda>t. task_pending t = Some e) T)"

definition held_sessions :: "pool_task multiset \<Rightarrow> nat multiset" where
  "held_sessions T = sum_mset (image_mset (\<lambda>t. mset (task_sessions t)) T)"

definition idle_ids :: "pool_entry \<Rightarrow> nat list" where
  "idle_ids en = map is_session (en_idle en)"

definition idle_sessions :: "pool_entry list \<Rightarrow> nat multiset" where
  "idle_sessions H = sum_list (map (mset \<circ> idle_ids) H)"

text \<open>What an entry satisfies: its counts are those of the tasks, and its idle sessions are its own.\<close>

definition entry_ok :: "pool_key \<Rightarrow> nat list \<Rightarrow> nat set \<Rightarrow> pool_task multiset \<Rightarrow> nat \<Rightarrow> pool_entry \<Rightarrow> bool" where
  "entry_ok key owner tainted T e en \<longleftrightarrow>
     en_credential en = pk_credential key \<and>
     (\<forall>l. en_leased en l = lease_count e l T) \<and> en_pending en = pending_count e T \<and>
     length (en_idle en) \<le> IDLE_MAX \<and> (en_retired en \<longrightarrow> en_idle en = []) \<and>
     (\<forall>x \<in> set (idle_ids en). owner ! x = e \<and> x \<notin> tainted)"

definition task_ok :: "nat \<Rightarrow> nat list \<Rightarrow> nat set \<Rightarrow> pool_task \<Rightarrow> bool" where
  "task_ok n owner tainted t \<longleftrightarrow>
     (\<forall>e. task_entry t = Some e \<longrightarrow> e < n \<and> (\<forall>x \<in> set (task_owned t). owner ! x = e)) \<and>
     (\<forall>x \<in> set (task_clean t). x \<notin> tainted)"

definition map_ok :: "pool_key list \<Rightarrow> pool_entry list \<Rightarrow> (identity \<times> nat) list \<Rightarrow> bool" where
  "map_ok keys H m \<longleftrightarrow>
     (\<forall>i e. map_of m i = Some e \<longrightarrow> e < length H \<and> \<not> en_retired (H ! e) \<and> pk_identity (keys ! e) = i)"

definition pool_inv :: "pool_system \<Rightarrow> bool" where
  "pool_inv s \<longleftrightarrow>
     length (sy_keys s) = length (po_heap (sy_pool s)) \<and>
     (\<forall>e < length (po_heap (sy_pool s)).
        entry_ok (sy_keys s ! e) (sy_owner s) (sy_tainted s) (sy_tasks s) e (entry_at s e)) \<and>
     (\<forall>t \<in># sy_tasks s. task_ok (length (po_heap (sy_pool s))) (sy_owner s) (sy_tainted s) t) \<and>
     idle_sessions (po_heap (sy_pool s)) + held_sessions (sy_tasks s) + mset (sy_gone s) =
       mset [0..<length (sy_owner s)] \<and>
     (\<forall>x \<in> sy_tainted s. x < length (sy_owner s)) \<and>
     map_ok (sy_keys s) (po_heap (sy_pool s)) (po_entries (sy_pool s))"

lemma count_simps [simp]:
  "lease_count e l {#} = 0" "pending_count e {#} = 0" "held_sessions {#} = {#}"
  "lease_count e l (add_mset t T) = lease_count e l T + (if task_lease t = Some (e, l) then 1 else 0)"
  "pending_count e (add_mset t T) = pending_count e T + (if task_pending t = Some e then 1 else 0)"
  "held_sessions (add_mset t T) = mset (task_sessions t) + held_sessions T"
  "lease_count e l (T + U) = lease_count e l T + lease_count e l U"
  "pending_count e (T + U) = pending_count e T + pending_count e U"
  "held_sessions (T + U) = held_sessions T + held_sessions U"
  by (simp_all add: lease_count_def pending_count_def held_sessions_def)

lemma closings_simps [simp]:
  "lease_count e l (closings is) = 0" "pending_count e (closings is) = 0"
  "held_sessions (closings is) = mset (map is_session is)"
  by (induction "is") (auto simp: closings_def lease_count_def pending_count_def held_sessions_def)

lemma closings_task_ok: "t \<in># closings is \<Longrightarrow> task_ok n owner tainted t"
  by (auto simp: closings_def task_ok_def)

lemma task_lease_entry: "task_lease t = Some (e, l) \<Longrightarrow> task_entry t = Some e"
  by (cases t rule: task_lease.cases) auto

lemma task_pending_entry: "task_pending t = Some e \<Longrightarrow> task_entry t = Some e"
  by (cases t rule: task_pending.cases) auto

lemma counts_elsewhere:
  assumes "\<forall>t \<in># T. task_entry t = None \<or> task_entry t = Some e" "e' \<noteq> e"
  shows "lease_count e' l T = 0 \<and> pending_count e' T = 0"
proof -
  have "task_lease t \<noteq> Some (e', l) \<and> task_pending t \<noteq> Some e'" if "t \<in># T" for t
    using assms that task_lease_entry [of t e' l] task_pending_entry [of t e'] by fastforce
  then show ?thesis by (auto simp: lease_count_def pending_count_def filter_mset_eq_mempty_iff)
qed

lemma idle_sessions_update:
  assumes "e < length H"
  shows "idle_sessions (H[e := en]) + mset (idle_ids (H ! e)) = idle_sessions H + mset (idle_ids en)"
proof -
  have "idle_sessions (xs[i := y]) + mset (idle_ids (xs ! i)) = idle_sessions xs + mset (idle_ids y)"
    if "i < length xs" for xs i y
    using that
  proof (induction xs arbitrary: i)
    case (Cons x xs)
    then show ?case by (cases i) (auto simp: idle_sessions_def union_ac)
  qed simp
  then show ?thesis using assms .
qed

lemma balanced:
  assumes "I' + a = I + b" "I + (m + A) + g = (N :: 'a multiset)" "b + B + gn = a + A + F"
  shows "I' + (m + B) + (gn + g) = N + F"
proof (rule multiset_eqI)
  fix x
  have "count I' x + count a x = count I x + count b x"
    "count I x + (count m x + count A x) + count g x = count N x"
    "count b x + count B x + count gn x = count a x + count A x + count F x"
    using assms by (metis count_union)+
  then show "count (I' + (m + B) + (gn + g)) x = count (N + F) x" by simp
qed

text \<open>
  One lemma for every step inside one entry \<open>e\<close>: the tasks \<open>A\<close> become the tasks \<open>B\<close>, the entry becomes
  \<open>en\<close>, at most one session is new, and what leaves goes to \<open>gone\<close>.
\<close>

lemma pool_inv_local:
  assumes inv: "pool_inv s"
    and tasks: "sy_tasks s = M + A" "sy_tasks s' = M + B"
    and pool: "po_heap (sy_pool s') = (po_heap (sy_pool s))[e := en]"
      "po_entries (sy_pool s') = po_entries (sy_pool s)" "sy_keys s' = sy_keys s"
    and e: "e < length (po_heap (sy_pool s))"
    and here: "\<forall>t \<in># A + B. task_entry t = None \<or> task_entry t = Some e"
    and ghosts: "sy_tainted s' = sy_tainted s" "sy_owner s' = sy_owner s @ replicate k e"
      "sy_gone s' = gone @ sy_gone s"
    and same: "en_credential en = en_credential (entry_at s e)" "en_retired en = en_retired (entry_at s e)"
    and leased: "\<forall>l. en_leased en l + lease_count e l A = en_leased (entry_at s e) l + lease_count e l B"
    and pending: "en_pending en + pending_count e A = en_pending (entry_at s e) + pending_count e B"
    and idle: "length (en_idle en) \<le> IDLE_MAX" "en_retired en \<longrightarrow> en_idle en = []"
      "\<forall>x \<in> set (idle_ids en). (sy_owner s @ replicate k e) ! x = e \<and> x \<notin> sy_tainted s"
    and new: "\<forall>t \<in># B. task_ok (length (po_heap (sy_pool s))) (sy_owner s @ replicate k e) (sy_tainted s) t"
    and balance: "mset (idle_ids en) + held_sessions B + mset gone =
      mset (idle_ids (entry_at s e)) + held_sessions A + mset [length (sy_owner s)..<length (sy_owner s) + k]"
  shows "pool_inv s'"
proof -
  let ?H = "po_heap (sy_pool s)" and ?H' = "po_heap (sy_pool s')" and ?n = "length (sy_owner s)"
  have ids: "x < ?n" if "x \<in># idle_sessions ?H + held_sessions (sy_tasks s)" for x
  proof -
    from that have "x \<in># mset [0..<?n]"
      using inv by (metis pool_inv_def union_iff)
    then show ?thesis by simp
  qed
  have idle_owner: "x < ?n" if "e' < length ?H" "x \<in> set (idle_ids (?H ! e'))" for e' x
  proof (rule ids)
    have "x \<in># idle_sessions ?H"
      using that by (auto simp: idle_sessions_def in_set_conv_nth intro!: bexI [of _ "?H ! e'"])
    then show "x \<in># idle_sessions ?H + held_sessions (sy_tasks s)" by simp
  qed
  have task_owner: "x < ?n" if "t \<in># sy_tasks s" "x \<in> set (task_sessions t)" for t x
    using that by (intro ids) (auto simp: held_sessions_def)
  have owned_held: "set (task_owned t) \<subseteq> set (task_sessions t)" for t
    by (cases t rule: task_owned.cases) auto
  have old_tasks: "task_ok (length ?H') (sy_owner s') (sy_tainted s') t" if "t \<in># M" for t
  proof -
    have t: "t \<in># sy_tasks s" using that tasks(1) by simp
    with inv have "task_ok (length ?H) (sy_owner s) (sy_tainted s) t" by (simp add: pool_inv_def)
    moreover have "(sy_owner s @ replicate k e) ! x = sy_owner s ! x" if "x \<in> set (task_owned t)" for x
      using task_owner [OF t, of x] owned_held [of t] that by (auto simp: nth_append)
    ultimately show ?thesis by (auto simp: task_ok_def pool ghosts)
  qed
  have entries: "entry_ok (sy_keys s' ! e') (sy_owner s') (sy_tainted s') (sy_tasks s') e' (?H' ! e')"
    if e': "e' < length ?H'" for e'
  proof (cases "e' = e")
    case True
    have "entry_ok (sy_keys s ! e) (sy_owner s) (sy_tainted s) (sy_tasks s) e (entry_at s e)"
      using inv e by (simp add: pool_inv_def)
    moreover have "en_leased en l = lease_count e l M + lease_count e l B"
      if "en_leased (entry_at s e) l = lease_count e l (sy_tasks s)" for l
      using leased [rule_format, of l] that by (simp add: tasks)
    moreover have "en_pending en = pending_count e M + pending_count e B"
      if "en_pending (entry_at s e) = pending_count e (sy_tasks s)"
      using pending that by (simp add: tasks)
    ultimately show ?thesis
      using True e idle same by (simp add: entry_ok_def pool tasks ghosts)
  next
    case False
    have old: "entry_ok (sy_keys s ! e') (sy_owner s) (sy_tainted s) (sy_tasks s) e' (?H ! e')"
      using inv e' by (simp add: pool_inv_def pool)
    have none: "lease_count e' l A = 0 \<and> pending_count e' A = 0 \<and> lease_count e' l B = 0 \<and> pending_count e' B = 0" for l
      using counts_elsewhere [of A e e' l] counts_elsewhere [of B e e' l] here False by auto
    have "(sy_owner s @ replicate k e) ! x = sy_owner s ! x" if "x \<in> set (idle_ids (?H ! e'))" for x
      using idle_owner [of e' x] that e' by (simp add: nth_append pool)
    with old none False show ?thesis by (simp add: entry_ok_def pool tasks ghosts)
  qed
  have sessions: "idle_sessions ?H' + held_sessions (sy_tasks s') + mset (sy_gone s') = mset [0..<length (sy_owner s')]"
  proof -
    have "idle_sessions ?H' + mset (idle_ids (entry_at s e)) = idle_sessions ?H + mset (idle_ids en)"
      unfolding pool by (rule idle_sessions_update [OF e])
    moreover have "idle_sessions ?H + (held_sessions M + held_sessions A) + mset (sy_gone s) = mset [0..<?n]"
      using inv tasks(1) by (simp add: pool_inv_def)
    moreover have upt: "mset [0..<?n + k] = mset [0..<?n] + mset [?n..<?n + k]"
      by (metis le_add1 mset_append upt_add_eq_append zero_le)
    ultimately have "idle_sessions ?H' + (held_sessions M + held_sessions B) + (mset gone + mset (sy_gone s)) =
        mset [0..<?n] + mset [?n..<?n + k]"
      by (intro balanced [OF _ _ balance])
    with upt show ?thesis by (simp add: tasks ghosts)
  qed
  have "map_ok (sy_keys s') ?H' (po_entries (sy_pool s'))"
  proof -
    have "en_retired (?H' ! e') = en_retired (?H ! e')" for e'
      using same(2) e by (cases "e' = e") (auto simp: pool)
    then show ?thesis using inv by (auto simp: pool_inv_def map_ok_def pool)
  qed
  then show ?thesis
    unfolding pool_inv_def using entries sessions old_tasks new inv
    by (auto simp: tasks pool ghosts pool_inv_def)
qed

text \<open>A step that changes no entry and no count.\<close>

lemma pool_inv_quiet:
  assumes inv: "pool_inv s"
    and tasks: "sy_tasks s = M + A" "sy_tasks s' = M + B"
    and pool: "po_heap (sy_pool s') = po_heap (sy_pool s)" "po_entries (sy_pool s') = po_entries (sy_pool s)"
      "sy_keys s' = sy_keys s"
    and ghosts: "sy_tainted s' = sy_tainted s" "sy_owner s' = sy_owner s" "sy_gone s' = gone @ sy_gone s"
    and counts: "\<forall>e l. lease_count e l A = lease_count e l B \<and> pending_count e A = pending_count e B"
    and new: "\<forall>t \<in># B. task_ok (length (po_heap (sy_pool s))) (sy_owner s) (sy_tainted s) t"
    and balance: "held_sessions B + mset gone = held_sessions A"
  shows "pool_inv s'"
proof -
  have "entry_ok key owner tainted (M + A) e en = entry_ok key owner tainted (M + B) e en" for key owner tainted e en
    using counts by (simp add: entry_ok_def)
  moreover have "idle_sessions (po_heap (sy_pool s)) + held_sessions (M + B) + mset (gone @ sy_gone s) =
      mset [0..<length (sy_owner s)]"
  proof -
    have "held_sessions (M + B) + mset (gone @ sy_gone s) = held_sessions (M + A) + mset (sy_gone s)"
      by (simp flip: balance add: ac_simps)
    with inv tasks(1) show ?thesis by (simp only: pool_inv_def add.assoc)
  qed
  ultimately show ?thesis
    using inv new unfolding pool_inv_def tasks pool ghosts by auto
qed

section \<open>The sections keep it\<close>

lemma ids_partition:
  assumes "partition P (en_idle en) = (dead, idle)"
  shows "mset (map is_session dead) + mset (map is_session idle) = mset (idle_ids en)"
    and "length idle \<le> length (en_idle en)" and "set (map is_session idle) \<subseteq> set (idle_ids en)"
proof -
  have d: "dead = filter P (en_idle en)" "idle = filter (\<lambda>i. \<not> P i) (en_idle en)"
    using assms by (auto simp: comp_def)
  have "mset (map is_session (filter P xs)) + mset (map is_session (filter (\<lambda>i. \<not> P i) xs)) =
      mset (map is_session xs)" for xs
    by (induction xs) auto
  then show "mset (map is_session dead) + mset (map is_session idle) = mset (idle_ids en)"
    by (simp only: d idle_ids_def)
  show "length idle \<le> length (en_idle en)" "set (map is_session idle) \<subseteq> set (idle_ids en)"
    using d by (auto simp: idle_ids_def)
qed

lemma checkout_look_facts:
  assumes "checkout_look alive l w en = (d, dead, en')"
  shows "en_credential en' = en_credential en \<and> en_retired en' = en_retired en \<and> en_pending en' = en_pending en \<and>
    length (en_idle en') \<le> length (en_idle en) \<and> set (idle_ids en') \<subseteq> set (idle_ids en) \<and>
    mset (idle_ids en') + mset (map is_session dead) + (case d of Some (Reuse i) \<Rightarrow> {#is_session i#} | _ \<Rightarrow> {#}) =
      mset (idle_ids en) \<and>
    en_leased en' = (if d = None then en_leased en else (en_leased en)(l := en_leased en l + 1)) \<and>
    (\<forall>i. d = Some (Reuse i) \<longrightarrow> is_session i \<in> set (idle_ids en) \<and> \<not> tunnel_dead alive i)"
proof -
  obtain dd idle where p: "partition (tunnel_dead alive) (en_idle en) = (dd, idle)"
    by (cases "partition (tunnel_dead alive) (en_idle en)")
  note f = ids_partition [OF p]
  have live: "\<not> tunnel_dead alive i" if "i \<in> set idle" for i using p that by auto
  show ?thesis
  proof (cases "en_leased en l < lane_cap l \<and> idle \<noteq> []")
    case True
    then have d: "d = Some (Reuse (last idle))" "dead = dd"
      and en': "en' = en\<lparr>en_leased := (en_leased en)(l := en_leased en l + 1), en_idle := butlast idle\<rparr>"
      using assms True unfolding checkout_look_def p Let_def prod.case by auto
    have "mset (map is_session (butlast xs @ [i])) = mset (map is_session (butlast xs)) + {#is_session i#}" for xs i
      by simp
    from this [of idle "last idle"] True
    have "mset (map is_session idle) = mset (map is_session (butlast idle)) + {#is_session (last idle)#}"
      by simp
    moreover have "set (map is_session (butlast idle)) \<subseteq> set (map is_session idle)"
      by (auto dest: in_set_butlastD)
    moreover have "last idle \<in> set idle" using True by simp
    ultimately show ?thesis
      using f d en' live by (auto simp: idle_ids_def ac_simps)
  next
    case False
    then have "dead = dd" "en_idle en' = idle" "en_credential en' = en_credential en" "en_retired en' = en_retired en"
      "en_pending en' = en_pending en" "\<forall>i. d \<noteq> Some (Reuse i)"
      "en_leased en' = (if d = None then en_leased en else (en_leased en)(l := en_leased en l + 1))"
      using assms False unfolding checkout_look_def p Let_def prod.case by (auto split: if_splits)
    then show ?thesis using f
      by (auto simp: idle_ids_def ac_simps split: option.splits take.splits)
  qed
qed

end
