(* ===== verification/PoolInvariant.thy ===== *)
theory PoolInvariant
  imports PoolSystem
begin

text \<open>
  Every step of the pool keeps its invariant, and what follows from it: the properties of
  \<^verbatim>\<open>crates/qh-ffi/src/host/pool.rs\<close>.
\<close>

section \<open>What the invariant says of a task\<close>

lemma pool_inv_task:
  assumes "pool_inv s" "sy_tasks s = add_mset t M" "task_entry t = Some e"
  shows "e < length (po_heap (sy_pool s))" "\<forall>x \<in> set (task_owned t). sy_owner s ! x = e"
    "\<forall>x \<in> set (task_clean t). x \<notin> sy_tainted s"
    "entry_ok (sy_keys s ! e) (sy_owner s) (sy_tainted s) (sy_tasks s) e (entry_at s e)"
proof -
  have "task_ok (length (po_heap (sy_pool s))) (sy_owner s) (sy_tainted s) t"
    using assms(1,2) by (simp add: pool_inv_def)
  then show "e < length (po_heap (sy_pool s))" "\<forall>x \<in> set (task_owned t). sy_owner s ! x = e"
    "\<forall>x \<in> set (task_clean t). x \<notin> sy_tainted s"
    using assms(3) by (auto simp: task_ok_def)
  with assms(1) show "entry_ok (sy_keys s ! e) (sy_owner s) (sy_tainted s) (sy_tasks s) e (entry_at s e)"
    by (simp add: pool_inv_def)
qed

lemma pool_inv_bound:
  assumes "pool_inv s" "x \<in># idle_sessions (po_heap (sy_pool s)) + held_sessions (sy_tasks s)"
  shows "x < length (sy_owner s)"
proof -
  have "idle_sessions (po_heap (sy_pool s)) + held_sessions (sy_tasks s) \<subseteq># mset [0..<length (sy_owner s)]"
    using assms(1) by (metis pool_inv_def mset_subset_eq_add_left)
  then have "x \<in># mset [0..<length (sy_owner s)]" using assms(2) by (rule mset_subset_eqD)
  then show ?thesis by simp
qed

lemma pool_inv_session:
  assumes "pool_inv s" "sy_tasks s = add_mset t M" "x \<in> set (task_sessions t)"
  shows "x < length (sy_owner s)"
  by (rule pool_inv_bound [OF assms(1)]) (use assms(2,3) in simp)

lemma idle_ids_subset: "e < length H \<Longrightarrow> mset (idle_ids (H ! e)) \<subseteq># idle_sessions H"
proof (induction H arbitrary: e)
  case (Cons en H)
  then show ?case
    by (cases e) (auto simp: idle_sessions_def intro: subset_mset.order_trans [OF _ mset_subset_eq_add_right])
qed simp

text \<open>A task's session is nowhere else.\<close>

lemma pool_inv_unique:
  assumes "pool_inv s" "sy_tasks s = add_mset t M" "x \<in> set (task_sessions t)"
  shows "\<forall>e < length (po_heap (sy_pool s)). x \<notin> set (idle_ids (entry_at s e))"
    and "\<forall>u \<in># M. x \<notin> set (task_sessions u)"
proof -
  let ?S = "mset [0..<length (sy_owner s)]"
  have total: "idle_sessions (po_heap (sy_pool s)) + (mset (task_sessions t) + held_sessions M) + mset (sy_gone s) = ?S"
    using assms(1,2) by (simp add: pool_inv_def)
  have "count ?S x \<le> 1" by (simp add: count_mset_set')
  moreover have "1 \<le> count (mset (task_sessions t)) x" using assms(3) by (simp add: Suc_leI)
  moreover have "count ?S x = count (idle_sessions (po_heap (sy_pool s))) x + (count (mset (task_sessions t)) x +
      count (held_sessions M) x) + count (mset (sy_gone s)) x"
    unfolding total [symmetric] by simp
  ultimately have zero: "count (idle_sessions (po_heap (sy_pool s))) x = 0" "count (held_sessions M) x = 0" by linarith+
  have "mset (idle_ids (entry_at s e)) \<subseteq># idle_sessions (po_heap (sy_pool s))" if "e < length (po_heap (sy_pool s))" for e
    by (rule idle_ids_subset [OF that])
  then show "\<forall>e < length (po_heap (sy_pool s)). x \<notin> set (idle_ids (entry_at s e))"
    using zero(1) by (metis count_eq_zero_iff mset_subset_eqD set_mset_mset)
  show "\<forall>u \<in># M. x \<notin> set (task_sessions u)"
    using zero(2) by (auto simp: held_sessions_def count_eq_zero_iff)
qed

text \<open>The local step for an entry that gets no new idle session.\<close>

lemma pool_inv_shrink:
  assumes inv: "pool_inv s" and tasks: "sy_tasks s = M + A" "sy_tasks s' = M + B"
    and pool: "po_heap (sy_pool s') = (po_heap (sy_pool s))[e := en]"
      "po_entries (sy_pool s') = po_entries (sy_pool s)" "sy_keys s' = sy_keys s"
    and e: "e < length (po_heap (sy_pool s))"
    and here: "\<forall>t \<in># A + B. task_entry t = None \<or> task_entry t = Some e"
    and ghosts: "sy_tainted s' = sy_tainted s" "sy_owner s' = sy_owner s" "sy_gone s' = gone @ sy_gone s"
    and same: "en_credential en = en_credential (entry_at s e)" "en_retired en = en_retired (entry_at s e)"
    and leased: "\<forall>l. en_leased en l + lease_count e l A = en_leased (entry_at s e) l + lease_count e l B"
    and pending: "en_pending en + pending_count e A = en_pending (entry_at s e) + pending_count e B"
    and idle: "length (en_idle en) \<le> length (en_idle (entry_at s e))"
      "set (idle_ids en) \<subseteq> set (idle_ids (entry_at s e))"
    and new: "\<forall>t \<in># B. task_ok (length (po_heap (sy_pool s))) (sy_owner s) (sy_tainted s) t"
    and balance: "mset (idle_ids en) + held_sessions B + mset gone = mset (idle_ids (entry_at s e)) + held_sessions A"
  shows "pool_inv s'"
proof -
  have ok: "entry_ok (sy_keys s ! e) (sy_owner s) (sy_tainted s) (sy_tasks s) e (entry_at s e)"
    using inv e by (simp add: pool_inv_def)
  show ?thesis
  proof (rule pool_inv_local [where k = 0, OF inv tasks pool e here ghosts(1) _ ghosts(3) same leased pending])
    show "length (en_idle en) \<le> IDLE_MAX" using ok idle(1) by (simp add: entry_ok_def)
    show "en_retired en \<longrightarrow> en_idle en = []" using ok idle(1) same(2) by (auto simp: entry_ok_def)
    show "\<forall>x \<in> set (idle_ids en). (sy_owner s @ replicate 0 e) ! x = e \<and> x \<notin> sy_tainted s"
      using ok idle(2) by (auto simp: entry_ok_def)
  qed (use ghosts new balance in simp_all)
qed

section \<open>Steps inside one entry\<close>

lemma local_fields [simp]:
  "po_heap (sy_pool (local e en T s)) = (po_heap (sy_pool s))[e := en]"
  "po_entries (sy_pool (local e en T s)) = po_entries (sy_pool s)"
  "sy_keys (local e en T s) = sy_keys s" "sy_tainted (local e en T s) = sy_tainted s"
  "sy_owner (local e en T s) = sy_owner s" "sy_gone (local e en T s) = sy_gone s"
  "sy_tasks (local e en T s) = T"
  by (simp_all add: local_def put_entry_def)

lemma closings_entry: "t \<in># closings is \<Longrightarrow> task_entry t = None"
  by (auto simp: closings_def)

text \<open>A task becomes another, and the entry loses \<open>dead\<close> idle sessions to the background.\<close>

lemma pool_inv_task_step:
  assumes inv: "pool_inv s" and tasks: "sy_tasks s = add_mset t M" "sy_tasks s' = add_mset u (M + closings dead)"
    and te: "task_entry t = Some e" "task_entry u = Some e \<or> task_entry u = None"
    and pool: "po_heap (sy_pool s') = (po_heap (sy_pool s))[e := en]"
      "po_entries (sy_pool s') = po_entries (sy_pool s)" "sy_keys s' = sy_keys s"
    and ghosts: "sy_tainted s' = sy_tainted s" "sy_owner s' = sy_owner s" "sy_gone s' = gone @ sy_gone s"
    and same: "en_credential en = en_credential (entry_at s e)" "en_retired en = en_retired (entry_at s e)"
    and leased: "\<forall>l. en_leased en l + lease_count e l {#t#} = en_leased (entry_at s e) l + lease_count e l {#u#}"
    and pending: "en_pending en + pending_count e {#t#} = en_pending (entry_at s e) + pending_count e {#u#}"
    and idle: "length (en_idle en) \<le> length (en_idle (entry_at s e))"
      "set (idle_ids en) \<subseteq> set (idle_ids (entry_at s e))"
    and u: "\<forall>x \<in> set (task_owned u). sy_owner s ! x = e" "\<forall>x \<in> set (task_clean u). x \<notin> sy_tainted s"
    and balance: "mset (idle_ids en) + mset (map is_session dead) + mset (task_sessions u) + mset gone =
      mset (idle_ids (entry_at s e)) + mset (task_sessions t)"
  shows "pool_inv s'"
proof (rule pool_inv_shrink [OF inv _ _ pool _ _ ghosts same])
  note e = pool_inv_task(1) [OF inv tasks(1) te(1)]
  show "sy_tasks s = M + {#t#}" "sy_tasks s' = M + ({#u#} + closings dead)" using tasks by simp_all
  show "e < length (po_heap (sy_pool s))" by (rule e)
  show "\<forall>v \<in># {#t#} + ({#u#} + closings dead). task_entry v = None \<or> task_entry v = Some e"
    using te closings_entry by auto
  show "\<forall>v \<in># {#u#} + closings dead. task_ok (length (po_heap (sy_pool s))) (sy_owner s) (sy_tainted s) v"
    using u te e closings_task_ok by (auto simp: task_ok_def)
  show "mset (idle_ids en) + held_sessions ({#u#} + closings dead) + mset gone =
      mset (idle_ids (entry_at s e)) + held_sessions {#t#}"
    using balance by (simp add: ac_simps)
qed (use leased pending idle in simp_all)

lemma leased_positive:
  assumes "pool_inv s" "sy_tasks s = add_mset t M" "task_lease t = Some (e, l)"
  shows "0 < en_leased (entry_at s e) l"
  using pool_inv_task(4) [OF assms(1,2) task_lease_entry [OF assms(3)]] assms by (simp add: entry_ok_def)

lemma pending_positive:
  assumes "pool_inv s" "sy_tasks s = add_mset t M" "task_pending t = Some e"
  shows "0 < en_pending (entry_at s e)"
  using pool_inv_task(4) [OF assms(1,2) task_pending_entry [OF assms(3)]] assms by (simp add: entry_ok_def)

text \<open>A task becomes another and the entry stays as it is.\<close>

lemma pool_inv_task_quiet:
  assumes inv: "pool_inv s" and tasks: "sy_tasks s = add_mset t M" "sy_tasks s' = add_mset u M"
    and te: "task_entry t = Some e" "task_entry u = Some e \<or> task_entry u = None"
    and counts: "task_lease u = task_lease t" "task_pending u = task_pending t" "task_sessions u = task_sessions t"
    and pool: "sy_pool s' = sy_pool s" "sy_keys s' = sy_keys s"
    and ghosts: "sy_tainted s' = sy_tainted s" "sy_owner s' = sy_owner s" "sy_gone s' = sy_gone s"
    and u: "\<forall>x \<in> set (task_owned u). sy_owner s ! x = e" "\<forall>x \<in> set (task_clean u). x \<notin> sy_tainted s"
  shows "pool_inv s'"
proof (rule pool_inv_quiet [where M = M and A = "{#t#}" and B = "{#u#}" and gone = "[]", OF inv])
  show "\<forall>v \<in># {#u#}. task_ok (length (po_heap (sy_pool s))) (sy_owner s) (sy_tainted s) v"
    using u te pool_inv_task(1) [OF inv tasks(1) te(1)] by (auto simp: task_ok_def)
qed (use tasks pool ghosts counts in simp_all)

section \<open>Every step keeps the invariant\<close>

lemma inv_checkout_look:
  assumes inv: "pool_inv s" and t: "sy_tasks s = add_mset (Looking l e w) M"
    and look: "checkout_look (sy_alive s) l w (entry_at s e) = (d, dead, en)"
    and u: "u = (case d of Some (Reuse i) \<Rightarrow> LeasedTo l e (is_session i) (is_tunnel i) False
      | Some OpenNew \<Rightarrow> Opening (LeaseOf l) e Start | None \<Rightarrow> Looking l e True)"
    and s': "sy_tasks s' = add_mset u (M + closings dead)" "po_heap (sy_pool s') = (po_heap (sy_pool s))[e := en]"
      "po_entries (sy_pool s') = po_entries (sy_pool s)" "sy_keys s' = sy_keys s"
      "sy_tainted s' = sy_tainted s" "sy_owner s' = sy_owner s" "sy_gone s' = sy_gone s"
  shows "pool_inv s'"
proof -
  note f = checkout_look_facts [OF look]
  note ok = pool_inv_task(4) [OF inv t, of e, simplified]
  have te: "task_entry u = Some e" using u by (auto split: option.splits take.splits)
  have owned: "\<forall>x \<in> set (task_owned u). sy_owner s ! x = e" "\<forall>x \<in> set (task_clean u). x \<notin> sy_tainted s"
    using f ok u by (auto simp: entry_ok_def split: option.splits take.splits)
  show ?thesis
  proof (rule pool_inv_task_step [OF inv t s'(1) _ _ s'(2-6)])
    show "sy_gone s' = [] @ sy_gone s" using s' by simp
    show "mset (idle_ids en) + mset (map is_session dead) + mset (task_sessions u) + mset [] =
        mset (idle_ids (entry_at s e)) + mset (task_sessions (Looking l e w))"
      using f u by (auto split: option.splits take.splits)
    show "\<forall>m. en_leased en m + lease_count e m {#Looking l e w#} = en_leased (entry_at s e) m + lease_count e m {#u#}"
      using f u by (auto split: option.splits take.splits if_splits)
    show "en_pending en + pending_count e {#Looking l e w#} = en_pending (entry_at s e) + pending_count e {#u#}"
      using f u by (auto split: option.splits take.splits)
  qed (use f te owned in auto)
qed

lemma inv_back:
  assumes inv: "pool_inv s" and t: "sy_tasks s = add_mset (LeasedTo l e x tun d) M" and fate: "d \<longrightarrow> f \<noteq> FateReset"
  shows "pool_inv (local e (into_pending l (entry_at s e)) (add_mset (Returning e x tun f r) M) s)"
proof -
  have te: "task_entry (LeasedTo l e x tun d) = Some e" by simp
  note ok = pool_inv_task [OF inv t te]
  have pos: "0 < en_leased (entry_at s e) l" using leased_positive [OF inv t, of e l] by simp
  show ?thesis
  proof (rule pool_inv_task_step [OF inv t _ te, where u = "Returning e x tun f r" and dead = "[]" and gone = "[]"
      and en = "into_pending l (entry_at s e)"])
    show "\<forall>m. en_leased (into_pending l (entry_at s e)) m + lease_count e m {#LeasedTo l e x tun d#} =
        en_leased (entry_at s e) m + lease_count e m {#Returning e x tun f r#}"
      using pos by (auto simp: into_pending_def lease_drop_def)
    show "\<forall>x \<in> set (task_clean (Returning e x tun f r)). x \<notin> sy_tainted s"
      using ok(3) fate by (cases f; cases d) simp_all
  qed (use ok(2) in \<open>simp_all add: into_pending_def lease_drop_def idle_ids_def closings_def\<close>)
qed

lemma inv_pending_drop:
  assumes inv: "pool_inv s" and t: "sy_tasks s = add_mset t M" "task_pending t = Some e"
    and u: "task_entry u = Some e \<or> task_entry u = None" "task_lease u = None" "task_pending u = None"
      "task_owned u = []" "task_clean u = []"
    and balance: "mset (task_sessions u) = mset (task_sessions t)"
  shows "pool_inv (local e (pending_drop (entry_at s e)) (add_mset u M) s)"
proof -
  have "0 < en_pending (entry_at s e)" by (rule pending_positive [OF inv t])
  moreover have "task_lease t = None" using t(2) by (cases t rule: task_pending.cases) auto
  ultimately show ?thesis
    using u balance t(2)
    by (intro pool_inv_task_step [OF inv t(1), where u = u and dead = "[]" and gone = "[]" and e = e
        and en = "pending_drop (entry_at s e)"])
      (auto simp: pending_drop_def idle_ids_def closings_def task_pending_entry)
qed

lemma inv_open_idle:
  assumes inv: "pool_inv s" and t: "sy_tasks s = add_mset t M" "task_entry t = Some e"
    and none: "task_lease t = None" "task_pending t = None"
    and guard: "open_idle_guard only (entry_at s e) = Some en"
    and gone: "task_sessions t = map is_session dead"
  shows "pool_inv (local e en (add_mset (Opening IdleOf e Start) (M + closings dead)) s)"
proof -
  have "en = (entry_at s e)\<lparr>en_pending := en_pending (entry_at s e) + 1\<rparr>"
    using guard by (auto simp: open_idle_guard_def split: if_splits)
  then show ?thesis
    using t none gone
    by (intro pool_inv_task_step [OF inv t(1), where u = "Opening IdleOf e Start" and dead = dead and gone = "[]" and e = e
        and en = en])
      (auto simp: idle_ids_def)
qed

text \<open>A session is marked: it is in no idle list and no other task holds it to be clean.\<close>

lemma inv_taint:
  assumes inv: "pool_inv s" and t: "sy_tasks s = add_mset (LeasedTo l e x tun d) M"
    and u: "u = LeasedTo l e x tun True \<or> u = Opening (SwapOf l x tun) e st"
  shows "pool_inv (s\<lparr>sy_tasks := add_mset u M, sy_tainted := insert x (sy_tainted s)\<rparr>)"
proof -
  note unique = pool_inv_unique [OF inv t, of x, simplified]
  have te: "task_entry (LeasedTo l e x tun d) = Some e" by simp
  have clean: "set (task_clean v) \<subseteq> set (task_sessions v)" for v by (cases v rule: task_clean.cases) auto
  have "pool_inv (s\<lparr>sy_tasks := add_mset u M\<rparr>)"
    using pool_inv_task(2) [OF inv t te] u
    by (intro pool_inv_task_quiet [OF inv t _ te, where u = u]) auto
  moreover have "x < length (sy_owner s)" by (rule pool_inv_session [OF inv t]) simp
  moreover have "x \<notin> set (task_clean v)" if "v \<in># add_mset u M" for v
    using unique(2) clean [of v] u that by auto
  moreover have "x \<notin> set (idle_ids (entry_at s e'))" if "e' < length (po_heap (sy_pool s))" for e'
    using unique(1) that by blast
  ultimately show ?thesis
    by (auto simp: pool_inv_def entry_ok_def task_ok_def)
qed

lemma no_tasks_of_new_entry:
  assumes "pool_inv s"
  shows "lease_count (length (po_heap (sy_pool s))) l (sy_tasks s) = 0 \<and>
    pending_count (length (po_heap (sy_pool s))) (sy_tasks s) = 0"
proof -
  have "task_lease t \<noteq> Some (length (po_heap (sy_pool s)), l) \<and> task_pending t \<noteq> Some (length (po_heap (sy_pool s)))"
    if "t \<in># sy_tasks s" for t
    using assms that task_lease_entry [of t] task_pending_entry [of t]
    by (fastforce simp: pool_inv_def task_ok_def)
  then show ?thesis by (auto simp: lease_count_def pending_count_def)
qed

lemma inv_with_entry:
  assumes inv: "pool_inv s" and task: "\<And>e. task_entry (task e) = Some e \<and> task_lease (task e) = None \<and>
      task_pending (task e) = None \<and> task_sessions (task e) = [] \<and> task_owned (task e) = [] \<and> task_clean (task e) = []"
  shows "pool_inv (with_entry key task s)"
proof -
  let ?p = "sy_pool s" and ?H = "po_heap (sy_pool s)" and ?n = "length (po_heap (sy_pool s))"
  have keys: "length (sy_keys s) = ?n" and map: "map_ok (sy_keys s) ?H (po_entries ?p)"
    and tasks: "\<And>t. t \<in># sy_tasks s \<Longrightarrow> task_ok ?n (sy_owner s) (sy_tainted s) t"
    and total: "idle_sessions ?H + held_sessions (sy_tasks s) + mset (sy_gone s) = mset [0..<length (sy_owner s)]"
    and tainted: "\<forall>x \<in> sy_tainted s. x < length (sy_owner s)"
    and ok: "\<And>e. e < ?n \<Longrightarrow> entry_ok (sy_keys s ! e) (sy_owner s) (sy_tainted s) (sy_tasks s) e (?H ! e)"
    using inv by (auto simp: pool_inv_def)
  have more: "task_ok m (sy_owner s) (sy_tainted s) t" if "task_ok ?n (sy_owner s) (sy_tainted s) t" "?n \<le> m" for t m
    using that by (auto simp: task_ok_def)
  have count: "entry_ok k owner tainted (add_mset (task e') (T + closings is)) e en = entry_ok k owner tainted T e en"
    for k owner tainted e' T "is" e en
    using task [of e'] by (simp add: entry_ok_def)
  have new: "task_ok m (sy_owner s) (sy_tainted s) (task e)" if "e < m" for e m
    using task [of e] that by (simp add: task_ok_def)
  have fresh_ok: "entry_ok key (sy_owner s) (sy_tainted s) (sy_tasks s) ?n (entry_new (pk_credential key))"
    using no_tasks_of_new_entry [OF inv] by (simp add: entry_ok_def entry_new_def idle_ids_def)
  show ?thesis
  proof (cases "\<exists>e. map_of (po_entries ?p) (pk_identity key) = Some e \<and> en_credential (?H ! e) = pk_credential key")
    case True
    then obtain e where e: "map_of (po_entries ?p) (pk_identity key) = Some e" "en_credential (?H ! e) = pk_credential key"
      by blast
    then have "with_entry key task s = s\<lparr>sy_tasks := add_mset (task e) (sy_tasks s)\<rparr>"
      using keys by (simp add: with_entry_def entry_for_def closings_def)
    moreover have "e < ?n" using map e(1) by (auto simp: map_ok_def)
    ultimately show ?thesis
      using inv task [of e] new by (simp add: pool_inv_def entry_ok_def)
  next
    case False
    define old where "old = map_of (po_entries ?p) (pk_identity key)"
    define H1 where "H1 = (case old of Some e \<Rightarrow> ?H[e := retire (?H ! e)] | None \<Rightarrow> ?H)"
    define gone where "gone = (case old of Some e \<Rightarrow> en_idle (?H ! e) | None \<Rightarrow> [])"
    have ef: "with_entry key task s = s\<lparr>sy_pool := ?p\<lparr>po_heap := H1 @ [entry_new (pk_credential key)],
          po_entries := AList.update (pk_identity key) ?n (po_entries ?p)\<rparr>,
        sy_keys := sy_keys s @ [key], sy_tasks := add_mset (task ?n) (sy_tasks s + closings gone)\<rparr>"
      using False keys
      by (cases old) (auto simp: with_entry_def entry_for_def Let_def H1_def gone_def put_entry_def old_def)
    have len: "length H1 = ?n" by (simp add: H1_def split: option.splits)
    have oldn: "e < ?n" if "old = Some e" for e using map that by (auto simp: map_ok_def old_def)
    have ok1: "entry_ok (sy_keys s ! e) (sy_owner s) (sy_tainted s) (sy_tasks s) e (H1 ! e)" if "e < ?n" for e
      using ok [OF that] that
      by (cases old; cases "old = Some e") (auto simp: H1_def retire_def entry_ok_def idle_ids_def)
    have idle1: "idle_sessions H1 + mset (map is_session gone) = idle_sessions ?H"
    proof (cases old)
      case (Some e)
      from idle_sessions_update [OF oldn [OF Some], of "retire (?H ! e)"] show ?thesis
        by (simp add: H1_def gone_def Some idle_ids_def retire_def)
    qed (simp add: H1_def gone_def)
    have total1: "idle_sessions (H1 @ [entry_new (pk_credential key)]) + (held_sessions (sy_tasks s) +
        mset (map is_session gone)) + mset (sy_gone s) = mset [0..<length (sy_owner s)]"
      using total idle1 [symmetric] by (simp add: idle_sessions_def entry_new_def idle_ids_def ac_simps)
    have map1: "map_ok (sy_keys s @ [key]) (H1 @ [entry_new (pk_credential key)])
        (AList.update (pk_identity key) ?n (po_entries ?p))"
    proof -
      have "e < ?n \<and> \<not> en_retired (H1 ! e) \<and> pk_identity (sy_keys s ! e) = i"
        if "map_of (po_entries ?p) i = Some e" "i \<noteq> pk_identity key" for i e
      proof -
        have e: "e < ?n" "\<not> en_retired (?H ! e)" "pk_identity (sy_keys s ! e) = i"
          using map that(1) by (auto simp: map_ok_def)
        moreover have "old \<noteq> Some e" using map that e(3) by (auto simp: map_ok_def old_def)
        ultimately show ?thesis by (cases old) (auto simp: H1_def)
      qed
      then show ?thesis
        by (fastforce simp: map_ok_def AList.update_conv' nth_append len keys entry_new_def)
    qed
    have "entry_ok ((sy_keys s @ [key]) ! e) (sy_owner s) (sy_tainted s)
        (add_mset (task ?n) (sy_tasks s + closings gone)) e ((H1 @ [entry_new (pk_credential key)]) ! e)"
      if "e < Suc ?n" for e
      using that ok1 fresh_ok by (cases "e < ?n") (auto simp: count nth_append len keys less_Suc_eq)
    then show ?thesis
      unfolding ef pool_inv_def
      using total1 map1 task [of ?n] tasks more new closings_task_ok keys tainted
      by (auto simp: len ac_simps)
  qed
qed

text \<open>A future is dropped.\<close>

lemma inv_abandon:
  assumes inv: "pool_inv s" and t: "sy_tasks s = add_mset t M" "task_entry t = Some e"
    and ab: "abandon t = (f, N, gone)"
  shows "pool_inv (local e (f (entry_at s e)) (M + N) (s\<lparr>sy_gone := gone @ sy_gone s\<rparr>))"
proof (rule pool_inv_shrink [OF inv, where M = M and A = "{#t#}" and B = N and e = e and en = "f (entry_at s e)" and gone = gone])
  note ok = pool_inv_task [OF inv t]
  show "sy_tasks s = M + {#t#}" using t by simp
  show "e < length (po_heap (sy_pool s))" by (rule ok)
  show "\<forall>l. en_leased (f (entry_at s e)) l + lease_count e l {#t#} = en_leased (entry_at s e) l + lease_count e l N"
    using leased_positive [OF inv t(1)] ab t(2)
    by (cases t rule: abandon.cases) (fastforce simp: lease_drop_def pending_drop_def)+
  show "en_pending (f (entry_at s e)) + pending_count e {#t#} = en_pending (entry_at s e) + pending_count e N"
    using pending_positive [OF inv t(1)] ab t(2)
    by (cases t rule: abandon.cases) (fastforce simp: lease_drop_def pending_drop_def)+
  show "\<forall>v \<in># N. task_ok (length (po_heap (sy_pool s))) (sy_owner s) (sy_tainted s) v"
    using ok ab t(2) by (cases t rule: abandon.cases) (auto simp: task_ok_def)
qed (use ab t(2) in \<open>cases t rule: abandon.cases; auto simp: lease_drop_def pending_drop_def idle_ids_def\<close>)+

text \<open>A connection that opened.\<close>

lemma inv_connected:
  assumes inv: "pool_inv s" and t: "sy_tasks s = add_mset (Opening p e (Connecting tun)) M"
    and x: "x = length (sy_owner s)"
    and new: "(new, gone) = (case p of
        LeaseOf l \<Rightarrow> (LeasedTo l e x tun False, [])
      | IdleOf \<Rightarrow> (Parking e x tun, [])
      | LongOp \<Rightarrow> (Unleased x, [])
      | SwapOf l old t \<Rightarrow> (LeasedTo l e x tun d, [old]))"
  shows "pool_inv (s\<lparr>sy_owner := sy_owner s @ [e], sy_tasks := add_mset new M, sy_gone := gone @ sy_gone s,
      sy_pool := (sy_pool s)\<lparr>po_opened := po_opened (sy_pool s) + 1\<rparr>\<rparr>)"
proof -
  have te: "task_entry (Opening p e (Connecting tun)) = Some e" by simp
  note ok = pool_inv_task [OF inv t te]
  have untainted: "x \<notin> sy_tainted s" using inv x by (auto simp: pool_inv_def)
  have idle: "sy_owner s ! y = e \<and> y < length (sy_owner s) \<and> y \<notin> sy_tainted s" if "y \<in> set (idle_ids (entry_at s e))" for y
  proof -
    have "y \<in># mset (idle_ids (entry_at s e))" using that by simp
    then have "y \<in># idle_sessions (po_heap (sy_pool s))" by (rule mset_subset_eqD [OF idle_ids_subset [OF ok(1)]])
    then have "y < length (sy_owner s)" by (intro pool_inv_bound [OF inv]) simp
    then show ?thesis using ok(4) that by (simp add: entry_ok_def)
  qed
  show ?thesis
  proof (rule pool_inv_local [where k = 1 and e = e and en = "entry_at s e" and M = M and gone = gone
        and A = "{#Opening p e (Connecting tun)#}" and B = "{#new#}", OF inv])
    show "\<forall>v \<in># {#new#}. task_ok (length (po_heap (sy_pool s))) (sy_owner s @ replicate 1 e) (sy_tainted s) v"
      using new x untainted ok(1) by (cases p) (auto simp: task_ok_def)
    show "\<forall>y \<in> set (idle_ids (entry_at s e)). (sy_owner s @ replicate 1 e) ! y = e \<and> y \<notin> sy_tainted s"
      using idle by (auto simp: nth_append)
    show "length (en_idle (entry_at s e)) \<le> IDLE_MAX" "en_retired (entry_at s e) \<longrightarrow> en_idle (entry_at s e) = []"
      using ok(4) by (simp_all add: entry_ok_def)
  qed (use t ok(1) new x in \<open>cases p; simp\<close>)+
qed

lemma opening_stage:
  "task_lease (Opening p e st') = task_lease (Opening p e st) \<and>
   task_pending (Opening p e st') = task_pending (Opening p e st) \<and>
   task_sessions (Opening p e st') = task_sessions (Opening p e st) \<and>
   task_owned (Opening p e st') = task_owned (Opening p e st) \<and> task_clean (Opening p e st') = []"
  by (cases p) simp_all

lemma inv_tunnel_look:
  assumes inv: "pool_inv s" and t: "sy_tasks s = add_mset (Opening p e st) M"
    and look: "tunnel_look alive (entry_at s e) = (tun, dead, en)"
  shows "pool_inv (local e en (add_mset (Opening p e st') (M + closings dead)) s)"
proof -
  have te: "task_entry (Opening p e st) = Some e" by simp
  note same = opening_stage [where p = p and e = e and st' = st' and st = st]
  have en: "en_credential en = en_credential (entry_at s e)" "en_retired en = en_retired (entry_at s e)"
    "en_leased en = en_leased (entry_at s e)" "en_pending en = en_pending (entry_at s e)"
    "length (en_idle en) \<le> length (en_idle (entry_at s e))" "set (idle_ids en) \<subseteq> set (idle_ids (entry_at s e))"
    "mset (idle_ids en) + mset (map is_session dead) = mset (idle_ids (entry_at s e))"
    using look by (auto simp: tunnel_look_def idle_ids_def split: option.splits if_splits)
  show ?thesis
    by (rule pool_inv_task_step [OF inv t, where u = "Opening p e st'" and dead = dead and en = en and gone = "[]" and e = e])
      (use en same pool_inv_task(2) [OF inv t te] in auto)
qed

lemma inv_parks:
  assumes inv: "pool_inv s" and t: "sy_tasks s = add_mset (Parking e x tun) M"
    and park: "park now x tun (entry_at s e) = (left, en)"
  shows "pool_inv (local e en (add_mset (Parked e) (M + closings (case left of Some i \<Rightarrow> [i] | None \<Rightarrow> []))) s)"
proof -
  have te: "task_entry (Parking e x tun) = Some e" by simp
  note ok = pool_inv_task [OF inv t te]
  show ?thesis
  proof (rule pool_inv_local [where k = 0 and e = e and en = en and M = M and gone = "[]"
        and A = "{#Parking e x tun#}"
        and B = "{#Parked e#} + closings (case left of Some i \<Rightarrow> [i] | None \<Rightarrow> [])", OF inv])
    show "\<forall>v \<in># {#Parked e#} + closings (case left of Some i \<Rightarrow> [i] | None \<Rightarrow> []).
        task_ok (length (po_heap (sy_pool s))) (sy_owner s @ replicate 0 e) (sy_tainted s) v"
      using ok(1) closings_task_ok by (auto simp: task_ok_def)
    show "\<forall>v \<in># {#Parking e x tun#} + ({#Parked e#} + closings (case left of Some i \<Rightarrow> [i] | None \<Rightarrow> [])).
        task_entry v = None \<or> task_entry v = Some e"
      using closings_entry by auto
    show "\<forall>y \<in> set (idle_ids en). (sy_owner s @ replicate 0 e) ! y = e \<and> y \<notin> sy_tainted s"
      using ok(2-4) park by (auto simp: park_def Let_def entry_ok_def idle_ids_def split: if_splits)
  qed (use t ok(1,4) park in \<open>auto simp: park_def Let_def entry_ok_def idle_ids_def split: if_splits\<close>)
qed

interpretation pool: transition_system pool_init pool_step pool_inv
proof
  fix s assume "pool_init s"
  then show "pool_inv s"
    by (simp add: pool_init_def pool_inv_def pool_new_def idle_sessions_def map_ok_def)
next
  fix s s' assume inv: "pool_inv s" and step: "pool_step s s'"
  from step show "pool_inv s'"
  proof cases
    case (checkout_start key l)
    then show ?thesis by (simp add: inv_with_entry [OF inv])
  next
    case (checkout_reuse l e w M i dead en)
    then show ?thesis by (intro inv_checkout_look [OF inv checkout_reuse(2,3) refl]) auto
  next
    case (checkout_open l e w M dead en)
    then show ?thesis by (intro inv_checkout_look [OF inv checkout_open(2,3) refl]) auto
  next
    case (checkout_wait l e w M dead en)
    then show ?thesis by (intro inv_checkout_look [OF inv checkout_wait(2,3) refl]) auto
  next
    case (long_op_start key)
    then show ?thesis by (simp add: inv_with_entry [OF inv])
  next
    case (warm_start key)
    then show ?thesis by (simp add: inv_with_entry [OF inv])
  next
    case (warm_opens e M en)
    then show ?thesis using inv_open_idle [OF inv warm_opens(2) _ _ _ warm_opens(3), of "[]"]
      by (simp add: closings_def)
  next
    case (open_direct p e M)
    have te: "task_entry (Opening p e Start) = Some e" by simp
    show ?thesis
      by (rule pool_inv_task_quiet [OF inv open_direct(2), where u = "Opening p e (Connecting None)" and e = e])
        (use open_direct opening_stage [where p = p and e = e and st' = "Connecting None" and st = Start] pool_inv_task(2) [OF inv open_direct(2) te] in auto)
  next
    case (open_tunnel_look p e M tun dead en)
    then show ?thesis by (simp add: inv_tunnel_look [OF inv open_tunnel_look(2,5)])
  next
    case (open_tunnel_opened p e M)
    have te: "task_entry (Opening p e Tunnelling) = Some e" by simp
    have "pool_inv (local e (tunnel_opened (sy_tunnels s) (entry_at s e))
        (add_mset (Opening p e (Connecting (Some (sy_tunnels s)))) M) s)"
      by (rule pool_inv_task_step [OF inv open_tunnel_opened(2), where dead = "[]" and gone = "[]" and e = e
            and u = "Opening p e (Connecting (Some (sy_tunnels s)))" and en = "tunnel_opened (sy_tunnels s) (entry_at s e)"])
        (use opening_stage [where p = p and e = e and st' = "Connecting (Some (sy_tunnels s))" and st = Tunnelling]
          pool_inv_task(2) [OF inv open_tunnel_opened(2) te] in \<open>auto simp: tunnel_opened_def idle_ids_def closings_def\<close>)
    then show ?thesis by (simp add: open_tunnel_opened(1) pool_inv_def local_def put_entry_def)
  next
    case (open_connected p e tun M x new gone d)
    then show ?thesis by (simp only: inv_connected [OF inv open_connected(2-4)])
  next
    case (lease_doubt l e x t d M)
    then show ?thesis by (simp only: inv_taint [OF inv lease_doubt(2)] simp_thms)
  next
    case (lease_reconnect l e x t d M)
    then show ?thesis using inv_taint [OF inv lease_reconnect(2), of "Opening (SwapOf l x t) e Start" Start] by simp
  next
    case (lease_back l e x t d M f)
    then show ?thesis by (simp only: inv_back [OF inv lease_back(2,3)])
  next
    case (long_op_end x M)
    then show ?thesis
      by (intro pool_inv_quiet [OF inv, where M = M and A = "{#Unleased x#}" and B = "{#}" and gone = "[x]"]) auto
  next
    case (return_discard e x t f r M)
    then show ?thesis by (simp add: inv_pending_drop [OF inv return_discard(2)])
  next
    case (discard_refill e x M en)
    have "closings [\<lparr>is_session = x, is_tunnel = None, is_since = 0\<rparr>] = {#Closing x#}" by (simp add: closings_def)
    with discard_refill inv_open_idle [OF inv discard_refill(2) _ _ _ discard_refill(3),
        of "[\<lparr>is_session = x, is_tunnel = None, is_since = 0\<rparr>]"]
    show ?thesis by simp
  next
    case (discard_close e x r M)
    then show ?thesis by (intro pool_inv_task_quiet [OF inv discard_close(2), where u = "Closing x"]) auto
  next
    case (return_reset e x t f r M)
    have "f = FateReset" using return_reset(3) by (simp add: discards_def)
    then show ?thesis using return_reset pool_inv_task(2,3) [OF inv return_reset(2)]
      by (intro pool_inv_task_quiet [OF inv return_reset(2), where u = "Resetting e x t"]) auto
  next
    case (reset_ok e x t M)
    then show ?thesis using pool_inv_task(2,3) [OF inv reset_ok(2)]
      by (intro pool_inv_task_quiet [OF inv reset_ok(2), where u = "Parking e x t"]) auto
  next
    case (reset_failed e x t M)
    then show ?thesis by (simp add: inv_pending_drop [OF inv reset_failed(2)])
  next
    case (parks e x t M left en)
    then show ?thesis by (simp only: inv_parks [OF inv parks(2,3)])
  next
    case (parked e M)
    then show ?thesis using inv_abandon [OF inv parked(2), of e] by simp
  next
    case (closes x M)
    have "pool_inv (s\<lparr>sy_tasks := M, sy_gone := x # sy_gone s\<rparr>)"
      by (intro pool_inv_quiet [OF inv, where M = M and A = "{#Closing x#}" and B = "{#}" and gone = "[x]"])
        (use closes in auto)
    then show ?thesis by (simp add: closes(1) pool_inv_def)
  next
    case (abandons t M e f N gone)
    then show ?thesis by (simp only: inv_abandon [OF inv abandons(2-4)])
  next
    case (evict_look i e ttl old en)
    let ?held = "\<exists>t \<in># sy_tasks s. task_entry t = Some e"
    have e: "e < length (po_heap (sy_pool s))" using inv evict_look(2) by (auto simp: pool_inv_def map_ok_def)
    have en: "en_credential en = en_credential (entry_at s e)" "en_retired en = en_retired (entry_at s e)"
      "en_leased en = en_leased (entry_at s e)" "en_pending en = en_pending (entry_at s e)"
      and idle: "length (en_idle en) \<le> length (en_idle (entry_at s e)) \<and>
        set (idle_ids en) \<subseteq> set (idle_ids (entry_at s e)) \<and>
        mset (idle_ids en) + mset (map is_session old) = mset (idle_ids (entry_at s e))"
    proof -
      obtain dd keep where p: "partition (\<lambda>i. sy_now s - is_since i \<ge> ttl) (en_idle (entry_at s e)) = (dd, keep)"
        by (cases "partition (\<lambda>i. sy_now s - is_since i \<ge> ttl) (en_idle (entry_at s e))")
      show "en_credential en = en_credential (entry_at s e)" "en_retired en = en_retired (entry_at s e)"
        "en_leased en = en_leased (entry_at s e)" "en_pending en = en_pending (entry_at s e)"
        using evict_look(3) unfolding evict_idle_def p by (auto split: if_splits)
      show "length (en_idle en) \<le> length (en_idle (entry_at s e)) \<and>
          set (idle_ids en) \<subseteq> set (idle_ids (entry_at s e)) \<and>
          mset (idle_ids en) + mset (map is_session old) = mset (idle_ids (entry_at s e))"
        using evict_look(3) ids_partition [OF p] unfolding evict_idle_def p
        by (auto simp: idle_ids_def ac_simps split: if_splits)
    qed
    show ?thesis
      by (rule pool_inv_shrink [OF inv, where M = "sy_tasks s" and A = "{#}" and B = "closings old" and gone = "[]"
            and e = e and en = en])
        (use evict_look(1) e en idle closings_task_ok closings_entry in auto)
  next
    case (evict_forget i e shared)
    then show ?thesis using inv by (auto simp: pool_inv_def map_ok_def AList.delete_conv')
  next
    case (tunnel_dies t)
    then show ?thesis using inv by (simp add: pool_inv_def)
  next
    case (time_passes now)
    then show ?thesis using inv by (simp add: pool_inv_def)
  qed
qed

end
