(* ===== verification/PoolSafety.thy ===== *)
theory PoolSafety
  imports PoolInvariant
begin

text \<open>
  The promises of the session pool, over every interleaving of its tasks.
\<close>

section \<open>An entry belongs to its key\<close>

lemma with_entry_key:
  assumes "pool_inv s" "entry_for key (sy_pool s) = (e, gone, p)"
  shows "e < length (po_heap p) \<and> sy_keys (with_entry key task s) ! e = key \<and> \<not> en_retired (po_heap p ! e)"
proof -
  have keys: "length (sy_keys s) = length (po_heap (sy_pool s))"
    and map: "map_ok (sy_keys s) (po_heap (sy_pool s)) (po_entries (sy_pool s))"
    and ok: "\<And>e. e < length (po_heap (sy_pool s)) \<Longrightarrow> en_credential (entry_at s e) = pk_credential (sy_keys s ! e)"
    using assms(1) by (auto simp: pool_inv_def entry_ok_def)
  show ?thesis
  proof (cases "map_of (po_entries (sy_pool s)) (pk_identity key)")
    case None
    then show ?thesis using assms(2) keys
      by (auto simp: with_entry_def entry_for_def Let_def nth_append entry_new_def)
  next
    case (Some e0)
    then have e0: "e0 < length (po_heap (sy_pool s))" "\<not> en_retired (entry_at s e0)"
      "pk_identity (sy_keys s ! e0) = pk_identity key"
      using map by (auto simp: map_ok_def)
    show ?thesis
    proof (cases "en_credential (entry_at s e0) = pk_credential key")
      case True
      then have "sy_keys s ! e0 = key" using ok [OF e0(1)] e0(3) by simp
      with True Some e0 assms(2) keys show ?thesis
        by (auto simp: with_entry_def entry_for_def Let_def)
    next
      case False
      with Some assms(2) keys show ?thesis
        by (auto simp: with_entry_def entry_for_def Let_def nth_append entry_new_def put_entry_def)
    qed
  qed
qed

section \<open>A run of the pool\<close>

text \<open>A connection is warmed up, its session parked, and a checkout looks at it.\<close>

definition demo_key :: pool_key where
  "demo_key = \<lparr>pk_identity = identity_of None example_connection, pk_credential = 7\<rparr>"

definition demo_idle :: idle_session where
  "demo_idle = \<lparr>is_session = 0, is_tunnel = None, is_since = 0\<rparr>"

definition demo_state :: "idle_session list \<Rightarrow> nat \<Rightarrow> nat \<Rightarrow> pool_task multiset \<Rightarrow> pool_system" where
  "demo_state idle pending opened tasks =
     \<lparr>sy_pool = \<lparr>po_entries = [(pk_identity demo_key, 0)],
        po_heap = [\<lparr>en_credential = 7, en_idle = idle, en_leased = (\<lambda>_. 0), en_pending = pending,
          en_retired = False, en_tunnel = None\<rparr>],
        po_opened = opened, po_reused = 0, po_closed = 0, po_tunnels_opened = 0\<rparr>,
      sy_tasks = tasks, sy_owner = replicate opened 0, sy_keys = [demo_key], sy_tainted = {}, sy_gone = [],
      sy_alive = (\<lambda>_. True), sy_tunnels = 0, sy_now = 0\<rparr>"

lemma demo_start: "reachable pool_init pool_step (demo_state [] 0 0 {#Warming 0#})"
proof -
  let ?s = "\<lparr>sy_pool = pool_new, sy_tasks = {#}, sy_owner = [], sy_keys = [], sy_tainted = {}, sy_gone = [],
      sy_alive = (\<lambda>_. True), sy_tunnels = 0, sy_now = 0\<rparr>"
  have "reachable pool_init pool_step ?s" by (rule reach_init) (simp add: pool_init_def)
  moreover have "with_entry demo_key Warming ?s = demo_state [] 0 0 {#Warming 0#}"
    by (simp add: with_entry_def entry_for_def pool_new_def demo_state_def closings_def entry_new_def demo_key_def)
  ultimately show ?thesis by (metis reach_step warm_start)
qed

lemma demo_parked: "reachable pool_init pool_step (demo_state [demo_idle] 1 1 {#Parked 0#})"
proof -
  note demo = demo_state_def demo_idle_def demo_key_def local_def put_entry_def closings_def
  have "pool_step (demo_state [] 0 0 {#Warming 0#}) (demo_state [] 1 0 {#Opening IdleOf 0 Start#})"
    using warm_opens [of "demo_state [] 0 0 {#Warming 0#}" 0 "{#}"]
    by (simp add: open_idle_guard_def demo)
  note 1 = reach_step [OF demo_start this]
  have "pool_step (demo_state [] 1 0 {#Opening IdleOf 0 Start#}) (demo_state [] 1 0 {#Opening IdleOf 0 (Connecting None)#})"
    using open_direct [of "demo_state [] 1 0 {#Opening IdleOf 0 Start#}" IdleOf 0 "{#}"]
    by (simp add: demo identity_of_def example_connection_def)
  note 2 = reach_step [OF 1 this]
  have "pool_step (demo_state [] 1 0 {#Opening IdleOf 0 (Connecting None)#}) (demo_state [] 1 1 {#Parking 0 0 None#})"
    using open_connected [of "demo_state [] 1 0 {#Opening IdleOf 0 (Connecting None)#}" IdleOf 0 None "{#}"]
    by (simp add: demo)
  note 3 = reach_step [OF 2 this]
  have "pool_step (demo_state [] 1 1 {#Parking 0 0 None#}) (demo_state [demo_idle] 1 1 {#Parked 0#})"
    using parks [of "demo_state [] 1 1 {#Parking 0 0 None#}" 0 0 None "{#}"]
    by (simp add: demo park_def IDLE_MAX_def)
  from reach_step [OF 3 this] show ?thesis .
qed

lemma demo_looking:
  "reachable pool_init pool_step (demo_state [demo_idle] 1 1 {#Parked 0, Looking QueryLane 0 False#})"
proof -
  have "with_entry demo_key (\<lambda>e. Looking QueryLane e False) (demo_state [demo_idle] 1 1 {#Parked 0#}) =
      demo_state [demo_idle] 1 1 {#Parked 0, Looking QueryLane 0 False#}"
    by (simp add: with_entry_def entry_for_def demo_state_def closings_def demo_key_def)
  with reach_step [OF demo_parked checkout_start] show ?thesis by metis
qed

section \<open>Properties\<close>

text \<open>
  C27. A checkout is never served a session it must not have. Whatever the pool did before, an idle session
  that \<open>checkout\<close> takes was opened for the very key that was asked for (the same server, user and
  credential), was never cancelled, broken or left in an unknown state, has a tunnel that is alive, and is
  held by nobody else.
\<close>
theorem checkout_serves_a_sound_session:
  assumes "reachable pool_init pool_step s"
    and "entry_for key (sy_pool s) = (e, gone, sy_pool s)"
    and "checkout_look (sy_alive s) l waited (entry_at s e) = (Some (Reuse i), dead, en)"
  shows "sy_keys s ! (sy_owner s ! is_session i) = key \<and> is_session i \<notin> sy_tainted s \<and>
    \<not> tunnel_dead (sy_alive s) i \<and> is_session i \<notin># held_sessions (sy_tasks s) \<and> is_session i \<notin> set (sy_gone s)"
proof -
  have inv: "pool_inv s" by (rule pool.inv_reachable [OF assms(1)])
  note key = with_entry_key [OF inv assms(2), of Warming]
  have "length (sy_keys s) = length (po_heap (sy_pool s))" using inv by (simp add: pool_inv_def)
  with assms(2) key have e: "e < length (po_heap (sy_pool s))" "sy_keys s ! e = key"
    by (auto simp: with_entry_def)
  have look: "is_session i \<in> set (idle_ids (entry_at s e))" "\<not> tunnel_dead (sy_alive s) i"
    using checkout_look_facts [OF assms(3)] by auto
  have ok: "sy_owner s ! is_session i = e" "is_session i \<notin> sy_tainted s"
    using inv e(1) look(1) by (auto simp: pool_inv_def entry_ok_def)
  let ?x = "is_session i" and ?idle = "idle_sessions (po_heap (sy_pool s))"
  have total: "?idle + held_sessions (sy_tasks s) + mset (sy_gone s) = mset [0..<length (sy_owner s)]"
    using inv by (simp add: pool_inv_def)
  have "?x \<in># mset (idle_ids (entry_at s e))" using look(1) by simp
  then have "?x \<in># ?idle" by (rule mset_subset_eqD [OF idle_ids_subset [OF e(1)]])
  then have "1 \<le> count ?idle ?x" by (simp add: Suc_leI count_greater_zero_iff)
  moreover have "count (?idle + held_sessions (sy_tasks s) + mset (sy_gone s)) ?x \<le> 1"
    unfolding total by (simp add: count_mset_set')
  ultimately have "count (held_sessions (sy_tasks s)) ?x = 0" "count (mset (sy_gone s)) ?x = 0"
    unfolding count_union by linarith+
  then have "?x \<notin># held_sessions (sy_tasks s)" "?x \<notin> set (sy_gone s)"
    by (simp_all add: count_eq_zero_iff)
  with e(2) look(2) ok show ?thesis by simp
qed

theorem checkout_serves_a_sound_session_witness:
  "\<exists>en. checkout_look (\<lambda>_. True) QueryLane False
     (entry_at (demo_state [demo_idle] 1 1 {#Parked 0, Looking QueryLane 0 False#}) 0) = (Some (Reuse demo_idle), [], en) \<and>
   0 \<notin># held_sessions {#Parked 0, Looking QueryLane 0 False#}"
proof -
  let ?s = "demo_state [demo_idle] 1 1 {#Parked 0, Looking QueryLane 0 False#}"
  have entry: "entry_for demo_key (sy_pool ?s) = (0, [], sy_pool ?s)"
    by (simp add: entry_for_def demo_state_def demo_key_def)
  have "\<exists>en. checkout_look (sy_alive ?s) QueryLane False (entry_at ?s 0) = (Some (Reuse demo_idle), [], en)"
    by (simp add: checkout_look_def demo_state_def demo_idle_def tunnel_dead_def QUERY_SESSIONS_def)
  then obtain en where look: "checkout_look (sy_alive ?s) QueryLane False (entry_at ?s 0) = (Some (Reuse demo_idle), [], en)"
    by blast
  from checkout_serves_a_sound_session [OF demo_looking entry look] look show ?thesis
    by (auto simp: demo_state_def demo_idle_def)
qed

text \<open>
  No session is lost and none is in two places: in every state each session that was ever opened is either
  in exactly one idle list, once, or held by exactly one task, or closed or dropped.
\<close>
theorem sessions_are_conserved:
  assumes "reachable pool_init pool_step s"
  shows "idle_sessions (po_heap (sy_pool s)) + held_sessions (sy_tasks s) + mset (sy_gone s) =
    mset [0..<length (sy_owner s)]"
  using pool.inv_reachable [OF assms] by (simp add: pool_inv_def)

theorem sessions_are_conserved_witness:
  "idle_sessions (po_heap (sy_pool (demo_state [demo_idle] 1 1 {#Parked 0#}))) + held_sessions {#Parked 0#} + {#} = {#0#}"
  using sessions_are_conserved [OF demo_parked] by (simp add: demo_state_def)

text \<open>
  C28. The counts of an entry are exact: the leases it counts in a lane and the sessions it counts as on their way
  are those that live tasks hold, so every guard gives its count back exactly once and an entry nobody uses counts
  nothing. It keeps at most three idle sessions, none at all once its credential is retired, and a
  retired entry is never found under a key again.
\<close>
theorem entry_counts_are_exact:
  assumes "reachable pool_init pool_step s" and "e < length (po_heap (sy_pool s))"
  shows "en_leased (entry_at s e) l = lease_count e l (sy_tasks s) \<and>
    en_pending (entry_at s e) = pending_count e (sy_tasks s) \<and>
    length (en_idle (entry_at s e)) \<le> 3 \<and>
    \<not> (en_retired (entry_at s e) \<and> (en_idle (entry_at s e) \<noteq> [] \<or> e \<in> ran (map_of (po_entries (sy_pool s)))))"
  using pool.inv_reachable [OF assms(1)] assms(2)
  by (auto simp: pool_inv_def entry_ok_def map_ok_def IDLE_MAX_def ran_def)

theorem entry_counts_are_exact_witness:
  "en_pending (entry_at (demo_state [demo_idle] 1 1 {#Parked 0#}) 0) = pending_count 0 {#Parked 0#}"
  using entry_counts_are_exact [OF demo_parked, of 0 QueryLane] by (simp add: demo_state_def)

end
