(* ===== verification/SshConfig.thy ===== *)
theory SshConfig
  imports KnownHosts Paths "HOL-Library.List_Lexorder"
begin

text \<open>
  Aliases of \<^verbatim>\<open>~/.ssh/config\<close> (\<^verbatim>\<open>crates/qh-tunnel/src/ssh_config.rs\<close>): the loader, which follows every
  \<open>Include\<close> where it stands, and the resolution of one alias, which refuses by name what it does not apply.

  The disk is a parameter: what \<open>metadata\<close>, \<open>read_to_string\<close> and \<open>read_dir\<close> answer. A path is its bytes.
  The depth of an \<open>Include\<close> is counted down (\<open>left\<close> is \<open>MAX_DEPTH + 1 - depth\<close>), which is what the loader's
  termination rests on: a file may include itself.
\<close>

section \<open>The data\<close>

datatype file_meta = MetaMissing | MetaFailed bytes | Meta bool nat

record ssh_disk =
  pd_meta :: "path \<Rightarrow> file_meta"
  pd_text :: "path \<Rightarrow> bytes + bytes"
  pd_dir :: "path \<Rightarrow> bytes list option"

definition is_file :: "ssh_disk \<Rightarrow> path \<Rightarrow> bool" where
  "is_file disk p = (case pd_meta disk p of Meta regular len \<Rightarrow> regular | _ \<Rightarrow> False)"

definition MAX_FILE_BYTES :: nat where "MAX_FILE_BYTES = 1024 * 1024"
definition MAX_LINES :: nat where "MAX_LINES = 20000"
definition MAX_FILES :: nat where "MAX_FILES = 32"
definition MAX_DEPTH :: nat where "MAX_DEPTH = 4"
definition MAX_ALIASES :: nat where "MAX_ALIASES = 500"

definition COSMETIC :: "bytes list" where
  "COSMETIC = [''addkeystoagent'', ''usekeychain'', ''serveraliveinterval'', ''serveralivecountmax'',
     ''tcpkeepalive'', ''compression'', ''forwardagent'', ''forwardx11'', ''forwardx11trusted'', ''loglevel'',
     ''sendenv'', ''setenv'', ''hashknownhosts'', ''controlmaster'', ''controlpath'', ''controlpersist'',
     ''visualhostkey'', ''connecttimeout'', ''connectionattempts'', ''batchmode'', ''numberofpasswordprompts'',
     ''addressfamily'', ''requesttty'', ''tag'', ''ipqos'']"

record ssh_resolved =
  rs_host_name :: bytes
  rs_user :: "bytes option"
  rs_port :: "int option"
  rs_identity_files :: "path list"

datatype ssh_config_error =
    ScNotFound bytes
  | ScUnsupported bytes bytes path nat
  | ScUnsupportedToken bytes bytes bytes path nat
  | ScTooManyIncludes
  | ScTooLarge path
  | ScMalformed path nat
  | ScNoHome
  | ScUnreadable path bytes

fun ssh_config_error_text :: "ssh_config_error \<Rightarrow> bytes" where
  "ssh_config_error_text (ScNotFound alias) =
     ''no Host entry in the ssh config names the alias '' @ [CHR 0x22] @ alias @ [CHR 0x22]"
| "ssh_config_error_text (ScUnsupported directive alias p line) =
     p @ '' line '' @ nat_bytes line @ '': '' @ [CHR 0x22] @ directive @ [CHR 0x22] @
     '' is not supported by QueryHive, so alias '' @ [CHR 0x22] @ alias @ [CHR 0x22] @
     '' cannot be used. Fill in host, user and key explicitly instead.''"
| "ssh_config_error_text (ScUnsupportedToken directive token alias p line) =
     p @ '' line '' @ nat_bytes line @ '': '' @ [CHR 0x22] @ directive @ [CHR 0x22] @ '' uses the token '' @
     [CHR 0x22] @ token @ [CHR 0x22] @ '', which QueryHive does not expand, so alias '' @
     [CHR 0x22] @ alias @ [CHR 0x22] @
     '' cannot be used. Fill in host, user and key explicitly instead.''"
| "ssh_config_error_text ScTooManyIncludes = ''the ssh config includes too many files, or includes itself''"
| "ssh_config_error_text (ScTooLarge p) = p @ '' is too large to read as an ssh config''"
| "ssh_config_error_text (ScMalformed p line) =
     p @ '' line '' @ nat_bytes line @ '' is not valid ssh config syntax''"
| "ssh_config_error_text ScNoHome = ''$HOME is not set, so ~/.ssh cannot be located''"
| "ssh_config_error_text (ScUnreadable p reason) = ''cannot read '' @ p @ '': '' @ reason"

record ssh_directive =
  sd_name :: bytes
  sd_key :: bytes
  sd_args :: "bytes list"
  sd_file :: path
  sd_line :: nat

datatype ssh_item = ItHost "bytes list" | ItEnter | ItLeave | ItDirective ssh_directive

record ssh_config =
  sc_items :: "ssh_item list"
  sc_match_at :: "(path \<times> nat) option"
  sc_include_at :: "(path \<times> nat) option"
  sc_home :: "path option"

record ssh_loader =
  ld_files :: nat
  ld_lines :: nat
  ld_config :: ssh_config

definition push_item :: "ssh_item \<Rightarrow> ssh_loader \<Rightarrow> ssh_loader" where
  "push_item it ld = ld\<lparr>ld_config := (ld_config ld)\<lparr>sc_items := sc_items (ld_config ld) @ [it]\<rparr>\<rparr>"

text \<open>The first \<open>Match\<close>, and the first \<open>Include\<close> that is not expanded, are remembered.\<close>

definition mark_match :: "path \<Rightarrow> nat \<Rightarrow> ssh_loader \<Rightarrow> ssh_loader" where
  "mark_match p line ld = (let c = ld_config ld in
     ld\<lparr>ld_config := c\<lparr>sc_match_at := (case sc_match_at c of None \<Rightarrow> Some (p, line) | at \<Rightarrow> at)\<rparr>\<rparr>)"

definition mark_include :: "path \<Rightarrow> nat \<Rightarrow> ssh_loader \<Rightarrow> ssh_loader" where
  "mark_include p line ld = (let c = ld_config ld in
     ld\<lparr>ld_config := c\<lparr>sc_include_at := (case sc_include_at c of None \<Rightarrow> Some (p, line) | at \<Rightarrow> at)\<rparr>\<rparr>)"

section \<open>One line\<close>

fun name_end :: "bytes \<Rightarrow> nat" where
  "name_end [] = 0"
| "name_end (c # s) = (if ws_head (c # s) \<noteq> 0 \<or> c = CHR ''='' then 0 else Suc (name_end s))"

lemma split_once_in_length: "split_once_in seps s = Some (a, b) \<Longrightarrow> length b < length s"
  by (induction s arbitrary: a) (auto split: if_splits)

text \<open>\<open>None\<close> for a quote that is not closed.\<close>

function config_args :: "bytes \<Rightarrow> bytes list option" where
  "config_args s = (let t = trim_start s in
     case t of
       [] \<Rightarrow> Some []
     | c # r \<Rightarrow>
         if c = CHR ''#'' then Some []
         else if c = CHR 0x22 then
           (case split_once (CHR 0x22) r of
              None \<Rightarrow> None
            | Some (v, rest) \<Rightarrow> map_option ((#) v) (config_args rest))
         else map_option ((#) (take (field_end t) t)) (config_args (drop (field_end t) t)))"
  by pat_completeness auto
termination
proof (relation "measure length")
  fix s t :: bytes and c r
  assume t: "t = trim_start s" "t = c # r" "c \<noteq> CHR ''#''"
  then have "0 < field_end t" using field_end_pos ws_head_trim_start by (metis list.distinct(1))
  with t field_end_le [of t] trim_start_length [of s]
  show "(drop (field_end t) t, s) \<in> measure length" by simp
next
  fix s t :: bytes and c r x v rest
  assume t: "t = trim_start s" "t = c # r" and x: "split_once (CHR 0x22) r = Some x" "(v, rest) = x"
  from t have "length (trim_start s) = Suc (length r)" by (metis length_Cons)
  with trim_start_length [of s] have "Suc (length r) \<le> length s" by simp
  moreover have "length rest < length r"
    using x split_once_in_length [of "[CHR 0x22]" r v rest] by (simp add: split_once_def)
  ultimately show "(rest, s) \<in> measure length" by simp
qed simp

declare config_args.simps [simp del]

text \<open>\<open>tokenize\<close>: \<open>None\<close> for a malformed line, \<open>Some None\<close> for a blank or a comment.\<close>

definition tokenize :: "bytes \<Rightarrow> (bytes \<times> bytes list) option option" where
  "tokenize raw =
     (let line = trim_start raw in
      if line = [] \<or> hd line = CHR ''#'' then Some None
      else if name_end line = 0 then None
      else (let name = take (name_end line) line;
                rest = trim_start (drop (name_end line) line);
                rest = (if prefix ''='' rest then tl rest else rest)
            in map_option (\<lambda>args. Some (name, args)) (config_args rest)))"

section \<open>Includes\<close>

definition include_is_unsupported :: "bytes \<Rightarrow> bool" where
  "include_is_unsupported arg \<longleftrightarrow>
     list_ex (\<lambda>c. c \<in> set ''$%['') arg \<or>
     prefix ''~'' arg \<and> arg \<noteq> ''~'' \<and> \<not> prefix ''~/'' arg \<or>
     (case rsplit_once_in ''/'' arg of Some (dir, _) \<Rightarrow> list_ex (\<lambda>c. c \<in> set ''*?'') dir | None \<Rightarrow> False)"

definition include_path :: "path option \<Rightarrow> bytes \<Rightarrow> path option" where
  "include_path home arg =
     (case strip_prefix ''~/'' arg of
        Some rest \<Rightarrow> map_option (\<lambda>h. path_join h rest) home
      | None \<Rightarrow>
          if arg = ''~'' then home
          else if prefix ''/'' arg then Some arg
          else map_option (\<lambda>h. path_join (path_join h ''.ssh'') arg) home)"

text \<open>
  The files an \<open>Include\<close> names, in the order of their paths; all of them stand in one directory, so that
  is the order of their names.
\<close>

definition expand_include :: "ssh_disk \<Rightarrow> path option \<Rightarrow> bytes \<Rightarrow> ssh_config_error + path list" where
  "expand_include disk home arg =
     (case include_path home arg of
        None \<Rightarrow> Inl ScNoHome
      | Some p \<Rightarrow>
          (case path_file_name p of
             None \<Rightarrow> Inr [p]
           | Some name \<Rightarrow>
               if \<not> list_ex (\<lambda>c. c \<in> set ''*?'') name then Inr [p]
               else (case pd_dir disk (path_parent p) of
                       None \<Rightarrow> Inr []
                     | Some entries \<Rightarrow>
                         Inr (map (path_join (path_parent p))
                           (sort_key (map byte_val) (filter (\<lambda>candidate.
                              (\<not> prefix ''.'' candidate \<or> prefix ''.'' name) \<and> glob_matches name candidate)
                              entries))))))"

section \<open>The loader\<close>

function (sequential) read_file :: "ssh_disk \<Rightarrow> path option \<Rightarrow> nat \<Rightarrow> path \<Rightarrow> ssh_loader \<Rightarrow> ssh_config_error + ssh_loader"
  and read_lines :: "ssh_disk \<Rightarrow> path option \<Rightarrow> nat \<Rightarrow> path \<Rightarrow> nat \<Rightarrow> bytes list \<Rightarrow> ssh_loader
      \<Rightarrow> ssh_config_error + ssh_loader"
  and read_args :: "ssh_disk \<Rightarrow> path option \<Rightarrow> nat \<Rightarrow> path \<Rightarrow> nat \<Rightarrow> bytes list \<Rightarrow> ssh_loader
      \<Rightarrow> ssh_config_error + ssh_loader"
  and read_files :: "ssh_disk \<Rightarrow> path option \<Rightarrow> nat \<Rightarrow> path list \<Rightarrow> ssh_loader \<Rightarrow> ssh_config_error + ssh_loader"
where
  "read_file disk home 0 p ld = Inl ScTooManyIncludes"
| "read_file disk home (Suc left) p ld =
     (if MAX_FILES \<le> ld_files ld then Inl ScTooManyIncludes
      else (case pd_meta disk p of
        MetaMissing \<Rightarrow> Inr ld
      | MetaFailed reason \<Rightarrow> Inl (ScUnreadable p reason)
      | Meta regular len \<Rightarrow>
          if \<not> regular then Inr ld
          else if MAX_FILE_BYTES < len then Inl (ScTooLarge p)
          else (case pd_text disk p of
            Inl reason \<Rightarrow> Inl (ScUnreadable p reason)
          | Inr s \<Rightarrow> read_lines disk home left p 1 (text_lines s) (ld\<lparr>ld_files := ld_files ld + 1\<rparr>))))"
| "read_lines disk home left p line [] ld = Inr ld"
| "read_lines disk home left p line (raw # raws) ld =
     (if MAX_LINES < ld_lines ld + 1 then Inl (ScTooLarge p)
      else (let ld = ld\<lparr>ld_lines := ld_lines ld + 1\<rparr> in
        case tokenize raw of
          None \<Rightarrow> Inl (ScMalformed p line)
        | Some None \<Rightarrow> read_lines disk home left p (line + 1) raws ld
        | Some (Some (name, args)) \<Rightarrow>
            (let key = to_ascii_lowercase name in
             if key = ''host'' then
               (if args = [] then Inl (ScMalformed p line)
                else read_lines disk home left p (line + 1) raws (push_item (ItHost args) ld))
             else if key = ''match'' then
               read_lines disk home left p (line + 1) raws (push_item (ItHost []) (mark_match p line ld))
             else if key = ''include'' then
               (if args = [] then Inl (ScMalformed p line)
                else (case read_args disk home left p line args ld of
                  Inl e \<Rightarrow> Inl e
                | Inr ld' \<Rightarrow> read_lines disk home left p (line + 1) raws ld'))
             else read_lines disk home left p (line + 1) raws (push_item (ItDirective
               \<lparr>sd_name = name, sd_key = key, sd_args = args, sd_file = p, sd_line = line\<rparr>) ld))))"
| "read_args disk home left p line [] ld = Inr ld"
| "read_args disk home left p line (arg # args) ld =
     (if include_is_unsupported arg then read_args disk home left p line args (mark_include p line ld)
      else (case expand_include disk home arg of
        Inl e \<Rightarrow> Inl e
      | Inr found \<Rightarrow>
          (case read_files disk home left found ld of
             Inl e \<Rightarrow> Inl e
           | Inr ld' \<Rightarrow> read_args disk home left p line args ld')))"
| "read_files disk home left [] ld = Inr ld"
| "read_files disk home left (f # fs) ld =
     (case read_file disk home left f (push_item ItEnter ld) of
        Inl e \<Rightarrow> Inl e
      | Inr ld' \<Rightarrow> read_files disk home left fs (push_item ItLeave ld'))"
  by pat_completeness auto
termination
  by (relation "inv_image (less_than <*lex*> less_than <*lex*> less_than) (\<lambda>x. case x of
      Inl (Inl (_, _, left, _, _)) \<Rightarrow> (left, 0, 0)
    | Inl (Inr (_, _, left, _, _, raws, _)) \<Rightarrow> (left, 3, length raws)
    | Inr (Inl (_, _, left, _, _, args, _)) \<Rightarrow> (left, 2, length args)
    | Inr (Inr (_, _, left, fs, _)) \<Rightarrow> (left, 1, length fs))")
    auto

declare read_file.simps [simp del] read_lines.simps [simp del] read_args.simps [simp del] read_files.simps [simp del]

definition load_in :: "ssh_disk \<Rightarrow> path \<Rightarrow> path option \<Rightarrow> ssh_config_error + ssh_config" where
  "load_in disk p home =
     (case read_file disk home (MAX_DEPTH + 1) p
        \<lparr>ld_files = 0, ld_lines = 0,
         ld_config = \<lparr>sc_items = [], sc_match_at = None, sc_include_at = None, sc_home = home\<rparr>\<rparr> of
        Inl e \<Rightarrow> Inl e
      | Inr ld \<Rightarrow> Inr (ld_config ld))"

section \<open>Resolving an alias\<close>

text \<open>
  \<open>Some specific\<close> when a positive pattern matches and no \<open>!\<close> pattern does; \<open>specific\<close> is false when the only
  match is a lone \<open>*\<close>.
\<close>

fun match_patterns :: "bytes list \<Rightarrow> bytes \<Rightarrow> bool \<Rightarrow> bool \<Rightarrow> bool option" where
  "match_patterns [] alias matched specific = (if matched then Some specific else None)"
| "match_patterns (pat # pats) alias matched specific =
     (let p = to_ascii_lowercase pat in
      case strip_prefix ''!'' p of
        Some negated \<Rightarrow> if glob_matches negated alias then None else match_patterns pats alias matched specific
      | None \<Rightarrow>
          if glob_matches p alias then match_patterns pats alias True (specific \<or> p \<noteq> ''*'')
          else match_patterns pats alias matched specific)"

definition block_matches :: "bytes list \<Rightarrow> bytes \<Rightarrow> bool option" where
  "block_matches pats alias = match_patterns pats (to_ascii_lowercase alias) False False"

text \<open>
  \<open>expand\<close>: \<open>%%\<close>, \<open>%h\<close> and, when there is a home, \<open>%d\<close>; any other token is the error. A token is a \<open>%\<close> and
  one character, and every byte of a character that is not ASCII is kept in it.
\<close>

fun expand :: "bytes \<Rightarrow> bytes \<Rightarrow> path option \<Rightarrow> bytes + bytes" where
  "expand [] host home = Inr []"
| "expand (c # s) host home =
     (if c \<noteq> CHR ''%'' then map_sum id ((#) c) (expand s host home)
      else (case s of
        [] \<Rightarrow> Inl ''%''
      | d # s' \<Rightarrow>
          if d = CHR ''%'' then map_sum id ((#) d) (expand s' host home)
          else if d = CHR ''h'' then map_sum id ((@) host) (expand s' host home)
          else if d = CHR ''d'' \<and> home \<noteq> None then map_sum id ((@) (the home)) (expand s' host home)
          else Inl (''%'' @ d # takeWhile is_continuation s')))"

record ssh_walk =
  wk_named :: bool
  wk_applying :: "ssh_directive list"
  wk_active :: bool
  wk_scopes :: "bool list"

definition walk_new :: ssh_walk where
  "walk_new = \<lparr>wk_named = False, wk_applying = [], wk_active = True, wk_scopes = []\<rparr>"

text \<open>One turn of the loop over the items; the stack of scopes has its top first.\<close>

fun walk_item :: "bytes \<Rightarrow> ssh_item \<Rightarrow> ssh_walk \<Rightarrow> ssh_walk" where
  "walk_item alias (ItHost pats) w =
     (let in_scope = (case wk_scopes w of [] \<Rightarrow> True | b # bs \<Rightarrow> b) in
      case (if in_scope then block_matches pats alias else None) of
        Some specific \<Rightarrow> w\<lparr>wk_named := wk_named w \<or> specific, wk_active := True\<rparr>
      | None \<Rightarrow> w\<lparr>wk_active := False\<rparr>)"
| "walk_item alias ItEnter w = w\<lparr>wk_scopes := wk_active w # wk_scopes w\<rparr>"
| "walk_item alias ItLeave w =
     (case wk_scopes w of
        [] \<Rightarrow> w\<lparr>wk_active := True\<rparr>
      | b # bs \<Rightarrow> w\<lparr>wk_active := b, wk_scopes := bs\<rparr>)"
| "walk_item alias (ItDirective d) w =
     (if wk_active w then w\<lparr>wk_applying := wk_applying w @ [d]\<rparr> else w)"

definition walk_items :: "bytes \<Rightarrow> ssh_item list \<Rightarrow> ssh_walk" where
  "walk_items alias its = fold (walk_item alias) its walk_new"

record ssh_values =
  sv_host_name :: "bytes option"
  sv_user :: "bytes option"
  sv_port :: "int option"
  sv_identity_raw :: "(bytes \<times> ssh_directive) list"

definition single :: "ssh_directive \<Rightarrow> ssh_config_error + bytes" where
  "single d = (case sd_args d of [v] \<Rightarrow> Inr v | _ \<Rightarrow> Inl (ScMalformed (sd_file d) (sd_line d)))"

definition token_error :: "bytes \<Rightarrow> ssh_directive \<Rightarrow> bytes \<Rightarrow> ssh_config_error" where
  "token_error alias d token = ScUnsupportedToken (sd_name d) token alias (sd_file d) (sd_line d)"

definition unsupported_directive :: "bytes \<Rightarrow> ssh_directive \<Rightarrow> ssh_config_error" where
  "unsupported_directive alias d = ScUnsupported (sd_name d) alias (sd_file d) (sd_line d)"

definition get_or_insert :: "'a option \<Rightarrow> 'a \<Rightarrow> 'a option" where
  "get_or_insert x v = (case x of None \<Rightarrow> Some v | Some y \<Rightarrow> Some y)"

definition read_directive :: "bytes \<Rightarrow> ssh_directive \<Rightarrow> ssh_values \<Rightarrow> ssh_config_error + ssh_values" where
  "read_directive alias d v =
     (if sd_key d = ''hostname'' then
        (case single d of Inl e \<Rightarrow> Inl e | Inr x \<Rightarrow>
           (case expand x alias None of
              Inl token \<Rightarrow> Inl (token_error alias d token)
            | Inr name \<Rightarrow> Inr (v\<lparr>sv_host_name := get_or_insert (sv_host_name v) name\<rparr>)))
      else if sd_key d = ''user'' then
        (case single d of Inl e \<Rightarrow> Inl e | Inr x \<Rightarrow> Inr (v\<lparr>sv_user := get_or_insert (sv_user v) x\<rparr>))
      else if sd_key d = ''port'' then
        (case single d of Inl e \<Rightarrow> Inl e | Inr x \<Rightarrow>
           (case parse_int_in 0 65535 x of
              None \<Rightarrow> Inl (ScMalformed (sd_file d) (sd_line d))
            | Some n \<Rightarrow> Inr (v\<lparr>sv_port := get_or_insert (sv_port v) n\<rparr>)))
      else if sd_key d = ''identityfile'' then
        (case single d of Inl e \<Rightarrow> Inl e | Inr x \<Rightarrow>
           Inr (v\<lparr>sv_identity_raw := sv_identity_raw v @ [(x, d)]\<rparr>))
      else if sd_key d \<in> set COSMETIC then Inr v
      else if sd_key d = ''stricthostkeychecking'' then
        (case single d of Inl e \<Rightarrow> Inl e | Inr x \<Rightarrow>
           if to_ascii_lowercase x \<in> {''yes'', ''ask''} then Inr v else Inl (unsupported_directive alias d))
      else if sd_key d = ''identitiesonly'' then
        (case single d of Inl e \<Rightarrow> Inl e | Inr x \<Rightarrow>
           if eq_ignore_ascii_case x ''no'' then Inr v else Inl (unsupported_directive alias d))
      else Inl (unsupported_directive alias d))"

fun read_directives :: "bytes \<Rightarrow> ssh_directive list \<Rightarrow> ssh_values \<Rightarrow> ssh_config_error + ssh_values" where
  "read_directives alias [] v = Inr v"
| "read_directives alias (d # ds) v =
     (case read_directive alias d v of Inl e \<Rightarrow> Inl e | Inr v' \<Rightarrow> read_directives alias ds v')"

definition identity_file :: "bytes \<Rightarrow> bytes \<Rightarrow> path option \<Rightarrow> bytes \<times> ssh_directive \<Rightarrow> ssh_config_error + path" where
  "identity_file alias host home = (\<lambda>(raw, d).
     case strip_prefix ''~/'' raw of
       Some rest \<Rightarrow>
         (case home of
            None \<Rightarrow> Inl ScNoHome
          | Some h \<Rightarrow>
              (case expand rest host home of
                 Inl token \<Rightarrow> Inl (token_error alias d token)
               | Inr p \<Rightarrow> Inr (path_join h p)))
     | None \<Rightarrow>
         (case expand raw host home of
            Inl token \<Rightarrow> Inl (token_error alias d token)
          | Inr p \<Rightarrow> Inr p))"

fun sequence_results :: "('e + 'a) list \<Rightarrow> 'e + 'a list" where
  "sequence_results [] = Inr []"
| "sequence_results (r # rs) =
     (case r of Inl e \<Rightarrow> Inl e
      | Inr x \<Rightarrow> (case sequence_results rs of Inl e \<Rightarrow> Inl e | Inr xs \<Rightarrow> Inr (x # xs)))"

definition resolve :: "ssh_config \<Rightarrow> bytes \<Rightarrow> ssh_config_error + ssh_resolved" where
  "resolve cfg alias =
     (case sc_match_at cfg of
        Some (p, line) \<Rightarrow> Inl (ScUnsupported ''Match'' alias p line)
      | None \<Rightarrow>
     (case sc_include_at cfg of
        Some (p, line) \<Rightarrow> Inl (ScUnsupported ''Include'' alias p line)
      | None \<Rightarrow>
     (let w = walk_items alias (sc_items cfg) in
      if \<not> wk_named w then Inl (ScNotFound alias)
      else (case read_directives alias (wk_applying w)
          \<lparr>sv_host_name = None, sv_user = None, sv_port = None, sv_identity_raw = []\<rparr> of
        Inl e \<Rightarrow> Inl e
      | Inr v \<Rightarrow>
          (let host = (case sv_host_name v of Some h \<Rightarrow> h | None \<Rightarrow> alias) in
           case sequence_results (map (identity_file alias host (sc_home cfg)) (sv_identity_raw v)) of
             Inl e \<Rightarrow> Inl e
           | Inr found \<Rightarrow> Inr \<lparr>rs_host_name = host, rs_user = sv_user v, rs_port = sv_port v,
               rs_identity_files = found\<rparr>)))))"

section \<open>The names to pick from\<close>

fun item_patterns :: "ssh_item \<Rightarrow> bytes list" where
  "item_patterns (ItHost pats) = pats"
| "item_patterns it = []"

fun pick_aliases :: "bytes list \<Rightarrow> bytes list \<Rightarrow> bytes list" where
  "pick_aliases [] names = names"
| "pick_aliases (pat # pats) names =
     (if list_ex (\<lambda>c. c \<in> set ''*?!'') pat \<or> pat \<in> set names then pick_aliases pats names
      else if length names + 1 = MAX_ALIASES then names @ [pat]
      else pick_aliases pats (names @ [pat]))"

definition aliases :: "ssh_config \<Rightarrow> bytes list" where
  "aliases cfg = pick_aliases (concat (map item_patterns (sc_items cfg))) []"

end
