(* ===== verification/TunnelSettings.thy ===== *)
theory TunnelSettings
  imports SshConfig PoolKey
begin

text \<open>
  The SSH bastion from settings to the check of its key (\<^verbatim>\<open>crates/qh-ffi/src/tunnel.rs\<close>, the configuration and
  the verifier of \<^verbatim>\<open>crates/qh-tunnel/src/tunnel.rs\<close>, the messages of its \<^verbatim>\<open>error.rs\<close>).

  The environment is a parameter: the home directory and the disk the ssh config is read from. A network
  failure is not modelled here; \<open>io\<close> is what the operating system says of one.
\<close>

section \<open>Settings\<close>

record env =
  en_home :: "path option"
  en_disk :: ssh_disk

datatype tunnel_config_error =
    TcMissing bytes
  | TcBadAuthMethod bytes
  | TcKeyPathMissing
  | TcPasswordMissing
  | TcNoKnownHosts
  | TcBadHost
  | TcBadHostKeyAccept
  | TcPinNeedsAppFile
  | TcNoSshConfig
  | TcSshConfig bytes
  | TcSetting setting_error

definition home_file :: "env \<Rightarrow> bytes list \<Rightarrow> path option" where
  "home_file env parts = map_option (\<lambda>h. foldl path_join h parts) (en_home env)"

definition ssh_config_path :: "env \<Rightarrow> settings \<Rightarrow> tunnel_config_error + path" where
  "ssh_config_path env s =
     (let p = text_setting s ''SSH_CONFIG_PATH'' [] in
      if p \<noteq> [] then Inr p
      else (case home_file env [''.ssh'', ''config''] of None \<Rightarrow> Inl TcNoSshConfig | Some p \<Rightarrow> Inr p))"

definition resolve_alias :: "env \<Rightarrow> path \<Rightarrow> bytes \<Rightarrow> tunnel_config_error + ssh_resolved" where
  "resolve_alias env p alias =
     (case load_in (en_disk env) p (en_home env) of
        Inl e \<Rightarrow> Inl (TcSshConfig (ssh_config_error_text e))
      | Inr cfg \<Rightarrow>
          (case resolve cfg alias of
             Inl e \<Rightarrow> Inl (TcSshConfig (ssh_config_error_text e))
           | Inr r \<Rightarrow> Inr r))"

definition alias_list :: "env \<Rightarrow> path \<Rightarrow> bytes list" where
  "alias_list env p = (case load_in (en_disk env) p (en_home env) of Inl e \<Rightarrow> [] | Inr cfg \<Rightarrow> aliases cfg)"

definition is_fingerprint :: "bytes \<Rightarrow> bool" where
  "is_fingerprint s =
     (case strip_prefix ''SHA256:'' s of
        None \<Rightarrow> False
      | Some rest \<Rightarrow> length rest = 43 \<and>
          list_all (\<lambda>c. is_ascii_alphanumeric c \<or> c = CHR ''+'' \<or> c = CHR ''/'') rest)"

definition DEFAULT_SSH_PORT :: int where "DEFAULT_SSH_PORT = 22"

text \<open>The parts of \<open>settings\<close>, each from the settings and what the alias resolved to.\<close>

definition alias_of :: "env \<Rightarrow> settings \<Rightarrow> bytes \<Rightarrow> tunnel_config_error + ssh_resolved option" where
  "alias_of env s named =
     (if flag_setting s ''SSH_USE_CONFIG'' False then
        (case ssh_config_path env s of
           Inl e \<Rightarrow> Inl e
         | Inr p \<Rightarrow> (case resolve_alias env p named of Inl e \<Rightarrow> Inl e | Inr r \<Rightarrow> Inr (Some r)))
      else Inr None)"

definition tunnel_user :: "settings \<Rightarrow> ssh_resolved option \<Rightarrow> tunnel_config_error + bytes" where
  "tunnel_user s from_config =
     (let user = text_setting s ''SSH_USER'' [] in
      if user \<noteq> [] then Inr user
      else (case Option.bind from_config rs_user of
              Some u \<Rightarrow> Inr u
            | None \<Rightarrow> Inl (TcMissing ''SSH_USER'')))"

definition tunnel_port :: "settings \<Rightarrow> ssh_resolved option \<Rightarrow> tunnel_config_error + 16 word" where
  "tunnel_port s from_config =
     (let default_port = (case Option.bind from_config rs_port of Some n \<Rightarrow> n | None \<Rightarrow> DEFAULT_SSH_PORT) in
      case number_setting s ''SSH_PORT'' default_port of
        Inl e \<Rightarrow> Inl (TcSetting e)
      | Inr n \<Rightarrow>
          if 0 \<le> n \<and> n \<le> 65535 then Inr (word_of_int n)
          else Inl (TcSetting (NotANumber ''SSH_PORT'' (int_bytes n))))"

definition tunnel_auth_of :: "env \<Rightarrow> settings \<Rightarrow> ssh_resolved option \<Rightarrow> tunnel_config_error + tunnel_auth" where
  "tunnel_auth_of env s from_config =
     (let method = text_setting s ''SSH_AUTH_METHOD'' ''agent'' in
      if method = ''agent'' then Inr AuthAgent
      else if method = ''key'' then
        (let p = text_setting s ''SSH_KEY_PATH'' [] in
         if p \<noteq> [] then Inr (AuthKey p)
         else (case Option.bind from_config (\<lambda>r. List.find (is_file (en_disk env)) (rs_identity_files r)) of
                 Some f \<Rightarrow> Inr (AuthKey f)
               | None \<Rightarrow> Inl TcKeyPathMissing))
      else if method = ''password'' then
        (let password = raw_setting s ''SSH_PASSWORD'' [] in
         if password = [] then Inl TcPasswordMissing else Inr (AuthPassword password))
      else Inl (TcBadAuthMethod method))"

definition path_setting :: "settings \<Rightarrow> bytes \<Rightarrow> path option" where
  "path_setting s key = (let p = text_setting s key [] in if p \<noteq> [] then Some p else None)"

definition tunnel_pin :: "settings \<Rightarrow> tunnel_config_error + bytes option" where
  "tunnel_pin s =
     (let pin = text_setting s ''SSH_HOST_KEY_ACCEPT'' [] in
      if pin = [] then Inr None
      else if \<not> is_fingerprint pin then Inl TcBadHostKeyAccept
      else if path_setting s ''SSH_APP_KNOWN_HOSTS'' = None then Inl TcPinNeedsAppFile
      else Inr (Some pin))"

definition tunnel_settings :: "env \<Rightarrow> settings \<Rightarrow> tunnel_config_error + tunnel_config option" where
  "tunnel_settings env s =
     (let named = text_setting s ''SSH_HOST'' [] in
      if named = [] then Inr None
      else (case alias_of env s named of
        Inl e \<Rightarrow> Inl e
      | Inr from_config \<Rightarrow>
          (let (host, nick) = (case from_config of
               Some r \<Rightarrow> (rs_host_name r, Some named) | None \<Rightarrow> (named, None)) in
           if \<not> is_valid_host host then Inl TcBadHost
           else (case tunnel_user s from_config of
             Inl e \<Rightarrow> Inl e
           | Inr user \<Rightarrow>
          (case tunnel_port s from_config of
             Inl e \<Rightarrow> Inl e
           | Inr port \<Rightarrow>
          (case tunnel_auth_of env s from_config of
             Inl e \<Rightarrow> Inl e
           | Inr auth \<Rightarrow>
          (case tunnel_pin s of
             Inl e \<Rightarrow> Inl e
           | Inr pin \<Rightarrow> Inr (Some
               \<lparr>tu_host = host, tu_port = port, tu_user = user, tu_auth = auth,
                tu_known_hosts = path_setting s ''SSH_KNOWN_HOSTS'',
                tu_app_known_hosts = path_setting s ''SSH_APP_KNOWN_HOSTS'',
                tu_host_key_accept = pin, tu_alias = nick\<rparr>))))))))"

definition known_hosts_path :: "env \<Rightarrow> tunnel_config \<Rightarrow> tunnel_config_error + path" where
  "known_hosts_path env c =
     (case tu_known_hosts c of
        Some p \<Rightarrow> Inr p
      | None \<Rightarrow>
          (case home_file env [''.ssh'', ''known_hosts''] of None \<Rightarrow> Inl TcNoKnownHosts | Some p \<Rightarrow> Inr p))"

section \<open>The bastion\<close>

datatype bastion_auth = BastionAgent | BastionKey path "bytes option" | BastionPassword bytes

record bastion_config =
  bc_host :: bytes
  bc_port :: "16 word"
  bc_user :: bytes
  bc_auth :: bastion_auth
  bc_known_hosts :: "path list"
  bc_record_to :: "path option"
  bc_policy :: host_key_policy

definition bastion_new :: "bytes \<Rightarrow> 16 word \<Rightarrow> bytes \<Rightarrow> bastion_auth \<Rightarrow> path \<Rightarrow> bastion_config" where
  "bastion_new host port user auth known =
     \<lparr>bc_host = host, bc_port = port, bc_user = user, bc_auth = auth, bc_known_hosts = [known],
      bc_record_to = None, bc_policy = Strict\<rparr>"

definition with_system_known_hosts :: "bastion_config \<Rightarrow> bastion_config" where
  "with_system_known_hosts b = b\<lparr>bc_known_hosts := bc_known_hosts b @ [SYSTEM_KNOWN_HOSTS]\<rparr>"

definition bastion_of :: "env \<Rightarrow> tunnel_config \<Rightarrow> settings \<Rightarrow> tunnel_config_error + bastion_config" where
  "bastion_of env c s =
     (let auth = (case tu_auth c of
          AuthAgent \<Rightarrow> BastionAgent
        | AuthKey p \<Rightarrow> BastionKey p
            (let value = raw_setting s ''SSH_KEY_PASSPHRASE'' [] in if value = [] then None else Some value)
        | AuthPassword password \<Rightarrow> BastionPassword password) in
      case known_hosts_path env c of
        Inl e \<Rightarrow> Inl e
      | Inr known \<Rightarrow>
          (let b = with_system_known_hosts (bastion_new (tu_host c) (tu_port c) (tu_user c) auth known);
               b = (case tu_app_known_hosts c of Some app \<Rightarrow> b\<lparr>bc_record_to := Some app\<rparr> | None \<Rightarrow> b);
               b = (case tu_host_key_accept c of
                      Some pin \<Rightarrow> b\<lparr>bc_policy := TrustFingerprint pin\<rparr> | None \<Rightarrow> b)
           in Inr b))"

definition store_files :: "bastion_config \<Rightarrow> store_file list" where
  "store_files b =
     map (\<lambda>p. \<lparr>sf_path = p, sf_origin = (if p = SYSTEM_KNOWN_HOSTS then OriginSystem else OriginUser)\<rparr>)
       (bc_known_hosts b) @
     (case bc_record_to b of Some p \<Rightarrow> [\<lparr>sf_path = p, sf_origin = OriginApp\<rparr>] | None \<Rightarrow> [])"

definition USAGE_PIN :: bytes where
  "USAGE_PIN = ''the host key to trust must be a SHA256:<43 base64 characters> fingerprint''"

definition verifier_new :: "bastion_config \<Rightarrow> verifier" where
  "verifier_new b =
     \<lparr>v_host = bc_host b, v_port = unat (bc_port b), v_files = store_files b,
        v_fallback = (case bc_record_to b of
            Some p \<Rightarrow> p | None \<Rightarrow> (case bc_known_hosts b of p # _ \<Rightarrow> p | [] \<Rightarrow> [])),
        v_record_to = bc_record_to b, v_policy = bc_policy b, v_verified = False, v_abandoned = False\<rparr>"

text \<open>
  \<open>Tunnel::open\<close> up to the network: what it refuses, the key types on record, which it offers first, and the
  verifier it hands to the transport.
\<close>

definition open_verifier :: "ssh_fns \<Rightarrow> ssh_world \<Rightarrow> bastion_config \<Rightarrow> ssh_error + bytes list \<times> verifier" where
  "open_verifier sk w b =
     (let r = (case recorded_key_types sk w (store_files b) (bc_host b) (unat (bc_port b)) of
          Inl e \<Rightarrow> Inl e | Inr recorded \<Rightarrow> Inr (recorded, verifier_new b)) in
      case bc_policy b of
        TrustFingerprint pin \<Rightarrow>
          if \<not> is_fingerprint pin then Inl (SshUsage USAGE_PIN)
          else if bc_record_to b = None then Inl (SshUsage USAGE_RECORD)
          else r
      | _ \<Rightarrow> r)"

text \<open>\<open>check_server_key\<close>: what the transport asks when the server presents its key.\<close>

datatype presented = PresentedKey bytes | PresentedCertificate bytes

definition check_server_key :: "ssh_fns \<Rightarrow> ssh_world \<Rightarrow> verifier \<Rightarrow> presented \<Rightarrow> (ssh_error + bool) \<times> ssh_world \<times> verifier" where
  "check_server_key sk w v p =
     (case p of
        PresentedKey blob \<Rightarrow>
          (case from_blob blob of
             Inl e \<Rightarrow> (Inl e, w, v)
           | Inr key \<Rightarrow> verifier_decide sk w v key)
      | PresentedCertificate blob \<Rightarrow>
          (Inl (HostCertificateUnsupported (v_host v) (v_port v) (fingerprint sk blob)), w, v))"

text \<open>\<open>require_verified\<close>: what stands between the key exchange and the authentication.\<close>

definition require_verified :: "verifier \<Rightarrow> ssh_error + unit" where
  "require_verified v = (if v_verified v then Inr () else Inl HostKeyNotVerified)"

section \<open>What a person is told\<close>

definition record_place :: "recorded_key \<Rightarrow> bytes" where
  "record_place r =
     (case (rk_file r, rk_origin r) of
        (Some f, Some OriginSystem) \<Rightarrow>
          '' in '' @ f @ '' line '' @ nat_bytes (recorded_key.rk_line r) @ '', which only an administrator can change''
      | (Some f, _) \<Rightarrow> '' in '' @ f @ '' line '' @ nat_bytes (recorded_key.rk_line r)
      | (None, _) \<Rightarrow> [])"

text \<open>The files a person may edit, each once.\<close>

fun editable_files :: "recorded_key list \<Rightarrow> path list \<Rightarrow> path list" where
  "editable_files [] files = files"
| "editable_files (r # rs) files =
     editable_files rs
       (case (rk_file r, rk_origin r) of
          (Some f, Some og) \<Rightarrow> if og \<noteq> OriginSystem \<and> f \<notin> set files then files @ [f] else files
        | _ \<Rightarrow> files)"

definition changed_detail :: "ssh_fns \<Rightarrow> bytes \<Rightarrow> nat \<Rightarrow> server_key \<Rightarrow> recorded_key list \<Rightarrow> bytes" where
  "changed_detail sk host port key recorded =
     ''the server presented '' @ key_type key @ '' '' @ fingerprint sk (key_blob key) @
     '', but what is on record is different: '' @
     join ''; '' (map (\<lambda>r. rk_type r @ '' '' @ fingerprint sk (rk_blob r) @ record_place r) recorded) @ ''.'' @
     (let files = editable_files recorded [] in
      if files = [] then []
      else '' If the administrator confirms the key was replaced, check the new fingerprint with them first, then remove the old record yourself (a copy is kept as known_hosts.old): '' @
        join ''  ;  '' (map (remove_command host port) files))"

definition host_port :: "bytes \<Rightarrow> nat \<Rightarrow> bytes" where
  "host_port host port = host @ '':'' @ nat_bytes port"

fun ssh_error_text :: "ssh_fns \<Rightarrow> bytes \<Rightarrow> ssh_error \<Rightarrow> bytes" where
  "ssh_error_text sk io (MalformedKnownHosts f line) =
     f @ '' line '' @ nat_bytes line @ '' is not a known_hosts line ssh would accept''"
| "ssh_error_text sk io (KnownHostsUnreadable p) = ''cannot read '' @ p @ '': '' @ io"
| "ssh_error_text sk io MalformedKeyBlob = ''not an SSH public key blob''"
| "ssh_error_text sk io (HostKeyStoreUnsafe p reason) =
     p @ '' '' @ reason @ ''; it must be a regular file you own with mode 600 (chmod 600 on it)''"
| "ssh_error_text sk io SshIo = io"
| "ssh_error_text sk io (SshUsage m) = m"
| "ssh_error_text sk io HostKeyNotVerified =
     ''the bastion connection was not host-key verified, so authentication was not attempted''"
| "ssh_error_text sk io (HostKeyUnknown host port p key covered) =
     ''host key for '' @ host_port host port @ '' is not known: '' @ fingerprint sk (key_blob key)"
| "ssh_error_text sk io (HostKeyMismatch host port p key recorded) =
     ''host key for '' @ host_port host port @ '' changed: '' @ changed_detail sk host port key recorded"
| "ssh_error_text sk io (HostKeyRevoked host port p line) =
     ''the key for '' @ host_port host port @ '' is revoked in '' @ p @ '' at line '' @ nat_bytes line"
| "ssh_error_text sk io (HostKeyCertificateExpected host port key p) =
     host_port host port @ '' is covered by a @cert-authority line but presented a plain key ('' @
     fingerprint sk (key_blob key) @ ''); edit that line if the host is no longer CA-managed''"
| "ssh_error_text sk io (HostKeyPinMismatch host port key presented pinned) =
     host_port host port @ '' presented '' @ presented @ '', not the pinned '' @ pinned"
| "ssh_error_text sk io (HostKeyRecordFailed host port key p e) =
     ''could not record the host key for '' @ host_port host port @ '' in '' @ p @ '': '' @ ssh_error_text sk io e"
| "ssh_error_text sk io (HostCertificateUnsupported host port fp) =
     host_port host port @ '' presented a host certificate, which this build cannot verify''"

definition describe :: "ssh_fns \<Rightarrow> bytes \<Rightarrow> ssh_error \<Rightarrow> bytes" where
  "describe sk io e =
     (case e of
        HostKeyUnknown host port p key covered \<Rightarrow>
          ''the host key of the bastion '' @ host_port host port @ '' is not in '' @ p @ '': '' @ key_type key @ '' '' @
          fingerprint sk (key_blob key) @
          (if covered then '' (a @cert-authority line covers this host, but this build does not verify host certificates)''
           else []) @
          ''. Trust-on-first-use needs a person to confirm the fingerprint, and this engine's protocol cannot ask: verify the fingerprint out of band, add the key to that file (e.g. `ssh-keyscan -p '' @
          nat_bytes port @ '' '' @ host @
          ''`), or set SSH_KNOWN_HOSTS to a file that has it, then connect again''
      | _ \<Rightarrow> ssh_error_text sk io e)"

definition recorded_host_key_of :: "ssh_fns \<Rightarrow> recorded_key \<Rightarrow> recorded_host_key" where
  "recorded_host_key_of sk r =
     recorded_host_key.make (fingerprint sk (rk_blob r)) (rk_type r)
       (origin_str (case rk_origin r of Some og \<Rightarrow> og | None \<Rightarrow> OriginApp))
       (case rk_file r of Some f \<Rightarrow> f | None \<Rightarrow> [])
       (if recorded_key.rk_line r < 2 ^ 32 then of_nat (recorded_key.rk_line r) else - 1)"

definition failure_base :: "ssh_fns \<Rightarrow> bytes \<Rightarrow> ssh_error \<Rightarrow> tunnel_config \<Rightarrow> host_key_failure" where
  "failure_base sk io e c =
     \<lparr>hk_message = describe sk io e, hk_state = HKUnknown, hk_host = tu_host c, hk_port = tu_port c,
      hk_alias = tu_alias c, hk_key_type = None, hk_fingerprint = None, hk_app_known_hosts = tu_app_known_hosts c,
      hk_ca_covered = False, hk_recorded = [], hk_pinned = None\<rparr>"

definition at_host :: "bytes \<Rightarrow> nat \<Rightarrow> host_key_failure \<Rightarrow> host_key_failure" where
  "at_host host port f = f\<lparr>hk_host := host, hk_port := of_nat port\<rparr>"

definition with_key :: "ssh_fns \<Rightarrow> server_key \<Rightarrow> host_key_failure \<Rightarrow> host_key_failure" where
  "with_key sk key f = f\<lparr>hk_key_type := Some (key_type key), hk_fingerprint := Some (fingerprint sk (key_blob key))\<rparr>"

definition host_key_failure_of :: "ssh_fns \<Rightarrow> bytes \<Rightarrow> ssh_error \<Rightarrow> tunnel_config \<Rightarrow> host_key_failure option" where
  "host_key_failure_of sk io e c =
     (let f = failure_base sk io e c in
      case e of
        HostKeyUnknown host port p key covered \<Rightarrow>
          Some (with_key sk key (at_host host port f\<lparr>hk_state := HKUnknown, hk_ca_covered := covered\<rparr>))
      | HostKeyMismatch host port p key recorded \<Rightarrow>
          Some ((with_key sk key (at_host host port f\<lparr>hk_state := HKChanged\<rparr>))
            \<lparr>hk_recorded := map (recorded_host_key_of sk) recorded\<rparr>)
      | HostKeyRevoked host port p line \<Rightarrow> Some (at_host host port f\<lparr>hk_state := HKRevoked\<rparr>)
      | HostCertificateUnsupported host port fp \<Rightarrow>
          Some ((at_host host port f\<lparr>hk_state := HKCertificate\<rparr>)\<lparr>hk_fingerprint := Some fp\<rparr>)
      | HostKeyCertificateExpected host port key p \<Rightarrow>
          Some (with_key sk key ((at_host host port f\<lparr>hk_state := HKCertificateExpected\<rparr>)\<lparr>hk_ca_covered := True\<rparr>))
      | HostKeyPinMismatch host port key presented pinned \<Rightarrow>
          Some ((with_key sk key (at_host host port f\<lparr>hk_state := HKPinMismatch\<rparr>))
            \<lparr>hk_fingerprint := Some presented, hk_pinned := Some pinned\<rparr>)
      | HostKeyRecordFailed host port key p cause \<Rightarrow>
          Some (with_key sk key (at_host host port f\<lparr>hk_state := HKRecordFailed\<rparr>))
      | HostKeyStoreUnsafe p reason \<Rightarrow> Some (f\<lparr>hk_state := HKStoreUnsafe\<rparr>)
      | _ \<Rightarrow> None)"

definition refused :: "ssh_fns \<Rightarrow> bytes \<Rightarrow> ssh_error \<Rightarrow> tunnel_config \<Rightarrow> engine_error" where
  "refused sk io e c =
     (case host_key_failure_of sk io e c of
        Some f \<Rightarrow> HostKey f
      | None \<Rightarrow> Connect (describe sk io e) Permanent)"

end
