(* ===== verification/SshAlias.thy ===== *)
theory SshAlias
  imports SshConfig
begin

text \<open>
  What the loader and the resolver of \<^verbatim>\<open>ssh_config.rs\<close> promise: the items of a loaded file are those of a
  tree of included files, an alias is resolved by the scopes of that tree, no directive that applies is
  passed over, and loading stays within its limits whatever the files include.
\<close>

section \<open>The tree of included files\<close>

datatype ssh_node = NodeHost "bytes list" | NodeDirective ssh_directive | NodeFile "ssh_node list"

fun flatten_node :: "ssh_node \<Rightarrow> ssh_item list" and flatten_nodes :: "ssh_node list \<Rightarrow> ssh_item list" where
  "flatten_node (NodeHost pats) = [ItHost pats]"
| "flatten_node (NodeDirective d) = [ItDirective d]"
| "flatten_node (NodeFile ns) = ItEnter # flatten_nodes ns @ [ItLeave]"
| "flatten_nodes [] = []"
| "flatten_nodes (n # ns) = flatten_node n @ flatten_nodes ns"

text \<open>
  Whether some \<open>Host\<close> line names the alias, and the directives that apply to it. \<open>scope\<close> is whether the line
  that included this file applied, \<open>active\<close> whether the block that is being read does. An included file is
  read in the state of its line and leaves it as it was.
\<close>

fun apply_nodes :: "bytes \<Rightarrow> bool \<Rightarrow> bool \<Rightarrow> ssh_node list \<Rightarrow> bool \<times> ssh_directive list" where
  "apply_nodes alias scope active [] = (False, [])"
| "apply_nodes alias scope active (NodeHost pats # ns) =
     (let m = (if scope then block_matches pats alias else None);
          rest = apply_nodes alias scope (m \<noteq> None) ns
      in (m = Some True \<or> fst rest, snd rest))"
| "apply_nodes alias scope active (NodeDirective d # ns) =
     (let rest = apply_nodes alias scope active ns in (fst rest, if active then d # snd rest else snd rest))"
| "apply_nodes alias scope active (NodeFile ms # ns) =
     (let inside = apply_nodes alias active active ms; rest = apply_nodes alias scope active ns
      in (fst inside \<or> fst rest, snd inside @ snd rest))"

text \<open>Nothing of a file that is included where the block does not apply applies, its own \<open>Host\<close> lines included.\<close>

lemma apply_nodes_inactive: "\<not> scope \<Longrightarrow> \<not> active \<Longrightarrow> apply_nodes alias scope active ns = (False, [])"
  by (induction "alias" scope active ns rule: apply_nodes.induct) (simp_all add: Let_def)

lemma flatten_nodes_append [simp]: "flatten_nodes (ns @ ms) = flatten_nodes ns @ flatten_nodes ms"
  by (induction ns) simp_all

definition top_scope :: "ssh_walk \<Rightarrow> bool" where
  "top_scope w = (case wk_scopes w of [] \<Rightarrow> True | b # bs \<Rightarrow> b)"

lemma walk_nodes:
  "top_scope w = scope \<Longrightarrow> wk_active w = active \<Longrightarrow>
   \<exists>act. fold (walk_item alias) (flatten_nodes ns) w =
     w\<lparr>wk_named := wk_named w \<or> fst (apply_nodes alias scope active ns),
       wk_applying := wk_applying w @ snd (apply_nodes alias scope active ns), wk_active := act\<rparr>"
proof (induction "alias" scope active ns arbitrary: w rule: apply_nodes.induct)
  case (1 nick scope active)
  then show ?case by (intro exI [of _ active]) simp
next
  case (2 nick scope active pats ns)
  let ?w = "walk_item nick (ItHost pats) w" and ?m = "if scope then block_matches pats nick else None"
  have "top_scope ?w = scope" "wk_active ?w = (?m \<noteq> None)"
    "wk_named ?w = (wk_named w \<or> ?m = Some True)" "wk_applying ?w = wk_applying w"
    using 2(2) by (auto simp: top_scope_def Let_def split: option.splits list.splits if_splits)
  with 2(1) [OF refl, of ?w] show ?case
    by (auto simp: Let_def top_scope_def split: option.splits list.splits if_splits)
next
  case (3 nick scope active d ns)
  let ?w = "walk_item nick (ItDirective d) w"
  have "top_scope ?w = scope" "wk_active ?w = active" using 3(2,3) by (simp_all add: top_scope_def)
  with 3(1) [of ?w] 3(3) show ?case by (auto simp: Let_def)
next
  case (4 nick scope active ms ns)
  let ?w = "w\<lparr>wk_scopes := wk_active w # wk_scopes w\<rparr>"
  have "top_scope ?w = active" "wk_active ?w = active" using 4(4) by (simp_all add: top_scope_def)
  from 4(1) [OF this] obtain a where a: "fold (walk_item nick) (flatten_nodes ms) ?w =
      ?w\<lparr>wk_named := wk_named ?w \<or> fst (apply_nodes nick active active ms),
        wk_applying := wk_applying ?w @ snd (apply_nodes nick active active ms), wk_active := a\<rparr>" by blast
  let ?v = "w\<lparr>wk_named := wk_named w \<or> fst (apply_nodes nick active active ms),
      wk_applying := wk_applying w @ snd (apply_nodes nick active active ms), wk_active := active\<rparr>"
  have "top_scope ?v = scope" "wk_active ?v = active" using 4(3,4) by (simp_all add: top_scope_def)
  from 4(2) [OF refl this] obtain act where "fold (walk_item nick) (flatten_nodes ns) ?v =
      ?v\<lparr>wk_named := wk_named ?v \<or> fst (apply_nodes nick scope active ns),
        wk_applying := wk_applying ?v @ snd (apply_nodes nick scope active ns), wk_active := act\<rparr>" by blast
  with a 4(4) show ?case by (intro exI [of _ act]) (simp add: Let_def)
qed

lemma walk_items_tree:
  "wk_named (walk_items alias (flatten_nodes ns)) = fst (apply_nodes alias True True ns)"
  "wk_applying (walk_items alias (flatten_nodes ns)) = snd (apply_nodes alias True True ns)"
  using walk_nodes [of walk_new True True "alias" ns] by (auto simp: walk_items_def walk_new_def top_scope_def)

section \<open>Loading\<close>

text \<open>What loading more adds: the items of a list of nodes, and never past the limits.\<close>

definition within :: "ssh_loader \<Rightarrow> bool" where
  "within ld \<longleftrightarrow> ld_files ld \<le> MAX_FILES \<and> ld_lines ld \<le> MAX_LINES"

definition grows :: "ssh_loader \<Rightarrow> ssh_loader \<Rightarrow> bool" where
  "grows ld ld' \<longleftrightarrow>
     (\<exists>ns. sc_items (ld_config ld') = sc_items (ld_config ld) @ flatten_nodes ns) \<and>
     sc_home (ld_config ld') = sc_home (ld_config ld) \<and> (within ld \<longrightarrow> within ld')"

lemma grows_refl [intro, simp]: "grows ld ld"
  unfolding grows_def by (auto intro: exI [of _ "[]"])

lemma grows_trans [trans]: "grows ld ld1 \<Longrightarrow> grows ld1 ld2 \<Longrightarrow> grows ld ld2"
  unfolding grows_def by (auto simp flip: flatten_nodes_append)

lemma grows_push:
  "grows ld (push_item (ItHost pats) ld)" "grows ld (push_item (ItDirective d) ld)"
  by (auto simp: grows_def push_item_def within_def
      intro: exI [of _ "[NodeHost pats]"] exI [of _ "[NodeDirective d]"])

lemma grows_mark: "grows ld (mark_match p line ld)" "grows ld (mark_include p line ld)"
  by (auto simp: grows_def mark_match_def mark_include_def within_def Let_def intro: exI [of _ "[]"])

lemma grows_file: "grows (push_item ItEnter ld) ld' \<Longrightarrow> grows ld (push_item ItLeave ld')"
proof -
  assume g: "grows (push_item ItEnter ld) ld'"
  then obtain ns where "sc_items (ld_config ld') = sc_items (ld_config ld) @ ItEnter # flatten_nodes ns"
    by (auto simp: grows_def push_item_def)
  with g show ?thesis
    by (auto simp: grows_def push_item_def within_def intro!: exI [of _ "[NodeFile ns]"])
qed

lemma reading_grows:
  "read_file disk home left p ld = Inr ld' \<Longrightarrow> grows ld ld'"
  "read_lines disk home left p line raws ld = Inr ld' \<Longrightarrow> grows ld ld'"
  "read_args disk home left p line args ld = Inr ld' \<Longrightarrow> grows ld ld'"
  "read_files disk home left fs ld = Inr ld' \<Longrightarrow> grows ld ld'"
proof (induction disk home left p ld and disk home left p line raws ld and disk home left p line args ld
    and disk home left fs ld arbitrary: ld' and ld' and ld' and ld'
    rule: read_file_read_lines_read_args_read_files.induct)
  case (2 disk home left p ld)
  let ?ld = "ld\<lparr>ld_files := ld_files ld + 1\<rparr>"
  from 2(2) show ?case
  proof (cases "ld' = ld")
    case False
    with 2(2) obtain len s where few: "ld_files ld < MAX_FILES"
      and "pd_meta disk p = Meta True len" "\<not> MAX_FILE_BYTES < len" "pd_text disk p = Inr s"
      and r: "read_lines disk home left p 1 (text_lines s) ?ld = Inr ld'"
      by (auto simp: read_file.simps split: if_splits file_meta.splits sum.splits)
    with 2(1) have "grows ?ld ld'" by auto
    with few show ?thesis by (simp add: grows_def within_def)
  qed simp
next
  case (4 disk home left p line raw raws ld)
  let ?ld = "ld\<lparr>ld_lines := ld_lines ld + 1\<rparr>"
  have few: "\<not> MAX_LINES < ld_lines ld + 1" using "4.prems" by (auto simp: read_lines.simps split: if_splits)
  have step: "grows ld ?ld" using few by (auto simp: grows_def within_def intro: exI [of _ "[]"])
  obtain t where t: "tokenize raw = Some t"
    using "4.prems" few by (auto simp: read_lines.simps Let_def split: option.splits)
  show ?case
  proof (cases t)
    case None
    with "4.prems" few t have "read_lines disk home left p (line + 1) raws ?ld = Inr ld'"
      by (simp add: read_lines.simps)
    from "4.IH"(1) [OF few refl t None this] step show ?thesis by (rule grows_trans [rotated])
  next
    case (Some na)
    obtain name args where na: "na = (name, args)" by force
    let ?key = "to_ascii_lowercase name"
    note unfolded = "4.prems" few t Some na
    consider (host) "?key = ''host''" | (mtch) "?key = ''match''" | (incl) "?key = ''include''"
      | (dir) "?key \<noteq> ''host''" "?key \<noteq> ''match''" "?key \<noteq> ''include''" by blast
    then show ?thesis
    proof cases
      case host
      with unfolded have ne: "args \<noteq> []"
        and r: "read_lines disk home left p (line + 1) raws (push_item (ItHost args) ?ld) = Inr ld'"
        by (auto simp: read_lines.simps split: if_splits)
      have "grows (push_item (ItHost args) ?ld) ld'"
        by (rule "4.IH"(2) [OF few refl t Some na [symmetric] refl host ne r])
      with step grows_push(1) show ?thesis by (blast intro: grows_trans)
    next
      case mtch
      with unfolded
      have r: "read_lines disk home left p (line + 1) raws (push_item (ItHost []) (mark_match p line ?ld)) = Inr ld'"
        by (simp add: read_lines.simps)
      have "grows (push_item (ItHost []) (mark_match p line ?ld)) ld'"
        by (rule "4.IH"(3) [OF few refl t Some na [symmetric] refl _ mtch r]) (simp add: mtch)
      with step grows_mark(1) grows_push(1) show ?thesis by (blast intro: grows_trans)
    next
      case incl
      with unfolded obtain ld1 where ne: "args \<noteq> []" and a: "read_args disk home left p line args ?ld = Inr ld1"
        and r: "read_lines disk home left p (line + 1) raws ld1 = Inr ld'"
        by (auto simp: read_lines.simps split: if_splits sum.splits)
      have "grows ?ld ld1"
        by (rule "4.IH"(4) [OF few refl t Some na [symmetric] refl _ _ incl ne a]) (simp_all add: incl)
      also have "grows ld1 ld'"
        by (rule "4.IH"(5) [OF few refl t Some na [symmetric] refl _ _ incl ne a r]) (simp_all add: incl)
      finally show ?thesis by (rule grows_trans [OF step])
    next
      case dir
      let ?d = "\<lparr>sd_name = name, sd_key = ?key, sd_args = args, sd_file = p, sd_line = line\<rparr>"
      from dir unfolded have r: "read_lines disk home left p (line + 1) raws (push_item (ItDirective ?d) ?ld) = Inr ld'"
        by (simp add: read_lines.simps)
      have "grows (push_item (ItDirective ?d) ?ld) ld'"
        by (rule "4.IH"(6) [OF few refl t Some na [symmetric] refl dir r])
      with step grows_push(2) show ?thesis by (blast intro: grows_trans)
    qed
  qed
next
  case (6 disk home left p line arg args ld)
  show ?case
  proof (cases "include_is_unsupported arg")
    case True
    with "6.prems" have "read_args disk home left p line args (mark_include p line ld) = Inr ld'"
      by (simp add: read_args.simps)
    from "6.IH"(1) [OF True this] show ?thesis by (rule grows_trans [OF grows_mark(2)])
  next
    case False
    with "6.prems" obtain found ld1 where f: "expand_include disk home arg = Inr found"
      and a: "read_files disk home left found ld = Inr ld1" and r: "read_args disk home left p line args ld1 = Inr ld'"
      by (auto simp: read_args.simps split: sum.splits)
    from "6.IH"(2) [OF False f a] "6.IH"(3) [OF False f a r] show ?thesis by (rule grows_trans)
  qed
next
  case (8 disk home left f fs ld)
  then obtain ld1 where f: "read_file disk home left f (push_item ItEnter ld) = Inr ld1"
    and r: "read_files disk home left fs (push_item ItLeave ld1) = Inr ld'"
    by (auto simp: read_files.simps split: sum.splits)
  from grows_file [OF "8.IH"(1) [OF f]] "8.IH"(2) [OF f r] show ?case by (rule grows_trans)
qed (simp_all add: read_file.simps read_lines.simps read_args.simps read_files.simps)

section \<open>Resolving\<close>

text \<open>
  The directives a resolution does not refuse: those it takes a value from, those that cannot change where a
  connection goes, whom it trusts or what it offers, and two settings no weaker than the engine's own.
\<close>

definition supported :: "ssh_directive \<Rightarrow> bool" where
  "supported d \<longleftrightarrow>
     sd_key d \<in> {''hostname'', ''user'', ''port'', ''identityfile''} \<or> sd_key d \<in> set COSMETIC \<or>
     sd_key d = ''stricthostkeychecking'' \<and> (\<exists>x. sd_args d = [x] \<and> to_ascii_lowercase x \<in> {''yes'', ''ask''}) \<or>
     sd_key d = ''identitiesonly'' \<and> (\<exists>x. sd_args d = [x] \<and> eq_ignore_ascii_case x ''no'')"

text \<open>The values given for a keyword, in the order they are read.\<close>

definition values_of :: "bytes \<Rightarrow> ssh_directive list \<Rightarrow> bytes list" where
  "values_of key ds = concat (map sd_args (filter (\<lambda>d. sd_key d = key) ds))"

definition first :: "'a list \<Rightarrow> 'a option" where
  "first xs = (case xs of [] \<Rightarrow> None | x # _ \<Rightarrow> Some x)"

lemma single_Inr: "single d = Inr x \<longleftrightarrow> sd_args d = [x]"
  by (auto simp: single_def split: list.splits)

lemma read_directive_supported: "read_directive alias d v = Inr v' \<Longrightarrow> supported d"
  by (auto simp: read_directive_def supported_def single_Inr split: if_splits sum.splits)

lemma read_directive_values:
  assumes "read_directive alias d v = Inr v'"
  shows
    "sv_user v' = (if sd_key d = ''user'' then (case sv_user v of None \<Rightarrow> first (sd_args d) | u \<Rightarrow> u) else sv_user v)"
    "sv_port v' = (if sd_key d = ''port'' then
       (case sv_port v of None \<Rightarrow> Option.bind (first (sd_args d)) (parse_int_in 0 65535) | n \<Rightarrow> n) else sv_port v)"
    "map fst (sv_identity_raw v') =
       map fst (sv_identity_raw v) @ (if sd_key d = ''identityfile'' then sd_args d else [])"
    "sd_key d = ''port'' \<Longrightarrow> \<exists>x n. sd_args d = [x] \<and> parse_int_in 0 65535 x = Some n"
    "sd_key d = ''user'' \<Longrightarrow> \<exists>x. sd_args d = [x]"
    "sd_key d = ''hostname'' \<Longrightarrow> \<exists>x h. sd_args d = [x] \<and> expand x alias None = Inr h \<and>
       sv_host_name v' = Some (case sv_host_name v of None \<Rightarrow> h | Some g \<Rightarrow> g)"
    "sd_key d \<noteq> ''hostname'' \<Longrightarrow> sv_host_name v' = sv_host_name v"
  using assms
  by (auto simp: read_directive_def single_Inr get_or_insert_def first_def split: if_splits sum.splits option.splits)

lemma read_directives_ok:
  assumes "read_directives alias ds v = Inr v'"
  shows "list_all supported ds"
    and "sv_user v' = (case sv_user v of None \<Rightarrow> first (values_of ''user'' ds) | u \<Rightarrow> u)"
    and "sv_port v' = (case sv_port v of
       None \<Rightarrow> Option.bind (first (values_of ''port'' ds)) (parse_int_in 0 65535) | n \<Rightarrow> n)"
    and "map fst (sv_identity_raw v') = map fst (sv_identity_raw v) @ values_of ''identityfile'' ds"
    and "case sv_host_name v of
       Some h \<Rightarrow> sv_host_name v' = Some h
     | None \<Rightarrow> (case values_of ''hostname'' ds of
         [] \<Rightarrow> sv_host_name v' = None
       | x # _ \<Rightarrow> \<exists>h. expand x alias None = Inr h \<and> sv_host_name v' = Some h)"
  using assms
proof (induction ds arbitrary: v)
  case Nil
  {
    case 1 then show ?case by simp
  next
    case 2 then show ?case by (simp add: values_of_def first_def split: option.splits)
  next
    case 3 then show ?case by (simp add: values_of_def first_def split: option.splits)
  next
    case 4 then show ?case by (simp add: values_of_def)
  next
    case 5 then show ?case by (simp add: values_of_def split: option.splits)
  }
next
  case (Cons d ds)
  have step: "\<exists>v1. read_directive alias d v = Inr v1 \<and> read_directives alias ds v1 = Inr v'"
    if "read_directives alias (d # ds) v = Inr v'" for v
    using that by (auto split: sum.splits)
  {
    case 1
    with step Cons.IH(1) read_directive_supported show ?case by fastforce
  next
    case 2
    then obtain v1 where v1: "read_directive alias d v = Inr v1" "read_directives alias ds v1 = Inr v'"
      using step by blast
    from Cons.IH(2) [OF v1(2)] read_directive_values(1,5) [OF v1(1)] show ?case
      by (auto simp: values_of_def first_def split: option.splits)
  next
    case 3
    then obtain v1 where v1: "read_directive alias d v = Inr v1" "read_directives alias ds v1 = Inr v'"
      using step by blast
    from Cons.IH(3) [OF v1(2)] read_directive_values(2,4) [OF v1(1)] show ?case
      by (auto simp: values_of_def first_def split: option.splits)
  next
    case 4
    then obtain v1 where v1: "read_directive alias d v = Inr v1" "read_directives alias ds v1 = Inr v'"
      using step by blast
    from Cons.IH(4) [OF v1(2)] read_directive_values(3) [OF v1(1)] show ?case by (simp add: values_of_def)
  next
    case 5
    then obtain v1 where v1: "read_directive alias d v = Inr v1" "read_directives alias ds v1 = Inr v'"
      using step by blast
    from Cons.IH(5) [OF v1(2)] read_directive_values(6,7) [OF v1(1)] show ?case
      by (cases "sd_key d = ''hostname''") (auto simp: values_of_def split: option.splits list.splits)
  }
qed

lemma sequence_length: "sequence_results rs = Inr xs \<Longrightarrow> length xs = length rs"
  by (induction rs arbitrary: xs) (auto split: sum.splits)

section \<open>The promises\<close>

lemma loaded_tree:
  assumes "load_in disk p home = Inr cfg"
  shows "\<exists>ns. sc_items cfg = flatten_nodes ns"
  using assms by (auto simp: load_in_def grows_def split: sum.splits dest!: reading_grows(1))

lemma resolve_steps:
  assumes "resolve cfg alias = Inr r" "sc_items cfg = flatten_nodes ns"
  obtains ds v where "apply_nodes alias True True ns = (True, ds)"
    and "read_directives alias ds \<lparr>sv_host_name = None, sv_user = None, sv_port = None, sv_identity_raw = []\<rparr> = Inr v"
    and "rs_host_name r = (case sv_host_name v of Some h \<Rightarrow> h | None \<Rightarrow> alias)"
    and "rs_user r = sv_user v" "rs_port r = sv_port v"
    and "length (rs_identity_files r) = length (sv_identity_raw v)"
proof -
  let ?w = "walk_items alias (sc_items cfg)"
  from assms(1) obtain v where named: "wk_named ?w"
    and v: "read_directives alias (wk_applying ?w)
      \<lparr>sv_host_name = None, sv_user = None, sv_port = None, sv_identity_raw = []\<rparr> = Inr v"
    and r: "rs_host_name r = (case sv_host_name v of Some h \<Rightarrow> h | None \<Rightarrow> alias)"
      "rs_user r = sv_user v" "rs_port r = sv_port v" "length (rs_identity_files r) = length (sv_identity_raw v)"
    by (auto simp: resolve_def Let_def dest!: sequence_length split: option.splits if_splits sum.splits)
  have "apply_nodes alias True True ns = (True, wk_applying ?w)"
    using named walk_items_tree [of "alias" ns] by (simp add: assms(2) prod_eq_iff)
  from that [OF this v r] show ?thesis .
qed

text \<open>A config of one block, which includes a file with a block of its own.\<close>

definition demo_disk :: ssh_disk where
  "demo_disk = \<lparr>pd_meta = (\<lambda>p. if p = ''/c'' \<or> p = ''/b'' then Meta True 30 else MetaMissing),
     pd_text = (\<lambda>p. Inr (if p = ''/c'' then ''Host a'' @ [CHR 0x0A] @ ''Include /b'' @ [CHR 0x0A] @ ''User u''
       else ''HostName h'' @ [CHR 0x0A] @ ''Host z'')), pd_dir = (\<lambda>p. None)\<rparr>"

definition demo_config :: ssh_config where
  "demo_config = \<lparr>sc_items = [ItHost [''a''], ItEnter,
       ItDirective \<lparr>sd_name = ''HostName'', sd_key = ''hostname'', sd_args = [''h''], sd_file = ''/b'', sd_line = 1\<rparr>,
       ItHost [''z''], ItLeave,
       ItDirective \<lparr>sd_name = ''User'', sd_key = ''user'', sd_args = [''u''], sd_file = ''/c'', sd_line = 3\<rparr>],
     sc_match_at = None, sc_include_at = None, sc_home = None\<rparr>"

lemma demo_lines:
  "text_lines (''Host a'' @ [CHR 0x0A] @ ''Include /b'' @ [CHR 0x0A] @ ''User u'') = [''Host a'', ''Include /b'', ''User u'']"
  "text_lines (''HostName h'' @ [CHR 0x0A] @ ''Host z'') = [''HostName h'', ''Host z'']"
  by code_simp+

lemma demo_tokens:
  "tokenize ''Host a'' = Some (Some (''Host'', [''a'']))"
  "tokenize ''Include /b'' = Some (Some (''Include'', [''/b'']))"
  "tokenize ''User u'' = Some (Some (''User'', [''u'']))"
  "tokenize ''HostName h'' = Some (Some (''HostName'', [''h'']))"
  "tokenize ''Host z'' = Some (Some (''Host'', [''z'']))"
  by code_simp+

lemma demo_words:
  "to_ascii_lowercase ''Host'' = ''host''" "to_ascii_lowercase ''Include'' = ''include''"
  "to_ascii_lowercase ''User'' = ''user''" "to_ascii_lowercase ''HostName'' = ''hostname''"
  "\<not> include_is_unsupported ''/b''" "expand_include demo_disk None ''/b'' = Inr [''/b'']"
  by code_simp+

lemma demo_reads:
  "pd_meta demo_disk ''/c'' = Meta True 30" "pd_meta demo_disk ''/b'' = Meta True 30"
  "pd_text demo_disk ''/c'' = Inr (''Host a'' @ [CHR 0x0A] @ ''Include /b'' @ [CHR 0x0A] @ ''User u'')"
  "pd_text demo_disk ''/b'' = Inr (''HostName h'' @ [CHR 0x0A] @ ''Host z'')"
  by (simp_all add: demo_disk_def)

lemmas demo_facts = demo_reads demo_lines demo_tokens demo_words

lemma depth_steps: "MAX_DEPTH + 1 = Suc (Suc (Suc (Suc (Suc 0))))"
  by (simp add: MAX_DEPTH_def)

lemma demo_loaded: "load_in demo_disk ''/c'' None = Inr demo_config"
  unfolding load_in_def depth_steps
  by (simp add: demo_config_def read_file.simps read_lines.simps read_args.simps read_files.simps
      demo_facts [simplified] MAX_FILES_def MAX_FILE_BYTES_def MAX_LINES_def Let_def push_item_def)

lemma demo_resolved:
  "resolve demo_config ''a'' = Inr \<lparr>rs_host_name = ''h'', rs_user = Some ''u'', rs_port = None, rs_identity_files = []\<rparr>"
proof -
  have "block_matches [''a''] ''a'' = Some True" "block_matches [''z''] ''a'' = None" "to_ascii_lowercase ''a'' = ''a''"
    by (simp_all add: block_matches_def to_ascii_lowercase_def ascii_lower_def is_ascii_uppercase_def strip_prefix_def
        glob_matches_def glob_reference glob_spec_literal)
  then show ?thesis
    by (simp add: resolve_def walk_items_def walk_new_def demo_config_def Let_def read_directive_def single_def
        get_or_insert_def)
qed



lemma pick_aliases_bounded:
  assumes "length names < MAX_ALIASES" "distinct names"
  shows "length (pick_aliases pats names) \<le> MAX_ALIASES \<and> distinct (pick_aliases pats names)"
  using assms by (induction pats arbitrary: names) auto



end
