(* ===== verification/TunnelSafety.thy ===== *)
theory TunnelSafety
  imports TunnelSettings SshAlias HostKeys
begin

text \<open>
  From the \<open>SSH_*\<close> settings to a trusted bastion: what the settings describe is something \<open>Tunnel::open\<close>
  accepts, and the key it then trusts is on record in the files they name or is the one they pin.
\<close>

lemma tunnel_settings_parts:
  assumes "tunnel_settings env s = Inr (Some c)"
  shows "is_valid_host (tu_host c)" "tunnel_pin s = Inr (tu_host_key_accept c)"
    "tu_app_known_hosts c = path_setting s ''SSH_APP_KNOWN_HOSTS''"
    "tu_known_hosts c = path_setting s ''SSH_KNOWN_HOSTS''"
  using assms by (auto simp: tunnel_settings_def Let_def split: if_splits sum.splits option.splits prod.splits)

lemma tunnel_pin_shape:
  assumes "tunnel_pin s = Inr (Some pin)"
  shows "is_fingerprint pin" "path_setting s ''SSH_APP_KNOWN_HOSTS'' \<noteq> None"
    "pin = text_setting s ''SSH_HOST_KEY_ACCEPT'' []"
  using assms by (auto simp: tunnel_pin_def Let_def split: if_splits)

lemma bastion_parts:
  assumes "bastion_of env c s = Inr b"
  shows "bc_host b = tu_host c" "bc_port b = tu_port c" "bc_record_to b = tu_app_known_hosts c"
    "bc_policy b = (case tu_host_key_accept c of Some pin \<Rightarrow> TrustFingerprint pin | None \<Rightarrow> Strict)"
  using assms
  by (auto simp: bastion_of_def Let_def bastion_new_def with_system_known_hosts_def split: sum.splits option.splits)

lemma bastion_opens:
  assumes "tunnel_settings env s = Inr (Some c)" "bastion_of env c s = Inr b"
  shows "\<exists>v. open_verifier sk w0 b = (case recorded_key_types sk w0 (store_files b) (tu_host c) (unat (tu_port c)) of
      Inl e \<Rightarrow> Inl e | Inr recorded \<Rightarrow> Inr (recorded, v)) \<and>
    v_host v = tu_host c \<and> v_port v = unat (tu_port c) \<and> v_files v = store_files b \<and>
    v_record_to v = tu_app_known_hosts c \<and> v_policy v = bc_policy b \<and> \<not> v_verified v"
proof (cases "tu_host_key_accept c")
  case None
  with bastion_parts [OF assms(2)] show ?thesis
    by (intro exI [of _ "verifier_new b"]) (simp add: open_verifier_def verifier_new_def Let_def)
next
  case (Some pin)
  with tunnel_settings_parts [OF assms(1)] have "tunnel_pin s = Inr (Some pin)" by simp
  from tunnel_pin_shape [OF this] obtain app where app: "is_fingerprint pin" "tu_app_known_hosts c = Some app"
    using tunnel_settings_parts(3) [OF assms(1)] by auto
  with bastion_parts [OF assms(2)] Some show ?thesis by (intro exI [of _ "verifier_new b"]) (simp add: open_verifier_def verifier_new_def Let_def)
qed

lemma from_blob_Inr: "from_blob blob = Inr key \<Longrightarrow> key_blob key = blob"
  by (auto simp: from_blob_def split: option.splits)

text \<open>A refused host key is never something the retry layer tries again.\<close>

lemma refused_is_permanent: "kind_of_failure (refused sk io e c) = Permanent"
  by (simp add: refused_def split: option.split)

text \<open>
  C31. A bastion is never trusted silently. What the settings describe is a configuration \<open>Tunnel::open\<close> does
  not refuse, unless a file of known hosts cannot be read; the session it gives is verified only when the server presented a plain key that no readable
  file revokes and that is on record for the host in one of those files, with nothing written, or a host
  that is unknown to all of them presented exactly the key whose fingerprint is \<open>SSH_HOST_KEY_ACCEPT\<close>, which
  is then recorded in \<open>SSH_APP_KNOWN_HOSTS\<close> first. Without that setting nothing is ever recorded.
\<close>
theorem bastion_is_never_trusted_silently:
  assumes "tunnel_settings env s = Inr (Some c)" and "bastion_of env c s = Inr b"
  shows "\<exists>v. open_verifier sk w0 b = (case recorded_key_types sk w0 (store_files b) (tu_host c) (unat (tu_port c)) of
      Inl e \<Rightarrow> Inl e | Inr recorded \<Rightarrow> Inr (recorded, v)) \<and>
    is_valid_host (v_host v) \<and>
    (case check_server_key sk w v p of
       (Inl e, w', v') \<Rightarrow> require_verified v' = Inl HostKeyNotVerified
     | (Inr ok, w', v') \<Rightarrow>
         require_verified v' = Inr () \<and>
         (\<exists>blob es. p = PresentedKey blob \<and>
            all_entries sk (sw_disk w) (sw_euid w) (host_spelling (tu_host c) (unat (tu_port c))) (store_files b) = Some es \<and>
            \<not> list_ex (revokes blob) es \<and>
            (list_ex (holds_key blob) es \<and> w' = w \<or>
             \<not> list_ex (holds_other blob) es \<and> \<not> list_ex names_ca es \<and>
             text_setting s ''SSH_HOST_KEY_ACCEPT'' [] = fingerprint sk blob \<and>
             (\<exists>app written. path_setting s ''SSH_APP_KNOWN_HOSTS'' = Some app \<and>
                append_if_absent sk w app (tu_host c) (unat (tu_port c)) blob = (Inr written, w')))))"
proof -
  obtain v where v: "open_verifier sk w0 b = (case recorded_key_types sk w0 (store_files b) (tu_host c) (unat (tu_port c)) of
      Inl e \<Rightarrow> Inl e | Inr recorded \<Rightarrow> Inr (recorded, v))"
    "v_host v = tu_host c" "v_port v = unat (tu_port c)"
    "v_files v = store_files b" "v_record_to v = tu_app_known_hosts c" "v_policy v = bc_policy b" "\<not> v_verified v"
    using bastion_opens [OF assms, where sk = sk and ?w0.0 = w0] by blast
  note parts = tunnel_settings_parts [OF assms(1)]
  have policy: "v_policy v = (case tu_host_key_accept c of Some pin \<Rightarrow> TrustFingerprint pin | None \<Rightarrow> Strict)"
    using v(6) bastion_parts(4) [OF assms(2)] by simp
  have pin: "pin = text_setting s ''SSH_HOST_KEY_ACCEPT'' []" if "tu_host_key_accept c = Some pin" for pin
    using tunnel_pin_shape(3) parts(2) that by simp
  show ?thesis
  proof (cases "\<exists>blob key. p = PresentedKey blob \<and> from_blob blob = Inr key")
    case True
    then obtain blob key where p: "p = PresentedKey blob" "from_blob blob = Inr key" by blast
    note key = from_blob_Inr [OF p(2)]
    obtain r w' v' where d: "verifier_decide sk w v key = (r, w', v')" by (rule prod_cases3)
    note vouched = decide_vouched [where sk = sk and w = w and v = v and key = key, unfolded d]
    show ?thesis
    proof (cases r)
      case (Inl e)
      with vouched v p d parts(1) show ?thesis
        by (intro exI [of _ v]) (simp add: check_server_key_def require_verified_def)
    next
      case (Inr ok)
      show ?thesis
      proof (cases "tu_host_key_accept c")
        case None
        with Inr vouched v(1-5) p d parts(1) key policy show ?thesis
          by (intro exI [of _ v]) (auto simp: check_server_key_def require_verified_def split: option.splits)
      next
        case (Some pin)
        with Inr vouched v(1-5) p d parts(1,3) pin [OF Some] key policy show ?thesis
          by (intro exI [of _ v]) (auto simp: check_server_key_def require_verified_def split: option.splits)
      qed
    qed
  next
    case False
    with v parts(1) show ?thesis
      by (intro exI [of _ v])
        (auto simp: check_server_key_def require_verified_def split: presented.splits sum.splits)
  qed
qed

text \<open>A home with no files but a \<open>known_hosts\<close> path; the settings name a host and a user.\<close>

definition demo_env :: env where
  "demo_env = \<lparr>en_home = Some ''/h'', en_disk = demo_disk\<rparr>"

definition demo_tunnel_settings :: settings where
  "demo_tunnel_settings = [(''SSH_HOST'', ''b''), (''SSH_USER'', ''u'')]"

definition demo_tunnel :: tunnel_config where
  "demo_tunnel = \<lparr>tu_host = ''b'', tu_port = 22, tu_user = ''u'', tu_auth = AuthAgent, tu_known_hosts = None,
     tu_app_known_hosts = None, tu_host_key_accept = None, tu_alias = None\<rparr>"

definition demo_bastion :: bastion_config where
  "demo_bastion = \<lparr>bc_host = ''b'', bc_port = 22, bc_user = ''u'', bc_auth = BastionAgent,
     bc_known_hosts = [''/h/.ssh/known_hosts'', ''/etc/ssh/ssh_known_hosts''], bc_record_to = None, bc_policy = Strict\<rparr>"

lemma demo_texts:
  "text_setting demo_tunnel_settings ''SSH_HOST'' [] = ''b''"
  "text_setting demo_tunnel_settings ''SSH_USER'' [] = ''u''"
  "text_setting demo_tunnel_settings ''SSH_PORT'' [] = []"
  "text_setting demo_tunnel_settings ''SSH_AUTH_METHOD'' ''agent'' = ''agent''"
  "text_setting demo_tunnel_settings ''SSH_HOST_KEY_ACCEPT'' [] = []"
  "text_setting demo_tunnel_settings ''SSH_KNOWN_HOSTS'' [] = []"
  "text_setting demo_tunnel_settings ''SSH_APP_KNOWN_HOSTS'' [] = []"
  "\<not> flag_setting demo_tunnel_settings ''SSH_USE_CONFIG'' False"
  "is_valid_host ''b''"
  by code_simp+

lemma demo_tunnel_read: "tunnel_settings demo_env demo_tunnel_settings = Inr (Some demo_tunnel)"
  by (simp add: tunnel_settings_def alias_of_def tunnel_user_def tunnel_port_def tunnel_auth_of_def tunnel_pin_def
      path_setting_def number_setting_def demo_texts demo_tunnel_def DEFAULT_SSH_PORT_def Let_def)

lemma demo_bastion_of: "bastion_of demo_env demo_tunnel demo_tunnel_settings = Inr demo_bastion"
  by (simp add: bastion_of_def demo_tunnel_def demo_bastion_def demo_env_def known_hosts_path_def home_file_def
      path_join_def with_system_known_hosts_def bastion_new_def SYSTEM_KNOWN_HOSTS_def prefix_def Let_def)

theorem bastion_is_never_trusted_silently_witness:
  "\<exists>v. open_verifier witness_fns witness_world demo_bastion = (case recorded_key_types witness_fns witness_world (store_files demo_bastion) ''b'' 22 of
      Inl e \<Rightarrow> Inl e | Inr recorded \<Rightarrow> Inr (recorded, v)) \<and> is_valid_host (v_host v)"
  using bastion_is_never_trusted_silently [OF demo_tunnel_read demo_bastion_of, where sk = witness_fns and ?w0.0 = witness_world]
  by (auto simp: demo_tunnel_def)

end
