(* ===== verification/ConnConfig.thy ===== *)
theory ConnConfig
  imports TunnelSettings Values
begin

text \<open>
  From settings to a connection (\<^verbatim>\<open>crates/qh-ffi/src/config.rs\<close>), the CA bundle it may name
  (\<^verbatim>\<open>crates/qh-driver/src/ca.rs\<close>) and the port a command fills in (\<^verbatim>\<open>connection\<close> of \<^verbatim>\<open>commands.rs\<close>).

  Reading a file, the PEM reader and the check of a trust anchor are the fields of \<open>ca_fns\<close>, a parameter.
\<close>

section \<open>Text\<close>

text \<open>\<open>String::from_utf8_lossy\<close>: how many bytes the next character or faulty sequence has, and whether it is one.\<close>

definition byte_in :: "bytes \<Rightarrow> nat \<Rightarrow> nat \<Rightarrow> nat \<Rightarrow> bool" where
  "byte_in s i lo hi \<longleftrightarrow> i < length s \<and> lo \<le> byte_val (s ! i) \<and> byte_val (s ! i) \<le> hi"

definition utf8_next :: "bytes \<Rightarrow> nat \<times> bool" where
  "utf8_next s =
     (let b = byte_val (hd s);
          tail = (\<lambda>lo hi n.
            if \<not> byte_in s 1 lo hi then (1, False)
            else if n = 2 then (2, True)
            else if \<not> byte_in s 2 0x80 0xBF then (2, False)
            else if n = 3 then (3, True)
            else if \<not> byte_in s 3 0x80 0xBF then (3, False)
            else (4 :: nat, True))
      in if b < 0x80 then (1, True)
         else if 0xC2 \<le> b \<and> b \<le> 0xDF then tail 0x80 0xBF (2 :: nat)
         else if b = 0xE0 then tail 0xA0 0xBF 3
         else if b = 0xED then tail 0x80 0x9F 3
         else if 0xE1 \<le> b \<and> b \<le> 0xEF then tail 0x80 0xBF 3
         else if b = 0xF0 then tail 0x90 0xBF 4
         else if 0xF1 \<le> b \<and> b \<le> 0xF3 then tail 0x80 0xBF 4
         else if b = 0xF4 then tail 0x80 0x8F 4
         else (1, False))"

definition REPLACEMENT :: bytes where
  "REPLACEMENT = [CHR 0xEF, CHR 0xBF, CHR 0xBD]"

lemma utf8_next_pos: "0 < fst (utf8_next s)"
  by (simp add: utf8_next_def Let_def)

function utf8_lossy :: "bytes \<Rightarrow> bytes" where
  "utf8_lossy s =
     (if s = [] then []
      else (let (n, valid) = utf8_next s in
        (if valid then take n s else REPLACEMENT) @ utf8_lossy (drop n s)))"
  by pat_completeness auto
termination
proof (relation "measure length")
  fix s :: bytes and x n valid
  assume "s \<noteq> []" "x = utf8_next s" "(n, valid) = x"
  moreover from this have "0 < n" using utf8_next_pos [of s] by (metis fst_conv)
  ultimately show "(drop n s, s) \<in> measure length" by (cases s) auto
qed simp

declare utf8_lossy.simps [simp del]

text \<open>\<open>u8::from_str_radix(_, 16)\<close> of two bytes, which takes a plus sign before the digits.\<close>

definition hex_pair :: "byte \<Rightarrow> byte \<Rightarrow> nat option" where
  "hex_pair a b =
     (if a = CHR ''+'' then hex_value b
      else (case (hex_value a, hex_value b) of (Some x, Some y) \<Rightarrow> Some (16 * x + y) | _ \<Rightarrow> None))"

fun percent_bytes :: "bytes \<Rightarrow> bytes" where
  "percent_bytes (c # a # b # s) =
     (if c = CHR ''%'' then
        (case hex_pair a b of Some n \<Rightarrow> char_of n # percent_bytes s | None \<Rightarrow> c # percent_bytes (a # b # s))
      else c # percent_bytes (a # b # s))"
| "percent_bytes s = s"

definition percent_decode :: "bytes \<Rightarrow> bytes" where
  "percent_decode s = utf8_lossy (percent_bytes s)"

text \<open>\<open>split_once\<close> and \<open>trim_start_matches\<close> with a text.\<close>

fun split_once_str :: "bytes \<Rightarrow> bytes \<Rightarrow> (bytes \<times> bytes) option" where
  "split_once_str pat [] = (if pat = [] then Some ([], []) else None)"
| "split_once_str pat (c # s) =
     (if prefix pat (c # s) then Some ([], drop (length pat) (c # s))
      else map_option (\<lambda>(a, b). (c # a, b)) (split_once_str pat s))"

fun trim_slashes2 :: "bytes \<Rightarrow> bytes" where
  "trim_slashes2 (a # b # s) = (if a = CHR ''/'' \<and> b = CHR ''/'' then trim_slashes2 s else a # b # s)"
| "trim_slashes2 s = s"

section \<open>The CA bundle\<close>

record ca_fns =
  cf_read :: "path \<Rightarrow> bytes + bytes"
  cf_pem :: "bytes \<Rightarrow> (bytes + bytes) list"
  cf_anchor :: "bytes \<Rightarrow> bytes option"

datatype ca_error =
    CaUnreadable path bytes
  | CaTooLarge path
  | CaNotPem path bytes
  | CaHoldsPrivateKey path
  | CaNoCertificates path
  | CaTooMany path nat
  | CaBadCertificate path nat bytes

definition MAX_CA_FILE_BYTES :: nat where "MAX_CA_FILE_BYTES = 1024 * 1024"
definition MAX_CA_CERTIFICATES :: nat where "MAX_CA_CERTIFICATES = 64"

definition contains_text :: "bytes \<Rightarrow> bytes \<Rightarrow> bool" where
  "contains_text pat s \<longleftrightarrow> list_ex (\<lambda>i. prefix pat (drop i s)) [0..<length s]"

fun collect_certificates :: "path \<Rightarrow> nat \<Rightarrow> (bytes + bytes) list \<Rightarrow> bytes list \<Rightarrow> ca_error + bytes list" where
  "collect_certificates p found [] acc = Inr acc"
| "collect_certificates p found (r # rs) acc =
     (case r of
        Inl reason \<Rightarrow> Inl (CaNotPem p reason)
      | Inr der \<Rightarrow>
          if length acc = MAX_CA_CERTIFICATES then
            Inl (CaTooMany p (MAX_CA_CERTIFICATES + 1 + (found - (MAX_CA_CERTIFICATES + 1))))
          else collect_certificates p found rs (acc @ [der]))"

fun check_anchors :: "ca_fns \<Rightarrow> path \<Rightarrow> nat \<Rightarrow> bytes list \<Rightarrow> ca_error option" where
  "check_anchors cf p number [] = None"
| "check_anchors cf p number (der # ders) =
     (case cf_anchor cf der of
        Some reason \<Rightarrow> Some (CaBadCertificate p number reason)
      | None \<Rightarrow> check_anchors cf p (number + 1) ders)"

definition ca_from_pem :: "ca_fns \<Rightarrow> path \<Rightarrow> bytes \<Rightarrow> ca_error + tls_ca_bundle" where
  "ca_from_pem cf p pem =
     (if contains_text ''PRIVATE KEY-----'' pem then Inl (CaHoldsPrivateKey p)
      else (case collect_certificates p (length (cf_pem cf pem)) (cf_pem cf pem) [] of
        Inl e \<Rightarrow> Inl e
      | Inr certs \<Rightarrow>
          if certs = [] then Inl (CaNoCertificates p)
          else (case check_anchors cf p 1 certs of
                  Some e \<Rightarrow> Inl e
                | None \<Rightarrow> Inr \<lparr>ca_path = p, ca_der = certs\<rparr>)))"

definition ca_load :: "ca_fns \<Rightarrow> path \<Rightarrow> ca_error + tls_ca_bundle" where
  "ca_load cf p =
     (case cf_read cf p of
        Inl reason \<Rightarrow> Inl (CaUnreadable p reason)
      | Inr contents \<Rightarrow>
          (let s = take (MAX_CA_FILE_BYTES + 1) contents in
           if MAX_CA_FILE_BYTES < length s then Inl (CaTooLarge p) else ca_from_pem cf p s))"

section \<open>Which settings\<close>

definition ALIASES :: "(bytes \<times> bytes) list" where
  "ALIASES = [(''DB_URL'', ''TRINO_URL''), (''DB_HOST'', ''TRINO_HOST''), (''DB_PORT'', ''TRINO_PORT''),
     (''DB_USER'', ''TRINO_USER''), (''DB_PASSWORD'', ''TRINO_PASSWORD''), (''DB_DATABASE'', ''TRINO_CATALOG''),
     (''DB_SCHEMA'', ''TRINO_SCHEMA''), (''DB_INSECURE'', ''TRINO_INSECURE'')]"

definition setting_names :: "bytes \<Rightarrow> bytes \<times> bytes option" where
  "setting_names key = (key, map_of ALIASES key)"

definition setting_label :: "bytes \<Rightarrow> bytes" where
  "setting_label key =
     (case setting_names key of
        (modern, Some older) \<Rightarrow> modern @ '' (or '' @ older @ '')''
      | (modern, None) \<Rightarrow> modern)"

text \<open>\<open>pick\<close>: the name that supplied the setting, and its value.\<close>

definition pick :: "settings \<Rightarrow> bytes \<Rightarrow> bytes \<times> bytes" where
  "pick s key =
     (let (modern, older) = setting_names key; value = text_setting s modern [] in
      if value \<noteq> [] then (modern, value)
      else (case older of
              None \<Rightarrow> (modern, [])
            | Some name \<Rightarrow>
                (let value = text_setting s name [] in
                 if value \<noteq> [] then (name, value) else (modern, []))))"

datatype config_error =
    CeUnknownKind bytes bytes
  | CeNoHost
  | CeBadScheme bytes
  | CeBadSSLMode bytes
  | CeNoUrlHost bytes
  | CeSetting setting_error
  | CeUsage bytes
  | CeCa ca_error
  | CeTunnel tunnel_config_error

definition driver_kind_parse :: "bytes \<Rightarrow> driver_kind option" where
  "driver_kind_parse name =
     (let n = to_ascii_lowercase (trim name) in
      if n = ''trino'' then Some KTrino
      else if n \<in> {''postgres'', ''postgresql''} then Some KPostgres
      else if n \<in> {''mysql'', ''mariadb''} then Some KMysql
      else None)"

fun driver_kind_str :: "driver_kind \<Rightarrow> bytes" where
  "driver_kind_str KTrino = ''trino''"
| "driver_kind_str KPostgres = ''postgres''"
| "driver_kind_str KMysql = ''mysql''"

definition non_blank :: "bytes \<Rightarrow> bytes option" where
  "non_blank value = (if value = [] then None else Some value)"

section \<open>Connection URLs\<close>

record parsed_url =
  u_scheme :: bytes
  u_host :: bytes
  u_port :: "int option"
  u_user :: bytes
  u_password :: "bytes option"
  u_segments :: "bytes list"
  u_query :: "(bytes \<times> bytes) list"

definition url_stop :: "byte \<Rightarrow> bool" where
  "url_stop c \<longleftrightarrow> c \<in> set ''/?#''"

definition split_userinfo :: "bytes \<Rightarrow> bytes \<times> bytes option" where
  "split_userinfo userinfo =
     (case split_once (CHR '':'') userinfo of
        Some (user, password) \<Rightarrow> (percent_decode user, Some (percent_decode password))
      | None \<Rightarrow> (percent_decode userinfo, None))"

definition split_hostport :: "bytes \<Rightarrow> bytes \<times> int option" where
  "split_hostport hostport =
     (case rsplit_once_in '']'' hostport of
        Some (before, after) \<Rightarrow>
          (case strip_prefix '':'' after of
             Some port \<Rightarrow> (before @ '']'', parse_i64 port)
           | None \<Rightarrow> (hostport, None))
      | None \<Rightarrow>
          (case rsplit_once_in '':'' hostport of
             Some (host, port) \<Rightarrow>
               if port \<noteq> [] \<and> list_all is_ascii_digit port then (host, parse_i64 port) else (hostport, None)
           | None \<Rightarrow> (hostport, None)))"

definition query_pair :: "bytes \<Rightarrow> bytes \<times> bytes" where
  "query_pair pair =
     (case split_once (CHR ''='') pair of
        Some (key, value) \<Rightarrow> (percent_decode key, percent_decode value)
      | None \<Rightarrow> (percent_decode pair, []))"

definition url_segments :: "bytes \<Rightarrow> bytes list" where
  "url_segments p = map percent_decode (filter (\<lambda>x. x \<noteq> []) (split_on (CHR ''/'') p))"

definition url_parse :: "bytes \<Rightarrow> parsed_url" where
  "url_parse url =
     (let (scheme, rest) = (case split_once_str ''://'' url of
          Some (scheme, rest) \<Rightarrow> (to_ascii_lowercase scheme, rest)
        | None \<Rightarrow> (''http'', trim_slashes2 url));
          authority = takeWhile (\<lambda>c. \<not> url_stop c) rest;
          tail = dropWhile (\<lambda>c. \<not> url_stop c) rest;
          tail = (case split_once (CHR ''#'') tail of Some (before, _) \<Rightarrow> before | None \<Rightarrow> tail);
          (p, query) = (case split_once (CHR ''?'') tail of Some (p, q) \<Rightarrow> (p, q) | None \<Rightarrow> (tail, []));
          (userinfo, hostport) = (case rsplit_once_in ''@'' authority of
              Some (userinfo, hostport) \<Rightarrow> (Some userinfo, hostport) | None \<Rightarrow> (None, authority));
          (user, password) = (case userinfo of Some i \<Rightarrow> split_userinfo i | None \<Rightarrow> ([], None));
          (host, port) = split_hostport hostport
      in \<lparr>u_scheme = scheme, u_host = to_ascii_lowercase host, u_port = port, u_user = user, u_password = password,
          u_segments = url_segments p,
          u_query = map query_pair (filter (\<lambda>x. x \<noteq> []) (split_on (CHR ''&'') query))\<rparr>)"

definition url_shown :: "parsed_url \<Rightarrow> bytes" where
  "url_shown u =
     (if u_segments u = [] \<or> list_ex (\<lambda>x. CHR ''@'' \<in> set x) (u_segments u) then u_scheme u @ ''://''
      else u_scheme u @ '':///'' @ join ''/'' (u_segments u))"

definition url_segment :: "parsed_url \<Rightarrow> nat \<Rightarrow> bytes" where
  "url_segment u i = (if i < length (u_segments u) then u_segments u ! i else [])"

definition url_query :: "parsed_url \<Rightarrow> bytes \<Rightarrow> bytes" where
  "url_query u key = (case map_of (u_query u) key of Some value \<Rightarrow> value | None \<Rightarrow> [])"

section \<open>Parts\<close>

record parts =
  p_kind :: driver_kind
  p_host :: bytes
  p_port :: "int option"
  p_user :: bytes
  p_password :: "bytes option"
  p_database :: bytes
  p_schema :: bytes
  p_scheme :: bytes
  p_sslmode :: bytes

definition or_base :: "bytes \<Rightarrow> bytes \<Rightarrow> bytes" where
  "or_base base override = (if override = [] then base else override)"

definition overridden_by :: "parts \<Rightarrow> parts \<Rightarrow> parts" where
  "overridden_by a b =
     \<lparr>p_kind = p_kind a, p_host = or_base (p_host a) (p_host b),
      p_port = (case p_port b of Some n \<Rightarrow> Some n | None \<Rightarrow> p_port a),
      p_user = or_base (p_user a) (p_user b),
      p_password = (case p_password b of Some w \<Rightarrow> Some w | None \<Rightarrow> p_password a),
      p_database = or_base (p_database a) (p_database b), p_schema = or_base (p_schema a) (p_schema b),
      p_scheme = or_base (p_scheme a) (p_scheme b), p_sslmode = or_base (p_sslmode a) (p_sslmode b)\<rparr>"

definition scheme_kind :: "bytes \<Rightarrow> driver_kind" where
  "scheme_kind scheme =
     (if scheme \<in> {''postgres'', ''postgresql''} then KPostgres
      else if scheme = ''mysql'' then KMysql else KTrino)"

definition from_url :: "bytes \<Rightarrow> parts \<Rightarrow> bool \<Rightarrow> config_error + parts" where
  "from_url url overrides declared_kind =
     (let u = url_parse url;
          kind = (if declared_kind then p_kind overrides else scheme_kind (u_scheme u)) in
      if u_host u = [] then Inl (CeNoUrlHost (url_shown u))
      else (let base = \<lparr>p_kind = kind, p_host = u_host u, p_port = None, p_user = u_user u,
                  p_password = u_password u, p_database = [], p_schema = [], p_scheme = [], p_sslmode = []\<rparr>;
                base = (if kind = KTrino then
                    (let scheme = (if u_scheme u = ''https'' then ''https'' else ''http'') in
                     base\<lparr>p_scheme := scheme,
                       p_port := Some (case u_port u of Some n \<Rightarrow> n | None \<Rightarrow> if scheme = ''https'' then 443 else 8080),
                       p_database := url_segment u 0, p_schema := url_segment u 1, p_sslmode := url_query u ''sslmode''\<rparr>)
                  else base\<lparr>p_port := Some (case u_port u of Some n \<Rightarrow> n | None \<Rightarrow> 0),
                       p_database := url_segment u 0, p_sslmode := url_query u ''sslmode''\<rparr>)
            in Inr (overridden_by base overrides)))"

text \<open>libpq's vocabulary; the outer \<open>None\<close> is a spelling nobody recognises.\<close>

definition named_mode :: "bytes \<Rightarrow> tls_mode option option" where
  "named_mode m =
     (if m = [] then Some None
      else if m = ''disable'' then Some (Some TlsDisable)
      else if m = ''prefer'' then Some (Some TlsPrefer)
      else if m = ''require'' then Some (Some TlsRequireNoVerify)
      else if m \<in> {''verify-ca'', ''verify-full''} then Some (Some TlsRequire)
      else None)"

definition bearer_plain :: "tls_mode option \<Rightarrow> bytes \<Rightarrow> bytes option" where
  "bearer_plain named scheme =
     (if named = Some TlsDisable \<or> named = None \<and> scheme = ''http'' then Some ''plain http''
      else if named = Some TlsPrefer then Some ''prefer, which may fall back to plain http''
      else None)"

definition trino_tls :: "parts \<Rightarrow> bool \<Rightarrow> bool \<Rightarrow> config_error + tls_mode" where
  "trino_tls p insecure bearer =
     (if p_scheme p \<noteq> [] \<and> p_scheme p \<noteq> ''http'' \<and> p_scheme p \<noteq> ''https'' then Inl (CeBadScheme (p_scheme p))
      else (case named_mode (p_sslmode p) of
        None \<Rightarrow> Inl (CeBadSSLMode (p_sslmode p))
      | Some named \<Rightarrow>
          (case (if bearer then bearer_plain named (p_scheme p) else None) of
             Some plain \<Rightarrow> Inl (CeUsage (''DB_JWT is only sent over TLS, and this connection is '' @ plain @
               ''; use https, or sslmode require, verify-ca or verify-full''))
           | None \<Rightarrow>
               (let port = (case p_port p of Some n \<Rightarrow> n | None \<Rightarrow> 0);
                    mode = (case named of
                        Some m \<Rightarrow> m
                      | None \<Rightarrow>
                          if p_scheme p = ''https'' then TlsRequire
                          else if bearer \<and> p_scheme p = [] then TlsRequire
                          else TlsDisable);
                    mode = (if mode = TlsDisable \<and> (p_password p \<noteq> None \<or> port = 443 \<or> port = 8443)
                            then TlsRequire else mode)
                in Inr (if insecure \<and> mode \<noteq> TlsDisable then TlsRequireNoVerify else mode)))))"

definition other_tls :: "parts \<Rightarrow> bool \<Rightarrow> config_error + tls_mode" where
  "other_tls p insecure =
     (case named_mode (p_sslmode p) of
        None \<Rightarrow> Inl (CeBadSSLMode (p_sslmode p))
      | Some named \<Rightarrow>
          (let required = (case named of Some m \<Rightarrow> m | None \<Rightarrow> TlsPrefer) in
           Inr (if insecure \<and> required \<noteq> TlsDisable then TlsRequireNoVerify else required)))"

definition into_config :: "parts \<Rightarrow> bool \<Rightarrow> bool \<Rightarrow> config_error + connection_config" where
  "into_config p insecure bearer =
     (case (if p_kind p = KTrino then trino_tls p insecure bearer else other_tls p insecure) of
        Inl e \<Rightarrow> Inl e
      | Inr tls \<Rightarrow>
          (let port = (case p_port p of Some n \<Rightarrow> n | None \<Rightarrow> 0);
               port = (if p_kind p = KTrino \<and> port = 0 then (if tls = TlsDisable then 8080 else 443) else port)
           in Inr \<lparr>c_kind = p_kind p, c_host = p_host p,
               c_port = (if 0 \<le> port \<and> port \<le> 65535 then word_of_int port else 0), c_user = p_user p,
               c_password = p_password p, c_database = non_blank (p_database p), c_schema = non_blank (p_schema p),
               c_tls = tls, c_insecure = insecure, c_tunnel = None, c_tls_ca = None, c_bearer = None,
               c_tls_server_name = None\<rparr>))"

definition MAX_BEARER_CHARS :: nat where "MAX_BEARER_CHARS = 8192"

definition bearer_of :: "settings \<Rightarrow> parts \<Rightarrow> config_error + bytes option" where
  "bearer_of s p =
     (let token = trim (raw_setting s ''DB_JWT'' []) in
      if token = [] then Inr None
      else if p_kind p \<noteq> KTrino then
        Inl (CeUsage (''DB_JWT is only for Trino, and this connection is '' @ driver_kind_str (p_kind p) @
          ''; send DB_PASSWORD instead''))
      else if p_password p \<noteq> None then
        Inl (CeUsage ''send either DB_JWT or a password (DB_PASSWORD, or one inside DB_URL), not both'')
      else if MAX_BEARER_CHARS < char_count token \<or>
          \<not> list_all (\<lambda>c. is_ascii_alphanumeric c \<or> c \<in> set ''-._~+/='') token then
        Inl (CeUsage ''DB_JWT is not a valid bearer token'')
      else Inr (Some token))"

definition apply_ca_file :: "env \<Rightarrow> ca_fns \<Rightarrow> settings \<Rightarrow> connection_config \<Rightarrow> config_error + connection_config" where
  "apply_ca_file env cf s c =
     (let named = text_setting s ''DB_CA_FILE'' [] in
      if named = [] then Inr c
      else if c_kind c = KMysql then
        Inl (CeUsage ''DB_CA_FILE is not supported for MySQL: mysql_async 0.36 cannot take a CA (docs/tls-modes.md)'')
      else (case (case strip_prefix ''~'' named of
            Some rest \<Rightarrow>
              if rest = [] \<or> prefix ''/'' rest then
                (case en_home env of
                   None \<Rightarrow> Inl (CeUsage ''DB_CA_FILE starts with ~ and $HOME is not set'')
                 | Some h \<Rightarrow> Inr (path_join h (dropWhile (\<lambda>c. c = CHR ''/'') rest)))
              else Inr named
          | None \<Rightarrow> Inr named) of
        Inl e \<Rightarrow> Inl e
      | Inr p \<Rightarrow>
          (case ca_load cf p of
             Inl e \<Rightarrow> Inl (CeCa e)
           | Inr ca \<Rightarrow>
               (let c = c\<lparr>c_tls_ca := Some ca\<rparr> in
                case ca_for_verifying_mode c of
                  Inl e \<Rightarrow> Inl (CeUsage (error_message e))
                | Inr _ \<Rightarrow> Inr c))))"

definition USAGE_MYSQL_TUNNEL :: bytes where
  "USAGE_MYSQL_TUNNEL = ''MySQL cannot verify a server certificate through an SSH tunnel (the name checked would be 127.0.0.1). Use require (encrypted, not verified: the tunnel already authenticates the bastion), or connect directly''"

text \<open>The parts the settings name, before a URL fills in what they leave out.\<close>

definition setting_parts :: "settings \<Rightarrow> driver_kind \<Rightarrow> config_error + parts" where
  "setting_parts s kind =
     (let (port_key, port_raw) = pick s ''DB_PORT'';
          p = \<lparr>p_kind = kind, p_host = snd (pick s ''DB_HOST''), p_port = None, p_user = snd (pick s ''DB_USER''),
            p_password = non_blank (snd (pick s ''DB_PASSWORD'')), p_database = snd (pick s ''DB_DATABASE''),
            p_schema = snd (pick s ''DB_SCHEMA''), p_scheme = to_ascii_lowercase (snd (pick s ''DB_SCHEME'')),
            p_sslmode = to_ascii_lowercase (snd (pick s ''DB_SSLMODE''))\<rparr>
      in if port_raw = [] then Inr p
         else (case parse_i64 port_raw of
                 None \<Rightarrow> Inl (CeSetting (NotANumber port_key port_raw))
               | Some n \<Rightarrow> Inr (p\<lparr>p_port := Some n\<rparr>)))"

text \<open>The user and the port a connection has when nobody named them.\<close>

definition fill_parts :: "settings \<Rightarrow> parts \<Rightarrow> parts" where
  "fill_parts s p =
     (let p = (if p_user p \<noteq> [] then p
               else (let user = text_setting s ''USER'' [] in
                     p\<lparr>p_user := (if user = [] \<and> p_kind p = KTrino then ''trino'' else user)\<rparr>))
      in if p_kind p = KTrino \<and> p_password p \<noteq> None \<and> p_port p = None then p\<lparr>p_port := Some 443\<rparr> else p)"

definition resolve_parts :: "settings \<Rightarrow> config_error + parts" where
  "resolve_parts s =
     (let (kind_key, kind_raw) = pick s ''DB_KIND'';
          declared_kind = (kind_raw \<noteq> []);
          kind_name = (if declared_kind then to_ascii_lowercase kind_raw else ''trino'') in
      case driver_kind_parse kind_name of
        None \<Rightarrow> Inl (CeUnknownKind kind_key kind_name)
      | Some kind \<Rightarrow>
          (case setting_parts s kind of
             Inl e \<Rightarrow> Inl e
           | Inr p \<Rightarrow>
               (let url = snd (pick s ''DB_URL'') in
                if url \<noteq> [] then from_url url p declared_kind
                else if p_host p \<noteq> [] then Inr p
                else Inl CeNoHost)))"

definition build :: "env \<Rightarrow> ca_fns \<Rightarrow> settings \<Rightarrow> config_error + connection_config" where
  "build env cf s =
     (case resolve_parts s of
        Inl e \<Rightarrow> Inl e
      | Inr p \<Rightarrow>
          (let p = fill_parts s p; insecure = parse_flag (snd (pick s ''DB_INSECURE'')) False in
           case bearer_of s p of
             Inl e \<Rightarrow> Inl e
           | Inr bearer \<Rightarrow>
          (case into_config p insecure (bearer \<noteq> None) of
             Inl e \<Rightarrow> Inl e
           | Inr c \<Rightarrow>
          (case tunnel_settings env s of
             Inl e \<Rightarrow> Inl (CeTunnel e)
           | Inr tunnel \<Rightarrow>
          (case apply_ca_file env cf s (c\<lparr>c_bearer := bearer, c_tunnel := tunnel\<rparr>) of
             Inl e \<Rightarrow> Inl e
           | Inr c \<Rightarrow>
               if c_tunnel c \<noteq> None \<and> c_kind c = KMysql \<and> c_tls c = TlsRequire then Inl (CeUsage USAGE_MYSQL_TUNNEL)
               else Inr c)))))"

text \<open>\<open>connection\<close> of \<^verbatim>\<open>commands.rs\<close>: the driver's default port for port 0.\<close>

fun driver_default_port :: "driver_kind \<Rightarrow> 16 word" where
  "driver_default_port KTrino = 8080"
| "driver_default_port KPostgres = 5432"
| "driver_default_port KMysql = 3306"

definition connection :: "env \<Rightarrow> ca_fns \<Rightarrow> settings \<Rightarrow> config_error + connection_config" where
  "connection env cf s =
     (case build env cf s of
        Inl e \<Rightarrow> Inl e
      | Inr c \<Rightarrow> Inr (if c_port c = 0 then c\<lparr>c_port := driver_default_port (c_kind c)\<rparr> else c))"

text \<open>\<open>dialect\<close> of \<^verbatim>\<open>commands.rs\<close>: the dialect the SQL of a run is read under.\<close>

definition run_dialect :: "env \<Rightarrow> ca_fns \<Rightarrow> settings \<Rightarrow> dialect" where
  "run_dialect env cf s =
     dialect_of_kind (case build env cf s of Inr c \<Rightarrow> Some (c_kind c) | Inl e \<Rightarrow> None)"

end
