(* ===== verification/ConnSafety.thy ===== *)
theory ConnSafety
  imports ConnConfig
begin

text \<open>
  What the configuration of a connection promises: credentials, certificates and tunnels are only combined
  in the ways that protect them, and a message about a URL shows nothing of its user or password.
\<close>

section \<open>Modes\<close>

lemma into_config_parts:
  assumes "into_config p insecure bearer = Inr c"
  shows "c_kind c = p_kind p" "c_host c = p_host p" "c_password c = p_password p" "c_insecure c = insecure"
    "c_tls_ca c = None" "c_bearer c = None" "c_tunnel c = None"
    "(if p_kind p = KTrino then trino_tls p insecure bearer else other_tls p insecure) = Inr (c_tls c)"
  using assms by (auto simp: into_config_def Let_def split: sum.splits)

lemma trino_tls_credentials:
  assumes "trino_tls p insecure bearer = Inr tls"
  shows "p_password p \<noteq> None \<Longrightarrow> tls \<noteq> TlsDisable" "bearer \<Longrightarrow> tls = TlsRequire \<or> tls = TlsRequireNoVerify"
    "insecure \<Longrightarrow> tls = TlsDisable \<or> tls = TlsRequireNoVerify"
    "named_mode (p_sslmode p) = Some (Some TlsRequire) \<Longrightarrow> \<not> insecure \<Longrightarrow> tls = TlsRequire"
  using assms by (cases tls; auto simp: trino_tls_def bearer_plain_def Let_def split: if_splits option.splits)+

lemma other_tls_modes:
  assumes "other_tls p insecure = Inr tls"
  shows "insecure \<Longrightarrow> tls = TlsDisable \<or> tls = TlsRequireNoVerify"
    "named_mode (p_sslmode p) = Some (Some TlsRequire) \<Longrightarrow> \<not> insecure \<Longrightarrow> tls = TlsRequire"
  using assms by (auto simp: other_tls_def Let_def split: if_splits option.splits)

lemma fill_parts_keeps [simp]:
  "p_kind (fill_parts s p) = p_kind p" "p_host (fill_parts s p) = p_host p"
  "p_password (fill_parts s p) = p_password p" "p_sslmode (fill_parts s p) = p_sslmode p"
  by (simp_all add: fill_parts_def Let_def)

lemma setting_parts_mode:
  assumes "setting_parts s kind = Inr p"
  shows "p_sslmode p = to_ascii_lowercase (snd (pick s ''DB_SSLMODE''))" "p_host p = snd (pick s ''DB_HOST'')"
  using assms by (auto simp: setting_parts_def Let_def split: prod.splits if_splits option.splits)

lemma from_url_parts:
  assumes "from_url url p declared = Inr q"
  shows "p_host q \<noteq> []" "p_sslmode p \<noteq> [] \<Longrightarrow> p_sslmode q = p_sslmode p"
proof -
  from assms have "u_host (url_parse url) \<noteq> []" by (simp add: from_url_def Let_def split: if_splits)
  with assms obtain base where "q = overridden_by base p" "p_host base = u_host (url_parse url)"
    by (fastforce simp: from_url_def Let_def)
  with \<open>u_host (url_parse url) \<noteq> []\<close> show "p_host q \<noteq> []" "p_sslmode p \<noteq> [] \<Longrightarrow> p_sslmode q = p_sslmode p"
    by (simp_all add: overridden_by_def or_base_def)
qed

lemma resolve_parts_host:
  assumes "resolve_parts s = Inr p"
  shows "p_host p \<noteq> []"
    "to_ascii_lowercase (snd (pick s ''DB_SSLMODE'')) \<noteq> [] \<Longrightarrow>
     p_sslmode p = to_ascii_lowercase (snd (pick s ''DB_SSLMODE''))"
  using assms from_url_parts setting_parts_mode
  by (auto simp: resolve_parts_def Let_def split: prod.splits option.splits sum.splits if_splits)

lemma bearer_of_some: "bearer_of s p = Inr (Some token) \<Longrightarrow> p_kind p = KTrino \<and> p_password p = None"
  by (auto simp: bearer_of_def Let_def split: if_splits)

lemma apply_ca_file_keeps:
  assumes "apply_ca_file env cf s c = Inr c'" "c_tls_ca c = None"
  shows "c_kind c' = c_kind c" "c_host c' = c_host c" "c_password c' = c_password c" "c_insecure c' = c_insecure c"
    "c_bearer c' = c_bearer c" "c_tunnel c' = c_tunnel c" "c_tls c' = c_tls c"
    "c_tls_ca c' \<noteq> None \<Longrightarrow> c_kind c \<noteq> KMysql \<and> c_tls c = TlsRequire \<and> \<not> c_insecure c"
  using assms by (auto simp: apply_ca_file_def ca_for_verifying_mode_def Let_def split: if_splits option.splits sum.splits)

lemma build_steps:
  assumes "build env cf s = Inr c"
  obtains p bearer c0 tunnel where "resolve_parts s = Inr p" "bearer_of s (fill_parts s p) = Inr bearer"
    "into_config (fill_parts s p) (parse_flag (snd (pick s ''DB_INSECURE'')) False) (bearer \<noteq> None) = Inr c0"
    "apply_ca_file env cf s (c0\<lparr>c_bearer := bearer, c_tunnel := tunnel\<rparr>) = Inr c"
    "\<not> (c_tunnel c \<noteq> None \<and> c_kind c = KMysql \<and> c_tls c = TlsRequire)"
  using assms by (auto simp: build_def Let_def split: sum.splits if_splits)

text \<open>
  C30. A connection is only built in a shape that protects what it carries. On Trino a password never goes
  with a plaintext mode, and a bearer token only with a mode that cannot fall back to one and never beside a
  password; \<open>DB_INSECURE\<close> gives up verification but never encryption somebody asked for; a CA bundle goes with
  a mode that verifies, and never with MySQL; MySQL through a tunnel does not claim to verify; and a mode that
  verifies, once it is named by \<open>DB_SSLMODE\<close>, stays unless \<open>DB_INSECURE\<close> is set.
\<close>
theorem connection_protects_what_it_carries:
  assumes "build env cf s = Inr c"
  shows "c_host c \<noteq> [] \<and>
    (c_kind c = KTrino \<and> c_password c \<noteq> None \<longrightarrow> c_tls c \<noteq> TlsDisable) \<and>
    (c_bearer c \<noteq> None \<longrightarrow> c_kind c = KTrino \<and> c_password c = None \<and>
      (c_tls c = TlsRequire \<or> c_tls c = TlsRequireNoVerify)) \<and>
    (c_insecure c \<longrightarrow> c_tls c = TlsDisable \<or> c_tls c = TlsRequireNoVerify) \<and>
    (c_tls_ca c \<noteq> None \<longrightarrow> c_tls c = TlsRequire \<and> \<not> c_insecure c \<and> c_kind c \<noteq> KMysql) \<and>
    (c_tunnel c \<noteq> None \<and> c_kind c = KMysql \<longrightarrow> c_tls c \<noteq> TlsRequire) \<and>
    (named_mode (to_ascii_lowercase (snd (pick s ''DB_SSLMODE''))) = Some (Some TlsRequire) \<and> \<not> c_insecure c \<longrightarrow>
      c_tls c = TlsRequire)"
proof -
  from assms obtain p bearer c0 tunnel where r: "resolve_parts s = Inr p"
    and b: "bearer_of s (fill_parts s p) = Inr bearer"
    and i: "into_config (fill_parts s p) (parse_flag (snd (pick s ''DB_INSECURE'')) False) (bearer \<noteq> None) = Inr c0"
    and a: "apply_ca_file env cf s (c0\<lparr>c_bearer := bearer, c_tunnel := tunnel\<rparr>) = Inr c"
    and t: "\<not> (c_tunnel c \<noteq> None \<and> c_kind c = KMysql \<and> c_tls c = TlsRequire)"
    by (rule build_steps)
  note parts = into_config_parts [OF i, simplified]
  note kept = apply_ca_file_keeps [OF a, simplified, OF parts(5)]
  have mode: "named_mode (p_sslmode p) = Some (Some TlsRequire)"
    if "named_mode (to_ascii_lowercase (snd (pick s ''DB_SSLMODE''))) = Some (Some TlsRequire)"
    using that resolve_parts_host(2) [OF r] by (auto simp: named_mode_def split: if_splits)
  have bearer: "bearer = None \<or> p_kind p = KTrino \<and> p_password p = None"
    using b bearer_of_some by fastforce
  show ?thesis
  proof (cases "p_kind p = KTrino")
    case True
    with parts(8) have tls: "trino_tls (fill_parts s p) (c_insecure c) (bearer \<noteq> None) = Inr (c_tls c)"
      using parts(4) kept(4,7) by simp
    from trino_tls_credentials [OF tls] show ?thesis
      using True t kept parts(1-4) bearer mode resolve_parts_host(1) [OF r] by auto
  next
    case False
    with parts(8) have tls: "other_tls (fill_parts s p) (c_insecure c) = Inr (c_tls c)"
      using parts(4) kept(4,7) by simp
    from other_tls_modes [OF tls] show ?thesis
      using False t kept parts(1-4) bearer mode resolve_parts_host(1) [OF r] by auto
  qed
qed

text \<open>A machine with no files, and a PEM reader that finds nothing.\<close>

definition bare_env :: env where
  "bare_env = \<lparr>en_home = None, en_disk = \<lparr>pd_meta = \<lambda>_. MetaMissing, pd_text = \<lambda>_. Inl [], pd_dir = \<lambda>_. None\<rparr>\<rparr>"

definition bare_ca :: ca_fns where
  "bare_ca = \<lparr>cf_read = \<lambda>_. Inl [], cf_pem = \<lambda>_. [], cf_anchor = \<lambda>_. None\<rparr>"

definition demo_settings :: settings where
  "demo_settings = [(''DB_KIND'', ''trino''), (''DB_HOST'', ''h''), (''DB_PASSWORD'', ''p'')]"

lemma demo_picks:
  "pick demo_settings ''DB_KIND'' = (''DB_KIND'', ''trino'')" "pick demo_settings ''DB_HOST'' = (''DB_HOST'', ''h'')"
  "pick demo_settings ''DB_PASSWORD'' = (''DB_PASSWORD'', ''p'')" "pick demo_settings ''DB_PORT'' = (''DB_PORT'', [])"
  "pick demo_settings ''DB_USER'' = (''DB_USER'', [])" "pick demo_settings ''DB_DATABASE'' = (''DB_DATABASE'', [])"
  "pick demo_settings ''DB_SCHEMA'' = (''DB_SCHEMA'', [])" "pick demo_settings ''DB_SCHEME'' = (''DB_SCHEME'', [])"
  "pick demo_settings ''DB_SSLMODE'' = (''DB_SSLMODE'', [])" "pick demo_settings ''DB_URL'' = (''DB_URL'', [])"
  "pick demo_settings ''DB_INSECURE'' = (''DB_INSECURE'', [])" "text_setting demo_settings ''USER'' [] = []"
  "trim (raw_setting demo_settings ''DB_JWT'' []) = []" "text_setting demo_settings ''SSH_HOST'' [] = []"
  "text_setting demo_settings ''DB_CA_FILE'' [] = []" "driver_kind_parse ''trino'' = Some KTrino"
  "to_ascii_lowercase ''trino'' = ''trino''" "to_ascii_lowercase [] = []" "\<not> parse_flag [] False"
  by code_simp+

lemma demo_built:
  "\<exists>c. build env cf demo_settings = Inr c \<and> c_kind c = KTrino \<and> c_password c = Some ''p'' \<and> c_port c = 443"
  by (simp add: build_def resolve_parts_def setting_parts_def fill_parts_def bearer_of_def into_config_def trino_tls_def
      named_mode_def tunnel_settings_def apply_ca_file_def non_blank_def demo_picks Let_def)

theorem connection_protects_what_it_carries_witness:
  "\<exists>c. build bare_env bare_ca demo_settings = Inr c \<and> c_password c = Some ''p'' \<and> c_tls c \<noteq> TlsDisable"
proof -
  obtain c where c: "build bare_env bare_ca demo_settings = Inr c" "c_kind c = KTrino" "c_password c = Some ''p''"
    using demo_built by blast
  from connection_protects_what_it_carries [OF c(1)] c show ?thesis by auto
qed

section \<open>What a URL shows\<close>

lemma split_once_str_some: "split_once_str pat s = Some (a, b) \<Longrightarrow> s = a @ pat @ b"
proof (induction s arbitrary: a)
  case (Cons c s)
  then show ?case by (auto split: if_splits simp: prefix_def append_eq_conv_conj [symmetric])
qed (auto split: if_splits)

lemma prefix_long: "length pat \<le> length z \<Longrightarrow> prefix pat (z @ x) \<longleftrightarrow> prefix pat z"
  by (metis prefix_append prefix_length_prefix prefix_def)

lemma split_once_str_rest:
  assumes "split_once_str pat (a @ pat @ x) = Some (a, x)" "pat \<noteq> []"
  shows "split_once_str pat (a @ pat @ y) = Some (a, y)"
  using assms
proof (induction a)
  case Nil
  then show ?case by (cases pat) simp_all
next
  case (Cons c a)
  have "prefix pat (c # a @ pat @ w) \<longleftrightarrow> prefix pat (c # a @ pat)" for w
    using prefix_long [of pat "c # a @ pat" w] by simp
  with Cons show ?case by (auto split: if_splits)
qed

text \<open>An at sign is never part of an escape or of a faulty sequence, so decoding keeps it.\<close>

lemma at_not_hex: "hex_value (CHR ''@'') = None"
  by (simp add: hex_value_def Let_def)

lemma at_in_percent_bytes: "CHR ''@'' \<in> set s \<Longrightarrow> CHR ''@'' \<in> set (percent_bytes s)"
proof (induction s rule: percent_bytes.induct)
  case (1 c a b s)
  have "a \<noteq> CHR ''@'' \<and> b \<noteq> CHR ''@''" if "hex_pair a b = Some n" for n
    using that at_not_hex by (auto simp: hex_pair_def split: if_splits option.splits)
  with 1 show ?case by (auto split: option.splits)
qed simp_all

lemma faulty_bytes:
  assumes "utf8_next s = (n, False)" "s \<noteq> []"
  shows "\<forall>x \<in> set (take n s). 0x80 \<le> byte_val x"
proof -
  obtain a r where s: "s = a # r" using assms(2) by (cases s) auto
  have "n \<in> {1, 2, 3} \<and> 0x80 \<le> byte_val a \<and> (2 \<le> n \<longrightarrow> byte_in s 1 0x80 0xBF) \<and> (3 \<le> n \<longrightarrow> byte_in s 2 0x80 0xBF)"
    using assms(1) s by (auto simp: utf8_next_def byte_in_def Let_def split: if_splits)
  then consider "n = 1" "0x80 \<le> byte_val a" | b r' where "n = 2" "r = b # r'" "0x80 \<le> byte_val a" "0x80 \<le> byte_val b"
    | b c r' where "n = 3" "r = b # c # r'" "0x80 \<le> byte_val a" "0x80 \<le> byte_val b" "0x80 \<le> byte_val c"
    by (cases r; cases "tl r") (auto simp: s byte_in_def)
  then show ?thesis by cases (auto simp: s)
qed

lemma at_in_utf8_lossy: "CHR ''@'' \<in> set s \<Longrightarrow> CHR ''@'' \<in> set (utf8_lossy s)"
proof (induction s rule: utf8_lossy.induct)
  case (1 s)
  obtain n ok where n: "utf8_next s = (n, ok)" by force
  have ne: "s \<noteq> []" using 1(2) by auto
  have "CHR ''@'' \<in> set (take n s) \<or> CHR ''@'' \<in> set (drop n s)"
    using 1(2) by (metis UnE append_take_drop_id set_append)
  moreover have "CHR ''@'' \<notin> set (take n s)" if "\<not> ok"
    using faulty_bytes [of s n] n ne that by fastforce
  ultimately show ?case using 1(1) [OF ne n [symmetric]] n ne by (subst utf8_lossy.simps) auto
qed

lemma at_in_decoded: "CHR ''@'' \<in> set s \<Longrightarrow> CHR ''@'' \<in> set (percent_decode s)"
  by (simp add: percent_decode_def at_in_utf8_lossy at_in_percent_bytes)

lemma split_once_before: "(case split_once c s of Some (a, _) \<Rightarrow> a | None \<Rightarrow> s) = takeWhile (\<lambda>x. x \<noteq> c) s"
  unfolding split_once_def by (induction s) (auto split: option.splits)

lemma split_once_fst: "fst (case split_once c s of Some (a, b) \<Rightarrow> (a, b) | None \<Rightarrow> (s, [])) = takeWhile (\<lambda>x. x \<noteq> c) s"
  using split_once_before [where c = c and s = s] by (auto split: option.splits)

text \<open>The path of what follows the scheme.\<close>

definition path_of_rest :: "bytes \<Rightarrow> bytes" where
  "path_of_rest rest = takeWhile (\<lambda>x. x \<noteq> CHR ''?'') (takeWhile (\<lambda>x. x \<noteq> CHR ''#'') (dropWhile (\<lambda>c. \<not> url_stop c) rest))"

lemma url_parse_parts:
  assumes "split_once_str ''://'' url = Some (scheme, rest)"
  shows "u_scheme (url_parse url) = to_ascii_lowercase scheme"
    "u_segments (url_parse url) = url_segments (path_of_rest rest)"
  using assms
  by (simp_all add: url_parse_def path_of_rest_def Let_def case_prod_unfold split_once_before split_once_fst
      del: split_once_str.simps)

lemma split_on_keeps: "x \<in> set s \<Longrightarrow> x \<noteq> sep \<Longrightarrow> \<exists>l \<in> set (split_on sep s). x \<in> set l"
  by (induction s) (auto split: list.splits)

lemma takeWhile_past: "c \<notin> set b \<Longrightarrow> takeWhile (\<lambda>x. x \<noteq> c) (b @ r) = b @ takeWhile (\<lambda>x. x \<noteq> c) r"
  by (rule takeWhile_append2) auto

lemma at_shown: "CHR ''@'' \<in> set p \<Longrightarrow> list_ex (\<lambda>x. CHR ''@'' \<in> set x) (url_segments p)"
  using split_on_keeps [of "CHR ''@''" p "CHR ''/''"] at_in_decoded
  by (fastforce simp: url_segments_def list_ex_iff)

text \<open>
  A message about a URL shows nothing of its user and password. Whatever stands between the scheme and
  an at sign, as long as it holds no question mark and no hash, what is shown is the scheme alone or what
  would be shown of the URL without it.
\<close>
theorem url_error_shows_no_userinfo:
  assumes "split_once_str ''://'' url = Some (scheme, userinfo @ ''@'' @ rest)"
    and "CHR ''?'' \<notin> set userinfo" and "CHR ''#'' \<notin> set userinfo"
  shows "url_shown (url_parse url) = to_ascii_lowercase scheme @ ''://'' \<or>
    url_shown (url_parse url) = url_shown (url_parse (scheme @ ''://'' @ rest))"
proof -
  note whole = url_parse_parts [OF assms(1)]
  have "split_once_str ''://'' (scheme @ ''://'' @ userinfo @ ''@'' @ rest) = Some (scheme, userinfo @ ''@'' @ rest)"
    using assms(1) split_once_str_some [OF assms(1)] by simp
  from split_once_str_rest [OF this] have "split_once_str ''://'' (scheme @ ''://'' @ rest) = Some (scheme, rest)" by simp
  note bare = url_parse_parts [OF this]
  show ?thesis
  proof (cases "CHR ''/'' \<in> set userinfo")
    case True
    then obtain a b where u: "userinfo = a @ CHR ''/'' # b" "CHR ''/'' \<notin> set a" by (meson split_list_first)
    have "\<forall>c \<in> set a. \<not> url_stop c" using u assms(2,3) by (auto simp: url_stop_def)
    then have d: "dropWhile (\<lambda>c. \<not> url_stop c) (userinfo @ ''@'' @ rest) = CHR ''/'' # b @ ''@'' @ rest"
      by (simp add: u url_stop_def)
    have "CHR ''@'' \<in> set (path_of_rest (userinfo @ ''@'' @ rest))"
      using assms(2,3) unfolding path_of_rest_def d by (auto simp: u takeWhile_past)
    from at_shown [OF this] show ?thesis by (simp add: url_shown_def whole)
  next
    case False
    then have "\<forall>c \<in> set (userinfo @ ''@''). \<not> url_stop c" using assms(2,3) by (auto simp: url_stop_def)
    then have path: "path_of_rest (userinfo @ ''@'' @ rest) = path_of_rest rest"
      using dropWhile_append2 [of "userinfo @ ''@''" "\<lambda>c. \<not> url_stop c" rest] by (simp add: path_of_rest_def)
    have "url_shown (url_parse url) = url_shown (url_parse (scheme @ ''://'' @ rest))"
      unfolding url_shown_def whole bare path by (rule refl)
    then show ?thesis by (rule disjI2)
  qed
qed

theorem url_error_shows_no_userinfo_witness:
  "url_shown (url_parse ''mysql://u:s@/d'') = ''mysql://'' \<or>
   url_shown (url_parse ''mysql://u:s@/d'') = url_shown (url_parse ''mysql:///d'')"
proof -
  have "split_once_str ''://'' ''mysql://u:s@/d'' = Some (''mysql'', ''u:s'' @ ''@'' @ ''/d'')"
    "to_ascii_lowercase ''mysql'' = ''mysql''" by code_simp+
  with url_error_shows_no_userinfo [of "''mysql://u:s@/d''" "''mysql''" "''u:s''" "''/d''"] show ?thesis by simp
qed

section \<open>Where the code differs from its comments\<close>

text \<open>
  A password with a slash and then a question mark: its middle is taken for the path and shown, and the at
  sign that would give it away is taken for the query.
\<close>

lemma password_shown_as_path:
  "u_host (url_parse ''postgres://:12/secret?x@h/db'') = []"
  "url_shown (url_parse ''postgres://:12/secret?x@h/db'') = ''postgres:///secret''"
  by code_simp+

text \<open>A plus sign and one digit is read as a percent escape.\<close>

lemma plus_is_an_escape: "percent_bytes ''%+5'' = [char_of (5 :: nat)]"
  by code_simp

text \<open>A port outside the range is not refused: it becomes the driver's default.\<close>

lemma port_out_of_range: "into_config p insecure bearer = Inr c \<Longrightarrow> p_port p = Some 70000 \<Longrightarrow> c_port c = 0"
  by (auto simp: into_config_def Let_def split: sum.splits)

end
