(* ===== verification/CliErrors.thy ===== *)
theory CliErrors
  imports ConnConfig SqlClassify SqlWrap
begin

text \<open>
  What a command can fail with (\<open>CliError\<close> of \<^verbatim>\<open>crates/qh-ffi/src/lib.rs\<close>) and the texts of the errors it
  wraps, which are what a user reads. Errors of the export, import and storage crates, and of the operating
  system, are carried by the text they display.
\<close>

section \<open>Texts of the wrapped errors\<close>

definition quoted :: "bytes \<Rightarrow> bytes" where
  "quoted s = [CHR 0x27] @ s @ [CHR 0x27]"

fun setting_error_text :: "setting_error \<Rightarrow> bytes" where
  "setting_error_text (NotANumber key value) = key @ '' must be a whole number, got '' @ quoted value"
| "setting_error_text (Negative key value) = key @ '' cannot be negative, got '' @ quoted (int_bytes value)"

fun tunnel_config_error_text :: "tunnel_config_error \<Rightarrow> bytes" where
  "tunnel_config_error_text (TcMissing key) = key @ '' is required when SSH_HOST is set''"
| "tunnel_config_error_text (TcBadAuthMethod m) =
     ''unknown SSH_AUTH_METHOD '' @ quoted m @ ''; expected agent, key or password''"
| "tunnel_config_error_text TcKeyPathMissing = ''SSH_AUTH_METHOD=key needs SSH_KEY_PATH''"
| "tunnel_config_error_text TcPasswordMissing = ''SSH_AUTH_METHOD=password needs SSH_PASSWORD''"
| "tunnel_config_error_text TcNoKnownHosts =
     ''$HOME is not set and SSH_KNOWN_HOSTS is not set either, so there is no known_hosts file to check the bastion against''"
| "tunnel_config_error_text TcBadHost = ''SSH_HOST is not a valid host name or address''"
| "tunnel_config_error_text TcBadHostKeyAccept =
     ''SSH_HOST_KEY_ACCEPT must be a SHA256:<43 base64 characters> fingerprint''"
| "tunnel_config_error_text TcPinNeedsAppFile =
     ''SSH_HOST_KEY_ACCEPT needs SSH_APP_KNOWN_HOSTS, the file the accepted key is recorded in before anything is sent''"
| "tunnel_config_error_text TcNoSshConfig =
     ''$HOME is not set and SSH_CONFIG_PATH is not set either, so there is no ssh config to read the alias from''"
| "tunnel_config_error_text (TcSshConfig m) = m"
| "tunnel_config_error_text (TcSetting e) = setting_error_text e"

fun ca_error_text :: "ca_error \<Rightarrow> bytes" where
  "ca_error_text (CaUnreadable p reason) = ''cannot read the CA file '' @ p @ '': '' @ reason"
| "ca_error_text (CaTooLarge p) =
     ''the CA file '' @ p @ '' is larger than '' @ nat_bytes MAX_CA_FILE_BYTES @ '' bytes, which is not a CA bundle''"
| "ca_error_text (CaNotPem p reason) = ''the CA file '' @ p @ '' is not valid PEM: '' @ reason"
| "ca_error_text (CaHoldsPrivateKey p) =
     ''the CA file '' @ p @ '' contains a private key; point it at the CA certificate, never at a key file''"
| "ca_error_text (CaNoCertificates p) =
     ''the CA file '' @ p @
     '' contains no PEM certificate (a DER file has to be converted first, for example with `openssl x509 -inform der`)''"
| "ca_error_text (CaTooMany p found) =
     ''the CA file '' @ p @ '' holds '' @ nat_bytes found @ '' certificates; at most '' @
     nat_bytes MAX_CA_CERTIFICATES @ '' are accepted''"
| "ca_error_text (CaBadCertificate p number reason) =
     ''certificate '' @ nat_bytes number @ '' in the CA file '' @ p @ '' cannot be used as a trust anchor: '' @ reason"

fun config_error_text :: "config_error \<Rightarrow> bytes" where
  "config_error_text (CeUnknownKind key kind) =
     ''unknown '' @ key @ '' '' @ quoted kind @ ''; expected one of trino, postgres, mysql''"
| "config_error_text CeNoHost = ''need DB_URL or DB_HOST (or TRINO_URL / TRINO_HOST)''"
| "config_error_text (CeBadScheme s) = ''DB_SCHEME must be http or https, got '' @ quoted s"
| "config_error_text (CeBadSSLMode s) =
     ''unknown sslmode '' @ quoted s @ ''; expected disable, prefer, require, verify-ca or verify-full''"
| "config_error_text (CeNoUrlHost s) = ''cannot read a host out of '' @ quoted s"
| "config_error_text (CeSetting e) = setting_error_text e"
| "config_error_text (CeUsage m) = m"
| "config_error_text (CeCa e) = ca_error_text e"
| "config_error_text (CeTunnel e) = tunnel_config_error_text e"

fun safe_mode_error_text :: "safe_mode_error \<Rightarrow> bytes" where
  "safe_mode_error_text (Refused mode index kind reason statement) =
     ''SAFE_MODE='' @ safe_mode_str mode @ '' refuses statement '' @ nat_bytes index @ '' ('' @ label kind @ ''): '' @
     reason @ '': '' @ statement"
| "safe_mode_error_text (NeedsConfirmation mode index kind reason statement) =
     ''SAFE_MODE='' @ safe_mode_str mode @ '' requires confirmation for statement '' @ nat_bytes index @ '' ('' @
     label kind @ ''): '' @ reason @ '': '' @ statement"

fun destination_error_text :: "destination_error \<Rightarrow> bytes" where
  "destination_error_text NoConnection =
     ''writing to another connection needs DEST_DB_KIND or DEST_DB_URL, and neither is set''"
| "destination_error_text NoSafeMode =
     ''writing to another connection needs DEST_SAFE_MODE (one of '' @ join '', '' SAFE_MODES @
     ''); the source'' @ [CHR 0x27] @ ''s SAFE_MODE does not apply to it''"
| "destination_error_text (UnknownSafeMode m) =
     ''unknown DEST_SAFE_MODE '' @ quoted m @ ''; expected '' @ join '', '' SAFE_MODES"
| "destination_error_text AppendMode =
     ''WRITE_MODE=append is not offered across connections; expected create or replace''"
| "destination_error_text (UnknownWriteMode m) = ''unknown WRITE_MODE '' @ quoted m @ ''; expected create or replace''"

section \<open>The error of a command\<close>

datatype error_side = SideSource | SideTarget

fun error_side_str :: "error_side \<Rightarrow> bytes" where
  "error_side_str SideSource = ''source''"
| "error_side_str SideTarget = ''target''"

text \<open>The store's errors that are worded here; any other is carried by its own text.\<close>

datatype store_error =
    DiskFull
  | SpillUnavailable bytes
  | SpillAuth
  | BudgetExceeded nat nat
  | StoreOther bytes

fun store_message :: "store_error \<Rightarrow> bytes" where
  "store_message DiskFull =
     ''the disk is full: the result no longer fits in memory and could not be spilled to disk''"
| "store_message (SpillUnavailable reason) =
     ''the result is larger than the memory budget and spilling to disk is unavailable: '' @ reason"
| "store_message SpillAuth = ''a spilled part of the result failed its integrity check''"
| "store_message (BudgetExceeded needed budget) =
     ''the result needs '' @ nat_bytes needed @ '' bytes but the memory budget is '' @ nat_bytes budget @ '' bytes''"
| "store_message (StoreOther m) = m"

datatype cli_error =
    CliUsage bytes
  | CliConnect bytes
  | CliQuery bytes
  | CliQueryAt bytes "32 word"
  | CliHostKey host_key_failure
  | CliWarned bytes "bytes list"
  | CliConfig config_error
  | CliSetting setting_error
  | CliSql sql_error
  | CliExport bytes
  | CliStorage bytes
  | CliImport bytes
  | CliRead bytes
  | CliCredential bytes
  | CliIo bytes
  | CliStore store_error
  | CliInternal bytes
  | CliSided error_side cli_error

text \<open>\<open>Display\<close>.\<close>

fun cli_text :: "cli_error \<Rightarrow> bytes" where
  "cli_text (CliUsage m) = m"
| "cli_text (CliConnect m) = m"
| "cli_text (CliQuery m) = m"
| "cli_text (CliQueryAt m position) = m"
| "cli_text (CliHostKey f) = hk_message f"
| "cli_text (CliWarned m warnings) = m"
| "cli_text (CliConfig e) = config_error_text e"
| "cli_text (CliSetting e) = setting_error_text e"
| "cli_text (CliSql e) = sql_error_text e"
| "cli_text (CliExport m) = m"
| "cli_text (CliStorage m) = m"
| "cli_text (CliImport m) = m"
| "cli_text (CliRead m) = m"
| "cli_text (CliCredential m) = m"
| "cli_text (CliIo m) = m"
| "cli_text (CliStore e) = store_message e"
| "cli_text (CliInternal m) = ''internal error: '' @ m"
| "cli_text (CliSided side e) = cli_text e"

fun cli_on :: "error_side \<Rightarrow> cli_error \<Rightarrow> cli_error" where
  "cli_on side (CliSided nearest e) = CliSided nearest e"
| "cli_on side e = CliSided side e"

fun cli_side :: "cli_error \<Rightarrow> error_side option" where
  "cli_side (CliSided side e) = Some side"
| "cli_side e = None"

fun cli_warnings :: "cli_error \<Rightarrow> bytes list" where
  "cli_warnings (CliWarned m warnings) = warnings"
| "cli_warnings (CliSided side e) = cli_warnings e"
| "cli_warnings e = []"

fun cli_position :: "cli_error \<Rightarrow> 32 word option" where
  "cli_position (CliQueryAt m position) = Some position"
| "cli_position (CliSided side e) = cli_position e"
| "cli_position e = None"

fun cli_host_key :: "cli_error \<Rightarrow> host_key_failure option" where
  "cli_host_key (CliHostKey f) = Some f"
| "cli_host_key (CliSided side e) = cli_host_key e"
| "cli_host_key e = None"

fun cli_message :: "cli_error \<Rightarrow> bytes" where
  "cli_message (CliWarned m warnings) = m"
| "cli_message (CliSided side e) = cli_message e"
| "cli_message e = cli_text e"

text \<open>\<open>From<EngineError>\<close>.\<close>

definition cli_of_engine :: "engine_error \<Rightarrow> cli_error" where
  "cli_of_engine e =
     (let m = error_message e in
      case e of
        Usage _ \<Rightarrow> CliUsage m
      | Connect _ _ \<Rightarrow> CliConnect m
      | HostKey f \<Rightarrow> CliHostKey f
      | Query _ _ (Some position) _ \<Rightarrow> CliQueryAt m position
      | Query _ _ None _ \<Rightarrow> CliQuery m
      | Timeout _ _ \<Rightarrow> CliQuery m
      | StaleHandle \<Rightarrow> CliInternal m
      | Internal _ \<Rightarrow> CliInternal m)"

lemma message_is_text [simp]: "cli_message e = cli_text e"
  by (induction e) simp_all

lemma cli_on_keeps [simp]:
  "cli_text (cli_on side e) = cli_text e" "cli_warnings (cli_on side e) = cli_warnings e"
  "cli_position (cli_on side e) = cli_position e" "cli_host_key (cli_on side e) = cli_host_key e"
  "cli_on side' (cli_on side e) = cli_on side e"
  by (cases e; simp)+

lemma cli_of_engine_keeps:
  "cli_position (cli_of_engine e) = error_position e" "cli_host_key (cli_of_engine e) = error_host_key e"
  "cli_warnings (cli_of_engine e) = []"
  by (simp_all add: cli_of_engine_def Let_def split: engine_error.split option.split)

end
