(* ===== verification/CommandGuard.thy ===== *)
theory CommandGuard
  imports CliErrors
begin

text \<open>
  The guard every command passes before it connects (\<^verbatim>\<open>crates/qh-ffi/src/commands.rs\<close>, with the log of
  \<^verbatim>\<open>execution_log.rs\<close>): which Safe Mode a run is under, what it decides about each statement, and the row it
  writes for each decision.

  The log is the list of its rows, or \<open>None\<close> when no storage is installed. Storage is a parameter: whether
  appending a row to these rows fails, and with what text.
\<close>

section \<open>The log\<close>

datatype log_decision = LogAllowed | LogConfirmed | LogRefused | LogNeedsConfirmation

fun log_decision_str :: "log_decision \<Rightarrow> bytes" where
  "log_decision_str LogAllowed = ''allowed''"
| "log_decision_str LogConfirmed = ''confirmed''"
| "log_decision_str LogRefused = ''refused''"
| "log_decision_str LogNeedsConfirmation = ''needs_confirmation''"

record decision_entry =
  de_safe_mode :: safe_mode
  de_index :: nat
  de_kind :: statement_kind
  de_statement :: bytes
  de_decision :: log_decision
  de_reason :: "bytes option"

type_synonym decision_log = "decision_entry list option"
type_synonym storage_fails = "decision_entry list \<Rightarrow> decision_entry \<Rightarrow> bytes option"

definition log_record :: "storage_fails \<Rightarrow> decision_entry \<Rightarrow> decision_log \<Rightarrow> (cli_error + unit) \<times> decision_log" where
  "log_record fails e lg =
     (case lg of
        None \<Rightarrow> (Inr (), None)
      | Some rows \<Rightarrow>
          (case fails rows e of
             Some m \<Rightarrow> (Inl (CliStorage m), Some rows)
           | None \<Rightarrow> (Inr (), Some (rows @ [e]))))"

section \<open>The mode of a run\<close>

datatype browse_level = LvCatalog | LvSchema | LvDatabase | LvTable

fun browse_level_str :: "browse_level \<Rightarrow> bytes" where
  "browse_level_str LvCatalog = ''catalog''"
| "browse_level_str LvSchema = ''schema''"
| "browse_level_str LvDatabase = ''database''"
| "browse_level_str LvTable = ''table''"

text \<open>What the commands read of a driver's \<open>Capabilities\<close>; \<open>engine\<close> is the driver of a kind.\<close>

record capabilities =
  cap_levels :: "browse_level list"
  cap_read_only :: bool

type_synonym engine = "driver_kind \<Rightarrow> capabilities"

definition parse_safe_mode_setting :: "bytes \<Rightarrow> bytes \<Rightarrow> cli_error + safe_mode" where
  "parse_safe_mode_setting raw key =
     (if trim raw = [] then Inr Full
      else (case parse_safe_mode raw of
        Some m \<Rightarrow> Inr m
      | None \<Rightarrow> Inl (CliUsage (''unknown '' @ key @ '' '' @ quoted raw @ ''; expected '' @ join '', '' SAFE_MODES))))"

definition safe_mode_floor_of :: "settings \<Rightarrow> engine \<Rightarrow> cli_error + safe_mode_floor" where
  "safe_mode_floor_of s engine =
     (case parse_safe_mode_setting (text_setting s ''SAFE_MODE'' []) ''SAFE_MODE'' of
        Inl e \<Rightarrow> Inl e
      | Inr user \<Rightarrow>
          (let fl = floor_raise User user floor_new;
               fl = (if flag_setting s ''DB_READ_ONLY'' False then floor_raise Connection ReadOnly fl else fl);
               fl = (case driver_kind_parse (text_setting s ''DB_KIND'' []) of
                       Some kind \<Rightarrow> if cap_read_only (engine kind) then floor_raise Driver ReadOnly fl else fl
                     | None \<Rightarrow> fl);
               pinned = text_setting s ''SAFE_MODE_FLOOR'' [] in
           if pinned = [] then Inr fl
           else (case parse_safe_mode_setting pinned ''SAFE_MODE_FLOOR'' of
                   Inl e \<Rightarrow> Inl e
                 | Inr m \<Rightarrow> Inr (floor_raise Policy m fl))))"

definition run_safe_mode :: "settings \<Rightarrow> engine \<Rightarrow> cli_error + safe_mode" where
  "run_safe_mode s engine =
     (case safe_mode_floor_of s engine of
        Inl e \<Rightarrow> Inl e
      | Inr fl \<Rightarrow> Inr (case floor_resolve fl of Some (m, source) \<Rightarrow> m | None \<Rightarrow> Full))"

definition safe_mode_confirmed :: "settings \<Rightarrow> bool" where
  "safe_mode_confirmed s = flag_setting s ''SAFE_MODE_CONFIRMED'' False"

section \<open>The guards\<close>

definition log_decision_of :: "safe_mode_error option \<Rightarrow> decision \<Rightarrow> log_decision" where
  "log_decision_of err d =
     (case (err, d) of
        (None, AskConfirm) \<Rightarrow> LogConfirmed
      | (None, _) \<Rightarrow> LogAllowed
      | (Some _, AskConfirm) \<Rightarrow> LogNeedsConfirmation
      | (Some _, _) \<Rightarrow> LogRefused)"

text \<open>The row of one decision: a reason is recorded only where the statement did not run.\<close>

definition entry_of :: "safe_mode \<Rightarrow> bool \<Rightarrow> statement_decision \<Rightarrow> decision_entry" where
  "entry_of mode confirmed d =
     (let err = refusal_error d mode confirmed in
      \<lparr>de_safe_mode = mode, de_index = sd_index d, de_kind = sd_kind d, de_statement = sd_statement d,
       de_decision = log_decision_of err (sd_decision d),
       de_reason = (if err = None then None else sd_reason d)\<rparr>)"

definition record_decision ::
  "storage_fails \<Rightarrow> safe_mode \<Rightarrow> bool \<Rightarrow> statement_decision \<Rightarrow> decision_log
     \<Rightarrow> (cli_error + safe_mode_error option) \<times> decision_log" where
  "record_decision fails mode confirmed d lg =
     (case log_record fails (entry_of mode confirmed d) lg of
        (Inl e, lg) \<Rightarrow> (Inl e, lg)
      | (Inr _, lg) \<Rightarrow> (Inr (refusal_error d mode confirmed), lg))"

fun guard_statements ::
  "storage_fails \<Rightarrow> safe_mode \<Rightarrow> bool \<Rightarrow> statement_decision list \<Rightarrow> decision_log \<Rightarrow> (cli_error + unit) \<times> decision_log" where
  "guard_statements fails mode confirmed [] lg = (Inr (), lg)"
| "guard_statements fails mode confirmed (d # ds) lg =
     (case record_decision fails mode confirmed d lg of
        (Inl e, lg) \<Rightarrow> (Inl e, lg)
      | (Inr (Some err), lg) \<Rightarrow> (Inl (CliUsage (safe_mode_error_text err)), lg)
      | (Inr None, lg) \<Rightarrow> guard_statements fails mode confirmed ds lg)"

definition guard_confirmed ::
  "storage_fails \<Rightarrow> safe_mode \<Rightarrow> bool \<Rightarrow> bytes \<Rightarrow> dialect \<Rightarrow> decision_log \<Rightarrow> (cli_error + unit) \<times> decision_log" where
  "guard_confirmed fails mode confirmed sql d lg =
     guard_statements fails mode confirmed (decisions_readings mode sql (readings d)) lg"

definition guard :: "storage_fails \<Rightarrow> safe_mode \<Rightarrow> bytes \<Rightarrow> dialect \<Rightarrow> decision_log \<Rightarrow> (cli_error + unit) \<times> decision_log" where
  "guard fails mode sql d lg = guard_confirmed fails mode False sql d lg"

definition guard_for ::
  "storage_fails \<Rightarrow> env \<Rightarrow> ca_fns \<Rightarrow> settings \<Rightarrow> safe_mode \<Rightarrow> bytes \<Rightarrow> decision_log \<Rightarrow> (cli_error + unit) \<times> decision_log" where
  "guard_for fails env cf s mode sql lg =
     guard_confirmed fails mode (safe_mode_confirmed s) sql (run_dialect env cf s) lg"

definition ANALYZE_READ_ONLY_REASON :: bytes where
  "ANALYZE_READ_ONLY_REASON = ''EXPLAIN ANALYZE runs the statement, so it is offered for reads only''"

definition REQUIRE_READ_REASON :: bytes where
  "REQUIRE_READ_REASON =
     ''this run repeats a result that was already read, so it is offered for reads only (REQUIRE_READ)''"

text \<open>
  \<open>require_read\<close>: the first statement that \<open>read_only\<close> does not simply allow is recorded as refused. A
  refused decision always raises an error, so the \<open>expect\<close> of the source is never reached; its branch is an
  internal error here.
\<close>

fun first_not_read :: "statement_decision list \<Rightarrow> statement_decision option" where
  "first_not_read [] = None"
| "first_not_read (d # ds) = (if is_allowed (sd_decision d) then first_not_read ds else Some d)"

definition require_read ::
  "storage_fails \<Rightarrow> env \<Rightarrow> ca_fns \<Rightarrow> settings \<Rightarrow> safe_mode \<Rightarrow> bytes \<Rightarrow> bytes \<Rightarrow> decision_log
     \<Rightarrow> (cli_error + unit) \<times> decision_log" where
  "require_read fails env cf s mode sql reason lg =
     (case first_not_read (decisions_readings ReadOnly sql (readings (run_dialect env cf s))) of
        None \<Rightarrow> (Inr (), lg)
      | Some d \<Rightarrow>
          (case record_decision fails mode False (d\<lparr>sd_decision := Refuse, sd_reason := Some reason\<rparr>) lg of
             (Inl e, lg) \<Rightarrow> (Inl e, lg)
           | (Inr (Some err), lg) \<Rightarrow> (Inl (CliUsage (safe_mode_error_text err)), lg)
           | (Inr None, lg) \<Rightarrow> (Inl (CliInternal ''a refused decision raises an error''), lg)))"

definition analyze_requires_read ::
  "storage_fails \<Rightarrow> env \<Rightarrow> ca_fns \<Rightarrow> settings \<Rightarrow> safe_mode \<Rightarrow> bytes \<Rightarrow> decision_log
     \<Rightarrow> (cli_error + unit) \<times> decision_log" where
  "analyze_requires_read fails env cf s mode sql lg =
     require_read fails env cf s mode sql ANALYZE_READ_ONLY_REASON lg"

definition DESTRUCTIVE_CONFIRM_REASON :: bytes where
  "DESTRUCTIVE_CONFIRM_REASON =
     ''a destructive table operation runs on a confirm connection only after an explicit confirmation (SAFE_MODE_CONFIRMED=1)''"

text \<open>\<open>destructive_mode_of\<close>: an entry of the floor that refuses DDL decides first, then one that asks.\<close>

definition destructive_mode_of :: "safe_mode_floor \<Rightarrow> safe_mode" where
  "destructive_mode_of fl =
     (case max_by_key strictness (filter (\<lambda>m. m \<in> {NoDdl, ReadOnly}) (map snd (floor_entries fl))) of
        Some m \<Rightarrow> m
      | None \<Rightarrow> if Confirm \<in> set (map snd (floor_entries fl)) then Confirm else Full)"

definition guard_destructive_mode ::
  "storage_fails \<Rightarrow> safe_mode \<Rightarrow> bool \<Rightarrow> dialect \<Rightarrow> bytes \<Rightarrow> decision_log \<Rightarrow> (cli_error + unit) \<times> decision_log" where
  "guard_destructive_mode fails mode confirmed d statement lg =
     (let kind = classify_readings statement (readings d);
          (decision, reason) = (case mode of
              Full \<Rightarrow> (Allow, None)
            | NoDdl \<Rightarrow> (Refuse, refusal mode kind)
            | ReadOnly \<Rightarrow> (Refuse, refusal mode kind)
            | Confirm \<Rightarrow> (AskConfirm, Some DESTRUCTIVE_CONFIRM_REASON)) in
      guard_statements fails mode confirmed
        [\<lparr>sd_index = 1, sd_kind = kind, sd_statement = statement, sd_decision = decision, sd_reason = reason\<rparr>] lg)"

definition guard_destructive ::
  "storage_fails \<Rightarrow> env \<Rightarrow> ca_fns \<Rightarrow> settings \<Rightarrow> engine \<Rightarrow> bytes \<Rightarrow> decision_log \<Rightarrow> (cli_error + unit) \<times> decision_log" where
  "guard_destructive fails env cf s engine statement lg =
     (case safe_mode_floor_of s engine of
        Inl e \<Rightarrow> (Inl e, lg)
      | Inr fl \<Rightarrow>
          guard_destructive_mode fails (destructive_mode_of fl) (safe_mode_confirmed s) (run_dialect env cf s) statement lg)"

definition record_kind ::
  "storage_fails \<Rightarrow> safe_mode \<Rightarrow> statement_kind \<Rightarrow> bytes \<Rightarrow> decision_log \<Rightarrow> (cli_error + unit) \<times> decision_log" where
  "record_kind fails mode kind subject lg =
     (case record_decision fails mode False
        \<lparr>sd_index = 1, sd_kind = kind, sd_statement = subject, sd_decision = decide mode kind, sd_reason = refusal mode kind\<rparr> lg of
        (Inl e, lg) \<Rightarrow> (Inl e, lg)
      | (Inr _, lg) \<Rightarrow> (Inr (), lg))"

section \<open>What a command reads of its settings\<close>

definition run_timeout :: "settings \<Rightarrow> cli_error + int option" where
  "run_timeout s =
     (case non_negative s ''STATEMENT_TIMEOUT_MS'' 0 of
        Inl e \<Rightarrow> Inl (CliSetting e)
      | Inr ms \<Rightarrow> Inr (if 0 < ms then Some ms else None))"

datatype explain_format = ExplainText | ExplainJson

definition explain_options :: "settings \<Rightarrow> cli_error + explain_format \<times> bool" where
  "explain_options s =
     (let f = to_ascii_lowercase (trim (text_setting s ''EXPLAIN_FORMAT'' [])) in
      if f = [] \<or> f = ''text'' then Inr (ExplainText, flag_setting s ''EXPLAIN_ANALYZE'' False)
      else if f = ''json'' then Inr (ExplainJson, flag_setting s ''EXPLAIN_ANALYZE'' False)
      else Inl (CliUsage (''unknown EXPLAIN_FORMAT '' @ quoted f @ ''; expected text, json'')))"

record object_path =
  op_catalog :: "bytes option"
  op_schema :: "bytes option"
  op_table :: "bytes option"

definition path_for :: "connection_config \<Rightarrow> object_path" where
  "path_for c =
     (let p = \<lparr>op_catalog = None, op_schema = None, op_table = None\<rparr>;
          p = (case c_kind c of
                 KTrino \<Rightarrow> p\<lparr>op_catalog := c_database c\<rparr>
               | KPostgres \<Rightarrow> p\<lparr>op_schema := c_schema c\<rparr>
               | KMysql \<Rightarrow> p\<lparr>op_schema := c_database c\<rparr>) in
      p\<lparr>op_schema := (case op_schema p of Some x \<Rightarrow> Some x | None \<Rightarrow> c_schema c)\<rparr>)"

definition LISTING_LEVELS :: "browse_level list" where
  "LISTING_LEVELS = [LvCatalog, LvDatabase]"

fun level_command :: "browse_level \<Rightarrow> bytes" where
  "level_command LvCatalog = ''catalogs''"
| "level_command LvDatabase = ''catalogs''"
| "level_command LvSchema = ''schemas''"
| "level_command LvTable = ''tables''"

fun push_new :: "bytes list \<Rightarrow> bytes list \<Rightarrow> bytes list" where
  "push_new [] acc = acc"
| "push_new (x # xs) acc = push_new xs (if x \<in> set acc then acc else acc @ [x])"

definition instead_of :: "driver_kind \<Rightarrow> browse_level list \<Rightarrow> bytes" where
  "instead_of kind levels =
     (case push_new (map level_command levels) [] of
        [] \<Rightarrow> driver_kind_str kind @ '' lists no level at all''
      | [only] \<Rightarrow> ''use '' @ only @ '' instead''
      | [first, second] \<Rightarrow> ''use '' @ first @ '' or '' @ second @ '' instead''
      | commands \<Rightarrow>
          ''use '' @ join '', '' (butlast commands) @ '' or '' @ List.last commands @ '' instead'')"

definition level_for :: "engine \<Rightarrow> driver_kind \<Rightarrow> browse_level list \<Rightarrow> bytes \<Rightarrow> cli_error + browse_level" where
  "level_for engine kind accepted level_name =
     (let levels = cap_levels (engine kind) in
      case List.find (\<lambda>l. l \<in> set levels) accepted of
        Some l \<Rightarrow> Inr l
      | None \<Rightarrow>
          (case accepted of
             l # _ \<Rightarrow>
               if l \<in> set LISTING_LEVELS then Inr l
               else Inl (CliUsage (driver_kind_str kind @ '' has no '' @ level_name @ '' level; '' @ instead_of kind levels))
           | [] \<Rightarrow>
               Inl (CliUsage (driver_kind_str kind @ '' has no '' @ level_name @ '' level; '' @ instead_of kind levels))))"

definition expand_user :: "env \<Rightarrow> path \<Rightarrow> path" where
  "expand_user env p =
     (if prefix ''~/'' p then
        (case en_home env of
           Some home \<Rightarrow> if home \<noteq> [] then path_join home (drop 2 p) else p
         | None \<Rightarrow> p)
      else p)"

definition source_sql :: "env \<Rightarrow> settings \<Rightarrow> cli_error + bytes" where
  "source_sql env s =
     (let sql = raw_setting s ''SQL'' [] in
      if trim sql \<noteq> [] then Inr sql
      else (let named = text_setting s ''SQL_PATH'' [] in
        if named = [] then Inl (CliUsage ''SQL or SQL_PATH is required'')
        else (case pd_text (en_disk env) (expand_user env named) of
                Inr t \<Rightarrow> Inr t
              | Inl reason \<Rightarrow>
                  Inl (CliUsage (''cannot read SQL_PATH '' @ quoted (expand_user env named) @ '': '' @ reason)))))"

end
