(* ===== verification/TableSwap.thy ===== *)
theory TableSwap
  imports CommandGuard SqlIdent MySqlText
begin

text \<open>
  Writing the rows of a query into a table (\<open>to_table\<close> of \<^verbatim>\<open>crates/qh-ffi/src/commands.rs\<close>) and the swap behind
  its \<open>replace\<close> mode (\<^verbatim>\<open>table_swap.rs\<close>).

  The session is a function of a state and a text to an answer and a state: the pages its cursor gives, with
  how it ended and the affected rows, or the error of \<open>execute\<close>. The bound of a statement is part of the
  session. A Stop is an event from outside: where it arrives is a parameter of the definitions.
\<close>

section \<open>The plan\<close>

record replacement =
  rp_scratch_ref :: bytes
  rp_backup_ref :: bytes
  rp_build :: bytes
  rp_probe :: bytes
  rp_drop_scratch :: bytes
  rp_install :: "bytes list"
  rp_swap :: "bytes list"
  rp_undo :: "bytes option"
  rp_drop_old :: "bytes option"
  rp_atomic :: bool

text \<open>A string as a SQL literal; only MySQL reads a backslash in one as an escape.\<close>

definition sql_literal :: "driver_kind \<Rightarrow> bytes \<Rightarrow> bytes" where
  "sql_literal kind s =
     quoted (double_char (CHR 0x27) (if kind = KMysql then double_char (CHR 0x5C) s else s))"

fun hex_digits :: "nat \<Rightarrow> nat \<Rightarrow> bytes" where
  "hex_digits 0 n = []"
| "hex_digits (Suc w) n = hex_digits w (n div 16) @ [hex_digit (n mod 16)]"

text \<open>
  \<open>scratch_stamp\<close>, of the nanoseconds of the clock and the counter: 40 bits and 8, which fit the widths
  \<open>{:010x}\<close> and \<open>{:02x}\<close> exactly.
\<close>

definition scratch_stamp :: "nat \<Rightarrow> nat \<Rightarrow> bytes" where
  "scratch_stamp nanos counter = hex_digits 10 (nanos mod 2 ^ 40) @ hex_digits 2 (counter mod 2 ^ 8)"

definition probe_text :: "slot_style \<Rightarrow> bytes \<Rightarrow> bytes \<Rightarrow> bytes \<Rightarrow> bytes" where
  "probe_text style catalog schema tbl =
     (let lit = sql_literal (style_kind style) in
      case style_kind style of
        KPostgres \<Rightarrow>
          ''SELECT COUNT(*) FROM information_schema.tables WHERE table_schema = '' @ lit schema @ '' AND table_name = '' @ lit tbl
      | KMysql \<Rightarrow>
          ''SELECT COUNT(*) FROM information_schema.tables WHERE table_schema = '' @ lit catalog @ '' AND table_name = '' @ lit tbl
      | KTrino \<Rightarrow>
          ''SELECT COUNT(*) FROM '' @ quote_ident (style_ident style) catalog @
          ''.information_schema.tables WHERE table_schema = '' @ lit schema @ '' AND table_name = '' @ lit tbl)"

definition replacement_plan :: "slot_style \<Rightarrow> bytes \<Rightarrow> bytes \<Rightarrow> bytes \<Rightarrow> bytes \<Rightarrow> bytes \<Rightarrow> replacement" where
  "replacement_plan style catalog schema tbl body stamp =
     (let scratch_name = ''qh_new_'' @ stamp;
          backup_name = ''qh_old_'' @ stamp;
          at = qualified_name style catalog schema;
          target = at tbl; scratch = at scratch_name; backup = at backup_name;
          plan = \<lparr>rp_scratch_ref = reference style catalog schema scratch_name,
            rp_backup_ref = reference style catalog schema backup_name,
            rp_build = ''CREATE TABLE '' @ scratch @ '' AS '' @ body,
            rp_probe = probe_text style catalog schema tbl,
            rp_drop_scratch = ''DROP TABLE IF EXISTS '' @ scratch,
            rp_install = [], rp_swap = [], rp_undo = None, rp_drop_old = None, rp_atomic = False\<rparr> in
      case style_kind style of
        KPostgres \<Rightarrow>
          (let moved = [''BEGIN'', ''DROP TABLE IF EXISTS '' @ target,
             ''ALTER TABLE '' @ scratch @ '' RENAME TO '' @ quote_ident (style_ident style) tbl, ''COMMIT''] in
           plan\<lparr>rp_install := moved, rp_swap := moved, rp_atomic := True\<rparr>)
      | KMysql \<Rightarrow>
          plan\<lparr>rp_install := [''RENAME TABLE '' @ scratch @ '' TO '' @ target],
            rp_swap := [''RENAME TABLE '' @ target @ '' TO '' @ backup @ '', '' @ scratch @ '' TO '' @ target],
            rp_drop_old := Some (''DROP TABLE '' @ backup)\<rparr>
      | KTrino \<Rightarrow>
          plan\<lparr>rp_install := [''ALTER TABLE '' @ scratch @ '' RENAME TO '' @ target],
            rp_swap := [''ALTER TABLE '' @ target @ '' RENAME TO '' @ backup,
              ''ALTER TABLE '' @ scratch @ '' RENAME TO '' @ target],
            rp_undo := Some (''ALTER TABLE '' @ backup @ '' RENAME TO '' @ target),
            rp_drop_old := Some (''DROP TABLE '' @ backup)\<rparr>)"

definition option_list :: "'a option \<Rightarrow> 'a list" where
  "option_list x = (case x of None \<Rightarrow> [] | Some y \<Rightarrow> [y])"

definition plan_statements :: "replacement \<Rightarrow> bytes list" where
  "plan_statements p =
     [rp_build p] @ rp_swap p @ (if rp_atomic p then [] else rp_install p) @
     option_list (rp_undo p) @ option_list (rp_drop_old p) @ [rp_drop_scratch p]"

section \<open>The session\<close>

text \<open>A page is its columns, a column its cells.\<close>

datatype answer =
    AnsError engine_error
  | AnsPages "sql_value list list list" "engine_error option" "64 word option"

type_synonym 's session = "bytes \<Rightarrow> 's \<Rightarrow> answer \<times> 's"

definition counts_a_table :: "sql_value \<Rightarrow> bool" where
  "counts_a_table v =
     (case v of
        VInt n \<Rightarrow> 0 < n
      | VUInt n \<Rightarrow> 0 < n
      | VDecimal unscaled scale \<Rightarrow> 0 < unscaled
      | VText t \<Rightarrow> (case parse_u64 (trim t) of None \<Rightarrow> True | Some n \<Rightarrow> 0 < n)
      | _ \<Rightarrow> True)"

definition finish_statement :: "'s session \<Rightarrow> bytes \<Rightarrow> 's \<Rightarrow> (cli_error + 64 word option) \<times> 's" where
  "finish_statement sv sql s =
     (case sv sql s of
        (AnsError e, s) \<Rightarrow> (Inl (cli_of_engine e), s)
      | (AnsPages pages (Some e) n, s) \<Rightarrow> (Inl (cli_of_engine e), s)
      | (AnsPages pages None n, s) \<Rightarrow> (Inr n, s))"

definition page_found :: "sql_value list list \<Rightarrow> bool" where
  "page_found columns = (case columns of (v # vs) # cs \<Rightarrow> counts_a_table v | _ \<Rightarrow> False)"

definition table_exists :: "'s session \<Rightarrow> bytes \<Rightarrow> 's \<Rightarrow> (cli_error + bool) \<times> 's" where
  "table_exists sv probe s =
     (case sv probe s of
        (AnsError e, s) \<Rightarrow> (Inl (cli_of_engine e), s)
      | (AnsPages pages (Some e) n, s) \<Rightarrow> (Inl (cli_of_engine e), s)
      | (AnsPages pages None n, s) \<Rightarrow> (Inr (list_ex page_found pages), s))"

datatype built = Finished "64 word option" | Stopped bool

text \<open>
  \<open>run_stoppable\<close>. \<open>StoppedAt reusable s\<close> is a Stop that ended the wait: whether the connection was released in
  time (always, when \<open>execute\<close> had not answered yet) and the state the server was left in.
\<close>

datatype 's stop = NoStop | StoppedAt bool 's

definition run_stoppable :: "'s session \<Rightarrow> 's stop \<Rightarrow> bytes \<Rightarrow> 's \<Rightarrow> (cli_error + built) \<times> 's" where
  "run_stoppable sv stp sql s =
     (case stp of
        StoppedAt reusable s' \<Rightarrow> (Inr (Stopped reusable), s')
      | NoStop \<Rightarrow>
          (case finish_statement sv sql s of
             (Inl e, s) \<Rightarrow> (Inl e, s)
           | (Inr n, s) \<Rightarrow> (Inr (Finished n), s)))"

section \<open>The swap\<close>

text \<open>The warnings are threaded through, as the source's \<open>&mut Vec\<close>.\<close>

definition discard_scratch :: "'s session \<Rightarrow> replacement \<Rightarrow> bool \<Rightarrow> bytes list \<Rightarrow> 's \<Rightarrow> bytes list \<times> 's" where
  "discard_scratch sv p reusable ws s =
     (let left_behind = (\<lambda>e. ''the temporary table '' @ rp_scratch_ref p @ '' was left behind: '' @ cli_message e) in
      if reusable then
        (case finish_statement sv (rp_drop_scratch p) s of
           (Inl e, s) \<Rightarrow> (ws @ [left_behind e], s)
         | (Inr n, s) \<Rightarrow> (ws, s))
      else (ws @ [left_behind (CliQuery ''the server did not release the connection'')], s))"

definition untouched :: "bytes \<Rightarrow> bytes" where
  "untouched name = ''the existing table '' @ name @ '' was left as it was''"

definition replaced_notice :: "bytes \<Rightarrow> bytes" where
  "replaced_notice name = ''replaced the existing table '' @ name"

definition moved_away :: "bytes \<Rightarrow> replacement \<Rightarrow> bytes" where
  "moved_away name p =
     ''the existing table '' @ name @ '' is now '' @ rp_backup_ref p @
     '' and could not be renamed back; this run'' @ [CHR 0x27] @ ''s rows are in '' @ rp_scratch_ref p"

text \<open>The steps, until one fails: its index and its error.\<close>

fun swap_steps :: "'s session \<Rightarrow> nat \<Rightarrow> bytes list \<Rightarrow> 's \<Rightarrow> (nat \<times> cli_error) option \<times> 's" where
  "swap_steps sv i [] s = (None, s)"
| "swap_steps sv i (sql # rest) s =
     (case finish_statement sv sql s of
        (Inl e, s) \<Rightarrow> (Some (i, e), s)
      | (Inr n, s) \<Rightarrow> swap_steps sv (Suc i) rest s)"

text \<open>After a step failed: whether the old table is taken to be back.\<close>

definition put_back :: "'s session \<Rightarrow> replacement \<Rightarrow> nat \<Rightarrow> 's \<Rightarrow> bool \<times> 's" where
  "put_back sv p index s =
     (if rp_atomic p then (True, snd (finish_statement sv ''ROLLBACK'' s))
      else if 0 < index then
        (case rp_undo p of
           Some undo \<Rightarrow> (case finish_statement sv undo s of (Inl e, s) \<Rightarrow> (False, s) | (Inr n, s) \<Rightarrow> (True, s))
         | None \<Rightarrow> (True, s))
      else (True, s))"

definition discarded :: "'s session \<Rightarrow> replacement \<Rightarrow> bytes \<Rightarrow> bool \<Rightarrow> bytes list \<Rightarrow> 's \<Rightarrow> bytes list \<times> 's" where
  "discarded sv p name reusable ws s =
     (case discard_scratch sv p reusable ws s of (ws, s) \<Rightarrow> (ws @ [untouched name], s))"

text \<open>The swap and what follows it, once the new table is built and it is known whether there is an old one.\<close>

definition swap_in :: "'s session \<Rightarrow> replacement \<Rightarrow> bytes \<Rightarrow> bool \<Rightarrow> bytes list \<Rightarrow> 's \<Rightarrow> (cli_error + bool) \<times> bytes list \<times> 's" where
  "swap_in sv p name existed ws s =
     (let ws = (if existed then ws @ [replaced_notice name] else ws) in
      case swap_steps sv 0 (if existed then rp_swap p else rp_install p) s of
        (Some (index, e), s) \<Rightarrow>
          (case put_back sv p index s of
             (True, s) \<Rightarrow>
               (case discarded sv p name True (filter (\<lambda>w. w \<noteq> replaced_notice name) ws) s of
                  (ws, s) \<Rightarrow> (Inl e, ws, s))
           | (False, s) \<Rightarrow> (Inl e, ws @ [moved_away name p], s))
      | (None, s) \<Rightarrow>
          (case (if existed then rp_drop_old p else None) of
             None \<Rightarrow> (Inr False, ws, s)
           | Some drop_old \<Rightarrow>
               (case finish_statement sv drop_old s of
                  (Inl e, s) \<Rightarrow>
                    (Inr False, ws @ [''the new table is in place, and the old one is kept as '' @
                       rp_backup_ref p @ '': '' @ cli_message e], s)
                | (Inr n, s) \<Rightarrow> (Inr False, ws, s))))"

text \<open>
  \<open>replace_table\<close>: \<open>stp\<close> is a Stop during the build, \<open>late\<close> one that arrived by its end. The result is whether a
  Stop ended it, with the affected rows and the warnings.
\<close>

definition replace_table ::
  "'s session \<Rightarrow> replacement \<Rightarrow> bytes \<Rightarrow> 's stop \<Rightarrow> bool \<Rightarrow> 64 word option \<Rightarrow> bytes list \<Rightarrow> 's
     \<Rightarrow> (cli_error + bool) \<times> 64 word option \<times> bytes list \<times> 's" where
  "replace_table sv p name stp late affected ws s =
     (case run_stoppable sv stp (rp_build p) s of
        (Inl e, s) \<Rightarrow> (case discarded sv p name True ws s of (ws, s) \<Rightarrow> (Inl e, affected, ws, s))
      | (Inr (Stopped reusable), s) \<Rightarrow>
          (case discarded sv p name reusable ws s of (ws, s) \<Rightarrow> (Inr True, affected, ws, s))
      | (Inr (Finished n), s) \<Rightarrow>
          (if late then (case discarded sv p name True ws s of (ws, s) \<Rightarrow> (Inr True, n, ws, s))
           else (case table_exists sv (rp_probe p) s of
             (Inl e, s) \<Rightarrow> (case discarded sv p name True ws s of (ws, s) \<Rightarrow> (Inl e, n, ws, s))
           | (Inr existed, s) \<Rightarrow> (case swap_in sv p name existed ws s of (r, ws, s) \<Rightarrow> (r, n, ws, s)))))"

section \<open>The command\<close>

definition target_of :: "settings \<Rightarrow> bytes \<Rightarrow> bytes" where
  "target_of s key = text_setting s key []"

definition missing_targets :: "settings \<Rightarrow> slot_style \<Rightarrow> bytes list" where
  "missing_targets s style = filter (\<lambda>t. target_of s t = []) (map target (slots style))"

text \<open>A blank \<open>WRITE_MODE\<close> that was sent is a mode nobody can name, not a default.\<close>

definition write_mode :: "settings \<Rightarrow> cli_error + bytes" where
  "write_mode s =
     (let raw = setting s ''WRITE_MODE'';
          stripped = (case raw of None \<Rightarrow> [] | Some m \<Rightarrow> to_ascii_lowercase (trim m));
          mode = (if stripped \<noteq> [] then stripped else if raw = None then ''create'' else []) in
      if mode \<in> {''create'', ''replace'', ''append''} then Inr mode
      else Inl (CliUsage (''unknown WRITE_MODE '' @ quoted stripped @ ''; expected create, replace or append'')))"

text \<open>\<open>trim\<close>, then \<open>trim_end_matches(';')\<close>.\<close>

definition write_body :: "bytes \<Rightarrow> bytes" where
  "write_body sql = rev (dropWhile (\<lambda>c. c = CHR '';'') (rev (trim sql)))"

text \<open>What will be sent, decided before the connect: the plan of a replace, and its statements.\<close>

definition write_plan :: "settings \<Rightarrow> slot_style \<Rightarrow> bytes \<Rightarrow> bytes \<Rightarrow> bytes \<Rightarrow> replacement option \<times> bytes list" where
  "write_plan s style mode sql stamp =
     (let c = target_of s ''TARGET_CATALOG''; sch = target_of s ''TARGET_SCHEMA''; tbl = target_of s ''TARGET_TABLE'';
          into = qualified_name style c sch tbl;
          body = write_body sql in
      if mode = ''replace'' then
        (let p = replacement_plan style c sch tbl body stamp in (Some p, plan_statements p))
      else if mode = ''append'' then (None, [''INSERT INTO '' @ into @ '' '' @ body])
      else (None, [''CREATE TABLE '' @ into @ '' AS '' @ body]))"

fun guard_all ::
  "storage_fails \<Rightarrow> env \<Rightarrow> ca_fns \<Rightarrow> settings \<Rightarrow> safe_mode \<Rightarrow> bytes list \<Rightarrow> decision_log \<Rightarrow> (cli_error + unit) \<times> decision_log" where
  "guard_all fails env cf s mode [] lg = (Inr (), lg)"
| "guard_all fails env cf s mode (sql # sqls) lg =
     (case guard_for fails env cf s mode sql lg of
        (Inl e, lg) \<Rightarrow> (Inl e, lg)
      | (Inr _, lg) \<Rightarrow> guard_all fails env cf s mode sqls lg)"

text \<open>
  \<open>to_table\<close> up to the connect: what it refuses, and what it will do. A run with a destination is handed to the
  transfer before anything is guarded.
\<close>

datatype to_table_start = ToTransfer destination | ToWrite "replacement option" "bytes list" bytes

definition to_table_plan ::
  "storage_fails \<Rightarrow> env \<Rightarrow> ca_fns \<Rightarrow> engine \<Rightarrow> settings \<Rightarrow> bytes \<Rightarrow> decision_log \<Rightarrow> (cli_error + to_table_start) \<times> decision_log" where
  "to_table_plan fails env cf engine s stamp lg =
     (case destination_of s of
        Inl e \<Rightarrow> (Inl (CliUsage (destination_error_text e)), lg)
      | Inr (Some d) \<Rightarrow> (Inr (ToTransfer d), lg)
      | Inr None \<Rightarrow>
     (case source_sql env s of Inl e \<Rightarrow> (Inl e, lg) | Inr sql \<Rightarrow>
     (case run_safe_mode s engine of Inl e \<Rightarrow> (Inl e, lg) | Inr safe \<Rightarrow>
     (case run_timeout s of Inl e \<Rightarrow> (Inl e, lg) | Inr timeout \<Rightarrow>
     (case connection env cf s of Inl e \<Rightarrow> (Inl (CliConfig e), lg) | Inr c \<Rightarrow>
       (let style = slot_style_of (c_kind c); missing = missing_targets s style in
        if missing \<noteq> [] then (Inl (CliUsage (join '' and '' missing @ '' required to write a table'')), lg)
        else (case write_mode s of Inl e \<Rightarrow> (Inl e, lg) | Inr mode \<Rightarrow>
          (case write_plan s style mode sql stamp of (p, sqls) \<Rightarrow>
            (case guard_all fails env cf s safe sqls lg of
               (Inl e, lg) \<Rightarrow> (Inl e, lg)
             | (Inr _, lg) \<Rightarrow>
                 (Inr (ToWrite p sqls (reference style (target_of s ''TARGET_CATALOG'') (target_of s ''TARGET_SCHEMA'')
                    (target_of s ''TARGET_TABLE''))), lg))))))))))"

text \<open>What is written, and how the run ends: the rows (\<open>-1\<close> when the server did not say), whether it was stopped, the warnings.\<close>

definition CANCEL_WARNING :: bytes where
  "CANCEL_WARNING = ''stopped before the statement finished''"

definition to_table_write ::
  "'s session \<Rightarrow> replacement option \<Rightarrow> bytes list \<Rightarrow> bytes \<Rightarrow> bool \<Rightarrow> 's stop \<Rightarrow> bool \<Rightarrow> 's
     \<Rightarrow> (cli_error + int \<times> bool \<times> bytes list) \<times> 's" where
  "to_table_write sv plan sqls name early stp late s =
     (let (outcome, affected, ws, s) =
        (if early then (Inr True, None, [], s)
         else (case plan of
             Some p \<Rightarrow> replace_table sv p name stp late None [] s
           | None \<Rightarrow>
               (case run_stoppable sv stp (hd sqls) s of
                  (Inl e, s) \<Rightarrow> (Inl e, None, [], s)
                | (Inr (Stopped reusable), s) \<Rightarrow> (Inr True, None, [], s)
                | (Inr (Finished n), s) \<Rightarrow> (Inr False, n, [], s)))) in
      case outcome of
        Inl e \<Rightarrow> (Inl (if ws = [] then e else CliWarned (cli_message e) ws), s)
      | Inr stopped \<Rightarrow>
          (Inr ((case affected of Some n \<Rightarrow> min (uint n) (2 ^ 63 - 1) | None \<Rightarrow> - 1), stopped,
             ws @ (if stopped \<and> CANCEL_WARNING \<notin> set ws then [CANCEL_WARNING] else [])), s))"

end
