(* ===== verification/GuardSafety.thy ===== *)
theory GuardSafety
  imports CommandGuard ConnSafety
begin

text \<open>
  What the guard promises: it runs a script exactly when the classifier's check accepts it, what it decided is
  in the log before the script runs, and no setting lets a run below a floor.
\<close>

section \<open>The guard and its log\<close>

text \<open>A statement runs when its decision raises no error.\<close>

definition runs_as :: "safe_mode \<Rightarrow> bool \<Rightarrow> statement_decision \<Rightarrow> bool" where
  "runs_as mode confirmed d \<longleftrightarrow> refusal_error d mode confirmed = None"

text \<open>The log after the rows of these decisions.\<close>

definition logged :: "safe_mode \<Rightarrow> bool \<Rightarrow> statement_decision list \<Rightarrow> decision_log \<Rightarrow> decision_log" where
  "logged mode confirmed ds lg = map_option (\<lambda>rows. rows @ map (entry_of mode confirmed) ds) lg"

lemma logged_Nil [simp]: "logged mode confirmed [] lg = lg"
  by (simp add: logged_def option.map_ident)

lemma logged_append [simp]: "logged mode confirmed ys (logged mode confirmed xs lg) = logged mode confirmed (xs @ ys) lg"
  by (cases lg) (simp_all add: logged_def)

lemma record_decision_cases:
  obtains (failed) rows m where "lg = Some rows" "fails rows (entry_of mode confirmed d) = Some m"
      "record_decision fails mode confirmed d lg = (Inl (CliStorage m), lg)"
  | (recorded) "record_decision fails mode confirmed d lg =
      (Inr (refusal_error d mode confirmed), logged mode confirmed [d] lg)"
proof (cases lg)
  case None
  then show ?thesis by (intro recorded) (simp add: record_decision_def log_record_def logged_def)
next
  case (Some rows)
  show ?thesis
  proof (cases "fails rows (entry_of mode confirmed d)")
    case None
    with Some show ?thesis by (intro recorded) (simp add: record_decision_def log_record_def logged_def)
  next
    case (Some m)
    with \<open>lg = Some rows\<close> show ?thesis by (intro failed) (simp_all add: record_decision_def log_record_def)
  qed
qed

lemma guard_statements_spec:
  obtains (ran) "guard_statements fails mode confirmed ds lg = (Inr (), logged mode confirmed ds lg)"
      "list_all (runs_as mode confirmed) ds"
  | (refused) k e where "k < length ds" "list_all (runs_as mode confirmed) (take k ds)"
      "refusal_error (ds ! k) mode confirmed = Some e"
      "guard_statements fails mode confirmed ds lg =
         (Inl (CliUsage (safe_mode_error_text e)), logged mode confirmed (take (Suc k) ds) lg)"
  | (failed) k m rows where "k < length ds" "list_all (runs_as mode confirmed) (take k ds)"
      "logged mode confirmed (take k ds) lg = Some rows" "fails rows (entry_of mode confirmed (ds ! k)) = Some m"
      "guard_statements fails mode confirmed ds lg = (Inl (CliStorage m), Some rows)"
proof (induction ds arbitrary: lg thesis)
  case Nil
  then show ?case by simp
next
  case (Cons d ds)
  note prems = Cons.prems
  show ?case
  proof (cases rule: record_decision_cases [of lg fails mode confirmed d])
    case (failed rows m)
    then show ?thesis by (intro prems(3) [of 0 rows m]) simp_all
  next
    case recorded
    show ?thesis
    proof (cases "refusal_error d mode confirmed")
      case (Some e)
      with recorded show ?thesis by (intro prems(2) [of 0 e]) simp_all
    next
      case None
      with recorded have step: "guard_statements fails mode confirmed (d # ds) lg =
          guard_statements fails mode confirmed ds (logged mode confirmed [d] lg)" by simp
      show ?thesis
      proof (rule Cons.IH [of "logged mode confirmed [d] lg"], goal_cases)
        case 1
        with None step show ?thesis by (intro prems(1)) (simp_all add: runs_as_def)
      next
        case (2 k e)
        with None step show ?thesis by (intro prems(2) [of "Suc k" e]) (simp_all add: runs_as_def)
      next
        case (3 k rows m)
        with None step show ?thesis by (intro prems(3) [of "Suc k" rows m]) (simp_all add: runs_as_def)
      qed
    qed
  qed
qed

lemma find_map_first:
  "k < length xs \<Longrightarrow> list_all (\<lambda>x. f x = None) (take k xs) \<Longrightarrow> f (xs ! k) = Some y \<Longrightarrow> find_map f xs = Some y"
proof (induction xs arbitrary: k)
  case (Cons x xs)
  then show ?case by (cases k) auto
qed simp

lemma find_map_ran: "list_all (runs_as mode confirmed) ds \<Longrightarrow> find_map (\<lambda>d. refusal_error d mode confirmed) ds = None"
  by (auto simp: find_map_None list_all_iff runs_as_def)

text \<open>
  C6. The guard runs a script exactly when the check accepts it, and says so first. When it lets the script
  run, the check of all readings accepts it and the log has a row for every statement; when it refuses, it
  is with the check's own error, after the row of the refused statement and of each one before it, all of
  which would have run; and it fails otherwise only when the log could not be written, at that statement.
\<close>
theorem guard_is_the_logged_check:
  "let ds = decisions_readings mode sql (readings d);
       check = check_confirmed_readings mode confirmed sql (readings d) in
   (case guard_confirmed fails mode confirmed sql d lg of
      (Inr _, lg') \<Rightarrow> check = Inr () \<and> lg' = logged mode confirmed ds lg
    | (Inl (CliUsage m), lg') \<Rightarrow>
        (\<exists>k e. k < length ds \<and> check = Inl e \<and> refusal_error (ds ! k) mode confirmed = Some e \<and>
           m = safe_mode_error_text e \<and> list_all (runs_as mode confirmed) (take k ds) \<and>
           lg' = logged mode confirmed (take (Suc k) ds) lg)
    | (Inl e, lg') \<Rightarrow>
        (\<exists>k m rows. k < length ds \<and> e = CliStorage m \<and> lg' = Some rows \<and>
           logged mode confirmed (take k ds) lg = Some rows \<and> fails rows (entry_of mode confirmed (ds ! k)) = Some m))"
proof -
  let ?ds = "decisions_readings mode sql (readings d)"
  show ?thesis
  proof (cases rule: guard_statements_spec [of fails mode confirmed ?ds lg])
    case ran
    with find_map_ran [of mode confirmed ?ds] show ?thesis
      by (simp add: guard_confirmed_def check_confirmed_readings_def Let_def)
  next
    case (refused k e)
    then have "find_map (\<lambda>d. refusal_error d mode confirmed) ?ds = Some e"
      by (intro find_map_first [of k]) (simp_all add: runs_as_def list_all_iff)
    with refused show ?thesis
      by (auto simp: guard_confirmed_def check_confirmed_readings_def result_of_def Let_def)
  next
    case (failed k m rows)
    then show ?thesis by (auto simp: guard_confirmed_def Let_def)
  qed
qed

section \<open>Floors\<close>

lemma passed_statements:
  "fst (guard_statements fails mode confirmed ds lg) = Inr () \<Longrightarrow> list_all (runs_as mode confirmed) ds"
  by (cases rule: guard_statements_spec [of fails mode confirmed ds lg]) auto

lemma passed_guard:
  assumes "fst (guard_confirmed fails mode confirmed sql d lg) = Inr ()"
  shows "check_confirmed_readings mode confirmed sql (readings d) = Inr ()"
  using passed_statements [of fails mode confirmed _ lg] assms find_map_ran
  by (simp add: guard_confirmed_def check_confirmed_readings_def)

lemma passed_destructive:
  "fst (guard_destructive_mode fails mode confirmed d statement lg) = Inr () \<Longrightarrow>
     mode = Full \<or> mode = Confirm \<and> confirmed"
  by (cases mode)
    (auto simp: guard_destructive_mode_def Let_def runs_as_def refusal_error_def
      simp del: guard_statements.simps dest!: passed_statements split: if_splits)

text \<open>What the settings and the driver ask for, as \<open>safe_mode_floor_of\<close> reads it.\<close>

definition asked_modes :: "settings \<Rightarrow> engine \<Rightarrow> safe_mode set" where
  "asked_modes s engine =
     {m. parse_safe_mode (text_setting s ''SAFE_MODE'' []) = Some m \<or>
         parse_safe_mode (text_setting s ''SAFE_MODE_FLOOR'' []) = Some m} \<union>
     {m. m = ReadOnly \<and> (flag_setting s ''DB_READ_ONLY'' False \<or>
         (\<exists>kind. driver_kind_parse (text_setting s ''DB_KIND'' []) = Some kind \<and> cap_read_only (engine kind)))}"

lemma parse_safe_mode_blank: "trim raw = [] \<Longrightarrow> parse_safe_mode raw = None"
  by (simp add: parse_safe_mode_def Let_def to_ascii_lowercase_def)

lemma floor_has_what_is_asked:
  assumes "safe_mode_floor_of s engine = Inr fl"
  shows "asked_modes s engine \<subseteq> snd ` set (floor_entries fl)"
  using assms
  by (auto simp: safe_mode_floor_of_def asked_modes_def parse_safe_mode_setting_def parse_safe_mode_blank
      floor_raise_def floor_new_def Let_def image_iff split: sum.splits if_splits option.splits)

lemma run_mode_is_strictest:
  assumes "run_safe_mode s engine = Inr mode" and "m \<in> asked_modes s engine"
  shows "strictness m \<le> strictness mode"
proof -
  from assms(1) obtain fl where fl: "safe_mode_floor_of s engine = Inr fl"
    "mode = (case floor_resolve fl of Some (m, source) \<Rightarrow> m | None \<Rightarrow> Full)"
    by (auto simp: run_safe_mode_def split: sum.splits)
  from floor_has_what_is_asked [OF fl(1)] assms(2) obtain source where e: "(source, m) \<in> set (floor_entries fl)" by force
  then have "floor_resolve fl \<noteq> None" by (auto simp: floor_resolve_None floor_is_empty_def)
  with fl(2) obtain source' where "floor_resolve fl = Some (mode, source')" by (auto split: option.splits)
  from floor_resolve_Some(2) [OF this e] show ?thesis by auto
qed

lemma destructive_mode_floor:
  assumes "destructive_mode_of fl = mode" and "m \<in> snd ` set (floor_entries fl)"
  shows "m \<in> {NoDdl, ReadOnly} \<Longrightarrow> mode \<in> {NoDdl, ReadOnly}"
    "m = Confirm \<Longrightarrow> mode \<in> {NoDdl, ReadOnly, Confirm}"
proof -
  let ?ms = "filter (\<lambda>m. m \<in> {NoDdl, ReadOnly}) (map snd (floor_entries fl))"
  have found: "x \<in> {NoDdl, ReadOnly}" if "max_by_key strictness ?ms = Some x" for x
    using max_by_key_Some [OF that] by auto
  show "m \<in> {NoDdl, ReadOnly} \<Longrightarrow> mode \<in> {NoDdl, ReadOnly}"
  proof -
    assume "m \<in> {NoDdl, ReadOnly}"
    with assms(2) have "m \<in> set ?ms" by auto
    then have "?ms \<noteq> []" by (metis empty_iff list.set(1))
    then obtain x where "max_by_key strictness ?ms = Some x" by (metis max_by_key_None not_None_eq)
    with found [OF this] assms(1) show ?thesis by (simp add: destructive_mode_of_def)
  qed
  assume "m = Confirm"
  with assms(2) have asks: "Confirm \<in> set (map snd (floor_entries fl))" by simp
  show "mode \<in> {NoDdl, ReadOnly, Confirm}"
  proof (cases "max_by_key strictness ?ms")
    case None
    with assms(1) asks show ?thesis by (simp add: destructive_mode_of_def)
  next
    case (Some x)
    with assms(1) have "mode = x" by (simp add: destructive_mode_of_def)
    with found [OF Some] show ?thesis by auto
  qed
qed


definition marked_settings :: settings where
  "marked_settings = [(''DB_READ_ONLY'', ''1'')]"

definition writing_engine :: engine where
  "writing_engine kind = \<lparr>cap_levels = [LvTable], cap_read_only = False\<rparr>"

lemma marked_asks: "ReadOnly \<in> asked_modes marked_settings writing_engine"
proof -
  have "flag_setting marked_settings ''DB_READ_ONLY'' False" by code_simp
  then show ?thesis by (simp add: asked_modes_def)
qed


section \<open>What runs a second time\<close>

lemma first_not_read_None: "first_not_read ds = None \<Longrightarrow> list_all (\<lambda>d. sd_decision d = Allow) ds"
proof (induction ds)
  case (Cons d ds)
  then show ?case by (cases "sd_decision d") auto
qed simp

lemma first_not_read_Some: "first_not_read ds = Some d \<Longrightarrow> d \<in> set ds \<and> sd_decision d \<noteq> Allow"
  by (induction ds) (auto split: if_splits)

text \<open>
  C19. What is run a second time, or for its plan, is a read in every mode. \<open>require_read\<close> lets a text pass only
  when every reading of the dialect takes every statement for a read, and then it writes nothing; otherwise
  it writes at most one row, a refusal under the run's own mode with its own reason, and the error is the one
  that row says, or the log's.
\<close>
theorem what_is_repeated_is_a_read:
  "let d = run_dialect env cf s in
   (case require_read fails env cf s mode sql reason lg of
      (Inr _, lg') \<Rightarrow> lg' = lg \<and>
        list_all (\<lambda>lx. list_all (\<lambda>st. list_all (\<lambda>r. classify_dialect st r = KReadOnly) (readings d))
          (statements_dialect sql lx)) (readings d)
    | (Inl e, lg') \<Rightarrow>
        (\<exists>x \<in> set (decisions_readings ReadOnly sql (readings d)). sd_kind x \<noteq> KReadOnly \<and>
           (let row = \<lparr>de_safe_mode = mode, de_index = sd_index x, de_kind = sd_kind x, de_statement = sd_statement x,
                de_decision = LogRefused, de_reason = Some reason\<rparr> in
            e = CliUsage (safe_mode_error_text (Refused mode (sd_index x) (sd_kind x) reason (snippet (sd_statement x)))) \<and>
              lg' = map_option (\<lambda>rows. rows @ [row]) lg \<or>
            (\<exists>rows m. lg = Some rows \<and> fails rows row = Some m \<and> e = CliStorage m \<and> lg' = lg))))"
proof -
  let ?d = "run_dialect env cf s"
  let ?ds = "decisions_readings ReadOnly sql (readings ?d)"
  show ?thesis
  proof (cases "first_not_read ?ds")
    case None
    from first_not_read_None [OF None] have "find_map (\<lambda>d. refusal_error d ReadOnly False) ?ds = None"
      by (auto simp: find_map_None list_all_iff refusal_error_None)
    then have "check_confirmed_readings ReadOnly False sql (readings ?d) = Inr ()"
      by (simp add: check_confirmed_readings_def)
    from read_only_check_reads [OF this] None show ?thesis by (simp add: require_read_def Let_def)
  next
    case (Some x)
    from first_not_read_Some [OF Some] have x: "x \<in> set ?ds" "sd_decision x \<noteq> Allow" by simp_all
    from x have "sd_kind x \<noteq> KReadOnly"
      by (auto simp: decisions_readings_def Let_def split: option.splits)
    moreover have "refusal_error (x\<lparr>sd_decision := Refuse, sd_reason := Some reason\<rparr>) mode False =
        Some (Refused mode (sd_index x) (sd_kind x) reason (snippet (sd_statement x)))"
      by (simp add: refusal_error_def)
    ultimately show ?thesis using Some x(1)
      by (cases rule: record_decision_cases [of lg fails mode False "x\<lparr>sd_decision := Refuse, sd_reason := Some reason\<rparr>"])
        (auto simp: require_read_def logged_def entry_of_def log_decision_of_def Let_def intro!: bexI [of _ x])
  qed
qed

end
