(* ===== verification/SwapSafety.thy ===== *)
theory SwapSafety
  imports TableSwap GuardSafety
begin

text \<open>
  A \<open>replace\<close> never costs the user the rows they had, what it says of the old table is true when an error means
  that nothing changed, and every statement it sends has passed the guard.
\<close>

section \<open>What a server does with the plan\<close>

text \<open>
  The three places a plan speaks of, and the state a transaction would roll back to. \<open>settled\<close> is what remains
  when the session ends: an open transaction is thrown away.
\<close>

record 'r places =
  pl_target :: "'r option"
  pl_scratch :: "'r option"
  pl_backup :: "'r option"

record 'r swap_db =
  db_now :: "'r places"
  db_saved :: "'r places option"

definition settled :: "'r swap_db \<Rightarrow> 'r places" where
  "settled d = (case db_saved d of Some t \<Rightarrow> t | None \<Rightarrow> db_now d)"

datatype swap_act =
    ActBuild | ActBegin | ActCommit | ActRollback
  | ActDropTarget | ActDropScratch | ActDropBackup
  | ActInstall | ActAside | ActBack | ActExchange

text \<open>\<open>None\<close> is what the server must refuse: a name that is taken or missing.\<close>

definition apply_places :: "'r \<Rightarrow> swap_act \<Rightarrow> 'r places \<Rightarrow> 'r places option" where
  "apply_places new a t =
     (case a of
        ActBuild \<Rightarrow> if pl_scratch t = None then Some (t\<lparr>pl_scratch := Some new\<rparr>) else None
      | ActDropTarget \<Rightarrow> Some (t\<lparr>pl_target := None\<rparr>)
      | ActDropScratch \<Rightarrow> Some (t\<lparr>pl_scratch := None\<rparr>)
      | ActDropBackup \<Rightarrow> if pl_backup t = None then None else Some (t\<lparr>pl_backup := None\<rparr>)
      | ActInstall \<Rightarrow>
          if pl_scratch t = None \<or> pl_target t \<noteq> None then None
          else Some (t\<lparr>pl_target := pl_scratch t, pl_scratch := None\<rparr>)
      | ActAside \<Rightarrow>
          if pl_target t = None \<or> pl_backup t \<noteq> None then None
          else Some (t\<lparr>pl_backup := pl_target t, pl_target := None\<rparr>)
      | ActBack \<Rightarrow>
          if pl_backup t = None \<or> pl_target t \<noteq> None then None
          else Some (t\<lparr>pl_target := pl_backup t, pl_backup := None\<rparr>)
      | ActExchange \<Rightarrow>
          if pl_target t = None \<or> pl_backup t \<noteq> None \<or> pl_scratch t = None then None
          else Some (t\<lparr>pl_backup := pl_target t, pl_target := pl_scratch t, pl_scratch := None\<rparr>)
      | _ \<Rightarrow> Some t)"

definition apply_act :: "'r \<Rightarrow> swap_act \<Rightarrow> 'r swap_db \<Rightarrow> 'r swap_db option" where
  "apply_act new a d =
     (case a of
        ActBegin \<Rightarrow> Some (d\<lparr>db_saved := (case db_saved d of None \<Rightarrow> Some (db_now d) | t \<Rightarrow> t)\<rparr>)
      | ActCommit \<Rightarrow> Some (d\<lparr>db_saved := None\<rparr>)
      | ActRollback \<Rightarrow> Some \<lparr>db_now = settled d, db_saved = None\<rparr>
      | _ \<Rightarrow> map_option (\<lambda>t. d\<lparr>db_now := t\<rparr>) (apply_places new a (db_now d)))"

text \<open>What each statement of a plan means, by the driver's own SQL.\<close>

fun swap_acts :: "driver_kind \<Rightarrow> swap_act list" where
  "swap_acts KPostgres = [ActBegin, ActDropTarget, ActInstall, ActCommit]"
| "swap_acts KMysql = [ActExchange]"
| "swap_acts KTrino = [ActAside, ActInstall]"

fun install_acts :: "driver_kind \<Rightarrow> swap_act list" where
  "install_acts KPostgres = [ActBegin, ActDropTarget, ActInstall, ActCommit]"
| "install_acts KMysql = [ActInstall]"
| "install_acts KTrino = [ActInstall]"

definition plan_meaning :: "driver_kind \<Rightarrow> replacement \<Rightarrow> (bytes \<times> swap_act) list" where
  "plan_meaning kind p =
     [(rp_build p, ActBuild), (rp_drop_scratch p, ActDropScratch), (''ROLLBACK'', ActRollback)] @
     zip (rp_swap p) (swap_acts kind) @ zip (rp_install p) (install_acts kind) @
     zip (option_list (rp_undo p)) [ActBack] @ zip (option_list (rp_drop_old p)) [ActDropBackup]"

definition only_scratch :: "'r swap_db \<Rightarrow> 'r swap_db \<Rightarrow> bool" where
  "only_scratch d d' \<longleftrightarrow> db_saved d' = db_saved d \<and>
     pl_target (db_now d') = pl_target (db_now d) \<and> pl_backup (db_now d') = pl_backup (db_now d)"

text \<open>
  A statement that fails changed nothing; a build may have left part of the new table. Unless errors are exact,
  a statement may also have been applied, and only its answer lost.
\<close>

definition unanswered :: "bool \<Rightarrow> 'r \<Rightarrow> swap_act \<Rightarrow> 'r swap_db \<Rightarrow> 'r swap_db \<Rightarrow> bool" where
  "unanswered exact new a d d' \<longleftrightarrow>
     d' = d \<or> a = ActBuild \<and> only_scratch d d' \<or> \<not> exact \<and> apply_act new a d = Some d'"

fun answered :: "answer \<Rightarrow> bool" where
  "answered (AnsPages pages None n) = True"
| "answered a = False"

definition serves :: "bool \<Rightarrow> 's session \<Rightarrow> ('s \<Rightarrow> 'r swap_db) \<Rightarrow> driver_kind \<Rightarrow> replacement \<Rightarrow> 'r \<Rightarrow> bool" where
  "serves exact sv db kind p new \<longleftrightarrow>
     (\<forall>(sql, a) \<in> set (plan_meaning kind p). \<forall>s.
        if answered (fst (sv sql s)) then apply_act new a (db s) = Some (db (snd (sv sql s)))
        else unanswered exact new a (db s) (db (snd (sv sql s)))) \<and>
     (\<forall>s. db (snd (sv (rp_probe p) s)) = db s \<and>
        (\<forall>pages n. fst (sv (rp_probe p) s) = AnsPages pages None n \<longrightarrow>
           list_ex page_found pages = (pl_target (db_now (db s)) \<noteq> None)))"

definition stop_fits :: "('s \<Rightarrow> 'r swap_db) \<Rightarrow> 's stop \<Rightarrow> 's \<Rightarrow> bool" where
  "stop_fits db stp s = (case stp of NoStop \<Rightarrow> True | StoppedAt reusable s' \<Rightarrow> only_scratch (db s) (db s'))"

lemma finish_cases:
  assumes "serves exact sv db kind p new" "(sql, a) \<in> set (plan_meaning kind p)"
  obtains (ok) n s' where "finish_statement sv sql s = (Inr n, s')" "apply_act new a (db s) = Some (db s')"
  | (err) e s' where "finish_statement sv sql s = (Inl e, s')" "unanswered exact new a (db s) (db s')"
proof -
  obtain ans s' where a: "sv sql s = (ans, s')" by force
  have "if answered (fst (sv sql s)) then apply_act new a (db s) = Some (db (snd (sv sql s)))
      else unanswered exact new a (db s) (db (snd (sv sql s)))"
    using bspec [OF conjunct1 [OF assms(1) [unfolded serves_def]] assms(2)] unfolding prod.case by (rule spec)
  with a have "if answered ans then apply_act new a (db s) = Some (db s') else unanswered exact new a (db s) (db s')"
    by (simp split: if_splits)
  with a ok err show thesis
    by (cases ans rule: answered.cases) (auto simp: finish_statement_def)
qed

lemma probe_cases:
  assumes "serves exact sv db kind p new"
  obtains (ok) s' where "table_exists sv (rp_probe p) s = (Inr (pl_target (db_now (db s)) \<noteq> None), s')" "db s' = db s"
  | (err) e s' where "table_exists sv (rp_probe p) s = (Inl e, s')" "db s' = db s"
proof -
  obtain ans s' where a: "sv (rp_probe p) s = (ans, s')" by force
  from assms a have "db s' = db s \<and>
      (\<forall>pages n. ans = AnsPages pages None n \<longrightarrow> list_ex page_found pages = (pl_target (db_now (db s)) \<noteq> None))"
    by (auto simp: serves_def dest: spec [where x = s])
  with a ok err show thesis
    by (cases ans rule: answered.cases) (auto simp: table_exists_def)
qed

text \<open>Every way a list of statements can go.\<close>

fun outcomes :: "bool \<Rightarrow> 'r \<Rightarrow> nat \<Rightarrow> swap_act list \<Rightarrow> 'r swap_db \<Rightarrow> (nat option \<times> 'r swap_db) set" where
  "outcomes exact new i [] d = {(None, d)}"
| "outcomes exact new i (a # as) d =
     {(Some i, d') | d'. unanswered exact new a d d'} \<union>
     (case apply_act new a d of None \<Rightarrow> {} | Some d' \<Rightarrow> outcomes exact new (Suc i) as d')"

lemma swap_steps_outcomes:
  assumes "serves exact sv db kind p new"
    and "list_all2 (\<lambda>sql a. (sql, a) \<in> set (plan_meaning kind p)) sqls acts"
    and "swap_steps sv i sqls s = (res, s')"
  shows "(map_option fst res, db s') \<in> outcomes exact new i acts (db s)"
  using assms(2,3)
proof (induction sqls acts arbitrary: i s rule: list_all2_induct)
  case (Cons sql sqls a acts)
  from finish_cases [OF assms(1) Cons.hyps(1), of s] show ?case
    using Cons.IH Cons.prems by cases auto
qed simp

section \<open>The swap of each driver\<close>

lemmas act_simps = apply_act_def apply_places_def unanswered_def settled_def only_scratch_def

lemma only_scratch_settled:
  "only_scratch d d' \<Longrightarrow> pl_target (settled d') = pl_target (settled d) \<and> pl_backup (settled d') = pl_backup (settled d)"
  by (simp add: only_scratch_def settled_def split: option.split)

lemma only_scratch_refl [simp]: "only_scratch d d"
  by (simp add: only_scratch_def)

lemma dropped_scratch: "apply_act new ActDropScratch d = Some d' \<Longrightarrow> only_scratch d d'"
  by (auto simp: apply_act_def apply_places_def only_scratch_def)

lemma built_scratch: "apply_act new ActBuild d = Some d' \<Longrightarrow> only_scratch d d'"
  by (auto simp: apply_act_def apply_places_def only_scratch_def split: if_splits)

lemma rollback_settled: "apply_act new ActRollback d = Some d' \<Longrightarrow> settled d' = settled d"
  by (auto simp: apply_act_def settled_def)

text \<open>Whatever becomes of the temporary table, the other two stay, and the warning is given.\<close>

lemma discarded_keeps:
  assumes "serves exact sv db kind p new" and "discarded sv p name reusable ws s = (ws', s')"
  shows "only_scratch (db s) (db s') \<and> (\<exists>vs. ws' = ws @ vs @ [untouched name] \<and> list_all (\<lambda>v. prefix ''the temporary table '' v) vs)"
proof (cases reusable)
  case False
  with assms(2) show ?thesis
    by (auto simp: discarded_def discard_scratch_def only_scratch_def Let_def prefix_def)
next
  case True
  have m: "(rp_drop_scratch p, ActDropScratch) \<in> set (plan_meaning kind p)" by (simp add: plan_meaning_def)
  show ?thesis
  proof (cases rule: finish_cases [OF assms(1) m, of s])
    case (1 n s1)
    with dropped_scratch [OF 1(2)] assms(2) True show ?thesis
      by (auto simp: discarded_def discard_scratch_def)
  next
    case (2 e s1)
    then have "only_scratch (db s) (db s1)"
      by (auto simp: unanswered_def dest: dropped_scratch)
    with 2(1) assms(2) True show ?thesis
      by (auto simp: discarded_def discard_scratch_def Let_def prefix_def)
  qed
qed

lemma rolled_back:
  assumes "serves exact sv db kind p new"
  shows "settled (db (snd (finish_statement sv ''ROLLBACK'' s))) = settled (db s)"
proof -
  have m: "(''ROLLBACK'', ActRollback) \<in> set (plan_meaning kind p)" by (simp add: plan_meaning_def)
  from finish_cases [OF assms m, of s] show ?thesis
    by cases (auto simp: unanswered_def dest: rollback_settled)
qed

text \<open>The plan of each driver, as the acts it is made of.\<close>

abbreviation plan_for :: "driver_kind \<Rightarrow> bytes \<Rightarrow> bytes \<Rightarrow> bytes \<Rightarrow> bytes \<Rightarrow> bytes \<Rightarrow> replacement" where
  "plan_for kind \<equiv> replacement_plan (slot_style_of kind)"

lemma plan_acts:
  fixes kind cat sch tbl body stamp
  defines "p \<equiv> plan_for kind cat sch tbl body stamp"
  shows "list_all2 (\<lambda>sql a. (sql, a) \<in> set (plan_meaning kind p)) (rp_swap p) (swap_acts kind)"
    "list_all2 (\<lambda>sql a. (sql, a) \<in> set (plan_meaning kind p)) (rp_install p) (install_acts kind)"
    "rp_atomic p \<longleftrightarrow> kind = KPostgres"
    "rp_undo p \<noteq> None \<longleftrightarrow> kind = KTrino" "rp_drop_old p \<noteq> None \<longleftrightarrow> kind \<noteq> KPostgres"
  by (cases kind; simp add: p_def replacement_plan_def plan_meaning_def option_list_def Let_def)+

lemma undo_meaning: "rp_undo p = Some sql \<Longrightarrow> (sql, ActBack) \<in> set (plan_meaning kind p)"
  by (simp add: plan_meaning_def option_list_def)

lemma drop_old_meaning: "rp_drop_old p = Some sql \<Longrightarrow> (sql, ActDropBackup) \<in> set (plan_meaning kind p)"
  by (simp add: plan_meaning_def option_list_def)

text \<open>Before the swap: the old table, the new one beside it, no backup and no transaction.\<close>

abbreviation before_swap :: "'r option \<Rightarrow> 'r \<Rightarrow> 'r swap_db" where
  "before_swap old new \<equiv> \<lparr>db_now = \<lparr>pl_target = old, pl_scratch = Some new, pl_backup = None\<rparr>, db_saved = None\<rparr>"

abbreviation swap_or_install :: "driver_kind \<Rightarrow> 'r option \<Rightarrow> swap_act list" where
  "swap_or_install kind old \<equiv> (if old \<noteq> None then swap_acts kind else install_acts kind)"

lemma outcomes_done:
  assumes "(None, d) \<in> outcomes exact new 0 (swap_or_install kind old) (before_swap old new)"
  shows "pl_target (db_now d) = Some new \<and> db_saved d = None \<and>
    pl_backup (db_now d) = (if kind = KPostgres then None else old)"
  using assms by (cases kind; cases old) (simp_all add: act_simps)

lemma outcomes_failed:
  assumes "(Some i, d) \<in> outcomes exact new 0 (swap_or_install kind old) (before_swap old new)"
  shows "kind = KTrino \<and> i = 1 \<and> old \<noteq> None \<and> db_saved d = None \<and> pl_backup (db_now d) = old \<and>
      (pl_target (db_now d) = None \<and> pl_scratch (db_now d) = Some new \<or> \<not> exact \<and> pl_target (db_now d) = Some new) \<or>
    (i = 0 \<or> kind \<noteq> KTrino) \<and>
      (pl_target (settled d) = old \<and> pl_backup (settled d) = None \<or>
       \<not> exact \<and> (pl_target (settled d) = Some new \<or> pl_backup (settled d) = old))"
  using assms by (cases kind; cases old) (auto simp: act_simps)

lemma dropped_backup:
  "apply_act new ActDropBackup d = Some d' \<Longrightarrow> db_saved d' = db_saved d \<and>
     pl_target (db_now d') = pl_target (db_now d) \<and> pl_backup (db_now d') = None"
  by (auto simp: apply_act_def apply_places_def split: if_splits)

lemma moved_back:
  "apply_act new ActBack d = Some d' \<Longrightarrow> db_saved d' = db_saved d \<and> pl_target (db_now d) = None \<and>
     pl_target (db_now d') = pl_backup (db_now d) \<and> pl_backup (db_now d') = None \<and>
     pl_scratch (db_now d') = pl_scratch (db_now d)"
  by (auto simp: apply_act_def apply_places_def split: if_splits)

text \<open>Putting the old table back.\<close>

lemma put_back_cases:
  assumes "serves exact sv db kind p new" and "p = plan_for kind cat sch tbl body stamp"
    and "put_back sv p i s = (b, s')"
  obtains (rolled) "kind = KPostgres" "b" "settled (db s') = settled (db s)"
  | (stays) "kind = KMysql \<or> kind = KTrino \<and> i = 0" "b" "s' = s"
  | (undone) "kind = KTrino" "0 < i" "b" "apply_act new ActBack (db s) = Some (db s')"
  | (kept) "kind = KTrino" "0 < i" "\<not> b" "unanswered exact new ActBack (db s) (db s')"
proof (cases kind)
  case KTrino
  note facts = plan_acts [of kind cat sch tbl body stamp, folded assms(2)]
  from facts(4) KTrino obtain undo where u: "rp_undo p = Some undo" by auto
  show thesis
  proof (cases "i = 0")
    case True
    with KTrino facts(3) assms(3) stays show thesis by (auto simp: put_back_def)
  next
    case False
    show thesis
    proof (cases rule: finish_cases [OF assms(1) undo_meaning [OF u], of s])
      case (1 n s1)
      with False KTrino facts(3) assms(3) u undone show thesis by (auto simp: put_back_def)
    next
      case (2 e s1)
      with False KTrino facts(3) assms(3) u kept show thesis by (auto simp: put_back_def)
    qed
  qed
next
  case KPostgres
  with plan_acts(3) [of kind cat sch tbl body stamp, folded assms(2)] assms(3) rolled_back [OF assms(1), of s] rolled
  show thesis by (auto simp: put_back_def)
next
  case KMysql
  with plan_acts(3,4) [of kind cat sch tbl body stamp, folded assms(2)] assms(3) stays
  show thesis by (auto simp: put_back_def split: if_splits)
qed

lemma swap_in_cases:
  assumes sv: "serves exact sv db kind p new" and p: "p = plan_for kind cat sch tbl body stamp"
    and d: "db s = before_swap old new" and run: "swap_in sv p name (old \<noteq> None) ws s = (r, ws', s')"
  obtains (swapped) vs where "r = Inr False" "pl_target (settled (db s')) = Some new"
      "ws' = ws @ (if old \<noteq> None then [replaced_notice name] else []) @ vs"
      "list_all (prefix ''the new table is in place'') vs" "pl_backup (settled (db s')) = None \<or> vs \<noteq> []"
  | (restored) e vs where "r = Inl e" "ws' = filter (\<lambda>w. w \<noteq> replaced_notice name) ws @ vs @ [untouched name]"
      "list_all (prefix ''the temporary table '') vs"
      "pl_target (settled (db s')) = old \<and> pl_backup (settled (db s')) = None \<or>
        \<not> exact \<and> (pl_target (settled (db s')) = Some new \<or> pl_backup (settled (db s')) = old)"
  | (away) e where "r = Inl e" "ws' = ws @ [replaced_notice name, moved_away name p]" "old \<noteq> None"
      "pl_backup (settled (db s')) = old \<and> pl_target (settled (db s')) = None \<and> pl_scratch (settled (db s')) = Some new \<or>
        \<not> exact \<and> (pl_target (settled (db s')) = old \<or> pl_backup (settled (db s')) = old)"
proof -
  let ?sqls = "if old \<noteq> None then rp_swap p else rp_install p"
  let ?ws = "if old \<noteq> None then ws @ [replaced_notice name] else ws"
  obtain res s1 where steps: "swap_steps sv 0 ?sqls s = (res, s1)" by force
  have acts: "list_all2 (\<lambda>sql a. (sql, a) \<in> set (plan_meaning kind p)) ?sqls (swap_or_install kind old)"
    using plan_acts(1,2) [of kind cat sch tbl body stamp, folded p] by simp
  have out: "(map_option fst res, db s1) \<in> outcomes exact new 0 (swap_or_install kind old) (before_swap old new)"
    using swap_steps_outcomes [OF sv acts steps] by (simp add: d)
  show thesis
  proof (cases res)
    case None
    with out have done1: "pl_target (db_now (db s1)) = Some new" "db_saved (db s1) = None"
      "pl_backup (db_now (db s1)) = (if kind = KPostgres then None else old)"
      using outcomes_done [of "db s1" exact new old kind] by simp_all
    show thesis
    proof (cases "if old \<noteq> None then rp_drop_old p else None")
      case None
      with run steps \<open>res = None\<close> have "r = Inr False" "ws' = ?ws" "s' = s1"
        by (auto simp: swap_in_def Let_def split: if_splits)
      moreover have "old = None \<or> kind = KPostgres"
        using None plan_acts(5) [of kind cat sch tbl body stamp, folded p] by (auto split: if_splits)
      ultimately show thesis using done1 by (intro that(1) [of "[]"]) (auto simp: settled_def)
    next
      case (Some sql)
      then have o: "old \<noteq> None" "rp_drop_old p = Some sql" by (auto split: if_splits)
      show thesis
      proof (cases rule: finish_cases [OF sv drop_old_meaning [OF o(2)], of s1])
        case (1 n s2)
        with run steps \<open>res = None\<close> o have "r = Inr False" "ws' = ?ws" "s' = s2"
          by (auto simp: swap_in_def Let_def split: if_splits)
        with dropped_backup [OF 1(2)] done1 o show thesis by (intro that(1) [of "[]"]) (auto simp: settled_def)
      next
        case (2 e s2)
        with run steps \<open>res = None\<close> o have "r = Inr False" "s' = s2"
          "ws' = ?ws @ [''the new table is in place, and the old one is kept as '' @ rp_backup_ref p @ '': '' @ cli_message e]"
          by (auto simp: swap_in_def Let_def split: if_splits)
        with 2(2) done1 o dropped_backup [of new "db s1" "db s2"] show thesis
          by (intro that(1) [of "[''the new table is in place, and the old one is kept as '' @ rp_backup_ref p @ '': '' @ cli_message e]"])
            (auto simp: settled_def prefix_def unanswered_def)
      qed
    qed
  next
    case (Some ie)
    obtain i e where ie: "ie = (i, e)" by force
    with Some out have failed: "(Some i, db s1) \<in> outcomes exact new 0 (swap_or_install kind old) (before_swap old new)" by simp
    note where_it_is = outcomes_failed [OF failed]
    obtain b s2 where pb: "put_back sv p i s1 = (b, s2)" by force
    show thesis
    proof (cases b)
      case False
      with run steps Some ie pb have "r = Inl e" "ws' = ?ws @ [moved_away name p]" "s' = s2"
        by (auto simp: swap_in_def Let_def)
      moreover from put_back_cases [OF sv p pb] False
      have k: "kind = KTrino" "0 < i" "unanswered exact new ActBack (db s1) (db s2)" by auto
      ultimately show thesis using where_it_is moved_back [of new "db s1" "db s2"]
        by (intro that(3) [of e]) (auto simp: unanswered_def settled_def)
    next
      case True
      obtain ws2 s3 where dc: "discarded sv p name True (filter (\<lambda>w. w \<noteq> replaced_notice name) ?ws) s2 = (ws2, s3)" by force
      from run steps Some ie pb True dc have "r = Inl e" "ws' = ws2" "s' = s3"
        by (auto simp: swap_in_def Let_def split: if_splits)
      moreover from discarded_keeps [OF sv dc] obtain vs where
        vs: "ws2 = filter (\<lambda>w. w \<noteq> replaced_notice name) ws @ vs @ [untouched name]" "list_all (prefix ''the temporary table '') vs"
        and scr: "only_scratch (db s2) (db s3)"
        by (auto split: if_splits)
      moreover from put_back_cases [OF sv p pb] True where_it_is
      have "pl_target (settled (db s2)) = old \<and> pl_backup (settled (db s2)) = None \<or>
        \<not> exact \<and> (pl_target (settled (db s2)) = Some new \<or> pl_backup (settled (db s2)) = old)"
        by cases (auto simp: settled_def dest: moved_back)
      ultimately show thesis using only_scratch_settled [OF scr] by (intro that(2) [of e vs]) auto
    qed
  qed
qed

section \<open>What a replace leaves\<close>

abbreviation before_build :: "'r option \<Rightarrow> 'r swap_db" where
  "before_build old \<equiv> \<lparr>db_now = \<lparr>pl_target = old, pl_scratch = None, pl_backup = None\<rparr>, db_saved = None\<rparr>"

lemma built_cases:
  assumes sv: "serves exact sv db kind p new" and stp: "stop_fits db stp s" and d: "db s = before_build old"
  obtains (stopped) reusable s1 where "run_stoppable sv stp (rp_build p) s = (Inr (Stopped reusable), s1)" "only_scratch (db s) (db s1)"
  | (failed) e s1 where "run_stoppable sv stp (rp_build p) s = (Inl e, s1)"
      "only_scratch (db s) (db s1)"
  | (built) n s1 where "run_stoppable sv stp (rp_build p) s = (Inr (Finished n), s1)" "db s1 = before_swap old new"
proof (cases stp)
  case (StoppedAt reusable s1)
  with stp stopped show thesis by (auto simp: run_stoppable_def stop_fits_def)
next
  case NoStop
  have m: "(rp_build p, ActBuild) \<in> set (plan_meaning kind p)" by (simp add: plan_meaning_def)
  show thesis
  proof (cases rule: finish_cases [OF sv m, of s])
    case (1 n s1)
    with NoStop d built show thesis by (auto simp: run_stoppable_def apply_act_def apply_places_def)
  next
    case (2 e s1)
    then have "only_scratch (db s) (db s1)"
      by (auto simp: unanswered_def dest: built_scratch)
    with 2(1) NoStop failed show thesis by (auto simp: run_stoppable_def)
  qed
qed

text \<open>Either the run ended before the swap, with the old table where it was, or it went through it.\<close>

lemma replace_table_cases:
  assumes sv: "serves exact sv db kind p new" and p: "p = plan_for kind cat sch tbl body stamp"
    and stp: "stop_fits db stp s" and d: "db s = before_build old"
    and run: "replace_table sv p name stp late affected [] s = (r, n, ws, s')"
  obtains (before) vs where "r \<noteq> Inr False" "ws = vs @ [untouched name]" "list_all (prefix ''the temporary table '') vs"
      "pl_target (settled (db s')) = old" "pl_backup (settled (db s')) = None"
  | (swap) s1 where "db s1 = before_swap old new" "swap_in sv p name (old \<noteq> None) [] s1 = (r, ws, s')"
proof -
  have ended: thesis if dc: "discarded sv p name reusable [] s1 = (ws, s')" and r: "r \<noteq> Inr False"
    and at: "only_scratch (db s) (db s1)" for reusable s1
  proof -
    from discarded_keeps [OF sv dc] obtain vs where vs: "ws = vs @ [untouched name]"
      "list_all (prefix ''the temporary table '') vs" "only_scratch (db s1) (db s')" by auto
    with only_scratch_settled [OF at] only_scratch_settled [OF vs(3)] d r show thesis
      by (intro before [of vs]) (simp_all add: settled_def)
  qed
  show thesis
  proof (cases rule: built_cases [OF sv stp d])
    case (1 reusable s1)
    with run ended [of reusable s1] show thesis by (auto simp: replace_table_def split: prod.splits)
  next
    case (2 e s1)
    with run ended [of True s1] show thesis by (auto simp: replace_table_def split: prod.splits)
  next
    case (3 m s1)
    have at: "only_scratch (db s) (db s1)" by (simp add: only_scratch_def d 3(2))
    show thesis
    proof (cases late)
      case True
      with run 3(1) ended [of True s1] at show thesis by (auto simp: replace_table_def split: prod.splits)
    next
      case False
      show thesis
      proof (cases rule: probe_cases [OF sv, of s1])
        case (1 s2)
        with run 3 False swap [of s2] show thesis by (auto simp: replace_table_def split: prod.splits)
      next
        case (2 e s2)
        with run 3(1) False ended [of True s2] at show thesis
          by (auto simp: replace_table_def only_scratch_def split: prod.splits)
      qed
    qed
  qed
qed


lemma not_temporary:
  "\<not> prefix ''the temporary table '' (untouched name)" "\<not> prefix ''the temporary table '' (moved_away name p)"
  "\<not> prefix ''the temporary table '' (replaced_notice name)"
  "\<not> prefix ''the new table is in place'' (untouched name)" "\<not> prefix ''the new table is in place'' (moved_away name p)"
  "\<not> prefix ''the new table is in place'' (replaced_notice name)"
  by (simp_all add: untouched_def moved_away_def replaced_notice_def)

lemma none_of_them:
  assumes "list_all (prefix ''the temporary table '') vs \<or> list_all (prefix ''the new table is in place'') vs"
  shows "untouched name \<notin> set vs" "moved_away name p \<notin> set vs" "replaced_notice name \<notin> set vs"
  using assms not_temporary unfolding list_all_iff by blast+

lemma distinct_notices:
  "untouched name \<noteq> moved_away name p" "untouched name \<noteq> replaced_notice name'" "moved_away name p \<noteq> replaced_notice name'"
  by (auto simp: untouched_def moved_away_def replaced_notice_def)

lemmas apart = distinct_notices distinct_notices [THEN not_sym]


section \<open>A server\<close>

text \<open>One that does what the statements of a plan say, except for those it refuses.\<close>

definition plan_server :: "driver_kind \<Rightarrow> replacement \<Rightarrow> 'r \<Rightarrow> bytes list \<Rightarrow> 'r swap_db session" where
  "plan_server kind p new refuses sql d =
     (if sql = rp_probe p then
        (AnsPages [[[VInt (if pl_target (db_now d) = None then 0 else 1)]]] None None, d)
      else if sql \<in> set refuses then (AnsError (Usage ''refused''), d)
      else (case map_of (plan_meaning kind p) sql of
        None \<Rightarrow> (AnsError (Usage ''unknown''), d)
      | Some a \<Rightarrow>
          (case apply_act new a d of
             Some d' \<Rightarrow> (AnsPages [] None None, d')
           | None \<Rightarrow> (AnsError (Usage ''refused''), d))))"

lemma plan_server_serves:
  assumes "distinct (map fst (plan_meaning kind p))" and "rp_probe p \<notin> fst ` set (plan_meaning kind p)"
  shows "serves exact (plan_server kind p new refuses) (\<lambda>d. d) kind p new"
  unfolding serves_def
proof (intro conjI ballI allI)
  fix x d assume x: "x \<in> set (plan_meaning kind p)"
  obtain sql a where sa: "x = (sql, a)" by force
  with x assms(2) have "sql \<noteq> rp_probe p" by force
  with x assms(1) show "case x of (sql, a) \<Rightarrow> \<forall>s.
      if answered (fst (plan_server kind p new refuses sql s))
      then apply_act new a s = Some (snd (plan_server kind p new refuses sql s))
      else unanswered exact new a s (snd (plan_server kind p new refuses sql s))"
    by (auto simp: sa plan_server_def unanswered_def map_of_is_SomeI split: option.splits)
qed (auto simp: plan_server_def page_found_def counts_a_table_def split: if_splits)

definition demo_plan :: replacement where
  "demo_plan = replacement_plan (slot_style_of KMysql) ''d'' [] ''t'' ''SELECT 1'' ''00''"

definition demo_db :: "nat swap_db" where
  "demo_db = before_build (Some 1)"

lemma demo_plan_apart:
  "distinct (map fst (plan_meaning KMysql demo_plan))" "rp_probe demo_plan \<notin> fst ` set (plan_meaning KMysql demo_plan)"
  by code_simp+

lemma demo_starts: "stop_fits (\<lambda>d. d) NoStop demo_db" "(\<lambda>d. d) demo_db = before_build (Some 1)"
  by (simp_all add: stop_fits_def demo_db_def)

lemma demo_replaced:
  "replace_table (plan_server KMysql demo_plan 2 []) demo_plan ''t'' NoStop False None [] demo_db =
     (Inr False, None, [replaced_notice ''t''], before_build (Some 2))"
  by code_simp

lemma demo_refused:
  "\<exists>e. replace_table (plan_server KMysql demo_plan 2 (rp_swap demo_plan)) demo_plan ''t'' NoStop False None [] demo_db =
     (Inl e, None, [untouched ''t''], demo_db)"
  by (intro exI [of _ "CliUsage ''refused''"]) code_simp



text \<open>
  An answer that is lost: the exchange was applied and its error reported, so the old rows are in the backup
  and the new ones in place, while the run says that the table was left as it was.
\<close>

lemma lost_answer_is_misreported:
  "\<exists>e d. replace_table (\<lambda>sql d. if sql \<in> set (rp_swap demo_plan)
        then (AnsError (Usage ''connection lost''), snd (plan_server KMysql demo_plan 2 [] sql d))
        else plan_server KMysql demo_plan 2 [] sql d) demo_plan ''t'' NoStop False None [] demo_db =
      (Inl e, None, [untouched ''t''], d) \<and> pl_target (settled d) = Some 2 \<and> pl_backup (settled d) = Some 1"
  by (intro exI [of _ "CliUsage ''connection lost''"]
      exI [of _ "\<lparr>db_now = \<lparr>pl_target = Some 2, pl_scratch = None, pl_backup = Some 1\<rparr>, db_saved = None\<rparr>"]) code_simp

section \<open>What is sent was guarded\<close>

text \<open>The session, with the list of what was sent to it.\<close>

definition logging :: "'s session \<Rightarrow> ('s \<times> bytes list) session" where
  "logging sv sql st = (case st of (s, sent) \<Rightarrow> (case sv sql s of (ans, s') \<Rightarrow> (ans, (s', sent @ [sql]))))"

lemma finish_sends: "snd (snd (finish_statement (logging sv) sql st)) = snd st @ [sql]"
  by (cases "logging sv sql st"; cases "fst (logging sv sql st)" rule: answered.cases)
    (auto simp: finish_statement_def logging_def split: prod.splits)

lemma probe_sends: "snd (snd (table_exists (logging sv) sql st)) = snd st @ [sql]"
  by (cases "logging sv sql st"; cases "fst (logging sv sql st)" rule: answered.cases)
    (auto simp: table_exists_def logging_def split: prod.splits)

text \<open>What a part of the swap sends is among these.\<close>

definition sends :: "bytes set \<Rightarrow> 's \<times> bytes list \<Rightarrow> 's \<times> bytes list \<Rightarrow> bool" where
  "sends A st st' \<longleftrightarrow> set (snd st') \<subseteq> set (snd st) \<union> A"

lemma sends_refl [simp]: "sends A st st"
  by (simp add: sends_def)

lemma sends_trans: "sends A st st' \<Longrightarrow> sends A st' st'' \<Longrightarrow> sends A st st''"
  by (auto simp: sends_def)

lemma finish_sends_in:
  "finish_statement (logging sv) sql st = (r, st') \<Longrightarrow> sql \<in> A \<Longrightarrow> sends A st st'"
  using finish_sends [of sv sql st] by (auto simp: sends_def)

lemma discarded_sends:
  assumes "discarded (logging sv) p name reusable ws st = (ws', st')" and "rp_drop_scratch p \<in> A"
  shows "sends A st st'"
  using assms finish_sends_in [where A = A and sv = sv and sql = "rp_drop_scratch p" and st = st]
  by (auto simp: discarded_def discard_scratch_def Let_def split: prod.splits sum.splits if_splits)

lemma swap_steps_sends:
  "swap_steps (logging sv) i sqls st = (res, st') \<Longrightarrow> set sqls \<subseteq> A \<Longrightarrow> sends A st st'"
proof (induction sqls arbitrary: i st)
  case (Cons sql sqls)
  obtain r st1 where f: "finish_statement (logging sv) sql st = (r, st1)" by (rule prod.exhaust)
  from finish_sends_in [OF f, of A] Cons.prems f Cons.IH [of "Suc i" st1] show ?case
    by (cases r) (auto intro: sends_trans)
qed simp

lemma put_back_sends:
  assumes "put_back (logging sv) p i st = (b, st')" and "rp_atomic p \<Longrightarrow> ''ROLLBACK'' \<in> A" and "set (option_list (rp_undo p)) \<subseteq> A"
  shows "sends A st st'"
proof -
  have fin: "sends A st (snd (finish_statement (logging sv) sql st))" if "sql \<in> A" for sql
    using finish_sends [of sv sql st] that by (simp add: sends_def)
  show ?thesis
  proof (cases "rp_atomic p")
    case True
    with assms fin [of "''ROLLBACK''"] show ?thesis by (auto simp: put_back_def)
  next
    case False
    show ?thesis
    proof (cases "rp_undo p")
      case (Some undo)
      with assms(3) fin [of undo] have "sends A st (snd (finish_statement (logging sv) undo st))" by (simp add: option_list_def)
      with assms(1) False Some show ?thesis by (auto simp: put_back_def split: if_splits prod.splits sum.splits)
    qed (use assms(1) False in \<open>auto simp: put_back_def split: if_splits\<close>)
  qed
qed

lemma swap_in_sends:
  assumes "swap_in (logging sv) p name existed ws st = (r, ws', st')"
    and "set (plan_statements p) \<subseteq> A" "set (rp_install p) \<subseteq> A" "rp_atomic p \<Longrightarrow> ''ROLLBACK'' \<in> A"
  shows "sends A st st'"
proof -
  from assms(2) have subs: "set (rp_swap p) \<subseteq> A" "set (option_list (rp_undo p)) \<subseteq> A"
    "set (option_list (rp_drop_old p)) \<subseteq> A" "rp_drop_scratch p \<in> A" by (auto simp: plan_statements_def)
  let ?sqls = "if existed then rp_swap p else rp_install p"
  obtain res st1 where steps: "swap_steps (logging sv) 0 ?sqls st = (res, st1)" by (rule prod.exhaust)
  have "set ?sqls \<subseteq> A" using subs(1) assms(3) by simp
  from swap_steps_sends [OF steps this] have s1: "sends A st st1" .
  show ?thesis
  proof (cases res)
    case None
    show ?thesis
    proof (cases "if existed then rp_drop_old p else None")
      case None
      with assms(1) steps \<open>res = None\<close> s1 show ?thesis by (auto simp: swap_in_def Let_def split: if_splits)
    next
      case (Some sql)
      then have "sql \<in> A" using subs(3) by (auto simp: option_list_def split: if_splits)
      with finish_sends [of sv sql st1] have "sends A st1 (snd (finish_statement (logging sv) sql st1))" by (simp add: sends_def)
      moreover from assms(1) steps \<open>res = None\<close> Some have "st' = snd (finish_statement (logging sv) sql st1)"
        by (auto simp: swap_in_def Let_def split: if_splits prod.splits sum.splits)
      ultimately show ?thesis using sends_trans [OF s1] by simp
    qed
  next
    case (Some ie)
    obtain i e where ie: "ie = (i, e)" by (rule prod.exhaust)
    obtain b st2 where pb: "put_back (logging sv) p i st1 = (b, st2)" by (rule prod.exhaust)
    from sends_trans [OF s1 put_back_sends [OF pb assms(4) subs(2)]] have s2: "sends A st st2" .
    show ?thesis
    proof (cases b)
      case False
      with assms(1) steps Some ie pb s2 show ?thesis by (auto simp: swap_in_def Let_def)
    next
      case True
      obtain ws2 st3 where dc: "discarded (logging sv) p name True
          (filter (\<lambda>w. w \<noteq> replaced_notice name) (if existed then ws @ [replaced_notice name] else ws)) st2 = (ws2, st3)"
        by (rule prod.exhaust)
      from assms(1) steps Some ie pb True dc have "st' = st3"
        by (auto simp: swap_in_def Let_def split: if_splits)
      with sends_trans [OF s2 discarded_sends [OF dc subs(4)]] show ?thesis by simp
    qed
  qed
qed

lemma run_stoppable_sends:
  assumes "run_stoppable (logging sv) stp sql st = (r, st')" and "sql \<in> A"
    and "stp = NoStop \<or> (\<exists>reusable st1. stp = StoppedAt reusable st1 \<and> sends A st st1)"
  shows "sends A st st'"
proof (cases stp)
  case NoStop
  with assms(1) have "st' = snd (finish_statement (logging sv) sql st)"
    by (auto simp: run_stoppable_def split: prod.splits sum.splits)
  with finish_sends [of sv sql st] assms(2) show ?thesis by (simp add: sends_def)
next
  case (StoppedAt reusable st1)
  with assms(1,3) show ?thesis by (auto simp: run_stoppable_def)
qed

lemma replace_table_sends:
  assumes run: "replace_table (logging sv) p name stp late affected ws st = (r, n, ws', st')"
    and A: "set (plan_statements p) \<subseteq> A" "set (rp_install p) \<subseteq> A" "rp_atomic p \<Longrightarrow> ''ROLLBACK'' \<in> A" "rp_probe p \<in> A"
    and stp: "stp = NoStop \<or> (\<exists>reusable st1. stp = StoppedAt reusable st1 \<and> sends A st st1)"
  shows "sends A st st'"
proof -
  from A(1) have b: "rp_build p \<in> A" "rp_drop_scratch p \<in> A" by (auto simp: plan_statements_def)
  obtain built st1 where r1: "run_stoppable (logging sv) stp (rp_build p) st = (built, st1)" by (rule prod.exhaust)
  note s1 = run_stoppable_sends [OF r1 b(1) stp]
  have ended: ?thesis if "sends A st st2" "discarded (logging sv) p name reusable ws st2 = (ws', st')" for st2 reusable
    using sends_trans [OF that(1) discarded_sends [OF that(2) b(2)]] .
  show ?thesis
  proof (cases "(\<exists>m. built = Inr (Finished m)) \<and> \<not> late")
    case False
    with run r1 ended [OF s1] show ?thesis
      by (auto simp: replace_table_def split: sum.splits built.splits prod.splits)
  next
    case True
    then obtain m where m: "built = Inr (Finished m)" "\<not> late" by blast
    obtain ex st2 where pr: "table_exists (logging sv) (rp_probe p) st1 = (ex, st2)" by (rule prod.exhaust)
    with probe_sends [of sv "rp_probe p" st1] A(4) have "sends A st1 st2" by (simp add: sends_def)
    note s2 = sends_trans [OF s1 this]
    show ?thesis
    proof (cases ex)
      case (Inl e)
      with run r1 m pr ended [OF s2] show ?thesis by (auto simp: replace_table_def split: prod.splits)
    next
      case (Inr existed)
      with run r1 m pr have "swap_in (logging sv) p name existed ws st2 = (r, ws', st')"
        by (auto simp: replace_table_def split: prod.splits)
      from sends_trans [OF s2 swap_in_sends [OF this A(1-3)]] show ?thesis .
    qed
  qed
qed

lemma guarded:
  assumes "guard_for fails env cf s mode sql lg = (Inr u, lg')"
  shows "check_confirmed_readings mode (safe_mode_confirmed s) sql (readings (run_dialect env cf s)) = Inr ()"
    "lg' = logged mode (safe_mode_confirmed s) (decisions_readings mode sql (readings (run_dialect env cf s))) lg"
proof -
  let ?ds = "decisions_readings mode sql (readings (run_dialect env cf s))"
  have g: "guard_confirmed fails mode (safe_mode_confirmed s) sql (run_dialect env cf s) lg = (Inr u, lg')"
    using assms by (simp add: guard_for_def)
  from passed_guard [of fails mode "safe_mode_confirmed s" sql "run_dialect env cf s" lg] g
  show "check_confirmed_readings mode (safe_mode_confirmed s) sql (readings (run_dialect env cf s)) = Inr ()" by simp
  show "lg' = logged mode (safe_mode_confirmed s) ?ds lg"
    using g by (cases rule: guard_statements_spec [of fails mode "safe_mode_confirmed s" ?ds lg]) (auto simp: guard_confirmed_def)
qed

lemma all_guarded:
  assumes "guard_all fails env cf s mode sqls lg = (Inr u, lg')"
  shows "(\<forall>sql \<in> set sqls. check_confirmed_readings mode (safe_mode_confirmed s) sql (readings (run_dialect env cf s)) = Inr ()) \<and>
    lg' = logged mode (safe_mode_confirmed s)
      (concat (map (\<lambda>sql. decisions_readings mode sql (readings (run_dialect env cf s))) sqls)) lg"
  using assms
proof (induction sqls arbitrary: lg)
  case (Cons sql sqls)
  then obtain v lg1 where g: "guard_for fails env cf s mode sql lg = (Inr v, lg1)"
    and rest: "guard_all fails env cf s mode sqls lg1 = (Inr u, lg')"
    by (auto split: prod.splits sum.splits)
  from Cons.IH [OF rest] guarded [OF g] show ?case by simp
qed simp

lemma install_is_guarded:
  "set (rp_install (replacement_plan style cat sch tbl body stamp)) \<subseteq> set (plan_statements (replacement_plan style cat sch tbl body stamp))"
  by (auto simp: replacement_plan_def plan_statements_def Let_def split: driver_kind.split)

lemma write_plan_cases:
  assumes "write_plan s style mode sql stamp = (p, sqls)"
  obtains (swap) q where "p = Some q" "sqls = plan_statements q" "set (rp_install q) \<subseteq> set sqls"
  | (one) x where "p = None" "sqls = [x]"
  using assms install_is_guarded by (auto simp: write_plan_def Let_def split: if_splits)

lemma to_table_plan_cases:
  assumes "to_table_plan fails env cf engine s stamp lg = (Inr (ToWrite p sqls name), lg')"
  obtains mode sql m u and c :: connection_config where "run_safe_mode s engine = Inr mode"
    "write_plan s (slot_style_of (c_kind c)) m sql stamp = (p, sqls)"
    "guard_all fails env cf s mode sqls lg = (Inr u, lg')"
proof -
  from assms have "\<exists>mode sql m u (c :: connection_config). run_safe_mode s engine = Inr mode \<and>
      write_plan s (slot_style_of (c_kind c)) m sql stamp = (p, sqls) \<and> guard_all fails env cf s mode sqls lg = (Inr u, lg')"
    unfolding to_table_plan_def Let_def
    by (auto split: sum.splits option.splits if_splits prod.splits)
  with that show thesis by blast
qed

lemma write_sends:
  assumes "to_table_write (logging sv) p sqls name early stp late (st, []) = (r, (st', sent))"
    and "write_plan s style mode sql stamp = (p, sqls)"
    and "stp = NoStop \<or> (\<exists>reusable st1. stp = StoppedAt reusable (st1, [hd sqls]))"
  shows "set sent \<subseteq> set sqls \<union> {x. \<exists>q. p = Some q \<and> (x = rp_probe q \<or> x = ''ROLLBACK'' \<and> rp_atomic q)}"
proof (cases early)
  case True
  with assms(1) show ?thesis by (simp add: to_table_write_def)
next
  case False
  show ?thesis
  proof (cases rule: write_plan_cases [OF assms(2)])
    case (1 q)
    let ?A = "set sqls \<union> {x. x = rp_probe q \<or> x = ''ROLLBACK'' \<and> rp_atomic q}"
    obtain o1 n ws st2 where run: "replace_table (logging sv) q name stp late None [] (st, []) = (o1, n, ws, st2)"
      by (rule prod_cases4)
    have "hd sqls \<in> set sqls" using 1(2) by (simp add: plan_statements_def)
    with assms(3) have "stp = NoStop \<or> (\<exists>reusable st1. stp = StoppedAt reusable st1 \<and> sends ?A (st, []) st1)"
      by (auto simp: sends_def)
    from replace_table_sends [OF run _ _ _ _ this] 1 have "sends ?A (st, []) st2" by auto
    moreover from assms(1) False run 1(1) have "st2 = (st', sent)"
      by (auto simp: to_table_write_def Let_def split: sum.splits)
    ultimately show ?thesis using 1(1) by (auto simp: sends_def)
  next
    case (2 x)
    obtain b st2 where run: "run_stoppable (logging sv) stp x (st, []) = (b, st2)" by (rule prod.exhaust)
    from assms(3) 2(2) have "stp = NoStop \<or> (\<exists>reusable st1. stp = StoppedAt reusable st1 \<and> sends (set sqls) (st, []) st1)"
      by (auto simp: sends_def)
    from run_stoppable_sends [OF run _ this] 2(2) have "sends (set sqls) (st, []) st2" by simp
    moreover from assms(1) False run 2 have "st2 = (st', sent)"
      by (auto simp: to_table_write_def Let_def split: sum.splits built.splits)
    ultimately show ?thesis by (auto simp: sends_def)
  qed
qed

text \<open>
  C18. A write sends nothing the guard did not pass. Every statement \<open>to_table\<close> sends, on any server, whatever
  fails and wherever a Stop arrives, is one the check of every reading accepted under the run's mode before
  the connect, with its rows in the log; the exceptions are the probe, which counts tables, and the \<open>ROLLBACK\<close>
  of a swap that is one transaction.
\<close>
theorem write_sends_what_was_guarded:
  assumes "to_table_plan fails env cf engine s stamp lg = (Inr (ToWrite p sqls name), lg')"
    and "to_table_write (logging sv) p sqls name early stp late (st, []) = (r, (st', sent))"
    and "stp = NoStop \<or> (\<exists>reusable st1. stp = StoppedAt reusable (st1, [hd sqls]))"
  shows "\<exists>mode. run_safe_mode s engine = Inr mode \<and>
    lg' = logged mode (safe_mode_confirmed s)
      (concat (map (\<lambda>sql. decisions_readings mode sql (readings (run_dialect env cf s))) sqls)) lg \<and>
    list_all (\<lambda>sql.
      check_confirmed_readings mode (safe_mode_confirmed s) sql (readings (run_dialect env cf s)) = Inr () \<or>
      (\<exists>q. p = Some q \<and> (sql = rp_probe q \<or> sql = ''ROLLBACK'' \<and> rp_atomic q))) sent"
proof (cases rule: to_table_plan_cases [OF assms(1)])
  case (1 mode sql m u c)
  from write_sends [OF assms(2) 1(2) assms(3)] all_guarded [OF 1(3)] 1(1) show ?thesis
    by (intro exI [of _ mode]) (auto simp: list_all_iff)
qed

lemma full_passes:
  assumes "list_all (\<lambda>d. sd_decision d = Allow) ds"
  shows "guard_statements fails Full confirmed ds None = (Inr (), None)"
  using assms by (induction ds) (auto simp: record_decision_def log_record_def refusal_error_def)

lemma full_guard_all: "guard_all fails env cf s Full sqls None = (Inr (), None)"
proof (induction sqls)
  case (Cons sql sqls)
  have "list_all (\<lambda>d. sd_decision d = Allow) (decisions_readings Full sql (readings (run_dialect env cf s)))"
    by (auto simp: decisions_readings_def list_all_iff Let_def split: option.splits)
  from full_passes [OF this] Cons show ?case by (simp add: guard_for_def guard_confirmed_def)
qed simp

definition write_settings :: settings where
  "write_settings = [(''DB_KIND'', ''mysql''), (''DB_HOST'', ''h''), (''TARGET_CATALOG'', ''d''), (''TARGET_TABLE'', ''t''),
     (''SQL'', ''SELECT 1;'')]"

lemma write_settings_read:
  "destination_of write_settings = Inr None" "source_sql bare_env write_settings = Inr ''SELECT 1;''"
  "run_safe_mode write_settings writing_engine = Inr Full" "run_timeout write_settings = Inr None"
  "write_mode write_settings = Inr ''create''"
  by code_simp+

lemma write_settings_connect:
  "case connection bare_env bare_ca write_settings of Inr c \<Rightarrow> c_kind c = KMysql | Inl e \<Rightarrow> False"
  by code_simp

lemma write_settings_plan:
  "missing_targets write_settings (slot_style_of KMysql) = []"
  "write_plan write_settings (slot_style_of KMysql) ''create'' ''SELECT 1;'' stamp = (None, [''CREATE TABLE `d`.`t` AS SELECT 1''])"
  by code_simp (simp add: write_plan_def, code_simp)

lemma write_planned:
  "\<exists>name. to_table_plan fails bare_env bare_ca writing_engine write_settings stamp None =
     (Inr (ToWrite None [''CREATE TABLE `d`.`t` AS SELECT 1''] name), None)"
proof -
  obtain c where "connection bare_env bare_ca write_settings = Inr c" "c_kind c = KMysql"
    using write_settings_connect by (auto split: sum.splits)
  then show ?thesis by (simp add: to_table_plan_def write_settings_read write_settings_plan full_guard_all Let_def
        del: slot_style_of.simps)
qed

lemma write_run:
  "to_table_write (logging (\<lambda>sql s. (AnsPages [] None None, s))) None [x] name False NoStop False ((), []) =
     (Inr (- 1, False, []), ((), [x]))"
  by (simp add: to_table_write_def run_stoppable_def finish_statement_def logging_def)

theorem write_sends_what_was_guarded_witness:
  "\<exists>mode. run_safe_mode write_settings writing_engine = Inr mode \<and>
     check_confirmed_readings mode (safe_mode_confirmed write_settings) ''CREATE TABLE `d`.`t` AS SELECT 1''
       (readings (run_dialect bare_env bare_ca write_settings)) = Inr ()"
proof -
  obtain name where "to_table_plan (\<lambda>rows e. None) bare_env bare_ca writing_engine write_settings [] None =
     (Inr (ToWrite None [''CREATE TABLE `d`.`t` AS SELECT 1''] name), None)" using write_planned by blast
  from write_sends_what_was_guarded [OF this write_run] show ?thesis by auto
qed

end
