(* ===== verification/TransferNames.thy ===== *)
theory TransferNames
  imports SqlIdent TextOps EngineError
begin

text \<open>
  The names of a copy between two connections (\<^verbatim>\<open>crates/qh-ffi/src/transfer/names.rs\<close>): which names no
  server keeps as written, and how a name that is kept is put into a statement.

  A name is bare when it is plain and not reserved, and inside its dialect's quotes otherwise.
  \<open>read_ident\<close> is what a server makes of a written name: a bare word is itself in lower case (PostgreSQL
  folds it, and a plain word has nothing to fold), a quoted one is undoubled. \<open>names_ident_reads\<close> says that
  every name comes back, so two names are never written the same.
\<close>

section \<open>Reserved words\<close>

definition RESERVED_WORDS :: "bytes list" where
  "RESERVED_WORDS = [
    ''accessible'', ''add'', ''all'', ''alter'', ''analyse'', ''analyze'', ''and'', ''any'', ''array'', ''as'',
    ''asc'', ''asensitive'', ''asymmetric'', ''authorization'', ''auto'', ''before'', ''between'', ''bigint'',
    ''binary'', ''blob'', ''both'', ''by'', ''call'', ''cascade'', ''case'', ''cast'', ''change'', ''char'',
    ''character'', ''check'', ''collate'', ''collation'', ''column'', ''concurrently'', ''condition'',
    ''constraint'', ''continue'', ''convert'', ''create'', ''cross'', ''cube'', ''cume_dist'',
    ''current_catalog'', ''current_date'', ''current_path'', ''current_role'', ''current_schema'',
    ''current_time'', ''current_timestamp'', ''current_user'', ''cursor'', ''database'', ''databases'',
    ''day_hour'', ''day_microsecond'', ''day_minute'', ''day_second'', ''deallocate'', ''dec'', ''decimal'',
    ''declare'', ''default'', ''deferrable'', ''delayed'', ''delete'', ''dense_rank'', ''desc'', ''describe'',
    ''deterministic'', ''distinct'', ''distinctrow'', ''div'', ''do'', ''double'', ''drop'', ''dual'', ''each'',
    ''else'', ''elseif'', ''empty'', ''enclosed'', ''end'', ''escape'', ''escaped'', ''except'', ''execute'',
    ''exists'', ''exit'', ''explain'', ''extract'', ''false'', ''fetch'', ''first_value'', ''float'', ''float4'',
    ''float8'', ''for'', ''force'', ''foreign'', ''freeze'', ''from'', ''full'', ''fulltext'', ''function'',
    ''generated'', ''get'', ''grant'', ''group'', ''grouping'', ''groups'', ''having'', ''high_priority'',
    ''hour_microsecond'', ''hour_minute'', ''hour_second'', ''if'', ''ignore'', ''ilike'', ''in'', ''index'',
    ''infile'', ''initially'', ''inner'', ''inout'', ''insensitive'', ''insert'', ''int'', ''int1'', ''int2'',
    ''int3'', ''int4'', ''int8'', ''integer'', ''intersect'', ''interval'', ''into'', ''io_after_gtids'',
    ''io_before_gtids'', ''is'', ''isnull'', ''iterate'', ''join'', ''json_array'', ''json_exists'',
    ''json_object'', ''json_query'', ''json_table'', ''json_value'', ''key'', ''keys'', ''kill'', ''lag'',
    ''last_value'', ''lateral'', ''lead'', ''leading'', ''leave'', ''left'', ''like'', ''limit'', ''linear'',
    ''lines'', ''listagg'', ''load'', ''localtime'', ''localtimestamp'', ''lock'', ''long'', ''longblob'',
    ''longtext'', ''loop'', ''low_priority'', ''master_bind'', ''master_ssl_verify_server_cert'', ''match'',
    ''maxvalue'', ''mediumblob'', ''mediumint'', ''mediumtext'', ''middleint'', ''minute_microsecond'',
    ''minute_second'', ''mod'', ''modifies'', ''natural'', ''no_write_to_binlog'', ''normalize'', ''not'',
    ''notnull'', ''nth_value'', ''ntile'', ''null'', ''numeric'', ''of'', ''offset'', ''on'', ''only'',
    ''optimize'', ''optimizer_costs'', ''option'', ''optionally'', ''or'', ''order'', ''out'', ''outer'',
    ''outfile'', ''over'', ''overlaps'', ''partition'', ''percent_rank'', ''placing'', ''precision'', ''prepare'',
    ''primary'', ''procedure'', ''purge'', ''qualify'', ''range'', ''rank'', ''read'', ''read_write'', ''reads'',
    ''real'', ''recursive'', ''references'', ''regexp'', ''release'', ''rename'', ''repeat'', ''replace'',
    ''require'', ''resignal'', ''restrict'', ''return'', ''returning'', ''revoke'', ''right'', ''rlike'',
    ''rollup'', ''row'', ''row_number'', ''rows'', ''schema'', ''schemas'', ''second_microsecond'', ''select'',
    ''sensitive'', ''separator'', ''session_user'', ''set'', ''show'', ''signal'', ''similar'', ''skip'',
    ''smallint'', ''some'', ''spatial'', ''specific'', ''sql'', ''sql_big_result'', ''sql_calc_found_rows'',
    ''sql_small_result'', ''sqlexception'', ''sqlstate'', ''sqlwarning'', ''ssl'', ''starting'', ''stored'',
    ''straight_join'', ''symmetric'', ''system'', ''system_user'', ''table'', ''tablesample'', ''terminated'',
    ''then'', ''tinyblob'', ''tinyint'', ''tinytext'', ''to'', ''trailing'', ''trigger'', ''trim'', ''true'',
    ''uescape'', ''undo'', ''union'', ''unique'', ''unlock'', ''unnest'', ''unsigned'', ''update'', ''usage'',
    ''use'', ''user'', ''using'', ''utc_date'', ''utc_time'', ''utc_timestamp'', ''values'', ''varbinary'',
    ''varchar'', ''varcharacter'', ''variadic'', ''varying'', ''verbose'', ''virtual'', ''when'', ''where'',
    ''while'', ''window'', ''with'', ''write'', ''xor'', ''year_month'', ''zerofill'']"

text \<open>The binary search of the source finds the words of the list because the list is in order.\<close>

fun before_word :: "bytes \<Rightarrow> bytes \<Rightarrow> bool" where
  "before_word s [] = False"
| "before_word [] (d # t) = True"
| "before_word (c # s) (d # t) \<longleftrightarrow> (if c = d then before_word s t else byte_val c < byte_val d)"

lemma reserved_words_in_order: "successively before_word RESERVED_WORDS"
  by code_simp

definition is_reserved :: "bytes \<Rightarrow> bool" where
  "is_reserved word \<longleftrightarrow> List.member RESERVED_WORDS word"

section \<open>Writing a name\<close>

datatype transfer_target = ToPostgres | ToMysql

fun transfer_target_of :: "driver_kind \<Rightarrow> transfer_target option" where
  "transfer_target_of KPostgres = Some ToPostgres"
| "transfer_target_of KMysql = Some ToMysql"
| "transfer_target_of KTrino = None"

fun target_label :: "transfer_target \<Rightarrow> bytes" where
  "target_label ToPostgres = ''PostgreSQL''"
| "target_label ToMysql = ''MySQL''"

fun is_plain :: "bytes \<Rightarrow> bool" where
  "is_plain [] = False"
| "is_plain (c # rest) \<longleftrightarrow>
     (c = CHR ''_'' \<or> is_ascii_lowercase c) \<and>
     list_all (\<lambda>b. b = CHR ''_'' \<or> is_ascii_lowercase b \<or> is_ascii_digit b) rest"

definition needs_quotes :: "bytes \<Rightarrow> bool" where
  "needs_quotes name \<longleftrightarrow> \<not> is_plain name \<or> is_reserved name"

fun names_style :: "transfer_target \<Rightarrow> ident_style" where
  "names_style ToPostgres = Ansi"
| "names_style ToMysql = MysqlIdent"

definition names_quote :: "transfer_target \<Rightarrow> bytes \<Rightarrow> bytes" where
  "names_quote t name = quote_ident (names_style t) name"

definition names_ident :: "transfer_target \<Rightarrow> bytes \<Rightarrow> bytes" where
  "names_ident t name = (if needs_quotes name then names_quote t name else name)"

section \<open>Refusing a name\<close>

text \<open>
  A text is its UTF-8 bytes: \<open>char_count\<close> counts those that continue none, and a character beyond the
  Basic Multilingual Plane is one whose first byte is 0xF0 or more.
\<close>

definition outside_bmp :: "bytes \<Rightarrow> bool" where
  "outside_bmp s \<longleftrightarrow> list_ex (\<lambda>b. 240 \<le> byte_val b) s"

datatype name_error = NameEmpty | NameNul | NameTooLong nat bytes | NameTrailingSpace | NameUnnamed
  | NameOutsideBmp | NameDuplicate

fun name_error_text :: "name_error \<Rightarrow> bytes" where
  "name_error_text NameEmpty = ''is empty''"
| "name_error_text NameNul = ''contains a NUL character''"
| "name_error_text (NameTooLong n unit_name) = ''is longer than '' @ nat_bytes n @ '' '' @ unit_name"
| "name_error_text NameTrailingSpace = ''ends with a space''"
| "name_error_text NameUnnamed = ''has no name of its own (PostgreSQL names such a column ?column?)''"
| "name_error_text NameOutsideBmp =
     ''has a character beyond the Basic Multilingual Plane, which MySQL does not accept in a name''"
| "name_error_text NameDuplicate = ''appears more than once''"

record name_fault =
  nf_index :: nat
  nf_error :: name_error

definition names_check :: "transfer_target \<Rightarrow> bytes \<Rightarrow> name_error + unit" where
  "names_check t name =
     (if name = [] then Inl NameEmpty
      else if contains_byte (CHR 0x00) name then Inl NameNul
      else (case t of
          ToPostgres \<Rightarrow>
            if 63 < length name then Inl (NameTooLong 63 ''bytes'')
            else if name = ''?column?'' then Inl NameUnnamed
            else Inr ()
        | ToMysql \<Rightarrow>
            if 64 < char_count name then Inl (NameTooLong 64 ''characters'')
            else if List.last name = CHR '' '' then Inl NameTrailingSpace
            else if outside_bmp name then Inl NameOutsideBmp
            else Inr ()))"

definition names_checked :: "transfer_target \<Rightarrow> bytes \<Rightarrow> name_error + bytes" where
  "names_checked t name = (case names_check t name of Inl e \<Rightarrow> Inl e | Inr _ \<Rightarrow> Inr (names_ident t name))"

fun checked_parts :: "transfer_target \<Rightarrow> nat \<Rightarrow> bytes list \<Rightarrow> name_fault + bytes list" where
  "checked_parts t index [] = Inr []"
| "checked_parts t index (part # parts) =
     (case names_checked t part of
        Inl e \<Rightarrow> Inl \<lparr>nf_index = index, nf_error = e\<rparr>
      | Inr written \<Rightarrow>
          (case checked_parts t (Suc index) parts of Inl f \<Rightarrow> Inl f | Inr ws \<Rightarrow> Inr (written # ws)))"

definition names_qualified :: "transfer_target \<Rightarrow> bytes list \<Rightarrow> name_fault + bytes" where
  "names_qualified t parts = (case checked_parts t 0 parts of Inl f \<Rightarrow> Inl f | Inr ws \<Rightarrow> Inr (join ''.'' ws))"

text \<open>\<open>lower\<close> is \<open>str::to_lowercase\<close>, which folds by the tables of Unicode.\<close>

fun name_key :: "(bytes \<Rightarrow> bytes) \<Rightarrow> transfer_target \<Rightarrow> bytes \<Rightarrow> bytes" where
  "name_key lower ToPostgres name = name"
| "name_key lower ToMysql name = lower name"

fun check_columns_from ::
  "(bytes \<Rightarrow> bytes) \<Rightarrow> transfer_target \<Rightarrow> nat \<Rightarrow> bytes list \<Rightarrow> bytes list \<Rightarrow> name_fault + unit" where
  "check_columns_from lower t index seen [] = Inr ()"
| "check_columns_from lower t index seen (name # names) =
     (case names_check t name of
        Inl e \<Rightarrow> Inl \<lparr>nf_index = index, nf_error = e\<rparr>
      | Inr _ \<Rightarrow>
          (let key = name_key lower t name in
           if List.member seen key then Inl \<lparr>nf_index = index, nf_error = NameDuplicate\<rparr>
           else check_columns_from lower t (Suc index) (key # seen) names))"

definition check_columns :: "(bytes \<Rightarrow> bytes) \<Rightarrow> transfer_target \<Rightarrow> bytes list \<Rightarrow> name_fault + unit" where
  "check_columns lower t names = check_columns_from lower t 0 [] names"

section \<open>What a server reads\<close>

fun undouble :: "byte \<Rightarrow> bytes \<Rightarrow> bytes option" where
  "undouble q [] = None"
| "undouble q [c] = (if c = q then Some [] else None)"
| "undouble q (c # d # rest) =
     (if c = q then (if d = q then map_option ((#) q) (undouble q rest) else None)
      else map_option ((#) c) (undouble q (d # rest)))"

fun read_ident :: "transfer_target \<Rightarrow> bytes \<Rightarrow> bytes option" where
  "read_ident t [] = None"
| "read_ident t (c # rest) =
     (if c = style_byte (names_style t) then undouble c rest
      else if needs_quotes (c # rest) then None else Some (c # rest))"

lemma undouble_double: "undouble q (double_char q s @ [q]) = Some s"
proof (induction s)
  case (Cons c s)
  then show ?case by (cases "double_char q s @ [q]") auto
qed simp

lemma plain_not_quote: "is_plain (c # rest) \<Longrightarrow> c \<noteq> style_byte (names_style t)"
  by (cases t) (auto simp: is_ascii_lowercase_def byte_val_def)

lemma names_ident_reads: "read_ident t (names_ident t name) = Some name"
proof (cases "needs_quotes name")
  case True
  then have "names_ident t name = style_byte (names_style t) # double_char (style_byte (names_style t)) name @ [style_byte (names_style t)]"
    by (cases t) (simp_all add: names_ident_def names_quote_def)
  then show ?thesis by (simp add: undouble_double)
next
  case False
  then obtain c rest where name: "name = c # rest" and "is_plain name"
    by (cases name) (auto simp: needs_quotes_def)
  with False show ?thesis by (simp add: names_ident_def plain_not_quote del: is_plain.simps)
qed

lemma names_ident_inj: "names_ident t a = names_ident t b \<Longrightarrow> a = b"
  by (metis names_ident_reads option.inject)

lemma check_columns_from_ok:
  assumes "check_columns_from lower t index seen names = Inr ()"
  shows "(\<forall>n \<in> set names. names_check t n = Inr ()) \<and>
     set (map (name_key lower t) names) \<inter> set seen = {} \<and> distinct (map (name_key lower t) names)"
  using assms
proof (induction names arbitrary: index seen)
  case (Cons n names)
  then have now: "names_check t n = Inr ()" "name_key lower t n \<notin> set seen"
    and rest: "check_columns_from lower t (Suc index) (name_key lower t n # seen) names = Inr ()"
    by (auto simp: Let_def List.member_iff split: sum.splits if_splits)
  from Cons.IH [OF rest] now show ?case by auto
qed simp

lemma check_columns_ok:
  assumes "check_columns lower t names = Inr ()"
  shows "n \<in> set names \<Longrightarrow> names_check t n = Inr ()" "distinct (map (name_key lower t) names)" "distinct names"
  using check_columns_from_ok [of lower t 0 "[]" names] assms
  by (auto simp: check_columns_def distinct_map)

end
