(* ===== verification/TransferTypes.thy ===== *)
theory TransferTypes
  imports TransferNames SafeMode
begin

text \<open>
  Column types between dialects: what a driver says of a column (\<^verbatim>\<open>crates/qh-driver/src/sql_type.rs\<close>) and
  what it becomes at the other end (\<^verbatim>\<open>crates/qh-ffi/src/transfer/types.rs\<close>).

  \<open>map_type\<close> gives one outcome for every type and dialect; \<open>plan_table\<close> maps the columns of a result, and
  for MySQL moves wide columns to text and blob types until the row fits. The widths, lengths and counts of
  the source are \<open>u32\<close> and only ever grow by a factor of four in \<open>u64\<close>, so they are naturals here.
  \<open>text_fns\<close> is what the standard library does to a text by the tables of Unicode: \<open>to_lowercase\<close>, and the
  \<open>Debug\<close> form in which a name is shown in a message.
\<close>

section \<open>What a driver says\<close>

datatype pg_builtin =
    PgInet | PgCidr | PgMacaddr | PgMacaddr8 | PgBit | PgVarbit | PgXml | PgTsvector | PgTsquery
  | PgPoint | PgLine | PgLseg | PgGeoBox | PgPath | PgPolygon | PgCircle

definition PG_BUILTINS :: "pg_builtin list" where
  "PG_BUILTINS =
     [PgInet, PgCidr, PgMacaddr, PgMacaddr8, PgBit, PgVarbit, PgXml, PgTsvector, PgTsquery,
      PgPoint, PgLine, PgLseg, PgGeoBox, PgPath, PgPolygon, PgCircle]"

fun pg_builtin_oid :: "pg_builtin \<Rightarrow> nat" where
  "pg_builtin_oid PgInet = 869"
| "pg_builtin_oid PgCidr = 650"
| "pg_builtin_oid PgMacaddr = 829"
| "pg_builtin_oid PgMacaddr8 = 774"
| "pg_builtin_oid PgBit = 1560"
| "pg_builtin_oid PgVarbit = 1562"
| "pg_builtin_oid PgXml = 142"
| "pg_builtin_oid PgTsvector = 3614"
| "pg_builtin_oid PgTsquery = 3615"
| "pg_builtin_oid PgPoint = 600"
| "pg_builtin_oid PgLine = 628"
| "pg_builtin_oid PgLseg = 601"
| "pg_builtin_oid PgGeoBox = 603"
| "pg_builtin_oid PgPath = 602"
| "pg_builtin_oid PgPolygon = 604"
| "pg_builtin_oid PgCircle = 718"

definition pg_builtin_from_oid :: "nat \<Rightarrow> pg_builtin option" where
  "pg_builtin_from_oid oid = List.find (\<lambda>kind. pg_builtin_oid kind = oid) PG_BUILTINS"

fun ddl_name :: "pg_builtin \<Rightarrow> bytes" where
  "ddl_name PgInet = ''inet''"
| "ddl_name PgCidr = ''cidr''"
| "ddl_name PgMacaddr = ''macaddr''"
| "ddl_name PgMacaddr8 = ''macaddr8''"
| "ddl_name PgBit = ''bit''"
| "ddl_name PgVarbit = ''varbit''"
| "ddl_name PgXml = ''xml''"
| "ddl_name PgTsvector = ''tsvector''"
| "ddl_name PgTsquery = ''tsquery''"
| "ddl_name PgPoint = ''point''"
| "ddl_name PgLine = ''line''"
| "ddl_name PgLseg = ''lseg''"
| "ddl_name PgGeoBox = ''box''"
| "ddl_name PgPath = ''path''"
| "ddl_name PgPolygon = ''polygon''"
| "ddl_name PgCircle = ''circle''"

datatype base =
    BBool | BInt8 | BInt16 | BInt24 | BInt32 | BInt64 | BFloat32 | BFloat64 | BDecimal | BText | BChar | BBinary
  | BUuid | BDate | BTime | BTimeTz | BTimestamp | BTimestampTz | BInterval | BJson | BJsonb | BArray | BMap | BRow
  | BEnum | BSet | BBuiltin pg_builtin | BOther

fun base_int_bytes :: "base \<Rightarrow> nat option" where
  "base_int_bytes BInt8 = Some 1"
| "base_int_bytes BInt16 = Some 2"
| "base_int_bytes BInt24 = Some 3"
| "base_int_bytes BInt32 = Some 4"
| "base_int_bytes BInt64 = Some 8"
| "base_int_bytes _ = None"

fun base_label :: "base \<Rightarrow> bytes" where
  "base_label BBool = ''boolean''"
| "base_label BInt8 = ''integer''"
| "base_label BInt16 = ''integer''"
| "base_label BInt24 = ''integer''"
| "base_label BInt32 = ''integer''"
| "base_label BInt64 = ''integer''"
| "base_label BFloat32 = ''float''"
| "base_label BFloat64 = ''double''"
| "base_label BDecimal = ''decimal''"
| "base_label BText = ''text''"
| "base_label BChar = ''char''"
| "base_label BBinary = ''binary''"
| "base_label BUuid = ''uuid''"
| "base_label BDate = ''date''"
| "base_label BTime = ''time''"
| "base_label BTimeTz = ''time with time zone''"
| "base_label BTimestamp = ''timestamp''"
| "base_label BTimestampTz = ''timestamp with time zone''"
| "base_label BInterval = ''interval''"
| "base_label BJson = ''json''"
| "base_label BJsonb = ''jsonb''"
| "base_label BArray = ''array''"
| "base_label BMap = ''map''"
| "base_label BRow = ''row''"
| "base_label BEnum = ''enum''"
| "base_label BSet = ''set''"
| "base_label (BBuiltin kind) = ddl_name kind"
| "base_label BOther = ''unsupported type''"

datatype time_zone = ZoneNone | ZoneOffset | ZoneSession

datatype sql_type = SqlType
  (st_base: base) (st_precision: "nat option") (st_scale: "int option") (st_length: "nat option")
  (st_unsigned: bool) (st_time_zone: time_zone) (st_fraction_digits: "nat option") (st_decimals: "nat option")
  (st_element: "sql_type option") (st_fields: "sql_type list") (st_oid: "nat option") (st_native: bytes)

definition sql_type_of :: "base \<Rightarrow> sql_type" where
  "sql_type_of b = SqlType b None None None False ZoneNone None None None [] None []"

definition sql_decimal :: "nat \<Rightarrow> int \<Rightarrow> sql_type" where
  "sql_decimal p s = SqlType BDecimal (Some p) (Some s) None False ZoneNone None None None [] None []"

definition sql_array_of :: "sql_type \<Rightarrow> sql_type" where
  "sql_array_of element = SqlType BArray None None None False ZoneNone None None (Some element) [] None []"

fun with_length :: "sql_type \<Rightarrow> nat \<Rightarrow> sql_type" where
  "with_length (SqlType b p s l u z f d e fs oid n) len = SqlType b p s (Some len) u z f d e fs oid n"

definition fraction :: "sql_type \<Rightarrow> nat" where
  "fraction ty = (case st_fraction_digits ty of Some digits \<Rightarrow> digits | None \<Rightarrow> 6)"

section \<open>The types of a target\<close>

datatype text_size = SizeText | SizeMedium | SizeLong

datatype target_type =
    TBoolean
  | TInt nat bool
  | TNumeric "nat option" nat
  | TFloat bool
  | TVarchar nat
  | TChar nat
  | TText text_size
  | TBinary "nat option"
  | TUuid
  | TDate
  | TTime nat
  | TTimeTz nat
  | TTimestamp nat
  | TTimestampTz nat
  | TDateTime nat
  | TInterval
  | TJson
  | TJsonb
  | TArray target_type
  | TBuiltin pg_builtin "nat option"

definition sized :: "bytes \<Rightarrow> nat \<Rightarrow> bytes" where
  "sized name n = name @ ''('' @ nat_bytes n @ '')''"

definition sized2 :: "bytes \<Rightarrow> nat \<Rightarrow> nat \<Rightarrow> bytes" where
  "sized2 name p s = name @ ''('' @ nat_bytes p @ '','' @ nat_bytes s @ '')''"

fun pg_int_name :: "nat \<Rightarrow> bool \<Rightarrow> bytes option" where
  "pg_int_name n True = None"
| "pg_int_name n False =
     (if n = 2 then Some ''smallint'' else if n = 4 then Some ''integer'' else if n = 8 then Some ''bigint'' else None)"

definition mysql_int_name :: "nat \<Rightarrow> bytes option" where
  "mysql_int_name n =
     (if n = 1 then Some ''tinyint'' else if n = 2 then Some ''smallint'' else if n = 3 then Some ''mediumint''
      else if n = 4 then Some ''int'' else if n = 8 then Some ''bigint'' else None)"

fun mysql_text_name :: "text_size \<Rightarrow> bytes" where
  "mysql_text_name SizeText = ''text''"
| "mysql_text_name SizeMedium = ''mediumtext''"
| "mysql_text_name SizeLong = ''longtext''"

fun render :: "target_type \<Rightarrow> transfer_target \<Rightarrow> bytes option" where
  "render TBoolean ToPostgres = Some ''boolean''"
| "render TBoolean ToMysql = Some ''tinyint(1)''"
| "render (TInt n u) ToPostgres = pg_int_name n u"
| "render (TInt n u) ToMysql =
     map_option (\<lambda>name. if u then name @ '' unsigned'' else name) (mysql_int_name n)"
| "render (TNumeric p s) ToPostgres =
     Some (case p of None \<Rightarrow> ''numeric'' | Some p \<Rightarrow> sized2 ''numeric'' p s)"
| "render (TNumeric p s) ToMysql = map_option (\<lambda>p. sized2 ''decimal'' p s) p"
| "render (TFloat dbl) ToPostgres = Some (if dbl then ''double precision'' else ''real'')"
| "render (TFloat dbl) ToMysql = Some (if dbl then ''double'' else ''float'')"
| "render (TVarchar n) t = Some (sized ''varchar'' n)"
| "render (TChar n) t = Some (sized ''char'' n)"
| "render (TText sz) ToPostgres = Some ''text''"
| "render (TText sz) ToMysql = Some (mysql_text_name sz)"
| "render (TBinary n) ToPostgres = Some ''bytea''"
| "render (TBinary n) ToMysql = Some (case n of Some n \<Rightarrow> sized ''varbinary'' n | None \<Rightarrow> ''longblob'')"
| "render TUuid ToPostgres = Some ''uuid''"
| "render TUuid ToMysql = None"
| "render TDate t = Some ''date''"
| "render (TTime digits) t = Some (sized ''time'' digits)"
| "render (TTimeTz digits) ToPostgres = Some (sized ''timetz'' digits)"
| "render (TTimeTz digits) ToMysql = None"
| "render (TTimestamp digits) ToPostgres = Some (sized ''timestamp'' digits)"
| "render (TTimestamp digits) ToMysql = None"
| "render (TTimestampTz digits) ToPostgres = Some (sized ''timestamptz'' digits)"
| "render (TTimestampTz digits) ToMysql = None"
| "render (TDateTime digits) ToPostgres = None"
| "render (TDateTime digits) ToMysql = Some (sized ''datetime'' digits)"
| "render TInterval ToPostgres = Some ''interval''"
| "render TInterval ToMysql = None"
| "render TJson t = Some ''json''"
| "render TJsonb ToPostgres = Some ''jsonb''"
| "render TJsonb ToMysql = None"
| "render (TArray inner) ToPostgres = map_option (\<lambda>ddl. ddl @ ''[]'') (render inner ToPostgres)"
| "render (TArray inner) ToMysql = None"
| "render (TBuiltin kind len) ToPostgres =
     Some (case len of
             Some n \<Rightarrow> if kind = PgBit \<or> kind = PgVarbit then sized (ddl_name kind) n else ddl_name kind
           | None \<Rightarrow> ddl_name kind)"
| "render (TBuiltin kind len) ToMysql = None"

record resolved =
  rs_ty :: target_type
  rs_ddl :: bytes

datatype type_mapping = MapExact resolved | MapWidened resolved bytes | MapFallback resolved bytes | MapRefuse bytes

datatype map_outcome = OutExact | OutWidened | OutFallback | OutRefuse

fun mapping_outcome :: "type_mapping \<Rightarrow> map_outcome" where
  "mapping_outcome (MapExact r) = OutExact"
| "mapping_outcome (MapWidened r n) = OutWidened"
| "mapping_outcome (MapFallback r n) = OutFallback"
| "mapping_outcome (MapRefuse n) = OutRefuse"

fun mapping_resolved :: "type_mapping \<Rightarrow> resolved option" where
  "mapping_resolved (MapExact r) = Some r"
| "mapping_resolved (MapWidened r n) = Some r"
| "mapping_resolved (MapFallback r n) = Some r"
| "mapping_resolved (MapRefuse n) = None"

fun mapping_note :: "type_mapping \<Rightarrow> bytes option" where
  "mapping_note (MapExact r) = None"
| "mapping_note (MapWidened r n) = Some n"
| "mapping_note (MapFallback r n) = Some n"
| "mapping_note (MapRefuse n) = Some n"

definition resolve_type :: "target_type \<Rightarrow> transfer_target \<Rightarrow> type_mapping + resolved" where
  "resolve_type ty t =
     (case render ty t of
        Some ddl \<Rightarrow> Inr \<lparr>rs_ty = ty, rs_ddl = ddl\<rparr>
      | None \<Rightarrow> Inl (MapRefuse (target_label t @ '' has no such column type'')))"

definition exact :: "target_type \<Rightarrow> transfer_target \<Rightarrow> type_mapping" where
  "exact ty t = (case resolve_type ty t of Inl m \<Rightarrow> m | Inr r \<Rightarrow> MapExact r)"

definition widened :: "target_type \<Rightarrow> transfer_target \<Rightarrow> bytes \<Rightarrow> type_mapping" where
  "widened ty t note = (case resolve_type ty t of Inl m \<Rightarrow> m | Inr r \<Rightarrow> MapWidened r note)"

definition fallback :: "target_type \<Rightarrow> transfer_target \<Rightarrow> bytes \<Rightarrow> type_mapping" where
  "fallback ty t note = (case resolve_type ty t of Inl m \<Rightarrow> m | Inr r \<Rightarrow> MapFallback r note)"

section \<open>Mapping a column\<close>

definition PG_VARCHAR_MAX :: nat where "PG_VARCHAR_MAX = 10485760"
definition MYSQL_VARCHAR_MAX :: nat where "MYSQL_VARCHAR_MAX = 16383"
definition MYSQL_DECIMAL_DIGITS :: nat where "MYSQL_DECIMAL_DIGITS = 65"
definition MYSQL_DECIMAL_SCALE :: nat where "MYSQL_DECIMAL_SCALE = 30"
definition PG_NUMERIC_DIGITS :: nat where "PG_NUMERIC_DIGITS = 1000"
definition MAX_FRACTION :: nat where "MAX_FRACTION = 6"

definition mysql_text_for :: "nat option \<Rightarrow> target_type" where
  "mysql_text_for chars =
     (case chars of
        None \<Rightarrow> TText SizeLong
      | Some n \<Rightarrow>
          if n \<le> MYSQL_VARCHAR_MAX then TVarchar n
          else if n * 4 \<le> 16777215 then TText SizeMedium else TText SizeLong)"

definition map_integer :: "sql_type \<Rightarrow> transfer_target \<Rightarrow> type_mapping" where
  "map_integer ty t =
     (let n = (case base_int_bytes (st_base ty) of Some n \<Rightarrow> n | None \<Rightarrow> 8); u = st_unsigned ty in
      case t of
        ToMysql \<Rightarrow> exact (TInt n u) t
      | ToPostgres \<Rightarrow>
          if (n = 2 \<or> n = 4 \<or> n = 8) \<and> \<not> u then exact (TInt n u) t
          else if n = 1 then widened (TInt 2 False) t ''PostgreSQL has no one-byte integer; written as smallint''
          else if n = 2 \<and> u then widened (TInt 4 False) t ''PostgreSQL has no unsigned integers; written as integer''
          else if n = 3 then widened (TInt 4 False) t ''PostgreSQL has no three-byte integer; written as integer''
          else if n = 4 \<and> u then widened (TInt 8 False) t ''PostgreSQL has no unsigned integers; written as bigint''
          else widened (TNumeric (Some 20) 0) t ''PostgreSQL has no unsigned bigint; written as numeric(20,0)'')"

definition map_decimal :: "sql_type \<Rightarrow> transfer_target \<Rightarrow> type_mapping" where
  "map_decimal ty t =
     (case (case st_scale ty of None \<Rightarrow> Some 0 | Some s \<Rightarrow> if 0 \<le> s then Some (nat s) else None) of
        None \<Rightarrow> MapRefuse ''a decimal with a negative scale''
      | Some scale \<Rightarrow>
          (case (t, st_precision ty) of
             (ToPostgres, None) \<Rightarrow> exact (TNumeric None 0) t
           | (ToPostgres, Some p) \<Rightarrow>
               if p = 0 \<or> p > PG_NUMERIC_DIGITS \<or> scale > p then MapRefuse ''a decimal PostgreSQL cannot declare''
               else exact (TNumeric (Some p) scale) t
           | (ToMysql, None) \<Rightarrow>
               widened (TNumeric (Some MYSQL_DECIMAL_DIGITS) MYSQL_DECIMAL_SCALE) t
                 (''a decimal of no declared size is written as decimal(65,30); a value with more '' @
                  ''than 30 decimals or 35 whole digits is refused'')
           | (ToMysql, Some p) \<Rightarrow>
               if p = 0 \<or> p > MYSQL_DECIMAL_DIGITS \<or> scale > MYSQL_DECIMAL_SCALE \<or> scale > p
               then MapRefuse (''a decimal beyond MySQL'' @ [CHR 0x27] @ ''s 65 digits or 30 decimals'')
               else exact (TNumeric (Some p) scale) t))"

text \<open>
  The mapping of every base but an array. \<open>map_type\<close> of an array looks at its element, and only at one that is
  not itself an array, a map or a row, so this is all it needs of itself (\<open>map_array_element\<close>).
\<close>

definition map_text :: "sql_type \<Rightarrow> transfer_target \<Rightarrow> type_mapping" where
  "map_text ty t =
     (case (t, st_length ty) of
        (ToPostgres, None) \<Rightarrow> exact (TText SizeText) t
      | (ToPostgres, Some n) \<Rightarrow>
          if n \<le> PG_VARCHAR_MAX then exact (TVarchar n) t
          else widened (TText SizeText) t
            (''the length is beyond PostgreSQL'' @ [CHR 0x27] @ ''s varchar limit; written as text'')
      | (ToMysql, None) \<Rightarrow> widened (TText SizeLong) t ''text of no declared length is written as longtext''
      | (ToMysql, Some n) \<Rightarrow>
          let wanted = mysql_text_for (Some n) in
          if wanted = TVarchar n then exact wanted t
          else widened wanted t ''the length is beyond a MySQL varchar row; written as a text type'')"

definition map_char :: "sql_type \<Rightarrow> driver_kind \<Rightarrow> transfer_target \<Rightarrow> type_mapping" where
  "map_char ty src t =
     (case (t, st_length ty) of
        (_, None) \<Rightarrow> MapRefuse ''a char column without a length''
      | (ToPostgres, Some n) \<Rightarrow>
          if n \<le> PG_VARCHAR_MAX then exact (TChar n) t
          else MapRefuse ''a char column longer than PostgreSQL allows''
      | (ToMysql, Some n) \<Rightarrow>
          if n \<le> 255 then
            (if src = KMysql then exact (TChar n) t
             else widened (TChar n) t ''MySQL does not keep the padding of a char value'')
          else widened (mysql_text_for (Some n)) t
            (''the length is beyond MySQL'' @ [CHR 0x27] @ ''s char limit; written as varchar''))"

definition map_binary :: "sql_type \<Rightarrow> transfer_target \<Rightarrow> type_mapping" where
  "map_binary ty t =
     (case t of
        ToPostgres \<Rightarrow> exact (TBinary None) t
      | ToMysql \<Rightarrow>
          (case st_length ty of
             Some n \<Rightarrow>
               if n \<le> 65535 then exact (TBinary (Some n)) t
               else widened (TBinary None) t ''binary data of no fitting length is written as longblob''
           | None \<Rightarrow> widened (TBinary None) t ''binary data of no fitting length is written as longblob''))"

definition BEYOND_MICROSECONDS :: bytes where
  "BEYOND_MICROSECONDS = ''fractional seconds beyond microseconds are not carried''"

definition map_timestamp :: "sql_type \<Rightarrow> transfer_target \<Rightarrow> type_mapping" where
  "map_timestamp ty t =
     (let digits = fraction ty; session = (st_time_zone ty = ZoneSession);
          note = ''a MySQL timestamp is the wall clock of the source session'' @ [CHR 0x27] @ ''s time zone'' in
      if digits > MAX_FRACTION then MapRefuse BEYOND_MICROSECONDS
      else (case (t, session) of
              (ToPostgres, False) \<Rightarrow> exact (TTimestamp digits) t
            | (ToPostgres, True) \<Rightarrow> fallback (TTimestamp digits) t note
            | (ToMysql, False) \<Rightarrow> exact (TDateTime digits) t
            | (ToMysql, True) \<Rightarrow> fallback (TDateTime digits) t note))"

definition JSON_NOTE :: bytes where
  "JSON_NOTE =
     ''MySQL json normalises key order and spacing, and keeps a number only as a 64-bit integer or a double '' @
     ''(a value with any other number is refused)''"

definition map_composite :: "sql_type \<Rightarrow> transfer_target \<Rightarrow> type_mapping" where
  "map_composite ty t =
     (case t of
        ToPostgres \<Rightarrow>
          fallback TJsonb t
            (if st_base ty = BRow then ''a row is written as a jsonb array; its field names are not kept''
             else ''a map is written as a jsonb object'')
      | ToMysql \<Rightarrow>
          fallback TJson t
            (if st_base ty = BRow
             then ''a row is written as a json array; its field names are not kept, and its numbers are kept '' @
                  ''only as 64-bit integers or doubles''
             else ''a map is written as a json object; its numbers are kept only as 64-bit integers or doubles, '' @
                  ''so a decimal a double cannot hold is refused''))"

definition map_builtin :: "pg_builtin \<Rightarrow> sql_type \<Rightarrow> driver_kind \<Rightarrow> transfer_target \<Rightarrow> type_mapping" where
  "map_builtin kind ty src t =
     (if t = ToPostgres \<and> src = KPostgres then
        (let len = (if kind = PgBit \<or> kind = PgVarbit then st_length ty else None) in
         if kind = PgBit \<and> len = None then MapRefuse ''a bit column without a length''
         else exact (TBuiltin kind len) t)
      else MapRefuse ''this PostgreSQL type can only be written to PostgreSQL'')"

definition map_flat :: "sql_type \<Rightarrow> driver_kind \<Rightarrow> transfer_target \<Rightarrow> type_mapping" where
  "map_flat ty src t =
     (let digits = fraction ty in
      case st_base ty of
        BBool \<Rightarrow>
          (case t of
             ToPostgres \<Rightarrow> exact TBoolean t
           | ToMysql \<Rightarrow> widened TBoolean t ''boolean is written as tinyint(1)'')
      | BInt8 \<Rightarrow> map_integer ty t
      | BInt16 \<Rightarrow> map_integer ty t
      | BInt24 \<Rightarrow> map_integer ty t
      | BInt32 \<Rightarrow> map_integer ty t
      | BInt64 \<Rightarrow> map_integer ty t
      | BFloat32 \<Rightarrow>
          if src = KMysql then
            MapRefuse (''MySQL sends a FLOAT as text rounded to 6 significant digits, so its value cannot be '' @
              ''copied exactly; a DOUBLE column is copied exactly'')
          else exact (TFloat False) t
      | BFloat64 \<Rightarrow>
          if src = KMysql \<and> st_decimals ty \<noteq> None then
            MapRefuse (''MySQL sends a DOUBLE column or expression declared with a fixed number of decimals '' @
              ''as text rounded to them, so its value cannot be copied exactly; a plain DOUBLE column is copied exactly'')
          else exact (TFloat True) t
      | BDecimal \<Rightarrow> map_decimal ty t
      | BText \<Rightarrow> map_text ty t
      | BChar \<Rightarrow> map_char ty src t
      | BBinary \<Rightarrow> map_binary ty t
      | BUuid \<Rightarrow>
          (case t of
             ToPostgres \<Rightarrow> exact TUuid t
           | ToMysql \<Rightarrow> fallback (TChar 36) t ''MySQL has no uuid type; written as char(36) text'')
      | BDate \<Rightarrow> exact TDate t
      | BTime \<Rightarrow> if digits > MAX_FRACTION then MapRefuse BEYOND_MICROSECONDS else exact (TTime digits) t
      | BTimeTz \<Rightarrow>
          if digits > MAX_FRACTION then MapRefuse BEYOND_MICROSECONDS
          else if src = KTrino then MapRefuse ''the Trino driver cannot read a time with time zone''
          else (case t of
                  ToPostgres \<Rightarrow> exact (TTimeTz digits) t
                | ToMysql \<Rightarrow> MapRefuse ''MySQL has no time with a time zone'')
      | BTimestamp \<Rightarrow> map_timestamp ty t
      | BTimestampTz \<Rightarrow>
          if digits > MAX_FRACTION then MapRefuse BEYOND_MICROSECONDS
          else (case t of
                  ToPostgres \<Rightarrow> exact (TTimestampTz digits) t
                | ToMysql \<Rightarrow>
                    fallback (TDateTime digits) t
                      ''MySQL has no time zone in a datetime; written as the UTC wall clock'')
      | BInterval \<Rightarrow>
          (case t of ToPostgres \<Rightarrow> exact TInterval t | ToMysql \<Rightarrow> MapRefuse ''MySQL has no interval type'')
      | BJson \<Rightarrow> (case t of ToPostgres \<Rightarrow> exact TJson t | ToMysql \<Rightarrow> widened TJson t JSON_NOTE)
      | BJsonb \<Rightarrow> (case t of ToPostgres \<Rightarrow> exact TJsonb t | ToMysql \<Rightarrow> widened TJson t JSON_NOTE)
      | BMap \<Rightarrow> map_composite ty t
      | BRow \<Rightarrow> map_composite ty t
      | BEnum \<Rightarrow>
          (case t of
             ToPostgres \<Rightarrow> fallback (TText SizeText) t ''an enumerated value is written as text''
           | ToMysql \<Rightarrow> fallback (TVarchar 255) t ''an enumerated value is written as varchar(255)'')
      | BSet \<Rightarrow>
          (case t of
             ToPostgres \<Rightarrow> fallback (TText SizeText) t ''an enumerated value is written as text''
           | ToMysql \<Rightarrow> fallback (TVarchar 255) t ''an enumerated value is written as varchar(255)'')
      | BBuiltin kind \<Rightarrow> map_builtin kind ty src t
      | _ \<Rightarrow> MapRefuse ''this column type has no faithful counterpart'')"

definition is_composite :: "base \<Rightarrow> bool" where
  "is_composite b \<longleftrightarrow> b = BArray \<or> b = BMap \<or> b = BRow"

definition map_array :: "sql_type \<Rightarrow> driver_kind \<Rightarrow> transfer_target \<Rightarrow> type_mapping" where
  "map_array ty src t =
     (case t of
        ToPostgres \<Rightarrow>
          (let typed = (case st_element ty of
                  None \<Rightarrow> None
                | Some element \<Rightarrow>
                    if is_composite (st_base element) then None
                    else (case map_flat element src ToPostgres of MapExact r \<Rightarrow> Some (rs_ty r) | _ \<Rightarrow> None)) in
           case typed of
             Some inner \<Rightarrow> exact (TArray inner) t
           | None \<Rightarrow>
               if src = KPostgres then
                 MapRefuse (''the PostgreSQL driver hands an array over as text, which can only be '' @
                   ''written to an array of an element type that is written exactly'')
               else fallback TJsonb t ''an array of this element type is written as jsonb'')
      | ToMysql \<Rightarrow>
          if src = KPostgres then
            MapRefuse (''the PostgreSQL driver hands an array over as text, and turning that text into JSON is '' @
              ''not built'')
          else fallback TJson t
            ''MySQL has no array type; written as json, whose numbers are kept only as 64-bit integers or doubles'')"

definition map_type :: "sql_type \<Rightarrow> driver_kind \<Rightarrow> transfer_target \<Rightarrow> type_mapping" where
  "map_type ty src t = (if st_base ty = BArray then map_array ty src t else map_flat ty src t)"

lemma map_array_element:
  "\<not> is_composite (st_base element) \<Longrightarrow> map_flat element src t = map_type element src t"
  by (simp add: map_type_def is_composite_def)

section \<open>Planning a table\<close>

record text_fns =
  tf_lower :: "bytes \<Rightarrow> bytes"
  tf_debug :: "bytes \<Rightarrow> bytes"

record planned_column =
  pc_name :: bytes
  pc_ty :: sql_type
  pc_source :: driver_kind
  pc_target :: transfer_target
  pc_resolved :: resolved
  pc_outcome :: map_outcome
  pc_note :: "bytes option"

fun from_mapping ::
  "bytes \<Rightarrow> sql_type \<Rightarrow> driver_kind \<Rightarrow> transfer_target \<Rightarrow> type_mapping \<Rightarrow> bytes + planned_column" where
  "from_mapping name ty src t (MapRefuse reason) = Inl reason"
| "from_mapping name ty src t m =
     Inr \<lparr>pc_name = name, pc_ty = ty, pc_source = src, pc_target = t, pc_resolved = the (mapping_resolved m),
          pc_outcome = mapping_outcome m, pc_note = mapping_note m\<rparr>"

record table_change =
  tc_column :: bytes
  tc_from :: bytes
  tc_to :: bytes
  tc_note :: bytes

record table_plan =
  tp_target :: transfer_target
  tp_columns :: "planned_column list"

record table_refusal =
  tr_column :: "nat option"
  tr_reason :: bytes

definition describe_type :: "sql_type \<Rightarrow> bytes" where
  "describe_type ty = (if st_native ty = [] then base_label (st_base ty) else st_native ty)"

fun plan_columns ::
  "text_fns \<Rightarrow> driver_kind \<Rightarrow> transfer_target \<Rightarrow> nat \<Rightarrow> (bytes \<times> sql_type) list \<Rightarrow> table_refusal + planned_column list" where
  "plan_columns tf src t index [] = Inr []"
| "plan_columns tf src t index ((name, ty) # columns) =
     (case from_mapping name ty src t (map_type ty src t) of
        Inl reason \<Rightarrow>
          Inl \<lparr>tr_column = Some index,
               tr_reason = ''column '' @ tf_debug tf name @ '' ('' @ describe_type ty @ '') cannot be written to '' @
                 target_label t @ '' faithfully: '' @ reason\<rparr>
      | Inr column \<Rightarrow>
          (case plan_columns tf src t (Suc index) columns of
             Inl r \<Rightarrow> Inl r
           | Inr rest \<Rightarrow> Inr (column # rest)))"

section \<open>Fitting a MySQL row\<close>

definition LEFTOVER :: "nat list" where
  "LEFTOVER = [0, 1, 1, 2, 2, 3, 3, 4, 4]"

definition decimal_bytes :: "nat \<Rightarrow> nat" where
  "decimal_bytes digits = digits div 9 * 4 + LEFTOVER ! (digits mod 9)"

fun mysql_row_bytes :: "target_type \<Rightarrow> nat" where
  "mysql_row_bytes TBoolean = 1"
| "mysql_row_bytes (TInt n u) = n"
| "mysql_row_bytes (TNumeric p s) =
     (let p = (case p of Some p \<Rightarrow> p | None \<Rightarrow> MYSQL_DECIMAL_DIGITS) in decimal_bytes (p - s) + decimal_bytes s)"
| "mysql_row_bytes (TFloat dbl) = (if dbl then 8 else 4)"
| "mysql_row_bytes (TVarchar n) = n * 4 + (if n * 4 > 255 then 2 else 1)"
| "mysql_row_bytes (TChar n) = n * 4"
| "mysql_row_bytes (TBinary (Some n)) = n + (if n > 255 then 2 else 1)"
| "mysql_row_bytes TDate = 3"
| "mysql_row_bytes (TTime digits) = 3 + (digits + 1) div 2"
| "mysql_row_bytes (TDateTime digits) = 5 + (digits + 1) div 2"
| "mysql_row_bytes _ = 12"

definition MYSQL_ROW_LIMIT :: nat where "MYSQL_ROW_LIMIT = 65535"

definition row_bytes :: "planned_column list \<Rightarrow> nat" where
  "row_bytes columns = sum_list (map (\<lambda>c. mysql_row_bytes (rs_ty (pc_resolved c))) columns)"

definition mysql_text_size_for :: "nat \<Rightarrow> target_type" where
  "mysql_text_size_for n =
     (if n * 4 \<le> 65535 then TText SizeText else if n * 4 \<le> 16777215 then TText SizeMedium else TText SizeLong)"

fun demotion :: "target_type \<Rightarrow> (target_type \<times> bytes) option" where
  "demotion (TBinary (Some n)) =
     Some (TBinary None, ''written as longblob so the row fits MySQL'' @ [CHR 0x27] @ ''s 65,535 bytes'')"
| "demotion (TVarchar n) =
     Some (mysql_text_size_for n, ''written as a text type so the row fits MySQL'' @ [CHR 0x27] @ ''s 65,535 bytes'')"
| "demotion (TChar n) =
     Some (mysql_text_size_for n, ''written as a text type so the row fits MySQL'' @ [CHR 0x27] @ ''s 65,535 bytes'')"
| "demotion _ = None"

fun demotions :: "nat \<Rightarrow> planned_column list \<Rightarrow> (nat \<times> nat \<times> target_type \<times> bytes) list" where
  "demotions index [] = []"
| "demotions index (c # columns) =
     (case demotion (rs_ty (pc_resolved c)) of
        Some (demoted, note) \<Rightarrow>
          (mysql_row_bytes (rs_ty (pc_resolved c)), index, demoted, note) # demotions (Suc index) columns
      | None \<Rightarrow> demotions (Suc index) columns)"

definition widest :: "planned_column list \<Rightarrow> (nat \<times> nat \<times> target_type \<times> bytes) option" where
  "widest columns = max_by_key fst (demotions 0 columns)"

definition demote_column :: "resolved \<Rightarrow> bytes \<Rightarrow> planned_column \<Rightarrow> planned_column" where
  "demote_column r note c =
     c\<lparr>pc_resolved := r,
       pc_outcome := (if pc_outcome c = OutExact then OutWidened else pc_outcome c),
       pc_note := Some (case pc_note c of Some old \<Rightarrow> old @ ''; '' @ note | None \<Rightarrow> note)\<rparr>"

text \<open>The loop ends because each turn takes a column out of the types that can be demoted.\<close>

definition demotable :: "planned_column \<Rightarrow> bool" where
  "demotable c \<longleftrightarrow> demotion (rs_ty (pc_resolved c)) \<noteq> None"

lemma demotions_found:
  "(n, i, d, note) \<in> set (demotions k columns) \<Longrightarrow>
     k \<le> i \<and> i - k < length columns \<and> demotion (rs_ty (pc_resolved (columns ! (i - k)))) = Some (d, note)"
proof (induction columns arbitrary: k)
  case (Cons c columns)
  then consider (now) "i = k" "demotion (rs_ty (pc_resolved c)) = Some (d, note)"
    | (later) "(n, i, d, note) \<in> set (demotions (Suc k) columns)"
    by (auto split: option.splits)
  then show ?case
  proof cases
    case now
    then show ?thesis by simp
  next
    case later
    from Cons.IH [OF this] show ?thesis by (auto simp: nth_Cons' Suc_diff_le dest: Suc_leD)
  qed
qed simp

lemma widest_found:
  assumes "widest columns = Some (n, i, d, note)"
  shows "i < length columns" "demotion (rs_ty (pc_resolved (columns ! i))) = Some (d, note)" "demotion d = None"
proof -
  from assms have "(n, i, d, note) \<in> set (demotions 0 columns)"
    unfolding widest_def by (blast dest: max_by_key_Some)
  from demotions_found [OF this] show "i < length columns"
    and dem: "demotion (rs_ty (pc_resolved (columns ! i))) = Some (d, note)" by simp_all
  from dem show "demotion d = None"
    by (cases "rs_ty (pc_resolved (columns ! i))" rule: demotion.cases) (auto simp: mysql_text_size_for_def)
qed

lemma count_update_less:
  "i < length xs \<Longrightarrow> P (xs ! i) \<Longrightarrow> \<not> P y \<Longrightarrow> length (filter P (xs[i := y])) < length (filter P xs)"
  by (induction xs arbitrary: i) (auto simp: nth_Cons' split: nat.splits)

function fit_mysql_row :: "planned_column list \<Rightarrow> table_refusal + planned_column list" where
  "fit_mysql_row columns =
     (if row_bytes columns \<le> MYSQL_ROW_LIMIT then Inr columns
      else (case widest columns of
        None \<Rightarrow>
          Inl \<lparr>tr_column = None,
               tr_reason = ''the row is wider than MySQL'' @ [CHR 0x27] @
                 ''s 65,535 bytes even with every long column written as a text type''\<rparr>
      | Some (n, index, demoted, note) \<Rightarrow>
          (case render demoted ToMysql of
             None \<Rightarrow> Inl \<lparr>tr_column = Some index, tr_reason = ''a column type MySQL cannot declare''\<rparr>
           | Some ddl \<Rightarrow>
               fit_mysql_row
                 (columns[index := demote_column \<lparr>rs_ty = demoted, rs_ddl = ddl\<rparr> note (columns ! index)]))))"
  by pat_completeness auto
termination
proof (relation "measure (\<lambda>columns. length (filter demotable columns))")
  fix columns :: "planned_column list" and x n y i z d nt ddl
  assume "widest columns = Some x" "(n, y) = x" "(i, z) = y" "(d, nt) = z"
  then have "widest columns = Some (n, i, d, nt)" by simp
  note found = widest_found [OF this]
  show "(columns[i := demote_column \<lparr>rs_ty = d, rs_ddl = ddl\<rparr> nt (columns ! i)], columns)
      \<in> measure (\<lambda>columns. length (filter demotable columns))"
    using found by (simp add: count_update_less demotable_def demote_column_def)
qed simp

declare fit_mysql_row.simps [simp del]

definition plan_table ::
  "text_fns \<Rightarrow> driver_kind \<Rightarrow> transfer_target \<Rightarrow> (bytes \<times> sql_type) list \<Rightarrow> table_refusal + table_plan" where
  "plan_table tf src t columns =
     (let names = map fst columns in
      case check_columns (tf_lower tf) t names of
        Inl fault \<Rightarrow>
          Inl \<lparr>tr_column = Some (nf_index fault),
               tr_reason = ''column '' @ tf_debug tf (names ! nf_index fault) @ '' '' @ name_error_text (nf_error fault)\<rparr>
      | Inr _ \<Rightarrow>
          (case plan_columns tf src t 0 columns of
             Inl r \<Rightarrow> Inl r
           | Inr planned \<Rightarrow>
               (case (if t = ToMysql then fit_mysql_row planned else Inr planned) of
                  Inl r \<Rightarrow> Inl r
                | Inr planned \<Rightarrow> Inr \<lparr>tp_target = t, tp_columns = planned\<rparr>)))"

section \<open>What a plan is written as\<close>

definition plan_changes :: "map_outcome \<Rightarrow> table_plan \<Rightarrow> table_change list" where
  "plan_changes wanted p =
     map (\<lambda>c. \<lparr>tc_column = pc_name c, tc_from = describe_type (pc_ty c), tc_to = rs_ddl (pc_resolved c),
               tc_note = (case pc_note c of Some n \<Rightarrow> n | None \<Rightarrow> [])\<rparr>)
       (filter (\<lambda>c. pc_outcome c = wanted) (tp_columns p))"

definition plan_fallbacks :: "table_plan \<Rightarrow> table_change list" where
  "plan_fallbacks p = plan_changes OutFallback p"

definition plan_widenings :: "table_plan \<Rightarrow> table_change list" where
  "plan_widenings p = plan_changes OutWidened p"

definition column_definition :: "transfer_target \<Rightarrow> planned_column \<Rightarrow> bytes" where
  "column_definition t c = names_ident t (pc_name c) @ '' '' @ rs_ddl (pc_resolved c)"

definition create_table_sql :: "table_plan \<Rightarrow> bytes \<Rightarrow> bytes" where
  "create_table_sql p table =
     ''CREATE TABLE '' @ table @ '' ('' @ join '', '' (map (column_definition (tp_target p)) (tp_columns p)) @ '')'' @
     (case tp_target p of ToPostgres \<Rightarrow> [] | ToMysql \<Rightarrow> '' DEFAULT CHARSET=utf8mb4'')"

end
