(* ===== verification/TransferEncode.thy ===== *)
theory TransferEncode
  imports TransferTypes JsonText TrinoAgree
begin

text \<open>
  Values between dialects (\<^verbatim>\<open>crates/qh-ffi/src/transfer/encode.rs\<close>): one value of a planned column as a field
  of PostgreSQL's \<open>COPY\<close> text (\<open>pg_text\<close>, \<open>copy_row\<close>) or as a bound parameter of MySQL (\<open>mysql_cell\<close>), or
  the rule it breaks.

  A buffer the source appends to is the text that is appended, and \<open>copy_row\<close>, which truncates its buffer when
  it refuses, takes the buffer. \<open>encode_fns\<close> is what the code calls and does not define:
  \<open>serde_json::from_str\<close>, the parse of a float, and the narrowing of a double to a float and back.
\<close>

section \<open>Rules\<close>

datatype rule =
    RWrongKind bytes
  | RNul
  | ROutOfRange bytes
  | RScale nat nat
  | RWholeDigits nat
  | RTooLong nat bytes
  | RNonFinite
  | RFraction nat
  | RDuplicateKey
  | RJsonNumber
  | RNotJson
  | RArrayBounds
  | RNotAnArray
  | RNotCanonical bytes
  | RTooDeep
  | RArity

fun rule_kind :: "rule \<Rightarrow> bytes" where
  "rule_kind (RWrongKind e) = ''wrong_kind''"
| "rule_kind RNul = ''nul''"
| "rule_kind (ROutOfRange w) = ''out_of_range''"
| "rule_kind (RScale v t) = ''scale''"
| "rule_kind (RWholeDigits n) = ''whole_digits''"
| "rule_kind (RTooLong n u) = ''too_long''"
| "rule_kind RNonFinite = ''non_finite''"
| "rule_kind (RFraction n) = ''fraction''"
| "rule_kind RDuplicateKey = ''duplicate_key''"
| "rule_kind RJsonNumber = ''json_number''"
| "rule_kind RNotJson = ''not_json''"
| "rule_kind RArrayBounds = ''array_bounds''"
| "rule_kind RNotAnArray = ''not_an_array''"
| "rule_kind (RNotCanonical w) = ''not_canonical''"
| "rule_kind RTooDeep = ''too_deep''"
| "rule_kind RArity = ''arity''"

fun rule_text :: "rule \<Rightarrow> bytes" where
  "rule_text (RWrongKind expected) =
     ''the value is not '' @ expected @ ''; the driver could not read it as the column'' @ [CHR 0x27] @ ''s type''"
| "rule_text RNul = ''PostgreSQL cannot store U+0000 in text''"
| "rule_text (ROutOfRange what) = what"
| "rule_text (RScale v t) =
     ''scale '' @ nat_bytes v @ '' exceeds the target'' @ [CHR 0x27] @ ''s '' @ nat_bytes t"
| "rule_text (RWholeDigits n) = ''more than '' @ nat_bytes n @ '' digits before the decimal point''"
| "rule_text (RTooLong n unit_name) =
     ''longer than the column'' @ [CHR 0x27] @ ''s '' @ nat_bytes n @ '' '' @ unit_name"
| "rule_text RNonFinite = ''NaN and infinity have no counterpart in the target''"
| "rule_text (RFraction n) =
     ''has more than the column'' @ [CHR 0x27] @ ''s '' @ nat_bytes n @ '' fractional-second digits''"
| "rule_text RDuplicateKey = ''a JSON object repeats a key''"
| "rule_text RJsonNumber = ''a JSON number MySQL would round: it keeps only 64-bit integers and doubles''"
| "rule_text RNotJson = ''the text is not valid JSON''"
| "rule_text RArrayBounds = ''an array whose lower bound is not 1 cannot be written as is''"
| "rule_text RNotAnArray = ''the text is not a PostgreSQL array literal''"
| "rule_text (RNotCanonical what) = ''not a canonical '' @ what"
| "rule_text RTooDeep = ''nested too deeply to convert''"
| "rule_text RArity = ''the row has a different number of values than the table''"

record violation =
  vi_column :: nat
  vi_rule :: rule

definition describe_violation :: "text_fns \<Rightarrow> violation \<Rightarrow> planned_column list \<Rightarrow> nat \<Rightarrow> bytes" where
  "describe_violation tf v columns source_row =
     ''column '' @ (case get columns (vi_column v) of None \<Rightarrow> [] | Some c \<Rightarrow> tf_debug tf (pc_name c)) @
     '', source row '' @ nat_bytes source_row @ '': '' @ rule_text (vi_rule v)"

text \<open>The \<open>?\<close> of the source.\<close>

definition andalso :: "(rule + unit) \<Rightarrow> (rule + 'a) \<Rightarrow> rule + 'a" where
  "andalso check k = (case check of Inl r \<Rightarrow> Inl r | Inr _ \<Rightarrow> k)"

lemma andalso_Inr [simp]: "andalso check k = Inr x \<longleftrightarrow> check = Inr () \<and> k = Inr x"
  by (cases check) (simp_all add: andalso_def)

record encode_fns =
  ef_json :: "bytes \<Rightarrow> json option"
  ef_parse_f64 :: "bytes \<Rightarrow> f64 option"
  ef_narrow :: "f64 \<Rightarrow> f64"

section \<open>Shared rules\<close>

definition no_nul :: "bytes \<Rightarrow> rule + unit" where
  "no_nul s = (if contains_byte (CHR 0x00) s then Inl RNul else Inr ())"

definition integer_range :: "sql_type \<Rightarrow> int \<times> int" where
  "integer_range sql =
     (let bits = 8 * (case base_int_bytes (st_base sql) of Some n \<Rightarrow> n | None \<Rightarrow> 8) in
      if st_unsigned sql then (0, 2 ^ bits - 1) else (- (2 ^ (bits - 1)), 2 ^ (bits - 1) - 1))"

definition integer :: "sql_type \<Rightarrow> sql_value \<Rightarrow> rule + int" where
  "integer sql v =
     (case (case v of VInt n \<Rightarrow> Some n | VUInt n \<Rightarrow> Some n | _ \<Rightarrow> None) of
        None \<Rightarrow> Inl (RWrongKind ''an integer'')
      | Some number \<Rightarrow>
          (case integer_range sql of (low, high) \<Rightarrow>
             if number < low \<or> number > high
             then Inl (ROutOfRange (''an integer outside its column'' @ [CHR 0x27] @ ''s range''))
             else Inr number))"

text \<open>The loop of \<open>decimal_text\<close>, which drops trailing zeros beyond the target's scale.\<close>

fun drop_zeros :: "nat \<Rightarrow> int \<Rightarrow> nat \<Rightarrow> int \<times> nat" where
  "drop_zeros target_scale unscaled scale =
     (if scale > target_scale \<and> unscaled mod 10 = 0
      then drop_zeros target_scale (unscaled div 10) (scale - 1) else (unscaled, scale))"

declare drop_zeros.simps [simp del]

definition encode_decimal :: "int \<Rightarrow> nat \<Rightarrow> nat option \<Rightarrow> nat \<Rightarrow> rule + bytes" where
  "encode_decimal unscaled scale precision target_scale =
     (case precision of
        None \<Rightarrow> Inr (decimal_text unscaled scale)
      | Some p \<Rightarrow>
          (case drop_zeros target_scale unscaled scale of (unscaled, scale) \<Rightarrow>
             if scale > target_scale then Inl (RScale scale target_scale)
             else (let digits = length (nat_bytes (nat \<bar>unscaled\<bar>)) in
                   if unscaled \<noteq> 0 \<and> digits - scale > p - target_scale then Inl (RWholeDigits (p - target_scale))
                   else Inr (decimal_text unscaled scale))))"

definition micros_fit :: "int \<Rightarrow> nat \<Rightarrow> rule + unit" where
  "micros_fit micros digits =
     (if digits \<ge> 6 then Inr ()
      else if micros mod 10 ^ (6 - digits) \<noteq> 0 then Inl (RFraction digits) else Inr ())"

definition encode_date :: "int \<Rightarrow> int \<Rightarrow> int \<Rightarrow> rule + bytes" where
  "encode_date days low high =
     (case civil_from_days days of (year, month, day) \<Rightarrow>
        if year < low \<or> year > high then
          Inl (ROutOfRange (if low \<ge> 1000 then ''a date outside 1000-01-01 to 9999-12-31'' else ''a date before year 1''))
        else Inr (int_pad 4 year @ ''-'' @ int_pad 2 month @ ''-'' @ int_pad 2 day))"

definition encode_clock :: "int \<Rightarrow> bytes" where
  "encode_clock micros =
     (let micros = nat \<bar>micros\<bar>; seconds = micros div 1000000; fraction = micros mod 1000000 in
      nat_pad 2 (seconds div 3600) @ '':'' @ nat_pad 2 (seconds div 60 mod 60) @ '':'' @ nat_pad 2 (seconds mod 60) @
      (if fraction \<noteq> 0 then ''.'' @ nat_pad 6 fraction else []))"

definition signed_clock :: "int \<Rightarrow> bytes" where
  "signed_clock micros = (if micros < 0 then ''-'' @ encode_clock micros else encode_clock micros)"

definition encode_timestamp :: "int \<Rightarrow> nat \<Rightarrow> int \<Rightarrow> int \<Rightarrow> rule + bytes" where
  "encode_timestamp micros digits low high =
     andalso (micros_fit micros digits)
       (let days = micros div 86400000000; within = micros mod 86400000000 in
        case try_i32 days of
          None \<Rightarrow> Inl (ROutOfRange ''a timestamp beyond the supported years'')
        | Some days \<Rightarrow>
            (case encode_date days low high of
               Inl r \<Rightarrow> Inl r
             | Inr date \<Rightarrow> Inr (date @ '' '' @ encode_clock within)))"

definition encode_interval :: "interval_value \<Rightarrow> bytes" where
  "encode_interval i =
     (let magnitude = nat \<bar>iv_micros i\<bar>; whole = magnitude div 1000000; fraction = magnitude mod 1000000;
          sign = (if iv_micros i < 0 then ''-'' else []);
          seconds = (if fraction = 0 then sign @ nat_bytes whole else sign @ nat_bytes whole @ ''.'' @ nat_pad 6 fraction)
      in ''P'' @ int_bytes (iv_months i) @ ''M'' @ int_bytes (iv_days i) @ ''DT'' @ seconds @ ''S'')"

section \<open>The closed spellings\<close>

definition digits_between :: "bytes \<Rightarrow> nat \<Rightarrow> nat \<Rightarrow> bool" where
  "digits_between s low high \<longleftrightarrow> low \<le> length s \<and> length s \<le> high \<and> list_all is_ascii_digit s"

definition is_numeric_special :: "bytes \<Rightarrow> bool" where
  "is_numeric_special s \<longleftrightarrow> s = ''NaN'' \<or> s = ''Infinity'' \<or> s = ''-Infinity''"

definition is_pg_infinity :: "bytes \<Rightarrow> bool" where
  "is_pg_infinity s \<longleftrightarrow> s = ''infinity'' \<or> s = ''-infinity''"

definition clock_prefix :: "bytes \<Rightarrow> nat option" where
  "clock_prefix s =
     (if length s < 8 then None
      else if \<not> (list_all (\<lambda>i. is_ascii_digit (s ! i)) [0, 1, 3, 4, 6, 7] \<and> s ! 2 = CHR '':'' \<and> s ! 5 = CHR '':'')
      then None
      else if get s 8 = Some (CHR ''.'') then
        (let fraction = length (takeWhile is_ascii_digit (drop 9 s)) in
         if 1 \<le> fraction \<and> fraction \<le> 6 then Some (9 + fraction) else None)
      else Some 8)"

definition is_offset :: "bytes \<Rightarrow> bool" where
  "is_offset s =
     (case s of
        [] \<Rightarrow> False
      | c # rest \<Rightarrow>
          (c = CHR ''+'' \<or> c = CHR ''-'') \<and>
          (case split_on (CHR '':'') rest of
             [] \<Rightarrow> False
           | hours # parts \<Rightarrow>
               digits_between hours 2 2 \<and> length parts \<le> 2 \<and> list_all (\<lambda>p. digits_between p 2 2) parts))"

definition is_iso_date :: "bytes \<Rightarrow> bool" where
  "is_iso_date s =
     (case split_three (CHR ''-'') s of
        None \<Rightarrow> False
      | Some (year, month, day) \<Rightarrow>
          length year \<ge> 4 \<and> list_all is_ascii_digit year \<and> digits_between month 2 2 \<and> digits_between day 2 2)"

definition is_iso_date_bc :: "bytes \<Rightarrow> bool" where
  "is_iso_date_bc s = (case strip_suffix '' BC'' s of None \<Rightarrow> False | Some date \<Rightarrow> is_iso_date date)"

definition is_iso_timestamp_bc :: "bytes \<Rightarrow> bool \<Rightarrow> bool" where
  "is_iso_timestamp_bc s zoned =
     (case strip_suffix '' BC'' s of
        None \<Rightarrow> False
      | Some body \<Rightarrow>
          (case split_once (CHR '' '') body of
             None \<Rightarrow> False
           | Some (date, rest) \<Rightarrow>
               is_iso_date date \<and>
               (case clock_prefix rest of
                  None \<Rightarrow> False
                | Some n \<Rightarrow> if zoned then is_offset (drop n rest) else drop n rest = [])))"

definition is_timetz :: "bytes \<Rightarrow> bool" where
  "is_timetz s = (case clock_prefix s of None \<Rightarrow> False | Some n \<Rightarrow> is_offset (drop n s))"

definition is_ascii_hexdigit :: "byte \<Rightarrow> bool" where
  "is_ascii_hexdigit c \<longleftrightarrow> hex_value c \<noteq> None"

definition is_uuid :: "bytes \<Rightarrow> bool" where
  "is_uuid s =
     (let groups = split_on (CHR ''-'') s in
      length groups = 5 \<and>
      list_all2 (\<lambda>n group. length group = n \<and> list_all is_ascii_hexdigit group) [8, 4, 4, 4, 12] groups)"

section \<open>JSON\<close>

definition JSON_MAX_DEPTH :: nat where "JSON_MAX_DEPTH = 64"

definition json_valid :: "encode_fns \<Rightarrow> bytes \<Rightarrow> rule + json" where
  "json_valid ef s = (case ef_json ef s of None \<Rightarrow> Inl RNotJson | Some j \<Rightarrow> Inr j)"

fun json_has_nul :: "json \<Rightarrow> bool" where
  "json_has_nul (JText s) = contains_byte (CHR 0x00) s"
| "json_has_nul (JArray items) = list_ex json_has_nul items"
| "json_has_nul (JObject entries) = list_ex (\<lambda>(key, v). contains_byte (CHR 0x00) key \<or> json_has_nul v) entries"
| "json_has_nul _ = False"

text \<open>
  The scan for repeated keys reads a text \<open>from_str\<close> has accepted, so each \<open>\u\<close> is followed by four
  hexadecimal digits. A position is the text from there on.
\<close>

definition utf8_char :: "nat \<Rightarrow> bytes" where
  "utf8_char code =
     (if 55296 \<le> code \<and> code < 57344 \<or> 1114112 \<le> code then map char_of [239, 191, 189 :: nat]
      else if code < 128 then [char_of code]
      else if code < 2048 then map char_of [192 + code div 64, 128 + code mod 64]
      else if code < 65536 then map char_of [224 + code div 4096, 128 + code div 64 mod 64, 128 + code mod 64]
      else map char_of [240 + code div 262144, 128 + code div 4096 mod 64, 128 + code div 64 mod 64, 128 + code mod 64])"

definition hex_digit_at :: "bytes \<Rightarrow> nat \<Rightarrow> nat" where
  "hex_digit_at s i =
     (case get s i of None \<Rightarrow> 0 | Some c \<Rightarrow> (case hex_value c of None \<Rightarrow> 0 | Some d \<Rightarrow> d))"

definition read_hex4 :: "bytes \<Rightarrow> nat \<times> bytes" where
  "read_hex4 s = (foldl (\<lambda>code i. code * 16 + hex_digit_at s i) 0 [0, 1, 2, 3], drop 4 s)"

definition unicode_escape :: "bytes \<Rightarrow> bytes \<times> bytes" where
  "unicode_escape s =
     (case read_hex4 s of (code, rest) \<Rightarrow>
        if 55296 \<le> code \<and> code < 56320 \<and> prefix [CHR 0x5C, CHR ''u''] rest then
          (case read_hex4 (drop 2 rest) of (low, after) \<Rightarrow>
             if 56320 \<le> low \<and> low < 57344
             then (utf8_char (65536 + (code - 55296) * 1024 + (low - 56320)), after)
             else (utf8_char code, rest))
        else (utf8_char code, rest))"

definition simple_escape :: "byte \<Rightarrow> byte" where
  "simple_escape e =
     (if e = CHR ''n'' then CHR 0x0A else if e = CHR ''t'' then CHR 0x09 else if e = CHR ''r'' then CHR 0x0D
      else if e = CHR ''b'' then CHR 0x08 else if e = CHR ''f'' then CHR 0x0C else e)"

lemma unicode_escape_shorter: "length (snd (unicode_escape s)) \<le> length s"
  by (auto simp: unicode_escape_def read_hex4_def split: prod.splits)

text \<open>\<open>scan_string\<close> is given the text after the opening quote.\<close>

function scan_string :: "bytes \<Rightarrow> bytes \<times> bytes" where
  "scan_string s =
     (case s of
        [] \<Rightarrow> ([], [])
      | c # rest \<Rightarrow>
          if c = CHR 0x22 then ([], rest)
          else if c = CHR 0x5C then
            (case rest of
               [] \<Rightarrow> ([], [])
             | e # after \<Rightarrow>
                 if e = CHR ''u'' then
                   (case scan_string (snd (unicode_escape after)) of (decoded, end_rest) \<Rightarrow>
                      (fst (unicode_escape after) @ decoded, end_rest))
                 else (case scan_string after of (decoded, end_rest) \<Rightarrow> (simple_escape e # decoded, end_rest)))
          else (case scan_string rest of (decoded, end_rest) \<Rightarrow> (c # decoded, end_rest)))"
  by pat_completeness auto
termination
  by (relation "measure length") (auto intro: le_less_trans [OF unicode_escape_shorter])

declare scan_string.simps [simp del]

definition is_json_space :: "byte \<Rightarrow> bool" where
  "is_json_space c \<longleftrightarrow> c \<in> set [CHR '' '', CHR 0x09, CHR 0x0A, CHR 0x0D]"

definition skip_space :: "bytes \<Rightarrow> bytes" where
  "skip_space s = dropWhile is_json_space s"

definition ends_scalar :: "byte \<Rightarrow> bool" where
  "ends_scalar c \<longleftrightarrow> is_json_space c \<or> c \<in> set [CHR '','', CHR '']'', CHR ''}'']"

text \<open>
  \<open>scan_value\<close> with the loops of its two containers, each giving whether a key was repeated and what is left.
  The fuel counts the calls and turns: every one of them reads a byte except a value that stands where a
  brace closes, which is no JSON. \<open>None\<close> is fuel that ran out.
\<close>

fun scan_value :: "nat \<Rightarrow> nat \<Rightarrow> bytes \<Rightarrow> (bool \<times> bytes) option"
  and scan_object :: "nat \<Rightarrow> nat \<Rightarrow> bytes list \<Rightarrow> bytes \<Rightarrow> (bool \<times> bytes) option"
  and scan_array :: "nat \<Rightarrow> nat \<Rightarrow> bytes \<Rightarrow> (bool \<times> bytes) option" where
  "scan_value 0 depth s = None"
| "scan_value (Suc fuel) depth s =
     (if depth > 256 then Some (True, s)
      else (case skip_space s of
         [] \<Rightarrow> Some (False, [])
       | c # rest \<Rightarrow>
           if c = CHR ''{'' then scan_object fuel depth [] rest
           else if c = CHR ''['' then scan_array fuel depth rest
           else if c = CHR 0x22 then Some (False, snd (scan_string rest))
           else Some (False, dropWhile (\<lambda>c. \<not> ends_scalar c) (c # rest))))"
| "scan_object 0 depth keys s = None"
| "scan_object (Suc fuel) depth keys s =
     (case skip_space s of
        [] \<Rightarrow> Some (False, [])
      | c # rest \<Rightarrow>
          if c = CHR ''}'' then Some (False, rest)
          else if c = CHR '','' then scan_object fuel depth keys rest
          else if c = CHR 0x22 then
            (case scan_string rest of (key, after) \<Rightarrow>
               if List.member keys key then Some (True, after)
               else (let after = skip_space after;
                         after = (case after of d # r \<Rightarrow> if d = CHR '':'' then r else after | [] \<Rightarrow> after) in
                     case scan_value fuel (Suc depth) after of
                       None \<Rightarrow> None
                     | Some (True, s) \<Rightarrow> Some (True, s)
                     | Some (False, s) \<Rightarrow> scan_object fuel depth (key # keys) s))
          else Some (False, c # rest))"
| "scan_array 0 depth s = None"
| "scan_array (Suc fuel) depth s =
     (case skip_space s of
        [] \<Rightarrow> Some (False, [])
      | c # rest \<Rightarrow>
          if c = CHR '']'' then Some (False, rest)
          else if c = CHR '','' then scan_array fuel depth rest
          else (case scan_value fuel (Suc depth) (c # rest) of
                  None \<Rightarrow> None
                | Some (True, s) \<Rightarrow> Some (True, s)
                | Some (False, s) \<Rightarrow> scan_array fuel depth s))"

definition has_duplicate_keys :: "bytes \<Rightarrow> bool" where
  "has_duplicate_keys s =
     (case scan_value (2 * length s + 2) 0 s of Some (found, rest) \<Rightarrow> found | None \<Rightarrow> False)"

definition json_for_jsonb :: "encode_fns \<Rightarrow> bytes \<Rightarrow> rule + unit" where
  "json_for_jsonb ef s =
     andalso (no_nul s)
       (case json_valid ef s of
          Inl r \<Rightarrow> Inl r
        | Inr parsed \<Rightarrow>
            if json_has_nul parsed then Inl RNul
            else if has_duplicate_keys s then Inl RDuplicateKey else Inr ())"

text \<open>A decimal number as its sign, its digits and a power of ten, with no zero digit at either end.\<close>

definition fits_i64 :: "int \<Rightarrow> bool" where
  "fits_i64 n \<longleftrightarrow> i64_min \<le> n \<and> n \<le> i64_max"

definition decimal_value :: "bytes \<Rightarrow> (bool \<times> bytes \<times> int) option" where
  "decimal_value token =
     (let (negative, rest) = (case strip_prefix ''-'' token of Some rest \<Rightarrow> (True, rest) | None \<Rightarrow> (False, token)) in
      case (case split_once_in [CHR ''e'', CHR ''E''] rest of
              Some (mantissa, exponent) \<Rightarrow> map_option (\<lambda>e. (mantissa, e)) (parse_i64 exponent)
            | None \<Rightarrow> Some (rest, 0)) of
        None \<Rightarrow> None
      | Some (mantissa, exponent) \<Rightarrow>
          (let (whole, fraction) = (case split_once (CHR ''.'') mantissa of Some p \<Rightarrow> p | None \<Rightarrow> (mantissa, []));
               power = exponent - int (length fraction); digits = whole @ fraction in
           if \<not> fits_i64 power \<or> \<not> list_all is_ascii_digit digits then None
           else (let digits = dropWhile (\<lambda>c. c = CHR ''0'') digits;
                     trimmed = rev (dropWhile (\<lambda>c. c = CHR ''0'') (rev digits)) in
                 if trimmed = [] then Some (False, [], 0)
                 else (let power = power + int (length digits - length trimmed) in
                       if fits_i64 power then Some (negative, trimmed, power) else None))))"

text \<open>\<open>Display\<close> and \<open>LowerExp\<close> of a float.\<close>

fun float_display :: "f64 \<Rightarrow> bytes" where
  "float_display FNan = ''NaN''"
| "float_display (FInf negative) = (if negative then ''-inf'' else ''inf'')"
| "float_display (FZero negative) = (if negative then ''-0'' else ''0'')"
| "float_display (FFinite f) = ff_display f"

fun float_exp :: "f64 \<Rightarrow> bytes" where
  "float_exp FNan = ''NaN''"
| "float_exp (FInf negative) = (if negative then ''-inf'' else ''inf'')"
| "float_exp (FZero negative) = (if negative then ''-0e0'' else ''0e0'')"
| "float_exp (FFinite f) = ff_exp f"

fun float_is_finite :: "f64 \<Rightarrow> bool" where
  "float_is_finite FNan = False"
| "float_is_finite (FInf negative) = False"
| "float_is_finite _ = True"

definition mysql_keeps_number :: "encode_fns \<Rightarrow> bytes \<Rightarrow> bool" where
  "mysql_keeps_number ef token =
     (if \<not> list_ex (\<lambda>c. c = CHR ''.'' \<or> c = CHR ''e'' \<or> c = CHR ''E'') token
      then parse_i64 token \<noteq> None \<or> parse_u64 token \<noteq> None
      else (case ef_parse_f64 ef token of
          None \<Rightarrow> False
        | Some nearest \<Rightarrow>
            float_is_finite nearest \<and>
            (case (decimal_value token, decimal_value (float_exp nearest)) of
               (Some written, Some kept) \<Rightarrow> written = kept
             | _ \<Rightarrow> False)))"

fun after_json_string :: "bytes \<Rightarrow> bytes" where
  "after_json_string [] = []"
| "after_json_string (c # rest) =
     (if c = CHR 0x5C then (case rest of [] \<Rightarrow> [] | d # after \<Rightarrow> after_json_string after)
      else if c = CHR 0x22 then rest
      else after_json_string rest)"

definition is_number_byte :: "byte \<Rightarrow> bool" where
  "is_number_byte c \<longleftrightarrow> is_ascii_digit c \<or> c \<in> set [CHR ''-'', CHR ''+'', CHR ''.'', CHR ''e'', CHR ''E'']"

lemma after_json_string_shorter: "length (after_json_string s) \<le> length s"
proof (induction s rule: after_json_string.induct)
  case (2 c rest)
  then show ?case by (cases rest) (fastforce intro: le_SucI)+
qed simp

function json_numbers_fit_mysql :: "encode_fns \<Rightarrow> bytes \<Rightarrow> rule + unit" where
  "json_numbers_fit_mysql ef s =
     (case s of
        [] \<Rightarrow> Inr ()
      | c # rest \<Rightarrow>
          if c = CHR 0x22 then json_numbers_fit_mysql ef (after_json_string rest)
          else if c = CHR ''-'' \<or> is_ascii_digit c then
            (if mysql_keeps_number ef (takeWhile is_number_byte s)
             then json_numbers_fit_mysql ef (dropWhile is_number_byte s) else Inl RJsonNumber)
          else json_numbers_fit_mysql ef rest)"
  by pat_completeness auto
termination
  by (relation "measure (length \<circ> snd)")
     (auto simp: is_number_byte_def le_imp_less_Suc after_json_string_shorter length_dropWhile_le)

declare json_numbers_fit_mysql.simps [simp del]

definition json_for_mysql :: "encode_fns \<Rightarrow> bytes \<Rightarrow> rule + unit" where
  "json_for_mysql ef s =
     (case json_valid ef s of
        Inl r \<Rightarrow> Inl r
      | Inr parsed \<Rightarrow> if has_duplicate_keys s then Inl RDuplicateKey else json_numbers_fit_mysql ef s)"

text \<open>Writing a composite. A control byte other than the three with a short escape is written \<open>\u00xx\<close>.\<close>

definition encode_json_escape :: "byte \<Rightarrow> bytes" where
  "encode_json_escape c =
     (if c = CHR 0x22 then [CHR 0x5C, CHR 0x22]
      else if c = CHR 0x5C then [CHR 0x5C, CHR 0x5C]
      else if c = CHR 0x0A then [CHR 0x5C, CHR ''n'']
      else if c = CHR 0x0D then [CHR 0x5C, CHR ''r'']
      else if c = CHR 0x09 then [CHR 0x5C, CHR ''t'']
      else if byte_val c < 32 then CHR 0x5C # ''u00'' @ hex_byte c
      else [c])"

definition encode_json_string :: "bytes \<Rightarrow> bytes" where
  "encode_json_string s = CHR 0x22 # concat (map encode_json_escape s) @ [CHR 0x22]"

definition json_key :: "sql_value \<Rightarrow> rule + bytes" where
  "json_key key =
     (case key of
        VText s \<Rightarrow> Inr s
      | VInt n \<Rightarrow> Inr (int_bytes n)
      | VUInt n \<Rightarrow> Inr (int_bytes n)
      | VBool flag \<Rightarrow> Inr (if flag then ''true'' else ''false'')
      | VDecimal u s \<Rightarrow> Inr (decimal_text u s)
      | VDate days \<Rightarrow> encode_date days 1 99999999
      | _ \<Rightarrow> Inl (RWrongKind ''a map key with a text form''))"

definition write_json_scalar :: "encode_fns \<Rightarrow> sql_value \<Rightarrow> rule + bytes" where
  "write_json_scalar ef v =
     (case v of
        VNull \<Rightarrow> Inr ''null''
      | VBool flag \<Rightarrow> Inr (if flag then ''true'' else ''false'')
      | VInt n \<Rightarrow> Inr (int_bytes n)
      | VUInt n \<Rightarrow> Inr (int_bytes n)
      | VFloat x \<Rightarrow> if float_is_finite x then Inr (float_display x) else Inl RNonFinite
      | VDecimal u s \<Rightarrow> Inr (decimal_text u s)
      | VText s \<Rightarrow> Inr (encode_json_string s)
      | VDate days \<Rightarrow> map_sum id encode_json_string (encode_date days 1 99999999)
      | VTime micros \<Rightarrow> Inr (encode_json_string (encode_clock micros))
      | VTimestamp micros offset_secs \<Rightarrow>
          map_sum id (\<lambda>s. encode_json_string (if offset_secs \<noteq> None then s @ ''+00:00'' else s))
            (encode_timestamp micros 6 1 99999999)
      | VJson s \<Rightarrow> (case json_valid ef s of Inl r \<Rightarrow> Inl r | Inr j \<Rightarrow> Inr s)
      | VUnknown n s r \<Rightarrow> Inl (RWrongKind ''a value the driver could read'')
      | _ \<Rightarrow> Inl (RWrongKind ''a value with a JSON form''))"

function json_write :: "encode_fns \<Rightarrow> nat \<Rightarrow> sql_value \<Rightarrow> rule + bytes"
  and json_write_items :: "encode_fns \<Rightarrow> nat \<Rightarrow> bool \<Rightarrow> sql_value list \<Rightarrow> rule + bytes"
  and json_write_pairs ::
    "encode_fns \<Rightarrow> nat \<Rightarrow> bytes list \<Rightarrow> (sql_value \<times> sql_value) list \<Rightarrow> rule + bytes" where
  "json_write ef depth v =
     (if depth > JSON_MAX_DEPTH then Inl RTooDeep
      else (case v of
          VArray items \<Rightarrow> map_sum id (\<lambda>s. ''['' @ s @ '']'') (json_write_items ef depth False items)
        | VRow items \<Rightarrow> map_sum id (\<lambda>s. ''['' @ s @ '']'') (json_write_items ef depth False items)
        | VMap pairs \<Rightarrow> map_sum id (\<lambda>s. ''{'' @ s @ ''}'') (json_write_pairs ef depth [] pairs)
        | _ \<Rightarrow> write_json_scalar ef v))"
| "json_write_items ef depth follows [] = Inr []"
| "json_write_items ef depth follows (item # items) =
     (case json_write ef (Suc depth) item of
        Inl r \<Rightarrow> Inl r
      | Inr s \<Rightarrow>
          map_sum id (\<lambda>rest. (if follows then '','' else []) @ s @ rest) (json_write_items ef depth True items))"
| "json_write_pairs ef depth seen [] = Inr []"
| "json_write_pairs ef depth seen ((k, item) # pairs) =
     (case json_key k of
        Inl r \<Rightarrow> Inl r
      | Inr key \<Rightarrow>
          if List.member seen key then Inl RDuplicateKey
          else (case json_write ef (Suc depth) item of
                  Inl r \<Rightarrow> Inl r
                | Inr s \<Rightarrow>
                    map_sum id
                      (\<lambda>rest. (if seen \<noteq> [] then '','' else []) @ encode_json_string key @ '':'' @ s @ rest)
                      (json_write_pairs ef depth (key # seen) pairs)))"
  by pat_completeness auto
termination
  by (relation "measure (\<lambda>x. case x of
        Inl (ef, depth, v) \<Rightarrow> size v
      | Inr (Inl (ef, depth, follows, items)) \<Rightarrow> size_list size items
      | Inr (Inr (ef, depth, seen, pairs)) \<Rightarrow> size_list (size_prod size size) pairs)") simp_all

declare json_write.simps [simp del]

definition json_of_composite :: "encode_fns \<Rightarrow> base \<Rightarrow> sql_value \<Rightarrow> rule + bytes" where
  "json_of_composite ef b v =
     (case (b, v) of
        (BArray, VArray items) \<Rightarrow> json_write ef 0 v
      | (BRow, VRow items) \<Rightarrow> json_write ef 0 v
      | (BMap, VMap pairs) \<Rightarrow> json_write ef 0 v
      | (BArray, _) \<Rightarrow> Inl (RWrongKind ''an array'')
      | (BRow, _) \<Rightarrow> Inl (RWrongKind ''a row'')
      | _ \<Rightarrow> Inl (RWrongKind ''a map''))"

section \<open>PostgreSQL: the text of a value\<close>

definition text_within :: "nat option \<Rightarrow> bytes \<Rightarrow> rule + unit" where
  "text_within limit s =
     (case limit of
        None \<Rightarrow> Inr ()
      | Some n \<Rightarrow> if char_count s > n then Inl (RTooLong n ''characters'') else Inr ())"

definition copy_integer :: "sql_type \<Rightarrow> sql_value \<Rightarrow> rule + bytes" where
  "copy_integer sql v = map_sum id int_bytes (integer sql v)"

fun copy_float :: "sql_value \<Rightarrow> rule + bytes" where
  "copy_float (VFloat FNan) = Inr ''NaN''"
| "copy_float (VFloat (FInf negative)) = Inr (if negative then ''-Infinity'' else ''Infinity'')"
| "copy_float (VFloat x) = Inr (float_display x)"
| "copy_float _ = Inl (RWrongKind ''a floating-point number'')"

definition copy_numeric :: "nat option \<Rightarrow> nat \<Rightarrow> bool \<Rightarrow> sql_value \<Rightarrow> rule + bytes" where
  "copy_numeric precision scale pg_to_pg v =
     (case v of
        VDecimal unscaled s \<Rightarrow> encode_decimal unscaled s precision scale
      | VText s \<Rightarrow>
          if pg_to_pg \<and> is_numeric_special s \<and> (s = ''NaN'' \<or> precision = None) then Inr s
          else Inl (RWrongKind ''an exact decimal'')
      | _ \<Rightarrow> Inl (RWrongKind ''an exact decimal''))"

definition copy_text_value :: "target_type \<Rightarrow> sql_value \<Rightarrow> rule + bytes" where
  "copy_text_value tt v =
     (case v of
        VText s \<Rightarrow>
          andalso (no_nul s)
            (andalso (text_within (case tt of TVarchar n \<Rightarrow> Some n | TChar n \<Rightarrow> Some n | _ \<Rightarrow> None) s) (Inr s))
      | _ \<Rightarrow> Inl (RWrongKind ''text''))"

definition uuid_value :: "sql_value \<Rightarrow> rule + bytes" where
  "uuid_value v =
     (case v of
        VText s \<Rightarrow> if is_uuid s then Inr s else Inl (RNotCanonical ''uuid'')
      | _ \<Rightarrow> Inl (RWrongKind ''a uuid''))"

definition copy_date :: "bool \<Rightarrow> sql_value \<Rightarrow> rule + bytes" where
  "copy_date pg_to_pg v =
     (case v of
        VDate days \<Rightarrow> encode_date days 1 99999999
      | VText s \<Rightarrow>
          if pg_to_pg \<and> is_pg_infinity s then Inr s
          else if pg_to_pg \<and> is_iso_date_bc s then Inr s else Inl (RWrongKind ''a date'')
      | _ \<Rightarrow> Inl (RWrongKind ''a date''))"

definition copy_time :: "sql_type \<Rightarrow> sql_value \<Rightarrow> rule + bytes" where
  "copy_time sql v =
     (case v of
        VTime micros \<Rightarrow>
          if \<not> (0 \<le> micros \<and> micros \<le> 86400000000) then Inl (ROutOfRange ''a time outside 00:00:00 to 24:00:00'')
          else andalso (micros_fit micros (fraction sql)) (Inr (encode_clock micros))
      | _ \<Rightarrow> Inl (RWrongKind ''a time''))"

definition copy_timestamp :: "sql_type \<Rightarrow> bool \<Rightarrow> sql_value \<Rightarrow> rule + bytes" where
  "copy_timestamp sql pg_to_pg v =
     (case v of
        VTimestamp micros None \<Rightarrow> encode_timestamp micros (fraction sql) 1 99999999
      | VText s \<Rightarrow>
          if pg_to_pg \<and> is_pg_infinity s then Inr s
          else if pg_to_pg \<and> is_iso_timestamp_bc s False then Inr s
          else Inl (RWrongKind ''a timestamp without a zone'')
      | _ \<Rightarrow> Inl (RWrongKind ''a timestamp without a zone''))"

definition copy_timestamptz :: "sql_type \<Rightarrow> bool \<Rightarrow> sql_value \<Rightarrow> rule + bytes" where
  "copy_timestamptz sql pg_to_pg v =
     (case v of
        VTimestamp micros (Some offset) \<Rightarrow>
          map_sum id (\<lambda>s. s @ ''+00:00'') (encode_timestamp micros (fraction sql) 1 99999999)
      | VText s \<Rightarrow>
          if pg_to_pg \<and> is_pg_infinity s then Inr s
          else if pg_to_pg \<and> is_iso_timestamp_bc s True then Inr s
          else Inl (RWrongKind ''a timestamp with a zone'')
      | _ \<Rightarrow> Inl (RWrongKind ''a timestamp with a zone''))"

definition NOT_PLANNED :: bytes where
  "NOT_PLANNED = ''a value this column was planned for''"

text \<open>Every base but an array written as an array, which needs the values inside.\<close>

definition pg_flat :: "encode_fns \<Rightarrow> sql_type \<Rightarrow> target_type \<Rightarrow> driver_kind \<Rightarrow> sql_value \<Rightarrow> rule + bytes" where
  "pg_flat ef sql tt src v =
     (let pg_to_pg = (src = KPostgres) in
      case st_base sql of
        BBool \<Rightarrow> (case v of VBool flag \<Rightarrow> Inr (if flag then ''t'' else ''f'') | _ \<Rightarrow> Inl (RWrongKind ''a boolean''))
      | BInt8 \<Rightarrow> copy_integer sql v
      | BInt16 \<Rightarrow> copy_integer sql v
      | BInt24 \<Rightarrow> copy_integer sql v
      | BInt32 \<Rightarrow> copy_integer sql v
      | BInt64 \<Rightarrow> copy_integer sql v
      | BFloat32 \<Rightarrow> copy_float v
      | BFloat64 \<Rightarrow> copy_float v
      | BDecimal \<Rightarrow>
          (case tt of
             TNumeric precision scale \<Rightarrow> copy_numeric precision scale pg_to_pg v
           | _ \<Rightarrow> Inl (RWrongKind NOT_PLANNED))
      | BText \<Rightarrow> copy_text_value tt v
      | BChar \<Rightarrow> copy_text_value tt v
      | BEnum \<Rightarrow> copy_text_value tt v
      | BSet \<Rightarrow> copy_text_value tt v
      | BUuid \<Rightarrow> uuid_value v
      | BBinary \<Rightarrow>
          (case v of
             VBytes raw \<Rightarrow> Inr ([CHR 0x5C, CHR ''x''] @ hex_encode raw)
           | _ \<Rightarrow> Inl (RWrongKind ''binary data''))
      | BDate \<Rightarrow> copy_date pg_to_pg v
      | BTime \<Rightarrow> copy_time sql v
      | BTimeTz \<Rightarrow>
          (case v of
             VText s \<Rightarrow>
               if pg_to_pg \<and> is_timetz s then Inr s else Inl (RWrongKind ''a time with time zone'')
           | _ \<Rightarrow> Inl (RWrongKind ''a time with time zone''))
      | BTimestamp \<Rightarrow> copy_timestamp sql pg_to_pg v
      | BTimestampTz \<Rightarrow> copy_timestamptz sql pg_to_pg v
      | BInterval \<Rightarrow> (case v of VInterval i \<Rightarrow> Inr (encode_interval i) | _ \<Rightarrow> Inl (RWrongKind ''an interval''))
      | BJson \<Rightarrow>
          (case v of
             VJson s \<Rightarrow> andalso (no_nul s) (case json_valid ef s of Inl r \<Rightarrow> Inl r | Inr j \<Rightarrow> Inr s)
           | _ \<Rightarrow> Inl (RWrongKind ''JSON''))
      | BJsonb \<Rightarrow> (case v of VJson s \<Rightarrow> andalso (json_for_jsonb ef s) (Inr s) | _ \<Rightarrow> Inl (RWrongKind ''JSON''))
      | BBuiltin kind \<Rightarrow>
          (case v of
             VText s \<Rightarrow> if pg_to_pg then andalso (no_nul s) (Inr s) else Inl (RWrongKind ''text'')
           | _ \<Rightarrow> Inl (RWrongKind ''text''))
      | BOther \<Rightarrow> Inl (RWrongKind NOT_PLANNED)
      | composite \<Rightarrow>
          if tt = TJsonb then
            (case json_of_composite ef composite v of
               Inl r \<Rightarrow> Inl r
             | Inr s \<Rightarrow> andalso (json_for_jsonb ef s) (Inr s))
          else Inl (RWrongKind NOT_PLANNED))"

text \<open>An element of an array literal inside its quotes.\<close>

definition array_escape :: "bytes \<Rightarrow> bytes" where
  "array_escape s = concat (map (\<lambda>c. if c = CHR 0x22 \<or> c = CHR 0x5C then [CHR 0x5C, c] else [c]) s)"

definition pg_array_text :: "bytes \<Rightarrow> rule + bytes" where
  "pg_array_text s =
     andalso (no_nul s)
       (if prefix ''['' s then Inl RArrayBounds
        else if prefix ''{'' s \<and> suffix ''}'' s then Inr s else Inl RNotAnArray)"

fun is_array_type :: "target_type \<Rightarrow> bool" where
  "is_array_type (TArray inner) = True"
| "is_array_type _ = False"

function pg_value :: "encode_fns \<Rightarrow> sql_type \<Rightarrow> target_type \<Rightarrow> driver_kind \<Rightarrow> sql_value \<Rightarrow> rule + bytes"
  and pg_items :: "encode_fns \<Rightarrow> sql_type \<Rightarrow> target_type \<Rightarrow> driver_kind \<Rightarrow> bool \<Rightarrow> sql_value list \<Rightarrow> rule + bytes" where
  "pg_value ef sql tt src v =
     (if st_base sql = BArray \<and> is_array_type tt then
        (case tt of
           TArray inner \<Rightarrow>
             (case v of
                VText s \<Rightarrow> if src = KPostgres then pg_array_text s else Inl (RWrongKind ''an array'')
              | VArray items \<Rightarrow>
                  if src = KPostgres then Inl (RWrongKind ''an array'')
                  else (case st_element sql of
                          None \<Rightarrow> Inl (RWrongKind ''an array with an element type'')
                        | Some element \<Rightarrow>
                            map_sum id (\<lambda>s. ''{'' @ s @ ''}'') (pg_items ef element inner src False items))
              | _ \<Rightarrow> Inl (RWrongKind ''an array''))
         | _ \<Rightarrow> Inl (RWrongKind NOT_PLANNED))
      else pg_flat ef sql tt src v)"
| "pg_items ef element inner src follows [] = Inr []"
| "pg_items ef element inner src follows (item # items) =
     (case (if is_null item then Inr ''NULL''
            else map_sum id (\<lambda>s. [CHR 0x22] @ array_escape s @ [CHR 0x22]) (pg_value ef element inner src item)) of
        Inl r \<Rightarrow> Inl r
      | Inr s \<Rightarrow>
          map_sum id (\<lambda>rest. (if follows then '','' else []) @ s @ rest) (pg_items ef element inner src True items))"
  by pat_completeness auto
termination
  by (relation "measure (\<lambda>x. case x of
        Inl (ef, sql, tt, src, v) \<Rightarrow> size v
      | Inr (ef, element, inner, src, follows, items) \<Rightarrow> size_list size items)") simp_all

declare pg_value.simps [simp del]

definition pg_text :: "encode_fns \<Rightarrow> planned_column \<Rightarrow> sql_value \<Rightarrow> rule + bytes option" where
  "pg_text ef c v =
     (if is_null v then Inr None
      else map_sum id Some (pg_value ef (pc_ty c) (rs_ty (pc_resolved c)) (pc_source c) v))"

section \<open>PostgreSQL: a row of COPY text\<close>

definition copy_escape :: "byte \<Rightarrow> bytes" where
  "copy_escape c =
     (if c = CHR 0x5C then [CHR 0x5C, CHR 0x5C]
      else if c = CHR 0x0A then [CHR 0x5C, CHR ''n'']
      else if c = CHR 0x0D then [CHR 0x5C, CHR ''r'']
      else if c = CHR 0x09 then [CHR 0x5C, CHR ''t''] else [c])"

definition escape_copy :: "bytes \<Rightarrow> bytes" where
  "escape_copy s = concat (map copy_escape s)"

definition copy_field :: "bytes option \<Rightarrow> bytes" where
  "copy_field f = (case f of None \<Rightarrow> [CHR 0x5C, CHR ''N''] | Some s \<Rightarrow> escape_copy s)"

fun copy_fields ::
  "encode_fns \<Rightarrow> nat \<Rightarrow> planned_column list \<Rightarrow> sql_value list \<Rightarrow> violation + bytes" where
  "copy_fields ef index [] [] = Inr []"
| "copy_fields ef index [] (v # vs) = Inl \<lparr>vi_column = index, vi_rule = RArity\<rparr>"
| "copy_fields ef index (c # cs) [] = Inl \<lparr>vi_column = index, vi_rule = RArity\<rparr>"
| "copy_fields ef index (c # cs) (v # vs) =
     (case pg_text ef c v of
        Inl r \<Rightarrow> Inl \<lparr>vi_column = index, vi_rule = r\<rparr>
      | Inr f \<Rightarrow>
          map_sum id (\<lambda>rest. (if index > 0 then [CHR 0x09] else []) @ copy_field f @ rest)
            (copy_fields ef (Suc index) cs vs))"

definition write_copy_row :: "encode_fns \<Rightarrow> planned_column list \<Rightarrow> sql_value list \<Rightarrow> violation + bytes" where
  "write_copy_row ef columns vs =
     (case copy_fields ef 0 columns vs of
        Inl e \<Rightarrow> Inl e
      | Inr s \<Rightarrow>
          (let row = s @ [CHR 0x0A] in
           if contains_byte (CHR 0x00) row then Inl \<lparr>vi_column = 0, vi_rule = RNul\<rparr> else Inr row))"

text \<open>What \<open>copy_row\<close> answers and what the buffer holds after it.\<close>

definition copy_row :: "encode_fns \<Rightarrow> planned_column list \<Rightarrow> sql_value list \<Rightarrow> bytes \<Rightarrow> (violation + unit) \<times> bytes" where
  "copy_row ef columns vs out =
     (case write_copy_row ef columns vs of
        Inl e \<Rightarrow> (Inl e, out)
      | Inr row \<Rightarrow> (Inr (), out @ row))"

section \<open>MySQL: bound parameters\<close>

datatype mysql_cell = CellNull | CellInt int | CellUInt int | CellFloat f64 | CellText bytes | CellBytes bytes

fun text_size_bytes :: "text_size \<Rightarrow> nat" where
  "text_size_bytes SizeText = 65535"
| "text_size_bytes SizeMedium = 16777215"
| "text_size_bytes SizeLong = 4294967295"

fun text_fits_mysql :: "bytes \<Rightarrow> target_type \<Rightarrow> rule + unit" where
  "text_fits_mysql s (TVarchar n) = text_within (Some n) s"
| "text_fits_mysql s (TChar n) = text_within (Some n) s"
| "text_fits_mysql s (TText sz) =
     (if length s > text_size_bytes sz then Inl (RTooLong (text_size_bytes sz) ''bytes'') else Inr ())"
| "text_fits_mysql s _ = Inr ()"

definition mysql_integer :: "sql_type \<Rightarrow> sql_value \<Rightarrow> rule + mysql_cell" where
  "mysql_integer sql v =
     (case integer sql v of
        Inl r \<Rightarrow> Inl r
      | Inr number \<Rightarrow>
          if fits_i64 number then Inr (CellInt number)
          else if 0 \<le> number \<and> number < 2 ^ 64 then Inr (CellUInt number)
          else Inl (ROutOfRange ''an integer outside 64 bits''))"

fun f64_is_zero :: "f64 \<Rightarrow> bool" where
  "f64_is_zero (FZero negative) = True"
| "f64_is_zero _ = False"

fun f64_is_infinite :: "f64 \<Rightarrow> bool" where
  "f64_is_infinite (FInf negative) = True"
| "f64_is_infinite _ = False"

definition mysql_float32 :: "encode_fns \<Rightarrow> sql_value \<Rightarrow> rule + mysql_cell" where
  "mysql_float32 ef v =
     (case v of
        VFloat x \<Rightarrow>
          if float_is_finite x then
            (let narrowed = ef_narrow ef x in
             if f64_is_infinite narrowed \<or> (f64_is_zero narrowed \<and> \<not> f64_is_zero x)
             then Inl (ROutOfRange ''a number outside the range of a float'')
             else Inr (CellFloat narrowed))
          else Inl RNonFinite
      | _ \<Rightarrow> Inl (RWrongKind ''a floating-point number''))"

definition mysql_float64 :: "sql_value \<Rightarrow> rule + mysql_cell" where
  "mysql_float64 v =
     (case v of
        VFloat x \<Rightarrow> if float_is_finite x then Inr (CellFloat x) else Inl RNonFinite
      | _ \<Rightarrow> Inl (RWrongKind ''a floating-point number''))"

definition mysql_text_value :: "target_type \<Rightarrow> sql_value \<Rightarrow> rule + mysql_cell" where
  "mysql_text_value tt v =
     (case v of
        VText s \<Rightarrow> andalso (text_fits_mysql s tt) (Inr (CellText s))
      | _ \<Rightarrow> Inl (RWrongKind ''text''))"

definition mysql_binary :: "target_type \<Rightarrow> sql_value \<Rightarrow> rule + mysql_cell" where
  "mysql_binary tt v =
     (case v of
        VBytes raw \<Rightarrow>
          (case tt of
             TBinary (Some n) \<Rightarrow> if length raw > n then Inl (RTooLong n ''bytes'') else Inr (CellBytes raw)
           | _ \<Rightarrow> Inr (CellBytes raw))
      | _ \<Rightarrow> Inl (RWrongKind ''binary data''))"

definition mysql_time :: "sql_type \<Rightarrow> sql_value \<Rightarrow> rule + mysql_cell" where
  "mysql_time sql v =
     (case v of
        VTime micros \<Rightarrow>
          if \<bar>micros\<bar> > 3020399000000 then Inl (ROutOfRange ''a time outside -838:59:59 to 838:59:59'')
          else andalso (micros_fit micros (fraction sql)) (Inr (CellText (signed_clock micros)))
      | _ \<Rightarrow> Inl (RWrongKind ''a time''))"

definition mysql_json :: "encode_fns \<Rightarrow> sql_value \<Rightarrow> rule + mysql_cell" where
  "mysql_json ef v =
     (case v of
        VJson s \<Rightarrow> andalso (json_for_mysql ef s) (Inr (CellText s))
      | _ \<Rightarrow> Inl (RWrongKind ''JSON''))"

definition composite_for_mysql :: "encode_fns \<Rightarrow> base \<Rightarrow> sql_value \<Rightarrow> rule + bytes" where
  "composite_for_mysql ef b v =
     (case json_of_composite ef b v of
        Inl r \<Rightarrow> Inl r
      | Inr s \<Rightarrow> andalso (json_for_mysql ef s) (Inr s))"

definition mysql_value :: "encode_fns \<Rightarrow> sql_type \<Rightarrow> target_type \<Rightarrow> sql_value \<Rightarrow> rule + mysql_cell" where
  "mysql_value ef sql tt v =
     (case st_base sql of
        BBool \<Rightarrow>
          (case v of VBool flag \<Rightarrow> Inr (CellInt (if flag then 1 else 0)) | _ \<Rightarrow> Inl (RWrongKind ''a boolean''))
      | BInt8 \<Rightarrow> mysql_integer sql v
      | BInt16 \<Rightarrow> mysql_integer sql v
      | BInt24 \<Rightarrow> mysql_integer sql v
      | BInt32 \<Rightarrow> mysql_integer sql v
      | BInt64 \<Rightarrow> mysql_integer sql v
      | BFloat32 \<Rightarrow> mysql_float32 ef v
      | BFloat64 \<Rightarrow> mysql_float64 v
      | BDecimal \<Rightarrow>
          (case (v, tt) of
             (VDecimal unscaled scale, TNumeric precision s) \<Rightarrow>
               map_sum id CellText (encode_decimal unscaled scale precision s)
           | _ \<Rightarrow> Inl (RWrongKind ''an exact decimal''))
      | BText \<Rightarrow> mysql_text_value tt v
      | BChar \<Rightarrow> mysql_text_value tt v
      | BEnum \<Rightarrow> mysql_text_value tt v
      | BSet \<Rightarrow> mysql_text_value tt v
      | BUuid \<Rightarrow> map_sum id CellText (uuid_value v)
      | BBinary \<Rightarrow> mysql_binary tt v
      | BDate \<Rightarrow>
          (case v of
             VDate days \<Rightarrow> map_sum id CellText (encode_date days 1000 9999)
           | _ \<Rightarrow> Inl (RWrongKind ''a date''))
      | BTime \<Rightarrow> mysql_time sql v
      | BTimestamp \<Rightarrow>
          (case v of
             VTimestamp micros None \<Rightarrow> map_sum id CellText (encode_timestamp micros (fraction sql) 1000 9999)
           | _ \<Rightarrow> Inl (RWrongKind ''a timestamp without a zone''))
      | BTimestampTz \<Rightarrow>
          (case v of
             VTimestamp micros (Some offset) \<Rightarrow>
               map_sum id CellText (encode_timestamp micros (fraction sql) 1000 9999)
           | _ \<Rightarrow> Inl (RWrongKind ''a timestamp with a zone''))
      | BJson \<Rightarrow> mysql_json ef v
      | BJsonb \<Rightarrow> mysql_json ef v
      | BArray \<Rightarrow> map_sum id CellText (composite_for_mysql ef BArray v)
      | BMap \<Rightarrow> map_sum id CellText (composite_for_mysql ef BMap v)
      | BRow \<Rightarrow> map_sum id CellText (composite_for_mysql ef BRow v)
      | _ \<Rightarrow> Inl (RWrongKind NOT_PLANNED))"

definition mysql_cell_of :: "encode_fns \<Rightarrow> planned_column \<Rightarrow> sql_value \<Rightarrow> rule + mysql_cell" where
  "mysql_cell_of ef c v =
     (if is_null v then Inr CellNull else mysql_value ef (pc_ty c) (rs_ty (pc_resolved c)) v)"

fun mysql_cells :: "encode_fns \<Rightarrow> nat \<Rightarrow> planned_column list \<Rightarrow> sql_value list \<Rightarrow> violation + mysql_cell list" where
  "mysql_cells ef index [] [] = Inr []"
| "mysql_cells ef index [] (v # vs) = Inl \<lparr>vi_column = index, vi_rule = RArity\<rparr>"
| "mysql_cells ef index (c # cs) [] = Inl \<lparr>vi_column = index, vi_rule = RArity\<rparr>"
| "mysql_cells ef index (c # cs) (v # vs) =
     (case mysql_cell_of ef c v of
        Inl r \<Rightarrow> Inl \<lparr>vi_column = index, vi_rule = r\<rparr>
      | Inr cell \<Rightarrow> map_sum id ((#) cell) (mysql_cells ef (Suc index) cs vs))"

definition mysql_row :: "encode_fns \<Rightarrow> planned_column list \<Rightarrow> sql_value list \<Rightarrow> violation + mysql_cell list" where
  "mysql_row ef columns vs = mysql_cells ef 0 columns vs"

end
