(* ===== verification/TransferSafety.thy ===== *)
theory TransferSafety
  imports TransferTypes
begin

text \<open>
  What a copy between two connections promises: of the table it plans, that every column has a name the server
  keeps, a type the engine rendered and, in MySQL, room in the row.
\<close>

section \<open>The planned table\<close>

text \<open>A mapping that is not a refusal carries the declaration of its own type.\<close>

definition rendered :: "transfer_target \<Rightarrow> type_mapping \<Rightarrow> bool" where
  "rendered t m \<longleftrightarrow> (\<forall>r. mapping_resolved m = Some r \<longrightarrow> render (rs_ty r) t = Some (rs_ddl r))"

lemma rendered_builders [simp]:
  "rendered t (exact ty t)" "rendered t (widened ty t note)" "rendered t (fallback ty t note)" "rendered t (MapRefuse reason)"
  by (auto simp: rendered_def exact_def widened_def fallback_def resolve_type_def split: option.splits)

lemma rendered_map_flat: "rendered t (map_flat ty src t)"
  by (cases "st_base ty"; cases t)
     (simp_all add: map_flat_def map_integer_def map_decimal_def map_text_def map_char_def map_binary_def Let_def
        map_timestamp_def map_composite_def map_builtin_def split: option.split bool.split)

lemma rendered_map_type: "rendered t (map_type ty src t)"
  by (cases t) (simp_all add: map_type_def rendered_map_flat map_array_def Let_def split: option.split)

text \<open>A column of a plan.\<close>

definition column_ok :: "transfer_target \<Rightarrow> planned_column \<Rightarrow> bool" where
  "column_ok t c \<longleftrightarrow>
     pc_target c = t \<and> pc_outcome c \<noteq> OutRefuse \<and>
     render (rs_ty (pc_resolved c)) t = Some (rs_ddl (pc_resolved c))"

lemma from_mapping_ok:
  "from_mapping name ty src t m = Inr c \<Longrightarrow> rendered t m \<Longrightarrow> column_ok t c \<and> pc_name c = name \<and> pc_ty c = ty \<and> pc_source c = src"
  by (cases m) (auto simp: column_ok_def rendered_def)

lemma plan_columns_ok:
  "plan_columns tf src t index columns = Inr planned \<Longrightarrow>
     list_all (column_ok t) planned \<and> map pc_name planned = map fst columns \<and> map pc_ty planned = map snd columns"
proof (induction columns arbitrary: index planned)
  case (Cons column columns)
  then show ?case
    by (cases column) (auto split: sum.splits dest!: from_mapping_ok [OF _ rendered_map_type])
qed simp

lemma demote_column_same:
  "pc_name (demote_column r note c) = pc_name c" "pc_ty (demote_column r note c) = pc_ty c"
  "pc_target (demote_column r note c) = pc_target c" "pc_resolved (demote_column r note c) = r"
  "pc_outcome (demote_column r note c) = OutRefuse \<longleftrightarrow> pc_outcome c = OutRefuse"
  by (simp_all add: demote_column_def)

lemma map_update_same: "i < length xs \<Longrightarrow> f y = f (xs ! i) \<Longrightarrow> map f (xs[i := y]) = map f xs"
  by (simp add: map_update list_update_same_conv)

lemma fit_mysql_row_ok:
  "fit_mysql_row columns = Inr fitted \<Longrightarrow> list_all (column_ok ToMysql) columns \<Longrightarrow>
     list_all (column_ok ToMysql) fitted \<and> map pc_name fitted = map pc_name columns \<and>
     map pc_ty fitted = map pc_ty columns \<and> row_bytes fitted \<le> MYSQL_ROW_LIMIT"
proof (induction columns rule: fit_mysql_row.induct)
  case (1 columns)
  show ?case
  proof (cases "row_bytes columns \<le> MYSQL_ROW_LIMIT")
    case True
    with "1.prems" show ?thesis by (simp add: fit_mysql_row.simps [of columns])
  next
    case False
    with "1.prems"(1) obtain n i d nt ddl where w: "widest columns = Some (n, i, d, nt)"
      and ddl: "render d ToMysql = Some ddl"
      and rest: "fit_mysql_row (columns[i := demote_column \<lparr>rs_ty = d, rs_ddl = ddl\<rparr> nt (columns ! i)]) = Inr fitted"
      by (auto simp: fit_mysql_row.simps [of columns] split: option.splits)
    let ?c = "demote_column \<lparr>rs_ty = d, rs_ddl = ddl\<rparr> nt (columns ! i)"
    note i = widest_found(1) [OF w]
    have "column_ok ToMysql ?c"
      using "1.prems"(2) i ddl by (simp add: column_ok_def demote_column_same list_all_length)
    then have "list_all (column_ok ToMysql) (columns[i := ?c])"
      using "1.prems"(2) by (auto simp: list_all_iff dest!: set_update_subset_insert [THEN subsetD])
    from "1.IH" [OF False w refl refl refl ddl rest this] i show ?thesis
      by (simp add: map_update_same demote_column_same)
  qed
qed


text \<open>A table whose second column is moved to \<open>text\<close> so that the row fits.\<close>

definition demo_fns :: text_fns where
  "demo_fns = \<lparr>tf_lower = to_ascii_lowercase, tf_debug = (\<lambda>s. s)\<rparr>"

definition demo_columns :: "(bytes \<times> sql_type) list" where
  "demo_columns = [(''id'', sql_type_of BInt64), (''note'', with_length (sql_type_of BText) 16383)]"

definition demo_planned :: "map_outcome \<Rightarrow> target_type \<Rightarrow> bytes \<Rightarrow> bytes option \<Rightarrow> planned_column list" where
  "demo_planned outcome ty ddl nt =
     [\<lparr>pc_name = ''id'', pc_ty = sql_type_of BInt64, pc_source = KTrino, pc_target = ToMysql,
       pc_resolved = \<lparr>rs_ty = TInt 8 False, rs_ddl = ''bigint''\<rparr>, pc_outcome = OutExact, pc_note = None\<rparr>,
      \<lparr>pc_name = ''note'', pc_ty = with_length (sql_type_of BText) 16383, pc_source = KTrino, pc_target = ToMysql,
       pc_resolved = \<lparr>rs_ty = ty, rs_ddl = ddl\<rparr>, pc_outcome = outcome, pc_note = nt\<rparr>]"

lemma demo_names: "check_columns to_ascii_lowercase ToMysql [''id'', ''note''] = Inr ()"
  by code_simp

lemma demo_mapped:
  "plan_columns demo_fns KTrino ToMysql 0 demo_columns =
     Inr (demo_planned OutExact (TVarchar 16383) (sized ''varchar'' 16383) None)"
  by (simp add: demo_columns_def demo_planned_def sql_type_of_def map_type_def map_flat_def map_integer_def map_text_def
      mysql_text_for_def MYSQL_VARCHAR_MAX_def exact_def resolve_type_def mysql_int_name_def Let_def)

lemma demo_fitted:
  "\<exists>nt. fit_mysql_row (demo_planned OutExact (TVarchar 16383) ddl None) =
     Inr (demo_planned OutWidened (TText SizeText) ''text'' (Some nt))"
  by (rule exI, subst fit_mysql_row.simps)
     (simp add: demo_planned_def row_bytes_def MYSQL_ROW_LIMIT_def widest_def mysql_text_size_for_def demote_column_def
        fit_mysql_row.simps)


end
