(* ===== verification/TransferCopy.thy ===== *)
theory TransferCopy
  imports TransferEncode TransferSafety
begin

text \<open>
  What PostgreSQL reads of the rows a copy writes. \<open>read_copy\<close> is the reader of the \<open>COPY\<close> text format as its
  documentation has it: lines end at a line feed, fields at a tab, a field of \<open>\N\<close> alone is NULL, and a
  backslash gives the byte it stands for. \<open>read_array\<close> is that of an array literal: elements between commas, a
  quoted one with its escapes removed, \<open>NULL\<close> without quotes the missing one.
\<close>

section \<open>Rows\<close>

fun copy_unescape :: "bytes \<Rightarrow> bytes option" where
  "copy_unescape [] = Some []"
| "copy_unescape [c] = (if c = CHR 0x5C then None else Some [c])"
| "copy_unescape (c # d # s) =
     (if c = CHR 0x5C then
        (if d = CHR 0x5C then map_option ((#) (CHR 0x5C)) (copy_unescape s)
         else if d = CHR ''n'' then map_option ((#) (CHR 0x0A)) (copy_unescape s)
         else if d = CHR ''r'' then map_option ((#) (CHR 0x0D)) (copy_unescape s)
         else if d = CHR ''t'' then map_option ((#) (CHR 0x09)) (copy_unescape s)
         else None)
      else map_option ((#) c) (copy_unescape (d # s)))"

definition read_field :: "bytes \<Rightarrow> bytes option option" where
  "read_field s = (if s = [CHR 0x5C, CHR ''N''] then Some None else map_option Some (copy_unescape s))"

definition read_row :: "bytes \<Rightarrow> bytes option list option" where
  "read_row line = those (map read_field (split_on (CHR 0x09) line))"

definition read_copy :: "bytes \<Rightarrow> bytes option list list option" where
  "read_copy s =
     (case rev (split_on (CHR 0x0A) s) of
        [] # lines \<Rightarrow> those (map read_row (rev lines))
      | _ \<Rightarrow> None)"

lemma copy_unescape_plain: "c \<noteq> CHR 0x5C \<Longrightarrow> copy_unescape (c # s) = map_option ((#) c) (copy_unescape s)"
  by (cases s) simp_all

lemma copy_unescape_escape: "copy_unescape (escape_copy s) = Some s"
  by (induction s) (simp_all add: escape_copy_def copy_escape_def copy_unescape_plain)

lemma escape_copy_no: "c \<in> {CHR 0x09, CHR 0x0A, CHR 0x0D} \<Longrightarrow> c \<notin> set (escape_copy s)"
  by (induction s) (auto simp: escape_copy_def copy_escape_def)

lemma escape_copy_not_null: "escape_copy s \<noteq> [CHR 0x5C, CHR ''N'']"
proof
  assume "escape_copy s = [CHR 0x5C, CHR ''N'']"
  with copy_unescape_escape [of s] show False by simp
qed

lemma read_copy_field: "read_field (copy_field f) = Some f"
  by (cases f) (simp_all add: read_field_def copy_field_def escape_copy_not_null copy_unescape_escape)

lemma copy_field_no: "c \<in> {CHR 0x09, CHR 0x0A, CHR 0x0D} \<Longrightarrow> c \<notin> set (copy_field f)"
  by (cases f) (auto simp: copy_field_def escape_copy_no)

text \<open>The fields of a row.\<close>

fun row_fields :: "encode_fns \<Rightarrow> planned_column list \<Rightarrow> sql_value list \<Rightarrow> bytes option list \<Rightarrow> bool" where
  "row_fields ef [] [] [] = True"
| "row_fields ef (c # cs) (v # vs) (f # fs) \<longleftrightarrow> pg_text ef c v = Inr f \<and> row_fields ef cs vs fs"
| "row_fields ef _ _ _ = False"

lemma row_fields_some: "row_fields ef columns vs texts \<Longrightarrow> columns \<noteq> [] \<Longrightarrow> texts \<noteq> []"
  by (cases texts) (auto elim: row_fields.elims)

lemma copy_fields_join:
  "copy_fields ef index columns vs = Inr s \<Longrightarrow> columns \<noteq> [] \<Longrightarrow>
     \<exists>texts. row_fields ef columns vs texts \<and>
       s = (if index > 0 then [CHR 0x09] else []) @ join [CHR 0x09] (map copy_field texts)"
proof (induction ef index columns vs arbitrary: s rule: copy_fields.induct)
  case (4 ef index c cs v vs)
  then obtain f rest where f: "pg_text ef c v = Inr f" and rest: "copy_fields ef (Suc index) cs vs = Inr rest"
    and s: "s = (if index > 0 then [CHR 0x09] else []) @ copy_field f @ rest"
    by (auto split: sum.splits simp: map_sum_def)
  show ?case
  proof (cases cs)
    case Nil
    with rest have "vs = []" "rest = []" by (cases vs; simp)+
    with f s Nil show ?thesis by (intro exI [of _ "[f]"]) simp
  next
    case (Cons c' cs')
    with "4.IH" [OF f rest] obtain texts where texts: "row_fields ef cs vs texts"
      and r: "rest = [CHR 0x09] @ join [CHR 0x09] (map copy_field texts)" by auto
    from texts Cons obtain f' fs' where "texts = f' # fs'" by (cases texts) (auto dest: row_fields_some)
    with f texts r s show ?thesis by (intro exI [of _ "f # texts"]) simp
  qed
qed simp_all

lemma split_on_joined: "xs \<noteq> [] \<Longrightarrow> \<forall>x \<in> set xs. c \<notin> set x \<Longrightarrow> split_on c (join [c] xs) = xs"
proof (induction xs)
  case (Cons x xs)
  then show ?case by (cases xs) simp_all
qed simp

lemma those_map_Some: "those (map Some xs) = Some xs"
  by (induction xs) simp_all

lemma read_row_fields:
  assumes "texts \<noteq> []"
  shows "read_row (join [CHR 0x09] (map copy_field texts)) = Some texts"
  using assms by (simp add: read_row_def split_on_joined copy_field_no comp_def read_copy_field those_map_Some)

lemma in_join: "x \<in> set (join s xs) \<Longrightarrow> x \<in> set s \<or> (\<exists>y \<in> set xs. x \<in> set y)"
  by (induction s xs rule: join.induct) auto

lemma split_on_snoc:
  "split_on c (s @ t) = butlast (split_on c s) @ (List.last (split_on c s) @ hd (split_on c t)) # tl (split_on c t)"
proof (induction s)
  case (Cons a s)
  obtain l ls where "split_on c s = l # ls" by (meson split_on_ne neq_Nil_conv)
  with Cons show ?case by (cases ls) (auto split: list.splits)
qed simp

lemma those_snoc: "those (xs @ [y]) = (case those xs of None \<Rightarrow> None | Some a \<Rightarrow> map_option (\<lambda>b. a @ [b]) y)"
  by (induction xs) (auto split: option.splits simp: option.map_comp comp_def)

lemma read_copy_snoc:
  assumes "read_copy out = Some rows" "CHR 0x0A \<notin> set line" "read_row line = Some texts"
  shows "read_copy (out @ line @ [CHR 0x0A]) = Some (rows @ [texts])"
proof -
  from assms(1) obtain ls where ls: "rev (split_on (CHR 0x0A) out) = [] # ls" and rows: "those (map read_row (rev ls)) = Some rows"
    by (auto simp: read_copy_def split: list.splits)
  from ls have lines: "split_on (CHR 0x0A) out = rev ls @ [[]]" by (simp add: rev_swap)
  have "split_on (CHR 0x0A) (out @ line @ [CHR 0x0A]) = rev ls @ [line, []]"
    using assms(2) by (simp add: split_on_snoc lines)
  with assms(3) rows show ?thesis by (simp add: read_copy_def those_snoc)
qed

text \<open>
  C?. A row that is refused leaves the buffer as it was. A row that is written adds, to whatever rows
  PostgreSQL reads of the buffer, exactly one row, and its fields are the texts of its values, whatever
  tabs, line ends and backslashes they hold; no NUL byte is added.
\<close>

theorem copied_rows_read_back:
  assumes "columns \<noteq> []" "copy_row ef columns vs out = (outcome, out')" "read_copy out = Some rows"
  shows "(case outcome of
      Inl e \<Rightarrow> out' = out
    | Inr _ \<Rightarrow> \<exists>texts. read_copy out' = Some (rows @ [texts]) \<and> row_fields ef columns vs texts \<and>
        CHR 0x00 \<notin> set (drop (length out) out'))"
proof (cases outcome)
  case (Inl e)
  with assms(2) show ?thesis by (auto simp: copy_row_def split: sum.splits)
next
  case (Inr u)
  with assms(2) obtain s where s: "copy_fields ef 0 columns vs = Inr s" and out': "out' = out @ s @ [CHR 0x0A]"
    and nul: "CHR 0x00 \<notin> set s"
    by (auto simp: copy_row_def write_copy_row_def Let_def contains_byte_def split: sum.splits if_splits)
  from copy_fields_join [OF s assms(1)] obtain texts where texts: "row_fields ef columns vs texts"
    and s': "s = join [CHR 0x09] (map copy_field texts)" by auto
  from texts assms(1) have "texts \<noteq> []" by (rule row_fields_some)
  note row = read_row_fields [OF this]
  have "CHR 0x0A \<notin> set s" by (auto simp: s' copy_field_no dest!: in_join)
  from read_copy_snoc [OF assms(3) this row [folded s']] texts nul Inr show ?thesis
    by (auto simp: out')
qed

text \<open>Functions for concrete inputs.\<close>

definition bare_fns :: encode_fns where
  "bare_fns = \<lparr>ef_json = (\<lambda>s. None), ef_parse_f64 = (\<lambda>s. None), ef_narrow = (\<lambda>x. x)\<rparr>"

definition text_column :: planned_column where
  "text_column =
     \<lparr>pc_name = ''note'', pc_ty = sql_type_of BText, pc_source = KMysql, pc_target = ToPostgres,
      pc_resolved = \<lparr>rs_ty = TText SizeText, rs_ddl = ''text''\<rparr>, pc_outcome = OutExact, pc_note = None\<rparr>"

definition tabbed :: bytes where
  "tabbed = [CHR ''a'', CHR 0x09, CHR 0x5C, CHR ''N'']"

lemma tabbed_written:
  "copy_row bare_fns [text_column, text_column] [VText tabbed, VNull] [] =
     (Inr (), ''a'' @ [CHR 0x5C, CHR ''t'', CHR 0x5C, CHR 0x5C, CHR ''N'', CHR 0x09, CHR 0x5C, CHR ''N'', CHR 0x0A])"
  by (simp add: copy_row_def write_copy_row_def pg_text_def is_null_def text_column_def pg_value.simps pg_flat_def
      sql_type_of_def copy_text_value_def tabbed_def no_nul_def contains_byte_def text_within_def copy_field_def
      escape_copy_def copy_escape_def andalso_def Let_def)

theorem copied_rows_read_back_witness:
  "\<exists>out texts. copy_row bare_fns [text_column, text_column] [VText tabbed, VNull] [] = (Inr (), out) \<and>
     read_copy out = Some [texts] \<and> row_fields bare_fns [text_column, text_column] [VText tabbed, VNull] texts"
  using copied_rows_read_back [OF _ tabbed_written, of "[]"] tabbed_written by (auto simp: read_copy_def)

section \<open>Array literals\<close>

fun read_quoted :: "bytes \<Rightarrow> (bytes \<times> bytes) option" where
  "read_quoted [] = None"
| "read_quoted [c] = (if c = CHR 0x22 then Some ([], []) else None)"
| "read_quoted (c # d # s) =
     (if c = CHR 0x22 then Some ([], d # s)
      else if c = CHR 0x5C then map_option (\<lambda>(t, r). (d # t, r)) (read_quoted s)
      else map_option (\<lambda>(t, r). (c # t, r)) (read_quoted (d # s)))"

definition read_element :: "bytes \<Rightarrow> (bytes option \<times> bytes) option" where
  "read_element s =
     (if prefix ''NULL'' s then Some (None, drop 4 s)
      else (case s of
          [] \<Rightarrow> None
        | c # r \<Rightarrow> if c = CHR 0x22 then map_option (\<lambda>(t, r). (Some t, r)) (read_quoted r) else None))"

lemma read_quoted_shorter: "read_quoted s = Some (t, r) \<Longrightarrow> length r < length s"
  by (induction s arbitrary: t rule: read_quoted.induct) (fastforce split: if_splits)+

lemma read_element_shorter: "read_element s = Some (x, r) \<Longrightarrow> length r < length s"
  by (auto simp: read_element_def prefix_def split: if_splits list.splits dest: read_quoted_shorter)

function read_elements :: "bytes \<Rightarrow> bytes option list option" where
  "read_elements s =
     (case read_element s of
        None \<Rightarrow> None
      | Some (x, []) \<Rightarrow> None
      | Some (x, c # r) \<Rightarrow>
          if c = CHR ''}'' then if r = [] then Some [x] else None
          else if c = CHR '','' then map_option ((#) x) (read_elements r) else None)"
  by pat_completeness auto
termination
  by (relation "measure length") (auto dest!: read_element_shorter)

declare read_elements.simps [simp del]

definition read_array :: "bytes \<Rightarrow> bytes option list option" where
  "read_array s =
     (case s of
        [] \<Rightarrow> None
      | c # r \<Rightarrow> if c = CHR ''{'' then if r = ''}'' then Some [] else read_elements r else None)"

lemma read_quoted_plain:
  "c \<noteq> CHR 0x22 \<Longrightarrow> c \<noteq> CHR 0x5C \<Longrightarrow> s \<noteq> [] \<Longrightarrow> read_quoted (c # s) = map_option (\<lambda>(t, r). (c # t, r)) (read_quoted s)"
  by (cases s) simp_all

lemma read_quoted_escape: "read_quoted (array_escape s @ CHR 0x22 # r) = Some (s, r)"
proof (induction s)
  case Nil
  then show ?case by (cases r) (simp_all add: array_escape_def)
next
  case (Cons c s)
  then show ?case by (auto simp: array_escape_def read_quoted_plain)
qed

definition element_text :: "bytes option \<Rightarrow> bytes" where
  "element_text x = (case x of None \<Rightarrow> ''NULL'' | Some s \<Rightarrow> [CHR 0x22] @ array_escape s @ [CHR 0x22])"

lemma read_element_text: "read_element (element_text x @ r) = Some (x, r)"
  by (cases x) (simp_all add: read_element_def element_text_def read_quoted_escape)

lemma read_elements_texts:
  "xs \<noteq> [] \<Longrightarrow> read_elements (join '','' (map element_text xs) @ ''}'') = Some xs"
proof (induction xs)
  case (Cons x xs)
  then show ?case
    by (cases xs) (simp_all add: read_elements.simps [of "element_text x @ _"] read_element_text)
qed simp

definition item_written :: "encode_fns \<Rightarrow> sql_type \<Rightarrow> target_type \<Rightarrow> driver_kind \<Rightarrow> sql_value \<Rightarrow> bytes option \<Rightarrow> bool" where
  "item_written ef element inner src item x \<longleftrightarrow>
     (case x of
        None \<Rightarrow> item = VNull
      | Some s \<Rightarrow> item \<noteq> VNull \<and> pg_value ef element inner src item = Inr s)"

lemma pg_items_join:
  "pg_items ef element inner src follows items = Inr s \<Longrightarrow> items \<noteq> [] \<Longrightarrow>
     \<exists>xs. list_all2 (item_written ef element inner src) items xs \<and>
       s = (if follows then '','' else []) @ join '','' (map element_text xs)"
proof (induction items arbitrary: follows s)
  case (Cons item items)
  from Cons.prems(1) obtain x rest where x: "item_written ef element inner src item x"
    and rest: "pg_items ef element inner src True items = Inr rest"
    and s: "s = (if follows then '','' else []) @ element_text x @ rest"
    by (cases "item = VNull")
       (fastforce simp: item_written_def element_text_def is_null_def map_sum_def split: sum.splits option.splits)+
  show ?case
  proof (cases "items = []")
    case True
    with rest s x show ?thesis by (intro exI [of _ "[x]"]) simp
  next
    case False
    from Cons.IH [OF rest False] obtain xs where xs: "list_all2 (item_written ef element inner src) items xs"
      and r: "rest = '','' @ join '','' (map element_text xs)" by auto
    from xs False obtain y ys where "xs = y # ys" by (cases xs) auto
    with x xs r s show ?thesis by (intro exI [of _ "x # xs"]) simp
  qed
qed simp

text \<open>
  C?. The literal written for an array is read back, by the rules of PostgreSQL's array input, as one element
  for each of the array's: the missing ones missing, and each other the text its own value is written as,
  whatever quotes, backslashes, commas and braces it holds. A string that says NULL stays a string.
\<close>

theorem array_literals_read_back:
  assumes "st_base sql = BArray" "pg_value ef sql (TArray inner) src (VArray items) = Inr s"
  shows "\<exists>element xs. st_element sql = Some element \<and> read_array s = Some xs \<and>
     list_all2 (item_written ef element inner src) items xs"
proof -
  from assms obtain element body where element: "st_element sql = Some element"
    and body: "pg_items ef element inner src False items = Inr body" and s: "s = ''{'' @ body @ ''}''"
    by (auto simp: pg_value.simps [of ef sql] map_sum_def split: option.splits sum.splits if_splits)
  show ?thesis
  proof (cases "items = []")
    case True
    with body s element show ?thesis by (simp add: read_array_def)
  next
    case False
    from pg_items_join [OF body this] obtain xs where xs: "list_all2 (item_written ef element inner src) items xs"
      and b: "body = join '','' (map element_text xs)" by auto
    from xs False have ne: "xs \<noteq> []" by auto
    have "body \<noteq> []" using ne by (cases xs rule: remdups_adj.cases) (auto simp: b element_text_def split: option.splits)
    with read_elements_texts [OF ne] have "read_array s = Some xs" by (simp add: s b read_array_def)
    with xs element show ?thesis by blast
  qed
qed

theorem array_literals_read_back_witness:
  "\<exists>s xs. pg_value bare_fns (sql_array_of (sql_type_of BText)) (TArray (TText SizeText)) KTrino
       (VArray [VText ''NULL'', VNull]) = Inr s \<and> read_array s = Some xs \<and>
     list_all2 (item_written bare_fns (sql_type_of BText) (TText SizeText) KTrino) [VText ''NULL'', VNull] xs"
proof -
  let ?sql = "sql_array_of (sql_type_of BText)"
  have base: "st_base ?sql = BArray" by (simp add: sql_array_of_def)
  have written: "pg_value bare_fns ?sql (TArray (TText SizeText)) KTrino (VArray [VText ''NULL'', VNull]) =
      Inr (''{'' @ [CHR 0x22] @ ''NULL'' @ [CHR 0x22] @ '',NULL}'')"
    by (simp add: pg_value.simps sql_array_of_def is_null_def pg_flat_def sql_type_of_def copy_text_value_def no_nul_def
        contains_byte_def text_within_def array_escape_def andalso_def Let_def)
  from array_literals_read_back [OF base written] written show ?thesis by (auto simp: sql_array_of_def)
qed

end
