(* ===== verification/TransferMeaning.thy ===== *)
theory TransferMeaning
  imports TransferCopy
begin

text \<open>
  What a written text says. The readers are those of the drivers (\<open>PgText\<close>, \<open>MySqlText\<close>), which read the same
  types of the same servers: a decimal, a date, a time or a timestamp that a copy writes is, read back, the
  value it was given.
\<close>

section \<open>Texts\<close>

lemma encode_clock_time: "0 \<le> t \<Longrightarrow> encode_clock t = time_text t"
  by (simp add: encode_clock_def time_text_def Let_def clock_minutes)

lemma encode_date_text:
  "encode_date days low high = Inr s \<longleftrightarrow>
     s = date_text days \<and> (case civil_from_days days of (y, m, d) \<Rightarrow> low \<le> y \<and> y \<le> high)"
  by (auto simp: encode_date_def date_text_def split: prod.splits)

lemma encode_timestamp_text:
  assumes "encode_timestamp m digits low high = Inr s"
  shows "s = timestamp_text m None" "micros_fit m digits = Inr ()"
    "case civil_from_days (m div 86400000000) of (y, mo, d) \<Rightarrow> low \<le> y \<and> y \<le> high"
proof -
  from assms obtain days date where fit: "micros_fit m digits = Inr ()" and days: "try_i32 (m div 86400000000) = Some days"
    and date: "encode_date days low high = Inr date" and s: "s = date @ '' '' @ encode_clock (m mod 86400000000)"
    by (auto simp: encode_timestamp_def Let_def split: option.splits sum.splits)
  from days have days: "days = m div 86400000000" by (simp add: try_i32_def split: if_splits)
  from date have "date = date_text (m div 86400000000)"
    and range: "case civil_from_days (m div 86400000000) of (y, mo, d) \<Rightarrow> low \<le> y \<and> y \<le> high"
    by (simp_all add: encode_date_text days)
  with s show "s = timestamp_text m None" by (simp add: timestamp_text_def encode_clock_time)
  show "micros_fit m digits = Inr ()" by (rule fit)
  show "case civil_from_days (m div 86400000000) of (y, mo, d) \<Rightarrow> low \<le> y \<and> y \<le> high" by (rule range)
qed

lemma drop_zeros_exact:
  "drop_zeros ts u sc = (u', sc') \<Longrightarrow> sc' \<le> sc \<and> u = u' * 10 ^ (sc - sc') \<and> \<bar>u'\<bar> \<le> \<bar>u\<bar>"
proof (induction ts u sc rule: drop_zeros.induct)
  case (1 ts u sc)
  show ?case
  proof (cases "sc > ts \<and> u mod 10 = 0")
    case True
    with "1.prems" have "drop_zeros ts (u div 10) (sc - 1) = (u', sc')" by (simp add: drop_zeros.simps [of ts u sc])
    from "1.IH" [OF True this] have le: "sc' \<le> sc - 1" and eq: "u div 10 = u' * 10 ^ (sc - 1 - sc')"
      and abs: "\<bar>u'\<bar> \<le> \<bar>u div 10\<bar>" by blast+
    from True le have "sc - sc' = Suc (sc - 1 - sc')" by arith
    moreover from True have u: "u = u div 10 * 10" by (simp add: dvd_div_mult_self mod_0_imp_dvd)
    ultimately have "u = u' * 10 ^ (sc - sc')" using eq by simp
    moreover from u have "\<bar>u div 10\<bar> \<le> \<bar>u\<bar>" by linarith
    ultimately show ?thesis using le abs True by linarith
  next
    case False
    with "1.prems" show ?thesis by (simp add: drop_zeros.simps [of ts u sc])
  qed
qed

lemma encode_decimal_exact:
  assumes "encode_decimal u sc p ts = Inr s"
  shows "\<exists>u' sc'. s = decimal_text u' sc' \<and> sc' \<le> sc \<and> u = u' * 10 ^ (sc - sc') \<and> \<bar>u'\<bar> \<le> \<bar>u\<bar> \<and>
     (\<forall>n. p = Some n \<longrightarrow> sc' \<le> ts \<and> (u' \<noteq> 0 \<longrightarrow> length (nat_bytes (nat \<bar>u'\<bar>)) - sc' \<le> n - ts))"
proof (cases p)
  case None
  with assms show ?thesis by (intro exI [of _ u] exI [of _ sc]) (simp add: encode_decimal_def)
next
  case (Some n)
  obtain u' sc' where dz: "drop_zeros ts u sc = (u', sc')" by fastforce
  from drop_zeros_exact [OF this] dz assms Some show ?thesis
    by (intro exI [of _ u'] exI [of _ sc']) (auto simp: encode_decimal_def Let_def split: if_splits)
qed

section \<open>PostgreSQL\<close>

text \<open>What a text of a PostgreSQL column says, as the value it is. A decimal is its number, whatever its scale.\<close>

fun pg_says :: "bytes \<Rightarrow> sql_value \<Rightarrow> bool" where
  "pg_says s (VBool flag) \<longleftrightarrow> s = (if flag then ''t'' else ''f'')"
| "pg_says s (VInt n) \<longleftrightarrow> parse_i64 s = Some n"
| "pg_says s (VUInt n) \<longleftrightarrow> parse_u64 s = Some n"
| "pg_says s (VDecimal u sc) \<longleftrightarrow>
     (case pg_decimal s of None \<Rightarrow> False | Some (u', sc') \<Rightarrow> u' * 10 ^ sc = u * 10 ^ sc')"
| "pg_says s (VText t) \<longleftrightarrow> s = t"
| "pg_says s (VJson t) \<longleftrightarrow> s = t"
| "pg_says s (VBytes b) \<longleftrightarrow> parse_bytea s = VBytes b"
| "pg_says s (VDate days) \<longleftrightarrow> pg_days s = Some days"
| "pg_says s (VTime micros) \<longleftrightarrow> pg_time_micros s = Some micros"
| "pg_says s (VTimestamp micros off) \<longleftrightarrow> pg_timestamp s = Some (micros, 0)"
| "pg_says s _ \<longleftrightarrow> True"

definition in_driver_range :: "sql_value \<Rightarrow> bool" where
  "in_driver_range v \<longleftrightarrow>
     (case v of
        VInt n \<Rightarrow> fits_i64 n
      | VUInt n \<Rightarrow> 0 \<le> n \<and> n < 2 ^ 64
      | VDecimal u sc \<Rightarrow> \<bar>u\<bar> < 2 ^ 127 \<and> sc \<le> 38
      | VDate days \<Rightarrow> fits_i32 days
      | _ \<Rightarrow> True)"

lemma pg_says_decimal:
  assumes "encode_decimal u sc p ts = Inr s" "\<bar>u\<bar> < 2 ^ 127" "sc \<le> 38"
  shows "pg_says s (VDecimal u sc)"
proof -
  from encode_decimal_exact [OF assms(1)] obtain u' sc' where s: "s = decimal_text u' sc'" and sc: "sc' \<le> sc"
    and u: "u = u' * 10 ^ (sc - sc')" and le: "\<bar>u'\<bar> \<le> \<bar>u\<bar>" by blast
  from assms le sc have "pg_decimal s = Some (u', sc')" by (simp add: s pg_decimal_text)
  moreover have "u' * 10 ^ sc = u * 10 ^ sc'"
    using sc by (simp add: u flip: power_add)
  ultimately show ?thesis by simp
qed

lemma pg_says_timestamp:
  assumes "encode_timestamp m digits 1 99999999 = Inr s"
  shows "pg_timestamp s = Some (m, 0)" "pg_timestamp (s @ ''+00:00'') = Some (m, 0)"
proof -
  note e = encode_timestamp_text [OF assms]
  from e(3) have y: "year_from 1 (m div 86400000000)" by (auto simp: year_from_def i64_max_def split: prod.splits)
  from pg_timestamp_cell [of None m] y show "pg_timestamp s = Some (m, 0)"
    by (simp add: e(1) wall_clock_def)
  have "nat_bytes 0 = ''0''" by code_simp
  then have "timestamp_text m (Some 0) = s @ ''+00:00''"
    by (simp add: e(1) timestamp_text_def offset_text_def nat_pad_def pad_zeros_def Let_def)
  with pg_timestamp_cell [of "Some 0" m] y show "pg_timestamp (s @ ''+00:00'') = Some (m, 0)"
    by (simp add: wall_clock_def whole_minutes_def)
qed

lemma pg_says_scalars:
  "copy_integer sql v = Inr s \<Longrightarrow> in_driver_range v \<Longrightarrow> pg_says s v"
  "copy_date pg v = Inr s \<Longrightarrow> in_driver_range v \<Longrightarrow> pg_says s v"
  "copy_time sql v = Inr s \<Longrightarrow> pg_says s v"
  "copy_timestamp sql pg v = Inr s \<Longrightarrow> pg_says s v"
  "copy_timestamptz sql pg v = Inr s \<Longrightarrow> pg_says s v"
  "copy_numeric p sc pg v = Inr s \<Longrightarrow> in_driver_range v \<Longrightarrow> pg_says s v"
  "copy_text_value tt v = Inr s \<Longrightarrow> pg_says s v"
  "uuid_value v = Inr s \<Longrightarrow> pg_says s v"
  "copy_float v = Inr s \<Longrightarrow> pg_says s v"
proof -
  show "copy_integer sql v = Inr s \<Longrightarrow> in_driver_range v \<Longrightarrow> pg_says s v"
    by (cases v) (auto simp: copy_integer_def integer_def in_driver_range_def fits_i64_def parse_i64_int_bytes
        parse_u64_def parse_int_in_int_bytes split: prod.splits if_splits)
  show "copy_date pg v = Inr s \<Longrightarrow> in_driver_range v \<Longrightarrow> pg_says s v"
    by (cases v) (auto simp: copy_date_def encode_date_text in_driver_range_def year_from_def i64_max_def
        intro!: pg_date_cell split: if_splits prod.splits)
  show "copy_time sql v = Inr s \<Longrightarrow> pg_says s v"
    by (cases v) (auto simp: copy_time_def encode_clock_time pg_time_micros_text split: if_splits)
  show "copy_timestamp sql pg v = Inr s \<Longrightarrow> pg_says s v"
    by (cases v) (auto simp: copy_timestamp_def pg_says_timestamp split: if_splits option.splits)
  show "copy_timestamptz sql pg v = Inr s \<Longrightarrow> pg_says s v"
    by (cases v) (auto simp: copy_timestamptz_def pg_says_timestamp map_sum_def split: if_splits option.splits sum.splits)
  show "copy_numeric p sc pg v = Inr s \<Longrightarrow> in_driver_range v \<Longrightarrow> pg_says s v"
    by (cases v) (auto simp: copy_numeric_def in_driver_range_def simp del: pg_says.simps(4)
        intro: pg_says_decimal split: if_splits)
  show "copy_text_value tt v = Inr s \<Longrightarrow> pg_says s v"
    by (cases v) (auto simp: copy_text_value_def)
  show "uuid_value v = Inr s \<Longrightarrow> pg_says s v"
    by (cases v) (auto simp: uuid_value_def split: if_splits)
  show "copy_float v = Inr s \<Longrightarrow> pg_says s v"
    by (cases v) auto
qed

lemma pg_flat_says: "pg_flat ef sql tt src v = Inr s \<Longrightarrow> in_driver_range v \<Longrightarrow> pg_says s v"
  by (cases "st_base sql"; cases tt)
     (auto simp: pg_flat_def Let_def pg_says_scalars parse_bytea_hex [simplified] json_of_composite_def
        split: sql_value.splits if_splits sum.splits)



section \<open>MySQL\<close>

definition time_column :: planned_column where
  "time_column =
     \<lparr>pc_name = ''at'', pc_ty = sql_type_of BTime, pc_source = KPostgres, pc_target = ToMysql,
      pc_resolved = \<lparr>rs_ty = TTime 6, rs_ddl = ''time(6)''\<rparr>, pc_outcome = OutExact, pc_note = None\<rparr>"

lemma encode_clock_server:
  "encode_clock t = server_hms (if nat \<bar>t\<bar> mod 1000000 = 0 then 0 else 6) (nat \<bar>t\<bar> div 1000000 div 3600)
     (nat \<bar>t\<bar> div 1000000 div 60 mod 60) (nat \<bar>t\<bar> div 1000000 mod 60) (nat \<bar>t\<bar> mod 1000000)"
  by (simp add: encode_clock_def server_hms_def fraction_text_def Let_def)

lemma clock_total: "q div 3600 * 3600 + q div 60 mod 60 * 60 + q mod 60 = q" for q :: nat
  using div_mult_mod_eq [of q 60] div_mult_mod_eq [of "q div 60" 60] div_mult2_eq [of q 60 60, simplified] by linarith

lemma fraction_fits_clock: "fraction_fits (if n mod 1000000 = 0 then 0 else 6) (n mod 1000000)" for n :: nat
  by (simp add: fraction_fits_def)

lemma my_reads_clock:
  assumes "\<bar>t\<bar> \<le> 3020399000000"
  shows "my_time_micros (signed_clock t) = Some t"
proof -
  let ?n = "nat \<bar>t\<bar>"
  let ?q = "?n div 1000000"
  have s: "signed_clock t = server_time (if ?n mod 1000000 = 0 then 0 else 6) (t < 0) (?q div 3600) (?q div 60 mod 60)
      (?q mod 60) (?n mod 1000000)"
    by (simp add: signed_clock_def encode_clock_server server_time_def)
  have "int ((?q div 3600 * 3600 + ?q div 60 mod 60 * 60 + ?q mod 60) * 1000000 + ?n mod 1000000) = \<bar>t\<bar>"
    by (simp only: clock_total) simp
  then have total: "(int (?q div 3600) * 3600 + int (?q div 60 mod 60) * 60 + int (?q mod 60)) * 1000000 + int (?n mod 1000000) = \<bar>t\<bar>"
    by simp
  have "int (?q div 3600) \<le> i64_max" using assms by (simp add: i64_max_def)
  moreover have "?q div 60 mod 60 < 60" "?q mod 60 < 60" by simp_all
  then have "?q div 60 mod 60 \<le> 59" "?q mod 60 \<le> 60" by linarith+
  ultimately have "my_time_micros (signed_clock t) =
      (let t' = (int (?q div 3600) * 3600 + int (?q div 60 mod 60) * 60 + int (?q mod 60)) * 1000000 + int (?n mod 1000000)
       in Some (if t < 0 then - t' else t'))"
    unfolding s by (rule my_time_text) (rule fraction_fits_clock)
  then show ?thesis by (simp only: total Let_def) simp
qed

lemma my_reads_date:
  assumes "encode_date days 1000 9999 = Inr s" "fits_i32 days"
  shows "parse_date_days s = Some days"
proof -
  obtain y m d where c: "civil_from_days days = (y, m, d)" by (metis surj_pair)
  from assms(1) have y: "1000 \<le> y" "y \<le> 9999" and s: "s = date_text days" by (simp_all add: encode_date_text c)
  have v: "valid_date y m d" and n: "days_from_civil y m d = days" using days_of_civil [of days] c by simp_all
  from v have "1 \<le> m" "m \<le> 12" "1 \<le> d" "d \<le> 31" by (auto simp: valid_date_def month_length_def split: if_splits)
  with date_read [of "nat y" "nat m" "nat d"] y n assms(2) show ?thesis
    by (simp add: s date_text_ymd [OF c] date_in_range_def try_i32_def fits_i32_def nat_le_iff Suc_le_eq)
qed

lemma timestamp_micros_valid:
  assumes "days_from_civil y m d = n" "1 \<le> m" "m \<le> 12" "1 \<le> d" "d \<le> 31" "h \<le> 23" "mi \<le> 59" "s \<le> 60"
  shows "timestamp_micros y m d h mi s = Some (n * 86400 * 1000000 + (h * 3600 + mi * 60 + s) * 1000000)"
  using assms by (simp add: timestamp_micros_def)

lemma day_and_clock:
  "a + b = c \<Longrightarrow> map_option (\<lambda>base. base + b) (Some (n * 86400 * 1000000 + a)) = Some (n * 86400000000 + c)" for a b c n :: int
  by simp

lemma my_reads_timestamp:
  assumes "encode_timestamp t digits 1000 9999 = Inr s"
  shows "parse_timestamp_naive s = Some t"
proof -
  let ?day = "t div 86400000000" and ?n = "nat (t mod 86400000000)"
  let ?q = "?n div 1000000"
  note e = encode_timestamp_text [OF assms]
  obtain y m d where c: "civil_from_days ?day = (y, m, d)" by (metis surj_pair)
  from e(3) c have y: "1000 \<le> y" "y \<le> 9999" by simp_all
  have v: "valid_date y m d" and n: "days_from_civil y m d = ?day" using days_of_civil [of ?day] c by simp_all
  from v have md: "1 \<le> m" "m \<le> 12" "1 \<le> d" "d \<le> 31" by (auto simp: valid_date_def month_length_def split: if_splits)
  from y md have ints: "int (nat y) = y" "int (nat m) = m" "int (nat d) = d" by simp_all
  from y md have small: "int (nat y) \<le> i64_max" "nat m < 256" "nat d < 256"
    by (simp add: i64_max_def, linarith+)
  have pos: "0 \<le> t mod 86400000000" and below: "?n < 86400000000" by (simp_all add: nat_less_iff)
  then have abs: "nat \<bar>t mod 86400000000\<bar> = ?n" by simp
  have s: "s = server_datetime (if ?n mod 1000000 = 0 then 0 else 6) (nat y) (nat m) (nat d) (?q div 3600) (?q div 60 mod 60)
      (?q mod 60) (?n mod 1000000)"
    using y pos by (simp add: e(1) timestamp_text_def server_datetime_def render_ymd_text date_text_ymd [OF c]
        encode_clock_server [of "t mod 86400000000", unfolded abs] flip: encode_clock_time)
  have "?q < 86400" using below by linarith
  then have h: "?q div 3600 \<le> 23" "?q div 60 mod 60 \<le> 59" "?q mod 60 \<le> 59" by simp_all
  then have h256: "?q div 3600 < 256" "?q div 60 mod 60 < 256" "?q mod 60 < 256" by linarith+
  have "int ((?q div 3600 * 3600 + ?q div 60 mod 60 * 60 + ?q mod 60) * 1000000 + ?n mod 1000000) = int ?n"
    by (simp only: clock_total) simp
  then have total: "(int (?q div 3600) * 3600 + int (?q div 60 mod 60) * 60 + int (?q mod 60)) * 1000000 + int (?n mod 1000000) = int ?n"
    by simp
  have "parse_timestamp_naive s = map_option (\<lambda>base. base + int (?n mod 1000000))
      (timestamp_micros (int (nat y)) (int (nat m)) (int (nat d)) (int (?q div 3600)) (int (?q div 60 mod 60)) (int (?q mod 60)))"
    unfolding s by (rule my_timestamp_text [OF small h256 fraction_fits_clock])
  also have "timestamp_micros (int (nat y)) (int (nat m)) (int (nat d)) (int (?q div 3600)) (int (?q div 60 mod 60)) (int (?q mod 60)) =
      Some (?day * 86400 * 1000000 + (int (?q div 3600) * 3600 + int (?q div 60 mod 60) * 60 + int (?q mod 60)) * 1000000)"
    unfolding ints by (rule timestamp_micros_valid [OF n]) (use md h in linarith)+
  also have "map_option (\<lambda>base. base + int (?n mod 1000000)) \<dots> = Some (?day * 86400000000 + int ?n)"
    by (rule day_and_clock [OF total])
  also have "\<dots> = Some t" unfolding int_nat_eq using pos by (simp only: if_True div_mult_mod_eq)
  finally show ?thesis .
qed


text \<open>What a bound parameter says, read by the MySQL driver where it is a text.\<close>

fun mysql_says :: "mysql_cell \<Rightarrow> sql_value \<Rightarrow> bool" where
  "mysql_says c VNull \<longleftrightarrow> c = CellNull"
| "mysql_says c (VBool flag) \<longleftrightarrow> c = CellInt (if flag then 1 else 0)"
| "mysql_says c (VInt n) \<longleftrightarrow> c = CellInt n"
| "mysql_says c (VUInt n) \<longleftrightarrow> c = (if n \<le> i64_max then CellInt n else CellUInt n)"
| "mysql_says (CellText s) (VDecimal u sc) \<longleftrightarrow>
     (case my_parse_decimal s of Some (VDecimal u' sc') \<Rightarrow> u' * 10 ^ sc = u * 10 ^ sc' | _ \<Rightarrow> False)"
| "mysql_says c (VText t) \<longleftrightarrow> c = CellText t"
| "mysql_says c (VJson t) \<longleftrightarrow> c = CellText t"
| "mysql_says c (VBytes b) \<longleftrightarrow> c = CellBytes b"
| "mysql_says (CellText s) (VDate days) \<longleftrightarrow> parse_date_days s = Some days"
| "mysql_says (CellText s) (VTime t) \<longleftrightarrow> my_time_micros s = Some t"
| "mysql_says (CellText s) (VTimestamp t off) \<longleftrightarrow> parse_timestamp_naive s = Some t"
| "mysql_says (CellFloat y) (VFloat x) \<longleftrightarrow> float_is_finite x"
| "mysql_says (CellText s) (VArray items) \<longleftrightarrow> True"
| "mysql_says (CellText s) (VRow items) \<longleftrightarrow> True"
| "mysql_says (CellText s) (VMap pairs) \<longleftrightarrow> True"
| "mysql_says c v \<longleftrightarrow> False"

lemma mysql_says_decimal:
  assumes "encode_decimal u sc p ts = Inr s" "\<bar>u\<bar> < 2 ^ 127" "sc \<le> 38"
  shows "mysql_says (CellText s) (VDecimal u sc)"
proof -
  from pg_says_decimal [OF assms] show ?thesis
    by (auto simp: my_parse_decimal_pg split: option.splits)
qed

lemma mysql_scalars:
  "mysql_integer sql v = Inr c \<Longrightarrow> in_driver_range v \<Longrightarrow> mysql_says c v"
  "mysql_time sql v = Inr c \<Longrightarrow> mysql_says c v"
  "mysql_text_value tt v = Inr c \<Longrightarrow> mysql_says c v"
  "mysql_binary tt v = Inr c \<Longrightarrow> mysql_says c v"
  "mysql_json ef v = Inr c \<Longrightarrow> mysql_says c v"
  "mysql_float32 ef v = Inr c \<Longrightarrow> mysql_says c v"
  "mysql_float64 v = Inr c \<Longrightarrow> mysql_says c v"
  "uuid_value v = Inr s \<Longrightarrow> mysql_says (CellText s) v"
proof -
  show "mysql_integer sql v = Inr c \<Longrightarrow> in_driver_range v \<Longrightarrow> mysql_says c v"
    by (cases v) (auto simp: mysql_integer_def integer_def in_driver_range_def fits_i64_def i64_min_def split: prod.splits if_splits)
  show "mysql_time sql v = Inr c \<Longrightarrow> mysql_says c v"
    by (cases v) (auto simp: mysql_time_def my_reads_clock split: if_splits)
  show "mysql_text_value tt v = Inr c \<Longrightarrow> mysql_says c v"
    by (cases v) (auto simp: mysql_text_value_def)
  show "mysql_binary tt v = Inr c \<Longrightarrow> mysql_says c v"
    by (cases v) (auto simp: mysql_binary_def split: target_type.splits option.splits if_splits)
  show "mysql_json ef v = Inr c \<Longrightarrow> mysql_says c v"
    by (cases v) (auto simp: mysql_json_def)
  show "mysql_float32 ef v = Inr c \<Longrightarrow> mysql_says c v"
    by (cases v) (auto simp: mysql_float32_def Let_def split: if_splits)
  show "mysql_float64 v = Inr c \<Longrightarrow> mysql_says c v"
    by (cases v) (auto simp: mysql_float64_def split: if_splits)
  show "uuid_value v = Inr s \<Longrightarrow> mysql_says (CellText s) v"
    by (cases v) (auto simp: uuid_value_def split: if_splits)
qed

lemma Inr_map_sum: "map_sum id f r = Inr y \<longleftrightarrow> (\<exists>x. r = Inr x \<and> y = f x)"
  by (cases r) auto




section \<open>What does not come back\<close>

text \<open>A time inside a composite is written without its sign; as a column of its own it keeps it.\<close>

lemma sign_is_lost_in_json: "json_write ef depth (VTime (- t)) = json_write ef depth (VTime t)"
  by (simp add: json_write.simps [of ef depth "VTime _"] write_json_scalar_def encode_clock_def)

end
